(* ===== verification/Prelude.thy ===== *)
theory Prelude
  imports Main "HOL-Library.Multiset" "HOL-Library.Sublist" "HOL-Library.AList"
begin

text \<open>
  What every component shares: the errors of the program as values, the result monad in which
  a \<open>throw\<close> or a failed \<open>TORCH_CHECK\<close> ends a computation, one-dimensional tensor slicing, and
  the collections of rewrite rules the component proofs use.
\<close>

section \<open>Errors and results\<close>

text \<open>
  \<open>TorchCheck m\<close> is a failed \<open>TORCH_CHECK(_, m)\<close> (a \<open>c10::Error\<close>), the next three are the
  standard exceptions the program throws, \<open>AssertFail\<close> is a failed \<open>assert\<close> and
  \<open>OutOfFuel\<close> marks a loop that used up the fuel of the model: it is never a result of the
  program, and every component that loops proves that its fuel is enough.
\<close>

datatype error =
    TorchCheck string
  | RuntimeError string
  | InvalidArgument string
  | IndexError string
  | OutOfRange string
  | AssertFail string
  | OutOfFuel

type_synonym 'a result = "error + 'a"

definition res_bind :: "'a result \<Rightarrow> ('a \<Rightarrow> 'b result) \<Rightarrow> 'b result" where
  "res_bind m f = (case m of Inl e \<Rightarrow> Inl e | Inr x \<Rightarrow> f x)"

definition check :: "bool \<Rightarrow> error \<Rightarrow> unit result" where
  "check b e = (if b then Inr () else Inl e)"

named_theorems res_simps \<open>rewriting of result computations\<close>

lemma res_bind_Inr [simp]: "res_bind (Inr x) f = f x"
  by (simp add: res_bind_def)

lemma res_bind_Inl [simp]: "res_bind (Inl e) f = Inl e"
  by (simp add: res_bind_def)

lemma res_bind_eq_Inr [res_simps]:
  "res_bind m f = Inr y \<longleftrightarrow> (\<exists>x. m = Inr x \<and> f x = Inr y)"
  by (cases m) auto

lemma res_bind_eq_Inl [res_simps]:
  "res_bind m f = Inl e \<longleftrightarrow> m = Inl e \<or> (\<exists>x. m = Inr x \<and> f x = Inl e)"
  by (cases m) auto

lemma res_bind_assoc: "res_bind (res_bind m f) g = res_bind m (\<lambda>x. res_bind (f x) g)"
  by (cases m) auto

lemma res_bind_cong [fundef_cong]:
  "m = m' \<Longrightarrow> (\<And>x. m' = Inr x \<Longrightarrow> f x = f' x) \<Longrightarrow> res_bind m f = res_bind m' f'"
  by (cases m') auto

lemma check_True [simp]: "check True e = Inr ()"
  by (simp add: check_def)

lemma check_False [simp]: "check False e = Inl e"
  by (simp add: check_def)

lemma check_eq_Inr [res_simps]: "check b e = Inr u \<longleftrightarrow> b"
  by (simp add: check_def)

lemma check_eq_Inl [res_simps]: "check b e = Inl e' \<longleftrightarrow> \<not> b \<and> e = e'"
  by (auto simp: check_def)

text \<open>A loop over a list that stops at the first error.\<close>

fun res_fold :: "('a \<Rightarrow> 's \<Rightarrow> 's result) \<Rightarrow> 'a list \<Rightarrow> 's \<Rightarrow> 's result" where
  "res_fold f [] s = Inr s"
| "res_fold f (x # xs) s = res_bind (f x s) (res_fold f xs)"

lemma res_fold_append:
  "res_fold f (xs @ ys) s = res_bind (res_fold f xs s) (res_fold f ys)"
proof (induction xs arbitrary: s)
  case (Cons x xs)
  then have "res_fold f (xs @ ys) = (\<lambda>s. res_bind (res_fold f xs s) (res_fold f ys))" by blast
  then show ?case by (simp add: res_bind_assoc)
qed simp

lemma res_fold_invariant:
  assumes "res_fold f xs s = Inr s'" and "I s"
    and "\<And>x s s'. x \<in> set xs \<Longrightarrow> I s \<Longrightarrow> f x s = Inr s' \<Longrightarrow> I s'"
  shows "I s'"
  using assms
proof (induction xs arbitrary: s)
  case Nil
  then show ?case by simp
next
  case (Cons x xs)
  then obtain s1 where s1: "f x s = Inr s1" "res_fold f xs s1 = Inr s'"
    by (auto simp: res_simps)
  have "I s1" using Cons.prems(2,3) s1(1) by auto
  with s1(2) show ?case by (rule Cons.IH) (use Cons.prems(3) in auto)
qed

section \<open>Slices of one-dimensional tensors\<close>

text \<open>
  \<open>t.slice(0, a, b)\<close> of LibTorch for \<open>0 \<le> a\<close>: both ends are clamped to the length, and the
  result is empty when \<open>b \<le> a\<close>.
\<close>

definition tslice :: "nat \<Rightarrow> nat \<Rightarrow> 'a list \<Rightarrow> 'a list" where
  "tslice a b t = drop a (take b t)"

lemma tslice_0 [simp]: "tslice 0 b t = take b t"
  by (simp add: tslice_def)

lemma length_tslice [simp]: "length (tslice a b t) = min b (length t) - a"
  by (simp add: tslice_def min.commute)

lemma tslice_empty [simp]: "b \<le> a \<Longrightarrow> tslice a b t = []"
  by (simp add: tslice_def)

lemma take_tslice_append: "a \<le> b \<Longrightarrow> take a t @ tslice a b t = take b t"
  unfolding tslice_def
  by (metis append_take_drop_id min.absorb1 min.commute take_take)

lemma tslice_full: "length t \<le> b \<Longrightarrow> tslice a b t = drop a t"
  by (simp add: tslice_def)

lemma nth_tslice: "i < min b (length t) - a \<Longrightarrow> tslice a b t ! i = t ! (a + i)"
  by (auto simp: tslice_def less_diff_conv add.commute)

section \<open>Lists and prefixes\<close>

lemma prefix_length_less: "prefix xs ys \<Longrightarrow> xs \<noteq> ys \<Longrightarrow> length xs < length ys"
  by (metis prefix_length_less prefix_order.le_neq_trans)

lemma prefix_same_length_eq: "prefix xs zs \<Longrightarrow> prefix ys zs \<Longrightarrow> length xs = length ys \<Longrightarrow> xs = ys"
  by (metis append_eq_append_conv prefix_def)

lemma prefix_iff_take: "prefix xs ys \<longleftrightarrow> length xs \<le> length ys \<and> xs = take (length xs) ys"
  by (metis append_eq_conv_conj prefix_length_le take_is_prefix prefix_def)

lemma take_of_prefix: "prefix xs ys \<Longrightarrow> take (length xs) ys = xs"
  by (auto simp: prefix_def)

lemma prefix_append_hd:
  "prefix (xs @ [x]) (ys) \<Longrightarrow> prefix (xs @ zs) ys \<Longrightarrow> zs \<noteq> [] \<Longrightarrow> x = hd zs"
  by (metis append_eq_conv_conj hd_append2 list.sel(1) prefix_def append.assoc
      append_Cons same_append_eq)

lemma mset_take_drop: "mset (take n xs) + mset (drop n xs) = mset xs"
  by (metis append_take_drop_id mset_append)

lemma sum_mset_fun_upd_notin:
  "x \<notin># M \<Longrightarrow> (\<Sum>y\<in>#M. (f(x := v)) y) = (\<Sum>y\<in>#M. f y)"
  by (induction M) auto

end
