(* ===== verification/MathUtils.thy ===== *)
theory MathUtils
  imports Prelude "HOL-Library.Signed_Division"
begin

text \<open>
  The integer helpers of \<^verbatim>\<open>include/sglang/utils/math_utils.h\<close>. C's \<open>/\<close> on signed integers
  truncates towards zero, which is \<open>sdiv\<close> here. The lengths of tensors are non-negative
  \<open>int64_t\<close> values and are \<open>nat\<close> in the model, so the \<open>int64_t\<close> overloads of \<open>align_down\<close>
  are the one function \<open>align_down64\<close>.
\<close>

definition div_even :: "int \<Rightarrow> int \<Rightarrow> bool \<Rightarrow> int result" where
  "div_even a b allow_replicate =
     (if allow_replicate \<and> b > a then
        res_bind (check (b smod a = 0)
            (AssertFail ''b must be divisible by a for KV head replication''))
          (\<lambda>_. Inr 1)
      else
        res_bind (check (a smod b = 0) (AssertFail ''a must be divisible by b''))
          (\<lambda>_. Inr (a sdiv b)))"

definition div_ceil :: "int \<Rightarrow> int \<Rightarrow> int" where
  "div_ceil a b = (a + b - 1) sdiv b"

definition align_ceil :: "int \<Rightarrow> int \<Rightarrow> int" where
  "align_ceil a b = div_ceil a b * b"

definition align_down :: "int \<Rightarrow> int \<Rightarrow> int" where
  "align_down a b = (a sdiv b) * b"

definition align_down64 :: "nat \<Rightarrow> nat \<Rightarrow> nat" where
  "align_down64 a b = (a div b) * b"

lemma sdiv_nonneg: "0 \<le> a \<Longrightarrow> 0 < b \<Longrightarrow> (a :: int) sdiv b = a div b"
  by (simp add: signed_divide_int_def sgn_if)

lemma align_down64_eq: "int (align_down64 a b) = align_down (int a) (int b)"
  by (cases "b = 0")
    (simp_all add: align_down64_def align_down_def sdiv_nonneg zdiv_int)

lemma align_down64_1 [simp]: "align_down64 a (Suc 0) = a"
  by (simp add: align_down64_def)

lemma align_down64_le: "align_down64 a b \<le> a"
  by (simp add: align_down64_def)

lemma div_ceil_1 [simp]: "div_ceil a 1 = a"
  by (simp add: div_ceil_def signed_divide_int_def abs_mult_sgn mult.commute)

lemma div_ceil_bounds:
  assumes "0 \<le> a" "0 < b"
  shows "a \<le> div_ceil a b * b" and "div_ceil a b * b < a + b"
proof -
  have d: "div_ceil a b = (a + b - 1) div b"
    using assms by (simp add: div_ceil_def sdiv_nonneg)
  have m: "(a + b - 1) div b * b + (a + b - 1) mod b = a + b - 1" by simp
  have "0 \<le> (a + b - 1) mod b" "(a + b - 1) mod b < b" using assms by simp_all
  with m show "a \<le> div_ceil a b * b" and "div_ceil a b * b < a + b"
    unfolding d by linarith+
qed

lemma div_ceil_nonneg: "0 \<le> a \<Longrightarrow> 0 < b \<Longrightarrow> 0 \<le> div_ceil a b"
  by (simp add: div_ceil_def sdiv_nonneg pos_imp_zdiv_nonneg_iff)

lemma div_ceil_mono: "0 \<le> a \<Longrightarrow> a \<le> a' \<Longrightarrow> 0 < b \<Longrightarrow> div_ceil a b \<le> div_ceil a' b"
  by (simp add: div_ceil_def sdiv_nonneg zdiv_mono1)

end
