(* ===== verification/RadixNode.thy ===== *)
theory RadixNode
  imports MathUtils "HOL-Library.Word"
begin

unbundle bit_operations_syntax

text \<open>
  The nodes of the radix tree: \<^verbatim>\<open>src/kvcache/radix_tree.cc\<close>,
  \<^verbatim>\<open>include/sglang/kvcache/radix_tree.h\<close> and \<^verbatim>\<open>src/kernels/radix.cc\<close>.

  The code links nodes by raw pointers (a parent pointer, a hash map of children, handles
  that keep a pointer to a node), so the model has an explicit store: a node is a number,
  its index in \<open>owned_nodes_\<close>, and \<open>node\<close> maps it to its fields. The store lives in the
  record of the prefix cache, which owns the nodes. A token is the \<open>int\<close> value of an
  \<open>int32_t\<close>; a child key is the \<open>int\<close> value of an \<open>int64_t\<close>.
\<close>

section \<open>Keys\<close>

text \<open>
  One round of the hash combine of \<open>get_key_fn\<close>, on 64-bit words:
  \<open>h \<leftarrow> h XOR (t + 0x9e3779b9 + (h << 6) + (h >> 2))\<close>, the right shift arithmetic.
\<close>

definition hash_step :: "64 word \<Rightarrow> int \<Rightarrow> 64 word" where
  "hash_step h t =
     h XOR (word_of_int t + 0x9e3779b9 + push_bit 6 h + signed_drop_bit 2 h)"

definition get_key_fn :: "nat \<Rightarrow> int list \<Rightarrow> int result" where
  "get_key_fn page_size t =
     (if page_size = 1 then
        (case t of [] \<Rightarrow> Inl (IndexError ''index 0 is out of bounds'') | x # _ \<Rightarrow> Inr x)
      else Inr (sint (fold (\<lambda>x h. hash_step h x) (take page_size t) 0)))"

text \<open>\<open>fast_compare_key\<close>: the index of the first difference, or the smaller length.\<close>

function compare_from :: "int list \<Rightarrow> int list \<Rightarrow> nat \<Rightarrow> nat \<Rightarrow> nat" where
  "compare_from lhs rhs len i =
     (if i < len then (if lhs ! i \<noteq> rhs ! i then i else compare_from lhs rhs len (Suc i))
      else len)"
  by pat_completeness auto
termination
  by (relation "measure (\<lambda>(lhs, rhs, len, i). len - i)") auto

declare compare_from.simps [simp del]

definition fast_compare_key :: "int list \<Rightarrow> int list \<Rightarrow> nat" where
  "fast_compare_key lhs rhs =
     (let len = min (length lhs) (length rhs) in
      if len = 0 then 0 else compare_from lhs rhs len 0)"

section \<open>Nodes and the store\<close>

record radix_node =
  children :: "(int \<times> nat) list"
  ref_count :: int
  uuid :: nat
  timestamp :: int
  node_parent :: "nat option"
  node_key :: "int list"
  node_value :: "int list"
  node_length :: nat

text \<open>
  The fields of \<open>RadixPrefixCache\<close> and of the process it reads: \<open>owned\<close> is
  \<open>owned_nodes_.size()\<close> (a node is never given back to the allocator before the cache is
  destroyed), \<open>counter\<close> the static \<open>RadixTreeNode::counter\<close>, and \<open>clock n\<close> the value of the
  \<open>n\<close>-th reading of \<open>steady_clock\<close>, of which \<open>clock_reads\<close> have been made.
\<close>

record radix_cache =
  page_size :: nat
  node :: "nat \<Rightarrow> radix_node"
  owned :: nat
  evictable_size :: int
  protected_size :: int
  counter :: nat
  clock :: "nat \<Rightarrow> int"
  clock_reads :: nat

definition read_clock :: "radix_cache \<Rightarrow> int \<times> radix_cache" where
  "read_clock c = (clock c (clock_reads c), c\<lparr>clock_reads := Suc (clock_reads c)\<rparr>)"

definition upd_node :: "nat \<Rightarrow> (radix_node \<Rightarrow> radix_node) \<Rightarrow> radix_cache \<Rightarrow> radix_cache" where
  "upd_node n f c = c\<lparr>node := (node c)(n := f (node c n))\<rparr>"

definition is_root :: "radix_cache \<Rightarrow> nat \<Rightarrow> bool" where
  "is_root c n = (node_parent (node c n) = None)"

definition is_leaf :: "radix_cache \<Rightarrow> nat \<Rightarrow> bool" where
  "is_leaf c n = (children (node c n) = [])"

text \<open>The constructor, and the node's place at the end of \<open>owned_nodes_\<close>.\<close>

definition new_node :: "int \<Rightarrow> radix_cache \<Rightarrow> nat \<times> radix_cache" where
  "new_node ts c =
     (let (t, c') = (if ts = 0 then read_clock c else (ts, c)) in
      (owned c', c'\<lparr>node := (node c')(owned c' :=
           \<lparr>children = [], ref_count = 0, uuid = counter c', timestamp = t,
            node_parent = None, node_key = [], node_value = [], node_length = 0\<rparr>),
         owned := Suc (owned c'), counter := Suc (counter c')\<rparr>))"

definition set_key_value ::
  "nat \<Rightarrow> int list \<Rightarrow> int list \<Rightarrow> radix_cache \<Rightarrow> radix_cache result" where
  "set_key_value n key val c =
     res_bind (check (length key = length val)
         (TorchCheck ''RadixTreeNode::set_key_value: key and value must have the same length''))
       (\<lambda>_. Inr (upd_node n
          (\<lambda>x. x\<lparr>node_key := key, node_value := val, node_length := length key\<rparr>) c))"

definition set_parent :: "nat \<Rightarrow> nat \<Rightarrow> radix_cache \<Rightarrow> radix_cache result" where
  "set_parent n p c =
     res_bind (get_key_fn (page_size c) (node_key (node c n))) (\<lambda>k.
       Inr (upd_node p (\<lambda>x. x\<lparr>children := AList.update k n (children x)\<rparr>)
              (upd_node n (\<lambda>x. x\<lparr>node_parent := Some p\<rparr>) c)))"

definition get_match_len :: "radix_cache \<Rightarrow> nat \<Rightarrow> int list \<Rightarrow> nat" where
  "get_match_len c n input_ids = fast_compare_key (node_key (node c n)) input_ids"

definition split_at :: "nat \<Rightarrow> nat \<Rightarrow> radix_cache \<Rightarrow> (nat \<times> radix_cache) result" where
  "split_at n pos c =
     res_bind (check (pos > 0 \<and> pos < node_length (node c n))
         (TorchCheck ''split_at: pos must be in range (0, length)'')) (\<lambda>_.
     case node_parent (node c n) of
       None \<Rightarrow> Inl (TorchCheck ''split_at: cannot split root node'')
     | Some old_parent \<Rightarrow>
         (let this = node c n; (m, c1) = new_node (timestamp this) c in
          res_bind (set_key_value m (take pos (node_key this)) (take pos (node_value this)) c1)
            (\<lambda>c2. res_bind (set_parent m old_parent c2)
            (\<lambda>c3. let c4 = upd_node m (\<lambda>x. x\<lparr>ref_count := ref_count this\<rparr>) c3 in
            res_bind (set_key_value n (drop pos (node_key this)) (drop pos (node_value this)) c4)
            (\<lambda>c5. res_bind (set_parent n m c5)
            (\<lambda>c6. Inr (m, c6)))))))"

section \<open>Lemmas on keys and on the store\<close>

text \<open>\<open>fast_compare_key\<close> computes the length of the longest common prefix.\<close>

lemma compare_from_lcp:
  assumes "len = min (length xs) (length ys)" "i \<le> len" "take i xs = take i ys"
  shows "compare_from xs ys len i = length (longest_common_prefix xs ys)"
  using assms
proof (induction xs ys len i rule: compare_from.induct)
  case (1 xs ys len i)
  show ?case
  proof (cases "i < len")
    case False
    with 1(3) have "i = len" by simp
    have "longest_common_prefix xs ys = take len xs"
    proof (rule prefix_order.antisym)
      show "prefix (take len xs) (longest_common_prefix xs ys)"
        using 1(4) \<open>i = len\<close> by (intro longest_common_prefix_max_prefix) (metis take_is_prefix)+
      let ?l = "longest_common_prefix xs ys"
      have "length ?l \<le> len"
        unfolding 1(2) by (simp add: longest_common_prefix_prefix1 longest_common_prefix_prefix2
            prefix_length_le)
      moreover have "?l = take (length ?l) xs"
        using longest_common_prefix_prefix1 [of xs ys] by (metis prefix_iff_take)
      ultimately have "?l = take (length ?l) (take len xs)" by (simp add: min_absorb1)
      then show "prefix ?l (take len xs)" by (metis take_is_prefix)
    qed
    with 1(2) have "length (longest_common_prefix xs ys) = len" by simp
    with False show ?thesis by (simp add: compare_from.simps [of xs ys len i])
  next
    case True
    then have il: "i < length xs" "i < length ys" using 1(2) by simp_all
    show ?thesis
    proof (cases "xs ! i = ys ! i")
      case eq: True
      have "take (Suc i) xs = take (Suc i) ys"
        using il eq 1(4) by (simp add: take_Suc_conv_app_nth)
      moreover have "\<not> xs ! i \<noteq> ys ! i" "Suc i \<le> len" using eq True by simp_all
      ultimately have "compare_from xs ys len (Suc i) = length (longest_common_prefix xs ys)"
        using 1(1) [OF True] 1(2) by blast
      then show ?thesis using True eq by (simp add: compare_from.simps [of xs ys len i])
    next
      case ne: False
      have "prefix (take i xs) (longest_common_prefix xs ys)"
        using 1(4) by (intro longest_common_prefix_max_prefix) (metis take_is_prefix)+
      moreover have "length (longest_common_prefix xs ys) \<le> i"
      proof (rule ccontr)
        let ?l = "longest_common_prefix xs ys"
        assume "\<not> length ?l \<le> i"
        then have "?l ! i = xs ! i" "?l ! i = ys ! i"
          by (metis longest_common_prefix_prefix1 nth_append prefix_def not_le,
              metis longest_common_prefix_prefix2 nth_append prefix_def not_le)
        with ne show False by simp
      qed
      moreover have "length (take i xs) = i" using il by simp
      ultimately have "length (longest_common_prefix xs ys) = i"
        by (metis le_antisym prefix_length_le)
      with True ne show ?thesis by (simp add: compare_from.simps [of xs ys len i])
    qed
  qed
qed

lemma fast_compare_key_lcp:
  "fast_compare_key xs ys = length (longest_common_prefix xs ys)"
proof (cases "min (length xs) (length ys) = 0")
  case True
  then have "xs = [] \<or> ys = []" by (auto simp: min_def split: if_splits)
  then have "length (longest_common_prefix xs ys) = 0"
    by (cases xs; cases ys) auto
  with True show ?thesis by (simp add: fast_compare_key_def)
next
  case False
  have "compare_from xs ys (min (length xs) (length ys)) 0 = length (longest_common_prefix xs ys)"
    by (rule compare_from_lcp) simp_all
  with False show ?thesis unfolding fast_compare_key_def Let_def by (simp only: if_False)
qed

lemma get_key_fn_1 [simp]: "t \<noteq> [] \<Longrightarrow> get_key_fn (Suc 0) t = Inr (hd t)"
  by (cases t) (simp_all add: get_key_fn_def)

lemma upd_node_sel [simp]:
  "node (upd_node n f c) m = (if m = n then f (node c n) else node c m)"
  "page_size (upd_node n f c) = page_size c"
  "owned (upd_node n f c) = owned c"
  "evictable_size (upd_node n f c) = evictable_size c"
  "protected_size (upd_node n f c) = protected_size c"
  "counter (upd_node n f c) = counter c"
  "clock (upd_node n f c) = clock c"
  "clock_reads (upd_node n f c) = clock_reads c"
  by (simp_all add: upd_node_def)

lemma set_key_value_eq:
  "length key = length val \<Longrightarrow> set_key_value n key val c = Inr (upd_node n
     (\<lambda>x. x\<lparr>node_key := key, node_value := val, node_length := length key\<rparr>) c)"
  by (simp add: set_key_value_def)

end
