(* ===== verification/PrefixCache.thy ===== *)
theory PrefixCache
  imports RadixNode
begin

text \<open>
  The prefix cache \<open>RadixPrefixCache\<close> of \<^verbatim>\<open>src/kvcache/cache_manager.cc\<close> and its header, with
  the types of \<^verbatim>\<open>include/sglang/kvcache/base.h\<close>: handles, the walk that matches a prefix and
  splits a node, insertion, the reference counts that protect a prefix from eviction, and
  eviction by least recent use.

  The loops that follow pointers (up the parents, down the children, over the stack of the
  leaf search, over the eviction heap) carry fuel: the number of owned nodes, or the length of
  the input for the walk. The theories \<open>RadixInsert\<close>, \<open>RadixLock\<close> and \<open>RadixLru\<close> show that it is always enough.
\<close>

section \<open>Handles and results\<close>

record cache_handle =
  handle_len :: nat
  handle_node :: nat

record size_info =
  si_evictable :: int
  si_protected :: int

definition total_size :: "size_info \<Rightarrow> int" where
  "total_size s = si_evictable s + si_protected s"

definition root_node :: nat where
  "root_node = 0"

definition radix_cache_init :: "nat \<Rightarrow> nat \<Rightarrow> (nat \<Rightarrow> int) \<Rightarrow> nat \<Rightarrow> radix_cache" where
  "radix_cache_init ps cnt clk reads =
     (let c0 = \<lparr>page_size = ps,
                node = (\<lambda>_. \<lparr>children = [], ref_count = 0, uuid = 0, timestamp = 0,
                             node_parent = None, node_key = [], node_value = [],
                             node_length = 0\<rparr>),
                owned = 0, evictable_size = 0, protected_size = 0, counter = cnt,
                clock = clk, clock_reads = reads\<rparr>;
          (r, c1) = new_node 0 c0
      in upd_node r (\<lambda>x. x\<lparr>ref_count := 1\<rparr>) c1)"

fun matched_loop :: "nat \<Rightarrow> radix_cache \<Rightarrow> nat \<Rightarrow> int list list \<Rightarrow> int list list result" where
  "matched_loop 0 c n value_list = Inl OutOfFuel"
| "matched_loop (Suc fuel) c n value_list =
     (case node_parent (node c n) of
        None \<Rightarrow> Inr value_list
      | Some p \<Rightarrow> matched_loop fuel c p (value_list @ [node_value (node c n)]))"

definition get_matched_indices :: "radix_cache \<Rightarrow> cache_handle \<Rightarrow> int list result" where
  "get_matched_indices c h =
     res_bind (matched_loop (Suc (owned c)) c (handle_node h) [])
       (\<lambda>value_list. Inr (concat (rev value_list)))"

section \<open>Locking\<close>

fun unlock_loop :: "nat \<Rightarrow> nat \<Rightarrow> radix_cache \<Rightarrow> radix_cache result" where
  "unlock_loop 0 n c = Inl OutOfFuel"
| "unlock_loop (Suc fuel) n c =
     (case node_parent (node c n) of
        None \<Rightarrow> Inr c
      | Some p \<Rightarrow>
          (let c1 = upd_node n (\<lambda>x. x\<lparr>ref_count := ref_count x - 1\<rparr>) c;
               len = int (node_length (node c1 n)) in
           res_bind (check (ref_count (node c1 n) \<ge> 0)
               (TorchCheck ''lock_handle: ref_count went negative'')) (\<lambda>_.
           unlock_loop fuel p
             (if ref_count (node c1 n) = 0
              then c1\<lparr>evictable_size := evictable_size c1 + len,
                      protected_size := protected_size c1 - len\<rparr>
              else c1))))"

fun lock_loop :: "nat \<Rightarrow> nat \<Rightarrow> radix_cache \<Rightarrow> radix_cache result" where
  "lock_loop 0 n c = Inl OutOfFuel"
| "lock_loop (Suc fuel) n c =
     (case node_parent (node c n) of
        None \<Rightarrow> Inr c
      | Some p \<Rightarrow>
          (let len = int (node_length (node c n));
               c1 = (if ref_count (node c n) = 0
                     then c\<lparr>evictable_size := evictable_size c - len,
                            protected_size := protected_size c + len\<rparr>
                     else c) in
           lock_loop fuel p (upd_node n (\<lambda>x. x\<lparr>ref_count := ref_count x + 1\<rparr>) c1)))"

definition lock_handle :: "cache_handle \<Rightarrow> bool \<Rightarrow> radix_cache \<Rightarrow> radix_cache result" where
  "lock_handle h unlock c =
     (if unlock then unlock_loop (Suc (owned c)) (handle_node h) c
      else lock_loop (Suc (owned c)) (handle_node h) c)"

section \<open>Matching and insertion\<close>

fun walk_loop ::
  "nat \<Rightarrow> int \<Rightarrow> int list \<Rightarrow> nat \<Rightarrow> nat \<Rightarrow> radix_cache \<Rightarrow> (nat \<times> nat \<times> radix_cache) result" where
  "walk_loop 0 tic input_ids prefix_len n c = Inl OutOfFuel"
| "walk_loop (Suc fuel) tic input_ids prefix_len n c =
     (if prefix_len < length input_ids then
        res_bind (get_key_fn (page_size c) (drop prefix_len input_ids)) (\<lambda>child_key.
        case map_of (children (node c n)) child_key of
          None \<Rightarrow> Inr (n, prefix_len, c)
        | Some m \<Rightarrow>
            (let match_len = align_down64 (get_match_len c m (drop prefix_len input_ids))
                               (page_size c);
                 prefix_len' = prefix_len + match_len in
             if match_len \<noteq> node_length (node c m) then
               res_bind (split_at m match_len c) (\<lambda>(m', c'). Inr (m', prefix_len', c'))
             else
               walk_loop fuel tic input_ids prefix_len' m
                 (upd_node m (\<lambda>x. x\<lparr>timestamp := tic\<rparr>) c)))
      else Inr (n, prefix_len, c))"

definition tree_walk :: "int list \<Rightarrow> radix_cache \<Rightarrow> (nat \<times> nat \<times> radix_cache) result" where
  "tree_walk input_ids c =
     (let (tic, c') = read_clock c
      in walk_loop (Suc (length input_ids)) tic input_ids 0 root_node c')"

definition match_prefix :: "int list \<Rightarrow> radix_cache \<Rightarrow> (cache_handle \<times> radix_cache) result" where
  "match_prefix input_ids c =
     res_bind (tree_walk input_ids c) (\<lambda>(n, prefix_len, c').
       Inr (\<lparr>handle_len = prefix_len, handle_node = n\<rparr>, c'))"

definition insert_prefix ::
  "int list \<Rightarrow> int list \<Rightarrow> radix_cache \<Rightarrow> (nat \<times> cache_handle \<times> radix_cache) result" where
  "insert_prefix input_ids indices c =
     (let insert_len = align_down64 (length input_ids) (page_size c);
          trimmed_ids = take insert_len input_ids;
          trimmed_indices = take insert_len indices in
      res_bind (tree_walk trimmed_ids c) (\<lambda>(n, prefix_len, c1).
      res_bind
        (if prefix_len \<noteq> insert_len then
           (let (m, c2) = new_node 0 c1 in
            res_bind (set_key_value m (drop prefix_len trimmed_ids)
                        (drop prefix_len trimmed_indices) c2) (\<lambda>c3.
            res_bind (set_parent m n c3) (\<lambda>c4.
            Inr (m, c4\<lparr>evictable_size :=
                      evictable_size c4 + int (node_length (node c4 m))\<rparr>))))
         else Inr (n, c1))
        (\<lambda>(n', c'). Inr (prefix_len, \<lparr>handle_len = insert_len, handle_node = n'\<rparr>, c'))))"

section \<open>Eviction\<close>

fun collect_loop :: "nat \<Rightarrow> radix_cache \<Rightarrow> nat list \<Rightarrow> nat list \<Rightarrow> nat list result" where
  "collect_loop 0 c stack leaves = Inl OutOfFuel"
| "collect_loop (Suc fuel) c stack leaves =
     (case stack of
        [] \<Rightarrow> Inr leaves
      | n # stack' \<Rightarrow>
          (if is_leaf c n then
             collect_loop fuel c stack'
               (if ref_count (node c n) = 0 \<and> \<not> is_root c n then leaves @ [n] else leaves)
           else
             collect_loop fuel c (rev (map snd (children (node c n))) @ stack') leaves))"

definition collect_leave_nodes_for_evict :: "radix_cache \<Rightarrow> nat list result" where
  "collect_leave_nodes_for_evict c = collect_loop (Suc (owned c)) c [root_node] []"

text \<open>
  The \<open>std::priority_queue\<close> ordered by smallest timestamp first, as the list of its elements.
  The standard leaves open which of several elements of equal priority is the top; the model
  takes the first of the list, and the facts below hold for every choice.
\<close>

definition heap_top :: "(nat \<Rightarrow> int) \<Rightarrow> nat list \<Rightarrow> nat" where
  "heap_top prio h = arg_min_list prio h"

definition heap_pop :: "(nat \<Rightarrow> int) \<Rightarrow> nat list \<Rightarrow> nat list" where
  "heap_pop prio h = remove1 (heap_top prio h) h"

definition heap_push :: "nat \<Rightarrow> nat list \<Rightarrow> nat list" where
  "heap_push n h = h @ [n]"

fun evict_loop ::
  "nat \<Rightarrow> int \<Rightarrow> int \<Rightarrow> int list \<Rightarrow> nat list \<Rightarrow> radix_cache \<Rightarrow> (int list \<times> radix_cache) result" where
  "evict_loop 0 need evicted_size evicted_indices heap c = Inl OutOfFuel"
| "evict_loop (Suc fuel) need evicted_size evicted_indices heap c =
     (if evicted_size < need then
        res_bind (check (heap \<noteq> []) (TorchCheck ''Cannot evict enough cache'')) (\<lambda>_.
        let n = heap_top (\<lambda>m. timestamp (node c m)) heap;
            heap1 = heap_pop (\<lambda>m. timestamp (node c m)) heap in
        case node_parent (node c n) of
          None \<Rightarrow> Inl (TorchCheck ''evict: invalid node state'')
        | Some par \<Rightarrow>
        res_bind (check (ref_count (node c n) = 0 \<and> is_leaf c n)
            (TorchCheck ''evict: invalid node state'')) (\<lambda>_.
        res_bind (get_key_fn (page_size c) (node_key (node c n))) (\<lambda>k.
        let len = int (node_length (node c n));
            c1 = upd_node par (\<lambda>x. x\<lparr>children := AList.delete k (children x)\<rparr>)
                   (c\<lparr>evictable_size := evictable_size c - len\<rparr>);
            heap2 = (if is_leaf c1 par \<and> ref_count (node c1 par) = 0 \<and> \<not> is_root c1 par
                     then heap_push par heap1 else heap1) in
        evict_loop fuel need (evicted_size + len)
          (evicted_indices @ node_value (node c n)) heap2 c1)))
      else Inr (evicted_indices, c))"

definition evict :: "int \<Rightarrow> radix_cache \<Rightarrow> (int list \<times> radix_cache) result" where
  "evict need c =
     (if need = 0 then Inr ([], c)
      else
        res_bind (check (need \<le> evictable_size c) (TorchCheck ''Cannot evict'')) (\<lambda>_.
        res_bind (collect_leave_nodes_for_evict c) (\<lambda>leaves.
        evict_loop (Suc (owned c)) need 0 [] leaves c)))"

definition reset :: "radix_cache \<Rightarrow> radix_cache result" where
  "reset c = Inl (TorchCheck ''RadixPrefixCache::reset is not implemented'')"

definition get_size_info :: "radix_cache \<Rightarrow> size_info" where
  "get_size_info c = \<lparr>si_evictable = evictable_size c, si_protected = protected_size c\<rparr>"

end
