(* ===== verification/RadixTree.thy ===== *)
theory RadixTree
  imports PrefixCache
begin

text \<open>
  The shape of the radix tree in the node store. \<open>tree_inv c L P V\<close> says that the nodes \<open>L\<close>
  form a tree under \<open>root_node\<close> whose parent pointers and child maps agree, that \<open>P n\<close> is the
  token string from the root to \<open>n\<close> and \<open>V n\<close> the slot indices stored along it, and that
  siblings start with different tokens. \<open>reach\<close> and \<open>stored\<close> give the same content without
  naming \<open>L\<close>, \<open>P\<close> and \<open>V\<close>: \<open>stored c s v\<close> holds when the cache maps the last token of the
  prompt prefix \<open>s\<close> to the slot \<open>v\<close>.

  The facts are stated for \<open>page_size = 1\<close>, the only value the engine accepts
  (\<^verbatim>\<open>src/engine/engine.cc\<close>: "Current Engine implementation requires page_size == 1"): then a
  child key is the first token of the child. For larger pages the child key is a hash that
  can collide.
\<close>

section \<open>The tree\<close>

definition linked ::
  "radix_cache \<Rightarrow> (nat \<Rightarrow> int list) \<Rightarrow> (nat \<Rightarrow> int list) \<Rightarrow> nat \<Rightarrow> nat \<Rightarrow> bool" where
  "linked c P V p n \<longleftrightarrow>
     node_parent (node c n) = Some p \<and> P n = P p @ node_key (node c n) \<and>
     V n = V p @ node_value (node c n) \<and> node_key (node c n) \<noteq> [] \<and>
     length (node_value (node c n)) = length (node_key (node c n)) \<and>
     node_length (node c n) = length (node_key (node c n)) \<and>
     (hd (node_key (node c n)), n) \<in> set (children (node c p))"

definition tree_inv ::
  "radix_cache \<Rightarrow> nat set \<Rightarrow> (nat \<Rightarrow> int list) \<Rightarrow> (nat \<Rightarrow> int list) \<Rightarrow> bool" where
  "tree_inv c L P V \<longleftrightarrow>
     page_size c = 1 \<and> finite L \<and> root_node \<in> L \<and> (\<forall>n\<in>L. n < owned c) \<and>
     P root_node = [] \<and> V root_node = [] \<and> node_parent (node c root_node) = None \<and>
     (\<forall>n\<in>L. n \<noteq> root_node \<longrightarrow> (\<exists>p\<in>L. linked c P V p n)) \<and>
     (\<forall>p\<in>L. distinct (map fst (children (node c p))) \<and>
        (\<forall>(k, m)\<in>set (children (node c p)).
           m \<in> L \<and> m \<noteq> root_node \<and> node_parent (node c m) = Some p \<and>
           k = hd (node_key (node c m))))"

definition covers :: "radix_cache \<Rightarrow> (nat \<Rightarrow> int list) \<Rightarrow> nat \<Rightarrow> int list \<Rightarrow> bool" where
  "covers c P n s \<longleftrightarrow>
     prefix s (P n) \<and> length (P n) - length (node_key (node c n)) < length s"

lemma tree_invD:
  assumes "tree_inv c L P V"
  shows "page_size c = 1" "finite L" "root_node \<in> L" "n \<in> L \<Longrightarrow> n < owned c"
    "P root_node = []" "V root_node = []" "node_parent (node c root_node) = None"
  using assms by (auto simp: tree_inv_def)

lemma tree_invI:
  assumes "page_size c = 1" "finite L" "root_node \<in> L" "\<And>n. n \<in> L \<Longrightarrow> n < owned c"
    and "P root_node = []" "V root_node = []" "node_parent (node c root_node) = None"
    and "\<And>n. n \<in> L \<Longrightarrow> n \<noteq> root_node \<Longrightarrow> \<exists>p\<in>L. linked c P V p n"
    and "\<And>p. p \<in> L \<Longrightarrow> distinct (map fst (children (node c p)))"
    and "\<And>p k m. p \<in> L \<Longrightarrow> (k, m) \<in> set (children (node c p)) \<Longrightarrow>
      m \<in> L \<and> m \<noteq> root_node \<and> node_parent (node c m) = Some p \<and> k = hd (node_key (node c m))"
  shows "tree_inv c L P V"
  using assms unfolding tree_inv_def by blast

lemma tree_parent:
  assumes "tree_inv c L P V" "n \<in> L" "n \<noteq> root_node"
  obtains p where "p \<in> L" "linked c P V p n"
  using assms unfolding tree_inv_def by blast

lemma tree_child_keys:
  "tree_inv c L P V \<Longrightarrow> p \<in> L \<Longrightarrow> distinct (map fst (children (node c p)))"
  unfolding tree_inv_def by blast

lemma tree_child:
  assumes "tree_inv c L P V" "p \<in> L" "(k, m) \<in> set (children (node c p))"
  shows "m \<in> L" "m \<noteq> root_node" "linked c P V p m" "k = hd (node_key (node c m))"
proof -
  have *: "m \<in> L \<and> m \<noteq> root_node \<and> node_parent (node c m) = Some p \<and> k = hd (node_key (node c m))"
    using assms unfolding tree_inv_def by blast
  then show "m \<in> L" "m \<noteq> root_node" "k = hd (node_key (node c m))" by auto
  from * obtain q where "q \<in> L" "linked c P V q m"
    using tree_parent [OF assms(1)] by blast
  with * show "linked c P V p m" by (auto simp: linked_def)
qed

lemma linked_len: "linked c P V p n \<Longrightarrow> length (P p) < length (P n)"
  by (auto simp: linked_def)

lemma linked_parent_unique: "linked c P V p n \<Longrightarrow> linked c P V q n \<Longrightarrow> p = q"
  by (auto simp: linked_def)

lemma tree_root_iff:
  "tree_inv c L P V \<Longrightarrow> n \<in> L \<Longrightarrow> node_parent (node c n) = None \<longleftrightarrow> n = root_node"
  by (metis linked_def option.distinct(1) tree_invD(7) tree_parent)

lemma tree_induct [consumes 2, case_names root child]:
  assumes "tree_inv c L P V" "n \<in> L" "Q root_node"
    and "\<And>p n. p \<in> L \<Longrightarrow> n \<in> L \<Longrightarrow> n \<noteq> root_node \<Longrightarrow> linked c P V p n \<Longrightarrow> Q p \<Longrightarrow> Q n"
  shows "Q n"
  using assms(2)
proof (induction "length (P n)" arbitrary: n rule: less_induct)
  case less
  show ?case
  proof (cases "n = root_node")
    case False
    then obtain p where p: "p \<in> L" "linked c P V p n"
      using tree_parent [OF assms(1) less.prems] by blast
    then have "Q p" using less.hyps linked_len by blast
    with p less.prems False show ?thesis using assms(4) by blast
  qed (use assms(3) in simp)
qed

lemma tree_V_length:
  assumes "tree_inv c L P V" "n \<in> L"
  shows "length (V n) = length (P n)"
  using assms
proof (induction rule: tree_induct)
  case root
  then show ?case using tree_invD(5,6) [OF assms(1)] by simp
qed (simp add: linked_def)

lemma tree_P_Nil: "tree_inv c L P V \<Longrightarrow> n \<in> L \<Longrightarrow> P n = [] \<longleftrightarrow> n = root_node"
  by (metis append_is_Nil_conv linked_def tree_invD(5) tree_parent)

lemma covers_linked:
  "linked c P V p n \<Longrightarrow> covers c P n s \<longleftrightarrow> prefix s (P n) \<and> length (P p) < length s"
  by (auto simp: covers_def linked_def)

lemma covers_self: "linked c P V p n \<Longrightarrow> covers c P n (P n)"
  by (auto simp: covers_def linked_def)

text \<open>No two nodes cover the same string: the tree is a trie.\<close>

lemma cover_unique:
  assumes "tree_inv c L P V"
    and "n \<in> L" "m \<in> L" "n \<noteq> root_node" "m \<noteq> root_node" "covers c P n s" "covers c P m s"
  shows "n = m"
  using assms(2-)
proof (induction "length (P n) + length (P m)" arbitrary: n m s rule: less_induct)
  case less
  note inv = assms(1)
  obtain p where p: "p \<in> L" "linked c P V p n" using tree_parent [OF inv] less.prems by blast
  obtain q where q: "q \<in> L" "linked c P V q m" using tree_parent [OF inv] less.prems by blast
  have s: "prefix s (P n)" "prefix s (P m)" "length (P p) < length s" "length (P q) < length s"
    using less.prems covers_linked p q by blast+
  have Pp: "prefix (P p) s" "prefix (P q) s"
    using s p q by (metis linked_def prefixI prefix_length_prefix less_imp_le)+
  have len: "length s \<le> length (P n)" "length s \<le> length (P m)"
    using s prefix_length_le by blast+
  consider (eq) "length (P p) = length (P q)" | (lt) "length (P p) < length (P q)"
    | (gt) "length (P q) < length (P p)" by linarith
  then show ?case
  proof cases
    case eq
    then have PQ: "P p = P q" using Pp prefix_same_length_eq by blast
    have "p = q"
    proof (cases "p = root_node")
      case True
      then show ?thesis using PQ tree_P_Nil [OF inv] tree_invD(5) [OF inv] q(1) by metis
    next
      case False
      then have qr: "q \<noteq> root_node" using PQ tree_P_Nil [OF inv] p(1) q(1) by metis
      have "covers c P p (P p)" "covers c P q (P p)"
        using False qr p(1) q(1) tree_parent [OF inv] covers_self PQ by metis+
      moreover have "length (P p) + length (P q) < length (P n) + length (P m)"
        using s len by linarith
      ultimately show ?thesis using less.hyps p(1) q(1) False qr by blast
    qed
    have "P n ! length (P p) = hd (node_key (node c n))"
      "P m ! length (P p) = hd (node_key (node c m))"
      using p(2) q(2) PQ by (auto simp: linked_def nth_append hd_conv_nth)
    moreover have "P n ! length (P p) = s ! length (P p)" "P m ! length (P p) = s ! length (P p)"
      using s by (metis nth_append prefix_def)+
    ultimately have "hd (node_key (node c n)) = hd (node_key (node c m))" by simp
    then show ?thesis
      using p q \<open>p = q\<close> tree_child_keys [OF inv p(1)]
      by (metis (no_types, lifting) eq_key_imp_eq_value linked_def)
  next
    case lt
    then have "q \<noteq> root_node" using tree_invD(5) [OF inv] by auto
    then have "covers c P q (P q)" using covers_self q(1) tree_parent [OF inv] by metis
    moreover have "covers c P n (P q)"
      using covers_linked [OF p(2)] lt Pp(2) s(1) prefix_order.order_trans by blast
    moreover have "length (P n) + length (P q) < length (P n) + length (P m)"
      using s len by linarith
    ultimately have "n = q"
      using less.hyps less.prems(1,3) q(1) \<open>q \<noteq> root_node\<close> by blast
    then show ?thesis using s(4) len by simp
  next
    case gt
    then have "p \<noteq> root_node" using tree_invD(5) [OF inv] by auto
    then have "covers c P p (P p)" using covers_self p(1) tree_parent [OF inv] by metis
    moreover have "covers c P m (P p)"
      using covers_linked [OF q(2)] gt Pp(1) s(2) prefix_order.order_trans by blast
    moreover have "length (P p) + length (P m) < length (P n) + length (P m)"
      using s len by linarith
    ultimately have "m = p"
      using less.hyps less.prems(2,4) p(1) \<open>p \<noteq> root_node\<close> by blast
    then show ?thesis using s(3) len by simp
  qed
qed

lemma cover_exists:
  assumes "tree_inv c L P V" "n \<in> L" "s \<noteq> []" "prefix s (P n)"
  shows "\<exists>m\<in>L. m \<noteq> root_node \<and> covers c P m s \<and> prefix (P m) (P n)"
  using assms
proof (induction rule: tree_induct)
  case root
  then show ?case using tree_invD(5) [OF assms(1)] by simp
next
  case (child p n)
  show ?case
  proof (cases "prefix s (P p)")
    case True
    then obtain m where "m \<in> L" "m \<noteq> root_node" "covers c P m s" "prefix (P m) (P p)"
      using child by blast
    moreover have "prefix (P p) (P n)" using child by (simp add: linked_def)
    ultimately show ?thesis using prefix_order.order_trans by blast
  next
    case False
    then have "length (P p) < length s"
      using child.hyps(4) child.prems
      by (metis linked_def prefixI prefix_length_prefix not_le)
    then show ?thesis using child covers_linked by blast
  qed
qed

lemma tree_P_inj:
  "tree_inv c L P V \<Longrightarrow> n \<in> L \<Longrightarrow> m \<in> L \<Longrightarrow> P n = P m \<Longrightarrow> n = m"
  by (metis cover_unique covers_self tree_P_Nil tree_parent)

text \<open>The ancestors of a node are the nodes whose string is a prefix of its string.\<close>

lemma ancestor_step:
  assumes "tree_inv c L P V" "n \<in> L" "n \<noteq> root_node" "linked c P V p n" "m \<in> L" "m \<noteq> root_node"
  shows "prefix (P m) (P n) \<longleftrightarrow> m = n \<or> prefix (P m) (P p)"
proof
  assume pre: "prefix (P m) (P n)"
  show "m = n \<or> prefix (P m) (P p)"
  proof (cases "prefix (P m) (P p)")
    case False
    then have "length (P p) < length (P m)"
      using pre assms(4) by (metis linked_def prefixI prefix_length_prefix not_le)
    then have "covers c P n (P m)" using pre covers_linked [OF assms(4)] by blast
    moreover have "covers c P m (P m)"
      using assms covers_self tree_parent by metis
    ultimately show ?thesis using cover_unique [OF assms(1)] assms by blast
  qed simp
next
  assume "m = n \<or> prefix (P m) (P p)"
  then show "prefix (P m) (P n)"
    using assms(4) by (auto simp: linked_def intro: prefix_order.order_trans)
qed

section \<open>The content, without the ghost functions\<close>

inductive reach :: "radix_cache \<Rightarrow> nat \<Rightarrow> int list \<Rightarrow> int list \<Rightarrow> bool" for c where
  reach_root: "reach c root_node [] []"
| reach_child: "reach c p ks vs \<Longrightarrow> (k, m) \<in> set (children (node c p)) \<Longrightarrow>
     reach c m (ks @ node_key (node c m)) (vs @ node_value (node c m))"

definition stored :: "radix_cache \<Rightarrow> int list \<Rightarrow> int \<Rightarrow> bool" where
  "stored c s v \<longleftrightarrow>
     s \<noteq> [] \<and> (\<exists>n ks vs. reach c n ks vs \<and> prefix s ks \<and> v = vs ! (length s - 1))"

lemma reach_iff:
  assumes "tree_inv c L P V"
  shows "reach c n ks vs \<longleftrightarrow> n \<in> L \<and> ks = P n \<and> vs = V n"
proof
  show "n \<in> L \<and> ks = P n \<and> vs = V n" if "reach c n ks vs"
    using that
  proof (induction rule: reach.induct)
    case reach_root
    then show ?case using tree_invD [OF assms] by simp
  next
    case (reach_child p ks vs k m)
    then show ?case using tree_child(1,3) [OF assms, of p k m] by (simp add: linked_def)
  qed
  show "reach c n ks vs" if "n \<in> L \<and> ks = P n \<and> vs = V n"
  proof -
    from that have "n \<in> L" by simp
    with assms have "reach c n (P n) (V n)"
    proof (induction rule: tree_induct)
      case root
      then show ?case using tree_invD [OF assms] reach_root by simp
    next
      case (child p n)
      then show ?case using reach.reach_child [of c p "P p" "V p"] by (auto simp: linked_def)
    qed
    with that show ?thesis by simp
  qed
qed

lemma stored_iff:
  "tree_inv c L P V \<Longrightarrow>
   stored c s v \<longleftrightarrow> s \<noteq> [] \<and> (\<exists>n\<in>L. prefix s (P n) \<and> v = V n ! (length s - 1))"
  by (auto simp: stored_def reach_iff)

lemma linked_V_nth:
  "linked c P V p n \<Longrightarrow> length (V p) = length (P p) \<Longrightarrow> i < length (P p) \<Longrightarrow> V n ! i = V p ! i"
  by (simp add: linked_def nth_append)

text \<open>The slot of a stored prefix is found at the node that covers it.\<close>

lemma V_nth_cover:
  assumes "tree_inv c L P V" "n \<in> L" "m \<in> L" "m \<noteq> root_node" "covers c P m s" "prefix s (P n)"
    "s \<noteq> []"
  shows "V n ! (length s - 1) = V m ! (length s - 1)"
  using assms(1,2,6)
proof (induction rule: tree_induct)
  case root
  with assms(7) tree_invD(5) [OF assms(1)] show ?case by simp
next
  case (child p n)
  show ?case
  proof (cases "prefix s (P p)")
    case True
    then have "length s \<le> length (P p)" by (rule prefix_length_le)
    then have "length s - 1 < length (P p)" using assms(7) by (cases s) auto
    then have "V n ! (length s - 1) = V p ! (length s - 1)"
      using linked_V_nth child.hyps(4) tree_V_length [OF assms(1) child.hyps(1)] by blast
    then show ?thesis using child.IH True by simp
  next
    case False
    then have "length (P p) < length s"
      using child.hyps(4) child.prems by (metis linked_def prefixI prefix_length_prefix not_le)
    then have "covers c P n s" using child covers_linked by blast
    then show ?thesis using cover_unique [OF assms(1)] child assms by blast
  qed
qed

lemma stored_functional:
  assumes "tree_inv c L P V" "stored c s v" "stored c s w"
  shows "v = w"
proof -
  obtain n m where nm: "n \<in> L" "prefix s (P n)" "v = V n ! (length s - 1)"
    "m \<in> L" "prefix s (P m)" "w = V m ! (length s - 1)" "s \<noteq> []"
    using assms stored_iff by metis
  obtain k where "k \<in> L" "k \<noteq> root_node" "covers c P k s"
    using cover_exists [OF assms(1) nm(1) nm(7) nm(2)] by blast
  then show ?thesis using V_nth_cover [OF assms(1)] nm by metis
qed

end
