(* ===== verification/RadixSplit.thy ===== *)
theory RadixSplit
  imports RadixTree
begin

text \<open>
  Reference counts and size counters of the tree, and the steps that change its shape:
  splitting a node, hanging a new leaf below a node, cutting off a leaf. Each lemma gives the
  invariant of the new store and its content.

  \<open>ref_inv c L P K\<close>: \<open>K\<close> is the multiset of the strings of the locked handles, and the count
  of a node is the number of locked handles at or below it. \<open>size_inv\<close>: the two counters of
  the cache are the lengths of the unreferenced and of the referenced nodes.
\<close>

section \<open>Reference counts and sizes\<close>

definition ref_inv ::
  "radix_cache \<Rightarrow> nat set \<Rightarrow> (nat \<Rightarrow> int list) \<Rightarrow> int list multiset \<Rightarrow> bool" where
  "ref_inv c L P K \<longleftrightarrow>
     (\<forall>n\<in>L. n \<noteq> root_node \<longrightarrow> ref_count (node c n) = int (size (filter_mset (prefix (P n)) K))) \<and>
     ref_count (node c root_node) = 1 \<and> (\<forall>h\<in>#K. \<exists>n\<in>L. P n = h)"

definition evictable_part :: "radix_cache \<Rightarrow> nat \<Rightarrow> int" where
  "evictable_part c n = (if ref_count (node c n) = 0 then int (node_length (node c n)) else 0)"

definition protected_part :: "radix_cache \<Rightarrow> nat \<Rightarrow> int" where
  "protected_part c n = (if ref_count (node c n) = 0 then 0 else int (node_length (node c n)))"

definition size_inv :: "radix_cache \<Rightarrow> nat set \<Rightarrow> bool" where
  "size_inv c L \<longleftrightarrow>
     evictable_size c = (\<Sum>n\<in>L - {root_node}. evictable_part c n) \<and>
     protected_size c = (\<Sum>n\<in>L - {root_node}. protected_part c n)"

definition radix_inv ::
  "radix_cache \<Rightarrow> nat set \<Rightarrow> (nat \<Rightarrow> int list) \<Rightarrow> (nat \<Rightarrow> int list) \<Rightarrow> int list multiset \<Rightarrow> bool" where
  "radix_inv c L P V K \<longleftrightarrow> tree_inv c L P V \<and> ref_inv c L P K \<and> size_inv c L"

text \<open>The store is a well-formed radix tree in which the strings \<open>K\<close> are locked.\<close>

definition radix_ok :: "radix_cache \<Rightarrow> int list multiset \<Rightarrow> bool" where
  "radix_ok c K \<longleftrightarrow> (\<exists>L P V. radix_inv c L P V K)"

lemma radix_invD:
  assumes "radix_inv c L P V K"
  shows "tree_inv c L P V" "ref_inv c L P K" "size_inv c L"
  using assms by (simp_all add: radix_inv_def)

lemma ref_count_nonneg: "ref_inv c L P K \<Longrightarrow> n \<in> L \<Longrightarrow> 0 \<le> ref_count (node c n)"
  unfolding ref_inv_def by (cases "n = root_node") auto

text \<open>A node that no lock protects has no locked handle at or below it.\<close>

lemma ref_count_zero:
  "ref_inv c L P K \<Longrightarrow> n \<in> L \<Longrightarrow> ref_count (node c n) = 0 \<Longrightarrow> h \<in># K \<Longrightarrow> \<not> prefix (P n) h"
  unfolding ref_inv_def by (cases "n = root_node") (auto simp: filter_mset_eq_conv)

lemma ref_count_mono:
  assumes "ref_inv c L P K" "n \<in> L" "m \<in> L" "prefix (P n) (P m)" "n \<noteq> root_node" "m \<noteq> root_node"
  shows "ref_count (node c m) \<le> ref_count (node c n)"
proof -
  have "filter_mset (prefix (P m)) K \<subseteq># filter_mset (prefix (P n)) K"
    using assms(4) by (intro filter_mset_mono_strong) (auto intro: prefix_order.order_trans)
  then show ?thesis using assms unfolding ref_inv_def by (simp add: size_mset_mono)
qed

text \<open>Updates that keep the links keep the tree.\<close>

definition same_links :: "radix_cache \<Rightarrow> radix_cache \<Rightarrow> bool" where
  "same_links c c' \<longleftrightarrow> page_size c' = page_size c \<and> owned c' = owned c \<and>
     (\<forall>n. children (node c' n) = children (node c n) \<and>
          node_parent (node c' n) = node_parent (node c n) \<and>
          node_key (node c' n) = node_key (node c n) \<and>
          node_value (node c' n) = node_value (node c n) \<and>
          node_length (node c' n) = node_length (node c n))"

lemma same_links_tree_inv: "same_links c c' \<Longrightarrow> tree_inv c' L P V = tree_inv c L P V"
  unfolding same_links_def tree_inv_def linked_def by simp

lemma same_links_upd:
  assumes "\<And>x. children (f x) = children x \<and> node_parent (f x) = node_parent x \<and>
     node_key (f x) = node_key x \<and> node_value (f x) = node_value x \<and>
     node_length (f x) = node_length x"
  shows "same_links c (upd_node n f c)"
  using assms by (simp add: same_links_def)

lemma same_radix_inv:
  assumes "same_links c c'" "\<And>n. ref_count (node c' n) = ref_count (node c n)"
    and "evictable_size c' = evictable_size c" "protected_size c' = protected_size c"
  shows "radix_inv c' L P V K = radix_inv c L P V K"
proof -
  have "evictable_part c' n = evictable_part c n" "protected_part c' n = protected_part c n" for n
    using assms by (simp_all add: evictable_part_def protected_part_def same_links_def)
  then show ?thesis
    unfolding radix_inv_def same_links_tree_inv [OF assms(1)] ref_inv_def size_inv_def
    using assms(2-) by simp
qed

lemma touch_inv:
  "radix_inv (upd_node n (\<lambda>x. x\<lparr>timestamp := t\<rparr>) c) L P V K = radix_inv c L P V K"
  by (rule same_radix_inv) (simp_all add: same_links_upd)

lemma read_clock_inv: "radix_inv (snd (read_clock c)) L P V K = radix_inv c L P V K"
  by (rule same_radix_inv) (simp_all add: read_clock_def same_links_def)

section \<open>Splitting a node\<close>

lemma new_node_eq:
  obtains t k where "new_node ts c = (owned c, c\<lparr>node := (node c)(owned c :=
      \<lparr>children = [], ref_count = 0, uuid = counter c, timestamp = t, node_parent = None,
       node_key = [], node_value = [], node_length = 0\<rparr>),
    owned := Suc (owned c), counter := Suc (counter c), clock_reads := k\<rparr>)"
proof (cases "ts = 0")
  case True
  then show ?thesis
    using that [where t = "clock c (clock_reads c)" and k = "Suc (clock_reads c)"]
    by (simp add: new_node_def read_clock_def)
next
  case False
  then show ?thesis using that [where t = ts and k = "clock_reads c"] by (simp add: new_node_def)
qed

definition split_cache :: "radix_cache \<Rightarrow> nat \<Rightarrow> nat \<Rightarrow> nat \<Rightarrow> int \<Rightarrow> nat \<Rightarrow> radix_cache" where
  "split_cache c p m pos t k =
     (let x = node c m in
      c\<lparr>node := (node c)(
          owned c := \<lparr>children = [(hd (drop pos (node_key x)), m)], ref_count = ref_count x,
             uuid = counter c, timestamp = t, node_parent = Some p,
             node_key = take pos (node_key x), node_value = take pos (node_value x),
             node_length = pos\<rparr>,
          m := x\<lparr>node_key := drop pos (node_key x), node_value := drop pos (node_value x),
             node_length := node_length x - pos, node_parent := Some (owned c)\<rparr>,
          p := (node c p)\<lparr>children :=
             AList.update (hd (node_key x)) (owned c) (children (node c p))\<rparr>),
        owned := Suc (owned c), counter := Suc (counter c), clock_reads := k\<rparr>)"

lemma split_at_eq:
  assumes inv: "tree_inv c L P V" and m: "m \<in> L" "m \<noteq> root_node" and p: "p \<in> L" "linked c P V p m"
    and pos: "0 < pos" "pos < node_length (node c m)"
  obtains t k where "split_at m pos c = Inr (owned c, split_cache c p m pos t k)"
proof -
  let ?x = "node c m"
  have ps: "page_size c = Suc 0" using tree_invD(1) [OF inv] by simp
  have o: "owned c \<noteq> m" "owned c \<noteq> p" using tree_invD(4) [OF inv] m(1) p(1) by blast+
  have pm: "p \<noteq> m" using linked_len [OF p(2)] by auto
  have lk: "node_parent ?x = Some p" "length (node_value ?x) = length (node_key ?x)"
    "node_length ?x = length (node_key ?x)" using p(2) by (auto simp: linked_def)
  have len: "length (take pos (node_key ?x)) = pos" using pos lk by simp
  have ne: "take pos (node_key ?x) \<noteq> []" "drop pos (node_key ?x) \<noteq> []" using pos lk by auto
  have hd: "hd (take pos (node_key ?x)) = hd (node_key ?x)" using pos(1) by (cases "node_key ?x") (auto simp: hd_take)
  obtain t k where nn: "new_node (timestamp ?x) c = (owned c, c\<lparr>node := (node c)(owned c :=
      \<lparr>children = [], ref_count = 0, uuid = counter c, timestamp = t, node_parent = None,
       node_key = [], node_value = [], node_length = 0\<rparr>),
    owned := Suc (owned c), counter := Suc (counter c), clock_reads := k\<rparr>)"
    using new_node_eq by blast
  have "split_at m pos c = Inr (owned c, split_cache c p m pos t k)"
    using pos lk o pm ne len hd ps
    by (simp add: split_at_def nn Let_def set_key_value_eq set_parent_def split_cache_def
        upd_node_def fun_upd_twist min_absorb1)
  then show thesis by (rule that)
qed

lemma AList_update_set:
  assumes "distinct (map fst al)"
  shows "(k', x) \<in> set (AList.update k v al) \<longleftrightarrow>
     (k' = k \<and> x = v) \<or> (k' \<noteq> k \<and> (k', x) \<in> set al)"
proof -
  have "distinct (map fst (AList.update k v al))" using assms by (rule distinct_update)
  then have "(k', x) \<in> set (AList.update k v al) \<longleftrightarrow> map_of (AList.update k v al) k' = Some x"
    by (simp add: map_of_eq_Some_iff)
  also have "\<dots> \<longleftrightarrow> (k' = k \<and> x = v) \<or> (k' \<noteq> k \<and> map_of al k' = Some x)"
    by (auto simp: update_conv')
  finally show ?thesis using assms by (simp add: map_of_eq_Some_iff)
qed

lemma split_cache_fields:
  assumes "owned c \<noteq> m" "owned c \<noteq> p" "p \<noteq> m"
  shows "node_parent (node (split_cache c p m pos t k) n) =
      (if n = owned c then Some p else if n = m then Some (owned c) else node_parent (node c n))"
    and "node_key (node (split_cache c p m pos t k) n) =
      (if n = owned c then take pos (node_key (node c m))
       else if n = m then drop pos (node_key (node c m)) else node_key (node c n))"
    and "node_value (node (split_cache c p m pos t k) n) =
      (if n = owned c then take pos (node_value (node c m))
       else if n = m then drop pos (node_value (node c m)) else node_value (node c n))"
    and "node_length (node (split_cache c p m pos t k) n) =
      (if n = owned c then pos
       else if n = m then node_length (node c m) - pos else node_length (node c n))"
    and "children (node (split_cache c p m pos t k) n) =
      (if n = owned c then [(hd (drop pos (node_key (node c m))), m)]
       else if n = p then AList.update (hd (node_key (node c m))) (owned c) (children (node c p))
       else children (node c n))"
    and "ref_count (node (split_cache c p m pos t k) n) =
      (if n = owned c then ref_count (node c m) else ref_count (node c n))"
    and "page_size (split_cache c p m pos t k) = page_size c"
    and "owned (split_cache c p m pos t k) = Suc (owned c)"
    and "evictable_size (split_cache c p m pos t k) = evictable_size c"
    and "protected_size (split_cache c p m pos t k) = protected_size c"
  using assms by (auto simp: split_cache_def Let_def)

lemma split_tree_inv:
  assumes inv: "tree_inv c L P V" and m: "m \<in> L" "m \<noteq> root_node" and p: "p \<in> L" "linked c P V p m"
    and pos: "0 < pos" "pos < node_length (node c m)"
  shows "tree_inv (split_cache c p m pos t k) (insert (owned c) L)
     (P(owned c := P p @ take pos (node_key (node c m))))
     (V(owned c := V p @ take pos (node_value (node c m))))"
    (is "tree_inv ?c ?L ?P ?V")
proof -
  let ?o = "owned c"
  have oL: "?o \<notin> L" using tree_invD(4) [OF inv] by blast
  have ne: "?o \<noteq> m" "?o \<noteq> p" "p \<noteq> m" "?o \<noteq> root_node"
    using oL m(1) p(1) linked_len [OF p(2)] tree_invD(3) [OF inv] by auto
  note fld = split_cache_fields [OF ne(1-3)]
  have lk: "length (node_key (node c m)) = node_length (node c m)"
    "length (node_value (node c m)) = node_length (node c m)"
    using p(2) by (simp_all add: linked_def)
  have dk: "distinct (map fst (children (node c q)))" if "q \<in> L" for q
    using tree_child_keys [OF inv that] .
  have L1: "linked ?c ?P ?V p ?o"
    using pos lk ne p(2) dk [OF p(1)]
    by (auto simp: linked_def fld AList_update_set hd_take)
  have L2: "linked ?c ?P ?V ?o m"
    using pos lk ne p(2) by (auto simp: linked_def fld)
  have L3: "linked ?c ?P ?V q n" if "n \<in> L" "n \<noteq> m" "q \<in> L" "linked c P V q n" for q n
  proof -
    have "n \<noteq> ?o" "q \<noteq> ?o" using that oL by auto
    moreover have "hd (node_key (node c n)) \<noteq> hd (node_key (node c m))" if "q = p"
    proof
      assume eq: "hd (node_key (node c n)) = hd (node_key (node c m))"
      have "(hd (node_key (node c n)), n) \<in> set (children (node c p))"
        "(hd (node_key (node c m)), m) \<in> set (children (node c p))"
        using \<open>linked c P V q n\<close> p(2) that by (simp_all add: linked_def)
      with eq dk [OF p(1)] have "n = m" by (metis eq_key_imp_eq_value)
      with \<open>n \<noteq> m\<close> show False ..
    qed
    ultimately show ?thesis
      using that ne dk [OF p(1)] by (auto simp: linked_def fld AList_update_set)
  qed
  have par: "\<exists>q\<in>?L. linked ?c ?P ?V q n" if "n \<in> ?L" "n \<noteq> root_node" for n
  proof (cases "n = ?o \<or> n = m")
    case True
    then show ?thesis using L1 L2 p(1) by auto
  next
    case False
    with that have n: "n \<in> L" "n \<noteq> m" "n \<noteq> root_node" by auto
    obtain q where "q \<in> L" "linked c P V q n" using tree_parent [OF inv n(1,3)] .
    with n L3 have "linked ?c ?P ?V q n" by blast
    with \<open>q \<in> L\<close> show ?thesis by blast
  qed
  have ch: "distinct (map fst (children (node ?c q)))" if "q \<in> ?L" for q
    using that dk p(1) by (auto simp: fld distinct_update)
  have mem: "x \<in> ?L \<and> x \<noteq> root_node \<and> node_parent (node ?c x) = Some q \<and>
      kx = hd (node_key (node ?c x))" if q: "q \<in> ?L" and x: "(kx, x) \<in> set (children (node ?c q))"
    for q kx x
  proof -
    consider (o) "q = ?o" | (new) "q = p" "x = ?o" "kx = hd (node_key (node c m))"
      | (old) "q \<in> L" "q \<noteq> ?o" "(kx, x) \<in> set (children (node c q))" "x \<noteq> m"
    proof (cases "q = ?o")
      case False
      then have qL: "q \<in> L" using q by simp
      show thesis
      proof (cases "q = p")
        case True
        then have "(kx = hd (node_key (node c m)) \<and> x = ?o) \<or>
            (kx \<noteq> hd (node_key (node c m)) \<and> (kx, x) \<in> set (children (node c p)))"
          using x ne dk [OF p(1)] by (auto simp: fld AList_update_set)
        then show thesis
        proof
          assume *: "kx \<noteq> hd (node_key (node c m)) \<and> (kx, x) \<in> set (children (node c p))"
          then have "x \<noteq> m" using tree_child(4) [OF inv p(1)] by metis
          with * show thesis using old True False qL by blast
        qed (use new True in blast)
      next
        case neq: False
        then have xc: "(kx, x) \<in> set (children (node c q))" using x False by (simp add: fld)
        then have "x \<noteq> m"
          using tree_child(3) [OF inv qL] linked_parent_unique [OF p(2)] neq by metis
        with xc show thesis using old qL False by blast
      qed
    qed (use o in simp)
    then show ?thesis
    proof cases
      case o
      then have "x = m" "kx = hd (drop pos (node_key (node c m)))" using x by (auto simp: fld)
      then show ?thesis using o m ne by (simp add: fld)
    next
      case new
      then show ?thesis using ne pos by (simp add: fld hd_take)
    next
      case old
      then have "x \<in> L" "x \<noteq> root_node" "linked c P V q x" "kx = hd (node_key (node c x))"
        using tree_child [OF inv old(1,3)] by auto
      moreover have "x \<noteq> ?o" using \<open>x \<in> L\<close> oL by auto
      ultimately show ?thesis using old(4) by (auto simp: fld linked_def)
    qed
  qed
  have rt: "node_parent (node ?c root_node) = None"
    using ne m(2) tree_invD(7) [OF inv] by (simp add: fld)
  show ?thesis
  proof (rule tree_invI)
    show "n < owned ?c" if "n \<in> ?L" for n
      using that tree_invD(4) [OF inv] by (auto simp: fld less_Suc_eq)
    show "\<exists>q\<in>?L. linked ?c ?P ?V q n" if "n \<in> ?L" "n \<noteq> root_node" for n
      using par [OF that] .
    show "distinct (map fst (children (node ?c q)))" if "q \<in> ?L" for q
      using ch [OF that] .
    show "x \<in> ?L \<and> x \<noteq> root_node \<and> node_parent (node ?c x) = Some q \<and>
        kx = hd (node_key (node ?c x))"
      if "q \<in> ?L" "(kx, x) \<in> set (children (node ?c q))" for q kx x
      using mem [OF that] .
  qed (use tree_invD(1-3,5,6) [OF inv] ne(4) rt in \<open>simp_all add: fld(7)\<close>)
qed

lemma split_ref_inv:
  assumes inv: "tree_inv c L P V" and m: "m \<in> L" "m \<noteq> root_node" and p: "p \<in> L" "linked c P V p m"
    and pos: "0 < pos" "pos < node_length (node c m)" and ref: "ref_inv c L P K"
  shows "ref_inv (split_cache c p m pos t k) (insert (owned c) L)
     (P(owned c := P p @ take pos (node_key (node c m)))) K"
proof -
  let ?s = "P p @ take pos (node_key (node c m))"
  have oL: "owned c \<notin> L" using tree_invD(4) [OF inv] by blast
  have ne: "owned c \<noteq> m" "owned c \<noteq> p" "p \<noteq> m" "owned c \<noteq> root_node"
    using oL m(1) p(1) linked_len [OF p(2)] tree_invD(3) [OF inv] by auto
  note fld = split_cache_fields [OF ne(1-3)]
  have Pm: "P m = P p @ node_key (node c m)" "node_key (node c m) \<noteq> []"
    using p(2) by (auto simp: linked_def)
  have sm: "prefix ?s (P m)" by (simp add: Pm take_is_prefix)
  have cov: "covers c P m ?s"
    using sm pos(1) Pm(2) by (simp add: covers_linked [OF p(2)])
  have "prefix (P m) h \<longleftrightarrow> prefix ?s h" if "h \<in># K" for h
  proof
    show "prefix ?s h" if "prefix (P m) h" using sm that prefix_order.order_trans by blast
    assume sh: "prefix ?s h"
    obtain x where x: "x \<in> L" "P x = h" using ref \<open>h \<in># K\<close> unfolding ref_inv_def by blast
    have "?s \<noteq> []" using pos(1) Pm(2) by simp
    then obtain y where y: "y \<in> L" "y \<noteq> root_node" "covers c P y ?s" "prefix (P y) (P x)"
      using cover_exists [OF inv x(1)] sh x(2) by blast
    then have "y = m" using cover_unique [OF inv] m cov by blast
    then show "prefix (P m) h" using y x by simp
  qed
  then have fm: "filter_mset (prefix ?s) K = filter_mset (prefix (P m)) K"
    by (intro filter_mset_cong) auto
  show ?thesis
    unfolding ref_inv_def
  proof (intro conjI ballI impI)
    fix n
    assume "n \<in> insert (owned c) L" "n \<noteq> root_node"
    then show "ref_count (node (split_cache c p m pos t k) n) =
        int (size (filter_mset (prefix ((P(owned c := ?s)) n)) K))"
      using ref m oL unfolding ref_inv_def by (auto simp: fld fm)
  next
    show "ref_count (node (split_cache c p m pos t k) root_node) = 1"
      using ref ne(4) unfolding ref_inv_def by (simp add: fld)
  next
    fix h
    assume "h \<in># K"
    then obtain n where "n \<in> L" "P n = h" using ref unfolding ref_inv_def by blast
    with oL show "\<exists>n\<in>insert (owned c) L. (P(owned c := ?s)) n = h"
      by (intro bexI [of _ n]) auto
  qed
qed

lemma split_size_inv:
  assumes inv: "tree_inv c L P V" and m: "m \<in> L" "m \<noteq> root_node" and p: "p \<in> L" "linked c P V p m"
    and pos: "0 < pos" "pos < node_length (node c m)" and sz: "size_inv c L"
  shows "size_inv (split_cache c p m pos t k) (insert (owned c) L)"
proof -
  let ?c = "split_cache c p m pos t k" let ?o = "owned c" let ?R = "L - {root_node} - {m}"
  have oL: "?o \<notin> L" using tree_invD(4) [OF inv] by blast
  have ne: "?o \<noteq> m" "?o \<noteq> p" "p \<noteq> m" "?o \<noteq> root_node"
    using oL m(1) p(1) linked_len [OF p(2)] tree_invD(3) [OF inv] by auto
  note fld = split_cache_fields [OF ne(1-3)]
  have fin: "finite (L - {root_node})" "m \<in> L - {root_node}" using tree_invD(2) [OF inv] m by auto
  have L': "insert ?o L - {root_node} = insert ?o (L - {root_node})" using ne by auto
  have rest: "(\<Sum>n\<in>?R. f ?c n) = (\<Sum>n\<in>?R. f c n)"
    if "f = evictable_part \<or> f = protected_part" for f
    using that oL by (intro sum.cong) (auto simp: evictable_part_def protected_part_def fld)
  have two: "f ?c ?o + f ?c m = f c m" if "f = evictable_part \<or> f = protected_part" for f
    using that pos ne by (auto simp: evictable_part_def protected_part_def fld of_nat_diff)
  have "(\<Sum>n\<in>insert ?o L - {root_node}. f ?c n) = (\<Sum>n\<in>L - {root_node}. f c n)"
    if f: "f = evictable_part \<or> f = protected_part" for f
  proof -
    have "(\<Sum>n\<in>insert ?o L - {root_node}. f ?c n) = f ?c ?o + (f ?c m + (\<Sum>n\<in>?R. f ?c n))"
      unfolding L' using fin oL sum.remove [OF fin, of "f ?c"] by simp
    also have "\<dots> = f c m + (\<Sum>n\<in>?R. f c n)" using rest [OF f] two [OF f] by simp
    also have "\<dots> = (\<Sum>n\<in>L - {root_node}. f c n)" using sum.remove [OF fin, of "f c"] by simp
    finally show ?thesis .
  qed
  then show ?thesis using sz unfolding size_inv_def by (simp add: fld)
qed

lemma split_stored:
  assumes inv: "tree_inv c L P V" and m: "m \<in> L" "m \<noteq> root_node" and p: "p \<in> L" "linked c P V p m"
    and pos: "0 < pos" "pos < node_length (node c m)"
  shows "stored (split_cache c p m pos t k) s v \<longleftrightarrow> stored c s v"
proof -
  have oL: "owned c \<notin> L" using tree_invD(4) [OF inv] by blast
  let ?P = "P(owned c := P p @ take pos (node_key (node c m)))"
  let ?V = "V(owned c := V p @ take pos (node_value (node c m)))"
  have lk: "P m = P p @ node_key (node c m)" "V m = V p @ node_value (node c m)"
    "length (node_key (node c m)) = node_length (node c m)"
    "length (node_value (node c m)) = node_length (node c m)"
    using p(2) by (auto simp: linked_def)
  have vp: "length (V p) = length (P p)" using tree_V_length [OF inv p(1)] .
  have up: "\<exists>n\<in>L. prefix s (P n) \<and> ?V (owned c) ! (length s - 1) = V n ! (length s - 1)"
    if "s \<noteq> []" "prefix s (?P (owned c))"
  proof (rule bexI [OF _ m(1)])
    have "prefix (?P (owned c)) (P m)" by (simp add: lk take_is_prefix)
    then have "prefix s (P m)" using that(2) prefix_order.order_trans by blast
    have "length s \<le> length (P p) + pos"
      using prefix_length_le [OF that(2)] pos lk by simp
    then have "length s - 1 < length (P p) + pos" using that(1) pos(1) by (cases s) auto
    then have "?V (owned c) ! (length s - 1) = V m ! (length s - 1)"
      using pos lk vp by (simp add: nth_append)
    with \<open>prefix s (P m)\<close>
    show "prefix s (P m) \<and> ?V (owned c) ! (length s - 1) = V m ! (length s - 1)" by simp
  qed
  have same: "?P n = P n" "?V n = V n" if "n \<in> L" for n using that oL by auto
  have "(\<exists>n\<in>insert (owned c) L. prefix s (?P n) \<and> v = ?V n ! (length s - 1)) \<longleftrightarrow>
      (\<exists>n\<in>L. prefix s (P n) \<and> v = V n ! (length s - 1))" (is "?l = ?r") if "s \<noteq> []"
  proof
    assume ?l
    then obtain n where n: "n \<in> insert (owned c) L" "prefix s (?P n)" "v = ?V n ! (length s - 1)"
      by blast
    show ?r
    proof (cases "n = owned c")
      case True
      with n(2,3) up [OF that] show ?r by (simp del: fun_upd_apply)
    next
      case False
      with n(1) have "n \<in> L" by simp
      with n(2,3) same show ?r by (metis (no_types))
    qed
  next
    assume ?r
    then show ?l using same by (metis (no_types) insertI2)
  qed
  then show ?thesis
    unfolding stored_iff [OF split_tree_inv [OF inv m p pos]] stored_iff [OF inv]
    by (rule conj_cong [OF refl])
qed

lemma split_inv:
  assumes "radix_inv c L P V K" and "m \<in> L" "m \<noteq> root_node" and "p \<in> L" "linked c P V p m"
    and "0 < pos" "pos < node_length (node c m)"
  shows "radix_inv (split_cache c p m pos t k) (insert (owned c) L)
     (P(owned c := P p @ take pos (node_key (node c m))))
     (V(owned c := V p @ take pos (node_value (node c m)))) K"
proof -
  note inv = radix_invD [OF assms(1)]
  show ?thesis
    unfolding radix_inv_def
    using split_tree_inv [OF inv(1) assms(2-)] split_ref_inv [OF inv(1) assms(2-) inv(2)]
      split_size_inv [OF inv(1) assms(2-) inv(3)] by (intro conjI)
qed

end
