(* ===== verification/RadixWalk.thy ===== *)
theory RadixWalk
  imports RadixSplit
begin

text \<open>
  The walk of \<open>tree_walk\<close> and what rests on it: \<open>match_prefix\<close> finds the longest stored
  prefix, \<open>insert_prefix\<close> adds exactly the missing prefixes, and \<open>get_matched_indices\<close>
  reads the slots of a handle.
\<close>

section \<open>The walk\<close>

text \<open>A larger tree with the same content and counters, in which no string of a node changed.\<close>

definition same_content ::
  "radix_cache \<Rightarrow> nat set \<Rightarrow> (nat \<Rightarrow> int list) \<Rightarrow> (nat \<Rightarrow> int list) \<Rightarrow>
   radix_cache \<Rightarrow> nat set \<Rightarrow> (nat \<Rightarrow> int list) \<Rightarrow> (nat \<Rightarrow> int list) \<Rightarrow> bool" where
  "same_content c L P V c' L' P' V' \<longleftrightarrow>
     L \<subseteq> L' \<and> (\<forall>x\<in>L. P' x = P x \<and> V' x = V x) \<and> (\<forall>s v. stored c' s v = stored c s v) \<and>
     evictable_size c' = evictable_size c \<and> protected_size c' = protected_size c"

lemma same_content_refl: "same_content c L P V c L P V"
  by (simp add: same_content_def)

lemma same_content_trans:
  "same_content c L P V c1 L1 P1 V1 \<Longrightarrow> same_content c1 L1 P1 V1 c2 L2 P2 V2 \<Longrightarrow>
   same_content c L P V c2 L2 P2 V2"
  unfolding same_content_def by (metis (no_types, opaque_lifting) subset_iff)

lemma same_links_stored:
  assumes "same_links c c'" "tree_inv c L P V"
  shows "stored c' s v = stored c s v"
  using stored_iff [OF assms(2)] stored_iff [of c' L P V] same_links_tree_inv [OF assms(1)] assms(2)
  by simp

lemma touch_content:
  assumes "radix_inv c L P V K"
  shows "same_content c L P V (upd_node n (\<lambda>x. x\<lparr>timestamp := t\<rparr>) c) L P V"
proof -
  have "same_links c (upd_node n (\<lambda>x. x\<lparr>timestamp := t\<rparr>) c)" by (rule same_links_upd) simp
  then show ?thesis
    using same_links_stored radix_invD(1) [OF assms] by (simp add: same_content_def)
qed

lemma read_clock_content:
  assumes "radix_inv c L P V K"
  shows "same_content c L P V (snd (read_clock c)) L P V"
proof -
  have "same_links c (snd (read_clock c))" by (simp add: read_clock_def same_links_def)
  then show ?thesis
    using same_links_stored radix_invD(1) [OF assms] by (simp add: same_content_def read_clock_def)
qed

lemma split_content:
  assumes "radix_inv c L P V K" "m \<in> L" "m \<noteq> root_node" "p \<in> L" "linked c P V p m"
    "0 < pos" "pos < node_length (node c m)"
  shows "same_content c L P V (split_cache c p m pos t k) (insert (owned c) L)
     (P(owned c := P p @ take pos (node_key (node c m))))
     (V(owned c := V p @ take pos (node_value (node c m))))"
proof -
  have "owned c \<notin> L" using tree_invD(4) [OF radix_invD(1) [OF assms(1)]] by blast
  then show ?thesis
    using split_stored [OF radix_invD(1) [OF assms(1)] assms(2-)]
    by (auto simp: same_content_def split_cache_def Let_def)
qed

text \<open>The first step towards any node that shares one more token with the input.\<close>

lemma next_child:
  assumes inv: "tree_inv c L P V" and n: "n \<in> L" "P n = s" and m: "m \<in> L" "prefix (s @ [x]) (P m)"
  obtains y where "map_of (children (node c n)) x = Some y" "y \<in> L" "linked c P V n y"
    "prefix (s @ [x]) (P y)" "prefix (P y) (P m)"
proof -
  obtain y where y: "y \<in> L" "y \<noteq> root_node" "covers c P y (s @ [x])" "prefix (P y) (P m)"
    using cover_exists [OF inv m(1) _ m(2)] by blast
  obtain q where q: "q \<in> L" "linked c P V q y" using tree_parent [OF inv y(1,2)] .
  have sy: "prefix (s @ [x]) (P y)" "length (P q) < length (s @ [x])"
    using y(3) covers_linked [OF q(2)] by blast+
  have qy: "prefix (P q) (P y)" using q(2) by (simp add: linked_def)
  have sy': "prefix s (P y)" using sy(1) append_prefixD by blast
  have "length (P q) = length s"
  proof (rule ccontr)
    assume "length (P q) \<noteq> length s"
    with sy(2) have lt: "length (P q) < length (P n)" using n(2) by simp
    then have nr: "n \<noteq> root_node" using tree_invD(5) [OF inv] by auto
    have "covers c P y (P n)" using lt sy' n(2) covers_linked [OF q(2)] by simp
    moreover have "covers c P n (P n)" using covers_self tree_parent [OF inv n(1) nr] by metis
    ultimately have "y = n" using cover_unique [OF inv y(1) n(1) y(2) nr] by blast
    then show False using sy(1) n(2) prefix_length_le by fastforce
  qed
  then have "P q = s" using prefix_same_length_eq [OF qy sy'] by blast
  then have qn: "q = n" using tree_P_inj [OF inv q(1) n(1)] n(2) by simp
  have "P y = s @ node_key (node c y)" "node_key (node c y) \<noteq> []"
    using q(2) \<open>P q = s\<close> by (auto simp: linked_def)
  then have "hd (node_key (node c y)) = x" using sy(1) by (cases "node_key (node c y)") auto
  then have "(x, y) \<in> set (children (node c n))" using q(2) qn by (auto simp: linked_def)
  then have "map_of (children (node c n)) x = Some y"
    using tree_child_keys [OF inv n(1)] by simp
  then show thesis using that y q(2) qn sy(1) by blast
qed

definition walk_result ::
  "radix_cache \<Rightarrow> nat set \<Rightarrow> (nat \<Rightarrow> int list) \<Rightarrow> (nat \<Rightarrow> int list) \<Rightarrow> int list multiset \<Rightarrow>
   int list \<Rightarrow> nat \<Rightarrow> (nat \<times> nat \<times> radix_cache) result \<Rightarrow> bool" where
  "walk_result c L P V K ids plen r \<longleftrightarrow>
     (\<exists>n' plen' c' L' P' V'. r = Inr (n', plen', c') \<and> radix_inv c' L' P' V' K \<and>
        same_content c L P V c' L' P' V' \<and> n' \<in> L' \<and> P' n' = take plen' ids \<and>
        plen \<le> plen' \<and> plen' \<le> length ids \<and>
        (\<forall>m\<in>L'. \<forall>s. prefix s ids \<longrightarrow> prefix s (P' m) \<longrightarrow> length s \<le> plen'))"

lemma walk_resultI:
  assumes "radix_inv c' L' P' V' K" "same_content c L P V c' L' P' V'" "n' \<in> L'"
    "P' n' = take plen' ids" "plen \<le> plen'" "plen' \<le> length ids"
    "\<And>m s. m \<in> L' \<Longrightarrow> prefix s ids \<Longrightarrow> prefix s (P' m) \<Longrightarrow> length s \<le> plen'"
  shows "walk_result c L P V K ids plen (Inr (n', plen', c'))"
  using assms unfolding walk_result_def by blast

lemma walk_result_later:
  assumes "walk_result c1 L1 P1 V1 K ids plen1 r" "same_content c L P V c1 L1 P1 V1" "plen \<le> plen1"
  shows "walk_result c L P V K ids plen r"
proof -
  obtain n' plen' c' L' P' V' where r: "r = Inr (n', plen', c')" "radix_inv c' L' P' V' K"
    "same_content c1 L1 P1 V1 c' L' P' V'" "n' \<in> L'" "P' n' = take plen' ids" "plen1 \<le> plen'"
    "plen' \<le> length ids" "\<forall>m\<in>L'. \<forall>s. prefix s ids \<longrightarrow> prefix s (P' m) \<longrightarrow> length s \<le> plen'"
    using assms(1) unfolding walk_result_def by blast
  show ?thesis
    unfolding r(1)
  proof (rule walk_resultI [OF r(2) same_content_trans [OF assms(2) r(3)] r(4,5) _ r(7)])
    show "plen \<le> plen'" using assms(3) r(6) by simp
  qed (use r(8) in blast)
qed

text \<open>The node that the walk splits: it shares a proper, non-empty part of its key.\<close>

lemma walk_child:
  assumes inv: "tree_inv c L P V" and n: "n \<in> L" "P n = take plen ids" and plen: "plen < length ids"
    and ch: "map_of (children (node c n)) (hd (drop plen ids)) = Some m"
    and ml: "ml = length (longest_common_prefix (node_key (node c m)) (drop plen ids))"
  shows "m \<in> L" "m \<noteq> root_node" "linked c P V n m" "0 < ml" "ml \<le> node_length (node c m)"
    "plen + ml \<le> length ids" "P n @ take ml (node_key (node c m)) = take (plen + ml) ids"
    "\<And>x s. x \<in> L \<Longrightarrow> prefix s ids \<Longrightarrow> prefix s (P x) \<Longrightarrow> ml \<noteq> node_length (node c m) \<Longrightarrow>
       length s \<le> plen + ml"
proof -
  let ?k = "node_key (node c m)" let ?r = "drop plen ids"
  let ?l = "longest_common_prefix ?k ?r"
  have mem: "(hd ?r, m) \<in> set (children (node c n))" using ch by (rule map_of_SomeD)
  note c = tree_child [OF inv n(1) mem]
  show m: "m \<in> L" "m \<noteq> root_node" "linked c P V n m" using c by auto
  have k: "?k \<noteq> []" "node_length (node c m) = length ?k" "P m = P n @ ?k"
    using m(3) by (auto simp: linked_def)
  have r: "?r \<noteq> []" using plen by simp
  have pre: "prefix ?l ?k" "prefix ?l ?r"
    by (rule longest_common_prefix_prefix1, rule longest_common_prefix_prefix2)
  have "?k = hd ?r # tl ?k" "?r = hd ?r # tl ?r"
    using list.collapse [OF k(1)] list.collapse [OF r] c(4) by simp_all
  then have "prefix [hd ?r] ?k" "prefix [hd ?r] ?r" by (metis append_Cons append_Nil prefixI)+
  then have "prefix [hd ?r] ?l" by (rule longest_common_prefix_max_prefix)
  then show "0 < ml" using ml prefix_length_le by fastforce
  show "ml \<le> node_length (node c m)" using prefix_length_le [OF pre(1)] ml k(2) by simp
  have lr: "ml \<le> length ?r" using prefix_length_le [OF pre(2)] ml by simp
  then show "plen + ml \<le> length ids" using plen by simp
  have "take ml ?k = take ml ?r" using ml pre by (metis append_eq_conv_conj prefix_def)
  then show "P n @ take ml ?k = take (plen + ml) ids" using n(2) by (simp add: take_add)
  show "length s \<le> plen + ml"
    if x: "x \<in> L" and s: "prefix s ids" "prefix s (P x)" and ne: "ml \<noteq> node_length (node c m)" for x s
  proof (rule ccontr)
    assume "\<not> length s \<le> plen + ml"
    then have ls: "plen + ml < length s" by simp
    have s_eq: "s = take plen ids @ drop plen s" "prefix (drop plen s) ?r"
      using s(1) ls by (metis append_take_drop_id add_lessD1 less_imp_le prefix_iff_take take_all_iff
            take_take min_absorb1, metis drop_append prefix_def prefixI)
    have "drop plen s \<noteq> []" using ls by simp
    then have hd: "hd (drop plen s) = hd ?r" using s_eq(2) by (metis hd_append2 prefix_def)
    have "prefix (take plen ids @ [hd ?r]) s"
      using s_eq(1) \<open>drop plen s \<noteq> []\<close> hd by (metis append_Cons append_Nil list.collapse
          prefixI same_prefix_prefix)
    then have "prefix (P n @ [hd ?r]) (P x)"
      using s(2) n(2) prefix_order.order_trans by metis
    then obtain y where "map_of (children (node c n)) (hd ?r) = Some y" "prefix (P y) (P x)"
      using next_child [OF inv n(1) refl x] by metis
    then have mx: "prefix (P m) (P x)" using ch by simp
    show False
    proof (cases "length s \<le> length (P m)")
      case True
      then have "prefix s (P m)" using prefix_length_prefix [OF s(2) mx] by blast
      then have "prefix (drop plen s) ?k"
        using s_eq(1) k(3) n(2) by (metis same_prefix_prefix)
      then have "prefix (drop plen s) ?l"
        using s_eq(2) by (rule longest_common_prefix_max_prefix)
      then show False using ls ml prefix_length_le by fastforce
    next
      case False
      then have "prefix (P m) s" using prefix_length_prefix [OF mx s(2)] by simp
      then have "prefix ?k (drop plen s)"
        using s_eq(1) k(3) n(2) by (metis same_prefix_prefix)
      then have "prefix ?k ?r" using s_eq(2) prefix_order.order_trans by blast
      then have "prefix ?k ?l" using longest_common_prefix_max_prefix by blast
      then have "ml = length ?k" using ml pre(1) by (metis prefix_order.antisym)
      then show False using ne k(2) by simp
    qed
  qed
qed

lemma walk_loop_ok:
  assumes "radix_inv c L P V K" "n \<in> L" "P n = take plen ids" "plen \<le> length ids"
    "length ids - plen < fuel"
  shows "walk_result c L P V K ids plen (walk_loop fuel tic ids plen n c)"
  using assms
proof (induction fuel arbitrary: c plen n)
  case 0
  then show ?case by simp
next
  case (Suc fuel)
  note inv = radix_invD(1) [OF Suc.prems(1)]
  have ps: "page_size c = Suc 0" using tree_invD(1) [OF inv] by simp
  show ?case
  proof (cases "plen < length ids")
    case False
    then have "walk_loop (Suc fuel) tic ids plen n c = Inr (n, plen, c)" by simp
    moreover have "length s \<le> plen" if "prefix s ids" for s
      using prefix_length_le [OF that] False by simp
    ultimately show ?thesis
      using Suc.prems same_content_refl by (auto intro!: walk_resultI)
  next
    case plen: True
    let ?r = "drop plen ids"
    have kf: "get_key_fn (page_size c) ?r = Inr (hd ?r)" using plen ps by simp
    show ?thesis
    proof (cases "map_of (children (node c n)) (hd ?r)")
      case None
      then have "walk_loop (Suc fuel) tic ids plen n c = Inr (n, plen, c)"
        using plen kf by simp
      moreover have "length s \<le> plen" if m: "m \<in> L" and s: "prefix s ids" "prefix s (P m)" for m s
      proof (rule ccontr)
        assume "\<not> length s \<le> plen"
        then have "Suc plen \<le> length s" by simp
        then have "take (Suc plen) ids = take (Suc plen) s"
          using s(1) by (metis append_take_drop_id prefix_iff_take min_absorb1 take_take)
        then have "prefix (take (Suc plen) ids) (P m)"
          using s(2) take_is_prefix prefix_order.order_trans by metis
        moreover have "take (Suc plen) ids = P n @ [hd ?r]"
          using Suc.prems(3) plen by (simp add: take_Suc_conv_app_nth hd_drop_conv_nth)
        ultimately obtain y where "map_of (children (node c n)) (hd ?r) = Some y"
          using next_child [OF inv Suc.prems(2) refl m] by metis
        with None show False by simp
      qed
      ultimately show ?thesis
        using Suc.prems same_content_refl by (auto intro!: walk_resultI)
    next
      case (Some m)
      define ml where "ml = length (longest_common_prefix (node_key (node c m)) ?r)"
      note wc = walk_child [OF inv Suc.prems(2,3) plen Some ml_def]
      have gm: "align_down64 (get_match_len c m ?r) (page_size c) = ml"
        using ps by (simp add: get_match_len_def fast_compare_key_lcp ml_def)
      show ?thesis
      proof (cases "ml = node_length (node c m)")
        case False
        then have lt: "ml < node_length (node c m)" using wc(5) by simp
        obtain t k where sp: "split_at m ml c = Inr (owned c, split_cache c n m ml t k)"
          using split_at_eq [OF inv wc(1,2) Suc.prems(2) wc(3,4) lt] .
        have wl: "walk_loop (Suc fuel) tic ids plen n c =
            Inr (owned c, plen + ml, split_cache c n m ml t k)"
          using plen kf Some gm False sp by (simp del: One_nat_def)
        show ?thesis
          unfolding wl
        proof (rule walk_resultI [OF split_inv [OF Suc.prems(1) wc(1,2) Suc.prems(2) wc(3,4) lt]
              split_content [OF Suc.prems(1) wc(1,2) Suc.prems(2) wc(3,4) lt]])
          fix x s
          assume x: "x \<in> insert (owned c) L" and s: "prefix s ids"
            "prefix s ((P(owned c := P n @ take ml (node_key (node c m)))) x)"
          show "length s \<le> plen + ml"
          proof (cases "x = owned c")
            case True
            then have "prefix s (take (plen + ml) ids)" using s(2) wc(7) by simp
            then show ?thesis using prefix_length_le by fastforce
          next
            case ne: False
            then show ?thesis using wc(8) [OF _ s(1) _ False] x s(2) by simp
          qed
        qed (use wc in simp_all)
      next
        case True
        let ?c = "upd_node m (\<lambda>x. x\<lparr>timestamp := tic\<rparr>) c"
        have wl: "walk_loop (Suc fuel) tic ids plen n c = walk_loop fuel tic ids (plen + ml) m ?c"
          using plen kf Some gm True by (simp del: One_nat_def)
        have Pm: "P m = take (plen + ml) ids"
          using wc(3,7) True by (simp add: linked_def)
        have "walk_result ?c L P V K ids (plen + ml) (walk_loop fuel tic ids (plen + ml) m ?c)"
        proof (rule Suc.IH)
          show "radix_inv ?c L P V K" using Suc.prems(1) touch_inv by blast
        qed (use Pm wc(1,4,6) Suc.prems(5) plen in simp_all)
        then show ?thesis
          unfolding wl using touch_content [OF Suc.prems(1)] by (rule walk_result_later) simp
      qed
    qed
  qed
qed

lemma tree_walk_ok:
  assumes "radix_inv c L P V K"
  shows "walk_result c L P V K ids 0 (tree_walk ids c)"
proof -
  have inv: "radix_inv (snd (read_clock c)) L P V K" using read_clock_inv assms by blast
  note t = tree_invD [OF radix_invD(1) [OF assms]]
  have "walk_result (snd (read_clock c)) L P V K ids 0
      (walk_loop (Suc (length ids)) (fst (read_clock c)) ids 0 root_node (snd (read_clock c)))"
    using inv t by (intro walk_loop_ok) auto
  then show ?thesis
    unfolding tree_walk_def case_prod_beta Let_def
    using read_clock_content [OF assms] by (rule walk_result_later) simp
qed

end
