(* ===== verification/RadixInsert.thy ===== *)
theory RadixInsert
  imports RadixWalk
begin

text \<open>
  \<open>match_prefix\<close>, \<open>insert_prefix\<close> and \<open>get_matched_indices\<close> on a well-formed cache: none of
  them fails or runs out of fuel, each keeps the cache well-formed, and their effect on the
  stored content is given exactly.
\<close>

section \<open>Handles\<close>

text \<open>The handle \<open>h\<close> stands for the string \<open>ks\<close>: the walk reached its node along \<open>ks\<close>.\<close>

definition handle_at :: "radix_cache \<Rightarrow> cache_handle \<Rightarrow> int list \<Rightarrow> bool" where
  "handle_at c h ks \<longleftrightarrow> (\<exists>vs. reach c (handle_node h) ks vs) \<and> handle_len h = length ks"

lemma handle_at_iff:
  "tree_inv c L P V \<Longrightarrow>
   handle_at c h ks \<longleftrightarrow> handle_node h \<in> L \<and> P (handle_node h) = ks \<and> handle_len h = length ks"
  by (auto simp: handle_at_def reach_iff)

lemma same_content_handle:
  assumes "tree_inv c L P V" "tree_inv c' L' P' V'" "same_content c L P V c' L' P' V'"
    "handle_at c h ks"
  shows "handle_at c' h ks"
  using assms(3,4) unfolding handle_at_iff [OF assms(1)] handle_at_iff [OF assms(2)]
  by (auto simp: same_content_def)

text \<open>The number of ancestors bounds every loop that follows the parent pointers.\<close>

definition ancestors :: "nat set \<Rightarrow> (nat \<Rightarrow> int list) \<Rightarrow> nat \<Rightarrow> nat set" where
  "ancestors L P n = {m \<in> L. m \<noteq> root_node \<and> prefix (P m) (P n)}"

lemma ancestors_root: "tree_inv c L P V \<Longrightarrow> ancestors L P root_node = {}"
  by (auto simp: ancestors_def tree_invD tree_P_Nil)

lemma ancestors_child:
  assumes "tree_inv c L P V" "n \<in> L" "n \<noteq> root_node" "linked c P V p n"
  shows "ancestors L P n = insert n (ancestors L P p)" "n \<notin> ancestors L P p"
proof -
  show "ancestors L P n = insert n (ancestors L P p)"
    using ancestor_step [OF assms] assms(2,3) by (auto simp: ancestors_def)
  show "n \<notin> ancestors L P p"
    using linked_len [OF assms(4)] prefix_length_le by (fastforce simp: ancestors_def)
qed

lemma finite_ancestors: "tree_inv c L P V \<Longrightarrow> finite (ancestors L P n)"
  by (simp add: ancestors_def tree_invD(2))

lemma card_ancestors: "tree_inv c L P V \<Longrightarrow> card (ancestors L P n) < Suc (owned c)"
proof -
  assume inv: "tree_inv c L P V"
  have "ancestors L P n \<subseteq> {..<owned c}" using tree_invD(4) [OF inv] by (auto simp: ancestors_def)
  then show ?thesis using card_mono [of "{..<owned c}"] by (simp add: le_imp_less_Suc)
qed

section \<open>Reading the slots of a handle\<close>

lemma matched_loop_ok:
  assumes "tree_inv c L P V" "n \<in> L" "card (ancestors L P n) < fuel"
  shows "\<exists>vl. matched_loop fuel c n acc = Inr (acc @ vl) \<and> concat (rev vl) = V n"
  using assms(2,3)
proof (induction fuel arbitrary: n acc)
  case 0
  then show ?case by simp
next
  case (Suc fuel)
  show ?case
  proof (cases "n = root_node")
    case True
    then show ?thesis using tree_invD [OF assms(1)] by simp
  next
    case False
    obtain p where p: "p \<in> L" "linked c P V p n" using tree_parent [OF assms(1) Suc.prems(1) False] .
    have "card (ancestors L P p) < fuel"
      using Suc.prems(2) ancestors_child [OF assms(1) Suc.prems(1) False p(2)]
        finite_ancestors [OF assms(1)] by simp
    then obtain vl where "matched_loop fuel c p (acc @ [node_value (node c n)]) =
        Inr ((acc @ [node_value (node c n)]) @ vl)" "concat (rev vl) = V p"
      using Suc.IH [OF p(1)] by blast
    then show ?thesis
      using p(2) by (intro exI [of _ "node_value (node c n) # vl"]) (simp add: linked_def)
  qed
qed

lemma get_matched_indices_inv:
  assumes "tree_inv c L P V" "handle_node h \<in> L"
  shows "get_matched_indices c h = Inr (V (handle_node h))"
  using matched_loop_ok [OF assms card_ancestors [OF assms(1)], of "[]"]
  by (auto simp: get_matched_indices_def)

lemma get_matched_indices_ok:
  assumes "radix_ok c K" "handle_at c h ks"
  shows "\<exists>vs. get_matched_indices c h = Inr vs \<and> length vs = length ks \<and>
     (\<forall>s v. prefix s ks \<and> s \<noteq> [] \<longrightarrow> (stored c s v \<longleftrightarrow> v = vs ! (length s - 1)))"
proof -
  obtain L P V where inv: "tree_inv c L P V" using assms(1) by (auto simp: radix_ok_def radix_inv_def)
  have h: "handle_node h \<in> L" "P (handle_node h) = ks"
    using assms(2) handle_at_iff [OF inv] by blast+
  have "stored c s (V (handle_node h) ! (length s - 1))" if "prefix s ks" "s \<noteq> []" for s
    using that h unfolding stored_iff [OF inv] by blast
  then have "stored c s v \<longleftrightarrow> v = V (handle_node h) ! (length s - 1)" if "prefix s ks" "s \<noteq> []" for s v
    using stored_functional [OF inv] that by blast
  then show ?thesis
    using get_matched_indices_inv [OF inv h(1)] tree_V_length [OF inv h(1)] h(2) by auto
qed

section \<open>Matching\<close>

lemma tree_walk_cases:
  assumes "radix_inv c L P V K"
  obtains n plen c' L' P' V' where "tree_walk ids c = Inr (n, plen, c')" "radix_inv c' L' P' V' K"
    "same_content c L P V c' L' P' V'" "n \<in> L'" "P' n = take plen ids" "plen \<le> length ids"
    "\<And>m s. m \<in> L' \<Longrightarrow> prefix s ids \<Longrightarrow> prefix s (P' m) \<Longrightarrow> length s \<le> plen"
  using tree_walk_ok [OF assms, of ids] unfolding walk_result_def by blast

text \<open>The walk splits the input into the stored and the missing prefixes.\<close>

lemma walk_stored:
  assumes "tree_inv c L P V" "n \<in> L" "P n = take plen ids"
    and "\<And>m s. m \<in> L \<Longrightarrow> prefix s ids \<Longrightarrow> prefix s (P m) \<Longrightarrow> length s \<le> plen"
    and "prefix s ids" "s \<noteq> []"
  shows "(\<exists>v. stored c s v) \<longleftrightarrow> length s \<le> plen"
proof
  assume "length s \<le> plen"
  then have "s = take (length s) (take plen ids)"
    using assms(5) by (metis min_absorb1 prefix_iff_take take_take)
  then have "prefix s (P n)" unfolding assms(3) by (metis take_is_prefix)
  then show "\<exists>v. stored c s v" using stored_iff [OF assms(1)] assms(2,6) by blast
qed (use assms(4,5) stored_iff [OF assms(1)] in blast)

lemma match_prefix_ok:
  assumes "radix_ok c K"
  shows "\<exists>h c'. match_prefix ids c = Inr (h, c') \<and> radix_ok c' K \<and>
     handle_at c' h (take (handle_len h) ids) \<and> handle_len h \<le> length ids \<and>
     (\<forall>s. prefix s ids \<and> s \<noteq> [] \<longrightarrow> ((\<exists>v. stored c s v) \<longleftrightarrow> length s \<le> handle_len h)) \<and>
     (\<forall>s v. stored c' s v \<longleftrightarrow> stored c s v) \<and> get_size_info c' = get_size_info c \<and>
     (\<forall>h' ks. handle_at c h' ks \<longrightarrow> handle_at c' h' ks)"
proof -
  obtain L P V where inv: "radix_inv c L P V K" using assms by (auto simp: radix_ok_def)
  obtain n plen c' L' P' V' where w: "tree_walk ids c = Inr (n, plen, c')" "radix_inv c' L' P' V' K"
    "same_content c L P V c' L' P' V'" "n \<in> L'" "P' n = take plen ids" "plen \<le> length ids"
    "\<And>m s. m \<in> L' \<Longrightarrow> prefix s ids \<Longrightarrow> prefix s (P' m) \<Longrightarrow> length s \<le> plen"
    using tree_walk_cases [OF inv, of ids] by blast
  note t = radix_invD(1) [OF inv] and t' = radix_invD(1) [OF w(2)]
  have "match_prefix ids c = Inr (\<lparr>handle_len = plen, handle_node = n\<rparr>, c')"
    by (simp add: match_prefix_def w(1))
  moreover have "handle_at c' \<lparr>handle_len = plen, handle_node = n\<rparr> (take plen ids)"
    using w(4-6) by (simp add: handle_at_iff [OF t'])
  moreover have "stored c' s v = stored c s v" for s v using w(3) by (simp add: same_content_def)
  moreover have "(\<exists>v. stored c s v) \<longleftrightarrow> length s \<le> plen" if "prefix s ids" "s \<noteq> []" for s
  proof -
    have "(\<exists>v. stored c' s v) \<longleftrightarrow> length s \<le> plen"
      by (rule walk_stored [OF t' w(4,5) _ that]) (rule w(7))
    then show ?thesis using w(3) by (simp add: same_content_def)
  qed
  moreover have "get_size_info c' = get_size_info c"
    using w(3) by (simp add: same_content_def get_size_info_def)
  moreover have "radix_ok c' K" using w(2) by (auto simp: radix_ok_def)
  ultimately show ?thesis using w(6) same_content_handle [OF t t' w(3)] by auto
qed

section \<open>Hanging a leaf below a node\<close>

definition attach_cache :: "radix_cache \<Rightarrow> nat \<Rightarrow> int list \<Rightarrow> int list \<Rightarrow> int \<Rightarrow> nat \<Rightarrow> radix_cache" where
  "attach_cache c p key val t k =
     c\<lparr>node := (node c)(
          owned c := \<lparr>children = [], ref_count = 0, uuid = counter c, timestamp = t,
             node_parent = Some p, node_key = key, node_value = val, node_length = length key\<rparr>,
          p := (node c p)\<lparr>children := AList.update (hd key) (owned c) (children (node c p))\<rparr>),
        owned := Suc (owned c), counter := Suc (counter c), clock_reads := k,
        evictable_size := evictable_size c + int (length key)\<rparr>"

lemma attach_fields:
  assumes "owned c \<noteq> p"
  shows "node_parent (node (attach_cache c p key val t k) n) =
      (if n = owned c then Some p else node_parent (node c n))"
    and "node_key (node (attach_cache c p key val t k) n) =
      (if n = owned c then key else node_key (node c n))"
    and "node_value (node (attach_cache c p key val t k) n) =
      (if n = owned c then val else node_value (node c n))"
    and "node_length (node (attach_cache c p key val t k) n) =
      (if n = owned c then length key else node_length (node c n))"
    and "children (node (attach_cache c p key val t k) n) =
      (if n = owned c then []
       else if n = p then AList.update (hd key) (owned c) (children (node c p))
       else children (node c n))"
    and "ref_count (node (attach_cache c p key val t k) n) =
      (if n = owned c then 0 else ref_count (node c n))"
    and "page_size (attach_cache c p key val t k) = page_size c"
    and "owned (attach_cache c p key val t k) = Suc (owned c)"
    and "evictable_size (attach_cache c p key val t k) = evictable_size c + int (length key)"
    and "protected_size (attach_cache c p key val t k) = protected_size c"
  using assms by (auto simp: attach_cache_def)

lemma attach_tree_inv:
  assumes inv: "tree_inv c L P V" and p: "p \<in> L" and key: "key \<noteq> []" "length val = length key"
    and new: "map_of (children (node c p)) (hd key) = None"
  shows "tree_inv (attach_cache c p key val t k) (insert (owned c) L)
     (P(owned c := P p @ key)) (V(owned c := V p @ val))"
    (is "tree_inv ?c ?L ?P ?V")
proof -
  let ?o = "owned c"
  have oL: "?o \<notin> L" using tree_invD(4) [OF inv] by blast
  have ne: "?o \<noteq> p" "?o \<noteq> root_node" using oL p tree_invD(3) [OF inv] by auto
  note fld = attach_fields [OF ne(1)]
  have dk: "distinct (map fst (children (node c q)))" if "q \<in> L" for q
    using tree_child_keys [OF inv that] .
  have fresh: "(hd key, x) \<notin> set (children (node c p))" for x
    using new weak_map_of_SomeI [of "hd key" x "children (node c p)"] by auto
  have L1: "linked ?c ?P ?V p ?o"
    using key ne dk [OF p] by (auto simp: linked_def fld AList_update_set)
  have L3: "linked ?c ?P ?V q n" if "n \<in> L" "q \<in> L" "linked c P V q n" for q n
  proof -
    have "n \<noteq> ?o" "q \<noteq> ?o" using that oL by auto
    moreover have "hd (node_key (node c n)) \<noteq> hd key" if "q = p"
      using \<open>linked c P V q n\<close> that fresh by (metis linked_def)
    ultimately show ?thesis
      using that ne dk [OF p] by (auto simp: linked_def fld AList_update_set)
  qed
  show ?thesis
  proof (rule tree_invI)
    show "n < owned ?c" if "n \<in> ?L" for n
      using that tree_invD(4) [OF inv] by (auto simp: fld less_Suc_eq)
    show "\<exists>q\<in>?L. linked ?c ?P ?V q n" if "n \<in> ?L" "n \<noteq> root_node" for n
    proof (cases "n = ?o")
      case True
      then show ?thesis using L1 p by blast
    next
      case False
      then have n: "n \<in> L" using that by simp
      obtain q where "q \<in> L" "linked c P V q n" using tree_parent [OF inv n \<open>n \<noteq> root_node\<close>] .
      then show ?thesis using L3 [OF n] by blast
    qed
    show "distinct (map fst (children (node ?c q)))" if "q \<in> ?L" for q
      using that dk p by (auto simp: fld distinct_update)
    show "x \<in> ?L \<and> x \<noteq> root_node \<and> node_parent (node ?c x) = Some q \<and>
        kx = hd (node_key (node ?c x))"
      if q: "q \<in> ?L" and x: "(kx, x) \<in> set (children (node ?c q))" for q kx x
    proof -
      have qo: "q \<noteq> ?o" "q \<in> L" using q x by (auto simp: fld split: if_splits)
      show ?thesis
      proof (cases "q = p \<and> kx = hd key")
        case True
        then have "x = ?o" using x ne dk [OF p] by (simp add: fld AList_update_set)
        then show ?thesis using True ne by (simp add: fld)
      next
        case False
        then have "(kx, x) \<in> set (children (node c q))"
          using x qo dk [OF p] by (auto simp: fld AList_update_set split: if_splits)
        then have "x \<in> L" "x \<noteq> root_node" "linked c P V q x" "kx = hd (node_key (node c x))"
          using tree_child [OF inv qo(2)] by blast+
        moreover have "x \<noteq> ?o" using \<open>x \<in> L\<close> oL by auto
        ultimately show ?thesis by (auto simp: fld linked_def)
      qed
    qed
  qed (use tree_invD(1-3,5-7) [OF inv] ne in \<open>simp_all add: fld\<close>)
qed

lemma attach_inv:
  assumes inv: "radix_inv c L P V K" and p: "p \<in> L" and key: "key \<noteq> []" "length val = length key"
    and new: "map_of (children (node c p)) (hd key) = None"
  shows "radix_inv (attach_cache c p key val t k) (insert (owned c) L)
     (P(owned c := P p @ key)) (V(owned c := V p @ val)) K"
proof -
  note t = radix_invD(1) [OF inv]
  let ?o = "owned c" let ?c = "attach_cache c p key val t k"
  have oL: "?o \<notin> L" using tree_invD(4) [OF t] by blast
  have ne: "?o \<noteq> p" "?o \<noteq> root_node" using oL p tree_invD(3) [OF t] by auto
  note fld = attach_fields [OF ne(1)]
  have "\<not> prefix (P p @ key) h" if hK: "h \<in># K" for h
  proof
    assume "prefix (P p @ key) h"
    moreover have "prefix (P p @ [hd key]) (P p @ key)" using key(1) by (cases key) auto
    ultimately have h: "prefix (P p @ [hd key]) h" using prefix_order.order_trans by blast
    obtain x where x: "x \<in> L" "P x = h"
      using radix_invD(2) [OF inv] hK unfolding ref_inv_def by blast
    then have "prefix (P p @ [hd key]) (P x)" using h by simp
    from next_child [OF t p refl x(1) this] obtain y where
      "map_of (children (node c p)) (hd key) = Some y" .
    then show False using new by simp
  qed
  then have none: "filter_mset (prefix (P p @ key)) K = {#}" by (auto simp: filter_mset_eq_mempty_iff)
  have "ref_inv ?c (insert ?o L) (P(?o := P p @ key)) K"
    unfolding ref_inv_def
  proof (intro conjI ballI impI)
    show "ref_count (node ?c n) = int (size (filter_mset (prefix ((P(?o := P p @ key)) n)) K))"
      if "n \<in> insert ?o L" "n \<noteq> root_node" for n
      using that radix_invD(2) [OF inv] oL none by (auto simp: fld ref_inv_def)
    show "ref_count (node ?c root_node) = 1"
      using radix_invD(2) [OF inv] ne by (simp add: fld ref_inv_def)
    show "\<exists>n\<in>insert ?o L. (P(?o := P p @ key)) n = h" if hK: "h \<in># K" for h
    proof -
      obtain n where "n \<in> L" "P n = h"
        using radix_invD(2) [OF inv] hK unfolding ref_inv_def by blast
      with oL show ?thesis by (intro bexI [of _ n]) auto
    qed
  qed
  moreover have "size_inv ?c (insert ?o L)"
  proof -
    have L': "insert ?o L - {root_node} = insert ?o (L - {root_node})" using ne by auto
    have same: "evictable_part ?c n = evictable_part c n" "protected_part ?c n = protected_part c n"
      if "n \<in> L" for n
    proof -
      have "n \<noteq> ?o" using that oL by auto
      then show "evictable_part ?c n = evictable_part c n" "protected_part ?c n = protected_part c n"
        by (simp_all add: evictable_part_def protected_part_def fld)
    qed
    have "finite (L - {root_node})" "?o \<notin> L - {root_node}" using tree_invD(2) [OF t] oL by auto
    moreover have "(\<Sum>n\<in>L - {root_node}. evictable_part ?c n) = (\<Sum>n\<in>L - {root_node}. evictable_part c n)"
      "(\<Sum>n\<in>L - {root_node}. protected_part ?c n) = (\<Sum>n\<in>L - {root_node}. protected_part c n)"
      using same by (auto intro!: sum.cong)
    ultimately show ?thesis
      using radix_invD(3) [OF inv] unfolding size_inv_def L'
      by (simp add: fld) (simp add: evictable_part_def protected_part_def fld)
  qed
  ultimately show ?thesis
    using attach_tree_inv [OF t p key new] by (simp add: radix_inv_def)
qed

section \<open>Insertion\<close>

lemma attach_new_handle:
  assumes "tree_inv c L P V" "radix_inv c' (insert (owned c) L) (P(owned c := s)) V' K"
  shows "handle_at c' \<lparr>handle_len = length s, handle_node = owned c\<rparr> s"
    and "handle_at c h ks \<Longrightarrow> handle_at c' h ks"
proof -
  note t' = radix_invD(1) [OF assms(2)]
  have "owned c \<notin> L" using tree_invD(4) [OF assms(1)] by blast
  then show "handle_at c h ks \<Longrightarrow> handle_at c' h ks"
    by (auto simp: handle_at_iff [OF assms(1)] handle_at_iff [OF t'])
  show "handle_at c' \<lparr>handle_len = length s, handle_node = owned c\<rparr> s"
    by (simp add: handle_at_iff [OF t'])
qed

text \<open>Hanging the leaf stores exactly the prefixes that were missing.\<close>

lemma attach_stored:
  assumes inv: "tree_inv c L P V" and inv': "tree_inv c' (insert (owned c) L)
      (P(owned c := P p @ key)) (V(owned c := V p @ val))"
    and p: "p \<in> L"
  shows "stored c' s v \<longleftrightarrow> stored c s v \<or>
     (s \<noteq> [] \<and> prefix s (P p @ key) \<and> length (P p) < length s \<and>
      v = (V p @ val) ! (length s - 1))"
proof -
  have oL: "owned c \<notin> L" using tree_invD(4) [OF inv] by blast
  have old: "(P(owned c := P p @ key)) n = P n" "(V(owned c := V p @ val)) n = V n" if "n \<in> L" for n
    using that oL by auto
  have low: "stored c s ((V p @ val) ! (length s - 1))"
    if "s \<noteq> []" "prefix s (P p @ key)" "length s \<le> length (P p)" for s
  proof -
    have "prefix s (P p)" using that(2,3) prefix_length_prefix [of s "P p @ key" "P p"] by auto
    moreover have "length s - 1 < length (V p)"
      using that tree_V_length [OF inv p] by (cases s) auto
    ultimately show ?thesis
      using that(1) p unfolding stored_iff [OF inv] by (auto simp: nth_append)
  qed
  have "stored c' s v \<longleftrightarrow> s \<noteq> [] \<and> ((\<exists>n\<in>L. prefix s (P n) \<and> v = V n ! (length s - 1)) \<or>
      (prefix s (P p @ key) \<and> v = (V p @ val) ! (length s - 1)))"
    unfolding stored_iff [OF inv'] using old oL by auto
  also have "\<dots> \<longleftrightarrow> stored c s v \<or>
      (s \<noteq> [] \<and> prefix s (P p @ key) \<and> v = (V p @ val) ! (length s - 1))"
    unfolding stored_iff [OF inv] by blast
  finally show ?thesis using low [of s] by (cases "length (P p) < length s") auto
qed

lemma attach_eq:
  assumes "page_size c = 1" "key \<noteq> []" "length val = length key" "owned c \<noteq> p"
  obtains t k where
    "(let (m, c2) = new_node 0 c in
       res_bind (set_key_value m key val c2) (\<lambda>c3.
       res_bind (set_parent m p c3) (\<lambda>c4.
       Inr (m, c4\<lparr>evictable_size := evictable_size c4 + int (node_length (node c4 m))\<rparr>)))) =
     Inr (owned c, attach_cache c p key val t k)"
proof -
  obtain t k where nn: "new_node 0 c = (owned c, c\<lparr>node := (node c)(owned c :=
      \<lparr>children = [], ref_count = 0, uuid = counter c, timestamp = t, node_parent = None,
       node_key = [], node_value = [], node_length = 0\<rparr>),
    owned := Suc (owned c), counter := Suc (counter c), clock_reads := k\<rparr>)"
    using new_node_eq by blast
  show thesis
    by (rule that [of t k])
      (use assms in \<open>simp add: nn set_key_value_eq set_parent_def upd_node_def attach_cache_def
        fun_upd_twist\<close>)
qed

text \<open>What the two indices of the result mean for the slots of the caller.\<close>

lemma insert_prefix_ok:
  assumes "radix_ok c K" "length ids \<le> length idx"
  shows "\<exists>plen h c'. insert_prefix ids idx c = Inr (plen, h, c') \<and> radix_ok c' K \<and>
     handle_at c' h ids \<and> plen \<le> length ids \<and>
     (\<forall>s. prefix s ids \<and> s \<noteq> [] \<longrightarrow> ((\<exists>v. stored c s v) \<longleftrightarrow> length s \<le> plen)) \<and>
     (\<forall>s v. stored c' s v \<longleftrightarrow> stored c s v \<or>
        (s \<noteq> [] \<and> prefix s ids \<and> plen < length s \<and> v = idx ! (length s - 1))) \<and>
     evictable_size c' = evictable_size c + int (length ids - plen) \<and>
     protected_size c' = protected_size c \<and>
     (\<forall>h' ks. handle_at c h' ks \<longrightarrow> handle_at c' h' ks)"
proof -
  obtain L P V where inv: "radix_inv c L P V K" using assms by (auto simp: radix_ok_def)
  obtain n plen c1 L1 P1 V1 where w: "tree_walk ids c = Inr (n, plen, c1)"
    "radix_inv c1 L1 P1 V1 K" "same_content c L P V c1 L1 P1 V1" "n \<in> L1"
    "P1 n = take plen ids" "plen \<le> length ids"
    "\<And>m s. m \<in> L1 \<Longrightarrow> prefix s ids \<Longrightarrow> prefix s (P1 m) \<Longrightarrow> length s \<le> plen"
    using tree_walk_cases [OF inv, of ids] by blast
  note t = radix_invD(1) [OF inv] and t1 = radix_invD(1) [OF w(2)]
  have ps: "page_size c = Suc 0" "page_size c1 = 1"
    using tree_invD(1) [OF t] tree_invD(1) [OF t1] by simp_all
  have found: "(\<exists>v. stored c s v) \<longleftrightarrow> length s \<le> plen" if s: "prefix s ids" "s \<noteq> []" for s
  proof -
    have "(\<exists>v. stored c1 s v) \<longleftrightarrow> length s \<le> plen"
      by (rule walk_stored [OF t1 w(4,5) _ s]) (rule w(7))
    then show ?thesis using w(3) by (simp add: same_content_def)
  qed
  have sz: "evictable_size c1 = evictable_size c" "protected_size c1 = protected_size c"
    and st: "stored c1 s v = stored c s v" for s v
    using w(3) by (simp_all add: same_content_def)
  show ?thesis
  proof (cases "plen = length ids")
    case True
    have "insert_prefix ids idx c =
        Inr (plen, \<lparr>handle_len = length ids, handle_node = n\<rparr>, c1)"
      using True by (simp add: insert_prefix_def ps w(1) Let_def)
    moreover have "handle_at c1 \<lparr>handle_len = length ids, handle_node = n\<rparr> ids"
      using w(4,5) True by (simp add: handle_at_iff [OF t1])
    moreover have "radix_ok c1 K" using w(2) by (auto simp: radix_ok_def)
    moreover have "\<not> (prefix s ids \<and> plen < length s)" for s
      using True prefix_length_le by (metis not_le)
    ultimately show ?thesis
      using True found sz st same_content_handle [OF t t1 w(3)] by auto
  next
    case False
    let ?key = "drop plen ids" let ?val = "drop plen (take (length ids) idx)"
    have kv: "?key \<noteq> []" "length ?val = length ?key" using False w(6) assms(2) by auto
    have on: "owned c1 \<noteq> n" using tree_invD(4) [OF t1 w(4)] by simp
    have new: "map_of (children (node c1 n)) (hd ?key) = None"
    proof (rule ccontr)
      assume "map_of (children (node c1 n)) (hd ?key) \<noteq> None"
      then obtain y where "(hd ?key, y) \<in> set (children (node c1 n))"
        by (auto dest: map_of_SomeD)
      note y = tree_child [OF t1 w(4) this]
      have "P1 y = take plen ids @ node_key (node c1 y)" "node_key (node c1 y) \<noteq> []"
        "hd (node_key (node c1 y)) = ids ! plen"
        using y(3,4) w(5) kv(1) by (auto simp: linked_def hd_drop_conv_nth)
      then have "prefix (take plen ids @ [ids ! plen]) (P1 y)"
        by (cases "node_key (node c1 y)") auto
      moreover have "take plen ids @ [ids ! plen] = take (Suc plen) ids"
        using False w(6) by (simp add: take_Suc_conv_app_nth)
      ultimately have "length (take (Suc plen) ids) \<le> plen"
        using w(7) [OF y(1)] take_is_prefix by metis
      then show False using False w(6) by simp
    qed
    obtain tt k where at: "(let (m, c2) = new_node 0 c1 in
       res_bind (set_key_value m ?key ?val c2) (\<lambda>c3.
       res_bind (set_parent m n c3) (\<lambda>c4.
       Inr (m, c4\<lparr>evictable_size := evictable_size c4 + int (node_length (node c4 m))\<rparr>)))) =
      Inr (owned c1, attach_cache c1 n ?key ?val tt k)"
      using attach_eq [OF ps(2) kv on] by blast
    let ?c = "attach_cache c1 n ?key ?val tt k"
    note inv' = attach_inv [OF w(2) w(4) kv new, of tt k]
    have Pn: "P1 n @ ?key = ids" using w(5) by simp
    have "insert_prefix ids idx c =
        Inr (plen, \<lparr>handle_len = length ids, handle_node = owned c1\<rparr>, ?c)"
      using False at by (simp add: insert_prefix_def ps w(1) Let_def)
    moreover have "handle_at ?c \<lparr>handle_len = length ids, handle_node = owned c1\<rparr> ids"
      using attach_new_handle(1) [OF t1 inv'] Pn by simp
    moreover have "radix_ok ?c K" using inv' by (auto simp: radix_ok_def)
    moreover have "evictable_size ?c = evictable_size c + int (length ids - plen)"
      "protected_size ?c = protected_size c"
      by (simp_all add: attach_cache_def sz)
    moreover have "handle_at ?c h' ks" if "handle_at c h' ks" for h' ks
      using attach_new_handle(2) [OF t1 inv'] same_content_handle [OF t t1 w(3) that] by blast
    moreover have "stored ?c s v \<longleftrightarrow> stored c s v \<or>
        (s \<noteq> [] \<and> prefix s ids \<and> plen < length s \<and> v = idx ! (length s - 1))" for s v
    proof -
      have len: "length (V1 n) = plen" "length (P1 n) = plen"
        using tree_V_length [OF t1 w(4)] w(5,6) by simp_all
      have "(V1 n @ ?val) ! (length s - 1) = idx ! (length s - 1)"
        if "prefix s ids" "plen < length s"
        using that prefix_length_le [OF that(1)] len assms(2) by (auto simp: nth_append)
      then show ?thesis
        unfolding attach_stored [OF t1 radix_invD(1) [OF inv'] w(4)] Pn len st by auto
    qed
    ultimately show ?thesis using found w(6) by auto
  qed
qed

text \<open>The cache as the constructor leaves it.\<close>

lemma radix_cache_init_ok: "radix_ok (radix_cache_init 1 cnt clk reads) {#}"
proof -
  have "radix_inv (radix_cache_init 1 cnt clk reads) {root_node} (\<lambda>_. []) (\<lambda>_. []) {#}"
    by (auto simp: radix_inv_def tree_inv_def ref_inv_def size_inv_def radix_cache_init_def
        new_node_def read_clock_def root_node_def Let_def)
  then show ?thesis by (auto simp: radix_ok_def)
qed

lemma radix_cache_init_empty: "\<not> stored (radix_cache_init 1 cnt clk reads) s v"
proof
  let ?c = "radix_cache_init 1 cnt clk reads"
  assume "stored ?c s v"
  then obtain n ks vs where "reach ?c n ks vs" "prefix s ks" "s \<noteq> []" by (auto simp: stored_def)
  from this(1) have "ks = [] \<and> n = root_node"
    by (induction rule: reach.induct)
      (auto simp: radix_cache_init_def new_node_def read_clock_def root_node_def)
  with \<open>prefix s ks\<close> \<open>s \<noteq> []\<close> show False by simp
qed

end
