(* ===== verification/RadixLock.thy ===== *)
theory RadixLock
  imports RadixInsert
begin

text \<open>
  \<open>lock_handle\<close>: locking a handle adds one to the count of every node between the handle and
  the root, unlocking takes it back, and the two size counters follow the nodes whose count
  leaves or reaches zero. The loops always reach the root, no count goes negative while a
  handle is unlocked as often as it was locked, and unlocking undoes locking exactly.
\<close>

section \<open>The effect of the two loops\<close>

definition moved_part :: "int \<Rightarrow> radix_cache \<Rightarrow> nat \<Rightarrow> int" where
  "moved_part r c n = (if ref_count (node c n) = r then int (node_length (node c n)) else 0)"

definition lock_nodes :: "nat set \<Rightarrow> radix_cache \<Rightarrow> radix_cache" where
  "lock_nodes A c = c\<lparr>
     node := (\<lambda>n. if n \<in> A then (node c n)\<lparr>ref_count := ref_count (node c n) + 1\<rparr> else node c n),
     evictable_size := evictable_size c - (\<Sum>n\<in>A. moved_part 0 c n),
     protected_size := protected_size c + (\<Sum>n\<in>A. moved_part 0 c n)\<rparr>"

definition unlock_nodes :: "nat set \<Rightarrow> radix_cache \<Rightarrow> radix_cache" where
  "unlock_nodes A c = c\<lparr>
     node := (\<lambda>n. if n \<in> A then (node c n)\<lparr>ref_count := ref_count (node c n) - 1\<rparr> else node c n),
     evictable_size := evictable_size c + (\<Sum>n\<in>A. moved_part 1 c n),
     protected_size := protected_size c - (\<Sum>n\<in>A. moved_part 1 c n)\<rparr>"

lemma lock_nodes_empty [simp]: "lock_nodes {} c = c"
  by (simp add: lock_nodes_def)

lemma unlock_nodes_empty [simp]: "unlock_nodes {} c = c"
  by (simp add: unlock_nodes_def)

lemma same_links_lock: "same_links c (lock_nodes A c)" "same_links c (unlock_nodes A c)"
  by (simp_all add: same_links_def lock_nodes_def unlock_nodes_def)

lemma lock_nodes_insert:
  assumes "finite A" "n \<notin> A"
  shows "lock_nodes A (lock_nodes {n} c) = lock_nodes (insert n A) c"
proof -
  have "(\<Sum>m\<in>A. moved_part 0 (lock_nodes {n} c) m) = (\<Sum>m\<in>A. moved_part 0 c m)"
    using assms(2) by (intro sum.cong) (auto simp: moved_part_def lock_nodes_def)
  moreover have "(\<lambda>m. if m \<in> A then (node (lock_nodes {n} c) m)
        \<lparr>ref_count := ref_count (node (lock_nodes {n} c) m) + 1\<rparr> else node (lock_nodes {n} c) m) =
      (\<lambda>m. if m \<in> insert n A then (node c m)\<lparr>ref_count := ref_count (node c m) + 1\<rparr> else node c m)"
    using assms(2) by (auto simp: lock_nodes_def)
  ultimately show ?thesis
    using assms unfolding lock_nodes_def [of A] lock_nodes_def [of "insert n A"]
    by (simp add: lock_nodes_def)
qed

lemma unlock_nodes_insert:
  assumes "finite A" "n \<notin> A"
  shows "unlock_nodes A (unlock_nodes {n} c) = unlock_nodes (insert n A) c"
proof -
  have "(\<Sum>m\<in>A. moved_part 1 (unlock_nodes {n} c) m) = (\<Sum>m\<in>A. moved_part 1 c m)"
    using assms(2) by (intro sum.cong) (auto simp: moved_part_def unlock_nodes_def)
  moreover have "(\<lambda>m. if m \<in> A then (node (unlock_nodes {n} c) m)
        \<lparr>ref_count := ref_count (node (unlock_nodes {n} c) m) - 1\<rparr> else node (unlock_nodes {n} c) m) =
      (\<lambda>m. if m \<in> insert n A then (node c m)\<lparr>ref_count := ref_count (node c m) - 1\<rparr> else node c m)"
    using assms(2) by (auto simp: unlock_nodes_def)
  ultimately show ?thesis
    using assms unfolding unlock_nodes_def [of A] unlock_nodes_def [of "insert n A"]
    by (simp add: unlock_nodes_def)
qed

lemma lock_nodes_single:
  "lock_nodes {n} c = upd_node n (\<lambda>x. x\<lparr>ref_count := ref_count x + 1\<rparr>)
     (c\<lparr>evictable_size := evictable_size c - moved_part 0 c n,
        protected_size := protected_size c + moved_part 0 c n\<rparr>)"
proof -
  have "(\<lambda>m. if m \<in> {n} then (node c m)\<lparr>ref_count := ref_count (node c m) + 1\<rparr> else node c m) =
      (node c)(n := (node c n)\<lparr>ref_count := ref_count (node c n) + 1\<rparr>)" by auto
  then show ?thesis by (simp add: lock_nodes_def upd_node_def)
qed

lemma unlock_nodes_single:
  "unlock_nodes {n} c = (upd_node n (\<lambda>x. x\<lparr>ref_count := ref_count x - 1\<rparr>) c)
     \<lparr>evictable_size := evictable_size c + moved_part 1 c n,
      protected_size := protected_size c - moved_part 1 c n\<rparr>"
proof -
  have "(\<lambda>m. if m \<in> {n} then (node c m)\<lparr>ref_count := ref_count (node c m) - 1\<rparr> else node c m) =
      (node c)(n := (node c n)\<lparr>ref_count := ref_count (node c n) - 1\<rparr>)" by auto
  then show ?thesis by (simp add: unlock_nodes_def upd_node_def)
qed

lemma lock_loop_eq:
  assumes "tree_inv c L P V" "n \<in> L" "card (ancestors L P n) < fuel"
  shows "lock_loop fuel n c = Inr (lock_nodes (ancestors L P n) c)"
  using assms
proof (induction fuel arbitrary: n c)
  case 0
  then show ?case by simp
next
  case (Suc fuel)
  note inv = Suc.prems(1)
  show ?case
  proof (cases "n = root_node")
    case True
    then show ?thesis using tree_invD(7) [OF inv] ancestors_root [OF inv] by simp
  next
    case False
    obtain p where p: "p \<in> L" "linked c P V p n" using tree_parent [OF inv Suc.prems(2) False] .
    note anc = ancestors_child [OF inv Suc.prems(2) False p(2)]
    note fin = finite_ancestors [OF inv, of p]
    have "card (ancestors L P p) < fuel" using Suc.prems(3) anc fin by simp
    moreover have "tree_inv (lock_nodes {n} c) L P V"
      using inv same_links_tree_inv [OF same_links_lock(1)] by blast
    ultimately have "lock_loop fuel p (lock_nodes {n} c) =
        Inr (lock_nodes (ancestors L P p) (lock_nodes {n} c))"
      using Suc.IH p(1) by blast
    moreover have "lock_loop (Suc fuel) n c = lock_loop fuel p (lock_nodes {n} c)"
    proof -
      have "(if ref_count (node c n) = 0
          then c\<lparr>evictable_size := evictable_size c - int (node_length (node c n)),
                 protected_size := protected_size c + int (node_length (node c n))\<rparr> else c) =
        c\<lparr>evictable_size := evictable_size c - moved_part 0 c n,
          protected_size := protected_size c + moved_part 0 c n\<rparr>"
        by (simp add: moved_part_def)
      moreover have "node_parent (node c n) = Some p" using p(2) by (simp add: linked_def)
      ultimately show ?thesis by (simp add: Let_def lock_nodes_single)
    qed
    ultimately show ?thesis using lock_nodes_insert [OF fin anc(2)] anc(1) by simp
  qed
qed

lemma unlock_loop_eq:
  assumes "tree_inv c L P V" "n \<in> L" "card (ancestors L P n) < fuel"
    and "\<And>m. m \<in> ancestors L P n \<Longrightarrow> 0 < ref_count (node c m)"
  shows "unlock_loop fuel n c = Inr (unlock_nodes (ancestors L P n) c)"
  using assms
proof (induction fuel arbitrary: n c)
  case 0
  then show ?case by simp
next
  case (Suc fuel)
  note inv = Suc.prems(1)
  show ?case
  proof (cases "n = root_node")
    case True
    then show ?thesis using tree_invD(7) [OF inv] ancestors_root [OF inv] by simp
  next
    case False
    obtain p where p: "p \<in> L" "linked c P V p n" using tree_parent [OF inv Suc.prems(2) False] .
    note anc = ancestors_child [OF inv Suc.prems(2) False p(2)]
    note fin = finite_ancestors [OF inv, of p]
    have "card (ancestors L P p) < fuel" using Suc.prems(3) anc fin by simp
    moreover have "tree_inv (unlock_nodes {n} c) L P V"
      using inv same_links_tree_inv [OF same_links_lock(2)] by blast
    moreover have "0 < ref_count (node (unlock_nodes {n} c) m)" if "m \<in> ancestors L P p" for m
      using that anc Suc.prems(4) [of m] by (auto simp: unlock_nodes_def)
    ultimately have "unlock_loop fuel p (unlock_nodes {n} c) =
        Inr (unlock_nodes (ancestors L P p) (unlock_nodes {n} c))"
      using Suc.IH p(1) by blast
    moreover have "unlock_loop (Suc fuel) n c = unlock_loop fuel p (unlock_nodes {n} c)"
    proof -
      let ?c1 = "upd_node n (\<lambda>x. x\<lparr>ref_count := ref_count x - 1\<rparr>) c"
      have "(if ref_count (node ?c1 n) = 0
          then ?c1\<lparr>evictable_size := evictable_size ?c1 + int (node_length (node ?c1 n)),
                   protected_size := protected_size ?c1 - int (node_length (node ?c1 n))\<rparr>
          else ?c1) = unlock_nodes {n} c"
        by (simp add: moved_part_def unlock_nodes_single)
      moreover have "node_parent (node c n) = Some p" using p(2) by (simp add: linked_def)
      moreover have "ref_count (node ?c1 n) \<ge> 0" using Suc.prems(4) [of n] anc(1) by simp
      ultimately show ?thesis by (simp only: unlock_loop.simps Let_def option.case check_True res_bind_Inr)
    qed
    ultimately show ?thesis using unlock_nodes_insert [OF fin anc(2)] anc(1) by simp
  qed
qed

section \<open>The invariant\<close>

lemma moved_sum:
  assumes fin: "finite L" and sub: "A \<subseteq> L"
    and out: "\<And>n. n \<in> L - A \<Longrightarrow> f' n = (f n :: int)"
    and inn: "\<And>n. n \<in> A \<Longrightarrow> f' n = f n + g n"
  shows "(\<Sum>n\<in>L. f' n) = (\<Sum>n\<in>L. f n) + (\<Sum>n\<in>A. g n)"
proof -
  have L: "L = A \<union> (L - A)" "A \<inter> (L - A) = {}" using sub by auto
  have fA: "finite A" "finite (L - A)" using fin sub finite_subset by auto
  have s: "(\<Sum>n\<in>L. h n) = (\<Sum>n\<in>A. h n) + (\<Sum>n\<in>L - A. h n)" for h :: "'a \<Rightarrow> int"
    using sum.union_disjoint [OF fA L(2), of h] L(1) by simp
  have "(\<Sum>n\<in>A. f' n) = (\<Sum>n\<in>A. f n) + (\<Sum>n\<in>A. g n)"
    using inn by (simp add: sum.distrib)
  moreover have "(\<Sum>n\<in>L - A. f' n) = (\<Sum>n\<in>L - A. f n)" using out by (intro sum.cong) auto
  ultimately show ?thesis using s [of f'] s [of f] by simp
qed

lemma lock_nodes_inv:
  assumes inv: "radix_inv c L P V K" and n: "n \<in> L"
  shows "radix_inv (lock_nodes (ancestors L P n) c) L P V (add_mset (P n) K)"
proof -
  note t = radix_invD(1) [OF inv] and r = radix_invD(2) [OF inv] and s = radix_invD(3) [OF inv]
  let ?A = "ancestors L P n" let ?c = "lock_nodes ?A c"
  have A: "?A \<subseteq> L - {root_node}" by (auto simp: ancestors_def)
  have "tree_inv ?c L P V" using same_links_tree_inv [OF same_links_lock(1)] t by blast
  moreover have "ref_inv ?c L P (add_mset (P n) K)"
    unfolding ref_inv_def
  proof (intro conjI ballI impI)
    show "ref_count (node ?c m) = int (size (filter_mset (prefix (P m)) (add_mset (P n) K)))"
      if "m \<in> L" "m \<noteq> root_node" for m
      using that r by (auto simp: lock_nodes_def ancestors_def ref_inv_def)
    show "ref_count (node ?c root_node) = 1"
      using r by (auto simp: lock_nodes_def ancestors_def ref_inv_def)
    show "\<exists>m\<in>L. P m = h" if "h \<in># add_mset (P n) K" for h
      using that n r by (auto simp: ref_inv_def)
  qed
  moreover have "size_inv ?c L"
  proof -
    note pp = evictable_part_def protected_part_def moved_part_def lock_nodes_def
    have fin: "finite (L - {root_node})" using tree_invD(2) [OF t] by simp
    have pos: "ref_count (node c m) + 1 \<noteq> 0" if "m \<in> ?A" for m
      using ref_count_nonneg [OF r, of m] that A by auto
    have "(\<Sum>m\<in>L - {root_node}. evictable_part ?c m) =
        (\<Sum>m\<in>L - {root_node}. evictable_part c m) + (\<Sum>m\<in>?A. - moved_part 0 c m)"
    proof (rule moved_sum [OF fin A])
      show "evictable_part ?c m = evictable_part c m" if "m \<in> L - {root_node} - ?A" for m
        using that by (simp add: pp)
      show "evictable_part ?c m = evictable_part c m + - moved_part 0 c m" if "m \<in> ?A" for m
        using that pos [OF that] by (simp add: pp)
    qed
    moreover have "(\<Sum>m\<in>L - {root_node}. protected_part ?c m) =
        (\<Sum>m\<in>L - {root_node}. protected_part c m) + (\<Sum>m\<in>?A. moved_part 0 c m)"
    proof (rule moved_sum [OF fin A])
      show "protected_part ?c m = protected_part c m" if "m \<in> L - {root_node} - ?A" for m
        using that by (simp add: pp)
      show "protected_part ?c m = protected_part c m + moved_part 0 c m" if "m \<in> ?A" for m
        using that pos [OF that] by (simp add: pp)
    qed
    ultimately show ?thesis
      using s unfolding size_inv_def by (simp add: sum_negf) (simp add: lock_nodes_def)
  qed
  ultimately show ?thesis by (simp add: radix_inv_def)
qed

lemma ancestors_ref_pos:
  assumes inv: "radix_inv c L P V K" and "P n \<in># K" "m \<in> ancestors L P n"
  shows "0 < ref_count (node c m)"
proof -
  have m: "m \<in> L" "m \<noteq> root_node" "prefix (P m) (P n)" using assms(3) by (auto simp: ancestors_def)
  have "P n \<in># filter_mset (prefix (P m)) K" using assms(2) m(3) by simp
  then have "0 < size (filter_mset (prefix (P m)) K)" by (metis nonempty_has_size empty_not_add_mset multi_member_split)
  then show ?thesis using radix_invD(2) [OF inv] m(1,2) by (simp add: ref_inv_def)
qed

lemma unlock_lock_nodes:
  assumes "\<And>n. n \<in> A \<Longrightarrow> 0 < ref_count (node c n)"
  shows "lock_nodes A (unlock_nodes A c) = c"
proof -
  have "(\<Sum>n\<in>A. moved_part 0 (unlock_nodes A c) n) = (\<Sum>n\<in>A. moved_part 1 c n)"
    by (intro sum.cong) (auto simp: moved_part_def unlock_nodes_def)
  moreover have "(\<lambda>n. if n \<in> A then (node (unlock_nodes A c) n)
        \<lparr>ref_count := ref_count (node (unlock_nodes A c) n) + 1\<rparr> else node (unlock_nodes A c) n) = node c"
    by (auto simp: unlock_nodes_def)
  ultimately show ?thesis unfolding lock_nodes_def [of A "unlock_nodes A c"]
    by (simp add: unlock_nodes_def)
qed

lemma lock_unlock_nodes: "unlock_nodes A (lock_nodes A c) = c"
proof -
  have "(\<Sum>n\<in>A. moved_part 1 (lock_nodes A c) n) = (\<Sum>n\<in>A. moved_part 0 c n)"
    by (intro sum.cong) (auto simp: moved_part_def lock_nodes_def)
  moreover have "(\<lambda>n. if n \<in> A then (node (lock_nodes A c) n)
        \<lparr>ref_count := ref_count (node (lock_nodes A c) n) - 1\<rparr> else node (lock_nodes A c) n) = node c"
    by (auto simp: lock_nodes_def)
  ultimately show ?thesis unfolding unlock_nodes_def [of A "lock_nodes A c"]
    by (simp add: lock_nodes_def)
qed

lemma unlock_nodes_inv:
  assumes inv: "radix_inv c L P V K" and n: "n \<in> L" "P n \<in># K"
  shows "radix_inv (unlock_nodes (ancestors L P n) c) L P V (K - {#P n#})"
proof -
  note t = radix_invD(1) [OF inv] and r = radix_invD(2) [OF inv] and s = radix_invD(3) [OF inv]
  let ?A = "ancestors L P n" let ?c = "unlock_nodes ?A c"
  obtain K' where K: "K = add_mset (P n) K'" using multi_member_split [OF n(2)] by auto
  have A: "?A \<subseteq> L - {root_node}" by (auto simp: ancestors_def)
  have pos: "0 < ref_count (node c m)" if "m \<in> ?A" for m
    using ancestors_ref_pos [OF inv n(2) that] .
  have "tree_inv ?c L P V" using same_links_tree_inv [OF same_links_lock(2)] t by blast
  moreover have "ref_inv ?c L P K'"
    unfolding ref_inv_def
  proof (intro conjI ballI impI)
    show "ref_count (node ?c m) = int (size (filter_mset (prefix (P m)) K'))"
      if "m \<in> L" "m \<noteq> root_node" for m
      using that r K by (auto simp: unlock_nodes_def ancestors_def ref_inv_def)
    show "ref_count (node ?c root_node) = 1"
      using r by (auto simp: unlock_nodes_def ancestors_def ref_inv_def)
    show "\<exists>m\<in>L. P m = h" if "h \<in># K'" for h
      using that K r by (auto simp: ref_inv_def)
  qed
  moreover have "size_inv ?c L"
  proof -
    note pp = evictable_part_def protected_part_def moved_part_def unlock_nodes_def
    have fin: "finite (L - {root_node})" using tree_invD(2) [OF t] by simp
    have "(\<Sum>m\<in>L - {root_node}. evictable_part ?c m) =
        (\<Sum>m\<in>L - {root_node}. evictable_part c m) + (\<Sum>m\<in>?A. moved_part 1 c m)"
    proof (rule moved_sum [OF fin A])
      show "evictable_part ?c m = evictable_part c m" if "m \<in> L - {root_node} - ?A" for m
        using that by (simp add: pp)
      show "evictable_part ?c m = evictable_part c m + moved_part 1 c m" if "m \<in> ?A" for m
        using that pos [OF that] by (simp add: pp)
    qed
    moreover have "(\<Sum>m\<in>L - {root_node}. protected_part ?c m) =
        (\<Sum>m\<in>L - {root_node}. protected_part c m) + (\<Sum>m\<in>?A. - moved_part 1 c m)"
    proof (rule moved_sum [OF fin A])
      show "protected_part ?c m = protected_part c m" if "m \<in> L - {root_node} - ?A" for m
        using that by (simp add: pp)
      show "protected_part ?c m = protected_part c m + - moved_part 1 c m" if "m \<in> ?A" for m
        using that pos [OF that] by (simp add: pp)
    qed
    ultimately show ?thesis
      using s unfolding size_inv_def by (simp add: sum_negf) (simp add: unlock_nodes_def)
  qed
  ultimately show ?thesis using K by (simp add: radix_inv_def)
qed

section \<open>Locking and unlocking a handle\<close>

lemma same_links_reach_imp: "same_links c c' \<Longrightarrow> reach c n ks vs \<Longrightarrow> reach c' n ks vs"
proof (rotate_tac 1, induction rule: reach.induct)
  case (reach_child p ks vs k m)
  then have "(k, m) \<in> set (children (node c' p))" "reach c' p ks vs"
    by (simp_all add: same_links_def)
  then show ?case
    using reach.reach_child [of c' p ks vs k m] reach_child.prems by (simp add: same_links_def)
qed (rule reach.reach_root)

lemma same_links_reach: "same_links c c' \<Longrightarrow> reach c' n ks vs = reach c n ks vs"
  using same_links_reach_imp [of c c'] same_links_reach_imp [of c' c]
  by (auto simp: same_links_def)

lemma lock_same:
  "stored (lock_nodes A c) s v \<longleftrightarrow> stored c s v" "stored (unlock_nodes A c) s v \<longleftrightarrow> stored c s v"
  "handle_at (lock_nodes A c) h ks \<longleftrightarrow> handle_at c h ks"
  "handle_at (unlock_nodes A c) h ks \<longleftrightarrow> handle_at c h ks"
proof -
  note * = same_links_reach [OF same_links_lock(1)] same_links_reach [OF same_links_lock(2)]
  show "stored (lock_nodes A c) s v \<longleftrightarrow> stored c s v" "stored (unlock_nodes A c) s v \<longleftrightarrow> stored c s v"
    "handle_at (lock_nodes A c) h ks \<longleftrightarrow> handle_at c h ks"
    "handle_at (unlock_nodes A c) h ks \<longleftrightarrow> handle_at c h ks"
    by (simp_all add: stored_def handle_at_def *)
qed

lemma lock_handle_ok:
  assumes "radix_ok c K" "handle_at c h ks"
  shows "\<exists>c'. lock_handle h False c = Inr c' \<and> radix_ok c' (add_mset ks K) \<and>
     (\<forall>s v. stored c' s v \<longleftrightarrow> stored c s v) \<and>
     (\<forall>h' ks'. handle_at c' h' ks' \<longleftrightarrow> handle_at c h' ks') \<and>
     evictable_size c' + protected_size c' = evictable_size c + protected_size c \<and>
     evictable_size c - int (length ks) \<le> evictable_size c' \<and>
     lock_handle h True c' = Inr c"
proof -
  obtain L P V where inv: "radix_inv c L P V K" using assms(1) by (auto simp: radix_ok_def)
  note t = radix_invD(1) [OF inv]
  have h: "handle_node h \<in> L" "P (handle_node h) = ks" using assms(2) handle_at_iff [OF t] by blast+
  let ?A = "ancestors L P (handle_node h)" let ?c = "lock_nodes ?A c"
  note inv' = lock_nodes_inv [OF inv h(1)]
  have "lock_handle h False c = Inr ?c"
    by (simp add: lock_handle_def del: lock_loop.simps)
      (rule lock_loop_eq [OF t h(1) card_ancestors [OF t]])
  moreover have "lock_handle h True ?c = Inr (unlock_nodes ?A ?c)"
  proof -
    have "unlock_loop (Suc (owned ?c)) (handle_node h) ?c = Inr (unlock_nodes ?A ?c)"
      by (rule unlock_loop_eq [OF radix_invD(1) [OF inv'] h(1)
            card_ancestors [OF radix_invD(1) [OF inv']]])
        (rule ancestors_ref_pos [OF inv'], simp_all)
    then show ?thesis by (simp add: lock_handle_def)
  qed
  moreover have "radix_ok ?c (add_mset ks K)" using inv' h(2) unfolding radix_ok_def by blast
  moreover have "evictable_size ?c + protected_size ?c = evictable_size c + protected_size c"
    by (simp add: lock_nodes_def)
  moreover have "evictable_size c - int (length ks) \<le> evictable_size ?c"
  proof -
    have len: "(\<Sum>m\<in>ancestors L P n. int (node_length (node c m))) = int (length (P n))"
      if "n \<in> L" for n
      using t that
    proof (induction rule: tree_induct)
      case root
      then show ?case using ancestors_root [OF t] tree_invD(5) [OF t] by simp
    next
      case (child p n)
      then show ?case
        using ancestors_child [OF t child.hyps(2-4)] finite_ancestors [OF t]
        by (simp add: linked_def)
    qed
    have "(\<Sum>m\<in>?A. moved_part 0 c m) \<le> (\<Sum>m\<in>?A. int (node_length (node c m)))"
      by (intro sum_mono) (simp add: moved_part_def)
    then show ?thesis using len [OF h(1)] h(2) by (simp add: lock_nodes_def)
  qed
  ultimately show ?thesis using lock_same lock_unlock_nodes by (intro exI [of _ ?c]) simp
qed

lemma unlock_handle_ok:
  assumes "radix_ok c K" "handle_at c h ks" "ks \<in># K"
  shows "\<exists>c'. lock_handle h True c = Inr c' \<and> radix_ok c' (K - {#ks#}) \<and>
     (\<forall>s v. stored c' s v \<longleftrightarrow> stored c s v) \<and>
     (\<forall>h' ks'. handle_at c' h' ks' \<longleftrightarrow> handle_at c h' ks') \<and>
     evictable_size c' + protected_size c' = evictable_size c + protected_size c \<and>
     evictable_size c \<le> evictable_size c' \<and>
     lock_handle h False c' = Inr c"
proof -
  obtain L P V where inv: "radix_inv c L P V K" using assms(1) by (auto simp: radix_ok_def)
  note t = radix_invD(1) [OF inv]
  have h: "handle_node h \<in> L" "P (handle_node h) = ks" using assms(2) handle_at_iff [OF t] by blast+
  let ?A = "ancestors L P (handle_node h)" let ?c = "unlock_nodes ?A c"
  have K: "P (handle_node h) \<in># K" using assms(3) h(2) by simp
  note inv' = unlock_nodes_inv [OF inv h(1) K]
  note pos = ancestors_ref_pos [OF inv K]
  have "lock_handle h True c = Inr ?c"
    by (simp add: lock_handle_def del: unlock_loop.simps)
      (rule unlock_loop_eq [OF t h(1) card_ancestors [OF t] pos])
  moreover have "lock_handle h False ?c = Inr c"
  proof -
    note t' = radix_invD(1) [OF inv']
    have "lock_loop (Suc (owned ?c)) (handle_node h) ?c = Inr (lock_nodes ?A ?c)"
      by (rule lock_loop_eq [OF t' h(1) card_ancestors [OF t']])
    then show ?thesis by (simp add: lock_handle_def unlock_lock_nodes [OF pos])
  qed
  moreover have "radix_ok ?c (K - {#ks#})" using inv' h(2) unfolding radix_ok_def by blast
  moreover have "evictable_size ?c + protected_size ?c = evictable_size c + protected_size c"
    by (simp add: unlock_nodes_def)
  moreover have "evictable_size c \<le> evictable_size ?c"
    by (simp add: unlock_nodes_def sum_nonneg moved_part_def)
  ultimately show ?thesis using lock_same by (intro exI [of _ ?c]) simp
qed

end
