(* ===== verification/RadixCut.thy ===== *)
theory RadixCut
  imports RadixLock
begin

text \<open>
  The pieces of eviction: the priority queue of leaves as an interface with its laws, the
  search for the leaves that may be evicted, and cutting one leaf off the tree.
\<close>

section \<open>The eviction queue\<close>

text \<open>
  What eviction needs of \<open>std::priority_queue\<close>: its elements as a multiset, and a top that no
  element precedes. Which of several equal elements is the top is left open.
\<close>

locale priority_queue =
  fixes top :: "('a \<Rightarrow> int) \<Rightarrow> 'q \<Rightarrow> 'a"
    and pop :: "('a \<Rightarrow> int) \<Rightarrow> 'q \<Rightarrow> 'q"
    and push :: "'a \<Rightarrow> 'q \<Rightarrow> 'q"
    and contents :: "'q \<Rightarrow> 'a multiset"
  assumes top_in: "contents q \<noteq> {#} \<Longrightarrow> top p q \<in># contents q"
    and top_least: "x \<in># contents q \<Longrightarrow> p (top p q) \<le> p x"
    and contents_pop: "contents q \<noteq> {#} \<Longrightarrow> contents (pop p q) = contents q - {#top p q#}"
    and contents_push: "contents (push x q) = add_mset x (contents q)"
begin

text \<open>A queue that holds each element of a finite set once.\<close>

lemma set_queue_top:
  assumes "contents q = mset_set A" "finite A" "A \<noteq> {}"
  shows "top p q \<in> A" "x \<in> A \<Longrightarrow> p (top p q) \<le> p x"
    "contents (pop p q) = mset_set (A - {top p q})"
proof -
  have ne: "contents q \<noteq> {#}" using assms by (simp add: mset_set_empty_iff)
  show t: "top p q \<in> A" using top_in [OF ne, of p] assms by simp
  show "x \<in> A \<Longrightarrow> p (top p q) \<le> p x" using top_least [of x q p] assms by simp
  show "contents (pop p q) = mset_set (A - {top p q})"
    using contents_pop [OF ne, of p] assms t by (simp add: mset_set_Diff)
qed

lemma set_queue_push:
  "contents q = mset_set A \<Longrightarrow> finite A \<Longrightarrow> x \<notin> A \<Longrightarrow> contents (push x q) = mset_set (insert x A)"
  by (simp add: contents_push)

end

lemma heap_top_least: "x \<in> set h \<Longrightarrow> prio (heap_top prio h) \<le> prio x"
  unfolding heap_top_def by (cases "h = []") (auto simp: f_arg_min_list_f)

lemma heap_top_in: "h \<noteq> [] \<Longrightarrow> heap_top prio h \<in> set h"
  unfolding heap_top_def by (rule arg_min_list_in)

interpretation timestamp_heap: priority_queue heap_top heap_pop heap_push mset
  by unfold_locales (auto simp: heap_top_in heap_top_least heap_pop_def heap_push_def)

section \<open>The subtree of a node\<close>

definition subtree :: "nat set \<Rightarrow> (nat \<Rightarrow> int list) \<Rightarrow> nat \<Rightarrow> nat set" where
  "subtree L P n = {m \<in> L. prefix (P n) (P m)}"

lemma subtree_root: "tree_inv c L P V \<Longrightarrow> subtree L P root_node = L"
  by (auto simp: subtree_def tree_invD)

lemma finite_subtree: "tree_inv c L P V \<Longrightarrow> finite (subtree L P n)"
  by (simp add: subtree_def tree_invD(2))

lemma distinct_children:
  assumes "tree_inv c L P V" "n \<in> L"
  shows "distinct (map snd (children (node c n)))"
proof -
  have "distinct (children (node c n))"
    using tree_child_keys [OF assms] by (simp add: distinct_map)
  moreover have "inj_on snd (set (children (node c n)))"
  proof (rule inj_onI)
    have fst: "fst x = hd (node_key (node c (snd x)))" if "x \<in> set (children (node c n))" for x
      using tree_child(4) [OF assms, of "fst x" "snd x"] that by simp
    show "x = y" if "x \<in> set (children (node c n))" "y \<in> set (children (node c n))" "snd x = snd y" for x y
      using fst [OF that(1)] fst [OF that(2)] that(3) by (simp add: prod_eq_iff)
  qed
  ultimately show ?thesis by (simp add: distinct_map)
qed

lemma subtree_children_disjoint:
  assumes inv: "tree_inv c L P V" and n: "n \<in> L"
    and y: "y \<in> snd ` set (children (node c n))" "z \<in> snd ` set (children (node c n))"
    and m: "m \<in> subtree L P y" "m \<in> subtree L P z"
  shows "y = z"
proof -
  obtain k l where k: "(k, y) \<in> set (children (node c n))" "(l, z) \<in> set (children (node c n))"
    using y by auto
  note cy = tree_child [OF inv n k(1)] and cz = tree_child [OF inv n k(2)]
  have "P y = P n @ node_key (node c y)" "P z = P n @ node_key (node c z)"
    "node_key (node c y) \<noteq> []" "node_key (node c z) \<noteq> []"
    using cy(3) cz(3) by (auto simp: linked_def)
  moreover have "prefix (P y) (P m)" "prefix (P z) (P m)" using m by (auto simp: subtree_def)
  ultimately have yz: "prefix (P n @ node_key (node c y)) (P m)"
    "prefix (P n @ node_key (node c z)) (P m)" "node_key (node c y) \<noteq> []" "node_key (node c z) \<noteq> []"
    by simp_all
  have "prefix (P n @ [hd (node_key (node c y))]) (P n @ node_key (node c y))"
    using yz(3) by (cases "node_key (node c y)") auto
  then have "prefix (P n @ [hd (node_key (node c y))]) (P m)"
    using yz(1) prefix_order.order_trans by blast
  then have "k = l" using prefix_append_hd [OF _ yz(2,4)] cy(4) cz(4) by simp
  then show ?thesis using k tree_child_keys [OF inv n] by (metis eq_key_imp_eq_value)
qed

lemma subtree_split:
  assumes inv: "tree_inv c L P V" and n: "n \<in> L"
  shows "subtree L P n = insert n (\<Union>y\<in>snd ` set (children (node c n)). subtree L P y)"
    "n \<notin> (\<Union>y\<in>snd ` set (children (node c n)). subtree L P y)"
proof -
  have below: "P y = P n @ node_key (node c y)" "node_key (node c y) \<noteq> []" "y \<in> L"
    if "y \<in> snd ` set (children (node c n))" for y
    using that tree_child(1,3) [OF inv n] by (auto simp: linked_def)
  show "n \<notin> (\<Union>y\<in>snd ` set (children (node c n)). subtree L P y)"
  proof
    assume "n \<in> (\<Union>y\<in>snd ` set (children (node c n)). subtree L P y)"
    then obtain y where y: "y \<in> snd ` set (children (node c n))" "prefix (P y) (P n)"
      by (auto simp: subtree_def)
    then show False using below [OF y(1)] prefix_length_le [OF y(2)] by simp
  qed
  show "subtree L P n = insert n (\<Union>y\<in>snd ` set (children (node c n)). subtree L P y)"
  proof (intro equalityI subsetI)
    fix m
    assume "m \<in> subtree L P n"
    then have m: "m \<in> L" "prefix (P n) (P m)" by (auto simp: subtree_def)
    show "m \<in> insert n (\<Union>y\<in>snd ` set (children (node c n)). subtree L P y)"
    proof (cases "P m = P n")
      case True
      then show ?thesis using tree_P_inj [OF inv m(1) n] by simp
    next
      case False
      then obtain x xs where "P m = P n @ x # xs" using m(2) by (auto simp: prefix_def neq_Nil_conv)
      then have "prefix (P n @ [x]) (P m)" by simp
      from next_child [OF inv n refl m(1) this] obtain y where
        y: "map_of (children (node c n)) x = Some y" "prefix (P y) (P m)" by blast
      have "y \<in> snd ` set (children (node c n))" using map_of_SomeD [OF y(1)] by force
      then show ?thesis using y(2) m(1) by (auto simp: subtree_def)
    qed
  next
    fix m
    assume "m \<in> insert n (\<Union>y\<in>snd ` set (children (node c n)). subtree L P y)"
    then consider "m = n" | y where "y \<in> snd ` set (children (node c n))" "m \<in> subtree L P y"
      by blast
    then show "m \<in> subtree L P n"
    proof cases
      case 1
      then show ?thesis using n by (simp add: subtree_def)
    next
      case (2 y)
      then have "prefix (P n) (P y)" using below(1) [OF 2(1)] by simp
      then show ?thesis using 2(2) prefix_order.order_trans by (auto simp: subtree_def)
    qed
  qed
qed

lemma subtree_sum:
  fixes f :: "nat \<Rightarrow> 'b::comm_monoid_add"
  assumes inv: "tree_inv c L P V" and n: "n \<in> L"
  shows "sum f (subtree L P n) =
     f n + sum_list (map (\<lambda>y. sum f (subtree L P y)) (map snd (children (node c n))))"
proof -
  let ?C = "snd ` set (children (node c n))"
  have "sum f (subtree L P n) = f n + sum f (\<Union>y\<in>?C. subtree L P y)"
    using subtree_split [OF inv n] finite_subtree [OF inv] by simp
  also have "sum f (\<Union>y\<in>?C. subtree L P y) = (\<Sum>y\<in>?C. sum f (subtree L P y))"
    using subtree_children_disjoint [OF inv n] finite_subtree [OF inv]
    by (intro sum.UNION_disjoint) auto
  also have "\<dots> = sum_list (map (\<lambda>y. sum f (subtree L P y)) (map snd (children (node c n))))"
    using sum_list_distinct_conv_sum_set [OF distinct_children [OF inv n],
        of "\<lambda>y. sum f (subtree L P y)"] by simp
  finally show ?thesis .
qed

section \<open>Collecting the leaves\<close>

definition evictable_leaf :: "radix_cache \<Rightarrow> nat \<Rightarrow> bool" where
  "evictable_leaf c n \<longleftrightarrow>
     (\<exists>ks vs. reach c n ks vs) \<and> n \<noteq> root_node \<and> is_leaf c n \<and> ref_count (node c n) = 0"

lemma evictable_leaf_iff:
  "tree_inv c L P V \<Longrightarrow> evictable_leaf c n \<longleftrightarrow>
     n \<in> L \<and> n \<noteq> root_node \<and> is_leaf c n \<and> ref_count (node c n) = 0"
  by (auto simp: evictable_leaf_def reach_iff)

definition leaf_mset :: "radix_cache \<Rightarrow> nat \<Rightarrow> nat multiset" where
  "leaf_mset c n = (if evictable_leaf c n then {#n#} else {#})"

lemma collect_loop_ok:
  assumes "tree_inv c L P V" "set stack \<subseteq> L"
    and "sum_list (map (\<lambda>n. card (subtree L P n)) stack) < fuel"
  shows "\<exists>xs. collect_loop fuel c stack leaves = Inr (leaves @ xs) \<and>
     mset xs = sum_list (map (\<lambda>n. sum (leaf_mset c) (subtree L P n)) stack)"
  using assms(2,3)
proof (induction fuel arbitrary: stack leaves)
  case 0
  then show ?case by simp
next
  case (Suc fuel)
  note inv = assms(1)
  show ?case
  proof (cases stack)
    case Nil
    then show ?thesis by simp
  next
    case (Cons n stack')
    then have n: "n \<in> L" "set stack' \<subseteq> L" using Suc.prems by auto
    note sums = subtree_sum [OF inv n(1)]
    have card: "card (subtree L P n) =
        Suc (sum_list (map (\<lambda>y. card (subtree L P y)) (map snd (children (node c n)))))"
      using sums [of "\<lambda>_. 1 :: nat"] by (simp add: comp_def)
    show ?thesis
    proof (cases "is_leaf c n")
      case True
      then have ch: "children (node c n) = []" by (simp add: is_leaf_def)
      have el: "ref_count (node c n) = 0 \<and> \<not> is_root c n \<longleftrightarrow> evictable_leaf c n"
        using True n(1) tree_root_iff [OF inv n(1)] evictable_leaf_iff [OF inv]
        by (auto simp: is_root_def)
      have "sum_list (map (\<lambda>n. card (subtree L P n)) stack') < fuel"
        using Suc.prems(2) Cons card by simp
      from Suc.IH [OF n(2) this, of "if evictable_leaf c n then leaves @ [n] else leaves"]
      obtain xs where xs: "collect_loop fuel c stack' (if evictable_leaf c n then leaves @ [n] else leaves) =
          Inr ((if evictable_leaf c n then leaves @ [n] else leaves) @ xs)"
        "mset xs = sum_list (map (\<lambda>n. sum (leaf_mset c) (subtree L P n)) stack')" by blast
      have "sum (leaf_mset c) (subtree L P n) = leaf_mset c n" using sums [of "leaf_mset c"] ch by simp
      then show ?thesis
        using xs True Cons el
        by (intro exI [of _ "if evictable_leaf c n then n # xs else xs"])
          (simp add: leaf_mset_def)
    next
      case False
      have nl: "leaf_mset c n = {#}" using False by (simp add: leaf_mset_def evictable_leaf_def)
      let ?st = "rev (map snd (children (node c n))) @ stack'"
      have "set ?st \<subseteq> L" using n tree_child(1) [OF inv n(1)] by auto
      moreover have "sum_list (map (\<lambda>n. card (subtree L P n)) ?st) < fuel"
        using Suc.prems(2) Cons card by (simp add: rev_map [symmetric] sum_list_rev)
      ultimately obtain xs where xs: "collect_loop fuel c ?st leaves = Inr (leaves @ xs)"
        "mset xs = sum_list (map (\<lambda>n. sum (leaf_mset c) (subtree L P n)) ?st)"
        using Suc.IH by blast
      have "mset xs = sum_list (map (\<lambda>n. sum (leaf_mset c) (subtree L P n)) stack)"
        using xs(2) Cons sums [of "leaf_mset c"] nl by (simp add: rev_map [symmetric] sum_list_rev)
      then show ?thesis using xs(1) False Cons by auto
    qed
  qed
qed

lemma collect_ok:
  assumes "tree_inv c L P V"
  shows "\<exists>xs. collect_leave_nodes_for_evict c = Inr xs \<and> mset xs = mset_set {n. evictable_leaf c n}"
proof -
  have "L \<subseteq> {..<owned c}" using tree_invD(4) [OF assms] by auto
  then have "card L < Suc (owned c)" using card_mono [of "{..<owned c}"] by (simp add: le_imp_less_Suc)
  then have "sum_list (map (\<lambda>n. card (subtree L P n)) [root_node]) < Suc (owned c)"
    using subtree_root [OF assms] by simp
  then obtain xs where "collect_leave_nodes_for_evict c = Inr xs"
    "mset xs = sum (leaf_mset c) L"
    using collect_loop_ok [OF assms _ _, of "[root_node]" "Suc (owned c)" "[]"] tree_invD(3) [OF assms]
      subtree_root [OF assms]
    by (auto simp del: collect_loop.simps simp: collect_leave_nodes_for_evict_def)
  moreover have "sum (leaf_mset c) L = mset_set {n. evictable_leaf c n}"
  proof -
    have "{n. evictable_leaf c n} = {n \<in> L. evictable_leaf c n}"
      using evictable_leaf_iff [OF assms] by auto
    moreover have "sum (leaf_mset c) A = mset_set {n \<in> A. evictable_leaf c n}" if "finite A" for A
      using that
    proof (induction A rule: finite_induct)
      case (insert x A)
      then have "{n \<in> insert x A. evictable_leaf c n} =
          (if evictable_leaf c x then insert x {n \<in> A. evictable_leaf c n} else {n \<in> A. evictable_leaf c n})"
        by auto
      then show ?case using insert by (auto simp: leaf_mset_def)
    qed simp
    ultimately show ?thesis using tree_invD(2) [OF assms] by simp
  qed
  ultimately show ?thesis by auto
qed

end
