(* ===== verification/RadixEvict.thy ===== *)
theory RadixEvict
  imports RadixCut
begin

text \<open>
  Eviction. \<open>lru_evict\<close> is its abstract specification: as long as more slots are needed, cut
  the unreferenced leaf that was used least recently. \<open>evict\<close> implements it, and every run of
  the specification keeps the tree well-formed, frees at least what was asked for, keeps every
  locked prefix, and returns exactly the slots that leave the tree.
\<close>

section \<open>The slots of the tree\<close>

definition tree_slots :: "radix_cache \<Rightarrow> int multiset" where
  "tree_slots c = (\<Sum>n\<in>{n. \<exists>ks vs. reach c n ks vs} - {root_node}. mset (node_value (node c n)))"

lemma tree_slots_eq:
  assumes "tree_inv c L P V"
  shows "tree_slots c = (\<Sum>n\<in>L - {root_node}. mset (node_value (node c n)))"
proof -
  have "{n. \<exists>ks vs. reach c n ks vs} = L" using reach_iff [OF assms] by auto
  then show ?thesis by (simp add: tree_slots_def)
qed

lemma size_mset_sum:
  fixes f :: "'a \<Rightarrow> 'b multiset"
  shows "finite A \<Longrightarrow> size (sum f A) = (\<Sum>x\<in>A. size (f x))"
  by (induction A rule: finite_induct) auto

text \<open>The two counters of the cache count its slots.\<close>

lemma tree_slots_size:
  assumes "radix_ok c K"
  shows "int (size (tree_slots c)) = evictable_size c + protected_size c"
proof -
  obtain L P V where inv: "radix_inv c L P V K" using assms by (auto simp: radix_ok_def)
  note t = radix_invD(1) [OF inv]
  have "int (size (tree_slots c)) = (\<Sum>n\<in>L - {root_node}. int (length (node_value (node c n))))"
    using tree_invD(2) [OF t] by (simp add: tree_slots_eq [OF t] size_mset_sum)
  also have "\<dots> = (\<Sum>n\<in>L - {root_node}. evictable_part c n + protected_part c n)"
  proof (rule sum.cong)
    fix n
    assume "n \<in> L - {root_node}"
    then obtain p where "linked c P V p n" using tree_parent [OF t] by blast
    then show "int (length (node_value (node c n))) = evictable_part c n + protected_part c n"
      by (simp add: evictable_part_def protected_part_def linked_def)
  qed simp
  also have "\<dots> = evictable_size c + protected_size c"
    using radix_invD(3) [OF inv] by (simp add: sum.distrib size_inv_def)
  finally show ?thesis .
qed

section \<open>Cutting off a leaf\<close>

definition cut_cache :: "radix_cache \<Rightarrow> nat \<Rightarrow> nat \<Rightarrow> radix_cache" where
  "cut_cache c p n =
     upd_node p (\<lambda>x. x\<lparr>children := AList.delete (hd (node_key (node c n))) (children x)\<rparr>)
       (c\<lparr>evictable_size := evictable_size c - int (node_length (node c n))\<rparr>)"

lemma cut_fields:
  "node_parent (node (cut_cache c p n) m) = node_parent (node c m)"
  "node_key (node (cut_cache c p n) m) = node_key (node c m)"
  "node_value (node (cut_cache c p n) m) = node_value (node c m)"
  "node_length (node (cut_cache c p n) m) = node_length (node c m)"
  "ref_count (node (cut_cache c p n) m) = ref_count (node c m)"
  "timestamp (node (cut_cache c p n) m) = timestamp (node c m)"
  "children (node (cut_cache c p n) m) =
     (if m = p then AList.delete (hd (node_key (node c n))) (children (node c p))
      else children (node c m))"
  "page_size (cut_cache c p n) = page_size c"
  "owned (cut_cache c p n) = owned c"
  "evictable_size (cut_cache c p n) = evictable_size c - int (node_length (node c n))"
  "protected_size (cut_cache c p n) = protected_size c"
  by (simp_all add: cut_cache_def)

lemma delete_set: "(k, x) \<in> set (AList.delete k' al) \<longleftrightarrow> k \<noteq> k' \<and> (k, x) \<in> set al"
  by (auto simp: AList.delete_eq)

lemma leaf_subtree:
  assumes "tree_inv c L P V" "n \<in> L" "is_leaf c n" "m \<in> L" "prefix (P n) (P m)"
  shows "m = n"
  using subtree_split(1) [OF assms(1,2)] assms(3-) by (auto simp: is_leaf_def subtree_def)

lemma cut_tree_inv:
  assumes inv: "tree_inv c L P V" and n: "n \<in> L" "n \<noteq> root_node" "is_leaf c n"
    and p: "p \<in> L" "linked c P V p n"
  shows "tree_inv (cut_cache c p n) (L - {n}) P V"
proof -
  let ?c = "cut_cache c p n"
  have inn: "(hd (node_key (node c n)), n) \<in> set (children (node c p))" using p(2) by (simp add: linked_def)
  show ?thesis
  proof (rule tree_invI)
    show "\<exists>q\<in>L - {n}. linked ?c P V q m" if m: "m \<in> L - {n}" "m \<noteq> root_node" for m
    proof -
      obtain q where q: "q \<in> L" "linked c P V q m" using tree_parent [OF inv _ m(2)] m(1) by blast
      have "q \<noteq> n" using q(2) n(3) by (auto simp: linked_def is_leaf_def)
      moreover have "hd (node_key (node c m)) \<noteq> hd (node_key (node c n))" if "q = p"
        using q(2) that inn tree_child_keys [OF inv p(1)] m(1)
        by (metis DiffD2 eq_key_imp_eq_value linked_def singletonI)
      ultimately show ?thesis
        using q by (intro bexI [of _ q]) (auto simp: linked_def cut_fields delete_set)
    qed
    show "distinct (map fst (children (node ?c q)))" if "q \<in> L - {n}" for q
      using that tree_child_keys [OF inv] p(1) by (auto simp: cut_fields distinct_delete)
    show "m \<in> L - {n} \<and> m \<noteq> root_node \<and> node_parent (node ?c m) = Some q \<and>
        k = hd (node_key (node ?c m))"
      if q: "q \<in> L - {n}" and m: "(k, m) \<in> set (children (node ?c q))" for q k m
    proof -
      have old: "(k, m) \<in> set (children (node c q))" "q = p \<Longrightarrow> k \<noteq> hd (node_key (node c n))"
        using m by (auto simp: cut_fields delete_set split: if_splits)
      have qL: "q \<in> L" using q by simp
      note ch = tree_child [OF inv qL old(1)]
      have "m \<noteq> n"
      proof
        assume "m = n"
        then have "q = p" using ch(3) p(2) linked_parent_unique by blast
        then show False using old(2) ch(4) \<open>m = n\<close> by simp
      qed
      then show ?thesis using ch by (auto simp: cut_fields linked_def)
    qed
  qed (use tree_invD [OF inv] n in \<open>auto simp: cut_fields\<close>)
qed

lemma cut_inv:
  assumes inv: "radix_inv c L P V K" and n: "n \<in> L" "n \<noteq> root_node" "is_leaf c n"
    and p: "p \<in> L" "linked c P V p n" and ref: "ref_count (node c n) = 0"
  shows "radix_inv (cut_cache c p n) (L - {n}) P V K"
proof -
  note t = radix_invD(1) [OF inv] and r = radix_invD(2) [OF inv]
  let ?c = "cut_cache c p n"
  have "ref_inv ?c (L - {n}) P K"
    unfolding ref_inv_def
  proof (intro conjI ballI impI)
    show "ref_count (node ?c m) = int (size (filter_mset (prefix (P m)) K))"
      if "m \<in> L - {n}" "m \<noteq> root_node" for m
      using that r by (auto simp: cut_fields ref_inv_def)
    show "ref_count (node ?c root_node) = 1" using r by (simp add: cut_fields ref_inv_def)
    show "\<exists>m\<in>L - {n}. P m = h" if hK: "h \<in># K" for h
    proof -
      obtain m where m: "m \<in> L" "P m = h" using r hK unfolding ref_inv_def by blast
      have "m \<noteq> n" using ref_count_zero [OF r n(1) ref hK] m(2) by auto
      then show ?thesis using m by blast
    qed
  qed
  moreover have "size_inv ?c (L - {n})"
  proof -
    have L: "finite (L - {root_node})" "n \<in> L - {root_node}" using tree_invD(2) [OF t] n by auto
    have eq: "L - {n} - {root_node} = L - {root_node} - {n}" by auto
    have parts: "evictable_part ?c m = evictable_part c m" "protected_part ?c m = protected_part c m" for m
      by (simp_all add: evictable_part_def protected_part_def cut_fields)
    have "evictable_part c n = int (node_length (node c n))" "protected_part c n = 0"
      using ref by (simp_all add: evictable_part_def protected_part_def)
    then show ?thesis
      using radix_invD(3) [OF inv] sum.remove [OF L, of "evictable_part c"]
        sum.remove [OF L, of "protected_part c"]
      unfolding size_inv_def eq parts by (simp add: cut_fields)
  qed
  ultimately show ?thesis using cut_tree_inv [OF t n p] by (simp add: radix_inv_def)
qed

lemma cut_stored:
  assumes inv: "tree_inv c L P V" and n: "n \<in> L" "n \<noteq> root_node" "is_leaf c n"
    and p: "p \<in> L" "linked c P V p n"
  shows "stored (cut_cache c p n) s v \<longleftrightarrow>
     stored c s v \<and> \<not> (prefix s (P n) \<and> length (P p) < length s)"
proof (cases "prefix s (P n) \<and> length (P p) < length s \<and> s \<noteq> []")
  case True
  then have cov: "covers c P n s" using covers_linked [OF p(2)] by simp
  have "m = n" if m: "m \<in> L" "prefix s (P m)" for m
  proof -
    obtain y where "y \<in> L" "y \<noteq> root_node" "covers c P y s" "prefix (P y) (P m)"
      using cover_exists [OF inv m(1)] True m(2) by blast
    then have "prefix (P n) (P m)" using cover_unique [OF inv _ n(1) _ n(2) _ cov] by blast
    then show ?thesis using leaf_subtree [OF inv n(1,3) m(1)] by simp
  qed
  then show ?thesis
    using True unfolding stored_iff [OF cut_tree_inv [OF inv n p]] stored_iff [OF inv] by blast
next
  case False
  have "\<exists>m\<in>L - {n}. prefix s (P m) \<and> V n ! (length s - 1) = V m ! (length s - 1)"
    if s: "s \<noteq> []" "prefix s (P n)"
  proof (rule bexI [of _ p])
    have "length s \<le> length (P p)" using False s by auto
    moreover have "prefix (P p) (P n)" using p(2) by (simp add: linked_def)
    ultimately have "prefix s (P p)" using s(2) prefix_length_prefix by blast
    moreover have "length s - 1 < length (P p)"
      using \<open>length s \<le> length (P p)\<close> s(1) by (cases s) auto
    then have "V n ! (length s - 1) = V p ! (length s - 1)"
      using linked_V_nth [OF p(2) tree_V_length [OF inv p(1)]] by blast
    ultimately show "prefix s (P p) \<and> V n ! (length s - 1) = V p ! (length s - 1)" by simp
    show "p \<in> L - {n}" using p linked_len by blast
  qed
  then have "stored (cut_cache c p n) s v \<longleftrightarrow> stored c s v"
    unfolding stored_iff [OF cut_tree_inv [OF inv n p]] stored_iff [OF inv] by (metis DiffD1 DiffI singletonD)
  then show ?thesis using False unfolding stored_iff [OF inv] by auto
qed

lemma cut_slots:
  assumes inv: "tree_inv c L P V" and n: "n \<in> L" "n \<noteq> root_node" "is_leaf c n"
    and p: "p \<in> L" "linked c P V p n"
  shows "tree_slots c = tree_slots (cut_cache c p n) + mset (node_value (node c n))"
proof -
  have L: "finite (L - {root_node})" "n \<in> L - {root_node}" using tree_invD(2) [OF inv] n by auto
  have eq: "L - {n} - {root_node} = L - {root_node} - {n}" by auto
  show ?thesis
    unfolding tree_slots_eq [OF inv] tree_slots_eq [OF cut_tree_inv [OF inv n p]] eq
    using sum.remove [OF L, of "\<lambda>n. mset (node_value (node c n))"] by (simp add: cut_fields)
qed

end
