(* ===== verification/RadixLru.thy ===== *)
theory RadixLru
  imports RadixEvict
begin

text \<open>
  Eviction as a whole: the specification \<open>lru_evict\<close>, that \<open>evict\<close> implements it, and what
  every run of it does to the cache.
\<close>

section \<open>The specification\<close>

definition evict_one :: "radix_cache \<Rightarrow> nat \<Rightarrow> radix_cache" where
  "evict_one c n = cut_cache c (the (node_parent (node c n))) n"

inductive lru_evict :: "int \<Rightarrow> radix_cache \<Rightarrow> int list \<Rightarrow> radix_cache \<Rightarrow> bool" where
  lru_done: "need \<le> 0 \<Longrightarrow> lru_evict need c [] c"
| lru_step: "0 < need \<Longrightarrow> evictable_leaf c n \<Longrightarrow>
     (\<And>m. evictable_leaf c m \<Longrightarrow> timestamp (node c n) \<le> timestamp (node c m)) \<Longrightarrow>
     lru_evict (need - int (node_length (node c n))) (evict_one c n) vs c' \<Longrightarrow>
     lru_evict need c (node_value (node c n) @ vs) c'"

inductive_cases lru_doneE: "lru_evict need c [] c'"

lemma evictable_leafE:
  assumes "radix_inv c L P V K" "evictable_leaf c n"
  obtains p where "n \<in> L" "n \<noteq> root_node" "is_leaf c n" "ref_count (node c n) = 0" "p \<in> L"
    "linked c P V p n" "evict_one c n = cut_cache c p n"
    "radix_inv (evict_one c n) (L - {n}) P V K"
proof -
  note t = radix_invD(1) [OF assms(1)]
  have n: "n \<in> L" "n \<noteq> root_node" "is_leaf c n" "ref_count (node c n) = 0"
    using assms(2) evictable_leaf_iff [OF t] by blast+
  obtain p where p: "p \<in> L" "linked c P V p n" using tree_parent [OF t n(1,2)] .
  have "evict_one c n = cut_cache c p n" using p(2) by (simp add: evict_one_def linked_def)
  then show thesis using that [OF n p] cut_inv [OF assms(1) n(1-3) p n(4)] by simp
qed

section \<open>What a run does\<close>

definition kept :: "radix_cache \<Rightarrow> int list multiset \<Rightarrow> radix_cache \<Rightarrow> bool" where
  "kept c K c' \<longleftrightarrow>
     (\<forall>s v. stored c' s v \<longrightarrow> stored c s v) \<and>
     (\<forall>s v k. k \<in># K \<longrightarrow> prefix s k \<longrightarrow> stored c s v \<longrightarrow> stored c' s v) \<and>
     (\<forall>h k. k \<in># K \<longrightarrow> handle_at c h k \<longrightarrow> handle_at c' h k) \<and>
     (\<forall>h. handle_at c h [] \<longrightarrow> handle_at c' h [])"

lemma keptI:
  assumes "\<And>s v. stored c' s v \<Longrightarrow> stored c s v"
    and "\<And>s v k. k \<in># K \<Longrightarrow> prefix s k \<Longrightarrow> stored c s v \<Longrightarrow> stored c' s v"
    and "\<And>h k. k \<in># K \<or> k = [] \<Longrightarrow> handle_at c h k \<Longrightarrow> handle_at c' h k"
  shows "kept c K c'"
  using assms unfolding kept_def by blast

lemma kept_refl: "kept c K c"
  by (simp add: kept_def)

lemma kept_trans: "kept c K c1 \<Longrightarrow> kept c1 K c2 \<Longrightarrow> kept c K c2"
  unfolding kept_def by (elim conjE, intro conjI) (blast | simp)+

lemma evict_one_ok:
  assumes inv: "radix_inv c L P V K" and n: "evictable_leaf c n"
  shows "radix_ok (evict_one c n) K" "kept c K (evict_one c n)"
    "tree_slots c = tree_slots (evict_one c n) + mset (node_value (node c n))"
    "evictable_size (evict_one c n) = evictable_size c - int (node_length (node c n))"
    "protected_size (evict_one c n) = protected_size c"
    "length (node_value (node c n)) = node_length (node c n)" "0 < node_length (node c n)"
proof -
  note t = radix_invD(1) [OF inv] and r = radix_invD(2) [OF inv]
  obtain p where p: "n \<in> L" "n \<noteq> root_node" "is_leaf c n" "ref_count (node c n) = 0" "p \<in> L"
    "linked c P V p n" "evict_one c n = cut_cache c p n"
    "radix_inv (evict_one c n) (L - {n}) P V K"
    using evictable_leafE [OF assms] .
  note t' = radix_invD(1) [OF p(8)]
  show "radix_ok (evict_one c n) K" using p(8) unfolding radix_ok_def by blast
  show "tree_slots c = tree_slots (evict_one c n) + mset (node_value (node c n))"
    unfolding p(7) by (rule cut_slots [OF t p(1-3,5,6)])
  show "evictable_size (evict_one c n) = evictable_size c - int (node_length (node c n))"
    "protected_size (evict_one c n) = protected_size c" by (simp_all add: p(7) cut_fields)
  show "length (node_value (node c n)) = node_length (node c n)" "0 < node_length (node c n)"
    using p(6) by (auto simp: linked_def)
  have st: "stored (evict_one c n) s v \<longleftrightarrow>
      stored c s v \<and> \<not> (prefix s (P n) \<and> length (P p) < length s)" for s v
    unfolding p(7) by (rule cut_stored [OF t p(1-3,5,6)])
  show "kept c K (evict_one c n)"
  proof (rule keptI)
    show "stored c s v" if "stored (evict_one c n) s v" for s v using that st by blast
    show "stored (evict_one c n) s v" if k: "k \<in># K" "prefix s k" "stored c s v" for s v k
    proof -
      obtain m where m: "m \<in> L" "P m = k" using r k(1) unfolding ref_inv_def by blast
      have "\<not> (prefix s (P n) \<and> length (P p) < length s)"
      proof
        assume s: "prefix s (P n) \<and> length (P p) < length s"
        then have cov: "covers c P n s" using covers_linked [OF p(6)] by simp
        have "s \<noteq> []" using s by auto
        then obtain y where y: "y \<in> L" "y \<noteq> root_node" "covers c P y s" "prefix (P y) (P m)"
          using cover_exists [OF t m(1)] k(2) m(2) by blast
        then have "prefix (P n) k" using cover_unique [OF t y(1) p(1) y(2) p(2) y(3) cov] m(2) by simp
        then show False using ref_count_zero [OF r p(1,4) k(1)] by simp
      qed
      then show ?thesis using st k(3) by simp
    qed
    show "handle_at (evict_one c n) h k" if k: "k \<in># K \<or> k = []" "handle_at c h k" for h k
    proof -
      have h: "handle_node h \<in> L" "P (handle_node h) = k" "handle_len h = length k"
        using k(2) handle_at_iff [OF t] by blast+
      have "handle_node h \<noteq> n"
      proof
        assume "handle_node h = n"
        moreover have "k \<noteq> [] \<or> handle_node h = root_node" using tree_P_Nil [OF t h(1)] h(2) by simp
        ultimately show False using k(1) h(2) ref_count_zero [OF r p(1,4)] p(2) by auto
      qed
      then show ?thesis using h handle_at_iff [OF t'] by simp
    qed
  qed
qed

lemma lru_evict_ok:
  assumes "lru_evict need c vs c'" "radix_ok c K"
  shows "radix_ok c' K \<and> kept c K c' \<and> need \<le> int (length vs) \<and>
     tree_slots c = tree_slots c' + mset vs \<and>
     evictable_size c' = evictable_size c - int (length vs) \<and> protected_size c' = protected_size c"
  using assms
proof (induction rule: lru_evict.induct)
  case (lru_done need c)
  then show ?case by (simp add: kept_refl)
next
  case (lru_step need c n vs c')
  obtain L P V where inv: "radix_inv c L P V K" using lru_step.prems by (auto simp: radix_ok_def)
  note one = evict_one_ok [OF inv lru_step.hyps(2)]
  from lru_step.IH [OF one(1)] show ?case
    using one(2-6) kept_trans [OF one(2)] by auto
qed

section \<open>The code implements the specification\<close>

lemma evictable_leaf_exists:
  assumes inv: "radix_inv c L P V K" and "0 < evictable_size c"
  shows "\<exists>n. evictable_leaf c n"
proof -
  note t = radix_invD(1) [OF inv] and r = radix_invD(2) [OF inv]
  let ?U = "{n \<in> L. n \<noteq> root_node \<and> ref_count (node c n) = 0}"
  have "?U \<noteq> {}"
  proof
    assume "?U = {}"
    then have "(\<Sum>n\<in>L - {root_node}. evictable_part c n) = 0"
      by (intro sum.neutral) (auto simp: evictable_part_def)
    then show False using assms(2) radix_invD(3) [OF inv] by (simp add: size_inv_def)
  qed
  moreover have "finite ?U" using tree_invD(2) [OF t] by simp
  ultimately obtain n where n: "n \<in> ?U" "\<And>m. m \<in> ?U \<Longrightarrow> length (P m) \<le> length (P n)"
    using Max_in [of "(\<lambda>m. length (P m)) ` ?U"] Max_ge [of "(\<lambda>m. length (P m)) ` ?U"]
    by (smt (verit, best) empty_is_image finite_imageI imageE imageI)
  have nL: "n \<in> L" using n(1) by simp
  have "children (node c n) = []"
  proof (rule ccontr)
    assume "children (node c n) \<noteq> []"
    then obtain k m where "(k, m) \<in> set (children (node c n))" by (cases "children (node c n)") auto
    note ch = tree_child [OF t nL this]
    have pre: "prefix (P n) (P m)" "length (P n) < length (P m)"
      using ch(3) linked_len [OF ch(3)] by (auto simp: linked_def)
    have "ref_count (node c m) \<le> ref_count (node c n)"
      using ref_count_mono [OF r nL ch(1) pre(1) _ ch(2)] n(1) by simp
    then have "m \<in> ?U" using ch(1,2) n(1) ref_count_nonneg [OF r ch(1)] by simp
    then show False using n(2) [of m] pre(2) by simp
  qed
  then have "evictable_leaf c n" using n(1) evictable_leaf_iff [OF t] by (simp add: is_leaf_def)
  then show ?thesis by blast
qed

lemma evict_one_leaves:
  assumes inv: "radix_inv c L P V K" and n: "evictable_leaf c n"
    and p: "p \<in> L" "linked c P V p n"
  shows "{m. evictable_leaf (evict_one c n) m} =
     (if is_leaf (evict_one c n) p \<and> ref_count (node c p) = 0 \<and> p \<noteq> root_node
      then insert p ({m. evictable_leaf c m} - {n}) else {m. evictable_leaf c m} - {n})"
    and "\<not> evictable_leaf c p"
proof -
  note t = radix_invD(1) [OF inv]
  obtain p' where p': "n \<in> L" "n \<noteq> root_node" "p' \<in> L" "linked c P V p' n"
    "evict_one c n = cut_cache c p' n" "radix_inv (evict_one c n) (L - {n}) P V K"
    using evictable_leafE [OF inv n] by blast
  have "p' = p" using p'(4) p(2) linked_parent_unique by blast
  note t' = radix_invD(1) [OF p'(6)]
  have np: "n \<noteq> p" using linked_len [OF p(2)] by auto
  show nl: "\<not> evictable_leaf c p"
    using p(2) by (auto simp: evictable_leaf_def is_leaf_def linked_def)
  have "is_leaf (evict_one c n) m = is_leaf c m" if "m \<noteq> p" for m
    using that p'(5) \<open>p' = p\<close> by (simp add: is_leaf_def cut_fields)
  moreover have "ref_count (node (evict_one c n) m) = ref_count (node c m)" for m
    by (simp add: p'(5) cut_fields)
  ultimately have "evictable_leaf (evict_one c n) m \<longleftrightarrow>
      (m = p \<and> is_leaf (evict_one c n) p \<and> ref_count (node c p) = 0 \<and> p \<noteq> root_node) \<or>
      (m \<noteq> n \<and> evictable_leaf c m)" for m
    using nl p(1) np evictable_leaf_iff [OF t] evictable_leaf_iff [OF t'] by (cases "m = p") auto
  then show "{m. evictable_leaf (evict_one c n) m} =
     (if is_leaf (evict_one c n) p \<and> ref_count (node c p) = 0 \<and> p \<noteq> root_node
      then insert p ({m. evictable_leaf c m} - {n}) else {m. evictable_leaf c m} - {n})"
    by auto
qed

lemma finite_leaves: "tree_inv c L P V \<Longrightarrow> finite {m. evictable_leaf c m}"
  using evictable_leaf_iff tree_invD(2) by (metis (no_types, lifting) mem_Collect_eq rev_finite_subset subsetI)

lemma evict_loop_ok:
  assumes "radix_inv c L P V K" "mset heap = mset_set {n. evictable_leaf c n}" "card L < fuel"
    "need - ev \<le> evictable_size c"
  shows "\<exists>vs c'. evict_loop fuel need ev acc heap c = Inr (acc @ vs, c') \<and>
     lru_evict (need - ev) c vs c'"
  using assms
proof (induction fuel arbitrary: c L ev acc heap)
  case 0
  then show ?case by simp
next
  case (Suc fuel)
  note inv = Suc.prems(1)
  note t = radix_invD(1) [OF inv]
  note fin = finite_leaves [OF t]
  show ?case
  proof (cases "ev < need")
    case False
    then show ?thesis using lru_done [of "need - ev" c] by auto
  next
    case True
    then obtain x where "evictable_leaf c x"
      using evictable_leaf_exists [OF inv] Suc.prems(4) by auto
    then have ne: "{n. evictable_leaf c n} \<noteq> {}" by blast
    have hne: "heap \<noteq> []" using ne fin Suc.prems(2) by (auto simp: mset_set_empty_iff)
    let ?prio = "\<lambda>m. timestamp (node c m)"
    define n where "n = heap_top ?prio heap"
    note top = timestamp_heap.set_queue_top [OF Suc.prems(2) fin ne, where p = ?prio, folded n_def]
    have n: "evictable_leaf c n" using top(1) by simp
    obtain p where p: "n \<in> L" "n \<noteq> root_node" "is_leaf c n" "ref_count (node c n) = 0" "p \<in> L"
      "linked c P V p n" "evict_one c n = cut_cache c p n"
      "radix_inv (evict_one c n) (L - {n}) P V K"
      using evictable_leafE [OF inv n] .
    note one = evict_one_ok [OF inv n]
    let ?len = "int (node_length (node c n))" let ?c1 = "evict_one c n"
    let ?heap1 = "heap_pop ?prio heap"
    let ?heap2 = "if is_leaf ?c1 p \<and> ref_count (node ?c1 p) = 0 \<and> \<not> is_root ?c1 p
      then heap_push p ?heap1 else ?heap1"
    have key: "node_key (node c n) \<noteq> []" "node_parent (node c n) = Some p"
      using p(6) by (auto simp: linked_def)
    have "page_size c = Suc 0" using tree_invD(1) [OF t] by simp
    then have step: "evict_loop (Suc fuel) need ev acc heap c =
        evict_loop fuel need (ev + ?len) (acc @ node_value (node c n)) ?heap2 ?c1"
      using True hne p(3,4) key
      by (simp add: n_def [symmetric] Let_def p(7) cut_cache_def)
    have root: "is_root ?c1 p \<longleftrightarrow> p = root_node"
      using tree_root_iff [OF t p(5)] by (simp add: is_root_def p(7) cut_fields)
    have ref: "ref_count (node ?c1 p) = ref_count (node c p)" by (simp add: p(7) cut_fields)
    note lv = evict_one_leaves [OF inv n p(5,6)]
    have "mset ?heap2 = mset_set {m. evictable_leaf ?c1 m}"
      using timestamp_heap.set_queue_push [OF top(3), of p] top(3) fin lv
      unfolding root ref by auto
    moreover have "card (L - {n}) < fuel"
      using Suc.prems(3) p(1) tree_invD(2) [OF t] card_Diff1_less [of L n] by simp
    moreover have "need - (ev + ?len) \<le> evictable_size ?c1" using Suc.prems(4) one(4) by simp
    ultimately obtain vs c' where vs: "evict_loop fuel need (ev + ?len)
        (acc @ node_value (node c n)) ?heap2 ?c1 = Inr ((acc @ node_value (node c n)) @ vs, c')"
      "lru_evict (need - (ev + ?len)) ?c1 vs c'"
      using Suc.IH [OF p(8)] by blast
    have "lru_evict (need - ev) c (node_value (node c n) @ vs) c'"
    proof (rule lru_step)
      show "0 < need - ev" using True by simp
      show "evictable_leaf c n" by (rule n)
      show "timestamp (node c n) \<le> timestamp (node c m)" if "evictable_leaf c m" for m
        using top(2) [of m] that by simp
      show "lru_evict (need - ev - int (node_length (node c n))) (evict_one c n) vs c'"
        using vs(2) by (simp add: algebra_simps)
    qed
    then show ?thesis using vs(1) step by auto
  qed
qed

lemma evict_refines_lru:
  assumes "radix_ok c K" "0 \<le> need" "need \<le> evictable_size c"
  shows "\<exists>vs c'. evict need c = Inr (vs, c') \<and> lru_evict need c vs c'"
proof (cases "need = 0")
  case True
  then show ?thesis using lru_done by (auto simp: evict_def)
next
  case False
  obtain L P V where inv: "radix_inv c L P V K" using assms(1) by (auto simp: radix_ok_def)
  note t = radix_invD(1) [OF inv]
  obtain xs where xs: "collect_leave_nodes_for_evict c = Inr xs"
    "mset xs = mset_set {n. evictable_leaf c n}" using collect_ok [OF t] by blast
  have "L \<subseteq> {..<owned c}" using tree_invD(4) [OF t] by auto
  then have "card L < Suc (owned c)" using card_mono [of "{..<owned c}"] by (simp add: le_imp_less_Suc)
  then obtain vs c' where "evict_loop (Suc (owned c)) need 0 [] xs c = Inr ([] @ vs, c')"
    "lru_evict (need - 0) c vs c'"
    using evict_loop_ok [OF inv xs(2), of "Suc (owned c)" need 0 "[]"] assms(3) by auto
  then show ?thesis
    using False assms(3) xs(1) by (simp add: evict_def del: evict_loop.simps)
qed

lemma evict_ok:
  assumes "radix_ok c K" "0 \<le> need" "need \<le> evictable_size c"
  shows "\<exists>vs c'. evict need c = Inr (vs, c') \<and> radix_ok c' K \<and> kept c K c' \<and>
     need \<le> int (length vs) \<and> tree_slots c = tree_slots c' + mset vs \<and>
     evictable_size c' = evictable_size c - int (length vs) \<and> protected_size c' = protected_size c"
  using evict_refines_lru [OF assms] lru_evict_ok [OF _ assms(1)] by blast

lemma evict_too_much:
  "need \<noteq> 0 \<Longrightarrow> evictable_size c < need \<Longrightarrow> evict need c = Inl (TorchCheck ''Cannot evict'')"
  by (simp add: evict_def)

end
