(* ===== verification/RadixSlots.thy ===== *)
theory RadixSlots
  imports RadixLru
begin

text \<open>
  The slots of the tree, counted through what is stored: one slot for each stored prefix. So
  every operation that keeps the stored content keeps the slots, and insertion adds exactly
  the slots of the prefixes that were missing.
\<close>

lemma mset_sum_nth: "mset xs = (\<Sum>i<length xs. {#xs ! i#})"
proof (induction xs rule: rev_induct)
  case (snoc x xs)
  have "(\<Sum>i<length xs. {#(xs @ [x]) ! i#}) = (\<Sum>i<length xs. {#xs ! i#})"
    by (intro sum.cong) (auto simp: nth_append)
  with snoc show ?case by simp
qed simp

definition node_part :: "radix_cache \<Rightarrow> (nat \<Rightarrow> int list) \<Rightarrow> nat \<Rightarrow> (int list \<times> int) set" where
  "node_part c P n = {(s, v). stored c s v \<and> covers c P n s}"

lemma node_part_eq:
  assumes inv: "tree_inv c L P V" and n: "n \<in> L" "n \<noteq> root_node" and p: "p \<in> L" "linked c P V p n"
  shows "node_part c P n = (\<lambda>i. (take (Suc (length (P p) + i)) (P n), node_value (node c n) ! i)) `
    {..<length (node_value (node c n))}" (is "_ = ?f ` ?I")
proof (intro equalityI subsetI)
  have lk: "P n = P p @ node_key (node c n)" "V n = V p @ node_value (node c n)"
    "length (node_value (node c n)) = length (node_key (node c n))" "length (V p) = length (P p)"
    using p(2) tree_V_length [OF inv p(1)] by (auto simp: linked_def)
  {
    fix x
    assume "x \<in> node_part c P n"
    then obtain s v where x: "x = (s, v)" "stored c s v" "covers c P n s"
      by (auto simp: node_part_def)
    have s: "prefix s (P n)" "length (P p) < length s"
      using x(3) covers_linked [OF p(2)] by blast+
    have "s \<noteq> []" using s(2) by auto
    have "stored c s (V n ! (length s - 1))" using \<open>s \<noteq> []\<close> s n(1) unfolding stored_iff [OF inv] by blast
    then have v: "v = V n ! (length s - 1)" using stored_functional [OF inv x(2)] by blast
    have len: "length s \<le> length (P n)" using prefix_length_le [OF s(1)] .
    let ?i = "length s - Suc (length (P p))"
    have "s = take (Suc (length (P p) + ?i)) (P n)"
    proof -
      have "Suc (length (P p) + ?i) = length s" using s(2) by simp
      then show ?thesis using take_of_prefix [OF s(1)] by (simp only:)
    qed
    moreover have "v = node_value (node c n) ! ?i"
    proof -
      have "\<not> length s - 1 < length (V p)" "length s - 1 - length (V p) = ?i" using s(2) lk(4) by auto
      then show ?thesis using v lk(2) by (simp add: nth_append)
    qed
    moreover have "?i \<in> ?I" using s(2) len lk by auto
    ultimately show "x \<in> ?f ` ?I" unfolding x(1) by blast
  next
    fix x
    assume "x \<in> ?f ` ?I"
    then obtain i where i: "i < length (node_key (node c n))" "x = ?f i" using lk(3) by auto
    let ?s = "take (Suc (length (P p) + i)) (P n)"
    have len: "length ?s = Suc (length (P p) + i)" using i(1) lk(1) by simp
    then have ne: "?s \<noteq> []" by auto
    have pre: "prefix ?s (P n)" by (rule take_is_prefix)
    have "V n ! (length ?s - 1) = node_value (node c n) ! i"
      unfolding len using lk by (simp add: nth_append)
    then have "stored c ?s (node_value (node c n) ! i)"
      using ne pre n(1) unfolding stored_iff [OF inv] by metis
    moreover have "covers c P n ?s" using pre len covers_linked [OF p(2)] by simp
    ultimately show "x \<in> node_part c P n" unfolding i(2) node_part_def by simp
  }
qed

lemma node_part_sum:
  assumes inv: "tree_inv c L P V" and n: "n \<in> L" "n \<noteq> root_node"
  shows "(\<Sum>x\<in>node_part c P n. {#snd x#}) = mset (node_value (node c n))"
    "finite (node_part c P n)"
proof -
  obtain p where p: "p \<in> L" "linked c P V p n" using tree_parent [OF inv n] .
  have lk: "P n = P p @ node_key (node c n)" "length (node_value (node c n)) = length (node_key (node c n))"
    using p(2) by (auto simp: linked_def)
  let ?f = "\<lambda>i. (take (Suc (length (P p) + i)) (P n), node_value (node c n) ! i)"
  note eq = node_part_eq [OF inv n p]
  have "inj_on ?f {..<length (node_value (node c n))}"
  proof (rule inj_onI)
    fix i j
    assume "i \<in> {..<length (node_value (node c n))}" "j \<in> {..<length (node_value (node c n))}" "?f i = ?f j"
    then have "length (take (Suc (length (P p) + i)) (P n)) = length (take (Suc (length (P p) + j)) (P n))"
      "i < length (node_key (node c n))" "j < length (node_key (node c n))" using lk by auto
    then show "i = j" using lk by simp
  qed
  then show "(\<Sum>x\<in>node_part c P n. {#snd x#}) = mset (node_value (node c n))"
    unfolding eq by (simp add: sum.reindex mset_sum_nth)
  show "finite (node_part c P n)" unfolding eq by simp
qed

lemma stored_parts:
  assumes inv: "tree_inv c L P V"
  shows "{(s, v). stored c s v} = (\<Union>n\<in>L - {root_node}. node_part c P n)"
proof (intro equalityI subsetI)
  fix x
  assume "x \<in> {(s, v). stored c s v}"
  then obtain s v where x: "x = (s, v)" "stored c s v" by auto
  then obtain n where n: "n \<in> L" "prefix s (P n)" "s \<noteq> []" unfolding stored_iff [OF inv] by blast
  obtain m where "m \<in> L" "m \<noteq> root_node" "covers c P m s" using cover_exists [OF inv n(1,3,2)] by blast
  then show "x \<in> (\<Union>n\<in>L - {root_node}. node_part c P n)" using x by (auto simp: node_part_def)
qed (auto simp: node_part_def)

lemma tree_slots_stored:
  assumes "radix_ok c K"
  shows "tree_slots c = (\<Sum>x\<in>{(s, v). stored c s v}. {#snd x#})" "finite {(s, v). stored c s v}"
proof -
  obtain L P V where inv: "tree_inv c L P V" using assms by (auto simp: radix_ok_def radix_inv_def)
  note fin = tree_invD(2) [OF inv]
  have disj: "node_part c P n \<inter> node_part c P m = {}"
    if "n \<in> L - {root_node}" "m \<in> L - {root_node}" "n \<noteq> m" for n m
    using that cover_unique [OF inv] by (auto simp: node_part_def)
  have "(\<Sum>x\<in>{(s, v). stored c s v}. {#snd x#}) =
      (\<Sum>n\<in>L - {root_node}. \<Sum>x\<in>node_part c P n. {#snd x#})"
    unfolding stored_parts [OF inv]
    by (rule sum.UNION_disjoint) (use fin node_part_sum(2) [OF inv] disj in auto)
  also have "\<dots> = tree_slots c"
    unfolding tree_slots_eq [OF inv] by (rule sum.cong) (auto simp: node_part_sum(1) [OF inv])
  finally show "tree_slots c = (\<Sum>x\<in>{(s, v). stored c s v}. {#snd x#})" ..
  show "finite {(s, v). stored c s v}"
    unfolding stored_parts [OF inv] using fin node_part_sum(2) [OF inv] by auto
qed

lemma tree_slots_cong:
  assumes "radix_ok c K" "radix_ok c' K'" "\<forall>s v. stored c' s v \<longleftrightarrow> stored c s v"
  shows "tree_slots c' = tree_slots c"
  using assms(3) by (simp add: tree_slots_stored(1) [OF assms(1)] tree_slots_stored(1) [OF assms(2)])

lemma stored_in_slots:
  assumes "radix_ok c K" "stored c s v"
  shows "v \<in># tree_slots c"
proof -
  have "(s, v) \<in> {(s, v). stored c s v}" using assms(2) by simp
  then have "{#v#} \<subseteq># tree_slots c"
    unfolding tree_slots_stored(1) [OF assms(1)]
    using sum.remove [OF tree_slots_stored(2) [OF assms(1)], of "(s, v)" "\<lambda>x. {#snd x#}"] by simp
  then show ?thesis by simp
qed

text \<open>Two prefixes share a slot only when the slots of the tree repeat.\<close>

lemma insert_slots:
  assumes c: "radix_ok c K" and c': "radix_ok c' K'" and len: "plen \<le> length ids" "length ids \<le> length idx"
    and found: "\<forall>s. prefix s ids \<and> s \<noteq> [] \<longrightarrow> ((\<exists>v. stored c s v) \<longleftrightarrow> length s \<le> plen)"
    and st: "\<forall>s v. stored c' s v \<longleftrightarrow> stored c s v \<or>
        (s \<noteq> [] \<and> prefix s ids \<and> plen < length s \<and> v = idx ! (length s - 1))"
  shows "tree_slots c' = tree_slots c + mset (tslice plen (length ids) idx)"
proof -
  let ?f = "\<lambda>i. (take (Suc (plen + i)) ids, idx ! (plen + i))" let ?I = "{..<length ids - plen}"
  let ?S = "{(s, v). stored c s v}"
  have "{(s, v). s \<noteq> [] \<and> prefix s ids \<and> plen < length s \<and> v = idx ! (length s - 1)} = ?f ` ?I"
  proof (intro equalityI subsetI)
    fix x
    assume "x \<in> {(s, v). s \<noteq> [] \<and> prefix s ids \<and> plen < length s \<and> v = idx ! (length s - 1)}"
    then obtain s where s: "prefix s ids" "plen < length s" "x = (s, idx ! (length s - 1))" by auto
    have "x = ?f (length s - Suc plen)"
    proof -
      have "Suc (plen + (length s - Suc plen)) = length s" "plen + (length s - Suc plen) = length s - 1"
        using s(2) by simp_all
      then show ?thesis using s(3) take_of_prefix [OF s(1)] by (simp only:)
    qed
    moreover have "length s - Suc plen \<in> ?I" using s(2) prefix_length_le [OF s(1)] by auto
    ultimately show "x \<in> ?f ` ?I" by blast
  next
    fix x
    assume "x \<in> ?f ` ?I"
    then obtain i where i: "i < length ids - plen" "x = ?f i" by auto
    moreover have "length (take (Suc (plen + i)) ids) = Suc (plen + i)" using i(1) by simp
    moreover have "take (Suc (plen + i)) ids \<noteq> []" using i(1) by (auto simp: take_eq_Nil)
    ultimately show "x \<in> {(s, v). s \<noteq> [] \<and> prefix s ids \<and> plen < length s \<and> v = idx ! (length s - 1)}"
      by (auto simp: take_is_prefix)
  qed
  then have S': "{(s, v). stored c' s v} = ?S \<union> ?f ` ?I" using st by auto
  have disj: "?S \<inter> ?f ` ?I = {}"
  proof -
    have "\<not> stored c (take (Suc (plen + i)) ids) v" if "i < length ids - plen" for i v
    proof
      assume "stored c (take (Suc (plen + i)) ids) v"
      then have "length (take (Suc (plen + i)) ids) \<le> plen"
        using found that by (metis stored_def take_is_prefix)
      then show False using that by simp
    qed
    then show ?thesis by auto
  qed
  have inj: "inj_on ?f ?I"
  proof (rule inj_onI)
    fix i j
    assume ij: "i \<in> ?I" "j \<in> ?I" "?f i = ?f j"
    then have "length (take (Suc (plen + i)) ids) = length (take (Suc (plen + j)) ids)" by simp
    then show "i = j" using ij(1,2) by simp
  qed
  have "tree_slots c' = tree_slots c + (\<Sum>x\<in>?f ` ?I. {#snd x#})"
    unfolding tree_slots_stored(1) [OF c] tree_slots_stored(1) [OF c'] S'
    using sum.union_disjoint [OF tree_slots_stored(2) [OF c] _ disj, of "\<lambda>x. {#snd x#}"] by simp
  also have "(\<Sum>x\<in>?f ` ?I. {#snd x#}) = (\<Sum>i\<in>?I. {#idx ! (plen + i)#})"
    using inj by (simp add: sum.reindex)
  also have "\<dots> = mset (tslice plen (length ids) idx)"
    using len by (simp add: mset_sum_nth nth_tslice)
  finally show ?thesis .
qed

end
