(* ===== verification/RadixCount.thy ===== *)
theory RadixCount
  imports RadixSlots
begin

text \<open>
  The two counters of the cache, without reference to nodes: \<open>evictable_size\<close> is the number
  of stored prefixes that no locked handle extends, \<open>protected_size\<close> the number of those that
  some locked handle extends.
\<close>

definition free_prefixes :: "radix_cache \<Rightarrow> int list multiset \<Rightarrow> int list set" where
  "free_prefixes c K = {s. (\<exists>v. stored c s v) \<and> (\<forall>k\<in>#K. \<not> prefix s k)}"

definition held_prefixes :: "radix_cache \<Rightarrow> int list multiset \<Rightarrow> int list set" where
  "held_prefixes c K = {s. (\<exists>v. stored c s v) \<and> (\<exists>k\<in>#K. prefix s k)}"

definition key_part :: "radix_cache \<Rightarrow> (nat \<Rightarrow> int list) \<Rightarrow> nat \<Rightarrow> int list set" where
  "key_part c P n = {s. (\<exists>v. stored c s v) \<and> covers c P n s}"

lemma key_part_card:
  assumes inv: "tree_inv c L P V" and n: "n \<in> L" "n \<noteq> root_node"
  shows "card (key_part c P n) = node_length (node c n)" "finite (key_part c P n)"
proof -
  obtain p where p: "p \<in> L" "linked c P V p n" using tree_parent [OF inv n] .
  have lk: "P n = P p @ node_key (node c n)"
    "length (node_value (node c n)) = node_length (node c n)"
    "length (node_key (node c n)) = node_length (node c n)"
    using p(2) by (auto simp: linked_def)
  let ?I = "{..<node_length (node c n)}"
  have "key_part c P n = fst ` node_part c P n"
    unfolding key_part_def node_part_def by force
  also have "\<dots> = (\<lambda>i. take (Suc (length (P p) + i)) (P n)) ` ?I"
    unfolding node_part_eq [OF inv n p] lk(2) image_image by simp
  finally have eq: "key_part c P n = (\<lambda>i. take (Suc (length (P p) + i)) (P n)) ` ?I" .
  have "inj_on (\<lambda>i. take (Suc (length (P p) + i)) (P n)) ?I"
  proof (rule inj_onI)
    fix i j
    assume ij: "i \<in> ?I" "j \<in> ?I"
      "take (Suc (length (P p) + i)) (P n) = take (Suc (length (P p) + j)) (P n)"
    then have "length (take (Suc (length (P p) + i)) (P n)) = length (take (Suc (length (P p) + j)) (P n))"
      by simp
    then show "i = j" using ij(1,2) lk by simp
  qed
  then show "card (key_part c P n) = node_length (node c n)" "finite (key_part c P n)"
    unfolding eq by (simp_all add: card_image)
qed

lemma key_part_disjoint:
  assumes "tree_inv c L P V" "n \<in> L - {root_node}" "m \<in> L - {root_node}" "n \<noteq> m"
  shows "key_part c P n \<inter> key_part c P m = {}"
  using assms cover_unique [OF assms(1)] by (auto simp: key_part_def)

text \<open>A lock holds the prefixes of a node together.\<close>

lemma key_part_held:
  assumes inv: "radix_inv c L P V K" and n: "n \<in> L" "n \<noteq> root_node" and s: "s \<in> key_part c P n"
  shows "(\<exists>k\<in>#K. prefix s k) \<longleftrightarrow> ref_count (node c n) \<noteq> 0"
proof
  note t = radix_invD(1) [OF inv] and r = radix_invD(2) [OF inv]
  have cov: "covers c P n s" "s \<noteq> []" using s by (auto simp: key_part_def stored_def)
  {
    assume "\<exists>k\<in>#K. prefix s k"
    then obtain k where k: "k \<in># K" "prefix s k" by blast
    obtain m where m: "m \<in> L" "P m = k" using r k(1) unfolding ref_inv_def by blast
    obtain y where y: "y \<in> L" "y \<noteq> root_node" "covers c P y s" "prefix (P y) (P m)"
      using cover_exists [OF t m(1) cov(2)] k(2) m(2) by blast
    then have "prefix (P n) k" using cover_unique [OF t y(1) n(1) y(2) n(2) y(3) cov(1)] m(2) by simp
    then show "ref_count (node c n) \<noteq> 0" using ref_count_zero [OF r n(1) _ k(1)] by blast
  next
    assume "ref_count (node c n) \<noteq> 0"
    then have "filter_mset (prefix (P n)) K \<noteq> {#}" using r n by (auto simp: ref_inv_def)
    then obtain k where "k \<in># K" "prefix (P n) k" by (auto simp: multiset_nonemptyE filter_mset_eq_conv)
    moreover have "prefix s (P n)" using cov(1) by (simp add: covers_def)
    ultimately show "\<exists>k\<in>#K. prefix s k" using prefix_order.order_trans by blast
  }
qed

lemma stored_keys:
  assumes inv: "tree_inv c L P V"
  shows "{s. \<exists>v. stored c s v} = (\<Union>n\<in>L - {root_node}. key_part c P n)"
proof -
  have "{s. \<exists>v. stored c s v} = fst ` {(s, v). stored c s v}" by force
  also have "\<dots> = (\<Union>n\<in>L - {root_node}. fst ` node_part c P n)"
    unfolding stored_parts [OF inv] by blast
  also have "\<dots> = (\<Union>n\<in>L - {root_node}. key_part c P n)"
    unfolding key_part_def node_part_def by force
  finally show ?thesis .
qed

lemma counters:
  assumes "radix_ok c K"
  shows "evictable_size c = int (card (free_prefixes c K))"
    and "protected_size c = int (card (held_prefixes c K))"
    and "finite {s. \<exists>v. stored c s v}"
proof -
  obtain L P V where inv: "radix_inv c L P V K" using assms by (auto simp: radix_ok_def)
  note t = radix_invD(1) [OF inv]
  let ?L = "L - {root_node}"
  let ?F = "{n \<in> ?L. ref_count (node c n) = 0}" let ?H = "{n \<in> ?L. ref_count (node c n) \<noteq> 0}"
  have fin: "finite ?L" using tree_invD(2) [OF t] by simp
  show "finite {s. \<exists>v. stored c s v}"
    unfolding stored_keys [OF t] using fin key_part_card(2) [OF t] by auto
  have card: "int (card (\<Union>n\<in>A. key_part c P n)) = (\<Sum>n\<in>A. int (node_length (node c n)))"
    if "A \<subseteq> ?L" for A
  proof -
    have "card (\<Union>n\<in>A. key_part c P n) = (\<Sum>n\<in>A. card (key_part c P n))"
    proof (rule card_UN_disjoint)
      show "finite A" using that fin finite_subset by blast
      show "\<forall>n\<in>A. finite (key_part c P n)" using that key_part_card(2) [OF t] by blast
      show "\<forall>n\<in>A. \<forall>m\<in>A. n \<noteq> m \<longrightarrow> key_part c P n \<inter> key_part c P m = {}"
        using that key_part_disjoint [OF t] by (simp add: subset_iff)
    qed
    also have "\<dots> = (\<Sum>n\<in>A. node_length (node c n))"
      using that key_part_card(1) [OF t] by (intro sum.cong) auto
    finally show ?thesis by simp
  qed
  have "free_prefixes c K = {s \<in> {s. \<exists>v. stored c s v}. \<not> (\<exists>k\<in>#K. prefix s k)}"
    unfolding free_prefixes_def by blast
  also have "\<dots> = (\<Union>n\<in>?F. key_part c P n)"
    unfolding stored_keys [OF t] using key_part_held [OF inv] by blast
  finally have "int (card (free_prefixes c K)) = (\<Sum>n\<in>?F. int (node_length (node c n)))"
    using card [OF Collect_restrict] by simp
  also have "\<dots> = (\<Sum>n\<in>?L. evictable_part c n)"
    using fin by (intro sum.mono_neutral_cong_left) (auto simp: evictable_part_def)
  finally show "evictable_size c = int (card (free_prefixes c K))"
    using radix_invD(3) [OF inv] by (simp add: size_inv_def)
  have "held_prefixes c K = {s \<in> {s. \<exists>v. stored c s v}. \<exists>k\<in>#K. prefix s k}"
    unfolding held_prefixes_def by blast
  also have "\<dots> = (\<Union>n\<in>?H. key_part c P n)"
    unfolding stored_keys [OF t] using key_part_held [OF inv] by blast
  finally have "int (card (held_prefixes c K)) = (\<Sum>n\<in>?H. int (node_length (node c n)))"
    using card [OF Collect_restrict] by simp
  also have "\<dots> = (\<Sum>n\<in>?L. protected_part c n)"
    using fin by (intro sum.mono_neutral_cong_left) (auto simp: protected_part_def)
  finally show "protected_size c = int (card (held_prefixes c K))"
    using radix_invD(3) [OF inv] by (simp add: size_inv_def)
qed

end
