(* ===== verification/CacheInterface.thy ===== *)
theory CacheInterface
  imports RadixCount
begin

text \<open>
  The abstract class \<open>BasePrefixCache\<close> of \<^verbatim>\<open>include/sglang/kvcache/base.h\<close> as a locale: its
  operations, and the contract that the cache manager relies on. \<open>ok c K\<close> is the invariant of
  the cache while the strings \<open>K\<close> are locked, \<open>stored c s v\<close> its content, \<open>at c h ks\<close> what a
  handle stands for, and \<open>slots c\<close> the multiset of the slots it owns. \<open>RadixPrefixCache\<close> is
  shown to meet the contract at the end.
\<close>

locale base_prefix_cache =
  fixes ok :: "'c \<Rightarrow> int list multiset \<Rightarrow> bool"
    and stored :: "'c \<Rightarrow> int list \<Rightarrow> int \<Rightarrow> bool"
    and at :: "'c \<Rightarrow> 'h \<Rightarrow> int list \<Rightarrow> bool"
    and slots :: "'c \<Rightarrow> int multiset"
    and hlen :: "'h \<Rightarrow> nat"
    and evictable protected :: "'c \<Rightarrow> int"
    and match :: "int list \<Rightarrow> 'c \<Rightarrow> ('h \<times> 'c) result"
    and insert_op :: "int list \<Rightarrow> int list \<Rightarrow> 'c \<Rightarrow> (nat \<times> 'h \<times> 'c) result"
    and lock unlock :: "'h \<Rightarrow> 'c \<Rightarrow> 'c result"
    and evict_op :: "int \<Rightarrow> 'c \<Rightarrow> (int list \<times> 'c) result"
    and matched :: "'c \<Rightarrow> 'h \<Rightarrow> int list result"
  assumes stored_finite: "ok c K \<Longrightarrow> finite {s. \<exists>v. stored c s v}"
    and stored_Nil: "\<not> stored c [] v"
    and stored_fun: "ok c K \<Longrightarrow> stored c s v \<Longrightarrow> stored c s w \<Longrightarrow> v = w"
    and stored_closed: "ok c K \<Longrightarrow> stored c s v \<Longrightarrow> prefix s' s \<Longrightarrow> s' \<noteq> [] \<Longrightarrow> \<exists>w. stored c s' w"
    and locked_stored: "ok c K \<Longrightarrow> k \<in># K \<Longrightarrow> k \<noteq> [] \<Longrightarrow> \<exists>v. stored c k v"
    and evictable_law: "ok c K \<Longrightarrow>
      evictable c = int (card {s. (\<exists>v. stored c s v) \<and> (\<forall>k\<in>#K. \<not> prefix s k)})"
    and protected_law: "ok c K \<Longrightarrow>
      protected c = int (card {s. (\<exists>v. stored c s v) \<and> (\<exists>k\<in>#K. prefix s k)})"
    and slots_law: "ok c K \<Longrightarrow> slots c = (\<Sum>x\<in>{(s, v). stored c s v}. {#snd x#})"
    and at_len: "at c h ks \<Longrightarrow> hlen h = length ks"
    and at_stored: "ok c K \<Longrightarrow> at c h ks \<Longrightarrow> ks \<noteq> [] \<Longrightarrow> \<exists>v. stored c ks v"
    and match_law: "ok c K \<Longrightarrow> \<exists>h c'. match ids c = Inr (h, c') \<and> ok c' K \<and>
      at c' h (take (hlen h) ids) \<and> hlen h \<le> length ids \<and>
      (\<forall>s. prefix s ids \<and> s \<noteq> [] \<longrightarrow> ((\<exists>v. stored c s v) \<longleftrightarrow> length s \<le> hlen h)) \<and>
      (\<forall>s v. stored c' s v \<longleftrightarrow> stored c s v) \<and> (\<forall>h' ks. at c h' ks \<longrightarrow> at c' h' ks)"
    and insert_law: "ok c K \<Longrightarrow> length ids \<le> length idx \<Longrightarrow>
      \<exists>plen h c'. insert_op ids idx c = Inr (plen, h, c') \<and> ok c' K \<and>
      at c' h ids \<and> plen \<le> length ids \<and>
      (\<forall>s. prefix s ids \<and> s \<noteq> [] \<longrightarrow> ((\<exists>v. stored c s v) \<longleftrightarrow> length s \<le> plen)) \<and>
      (\<forall>s v. stored c' s v \<longleftrightarrow> stored c s v \<or>
         (s \<noteq> [] \<and> prefix s ids \<and> plen < length s \<and> v = idx ! (length s - 1))) \<and>
      slots c' = slots c + mset (tslice plen (length ids) idx) \<and>
      (\<forall>h' ks. at c h' ks \<longrightarrow> at c' h' ks)"
    and lock_law: "ok c K \<Longrightarrow> at c h ks \<Longrightarrow> \<exists>c'. lock h c = Inr c' \<and> ok c' (add_mset ks K) \<and>
      (\<forall>s v. stored c' s v \<longleftrightarrow> stored c s v) \<and> (\<forall>h' ks'. at c' h' ks' \<longleftrightarrow> at c h' ks') \<and>
      unlock h c' = Inr c"
    and unlock_law: "ok c K \<Longrightarrow> at c h ks \<Longrightarrow> ks \<in># K \<Longrightarrow>
      \<exists>c'. unlock h c = Inr c' \<and> ok c' (K - {#ks#}) \<and>
      (\<forall>s v. stored c' s v \<longleftrightarrow> stored c s v) \<and> (\<forall>h' ks'. at c' h' ks' \<longleftrightarrow> at c h' ks') \<and>
      lock h c' = Inr c"
    and evict_law: "ok c K \<Longrightarrow> 0 \<le> need \<Longrightarrow> need \<le> evictable c \<Longrightarrow>
      \<exists>vs c'. evict_op need c = Inr (vs, c') \<and> ok c' K \<and> need \<le> int (length vs) \<and>
      slots c = slots c' + mset vs \<and> (\<forall>s v. stored c' s v \<longrightarrow> stored c s v) \<and>
      (\<forall>s v k. k \<in># K \<longrightarrow> prefix s k \<longrightarrow> stored c s v \<longrightarrow> stored c' s v) \<and>
      (\<forall>h k. k \<in># K \<longrightarrow> at c h k \<longrightarrow> at c' h k) \<and> (\<forall>h. at c h [] \<longrightarrow> at c' h []) \<and>
      evictable c' = evictable c - int (length vs) \<and> protected c' = protected c"
    and matched_law: "ok c K \<Longrightarrow> at c h ks \<Longrightarrow> \<exists>vs. matched c h = Inr vs \<and>
      length vs = length ks \<and>
      (\<forall>s v. prefix s ks \<and> s \<noteq> [] \<longrightarrow> (stored c s v \<longleftrightarrow> v = vs ! (length s - 1)))"
begin

lemma stored_keys_cong:
  "\<forall>s v. stored c' s v \<longleftrightarrow> stored c s v \<Longrightarrow> ok c K \<Longrightarrow> ok c' K' \<Longrightarrow> slots c' = slots c"
  using slots_law [of c K] slots_law [of c' K'] by simp

lemma total_size_slots: "ok c K \<Longrightarrow> evictable c + protected c = int (card {s. \<exists>v. stored c s v})"
proof -
  assume c: "ok c K"
  have eq: "{s. \<exists>v. stored c s v} = {s. (\<exists>v. stored c s v) \<and> (\<forall>k\<in>#K. \<not> prefix s k)} \<union>
      {s. (\<exists>v. stored c s v) \<and> (\<exists>k\<in>#K. prefix s k)}" by blast
  have "card {s. \<exists>v. stored c s v} = card {s. (\<exists>v. stored c s v) \<and> (\<forall>k\<in>#K. \<not> prefix s k)} +
      card {s. (\<exists>v. stored c s v) \<and> (\<exists>k\<in>#K. prefix s k)}"
    using stored_finite [OF c] by (subst eq, intro card_Un_disjoint) (auto intro: finite_subset)
  then show ?thesis using evictable_law [OF c] protected_law [OF c] by simp
qed

lemma stored_prefixes:
  assumes "ok c K" "at c h ks" "prefix s ks" "s \<noteq> []"
  shows "\<exists>v. stored c s v"
proof -
  have "ks \<noteq> []" using assms(3,4) by auto
  then show ?thesis using at_stored [OF assms(1,2)] stored_closed [OF assms(1) _ assms(3,4)] by blast
qed

text \<open>
  Locking \<open>ks\<close> when \<open>old\<close>, a prefix of it, was locked before takes at most the difference of
  the lengths from what can be evicted.
\<close>

lemma card_prefixes_between:
  "finite {s. prefix s ks \<and> n < length s}" "card {s. prefix s ks \<and> n < length s} = length ks - n"
proof -
  have "{s. prefix s ks \<and> n < length s} = (\<lambda>i. take i ks) ` {n<..length ks}"
  proof (intro equalityI subsetI)
    fix s
    assume "s \<in> {s. prefix s ks \<and> n < length s}"
    then have "s = take (length s) ks" "length s \<in> {n<..length ks}"
      by (auto simp: take_of_prefix prefix_length_le)
    then show "s \<in> (\<lambda>i. take i ks) ` {n<..length ks}" by blast
  qed (auto simp: take_is_prefix)
  moreover have "inj_on (\<lambda>i. take i ks) {n<..length ks}"
  proof (rule inj_onI)
    fix i j
    assume "i \<in> {n<..length ks}" "j \<in> {n<..length ks}" "take i ks = take j ks"
    then have "length (take i ks) = length (take j ks)" "i \<le> length ks" "j \<le> length ks" by auto
    then show "i = j" by simp
  qed
  ultimately show "finite {s. prefix s ks \<and> n < length s}"
    "card {s. prefix s ks \<and> n < length s} = length ks - n" by (auto simp: card_image)
qed

lemma card_prefixes_le:
  "card {s. prefix s ks \<and> n < length s \<and> length s \<le> m} \<le> m - n"
  "finite {s. prefix s ks \<and> n < length s \<and> length s \<le> m}"
proof -
  have sub: "{s. prefix s ks \<and> n < length s \<and> length s \<le> m} \<subseteq>
      {s. prefix s (take m ks) \<and> n < length s}"
  proof
    fix s
    assume "s \<in> {s. prefix s ks \<and> n < length s \<and> length s \<le> m}"
    then have s: "prefix s ks" "n < length s" "length s \<le> m" by auto
    then have "s = take (length s) (take m ks)" by (simp add: take_of_prefix min_absorb1)
    then show "s \<in> {s. prefix s (take m ks) \<and> n < length s}" using s(2) by (metis mem_Collect_eq take_is_prefix)
  qed
  show "finite {s. prefix s ks \<and> n < length s \<and> length s \<le> m}"
    by (rule finite_subset [OF sub card_prefixes_between(1)])
  have "card {s. prefix s (take m ks) \<and> n < length s} \<le> m - n"
    by (simp add: card_prefixes_between(2))
  then show "card {s. prefix s ks \<and> n < length s \<and> length s \<le> m} \<le> m - n"
    using card_mono [OF card_prefixes_between(1) sub] by linarith
qed

lemma relock_evictable:
  assumes c: "ok c K" and c': "ok c' (add_mset ks (K - {#old#}))" and old: "old \<in># K" "prefix old ks"
    and sub: "\<And>s v. stored c s v \<Longrightarrow> \<exists>w. stored c' s w"
    and n: "\<And>s v. prefix s ks \<Longrightarrow> stored c s v \<Longrightarrow> length s \<le> n"
  shows "evictable c - int (n - length old) \<le> evictable c'"
proof -
  let ?E = "{s. (\<exists>v. stored c s v) \<and> (\<forall>k\<in>#K. \<not> prefix s k)}"
  let ?E' = "{s. (\<exists>v. stored c' s v) \<and> (\<forall>k\<in>#add_mset ks (K - {#old#}). \<not> prefix s k)}"
  let ?B = "{s. prefix s ks \<and> length old < length s \<and> length s \<le> n}"
  obtain K' where K: "K = add_mset old K'" using multi_member_split [OF old(1)] by auto
  have "?E \<subseteq> ?E' \<union> ?B"
  proof
    fix s
    assume s: "s \<in> ?E"
    show "s \<in> ?E' \<union> ?B"
    proof (cases "prefix s ks")
      case True
      have "\<not> prefix s old" using s old(1) by blast
      then have "length old < length s" using True old(2) by (meson not_less prefix_length_prefix)
      then show ?thesis using True s n by blast
    next
      case False
      then show ?thesis using s sub by (auto simp: K)
    qed
  qed
  moreover have "finite (?E' \<union> ?B)"
    using stored_finite [OF c'] card_prefixes_le(2) by (auto intro: finite_subset)
  ultimately have "card ?E \<le> card (?E' \<union> ?B)" by (rule card_mono [rotated])
  also have "\<dots> \<le> card ?E' + card ?B" by (rule card_Un_le)
  finally have "card ?E \<le> card ?E' + (n - length old)"
    using card_prefixes_le(1) [where m = n and n = "length old" and ks = ks] by linarith
  then show ?thesis using evictable_law [OF c] evictable_law [OF c'] by simp
qed

text \<open>Storing new prefixes that nobody locks makes all of them evictable.\<close>

lemma drop_evictable:
  assumes c: "ok c K" and c': "ok c' (K - {#old#})" and old: "old \<in># K"
    and sub: "\<And>s v. stored c s v \<Longrightarrow> \<exists>w. stored c' s w"
    and new: "\<And>s. prefix s ks \<Longrightarrow> n < length s \<Longrightarrow> (\<exists>v. stored c' s v) \<and> \<not> (\<exists>v. stored c s v)"
  shows "evictable c + int (length ks - n) \<le> evictable c'"
proof -
  let ?E = "{s. (\<exists>v. stored c s v) \<and> (\<forall>k\<in>#K. \<not> prefix s k)}"
  let ?E' = "{s. (\<exists>v. stored c' s v) \<and> (\<forall>k\<in>#K - {#old#}. \<not> prefix s k)}"
  let ?N = "{s. prefix s ks \<and> n < length s}"
  have "?E \<union> ?N \<subseteq> ?E'"
  proof
    fix s
    assume "s \<in> ?E \<union> ?N"
    then show "s \<in> ?E'"
    proof
      assume "s \<in> ?E"
      then show ?thesis using sub by (auto dest: in_diffD)
    next
      assume "s \<in> ?N"
      then have s: "prefix s ks" "n < length s" "s \<noteq> []" by auto
      have "\<not> prefix s k" if k: "k \<in># K" for k
      proof
        assume "prefix s k"
        moreover then have "k \<noteq> []" using s(3) by auto
        ultimately show False
          using locked_stored [OF c k] stored_closed [OF c _ _ s(3)] new [OF s(1,2)] by blast
      qed
      then show ?thesis using new [OF s(1,2)] by (auto dest: in_diffD)
    qed
  qed
  moreover have "finite ?E'" using stored_finite [OF c'] by (auto intro: finite_subset)
  ultimately have "card (?E \<union> ?N) \<le> card ?E'" by (rule card_mono [rotated])
  moreover have "card (?E \<union> ?N) = card ?E + card ?N"
  proof (rule card_Un_disjoint)
    show "finite ?E" using stored_finite [OF c] by (auto intro: finite_subset)
    show "finite ?N" by (rule card_prefixes_between(1))
    show "?E \<inter> ?N = {}" using new by blast
  qed
  ultimately show ?thesis
    using evictable_law [OF c] evictable_law [OF c'] card_prefixes_between(2) [of ks n] by simp
qed

text \<open>Locking a matched prefix, as admission does.\<close>

lemma match_lock:
  assumes c: "ok c K"
  shows "\<exists>h c1 c2. match ids c = Inr (h, c1) \<and> lock h c1 = Inr c2 \<and> unlock h c2 = Inr c1 \<and>
     ok c1 K \<and> ok c2 (add_mset (take (hlen h) ids) K) \<and> at c2 h (take (hlen h) ids) \<and>
     hlen h \<le> length ids \<and> slots c1 = slots c \<and> slots c2 = slots c \<and> evictable c1 = evictable c \<and>
     evictable c - int (hlen h) \<le> evictable c2 \<and>
     (\<forall>s v. stored c2 s v \<longleftrightarrow> stored c s v) \<and> (\<forall>h' ks. at c h' ks \<longrightarrow> at c2 h' ks \<and> at c1 h' ks)"
proof -
  obtain h c1 where m: "match ids c = Inr (h, c1)" "ok c1 K" "at c1 h (take (hlen h) ids)"
    "hlen h \<le> length ids" "\<forall>s v. stored c1 s v \<longleftrightarrow> stored c s v"
    "\<forall>h' ks. at c h' ks \<longrightarrow> at c1 h' ks" using match_law [OF c] by blast
  let ?ks = "take (hlen h) ids"
  obtain c2 where l: "lock h c1 = Inr c2" "ok c2 (add_mset ?ks K)"
    "\<forall>s v. stored c2 s v \<longleftrightarrow> stored c1 s v" "\<forall>h' ks'. at c2 h' ks' \<longleftrightarrow> at c1 h' ks'"
    "unlock h c2 = Inr c1" using lock_law [OF m(2,3)] by blast
  have e1: "evictable c1 = evictable c"
    using evictable_law [OF c] evictable_law [OF m(2)] m(5) by simp
  have "evictable c - int (hlen h) \<le> evictable c2"
  proof -
    let ?E = "{s. (\<exists>v. stored c s v) \<and> (\<forall>k\<in>#K. \<not> prefix s k)}"
    let ?E2 = "{s. (\<exists>v. stored c2 s v) \<and> (\<forall>k\<in>#add_mset ?ks K. \<not> prefix s k)}"
    let ?B = "{s. prefix s ?ks \<and> 0 < length s}"
    have "?E \<subseteq> ?E2 \<union> ?B" using m(5) l(3) stored_Nil by auto
    moreover have "finite ?B" by (rule card_prefixes_between(1))
    then have "finite (?E2 \<union> ?B)"
      using stored_finite [OF l(2)] by (auto intro: finite_subset simp del: length_greater_0_conv)
    ultimately have "card ?E \<le> card (?E2 \<union> ?B)" by (rule card_mono [rotated])
    also have "\<dots> \<le> card ?E2 + card ?B" by (rule card_Un_le)
    finally have "card ?E \<le> card ?E2 + hlen h"
      using card_prefixes_between(2) [of ?ks 0] m(4) by simp
    then show ?thesis using evictable_law [OF c] evictable_law [OF l(2)] by simp
  qed
  then show ?thesis
    using m l e1 stored_keys_cong [OF m(5) c m(2)] stored_keys_cong [OF l(3) m(2) l(2)]
    by (intro exI [of _ h] exI [of _ c1] exI [of _ c2]) simp
qed

text \<open>
  The exchange of \<open>cache_req\<close>: the computed prefix is inserted and the old lock is given back;
  a running request then locks the inserted prefix.
\<close>

lemma insert_unlock:
  assumes c: "ok c K" and old: "at c old ks" "ks \<in># K" "prefix ks ids"
    and idx: "length ids \<le> length idx"
  shows "\<exists>plen h c1 c2. insert_op ids idx c = Inr (plen, h, c1) \<and> unlock old c1 = Inr c2 \<and>
     ok c2 (K - {#ks#}) \<and> at c2 h ids \<and> hlen h = length ids \<and>
     length ks \<le> plen \<and> plen \<le> length ids \<and>
     slots c2 = slots c + mset (tslice plen (length ids) idx) \<and>
     evictable c + int (length ids - plen) \<le> evictable c2 \<and>
     (\<forall>h' k. at c h' k \<longrightarrow> at c2 h' k) \<and>
     (\<forall>s v. stored c s v \<longrightarrow> stored c2 s v) \<and>
     (\<forall>s v. prefix s ids \<longrightarrow> stored c s v \<longrightarrow> length s \<le> plen)"
proof -
  obtain plen h c1 where i: "insert_op ids idx c = Inr (plen, h, c1)" "ok c1 K" "at c1 h ids"
    "plen \<le> length ids"
    "\<forall>s. prefix s ids \<and> s \<noteq> [] \<longrightarrow> ((\<exists>v. stored c s v) \<longleftrightarrow> length s \<le> plen)"
    "\<forall>s v. stored c1 s v \<longleftrightarrow> stored c s v \<or>
       (s \<noteq> [] \<and> prefix s ids \<and> plen < length s \<and> v = idx ! (length s - 1))"
    "slots c1 = slots c + mset (tslice plen (length ids) idx)"
    "\<forall>h' ks. at c h' ks \<longrightarrow> at c1 h' ks" using insert_law [OF c idx] by blast
  have at1: "at c1 old ks" using i(8) old(1) by blast
  obtain c2 where u: "unlock old c1 = Inr c2" "ok c2 (K - {#ks#})"
    "\<forall>s v. stored c2 s v \<longleftrightarrow> stored c1 s v" "\<forall>h' ks'. at c2 h' ks' \<longleftrightarrow> at c1 h' ks'"
    using unlock_law [OF i(2) at1 old(2)] by blast
  have len: "length ks \<le> plen"
  proof (cases "ks = []")
    case False
    then show ?thesis using i(5) old(3) at_stored [OF c old(1)] by blast
  qed simp
  have found: "length s \<le> plen" if "prefix s ids" "stored c s v" for s v
    using i(5) that stored_Nil by blast
  have "evictable c + int (length ids - plen) \<le> evictable c2"
  proof (rule drop_evictable [OF c u(2) old(2)])
    show "\<exists>w. stored c2 s w" if "stored c s v" for s v using that i(6) u(3) by blast
    show "(\<exists>v. stored c2 s v) \<and> \<not> (\<exists>v. stored c s v)" if "prefix s ids" "plen < length s" for s
    proof
      have "s \<noteq> []" using that(2) by auto
      then show "\<exists>v. stored c2 s v" using that i(6) u(3) by blast
      show "\<not> (\<exists>v. stored c s v)" using found that by fastforce
    qed
  qed
  moreover have "slots c2 = slots c + mset (tslice plen (length ids) idx)"
    using stored_keys_cong [OF u(3) i(2) u(2)] i(7) by simp
  moreover have "at c2 h ids" "\<forall>h' k. at c h' k \<longrightarrow> at c2 h' k" using i(3,8) u(4) by blast+
  moreover have "\<forall>s v. stored c s v \<longrightarrow> stored c2 s v" using i(6) u(3) by blast
  ultimately show ?thesis
    using i(1,4) u(1,2) len found at_len [of c2 h ids]
    by (intro exI [of _ plen] exI [of _ h] exI [of _ c1] exI [of _ c2]) blast
qed

lemma insert_relock:
  assumes c: "ok c K" and old: "at c old ks" "ks \<in># K" "prefix ks ids"
    and idx: "length ids \<le> length idx"
  shows "\<exists>plen h c1 c2 c3. insert_op ids idx c = Inr (plen, h, c1) \<and> unlock old c1 = Inr c2 \<and>
     lock h c2 = Inr c3 \<and> ok c3 (add_mset ids (K - {#ks#})) \<and> at c3 h ids \<and> hlen h = length ids \<and>
     length ks \<le> plen \<and> plen \<le> length ids \<and>
     slots c3 = slots c + mset (tslice plen (length ids) idx) \<and>
     evictable c - int (plen - length ks) \<le> evictable c3 \<and>
     (\<forall>h' k. at c h' k \<longrightarrow> at c3 h' k)"
proof -
  obtain plen h c1 c2 where i: "insert_op ids idx c = Inr (plen, h, c1)" "unlock old c1 = Inr c2"
    "ok c2 (K - {#ks#})" "at c2 h ids" "hlen h = length ids" "length ks \<le> plen" "plen \<le> length ids"
    "slots c2 = slots c + mset (tslice plen (length ids) idx)"
    "\<forall>h' k. at c h' k \<longrightarrow> at c2 h' k" "\<forall>s v. stored c s v \<longrightarrow> stored c2 s v"
    "\<forall>s v. prefix s ids \<longrightarrow> stored c s v \<longrightarrow> length s \<le> plen"
    using insert_unlock [OF assms] by blast
  obtain c3 where l: "lock h c2 = Inr c3" "ok c3 (add_mset ids (K - {#ks#}))"
    "\<forall>s v. stored c3 s v \<longleftrightarrow> stored c2 s v" "\<forall>h' ks'. at c3 h' ks' \<longleftrightarrow> at c2 h' ks'"
    using lock_law [OF i(3,4)] by blast
  have "evictable c - int (plen - length ks) \<le> evictable c3"
    by (rule relock_evictable [OF c l(2) old(2,3)]) (use i(10,11) l(3) in blast)+
  moreover have "slots c3 = slots c + mset (tslice plen (length ids) idx)"
    using stored_keys_cong [OF l(3) i(3) l(2)] i(8) by simp
  moreover have "at c3 h ids" "\<forall>h' k. at c h' k \<longrightarrow> at c3 h' k" using i(4,9) l(4) by blast+
  ultimately show ?thesis
    using i(1,2,5-7) l(1,2)
    by (intro exI [of _ plen] exI [of _ h] exI [of _ c1] exI [of _ c2] exI [of _ c3]) blast
qed

end

section \<open>The radix cache meets the contract\<close>

lemma stored_closed_radix:
  assumes "radix_ok c K" "stored c s v" "prefix s' s" "s' \<noteq> []"
  shows "\<exists>w. stored c s' w"
proof -
  obtain L P V where inv: "tree_inv c L P V" using assms(1) by (auto simp: radix_ok_def radix_inv_def)
  obtain n where "n \<in> L" "prefix s (P n)" using assms(2) unfolding stored_iff [OF inv] by blast
  moreover then have "prefix s' (P n)" using assms(3) prefix_order.order_trans by blast
  ultimately show ?thesis using assms(4) unfolding stored_iff [OF inv] by blast
qed

lemma locked_stored_radix:
  assumes "radix_ok c K" "k \<in># K" "k \<noteq> []"
  shows "\<exists>v. stored c k v"
proof -
  obtain L P V where inv: "radix_inv c L P V K" using assms(1) by (auto simp: radix_ok_def)
  obtain n where "n \<in> L" "P n = k" using radix_invD(2) [OF inv] assms(2) unfolding ref_inv_def by blast
  then show ?thesis using assms(3) unfolding stored_iff [OF radix_invD(1) [OF inv]] by blast
qed

lemma at_stored_radix:
  assumes "radix_ok c K" "handle_at c h ks" "ks \<noteq> []"
  shows "\<exists>v. stored c ks v"
proof -
  obtain L P V where inv: "radix_inv c L P V K" using assms(1) by (auto simp: radix_ok_def)
  note t = radix_invD(1) [OF inv]
  have "handle_node h \<in> L" "P (handle_node h) = ks" using assms(2) handle_at_iff [OF t] by blast+
  then show ?thesis using assms(3) unfolding stored_iff [OF t] by blast
qed

lemma stored_functional_radix:
  assumes "radix_ok c K" "stored c s v" "stored c s w"
  shows "v = w"
  using assms stored_functional by (auto simp: radix_ok_def radix_inv_def)

interpretation radix: base_prefix_cache radix_ok stored handle_at tree_slots handle_len
  evictable_size protected_size match_prefix insert_prefix "\<lambda>h. lock_handle h False"
  "\<lambda>h. lock_handle h True" evict get_matched_indices
proof
  fix c K
  assume c: "radix_ok c K"
  show "finite {s. \<exists>v. stored c s v}" using counters(3) [OF c] .
  show "evictable_size c = int (card {s. (\<exists>v. stored c s v) \<and> (\<forall>k\<in>#K. \<not> prefix s k)})"
    using counters(1) [OF c] by (simp add: free_prefixes_def)
  show "protected_size c = int (card {s. (\<exists>v. stored c s v) \<and> (\<exists>k\<in>#K. prefix s k)})"
    using counters(2) [OF c] by (simp add: held_prefixes_def)
  show "tree_slots c = (\<Sum>x\<in>{(s, v). stored c s v}. {#snd x#})" using tree_slots_stored(1) [OF c] .
  show "\<exists>w. stored c s' w" if "stored c s v" "prefix s' s" "s' \<noteq> []" for s s' v
    using stored_closed_radix [OF c that] .
  show "\<exists>v. stored c k v" if "k \<in># K" "k \<noteq> []" for k using locked_stored_radix [OF c that] .
  show "\<exists>v. stored c ks v" if "handle_at c h ks" "ks \<noteq> []" for h ks using at_stored_radix [OF c that] .
  show "v = w" if "stored c s v" "stored c s w" for s v w using stored_functional_radix [OF c that] .
  show "\<exists>h c'. match_prefix ids c = Inr (h, c') \<and> radix_ok c' K \<and>
      handle_at c' h (take (handle_len h) ids) \<and> handle_len h \<le> length ids \<and>
      (\<forall>s. prefix s ids \<and> s \<noteq> [] \<longrightarrow> ((\<exists>v. stored c s v) \<longleftrightarrow> length s \<le> handle_len h)) \<and>
      (\<forall>s v. stored c' s v \<longleftrightarrow> stored c s v) \<and> (\<forall>h' ks. handle_at c h' ks \<longrightarrow> handle_at c' h' ks)"
    for ids using match_prefix_ok [OF c, of ids] by blast
  show "\<exists>plen h c'. insert_prefix ids idx c = Inr (plen, h, c') \<and> radix_ok c' K \<and>
      handle_at c' h ids \<and> plen \<le> length ids \<and>
      (\<forall>s. prefix s ids \<and> s \<noteq> [] \<longrightarrow> ((\<exists>v. stored c s v) \<longleftrightarrow> length s \<le> plen)) \<and>
      (\<forall>s v. stored c' s v \<longleftrightarrow> stored c s v \<or>
         (s \<noteq> [] \<and> prefix s ids \<and> plen < length s \<and> v = idx ! (length s - 1))) \<and>
      tree_slots c' = tree_slots c + mset (tslice plen (length ids) idx) \<and>
      (\<forall>h' ks. handle_at c h' ks \<longrightarrow> handle_at c' h' ks)"
    if len: "length ids \<le> length idx" for ids idx
  proof -
    obtain plen h c' where i: "insert_prefix ids idx c = Inr (plen, h, c')" "radix_ok c' K"
      "handle_at c' h ids" "plen \<le> length ids"
      "\<forall>s. prefix s ids \<and> s \<noteq> [] \<longrightarrow> ((\<exists>v. stored c s v) \<longleftrightarrow> length s \<le> plen)"
      "\<forall>s v. stored c' s v \<longleftrightarrow> stored c s v \<or>
         (s \<noteq> [] \<and> prefix s ids \<and> plen < length s \<and> v = idx ! (length s - 1))"
      "\<forall>h' ks. handle_at c h' ks \<longrightarrow> handle_at c' h' ks"
      using insert_prefix_ok [OF c len] by blast
    show ?thesis using i insert_slots [OF c i(2) i(4) len i(5,6)] by blast
  qed
  show "\<exists>c'. lock_handle h False c = Inr c' \<and> radix_ok c' (add_mset ks K) \<and>
      (\<forall>s v. stored c' s v \<longleftrightarrow> stored c s v) \<and>
      (\<forall>h' ks'. handle_at c' h' ks' \<longleftrightarrow> handle_at c h' ks') \<and> lock_handle h True c' = Inr c"
    if "handle_at c h ks" for h ks using lock_handle_ok [OF c that] by blast
  show "\<exists>c'. lock_handle h True c = Inr c' \<and> radix_ok c' (K - {#ks#}) \<and>
      (\<forall>s v. stored c' s v \<longleftrightarrow> stored c s v) \<and>
      (\<forall>h' ks'. handle_at c' h' ks' \<longleftrightarrow> handle_at c h' ks') \<and> lock_handle h False c' = Inr c"
    if "handle_at c h ks" "ks \<in># K" for h ks using unlock_handle_ok [OF c that] by blast
  show "\<exists>vs c'. evict need c = Inr (vs, c') \<and> radix_ok c' K \<and> need \<le> int (length vs) \<and>
      tree_slots c = tree_slots c' + mset vs \<and> (\<forall>s v. stored c' s v \<longrightarrow> stored c s v) \<and>
      (\<forall>s v k. k \<in># K \<longrightarrow> prefix s k \<longrightarrow> stored c s v \<longrightarrow> stored c' s v) \<and>
      (\<forall>h k. k \<in># K \<longrightarrow> handle_at c h k \<longrightarrow> handle_at c' h k) \<and>
      (\<forall>h. handle_at c h [] \<longrightarrow> handle_at c' h []) \<and>
      evictable_size c' = evictable_size c - int (length vs) \<and> protected_size c' = protected_size c"
    if "0 \<le> need" "need \<le> evictable_size c" for need
    using evict_ok [OF c that] unfolding kept_def by blast
  show "\<exists>vs. get_matched_indices c h = Inr vs \<and> length vs = length ks \<and>
      (\<forall>s v. prefix s ks \<and> s \<noteq> [] \<longrightarrow> (stored c s v \<longleftrightarrow> v = vs ! (length s - 1)))"
    if "handle_at c h ks" for h ks using get_matched_indices_ok [OF c that] .
qed (auto simp: stored_def handle_at_def)

end
