(* ===== verification/Core.thy ===== *)
theory Core
  imports PrefixCache Complex_Main
begin

text \<open>
  The core types of \<^verbatim>\<open>include/sglang/core\<close> and \<^verbatim>\<open>src/core\<close>: sampling parameters, requests
  with their runtime lengths, batches and the engine context.

  A request is shared by the managers and the scheduler through \<open>shared_ptr\<close>s, so batches and
  queues hold references into a store of requests (theory \<open>Scheduler\<close>); the operations here
  are on one request. \<open>int\<close> fields are integers: every length is bounded by the model's
  maximal sequence length, far below the 32-bit range. \<open>float\<close> values are rationals, which
  excludes infinities and NaN.
\<close>

section \<open>Sampling parameters\<close>

record sampling_params =
  sp_n :: int
  best_of :: int
  stop :: "string list"
  stop_token_ids :: "int list"
  ignore_eos :: bool
  max_new_tokens :: int
  min_new_tokens :: int
  temperature :: rat
  top_p :: rat
  top_k :: int
  min_p :: rat
  presence_penalty :: rat
  frequency_penalty :: rat
  repetition_penalty :: rat
  use_beam_search :: bool
  skip_special_tokens :: bool
  spaces_between_special_tokens :: bool

definition default_sampling_params :: sampling_params where
  "default_sampling_params =
     \<lparr>sp_n = 1, best_of = 1, stop = [], stop_token_ids = [], ignore_eos = False,
      max_new_tokens = 16, min_new_tokens = 0, temperature = 1, top_p = 1, top_k = -1,
      min_p = 0, presence_penalty = 0, frequency_penalty = 0, repetition_penalty = 1,
      use_beam_search = False, skip_special_tokens = True,
      spaces_between_special_tokens = True\<rparr>"

text \<open>The binary32 values of \<open>1e-6F\<close> and of \<open>1.0F - 1e-6F\<close>, each rounded to nearest.\<close>

definition kEpsilon :: rat where
  "kEpsilon = 8796093 / 2 ^ 43"

definition one_minus_kEpsilon :: rat where
  "one_minus_kEpsilon = 16777199 / 16777216"

definition is_greedy :: "sampling_params \<Rightarrow> bool" where
  "is_greedy p =
     (let greedy_temperature = (temperature p \<le> kEpsilon); greedy_topk = (top_k p = 1) in
      (greedy_temperature \<or> greedy_topk) \<and> top_p p \<ge> one_minus_kEpsilon)"

section \<open>Requests\<close>

record req =
  req_id :: nat
  input_ids :: "int list"
  table_idx :: int
  cached_len :: int
  output_len :: int
  dev_len :: int
  max_dev_len :: int
  is_chunked_prefill :: bool
  sampling_params :: sampling_params
  cache_handle :: "cache_handle option"

text \<open>The members of a request that has just been constructed.\<close>

definition default_req :: req where
  "default_req =
     \<lparr>req_id = 0, input_ids = [], table_idx = -1, cached_len = 0, output_len = 0,
      dev_len = -1, max_dev_len = -1, is_chunked_prefill = False,
      sampling_params = default_sampling_params, cache_handle = None\<rparr>"

definition device_len :: "req \<Rightarrow> int" where
  "device_len r = (if dev_len r \<ge> 0 then dev_len r else int (length (input_ids r)))"

definition max_device_len :: "req \<Rightarrow> int" where
  "max_device_len r = (if max_dev_len r \<ge> 0 then max_dev_len r else device_len r + output_len r)"

definition remain_len :: "req \<Rightarrow> int" where
  "remain_len r = max_device_len r - device_len r"

definition extend_len :: "req \<Rightarrow> int" where
  "extend_len r = device_len r - cached_len r"

definition can_decode :: "req \<Rightarrow> bool" where
  "can_decode r = (\<not> is_chunked_prefill r \<and> remain_len r > 0)"

definition validate_runtime_state :: "req \<Rightarrow> unit result" where
  "validate_runtime_state r =
     res_bind (check (dev_len r \<ge> 0) (TorchCheck ''Req::device_len must be initialized'')) (\<lambda>_.
     res_bind (check (max_dev_len r \<ge> dev_len r)
         (TorchCheck ''Req::max_device_len must be >= device_len'')) (\<lambda>_.
     res_bind (check (cached_len r \<ge> 0 \<and> cached_len r \<le> dev_len r)
         (TorchCheck ''Req::cached_len must be within [0, device_len]'')) (\<lambda>_.
     check (int (length (input_ids r)) \<le> dev_len r)
       (TorchCheck ''Req::input_ids length cannot exceed device_len''))))"

definition initialize_runtime_state :: "req \<Rightarrow> req result" where
  "initialize_runtime_state r =
     (let r1 = (if dev_len r < 0 then r\<lparr>dev_len := int (length (input_ids r))\<rparr> else r);
          r2 = (if max_dev_len r1 < 0 then r1\<lparr>max_dev_len := dev_len r1 + output_len r1\<rparr> else r1)
      in res_bind (validate_runtime_state r2) (\<lambda>_. Inr r2))"

definition complete_one :: "req \<Rightarrow> req result" where
  "complete_one r =
     res_bind (initialize_runtime_state r) (\<lambda>r1.
       (let r2 = r1\<lparr>cached_len := dev_len r1\<rparr> in
        Inr (if dev_len r2 < max_dev_len r2 then r2\<lparr>dev_len := dev_len r2 + 1\<rparr> else r2)))"

definition append_host :: "int list \<Rightarrow> req \<Rightarrow> req result" where
  "append_host next_token r =
     res_bind (if dev_len r < 0 then initialize_runtime_state r else Inr r) (\<lambda>r1.
     res_bind (check (int (length (input_ids r1)) + int (length next_token) \<le> dev_len r1)
         (TorchCheck ''Req::append_host cannot advance beyond device_len'')) (\<lambda>_.
     let r2 = r1\<lparr>input_ids := input_ids r1 @ next_token\<rparr> in
     res_bind (check (int (length (input_ids r2)) \<le> dev_len r2)
         (TorchCheck ''Req::append_host cannot advance beyond device_len'')) (\<lambda>_. Inr r2)))"

definition append_host_token :: "int \<Rightarrow> req \<Rightarrow> req result" where
  "append_host_token next_token r =
     res_bind (if dev_len r < 0 then initialize_runtime_state r else Inr r) (\<lambda>r1.
     res_bind (check (int (length (input_ids r1)) + 1 \<le> dev_len r1)
         (TorchCheck ''Req::append_host_token cannot advance beyond device_len'')) (\<lambda>_.
     let r2 = r1\<lparr>input_ids := input_ids r1 @ [next_token]\<rparr> in
     res_bind (check (int (length (input_ids r2)) \<le> dev_len r2)
         (TorchCheck ''Req::append_host_token cannot advance beyond device_len'')) (\<lambda>_. Inr r2)))"

section \<open>Batches and the context\<close>

datatype batch_phase = Prefill | Decode

text \<open>\<open>reqs\<close> and \<open>padded_reqs\<close> are references; the tensors are the lists of their elements.\<close>

record batch =
  reqs :: "nat list"
  phase :: batch_phase
  batch_input_ids :: "int list"
  positions :: "int list"
  out_loc :: "int list"
  padded_reqs :: "nat list"

definition is_prefill :: "batch \<Rightarrow> bool" where
  "is_prefill b = (phase b = Prefill)"

definition is_decode :: "batch \<Rightarrow> bool" where
  "is_decode b = (phase b = Decode)"

definition batch_size :: "batch \<Rightarrow> nat" where
  "batch_size b = length (reqs b)"

definition padded_size :: "batch \<Rightarrow> nat" where
  "padded_size b = length (padded_reqs b)"

text \<open>The context, with the backends and the pool it points to as a parameter \<open>'e\<close>.\<close>

record 'e ctx =
  ctx_page_size :: int
  backends :: 'e
  active_batch :: "batch option"

definition context_init :: "int \<Rightarrow> 'e \<Rightarrow> 'e ctx" where
  "context_init ps e = \<lparr>ctx_page_size = ps, backends = e, active_batch = None\<rparr>"

definition get_batch :: "'e ctx \<Rightarrow> batch option" where
  "get_batch c = (case active_batch c of None \<Rightarrow> None | Some b \<Rightarrow> Some b)"

definition set_batch :: "batch option \<Rightarrow> 'e ctx \<Rightarrow> 'e ctx result" where
  "set_batch new_batch c =
     (case active_batch c of
        Some _ \<Rightarrow> Inl (RuntimeError ''Nested forward_batch is not allowed / Batch already set'')
      | None \<Rightarrow> Inr (c\<lparr>active_batch := new_batch\<rparr>))"

definition clear_batch :: "'e ctx \<Rightarrow> 'e ctx" where
  "clear_batch c = c\<lparr>active_batch := None\<rparr>"

text \<open>The global context pointer and its three functions.\<close>

definition set_global_ctx :: "'e ctx option \<Rightarrow> 'e ctx option \<Rightarrow> 'e ctx option" where
  "set_global_ctx ctx g = ctx"

definition reset_global_ctx :: "'e ctx option \<Rightarrow> 'e ctx option" where
  "reset_global_ctx g = None"

definition get_global_ctx :: "'e ctx option \<Rightarrow> 'e ctx result" where
  "get_global_ctx g =
     (case g of None \<Rightarrow> Inl (RuntimeError ''Global context is not set'') | Some c \<Rightarrow> Inr c)"

text \<open>
  \<open>BatchGuard\<close> around a computation: the constructor sets the batch and fails when one is set,
  the destructor clears it whether or not the computation throws.
\<close>

definition with_batch ::
  "batch \<Rightarrow> ('e ctx \<Rightarrow> ('a result \<times> 'e ctx)) \<Rightarrow> 'e ctx \<Rightarrow> ('a result \<times> 'e ctx)" where
  "with_batch b body c =
     (case set_batch (Some b) c of
        Inl e \<Rightarrow> (Inl e, c)
      | Inr c1 \<Rightarrow> (let (r, c2) = body c1 in (r, clear_batch c2)))"

section \<open>Lemmas\<close>

text \<open>A request whose lengths are consistent, as \<open>validate_runtime_state\<close> demands.\<close>

definition req_ok :: "req \<Rightarrow> bool" where
  "req_ok r \<longleftrightarrow> 0 \<le> dev_len r \<and> dev_len r \<le> max_dev_len r \<and> 0 \<le> cached_len r \<and>
     cached_len r \<le> dev_len r \<and> int (length (input_ids r)) \<le> dev_len r"

lemma validate_iff: "validate_runtime_state r = Inr () \<longleftrightarrow> req_ok r"
  by (auto simp: validate_runtime_state_def req_ok_def res_simps)

lemma req_ok_lens:
  assumes "req_ok r"
  shows "device_len r = dev_len r" "max_device_len r = max_dev_len r"
    "remain_len r = max_dev_len r - dev_len r" "extend_len r = dev_len r - cached_len r"
  using assms by (simp_all add: req_ok_def device_len_def max_device_len_def remain_len_def extend_len_def)

lemma initialize_ok: "req_ok r \<Longrightarrow> initialize_runtime_state r = Inr r"
proof -
  assume r: "req_ok r"
  then have "validate_runtime_state r = Inr ()" by (simp add: validate_iff)
  then show ?thesis using r by (simp add: initialize_runtime_state_def req_ok_def Let_def)
qed

lemma complete_one_eq:
  assumes "req_ok r"
  shows "complete_one r = Inr (r\<lparr>cached_len := dev_len r,
     dev_len := (if dev_len r < max_dev_len r then dev_len r + 1 else dev_len r)\<rparr>)"
  using initialize_ok [OF assms] by (simp add: complete_one_def)

lemma complete_one_ok:
  assumes "req_ok r" "complete_one r = Inr r'"
  shows "req_ok r'" "cached_len r' = dev_len r" "dev_len r' = min (dev_len r + 1) (max_dev_len r)"
    "max_dev_len r' = max_dev_len r" "input_ids r' = input_ids r" "table_idx r' = table_idx r"
    "cache_handle r' = cache_handle r" "req_id r' = req_id r"
    "is_chunked_prefill r' = is_chunked_prefill r" "sampling_params r' = sampling_params r"
    "output_len r' = output_len r"
  using assms(1) assms(2) [unfolded complete_one_eq [OF assms(1)]]
  by (auto simp: req_ok_def)

lemma append_host_token_eq:
  assumes "req_ok r"
  shows "append_host_token t r =
     (if int (length (input_ids r)) < dev_len r then Inr (r\<lparr>input_ids := input_ids r @ [t]\<rparr>)
      else Inl (TorchCheck ''Req::append_host_token cannot advance beyond device_len''))"
  using assms by (auto simp: append_host_token_def req_ok_def)

lemma append_host_token_single: "append_host_token t r = append_host [t] r \<or>
    append_host_token t r = Inl (TorchCheck ''Req::append_host_token cannot advance beyond device_len'')"
  by (cases "if dev_len r < 0 then initialize_runtime_state r else Inr r")
    (auto simp: append_host_token_def append_host_def Let_def check_def)

end
