(* ===== verification/TokenPool.thy ===== *)
theory TokenPool
  imports Prelude
begin

text \<open>
  Two-dimensional \<open>int32\<close> tables (the page table and the token pool, both shared between the
  managers and the engine) and the two kernels of \<^verbatim>\<open>src/kernels/token_pool.cu\<close> that scatter
  into and gather from them. A table is the list of its rows.

  The scatter kernel runs one thread for each index; the model runs the threads in the order of
  the indices, and \<open>write_order\<close> shows that no order makes a difference when no cell is named
  twice. \<open>islice\<close>, \<open>select_row\<close> and \<open>copy_to\<close> are the LibTorch operations \<open>slice(0, a, b)\<close>,
  \<open>t[i]\<close> and \<open>copy_\<close> on lists, with their documented treatment of negative indices and sizes.
\<close>

type_synonym table = "int list list"

section \<open>Tensor operations\<close>

definition islice :: "int \<Rightarrow> int \<Rightarrow> 'a list \<Rightarrow> 'a list" where
  "islice a b t =
     (let n = int (length t);
          a1 = (if a < 0 then a + n else a);
          b1 = (if b < 0 then b + n else b);
          a2 = (if a1 < 0 then 0 else if a1 > n then n else a1);
          b2 = (if b1 < a2 then a2 else if b1 > n then n else b1)
      in tslice (nat a2) (nat b2) t)"

definition row_index :: "table \<Rightarrow> int \<Rightarrow> nat result" where
  "row_index t i =
     (let n = int (length t) in
      if i < - n \<or> i \<ge> n then Inl (IndexError ''index is out of bounds for dimension 0'')
      else Inr (nat (if i < 0 then i + n else i)))"

definition select_row :: "table \<Rightarrow> int \<Rightarrow> int list result" where
  "select_row t i = res_bind (row_index t i) (\<lambda>k. Inr (t ! k))"

text \<open>\<open>dst.copy_(src)\<close> for a destination of \<open>n\<close> elements.\<close>

definition copy_to :: "nat \<Rightarrow> 'a list \<Rightarrow> 'a list result" where
  "copy_to n src =
     (if length src = n then Inr src
      else if length src = 1 then Inr (replicate n (hd src))
      else Inl (RuntimeError ''The size of tensor a must match the size of tensor b''))"

text \<open>\<open>t[i].slice(0, a, b).copy_(src)\<close>, which writes through to the table.\<close>

definition write_row :: "table \<Rightarrow> int \<Rightarrow> int \<Rightarrow> int \<Rightarrow> int list \<Rightarrow> table result" where
  "write_row t i a b src =
     res_bind (row_index t i) (\<lambda>k.
     let row = t ! k; dst = islice a b row in
     res_bind (copy_to (length dst) src) (\<lambda>vals.
     let start = nat (if a < 0 then max 0 (a + int (length row)) else min a (int (length row))) in
     Inr (t[k := take start row @ vals @ drop (start + length vals) row])))"

section \<open>The kernels\<close>

definition write_cell :: "int \<times> int \<times> int \<Rightarrow> table \<Rightarrow> table" where
  "write_cell e t =
     (case e of (r, p, v) \<Rightarrow>
       if r < 0 \<or> r \<ge> int (length t) \<or> p < 0 \<or> p \<ge> int (length (t ! nat r)) then t
       else t[nat r := (t ! nat r)[nat p := v]])"

definition write_token_pool :: "int list \<Rightarrow> int list \<Rightarrow> int list \<Rightarrow> table \<Rightarrow> table result" where
  "write_token_pool req_indices positions tokens t =
     res_bind (check (length req_indices = length positions)
         (TorchCheck ''req_indices and positions must have the same length'')) (\<lambda>_.
     res_bind (check (length req_indices = length tokens)
         (TorchCheck ''req_indices and tokens must have the same length'')) (\<lambda>_.
     Inr (fold write_cell (zip req_indices (zip positions tokens)) t)))"

definition read_cell :: "table \<Rightarrow> int \<Rightarrow> int \<Rightarrow> int" where
  "read_cell t r p =
     (if r \<ge> 0 \<and> r < int (length t) \<and> p \<ge> 0 \<and> p < int (length (t ! nat r))
      then t ! nat r ! nat p else 0)"

definition gather_int32_2d :: "table \<Rightarrow> int list \<Rightarrow> int list \<Rightarrow> int list result" where
  "gather_int32_2d t req_indices positions =
     res_bind (check (length req_indices = length positions)
         (TorchCheck ''req_indices and positions must have the same length'')) (\<lambda>_.
     Inr (map2 (read_cell t) req_indices positions))"

section \<open>Lemmas\<close>

lemma islice_nonneg: "0 \<le> a \<Longrightarrow> 0 \<le> b \<Longrightarrow> islice a b t = tslice (nat a) (nat b) t"
proof -
  assume ab: "0 \<le> a" "0 \<le> b"
  consider "int (length t) < a" | "a \<le> int (length t)" "b < a"
    | "a \<le> int (length t)" "a \<le> b" "b \<le> int (length t)" | "a \<le> int (length t)" "int (length t) < b"
    by linarith
  then show ?thesis
    using ab by cases (auto simp: islice_def Let_def tslice_def)
qed

lemma length_islice_le: "length (islice a b t) \<le> length t"
  by (simp add: islice_def Let_def)

lemma row_index_ok: "0 \<le> i \<Longrightarrow> i < int (length t) \<Longrightarrow> row_index t i = Inr (nat i)"
  by (simp add: row_index_def Let_def)

lemma select_row_ok: "0 \<le> i \<Longrightarrow> i < int (length t) \<Longrightarrow> select_row t i = Inr (t ! nat i)"
  by (simp add: select_row_def row_index_ok)

lemma write_cell_shape:
  "length (write_cell e t) = length t" "length (write_cell e t ! i) = length (t ! i)"
  by (cases e; simp add: write_cell_def)
    (cases e; cases "i < length t"; auto simp: write_cell_def nth_list_update)

lemma fold_write_shape:
  "length (fold write_cell es t) = length t" "length (fold write_cell es t ! i) = length (t ! i)"
  by (induction es arbitrary: t) (simp_all add: write_cell_shape)

lemma read_write_cell:
  "read_cell (write_cell (r, p, v) t) r' p' =
     (if r = r' \<and> p = p' \<and> 0 \<le> r \<and> r < int (length t) \<and> 0 \<le> p \<and> p < int (length (t ! nat r))
      then v else read_cell t r' p')"
proof (cases "0 \<le> r \<and> r < int (length t) \<and> 0 \<le> p \<and> p < int (length (t ! nat r))")
  case True
  then have b: "nat r < length t" "nat p < length (t ! nat r)" by auto
  have "write_cell (r, p, v) t = t[nat r := (t ! nat r)[nat p := v]]"
    using True by (simp add: write_cell_def)
  moreover have "read_cell (t[nat r := (t ! nat r)[nat p := v]]) r' p' =
      (if r = r' \<and> p = p' then v else read_cell t r' p')"
    using True b by (cases "r' = r"; cases "p' = p") (auto simp: read_cell_def nth_list_update)
  ultimately show ?thesis using True by simp
qed (auto simp: write_cell_def)

text \<open>A cell that no entry names keeps its value; a cell that one entry names takes its value.\<close>

lemma read_fold_other:
  "(\<And>v. (r, p, v) \<notin> set es) \<Longrightarrow> read_cell (fold write_cell es t) r p = read_cell t r p"
proof (induction es arbitrary: t)
  case (Cons e es)
  obtain a b w where e: "e = (a, b, w)" by (cases e) auto
  have "\<not> (a = r \<and> b = p)" using Cons.prems [of w] e by auto
  then have "read_cell (write_cell e t) r p = read_cell t r p" unfolding e read_write_cell by auto
  moreover have "\<And>v. (r, p, v) \<notin> set es" using Cons.prems by simp
  ultimately show ?case using Cons.IH [of "write_cell e t"] by simp
qed simp

lemma read_fold_in:
  assumes "(r, p, v) \<in> set es" "distinct (map (\<lambda>(r, p, v). (r, p)) es)"
    and "0 \<le> r" "r < int (length t)" "0 \<le> p" "p < int (length (t ! nat r))"
  shows "read_cell (fold write_cell es t) r p = v"
  using assms
proof (induction es arbitrary: t)
  case (Cons e es)
  show ?case
  proof (cases "e = (r, p, v)")
    case True
    have "(r, p, w) \<notin> set es" for w
      using Cons.prems(2) True by (force simp: image_iff)
    then have "read_cell (fold write_cell es (write_cell e t)) r p = read_cell (write_cell e t) r p"
      by (rule read_fold_other)
    then show ?thesis using True Cons.prems(3-) by (simp add: read_write_cell)
  next
    case False
    then have "(r, p, v) \<in> set es" "distinct (map (\<lambda>(r, p, v). (r, p)) es)" using Cons.prems by auto
    then have "read_cell (fold write_cell es (write_cell e t)) r p = v"
      by (rule Cons.IH) (use Cons.prems write_cell_shape in auto)
    then show ?thesis by simp
  qed
qed simp

lemma table_eqI:
  assumes "length t = length t'" "\<And>i. i < length t \<Longrightarrow> length (t ! i) = length (t' ! i)"
    and "\<And>r p. read_cell t r p = read_cell t' r p"
  shows "t = t'"
proof (rule nth_equalityI)
  show "t ! i = t' ! i" if "i < length t" for i
  proof (rule nth_equalityI)
    show "t ! i ! j = t' ! i ! j" if "j < length (t ! i)" for j
      using assms(3) [of "int i" "int j"] that \<open>i < length t\<close> assms(1,2) by (simp add: read_cell_def)
  qed (use that assms(2) in simp)
qed (rule assms(1))

lemma write_order:
  assumes "distinct (map (\<lambda>(r, p, v). (r, p)) es)" "mset es = mset es'"
  shows "fold write_cell es t = fold write_cell es' t"
proof (rule table_eqI)
  have d': "distinct (map (\<lambda>(r, p, v). (r, p)) es')"
    using assms by (metis mset_eq_imp_distinct_iff mset_map)
  have s: "set es' = set es" using assms(2) by (metis mset_eq_setD)
  show "read_cell (fold write_cell es t) r p = read_cell (fold write_cell es' t) r p" for r p
  proof (cases "\<exists>v. (r, p, v) \<in> set es")
    case False
    then show ?thesis using s by (simp add: read_fold_other)
  next
    case True
    then obtain v where v: "(r, p, v) \<in> set es" by blast
    show ?thesis
    proof (cases "0 \<le> r \<and> r < int (length t) \<and> 0 \<le> p \<and> p < int (length (t ! nat r))")
      case True
      then show ?thesis using read_fold_in [OF v assms(1)] read_fold_in [of r p v es' t] v s d' by auto
    next
      case False
      then show ?thesis by (auto simp: read_cell_def fold_write_shape)
    qed
  qed
qed (simp_all add: fold_write_shape)

lemma gather_ok:
  "length rs = length ps \<Longrightarrow> gather_int32_2d t rs ps = Inr (map2 (read_cell t) rs ps)"
  by (simp add: gather_int32_2d_def)

lemma nth_write_row:
  assumes "0 \<le> i" "i < int (length t)" "0 \<le> a" "a \<le> b" "nat b \<le> length (t ! nat i)"
    and "length src = nat b - nat a"
  shows "write_row t i a b src =
     Inr (t[nat i := take (nat a) (t ! nat i) @ src @ drop (nat b) (t ! nat i)])"
proof -
  have "length (islice a b (t ! nat i)) = nat b - nat a"
    using assms by (simp add: islice_nonneg)
  moreover have "min a (int (length (t ! nat i))) = a" using assms by linarith
  moreover have "nat a + length src = nat b" using assms by linarith
  ultimately show ?thesis
    using assms by (simp add: write_row_def row_index_ok Let_def copy_to_def)
qed

end
