(* ===== verification/CacheManager.thy ===== *)
theory CacheManager
  imports CacheInterface Core TokenPool
begin

text \<open>
  \<open>TableManager\<close> and \<open>CacheManager\<close> of \<^verbatim>\<open>src/scheduler/prefill.cc\<close>: the free rows of the
  request table, the pool of free pages, allocation with eviction, and the hand-over of the
  pages of a request to the prefix cache.

  The page table is one tensor that the engine, the table manager and the cache manager share;
  the model keeps it in the record of the cache manager. A thrown exception ends the operation
  with \<open>Inl\<close>; the state at that moment is not modelled.
\<close>

section \<open>The request table\<close>

record table_manager =
  tm_free_slots :: "int list"
  token_pool :: table

definition table_manager_init :: "int \<Rightarrow> table \<Rightarrow> table_manager" where
  "table_manager_init max_running_reqs page_table =
     \<lparr>tm_free_slots = [0..max_running_reqs - 1],
      token_pool = map (\<lambda>row. map (\<lambda>_. 0) row) page_table\<rparr>"

definition tm_available_size :: "table_manager \<Rightarrow> int" where
  "tm_available_size tm = int (length (tm_free_slots tm))"

definition tm_allocate :: "table_manager \<Rightarrow> (int \<times> table_manager) result" where
  "tm_allocate tm =
     res_bind (check (tm_free_slots tm \<noteq> []) (TorchCheck ''TableManager has no free slots''))
       (\<lambda>_. Inr (last (tm_free_slots tm), tm\<lparr>tm_free_slots := butlast (tm_free_slots tm)\<rparr>))"

definition tm_free :: "int \<Rightarrow> table_manager \<Rightarrow> table_manager" where
  "tm_free slot tm = tm\<lparr>tm_free_slots := tm_free_slots tm @ [slot]\<rparr>"

section \<open>The page pool\<close>

record pending_req =
  p_uid :: nat
  p_input_ids :: "int list"
  p_sampling_params :: sampling_params
  p_chunked_req :: "nat option"

definition input_len :: "pending_req \<Rightarrow> int" where
  "input_len p = int (length (p_input_ids p))"

definition p_output_len :: "pending_req \<Rightarrow> int" where
  "p_output_len p = max_new_tokens (p_sampling_params p)"

text \<open>
  \<open>page_write_len\<close> is the number of elements of the three workspace tensors of
  \<open>write_page_table\<close>.
\<close>

record cache_manager =
  num_pages :: int
  cm_page_size :: nat
  page_table :: table
  prefix_cache :: radix_cache
  free_slots :: "int list"
  lazy_free_active :: bool
  lazy_free_list :: "int list list"
  page_write_len :: nat

definition cache_manager_init ::
  "int \<Rightarrow> nat \<Rightarrow> table \<Rightarrow> string \<Rightarrow> nat \<Rightarrow> (nat \<Rightarrow> int) \<Rightarrow> nat \<Rightarrow> cache_manager result" where
  "cache_manager_init pages ps pt cache_type cnt clk reads =
     res_bind (check (cache_type = ''radix'') (TorchCheck ''Only radix cache_type is supported''))
       (\<lambda>_. Inr \<lparr>num_pages = pages, cm_page_size = ps, page_table = pt,
          prefix_cache = radix_cache_init ps cnt clk reads,
          free_slots = map (\<lambda>i. i * int ps) [0..pages - 1],
          lazy_free_active = False, lazy_free_list = [], page_write_len = 0\<rparr>)"

definition match_req :: "pending_req \<Rightarrow> cache_manager \<Rightarrow> (cache_handle \<times> cache_manager) result" where
  "match_req p cm =
     res_bind (check (input_len p > 0) (TorchCheck ''Input length must be greater than 0'')) (\<lambda>_.
     res_bind (match_prefix (islice 0 (input_len p - 1) (p_input_ids p)) (prefix_cache cm))
       (\<lambda>(h, pc). Inr (h, cm\<lparr>prefix_cache := pc\<rparr>)))"

definition available_size :: "cache_manager \<Rightarrow> int" where
  "available_size cm =
     si_evictable (get_size_info (prefix_cache cm)) + int (length (free_slots cm)) * int (cm_page_size cm)"

definition cm_lock :: "cache_handle \<Rightarrow> cache_manager \<Rightarrow> cache_manager result" where
  "cm_lock h cm =
     res_bind (lock_handle h False (prefix_cache cm)) (\<lambda>pc. Inr (cm\<lparr>prefix_cache := pc\<rparr>))"

definition cm_unlock :: "cache_handle \<Rightarrow> cache_manager \<Rightarrow> cache_manager result" where
  "cm_unlock h cm =
     res_bind (lock_handle h True (prefix_cache cm)) (\<lambda>pc. Inr (cm\<lparr>prefix_cache := pc\<rparr>))"

text \<open>The elements at \<open>0, n, 2n, \<dots>\<close> of a list, for a page size \<open>n > 0\<close>.\<close>

function take_every :: "nat \<Rightarrow> 'a list \<Rightarrow> 'a list" where
  "take_every n [] = []"
| "take_every n (x # xs) = x # take_every n (drop (n - 1) xs)"
  by pat_completeness auto
termination
  by (relation "measure (\<lambda>(n, xs). length xs)") auto

definition free_indices :: "int list \<Rightarrow> cache_manager \<Rightarrow> cache_manager" where
  "free_indices indices cm =
     (if indices = [] then cm
      else if lazy_free_active cm then cm\<lparr>lazy_free_list := lazy_free_list cm @ [indices]\<rparr>
      else cm\<lparr>free_slots := free_slots cm @ take_every (cm_page_size cm) indices\<rparr>)"

definition flush_lazy_free :: "cache_manager \<Rightarrow> cache_manager" where
  "flush_lazy_free cm = (fold free_indices (lazy_free_list cm) cm)\<lparr>lazy_free_list := []\<rparr>"

text \<open>The constructor and the destructor of \<open>LazyFreeRegion\<close>.\<close>

definition lazy_free_enter :: "cache_manager \<Rightarrow> cache_manager result" where
  "lazy_free_enter cm =
     res_bind (check (\<not> lazy_free_active cm) (TorchCheck ''Nested lazy free regions are not allowed''))
       (\<lambda>_. Inr (cm\<lparr>lazy_free_active := True\<rparr>))"

definition lazy_free_leave :: "cache_manager \<Rightarrow> cache_manager" where
  "lazy_free_leave cm = flush_lazy_free (cm\<lparr>lazy_free_active := False\<rparr>)"

definition allocate_pages :: "int \<Rightarrow> cache_manager \<Rightarrow> (int list \<times> cache_manager) result" where
  "allocate_pages needed cm =
     (if needed \<le> 0 then Inr ([], cm)
      else
        res_bind
          (if needed > int (length (free_slots cm)) then
             res_bind (evict ((needed - int (length (free_slots cm))) * int (cm_page_size cm))
                 (prefix_cache cm))
               (\<lambda>(evicted, pc). Inr (free_indices evicted (cm\<lparr>prefix_cache := pc\<rparr>)))
           else Inr cm) (\<lambda>cm1.
        res_bind (check (needed \<le> int (length (free_slots cm1)))
            (TorchCheck ''CacheManager failed to allocate enough pages'')) (\<lambda>_.
        Inr (take (nat needed) (free_slots cm1),
             cm1\<lparr>free_slots := drop (nat needed) (free_slots cm1)\<rparr>))))"

definition pages_to_tokens :: "nat \<Rightarrow> int list \<Rightarrow> int list" where
  "pages_to_tokens ps pages =
     (if pages = [] then []
      else if ps = 1 then pages
      else concat (map (\<lambda>page. map (\<lambda>i. page + int i) [0..<ps]) pages))"

text \<open>The smallest power of two that is not below \<open>needed\<close>, by doubling.\<close>

function double_until :: "nat \<Rightarrow> nat \<Rightarrow> nat" where
  "double_until needed next_len =
     (if 0 < next_len \<and> next_len < needed then double_until needed (2 * next_len) else next_len)"
  by pat_completeness auto
termination
  by (relation "measure (\<lambda>(needed, next_len). needed - next_len)") auto

declare double_until.simps [simp del]

definition ensure_page_write_workspace :: "nat \<Rightarrow> cache_manager \<Rightarrow> cache_manager" where
  "ensure_page_write_workspace needed cm =
     (if page_write_len cm \<ge> needed then cm else cm\<lparr>page_write_len := double_until needed 1\<rparr>)"

text \<open>The entries the host loop writes, and the pages it has not used.\<close>

fun page_entries ::
  "nat \<Rightarrow> int \<Rightarrow> int list \<Rightarrow> int list \<Rightarrow> ((int \<times> int \<times> int) list \<times> int list) result" where
  "page_entries ps ti [] alloc = Inr ([], alloc)"
| "page_entries ps ti (page # pgs) alloc =
     (case alloc of
        [] \<Rightarrow> Inl (TorchCheck ''Allocated page count mismatch'')
      | page_start # rest \<Rightarrow>
          res_bind (page_entries ps ti pgs rest) (\<lambda>(es, left).
            Inr (map (\<lambda>i. (ti, page * int ps + int i, page_start + int i)) [0..<ps] @ es, left)))"

fun allocation_entries ::
  "nat \<Rightarrow> (int \<times> int \<times> int) list \<Rightarrow> int list \<Rightarrow> ((int \<times> int \<times> int) list \<times> int list) result" where
  "allocation_entries ps [] alloc = Inr ([], alloc)"
| "allocation_entries ps ((ti, first_page, last_page) # infos) alloc =
     res_bind (page_entries ps ti [first_page..last_page - 1] alloc) (\<lambda>(es, rest).
     res_bind (allocation_entries ps infos rest) (\<lambda>(es', left). Inr (es @ es', left)))"

definition write_page_table ::
  "int list \<Rightarrow> (int \<times> int \<times> int) list \<Rightarrow> cache_manager \<Rightarrow> cache_manager result" where
  "write_page_table allocated info cm =
     (if allocated = [] then Inr cm
      else
        (let needed_tokens = length allocated * cm_page_size cm;
             cm1 = ensure_page_write_workspace needed_tokens cm in
         res_bind (allocation_entries (cm_page_size cm) info allocated) (\<lambda>(es, left).
         res_bind (check (length es = needed_tokens) (TorchCheck ''Allocated token count mismatch''))
           (\<lambda>_.
         res_bind (check (left = []) (TorchCheck ''Allocated page count mismatch'')) (\<lambda>_.
         res_bind (write_token_pool (map fst es) (map (fst \<circ> snd) es) (map (snd \<circ> snd) es)
                     (page_table cm1))
           (\<lambda>pt. Inr (cm1\<lparr>page_table := pt\<rparr>)))))))"

definition allocation_info :: "nat \<Rightarrow> req list \<Rightarrow> (int \<times> int \<times> int) list" where
  "allocation_info ps rs =
     concat (map (\<lambda>r.
       let first_page = div_ceil (cached_len r) (int ps); last_page = div_ceil (device_len r) (int ps) in
       if last_page > first_page then [(table_idx r, first_page, last_page)] else []) rs)"

definition allocate_paged :: "req list \<Rightarrow> cache_manager \<Rightarrow> cache_manager result" where
  "allocate_paged rs cm =
     (let info = allocation_info (cm_page_size cm) rs;
          needed_pages = sum_list (map (\<lambda>(_, first_page, last_page). last_page - first_page) info) in
      if needed_pages = 0 then Inr cm
      else
        res_bind (allocate_pages needed_pages cm) (\<lambda>(allocated, cm1).
        write_page_table allocated info cm1))"

definition cache_req :: "req \<Rightarrow> bool \<Rightarrow> cache_manager \<Rightarrow> (req \<times> cache_manager) result" where
  "cache_req r finished cm =
     (let insert_ids = islice 0 (cached_len r) (input_ids r) in
      res_bind (select_row (page_table cm) (table_idx r)) (\<lambda>row.
      let page_indices = islice 0 (cached_len r) row; old_handle = cache_handle r in
      res_bind (insert_prefix insert_ids page_indices (prefix_cache cm)) (\<lambda>(plen, h, pc).
      let cm1 = cm\<lparr>prefix_cache := pc\<rparr> in
      res_bind
        (case old_handle of
           None \<Rightarrow> Inr cm1
         | Some old \<Rightarrow>
             res_bind (cm_unlock old cm1) (\<lambda>cm2.
             Inr (if plen > handle_len old
                  then free_indices (islice (int (handle_len old)) (int plen) page_indices) cm2
                  else cm2))) (\<lambda>cm3.
      if finished then
        Inr (r, if cached_len r > int (handle_len h)
                then free_indices (islice (int (handle_len h)) (cached_len r) page_indices) cm3
                else cm3)
      else
        res_bind (cm_lock h cm3) (\<lambda>cm4. Inr (r\<lparr>cache_handle := Some h\<rparr>, cm4))))))"

definition check_integrity :: "cache_manager \<Rightarrow> unit result" where
  "check_integrity cm =
     (let cache_pages = total_size (get_size_info (prefix_cache cm)) sdiv int (cm_page_size cm) in
      check (int (length (free_slots cm)) + cache_pages = num_pages cm)
        (TorchCheck ''CacheManager integrity check failed''))"

end
