(* ===== verification/PagePool.thy ===== *)
theory PagePool
  imports CacheManager
begin

text \<open>
  The pages of the cache manager. Every page is in exactly one place: free, in the list of the
  lazy region, in the prefix cache, or private to a request (in its row of the page table).
  \<open>cm_pages\<close> counts the first three, and each operation is shown to move pages between the
  places without losing or doubling one. Allocation succeeds exactly when \<open>available_size\<close>
  allows it. As in the engine, the page size is one.
\<close>

definition cm_pages :: "cache_manager \<Rightarrow> int multiset" where
  "cm_pages cm = mset (free_slots cm) + mset (concat (lazy_free_list cm)) + tree_slots (prefix_cache cm)"

definition cm_ok :: "cache_manager \<Rightarrow> int list multiset \<Rightarrow> bool" where
  "cm_ok cm K \<longleftrightarrow> cm_page_size cm = 1 \<and> radix_ok (prefix_cache cm) K \<and>
     (lazy_free_active cm \<or> lazy_free_list cm = [])"

abbreviation cm_handle :: "cache_manager \<Rightarrow> cache_handle \<Rightarrow> int list \<Rightarrow> bool" where
  "cm_handle cm \<equiv> handle_at (prefix_cache cm)"

text \<open>What every operation keeps of the other requests: their locked handles stay valid.\<close>

definition keeps_handles :: "cache_manager \<Rightarrow> int list multiset \<Rightarrow> cache_manager \<Rightarrow> bool" where
  "keeps_handles cm K cm' \<longleftrightarrow>
     (\<forall>h k. k \<in># K \<or> k = [] \<longrightarrow> cm_handle cm h k \<longrightarrow> cm_handle cm' h k)"

lemma cm_okD:
  assumes "cm_ok cm K"
  shows "cm_page_size cm = 1" "radix_ok (prefix_cache cm) K"
    "\<not> lazy_free_active cm \<Longrightarrow> lazy_free_list cm = []"
  using assms by (auto simp: cm_ok_def)

section \<open>Freeing\<close>

lemma take_every_1 [simp]: "take_every (Suc 0) xs = xs"
  by (induction xs) simp_all

lemma free_indices_fields [simp]:
  "num_pages (free_indices xs cm) = num_pages cm" "cm_page_size (free_indices xs cm) = cm_page_size cm"
  "page_table (free_indices xs cm) = page_table cm" "prefix_cache (free_indices xs cm) = prefix_cache cm"
  "lazy_free_active (free_indices xs cm) = lazy_free_active cm"
  "page_write_len (free_indices xs cm) = page_write_len cm"
  by (simp_all add: free_indices_def)

lemma free_indices_slots:
  assumes "cm_page_size cm = 1" "\<not> lazy_free_active cm"
  shows "free_slots (free_indices xs cm) = free_slots cm @ xs"
    "lazy_free_list (free_indices xs cm) = lazy_free_list cm"
  using assms by (simp_all add: free_indices_def)

lemma free_indices_pages:
  "cm_page_size cm = 1 \<Longrightarrow> cm_pages (free_indices xs cm) = cm_pages cm + mset xs"
  by (simp add: cm_pages_def free_indices_def)

lemma free_indices_ok: "cm_ok cm K \<Longrightarrow> cm_ok (free_indices xs cm) K"
  by (auto simp: cm_ok_def free_indices_def)

lemma free_indices_available:
  assumes "cm_page_size cm = 1"
  shows "available_size (free_indices xs cm) =
     available_size cm + (if lazy_free_active cm then 0 else int (length xs))"
  using assms by (simp add: available_size_def) (simp add: free_indices_def)

lemma fold_free_indices:
  assumes "cm_page_size cm = 1" "\<not> lazy_free_active cm"
  shows "fold free_indices xss cm = cm\<lparr>free_slots := free_slots cm @ concat xss\<rparr>"
  using assms
proof (induction xss arbitrary: cm)
  case (Cons xs xss)
  have "free_indices xs cm = cm\<lparr>free_slots := free_slots cm @ xs\<rparr>"
    using Cons.prems by (simp add: free_indices_def)
  then show ?case using Cons by simp
qed simp

lemma lazy_free_leave_eq:
  "cm_page_size cm = 1 \<Longrightarrow> lazy_free_leave cm =
     cm\<lparr>lazy_free_active := False, free_slots := free_slots cm @ concat (lazy_free_list cm),
        lazy_free_list := []\<rparr>"
  by (simp add: lazy_free_leave_def flush_lazy_free_def fold_free_indices)

lemma lazy_free_leave_ok:
  assumes "cm_ok cm K"
  shows "cm_ok (lazy_free_leave cm) K" "cm_pages (lazy_free_leave cm) = cm_pages cm"
    "\<not> lazy_free_active (lazy_free_leave cm)"
    "prefix_cache (lazy_free_leave cm) = prefix_cache cm"
    "page_table (lazy_free_leave cm) = page_table cm"
    "available_size (lazy_free_leave cm) =
       available_size cm + int (length (concat (lazy_free_list cm)))"
  using assms cm_okD [OF assms]
  by (simp_all add: lazy_free_leave_eq cm_ok_def cm_pages_def available_size_def get_size_info_def)

lemma lazy_free_enter_ok:
  assumes "cm_ok cm K" "\<not> lazy_free_active cm"
  shows "lazy_free_enter cm = Inr (cm\<lparr>lazy_free_active := True\<rparr>)"
    "cm_ok (cm\<lparr>lazy_free_active := True\<rparr>) K" "cm_pages (cm\<lparr>lazy_free_active := True\<rparr>) = cm_pages cm"
  using assms by (simp_all add: lazy_free_enter_def cm_ok_def cm_pages_def)

section \<open>Allocating\<close>

lemma available_size_1:
  "cm_page_size cm = 1 \<Longrightarrow>
   available_size cm = evictable_size (prefix_cache cm) + int (length (free_slots cm))"
  by (simp add: available_size_def get_size_info_def)

lemma evictable_nonneg: "radix_ok c K \<Longrightarrow> 0 \<le> evictable_size c"
  using counters(1) by simp

lemma allocate_pages_ok:
  assumes cm: "cm_ok cm K" "\<not> lazy_free_active cm" and need: "0 \<le> needed" "needed \<le> available_size cm"
  shows "\<exists>pages cm'. allocate_pages needed cm = Inr (pages, cm') \<and> int (length pages) = needed \<and>
     cm_ok cm' K \<and> \<not> lazy_free_active cm' \<and> cm_pages cm = cm_pages cm' + mset pages \<and>
     available_size cm' = available_size cm - needed \<and> page_table cm' = page_table cm \<and>
     num_pages cm' = num_pages cm \<and> page_write_len cm' = page_write_len cm \<and> keeps_handles cm K cm'"
proof (cases "needed = 0")
  case True
  then show ?thesis using cm by (auto simp: allocate_pages_def keeps_handles_def)
next
  case False
  note ps = cm_okD(1) [OF cm(1)] and rx = cm_okD(2) [OF cm(1)]
  have take: "\<exists>pages cm'. (res_bind (check (needed \<le> int (length (free_slots cm1)))
            (TorchCheck ''CacheManager failed to allocate enough pages'')) (\<lambda>_.
        Inr (take (nat needed) (free_slots cm1),
             cm1\<lparr>free_slots := drop (nat needed) (free_slots cm1)\<rparr>))) = Inr (pages, cm') \<and>
      int (length pages) = needed \<and> cm_ok cm' K \<and> \<not> lazy_free_active cm' \<and>
      cm_pages cm1 = cm_pages cm' + mset pages \<and> available_size cm' = available_size cm1 - needed \<and>
      page_table cm' = page_table cm1 \<and> num_pages cm' = num_pages cm1 \<and>
      page_write_len cm' = page_write_len cm1 \<and> prefix_cache cm' = prefix_cache cm1"
    if "cm_ok cm1 K" "\<not> lazy_free_active cm1" "needed \<le> int (length (free_slots cm1))" for cm1
    using that need(1) mset_take_drop [of "nat needed" "free_slots cm1"]
    by (auto simp: cm_ok_def cm_pages_def available_size_1 union_assoc union_commute)
  show ?thesis
  proof (cases "needed > int (length (free_slots cm))")
    case True
    let ?n = "needed - int (length (free_slots cm))"
    have "0 \<le> ?n" "?n \<le> evictable_size (prefix_cache cm)"
      using True need(2) available_size_1 [OF ps] by simp_all
    then obtain vs pc where ev: "evict ?n (prefix_cache cm) = Inr (vs, pc)" "radix_ok pc K"
      "kept (prefix_cache cm) K pc" "?n \<le> int (length vs)" "tree_slots (prefix_cache cm) = tree_slots pc + mset vs"
      "evictable_size pc = evictable_size (prefix_cache cm) - int (length vs)"
      using evict_ok [OF rx] by blast
    let ?cm1 = "free_indices vs (cm\<lparr>prefix_cache := pc\<rparr>)"
    have ok1: "cm_ok ?cm1 K" using cm ev(2) by (intro free_indices_ok) (simp add: cm_ok_def)
    have slots1: "free_slots ?cm1 = free_slots cm @ vs" using ps cm(2) by (simp add: free_indices_slots)
    have "needed \<le> int (length (free_slots ?cm1))" using ev(4) slots1 by simp
    then obtain pages cm' where r: "(res_bind (check (needed \<le> int (length (free_slots ?cm1)))
            (TorchCheck ''CacheManager failed to allocate enough pages'')) (\<lambda>_.
        Inr (take (nat needed) (free_slots ?cm1),
             ?cm1\<lparr>free_slots := drop (nat needed) (free_slots ?cm1)\<rparr>))) = Inr (pages, cm')"
      "int (length pages) = needed" "cm_ok cm' K" "\<not> lazy_free_active cm'"
      "cm_pages ?cm1 = cm_pages cm' + mset pages" "available_size cm' = available_size ?cm1 - needed"
      "page_table cm' = page_table ?cm1" "num_pages cm' = num_pages ?cm1"
      "page_write_len cm' = page_write_len ?cm1" "prefix_cache cm' = prefix_cache ?cm1"
      using take [OF ok1] cm(2) by auto
    have "allocate_pages needed cm = Inr (pages, cm')"
      using True need(1) False r(1) ev(1) ps by (simp add: allocate_pages_def)
    moreover have "cm_pages ?cm1 = cm_pages cm"
      using ps ev(5) by (simp add: free_indices_pages) (simp add: cm_pages_def)
    moreover have "available_size ?cm1 = available_size cm"
      using ps cm(2) ev(6) slots1 by (simp add: available_size_1)
    moreover have "keeps_handles cm K cm'" using ev(3) r(10) by (auto simp: keeps_handles_def kept_def)
    ultimately show ?thesis using r by (intro exI [of _ pages] exI [of _ cm']) simp
  next
    case enough: False
    then obtain pages cm' where r: "(res_bind (check (needed \<le> int (length (free_slots cm)))
            (TorchCheck ''CacheManager failed to allocate enough pages'')) (\<lambda>_.
        Inr (take (nat needed) (free_slots cm),
             cm\<lparr>free_slots := drop (nat needed) (free_slots cm)\<rparr>))) = Inr (pages, cm')"
      "int (length pages) = needed" "cm_ok cm' K" "\<not> lazy_free_active cm'"
      "cm_pages cm = cm_pages cm' + mset pages" "available_size cm' = available_size cm - needed"
      "page_table cm' = page_table cm" "num_pages cm' = num_pages cm"
      "page_write_len cm' = page_write_len cm" "prefix_cache cm' = prefix_cache cm"
      using take [OF cm] by auto
    have "allocate_pages needed cm = Inr (pages, cm')"
      using enough need(1) False r(1) by (simp add: allocate_pages_def)
    moreover have "keeps_handles cm K cm'" using r(10) by (simp add: keeps_handles_def)
    ultimately show ?thesis using r by (intro exI [of _ pages] exI [of _ cm']) simp
  qed
qed

lemma allocate_pages_fail:
  assumes cm: "cm_ok cm K" "\<not> lazy_free_active cm" and need: "available_size cm < needed"
  shows "allocate_pages needed cm = Inl (TorchCheck ''Cannot evict'')"
proof -
  note ps = cm_okD(1) [OF cm(1)]
  have "0 \<le> evictable_size (prefix_cache cm)" using evictable_nonneg cm_okD(2) [OF cm(1)] .
  then have "0 < needed" "int (length (free_slots cm)) < needed"
    "evictable_size (prefix_cache cm) < needed - int (length (free_slots cm))"
    using need available_size_1 [OF ps] by simp_all
  then show ?thesis using ps by (simp add: allocate_pages_def evict_too_much)
qed

section \<open>The workspace\<close>

lemma double_until_bounds:
  "0 < n \<Longrightarrow> needed \<le> double_until needed n \<and>
   (double_until needed n = n \<or> double_until needed n < 2 * needed) \<and> (\<exists>k. double_until needed n = n * 2 ^ k)"
proof (induction needed n rule: double_until.induct)
  case (1 needed n)
  show ?case
  proof (cases "n < needed")
    case True
    then have eq: "double_until needed n = double_until needed (2 * n)"
      using 1(2) double_until.simps [of needed n] by simp
    have IH: "needed \<le> double_until needed (2 * n)"
      "double_until needed (2 * n) = 2 * n \<or> double_until needed (2 * n) < 2 * needed"
      "\<exists>k. double_until needed (2 * n) = 2 * n * 2 ^ k"
      using 1(1) True 1(2) by simp_all
    obtain k where "double_until needed (2 * n) = 2 * n * 2 ^ k" using IH(3) by blast
    then have "double_until needed n = n * 2 ^ Suc k" using eq by simp
    then show ?thesis using IH(1,2) eq True by (metis mult_less_cancel1 zero_less_numeral)
  next
    case False
    then have "double_until needed n = n" using double_until.simps [of needed n] by simp
    then show ?thesis using False by (intro conjI exI [of _ 0]) auto
  qed
qed

lemma ensure_workspace_ok:
  "needed \<le> page_write_len (ensure_page_write_workspace needed cm)"
  using double_until_bounds [of 1 needed] by (simp add: ensure_page_write_workspace_def)

end
