(* ===== verification/PageTable.thy ===== *)
theory PageTable
  imports PagePool
begin

text \<open>
  \<open>allocate_paged\<close>: every token of the batch that has no page yet gets one, its page table
  entry names it, and no other entry changes.
\<close>

section \<open>The entries to write\<close>

definition targets :: "req list \<Rightarrow> (int \<times> int) list" where
  "targets rs = concat (map (\<lambda>r. map (\<lambda>p. (table_idx r, p)) [cached_len r..device_len r - 1]) rs)"

definition entries_of :: "(int \<times> int) list \<Rightarrow> int list \<Rightarrow> (int \<times> int \<times> int) list" where
  "entries_of ts pages = map2 (\<lambda>(t, p) a. (t, p, a)) ts pages"

lemma entries_of_append:
  "length ts = length pages \<Longrightarrow> entries_of (ts @ ts') (pages @ pages') = entries_of ts pages @ entries_of ts' pages'"
  by (simp add: entries_of_def)

lemma entries_of_maps:
  assumes "length ts = length pages"
  shows "map fst (entries_of ts pages) = map fst ts" "map (fst \<circ> snd) (entries_of ts pages) = map snd ts"
    "map (snd \<circ> snd) (entries_of ts pages) = pages"
    "map (\<lambda>(r, p, v). (r, p)) (entries_of ts pages) = ts" "length (entries_of ts pages) = length ts"
  using assms
  by (simp_all add: entries_of_def) (induction ts pages rule: list_induct2; auto)+

lemma page_entries_1:
  "length pgs \<le> length pages \<Longrightarrow> page_entries (Suc 0) ti pgs pages =
     Inr (entries_of (map (Pair ti) pgs) (take (length pgs) pages), drop (length pgs) pages)"
proof (induction pgs arbitrary: pages)
  case Nil
  then show ?case by (simp add: entries_of_def)
next
  case (Cons p pgs)
  then obtain a as where "pages = a # as" by (cases pages) auto
  with Cons show ?case by (simp add: entries_of_def)
qed

lemma allocation_entries_1:
  assumes "length (targets rs) \<le> length pages"
  shows "allocation_entries (Suc 0) (allocation_info (Suc 0) rs) pages =
     Inr (entries_of (targets rs) (take (length (targets rs)) pages), drop (length (targets rs)) pages)"
  using assms
proof (induction rs arbitrary: pages)
  case Nil
  then show ?case by (simp add: allocation_info_def targets_def entries_of_def)
next
  case (Cons r rs)
  let ?pos = "[cached_len r..device_len r - 1]"
  let ?pages' = "drop (length ?pos) pages"
  have t: "targets (r # rs) = map (Pair (table_idx r)) ?pos @ targets rs" by (simp add: targets_def)
  have len: "length ?pos + length (targets rs) \<le> length pages" using Cons.prems t by simp
  then have len': "length ?pos \<le> length pages" "length (targets rs) \<le> length ?pages'" by auto
  note IH = Cons.IH [OF len'(2)]
  have app: "entries_of (map (Pair (table_idx r)) ?pos) (take (length ?pos) pages) @
      entries_of (targets rs) (take (length (targets rs)) ?pages') =
      entries_of (targets (r # rs)) (take (length (targets (r # rs))) pages)"
  proof -
    have "take (length (targets (r # rs))) pages = take (length ?pos) pages @ take (length (targets rs)) ?pages'"
      unfolding t by (simp add: take_add)
    then show ?thesis using len'(1) unfolding t by (simp add: entries_of_append)
  qed
  have drops: "drop (length (targets rs)) ?pages' = drop (length (targets (r # rs))) pages"
    unfolding t by (simp add: add.commute)
  show ?case
  proof (cases "cached_len r < device_len r")
    case True
    then have info: "allocation_info (Suc 0) (r # rs) =
        (table_idx r, cached_len r, device_len r) # allocation_info (Suc 0) rs"
      using div_ceil_1 by (simp add: allocation_info_def Let_def)
    show ?thesis
      unfolding info using page_entries_1 [OF len'(1), of "table_idx r"] IH app drops by simp
  next
    case False
    then have info: "allocation_info (Suc 0) (r # rs) = allocation_info (Suc 0) rs"
      using div_ceil_1 by (simp add: allocation_info_def Let_def)
    have "?pos = []" using False by simp
    then show ?thesis using info IH t by simp
  qed
qed

lemma allocation_needed:
  "sum_list (map (\<lambda>(_, first_page, last_page). last_page - first_page) (allocation_info (Suc 0) rs)) =
     int (length (targets rs))"
proof (induction rs)
  case (Cons r rs)
  have t: "length (targets (r # rs)) = nat (device_len r - cached_len r) + length (targets rs)"
    by (simp add: targets_def)
  have info: "allocation_info (Suc 0) (r # rs) =
      (if device_len r > cached_len r then [(table_idx r, cached_len r, device_len r)] else []) @
      allocation_info (Suc 0) rs"
    using div_ceil_1 by (simp add: allocation_info_def Let_def)
  show ?case unfolding info t using Cons.IH by simp
qed (simp add: allocation_info_def targets_def)

section \<open>The rows of a batch\<close>

definition row_range :: "table \<Rightarrow> req \<Rightarrow> int \<Rightarrow> int \<Rightarrow> int list" where
  "row_range t r a b = tslice (nat a) (nat b) (t ! nat (table_idx r))"

definition batch_rows :: "table \<Rightarrow> req list \<Rightarrow> bool" where
  "batch_rows t rs \<longleftrightarrow> distinct (map table_idx rs) \<and>
     (\<forall>r\<in>set rs. 0 \<le> table_idx r \<and> table_idx r < int (length t) \<and> 0 \<le> cached_len r \<and>
        cached_len r \<le> device_len r \<and> nat (device_len r) \<le> length (t ! nat (table_idx r)))"

lemma row_range_map:
  assumes "0 \<le> table_idx r" "table_idx r < int (length t)" "0 \<le> a" "nat b \<le> length (t ! nat (table_idx r))"
  shows "row_range t r a b = map (read_cell t (table_idx r)) [a..b - 1]"
proof (rule nth_equalityI)
  show len: "length (row_range t r a b) = length (map (read_cell t (table_idx r)) [a..b - 1])"
    using assms by (simp add: row_range_def nat_diff_distrib')
  show "row_range t r a b ! i = map (read_cell t (table_idx r)) [a..b - 1] ! i"
    if "i < length (row_range t r a b)" for i
  proof -
    have i: "i < nat b - nat a" using that assms(4) by (simp add: row_range_def)
    then have "nat (a + int i) = nat a + i" using assms(3) by (simp add: nat_add_distrib)
    moreover have "nat a + i < length (t ! nat (table_idx r))" using i assms(4) by simp
    moreover have "a + int i \<le> b - 1" using i assms(3) by linarith
    moreover have "a + int i < int (length (t ! nat (table_idx r)))" using i assms(3,4) by linarith
    ultimately show ?thesis
      using i assms that len by (simp add: row_range_def nth_tslice read_cell_def)
  qed
qed

lemma distinct_targets: "batch_rows t rs \<Longrightarrow> distinct (targets rs)"
proof (induction rs)
  case (Cons r rs)
  have "batch_rows t rs" using Cons.prems by (simp add: batch_rows_def)
  then have "distinct (targets rs)" by (rule Cons.IH)
  moreover have "table_idx r \<notin> fst ` set (targets rs)"
    using Cons.prems by (auto simp: targets_def batch_rows_def)
  ultimately show ?case by (auto simp: targets_def distinct_map inj_on_def image_iff)
qed (simp add: targets_def)

lemma targets_sum:
  assumes "batch_rows t rs"
  shows "sum_list (map (\<lambda>r. mset (row_range t r (cached_len r) (device_len r))) rs) =
     mset (map (\<lambda>(i, p). read_cell t i p) (targets rs))"
  using assms
proof (induction rs)
  case (Cons r rs)
  have r: "0 \<le> table_idx r" "table_idx r < int (length t)" "0 \<le> cached_len r"
    "nat (device_len r) \<le> length (t ! nat (table_idx r))" and rs: "batch_rows t rs"
    using Cons.prems by (auto simp: batch_rows_def)
  show ?case using Cons.IH [OF rs] row_range_map [OF r] by (simp add: targets_def comp_def)
qed (simp add: targets_def)

lemma batch_rows_shape:
  assumes "length t' = length t" "\<And>i. length (t' ! i) = length (t ! i)"
  shows "batch_rows t' rs = batch_rows t rs"
  using assms by (simp add: batch_rows_def)

lemma targets_length:
  "batch_rows t rs \<Longrightarrow> int (length (targets rs)) = sum_list (map extend_len rs)"
  by (induction rs) (auto simp: targets_def batch_rows_def extend_len_def)

lemma read_written:
  assumes rows: "batch_rows t rs" and len: "length pages = length (targets rs)"
    and t': "t' = fold write_cell (entries_of (targets rs) pages) t"
  shows "map (\<lambda>(i, p). read_cell t' i p) (targets rs) = pages"
    "(i, p) \<notin> set (targets rs) \<Longrightarrow> read_cell t' i p = read_cell t i p"
proof -
  note maps = entries_of_maps [OF len [symmetric]]
  have d: "distinct (map (\<lambda>(r, p, v). (r, p)) (entries_of (targets rs) pages))"
    using maps(4) distinct_targets [OF rows] by simp
  show "map (\<lambda>(i, p). read_cell t' i p) (targets rs) = pages"
  proof (rule nth_equalityI)
    show "map (\<lambda>(i, p). read_cell t' i p) (targets rs) ! j = pages ! j"
      if "j < length (map (\<lambda>(i, p). read_cell t' i p) (targets rs))" for j
    proof -
      have j: "j < length (targets rs)" using that by simp
      obtain i p where ip: "targets rs ! j = (i, p)" by (cases "targets rs ! j") auto
      have "entries_of (targets rs) pages ! j = (i, p, pages ! j)"
        using j len ip by (simp add: entries_of_def)
      then have inn: "(i, p, pages ! j) \<in> set (entries_of (targets rs) pages)"
        using j maps(5) by (metis nth_mem)
      have "(i, p) \<in> set (targets rs)" using j ip by (metis nth_mem)
      then obtain r where "r \<in> set rs" "i = table_idx r" "cached_len r \<le> p" "p < device_len r"
        by (auto simp: targets_def)
      then have "0 \<le> i" "i < int (length t)" "0 \<le> p" "p < int (length (t ! nat i))"
        using rows by (auto simp: batch_rows_def)
      then show ?thesis using read_fold_in [OF inn d] j ip t' by simp
    qed
  qed (use len in simp)
  show "read_cell t' i p = read_cell t i p" if "(i, p) \<notin> set (targets rs)"
    unfolding t'
  proof (rule read_fold_other)
    show "(i, p, v) \<notin> set (entries_of (targets rs) pages)" for v
    proof
      assume "(i, p, v) \<in> set (entries_of (targets rs) pages)"
      then have "(i, p) \<in> set (map (\<lambda>(r, p, v). (r, p)) (entries_of (targets rs) pages))" by force
      then show False using that maps(4) by simp
    qed
  qed
qed

section \<open>Allocation for a batch\<close>

lemma allocate_paged_ok:
  assumes cm: "cm_ok cm K" "\<not> lazy_free_active cm" and rows: "batch_rows (page_table cm) rs"
    and need: "sum_list (map extend_len rs) \<le> available_size cm"
  shows "\<exists>cm'. allocate_paged rs cm = Inr cm' \<and> cm_ok cm' K \<and> \<not> lazy_free_active cm' \<and>
     cm_pages cm = cm_pages cm' +
       sum_list (map (\<lambda>r. mset (row_range (page_table cm') r (cached_len r) (device_len r))) rs) \<and>
     available_size cm' = available_size cm - sum_list (map extend_len rs) \<and>
     batch_rows (page_table cm') rs \<and> length (page_table cm') = length (page_table cm) \<and>
     (\<forall>i. length (page_table cm' ! i) = length (page_table cm ! i)) \<and>
     (\<forall>i p. (i, p) \<notin> set (targets rs) \<longrightarrow>
        read_cell (page_table cm') i p = read_cell (page_table cm) i p) \<and>
     num_pages cm' = num_pages cm \<and> keeps_handles cm K cm'"
proof -
  let ?n = "int (length (targets rs))"
  have n: "?n = sum_list (map extend_len rs)" using targets_length [OF rows] .
  have ps: "cm_page_size cm = Suc 0" using cm_okD(1) [OF cm(1)] by simp
  show ?thesis
  proof (cases "targets rs = []")
    case True
    have "allocate_paged rs cm = Inr cm"
      using True ps allocation_needed [of rs] by (simp add: allocate_paged_def Let_def)
    then show ?thesis
      using cm rows n True targets_sum [OF rows] by (simp add: keeps_handles_def)
  next
    case False
    obtain pages cm1 where a: "allocate_pages ?n cm = Inr (pages, cm1)" "int (length pages) = ?n"
      "cm_ok cm1 K" "\<not> lazy_free_active cm1" "cm_pages cm = cm_pages cm1 + mset pages"
      "available_size cm1 = available_size cm - ?n" "page_table cm1 = page_table cm"
      "num_pages cm1 = num_pages cm" "keeps_handles cm K cm1"
      using allocate_pages_ok [OF cm, of ?n] need n by auto
    have len: "length pages = length (targets rs)" using a(2) by simp
    have ne: "pages \<noteq> []" using False len by auto
    have ps1: "cm_page_size cm1 = Suc 0" using cm_okD(1) [OF a(3)] by simp
    let ?es = "entries_of (targets rs) pages"
    let ?t' = "fold write_cell ?es (page_table cm)"
    let ?cm' = "(ensure_page_write_workspace (length pages) cm1)\<lparr>page_table := ?t'\<rparr>"
    note maps = entries_of_maps [OF len [symmetric]]
    have zips: "zip (map fst ?es) (zip (map (fst \<circ> snd) ?es) (map (snd \<circ> snd) ?es)) = ?es"
      by (simp add: zip_map_map map_idI [of ?es] zip_same_conv_map comp_def)
    have "write_page_table pages (allocation_info (Suc 0) rs) cm1 = Inr ?cm'"
      using ne ps1 allocation_entries_1 [of rs pages] len maps(5) zips a(7)
      by (simp add: write_page_table_def Let_def write_token_pool_def
          ensure_page_write_workspace_def)
    moreover have "sum_list (map (\<lambda>(_, first_page, last_page). last_page - first_page)
        (allocation_info (cm_page_size cm) rs)) = ?n"
      using allocation_needed ps by simp
    ultimately have "allocate_paged rs cm = Inr ?cm'"
      using False a(1) ps by (simp add: allocate_paged_def Let_def)
    moreover have cm': "cm_ok ?cm' K" "\<not> lazy_free_active ?cm'" "cm_pages ?cm' = cm_pages cm1"
      "available_size ?cm' = available_size cm1" "num_pages ?cm' = num_pages cm"
      "keeps_handles cm K ?cm'"
      using a(3,4,8,9)
      by (simp_all add: cm_ok_def cm_pages_def available_size_def ensure_page_write_workspace_def
          keeps_handles_def)
    moreover have rows': "batch_rows ?t' rs"
      using rows batch_rows_shape [of ?t' "page_table cm"] fold_write_shape by blast
    moreover have "sum_list (map (\<lambda>r. mset (row_range ?t' r (cached_len r) (device_len r))) rs) = mset pages"
      using targets_sum [OF rows'] read_written(1) [OF rows len refl] by simp
    moreover have "\<forall>i p. (i, p) \<notin> set (targets rs) \<longrightarrow>
        read_cell ?t' i p = read_cell (page_table cm) i p"
      using read_written(2) [OF rows len refl] by blast
    ultimately show ?thesis
      using a(5,6) n fold_write_shape by (intro exI [of _ ?cm']) simp
  qed
qed

end
