(* ===== verification/CacheReq.thy ===== *)
theory CacheReq
  imports PageTable
begin

text \<open>
  \<open>cache_req\<close>: the pages a request has filled go to the prefix cache or back to the pool, and
  its lock moves. A finished request gives back everything it owns; a running one keeps exactly
  the inserted prefix locked.
\<close>

section \<open>Pieces of a row\<close>

lemma tslice_append:
  assumes "a \<le> b" "b \<le> c"
  shows "tslice a b t @ tslice b c t = tslice a c t"
proof -
  have t: "take c t = take b t @ drop b (take c t)"
    using append_take_drop_id [of b "take c t"] assms(2) by (simp add: min_absorb1)
  have "drop a (take c t) = drop a (take b t) @ drop b (take c t)"
  proof (cases "a \<le> length t")
    case True
    then have "a - length (take b t) = 0" using assms(1) by simp
    then show ?thesis by (subst t) simp
  qed (use assms in simp)
  then show ?thesis by (simp add: tslice_def)
qed

lemma tslice_take: "b \<le> c \<Longrightarrow> tslice a b (take c t) = tslice a b t"
  by (simp add: tslice_def min_absorb1)

lemma mset_tslice_split: "a \<le> b \<Longrightarrow> b \<le> c \<Longrightarrow> mset (tslice a c t) = mset (tslice a b t) + mset (tslice b c t)"
  using tslice_append [of a b c t] by (metis mset_append)

section \<open>What is available, counting the pages of a lazy region\<close>

definition cm_room :: "cache_manager \<Rightarrow> int" where
  "cm_room cm = evictable_size (prefix_cache cm) + int (length (free_slots cm)) +
     int (length (concat (lazy_free_list cm)))"

lemma room_available: "cm_ok cm K \<Longrightarrow> \<not> lazy_free_active cm \<Longrightarrow> cm_room cm = available_size cm"
  using available_size_1 [of cm] by (simp add: cm_ok_def cm_room_def)

lemma free_indices_room: "cm_page_size cm = 1 \<Longrightarrow> cm_room (free_indices xs cm) = cm_room cm + int (length xs)"
  by (simp add: cm_room_def free_indices_def)

lemma free_if:
  assumes "cm_page_size cm = 1" "\<not> b \<Longrightarrow> xs = []"
  shows "(if b then free_indices xs cm else cm) = free_indices xs cm"
  using assms by (auto simp: free_indices_def)

section \<open>The hand-over\<close>

definition computed_ids :: "req \<Rightarrow> int list" where
  "computed_ids r = take (nat (cached_len r)) (input_ids r)"

definition req_row_ok :: "table \<Rightarrow> req \<Rightarrow> bool" where
  "req_row_ok t r \<longleftrightarrow> 0 \<le> table_idx r \<and> table_idx r < int (length t) \<and> 0 \<le> cached_len r \<and>
     nat (cached_len r) \<le> length (t ! nat (table_idx r))"

lemma computed_ids_len: "0 \<le> cached_len r \<Longrightarrow> int (length (computed_ids r)) \<le> cached_len r"
  by (simp add: computed_ids_def)

text \<open>The part that both cases share: insert, unlock, free the pages stored before.\<close>

lemma cache_req_insert:
  assumes cm: "cm_ok cm K" and row: "req_row_ok (page_table cm) r"
    and old: "cache_handle r = Some old" "cm_handle cm old ks" "ks \<in># K" "prefix ks (computed_ids r)"
  shows "\<exists>plen h cm3. cm_ok cm3 (K - {#ks#}) \<and> cm_handle cm3 h (computed_ids r) \<and>
     handle_len h = length (computed_ids r) \<and> length ks \<le> plen \<and> plen \<le> length (computed_ids r) \<and>
     cm_pages cm3 = cm_pages cm + mset (row_range (page_table cm) r (int (length ks)) (int (length (computed_ids r)))) \<and>
     cm_room cm + int (length (computed_ids r) - length ks) \<le> cm_room cm3 \<and>
     page_table cm3 = page_table cm \<and> num_pages cm3 = num_pages cm \<and>
     lazy_free_active cm3 = lazy_free_active cm \<and>
     (\<forall>h' k. cm_handle cm h' k \<longrightarrow> cm_handle cm3 h' k) \<and>
     cache_req r finished cm =
       (if finished then
         Inr (r, free_indices (islice (int (handle_len h)) (cached_len r)
            (islice 0 (cached_len r) (page_table cm ! nat (table_idx r)))) cm3)
        else res_bind (cm_lock h cm3) (\<lambda>cm4. Inr (r\<lparr>cache_handle := Some h\<rparr>, cm4))) \<and>
     (\<forall>pc'. lock_handle h False (prefix_cache cm3) = Inr pc' \<longrightarrow>
        radix_ok pc' (add_mset (computed_ids r) (K - {#ks#})) \<longrightarrow>
        (\<forall>s v. stored pc' s v \<longleftrightarrow> stored (prefix_cache cm3) s v) \<longrightarrow>
        cm_room cm \<le> cm_room (cm3\<lparr>prefix_cache := pc'\<rparr>))"
proof -
  let ?ids = "computed_ids r" let ?row = "page_table cm ! nat (table_idx r)"
  let ?idx = "take (nat (cached_len r)) ?row"
  note ps = cm_okD(1) [OF cm] and rx = cm_okD(2) [OF cm]
  have b: "0 \<le> table_idx r" "table_idx r < int (length (page_table cm))" "0 \<le> cached_len r"
    "nat (cached_len r) \<le> length ?row" using row by (auto simp: req_row_ok_def)
  have len: "length ?ids \<le> length ?idx" using b(4) by (simp add: computed_ids_def)
  have idslen: "length ?ids \<le> nat (cached_len r)" by (simp add: computed_ids_def)
  obtain plen h c1 c2 where i: "insert_prefix ?ids ?idx (prefix_cache cm) = Inr (plen, h, c1)"
    "lock_handle old True c1 = Inr c2" "radix_ok c2 (K - {#ks#})" "handle_at c2 h ?ids"
    "handle_len h = length ?ids" "length ks \<le> plen" "plen \<le> length ?ids"
    "tree_slots c2 = tree_slots (prefix_cache cm) + mset (tslice plen (length ?ids) ?idx)"
    "evictable_size (prefix_cache cm) + int (length ?ids - plen) \<le> evictable_size c2"
    "\<forall>h' k. handle_at (prefix_cache cm) h' k \<longrightarrow> handle_at c2 h' k"
    "\<forall>s v. stored (prefix_cache cm) s v \<longrightarrow> stored c2 s v"
    "\<forall>s v. prefix s ?ids \<longrightarrow> stored (prefix_cache cm) s v \<longrightarrow> length s \<le> plen"
    using radix.insert_unlock [OF rx old(2,3,4) len] by blast
  let ?dup = "islice (int (handle_len old)) (int plen) ?idx"
  let ?cm2 = "cm\<lparr>prefix_cache := c2\<rparr>"
  let ?cm3 = "free_indices ?dup ?cm2"
  have hl: "handle_len old = length ks" using old(2) by (simp add: handle_at_def)
  have dup: "?dup = tslice (length ks) plen ?row"
    using i(7) idslen hl by (simp add: islice_nonneg tslice_take)
  have duplen: "length ?dup = plen - length ks" unfolding dup using i(7) idslen b(4) by simp
  have ps2: "cm_page_size ?cm2 = 1" using ps by simp
  have ok3: "cm_ok ?cm3 (K - {#ks#})"
    using cm i(3) by (intro free_indices_ok) (simp add: cm_ok_def)
  have sel: "select_row (page_table cm) (table_idx r) = Inr ?row" using b by (simp add: select_row_ok)
  have isl: "islice 0 (cached_len r) (input_ids r) = ?ids" "islice 0 (cached_len r) ?row = ?idx"
    using b(3) by (simp_all add: islice_nonneg computed_ids_def)
  have unl: "cm_unlock old (cm\<lparr>prefix_cache := c1\<rparr>) = Inr ?cm2" by (simp add: cm_unlock_def i(2))
  have fr: "(if handle_len old < plen then free_indices ?dup ?cm2 else ?cm2) = ?cm3"
    using free_if [OF ps2, of "handle_len old < plen" ?dup] hl dup by (simp add: islice_nonneg)
  have fin: "(if cached_len r > int (handle_len h)
      then free_indices (islice (int (handle_len h)) (cached_len r) ?idx) ?cm3 else ?cm3) =
      free_indices (islice (int (handle_len h)) (cached_len r) ?idx) ?cm3"
    by (rule free_if) (use ps b(3) in \<open>simp_all add: islice_nonneg\<close>)
  have eq: "cache_req r finished cm =
       (if finished then
         Inr (r, free_indices (islice (int (handle_len h)) (cached_len r)
            (islice 0 (cached_len r) ?row)) ?cm3)
        else res_bind (cm_lock h ?cm3) (\<lambda>cm4. Inr (r\<lparr>cache_handle := Some h\<rparr>, cm4)))"
    unfolding cache_req_def Let_def
    by (simp only: isl sel old(1) i(1) res_bind_Inr prod.case option.case unl fr fin)
  have pages: "cm_pages ?cm3 = cm_pages cm + mset (row_range (page_table cm) r (int (length ks)) (int (length ?ids)))"
  proof -
    have "mset (row_range (page_table cm) r (int (length ks)) (int (length ?ids))) =
        mset ?dup + mset (tslice plen (length ?ids) ?idx)"
      unfolding row_range_def dup tslice_take [OF idslen]
      using mset_tslice_split [OF i(6,7)] by simp
    then show ?thesis
      using ps2 i(8) by (simp add: free_indices_pages) (simp add: cm_pages_def)
  qed
  have room: "cm_room cm + int (length ?ids - length ks) \<le> cm_room ?cm3"
    unfolding free_indices_room [OF ps2] using duplen i(6,7,9) by (simp add: cm_room_def)
  have room2: "cm_room cm \<le> cm_room (?cm3\<lparr>prefix_cache := pc'\<rparr>)"
    if "radix_ok pc' (add_mset ?ids (K - {#ks#}))" "\<forall>s v. stored pc' s v \<longleftrightarrow> stored c2 s v" for pc'
  proof -
    have "evictable_size (prefix_cache cm) - int (plen - length ks) \<le> evictable_size pc'"
      by (rule radix.relock_evictable [OF rx that(1) old(3,4)]) (use i(11,12) that(2) in blast)+
    moreover have "cm_room (?cm3\<lparr>prefix_cache := pc'\<rparr>) = cm_room ?cm3 - evictable_size c2 + evictable_size pc'"
      by (simp add: cm_room_def)
    moreover have "cm_room ?cm3 = cm_room ?cm2 + int (plen - length ks)"
      unfolding free_indices_room [OF ps2] duplen ..
    ultimately show ?thesis by (simp add: cm_room_def)
  qed
  show ?thesis
    using ok3 i(4-7,10) pages room eq room2
    by (intro exI [of _ plen] exI [of _ h] exI [of _ ?cm3]) simp
qed

lemma cache_req_finished:
  assumes cm: "cm_ok cm K" and row: "req_row_ok (page_table cm) r"
    and old: "cache_handle r = Some old" "cm_handle cm old ks" "ks \<in># K" "prefix ks (computed_ids r)"
  shows "\<exists>cm'. cache_req r True cm = Inr (r, cm') \<and> cm_ok cm' (K - {#ks#}) \<and>
     cm_pages cm' = cm_pages cm + mset (row_range (page_table cm) r (int (length ks)) (cached_len r)) \<and>
     cm_room cm + (cached_len r - int (length ks)) \<le> cm_room cm' \<and>
     page_table cm' = page_table cm \<and> num_pages cm' = num_pages cm \<and>
     lazy_free_active cm' = lazy_free_active cm \<and> (\<forall>h k. cm_handle cm h k \<longrightarrow> cm_handle cm' h k)"
proof -
  let ?ids = "computed_ids r" let ?row = "page_table cm ! nat (table_idx r)"
  obtain plen and h :: cache_handle and cm3 where i: "cm_ok cm3 (K - {#ks#})" "handle_len h = length ?ids"
    "length ks \<le> plen" "plen \<le> length ?ids"
    "cm_pages cm3 = cm_pages cm + mset (row_range (page_table cm) r (int (length ks)) (int (length ?ids)))"
    "cm_room cm + int (length ?ids - length ks) \<le> cm_room cm3" "page_table cm3 = page_table cm"
    "num_pages cm3 = num_pages cm" "lazy_free_active cm3 = lazy_free_active cm"
    "\<forall>h' k. cm_handle cm h' k \<longrightarrow> cm_handle cm3 h' k"
    "cache_req r True cm = Inr (r, free_indices (islice (int (handle_len h)) (cached_len r)
        (islice 0 (cached_len r) ?row)) cm3)"
    using cache_req_insert [OF assms, of True, unfolded if_True] by blast
  have b: "0 \<le> cached_len r" "nat (cached_len r) \<le> length ?row" using row by (auto simp: req_row_ok_def)
  have n: "length ?ids \<le> nat (cached_len r)" by (simp add: computed_ids_def)
  let ?rest = "islice (int (handle_len h)) (cached_len r) (islice 0 (cached_len r) ?row)"
  have rest: "?rest = tslice (length ?ids) (nat (cached_len r)) ?row"
    using b(1) i(2) by (simp add: islice_nonneg tslice_take)
  let ?cm' = "free_indices ?rest cm3"
  note ps = cm_okD(1) [OF i(1)]
  have "cm_pages ?cm' = cm_pages cm + mset (row_range (page_table cm) r (int (length ks)) (cached_len r))"
    unfolding free_indices_pages [OF ps] i(5) rest row_range_def
    using mset_tslice_split [OF _ n, of "length ks" ?row] i(3,4) by simp
  moreover have "cm_room cm + (cached_len r - int (length ks)) \<le> cm_room ?cm'"
    unfolding free_indices_room [OF ps] rest using i(3,4,6) n b by (simp add: of_nat_diff)
  ultimately show ?thesis
    using i(7-11) free_indices_ok [OF i(1)] by (intro exI [of _ ?cm']) simp
qed

lemma cache_req_running:
  assumes cm: "cm_ok cm K" and row: "req_row_ok (page_table cm) r"
    and old: "cache_handle r = Some old" "cm_handle cm old ks" "ks \<in># K" "prefix ks (computed_ids r)"
  shows "\<exists>h cm'. cache_req r False cm = Inr (r\<lparr>cache_handle := Some h\<rparr>, cm') \<and>
     cm_ok cm' (add_mset (computed_ids r) (K - {#ks#})) \<and> cm_handle cm' h (computed_ids r) \<and>
     handle_len h = length (computed_ids r) \<and>
     cm_pages cm' = cm_pages cm +
       mset (row_range (page_table cm) r (int (length ks)) (int (length (computed_ids r)))) \<and>
     cm_room cm \<le> cm_room cm' \<and>
     page_table cm' = page_table cm \<and> num_pages cm' = num_pages cm \<and>
     lazy_free_active cm' = lazy_free_active cm \<and> (\<forall>h k. cm_handle cm h k \<longrightarrow> cm_handle cm' h k)"
proof -
  let ?ids = "computed_ids r"
  obtain plen h cm3 where i: "cm_ok cm3 (K - {#ks#})" "cm_handle cm3 h ?ids" "handle_len h = length ?ids"
    "cm_pages cm3 = cm_pages cm + mset (row_range (page_table cm) r (int (length ks)) (int (length ?ids)))"
    "page_table cm3 = page_table cm" "num_pages cm3 = num_pages cm"
    "lazy_free_active cm3 = lazy_free_active cm" "\<forall>h' k. cm_handle cm h' k \<longrightarrow> cm_handle cm3 h' k"
    "cache_req r False cm = res_bind (cm_lock h cm3) (\<lambda>cm4. Inr (r\<lparr>cache_handle := Some h\<rparr>, cm4))"
    "\<forall>pc'. lock_handle h False (prefix_cache cm3) = Inr pc' \<longrightarrow>
        radix_ok pc' (add_mset ?ids (K - {#ks#})) \<longrightarrow>
        (\<forall>s v. stored pc' s v \<longleftrightarrow> stored (prefix_cache cm3) s v) \<longrightarrow>
        cm_room cm \<le> cm_room (cm3\<lparr>prefix_cache := pc'\<rparr>)"
    using cache_req_insert [OF assms, of False, unfolded if_False] by blast
  obtain pc where l: "lock_handle h False (prefix_cache cm3) = Inr pc"
    "radix_ok pc (add_mset ?ids (K - {#ks#}))"
    "\<forall>s v. stored pc s v \<longleftrightarrow> stored (prefix_cache cm3) s v"
    "\<forall>h' ks'. handle_at pc h' ks' \<longleftrightarrow> handle_at (prefix_cache cm3) h' ks'"
    using lock_handle_ok [OF cm_okD(2) [OF i(1)] i(2)] by blast
  let ?cm' = "cm3\<lparr>prefix_cache := pc\<rparr>"
  have "cache_req r False cm = Inr (r\<lparr>cache_handle := Some h\<rparr>, ?cm')"
    by (simp add: i(9) cm_lock_def l(1))
  moreover have "cm_ok ?cm' (add_mset ?ids (K - {#ks#}))" using i(1) l(2) by (simp add: cm_ok_def)
  moreover have "cm_room cm \<le> cm_room ?cm'" using i(10) l(1-3) by blast
  moreover have "cm_pages ?cm' = cm_pages cm3"
    using tree_slots_cong [OF cm_okD(2) [OF i(1)] l(2,3)] by (simp add: cm_pages_def)
  ultimately show ?thesis
    using i(2-8) l(4) by (intro exI [of _ h] exI [of _ ?cm']) simp
qed

section \<open>The integrity check\<close>

text \<open>\<open>check_integrity\<close> accepts exactly when no page is private to a request.\<close>

lemma check_integrity_iff:
  assumes "cm_ok cm K" "\<not> lazy_free_active cm"
  shows "check_integrity cm = Inr () \<longleftrightarrow> int (size (cm_pages cm)) = num_pages cm"
proof -
  have "cm_page_size cm = 1" "lazy_free_list cm = []" using cm_okD [OF assms(1)] assms(2) by auto
  moreover have "int (size (tree_slots (prefix_cache cm))) =
      evictable_size (prefix_cache cm) + protected_size (prefix_cache cm)"
    using tree_slots_size cm_okD(2) [OF assms(1)] by blast
  moreover have "x sdiv 1 = (x :: int)" for x by (simp add: signed_divide_int_def abs_mult_sgn mult.commute)
  ultimately show ?thesis
    by (simp add: check_integrity_def check_eq_Inr cm_pages_def total_size_def get_size_info_def)
qed

end
