(* ===== verification/Prefill.thy ===== *)
theory Prefill
  imports CacheManager
begin

text \<open>
  \<open>DecodeManager\<close> (\<^verbatim>\<open>src/scheduler/decode.cc\<close>), \<open>PrefillAdder\<close> and \<open>PrefillManager\<close>
  (\<^verbatim>\<open>src/scheduler/prefill.cc\<close>). Requests are shared: a batch, the list of running requests
  and a pending request that was cut into chunks hold references into the store \<open>req_at\<close>, and
  \<open>make_shared\<close> takes the next free reference.
\<close>

section \<open>Shared requests\<close>

record resources =
  cache :: cache_manager
  tables :: table_manager
  req_at :: "nat \<Rightarrow> req"
  next_ref :: nat

definition make_req :: "req \<Rightarrow> resources \<Rightarrow> nat \<times> resources" where
  "make_req r s = (next_ref s, s\<lparr>req_at := (req_at s)(next_ref s := r), next_ref := Suc (next_ref s)\<rparr>)"

section \<open>Running requests\<close>

record decode_manager =
  dm_page_size :: int
  running_reqs :: "nat list"

fun filter_loop ::
  "(nat \<Rightarrow> req) \<Rightarrow> nat list \<Rightarrow> nat list \<times> nat set \<Rightarrow> nat list \<times> nat set" where
  "filter_loop st [] acc = acc"
| "filter_loop st (r # rs) (merged, seen) =
     (if can_decode (st r) \<and> req_id (st r) \<notin> seen
      then filter_loop st rs (merged @ [r], insert (req_id (st r)) seen)
      else filter_loop st rs (merged, seen))"

definition filter_reqs :: "(nat \<Rightarrow> req) \<Rightarrow> nat list \<Rightarrow> decode_manager \<Rightarrow> decode_manager" where
  "filter_reqs st rs dm =
     dm\<lparr>running_reqs := fst (filter_loop st rs (filter_loop st (running_reqs dm) ([], {})))\<rparr>"

definition remove_req :: "(nat \<Rightarrow> req) \<Rightarrow> nat \<Rightarrow> decode_manager \<Rightarrow> decode_manager" where
  "remove_req st r dm =
     dm\<lparr>running_reqs := filter (\<lambda>x. req_id (st x) \<noteq> req_id (st r)) (running_reqs dm)\<rparr>"

definition dm_abort_req ::
  "(nat \<Rightarrow> req) \<Rightarrow> nat \<Rightarrow> decode_manager \<Rightarrow> nat option \<times> decode_manager" where
  "dm_abort_req st uid dm =
     (case List.extract (\<lambda>x. req_id (st x) = uid) (running_reqs dm) of
        None \<Rightarrow> (None, dm)
      | Some (before, r, after) \<Rightarrow> (Some r, dm\<lparr>running_reqs := before @ after\<rparr>))"

definition inflight_tokens :: "(nat \<Rightarrow> req) \<Rightarrow> decode_manager \<Rightarrow> int" where
  "inflight_tokens st dm =
     (dm_page_size dm - 1) * int (length (running_reqs dm)) +
     sum_list (map (\<lambda>r. remain_len (st r)) (running_reqs dm))"

definition dm_schedule_next_batch :: "decode_manager \<Rightarrow> batch option" where
  "dm_schedule_next_batch dm =
     (if running_reqs dm = [] then None
      else Some \<lparr>reqs = running_reqs dm, phase = Decode, batch_input_ids = [], positions = [],
                 out_loc = [], padded_reqs = []\<rparr>)"

definition dm_runnable :: "decode_manager \<Rightarrow> bool" where
  "dm_runnable dm = (running_reqs dm \<noteq> [])"

section \<open>Admission\<close>

record prefill_adder =
  token_budget :: int
  reserved_size :: int

definition try_allocate_one ::
  "prefill_adder \<Rightarrow> pending_req \<Rightarrow> resources \<Rightarrow> ((cache_handle \<times> int) option \<times> resources) result" where
  "try_allocate_one ad p s =
     (if tm_available_size (tables s) = 0 then Inr (None, s)
      else
        res_bind (match_req p (cache s)) (\<lambda>(h, cm1).
        let clen = int (handle_len h);
            ext = input_len p - clen;
            estimated_len = ext + p_output_len p in
        if estimated_len + reserved_size ad > available_size cm1 then Inr (None, s\<lparr>cache := cm1\<rparr>)
        else
          res_bind (cm_lock h cm1) (\<lambda>cm2.
          if estimated_len + reserved_size ad > available_size cm2 then
            res_bind (cm_unlock h cm2) (\<lambda>cm3. Inr (None, s\<lparr>cache := cm3\<rparr>))
          else
            res_bind (tm_allocate (tables s)) (\<lambda>(ti, tm1).
            res_bind
              (if clen > 0 then
                 res_bind (write_row (token_pool tm1) ti 0 clen (islice 0 clen (p_input_ids p))) (\<lambda>tp.
                 res_bind (get_matched_indices (prefix_cache cm2) h) (\<lambda>idx.
                 res_bind (write_row (page_table cm2) ti 0 clen idx) (\<lambda>pt.
                 Inr (tm1\<lparr>token_pool := tp\<rparr>, cm2\<lparr>page_table := pt\<rparr>))))
               else Inr (tm1, cm2)) (\<lambda>(tm2, cm3).
            Inr (Some (h, ti), s\<lparr>cache := cm3, tables := tm2\<rparr>))))))"

definition adder_add_one_req ::
  "prefill_adder \<Rightarrow> pending_req \<Rightarrow> cache_handle option \<Rightarrow> int \<Rightarrow> int \<Rightarrow> resources \<Rightarrow>
   (nat \<times> prefill_adder \<times> resources) result" where
  "adder_add_one_req ad p h ti clen s =
     (let remain = input_len p - clen;
          chunk_size = min (token_budget ad) remain;
          is_chunked = (chunk_size < remain);
          ad' = ad\<lparr>token_budget := token_budget ad - chunk_size,
                   reserved_size := reserved_size ad + (remain + p_output_len p)\<rparr> in
      res_bind (write_row (token_pool (tables s)) ti clen (clen + chunk_size)
          (islice clen (clen + chunk_size) (p_input_ids p))) (\<lambda>tp.
      let ids = islice 0 (clen + chunk_size) (p_input_ids p);
          r = default_req\<lparr>req_id := p_uid p, input_ids := ids, table_idx := ti,
            cached_len := clen, output_len := p_output_len p,
            sampling_params := p_sampling_params p, cache_handle := h,
            dev_len := int (length ids), max_dev_len := int (length ids) + p_output_len p,
            is_chunked_prefill := is_chunked\<rparr> in
      res_bind (validate_runtime_state r) (\<lambda>_.
      let (ref, s') = make_req r (s\<lparr>tables := (tables s)\<lparr>token_pool := tp\<rparr>\<rparr>) in
      Inr (ref, ad', s'))))"

definition try_add_one ::
  "prefill_adder \<Rightarrow> pending_req \<Rightarrow> resources \<Rightarrow> (nat option \<times> prefill_adder \<times> resources) result" where
  "try_add_one ad p s =
     (if token_budget ad \<le> 0 then Inr (None, ad, s)
      else
        (case p_chunked_req p of
           Some c \<Rightarrow>
             res_bind (adder_add_one_req ad p (cache_handle (req_at s c)) (table_idx (req_at s c))
                 (cached_len (req_at s c)) s)
               (\<lambda>(ref, ad', s'). Inr (Some ref, ad', s'))
         | None \<Rightarrow>
             res_bind (try_allocate_one ad p s) (\<lambda>(resource, s1).
             case resource of
               None \<Rightarrow> Inr (None, ad, s1)
             | Some (h, ti) \<Rightarrow>
                 res_bind (adder_add_one_req ad p (Some h) ti (int (handle_len h)) s1)
                   (\<lambda>(ref, ad', s'). Inr (Some ref, ad', s')))))"

section \<open>The queue of pending requests\<close>

record generate_request =
  g_uid :: nat
  g_input_ids :: "int list"
  g_sampling_params :: sampling_params

type_synonym prefill_manager = "pending_req list"

definition pm_add_one_req :: "generate_request \<Rightarrow> prefill_manager \<Rightarrow> prefill_manager" where
  "pm_add_one_req g pending_list =
     pending_list @ [\<lparr>p_uid = g_uid g, p_input_ids = g_input_ids g,
                      p_sampling_params = g_sampling_params g, p_chunked_req = None\<rparr>]"

fun schedule_loop ::
  "prefill_adder \<Rightarrow> pending_req list \<Rightarrow> resources \<Rightarrow> nat list \<Rightarrow> pending_req list \<Rightarrow>
   (nat list \<times> pending_req list \<times> resources) result" where
  "schedule_loop ad [] s rs chunked = Inr (rs, chunked, s)"
| "schedule_loop ad (p # ps) s rs chunked =
     res_bind (try_add_one ad p s) (\<lambda>(r, ad', s').
     case r of
       None \<Rightarrow> Inr (rs, chunked, s')
     | Some ref \<Rightarrow>
         schedule_loop ad' ps s' (rs @ [ref])
           (if is_chunked_prefill (req_at s' ref) then chunked @ [p\<lparr>p_chunked_req := Some ref\<rparr>]
            else chunked))"

definition pm_schedule_next_batch ::
  "int \<Rightarrow> decode_manager \<Rightarrow> prefill_manager \<Rightarrow> resources \<Rightarrow>
   (batch option \<times> prefill_manager \<times> resources) result" where
  "pm_schedule_next_batch prefill_budget dm pending_list s =
     (if pending_list = [] then Inr (None, pending_list, s)
      else
        (let ad = \<lparr>token_budget = prefill_budget, reserved_size = inflight_tokens (req_at s) dm\<rparr> in
         res_bind (schedule_loop ad pending_list s [] []) (\<lambda>(rs, chunked_list, s').
         if rs = [] then Inr (None, pending_list, s')
         else
           Inr (Some \<lparr>reqs = rs, phase = Prefill, batch_input_ids = [], positions = [],
                      out_loc = [], padded_reqs = []\<rparr>,
                chunked_list @ drop (length rs) pending_list, s'))))"

definition pm_abort_req :: "nat \<Rightarrow> prefill_manager \<Rightarrow> nat option \<times> prefill_manager" where
  "pm_abort_req uid pending_list =
     (case List.extract (\<lambda>p. p_uid p = uid) pending_list of
        None \<Rightarrow> (None, pending_list)
      | Some (before, p, after) \<Rightarrow> (p_chunked_req p, before @ after))"

definition pm_runnable :: "prefill_manager \<Rightarrow> bool" where
  "pm_runnable pending_list = (pending_list \<noteq> [])"

definition pending_size :: "prefill_manager \<Rightarrow> nat" where
  "pending_size pending_list = length pending_list"

end
