(* ===== verification/Engine.thy ===== *)
theory Engine
  imports Core
begin

text \<open>
  The engine of \<^verbatim>\<open>src/engine/engine.cc\<close>: the CUDA graph runner's choice of batch sizes and its
  padding, the preparation of the sampling arguments, the choice of the logits to sample from,
  and the forward step with its update of the requests.

  The network and the sampling kernels are parameters (\<open>model_fns\<close>): \<open>forward\<close> and \<open>replay\<close>
  give the rows of the logits of a batch, \<open>sample\<close> the sampled tokens. They may depend on the
  number of the call, which stands for the KV cache and the random state. Requests are given by
  references into the store \<open>st\<close>.
\<close>

section \<open>The graph runner\<close>

record graph_runner =
  enable_cuda_graph :: bool
  graph_batch_sizes :: "int list"
  max_batch_size :: int
  capture_max_seq_len :: int
  dummy_req :: nat

text \<open>The loop \<open>for (bs = 8; bs <= max; bs *= 2)\<close>.\<close>

function doubling :: "int \<Rightarrow> int \<Rightarrow> int list" where
  "doubling bs mx = (if 0 < bs \<and> bs \<le> mx then bs # doubling (2 * bs) mx else [])"
  by pat_completeness auto
termination
  by (relation "measure (\<lambda>(bs, mx). nat (mx + 1 - bs))") auto

declare doubling.simps [simp del]

definition determine_batch_sizes :: "bool \<Rightarrow> int list \<Rightarrow> int \<Rightarrow> int list" where
  "determine_batch_sizes enable batch_sizes mx =
     (if \<not> enable \<or> mx < 1 then []
      else
        (let bs1 = (if batch_sizes = [] then
                      (let d = [1, 2, 4] @ doubling 8 mx in
                       if last d \<noteq> mx then d @ [mx] else d)
                    else batch_sizes)
         in remdups_adj (filter (\<lambda>bs. \<not> (bs < 1 \<or> bs > mx)) (sort bs1))))"

definition graph_runner_init :: "bool \<Rightarrow> int list \<Rightarrow> int \<Rightarrow> int \<Rightarrow> int \<Rightarrow> nat \<Rightarrow> graph_runner" where
  "graph_runner_init enable batch_sizes mx max_seq capture_max_seq dummy =
     (let sizes = determine_batch_sizes enable batch_sizes mx in
      \<lparr>enable_cuda_graph = enable, graph_batch_sizes = sizes,
       max_batch_size = (if sizes = [] then 0 else last sizes),
       capture_max_seq_len =
         (if capture_max_seq > 0 then min capture_max_seq max_seq else max_seq),
       dummy_req = dummy\<rparr>)"

definition can_use_cuda_graph :: "(nat \<Rightarrow> req) \<Rightarrow> graph_runner \<Rightarrow> batch \<Rightarrow> bool" where
  "can_use_cuda_graph st g b =
     (if \<not> enable_cuda_graph g \<or> \<not> is_decode b \<or> graph_batch_sizes g = [] \<or>
         int (batch_size b) > max_batch_size g then False
      else list_all (\<lambda>r. device_len (st r) \<le> capture_max_seq_len g) (reqs b))"

text \<open>\<open>std::lower_bound\<close> on a sorted list: the first element that is not smaller.\<close>

definition lower_bound :: "int list \<Rightarrow> int \<Rightarrow> int option" where
  "lower_bound xs v = List.find (\<lambda>x. \<not> x < v) xs"

definition pad_batch :: "(nat \<Rightarrow> req) \<Rightarrow> graph_runner \<Rightarrow> batch \<Rightarrow> batch" where
  "pad_batch st g b =
     (if \<not> can_use_cuda_graph st g b then b\<lparr>padded_reqs := reqs b\<rparr>
      else
        (case lower_bound (graph_batch_sizes g) (int (batch_size b)) of
           None \<Rightarrow> b\<lparr>padded_reqs := reqs b\<rparr>
         | Some n \<Rightarrow>
             b\<lparr>padded_reqs := reqs b @ replicate (nat (n - int (batch_size b))) (dummy_req g)\<rparr>))"

text \<open>\<open>capture_graphs\<close> stores one graph for each of the sizes, and \<open>replay\<close> looks one up.\<close>

definition captured :: "graph_runner \<Rightarrow> int set" where
  "captured g = set (graph_batch_sizes g)"

section \<open>Sampling arguments\<close>

record sampling_args =
  temperatures :: "rat list option"
  arg_top_k :: "int list option"
  arg_top_p :: "rat list option"

definition prepare_sampling_args :: "(nat \<Rightarrow> req) \<Rightarrow> int \<Rightarrow> batch \<Rightarrow> sampling_args" where
  "prepare_sampling_args st vocab_size b =
     (let ps = map (\<lambda>r. sampling_params (st r)) (reqs b);
          temps = map (\<lambda>p. max (if is_greedy p then 0 else temperature p) kEpsilon) ps;
          top_ks = map (\<lambda>p. if top_k p \<ge> 1 then top_k p else vocab_size) ps;
          top_ps = map (\<lambda>p. min (max (top_p p) kEpsilon) 1) ps;
          all_greedy = list_all is_greedy ps;
          any_top_k = list_ex (\<lambda>k. k \<noteq> vocab_size) top_ks;
          any_top_p = list_ex (\<lambda>q. q < 1) top_ps
      in if all_greedy then \<lparr>temperatures = None, arg_top_k = None, arg_top_p = None\<rparr>
         else \<lparr>temperatures = Some temps,
               arg_top_k = (if any_top_k then Some top_ks else None),
               arg_top_p = (if any_top_p then Some top_ps else None)\<rparr>)"

section \<open>The forward step\<close>

text \<open>The indices of the last rows of the requests, counted from \<open>offset\<close>.\<close>

fun last_indices :: "(nat \<Rightarrow> req) \<Rightarrow> nat list \<Rightarrow> int \<Rightarrow> int list result" where
  "last_indices st [] offset = Inr []"
| "last_indices st (r # rs) offset =
     res_bind (check (extend_len (st r) > 0)
         (TorchCheck ''Prefill req must have positive extend_len'')) (\<lambda>_.
     res_bind (last_indices st rs (offset + extend_len (st r))) (\<lambda>is.
     Inr ((offset + extend_len (st r) - 1) # is)))"

text \<open>\<open>index_select\<close>, which refuses an index outside the rows.\<close>

definition index_select :: "'l list \<Rightarrow> int list \<Rightarrow> 'l list result" where
  "index_select rows is =
     (if list_all (\<lambda>i. 0 \<le> i \<and> i < int (length rows)) is
      then Inr (map (\<lambda>i. rows ! nat i) is) else Inl (IndexError ''index out of range in self''))"

definition select_sampling_logits :: "(nat \<Rightarrow> req) \<Rightarrow> batch \<Rightarrow> 'l list \<Rightarrow> 'l list result" where
  "select_sampling_logits st b logits =
     (if \<not> is_prefill b then Inr (take (batch_size b) logits)
      else if length logits = batch_size b then Inr logits
      else res_bind (last_indices st (reqs b) 0) (index_select logits))"

record 'l model_fns =
  m_forward :: "nat \<Rightarrow> batch \<Rightarrow> 'l list"
  m_replay :: "nat \<Rightarrow> batch \<Rightarrow> 'l list"
  m_sample :: "nat \<Rightarrow> 'l list \<Rightarrow> sampling_args \<Rightarrow> int list"

definition complete_req :: "nat \<Rightarrow> (nat \<Rightarrow> req) \<Rightarrow> (nat \<Rightarrow> req) result" where
  "complete_req r st = res_bind (complete_one (st r)) (\<lambda>q. Inr (st(r := q)))"

text \<open>
  \<open>forward_batch\<close>: the logits (from a captured graph when one fits), the rows to sample from,
  the state of the requests, the sampled tokens.
\<close>

definition forward_batch ::
  "'l model_fns \<Rightarrow> nat \<Rightarrow> graph_runner \<Rightarrow> batch \<Rightarrow> sampling_args \<Rightarrow> (nat \<Rightarrow> req) \<Rightarrow>
   (int list \<times> (nat \<Rightarrow> req)) result" where
  "forward_batch fns tick g b args st =
     res_bind
       (if can_use_cuda_graph st g b then
          res_bind (check (int (padded_size b) \<in> captured g)
              (TorchCheck ''No CUDA graph captured for batch size''))
            (\<lambda>_. Inr (take (batch_size b) (m_replay fns tick b)))
        else Inr (m_forward fns tick b)) (\<lambda>logits.
     res_bind (select_sampling_logits st b logits) (\<lambda>sampling_logits.
     res_bind (res_fold complete_req (reqs b) st) (\<lambda>st'.
     Inr (m_sample fns tick sampling_logits args, st'))))"

section \<open>The choice of the model\<close>

datatype model_kind = Qwen3MoEForCausalLM | Qwen3ForCausalLM | Qwen2ForCausalLM
  | MistralForCausalLM | LlamaForCausalLM

definition to_lower_char :: "char \<Rightarrow> char" where
  "to_lower_char c =
     (let n = of_char c :: nat in if 65 \<le> n \<and> n \<le> 90 then char_of (n + 32) else c)"

definition contains_token :: "string \<Rightarrow> string \<Rightarrow> bool" where
  "contains_token haystack needle = sublist needle haystack"

definition create_model_runner :: "string list \<Rightarrow> string \<Rightarrow> bool \<Rightarrow> model_kind" where
  "create_model_runner architectures model_type is_moe =
     (let name = map to_lower_char
            (case architectures of a # _ \<Rightarrow> a | [] \<Rightarrow> model_type) in
      if contains_token name ''qwen3moe'' \<or> (is_moe \<and> contains_token name ''qwen3'')
      then Qwen3MoEForCausalLM
      else if contains_token name ''qwen3'' then Qwen3ForCausalLM
      else if contains_token name ''qwen'' then Qwen2ForCausalLM
      else if contains_token name ''mistral'' then MistralForCausalLM
      else LlamaForCausalLM)"

section \<open>Lemmas on the graph runner\<close>

lemma doubling_ge: "x \<in> set (doubling bs mx) \<Longrightarrow> bs \<le> x \<and> x \<le> mx"
proof (induction bs mx rule: doubling.induct)
  case (1 bs mx)
  show ?case
  proof (cases "0 < bs \<and> bs \<le> mx")
    case True
    then have "x = bs \<or> x \<in> set (doubling (2 * bs) mx)"
      using 1(2) by (simp add: doubling.simps [of bs mx])
    then show ?thesis using 1(1) [OF True] True by auto
  next
    case False
    then have "doubling bs mx = []" using doubling.simps [of bs mx] by simp
    then show ?thesis using 1(2) by simp
  qed
qed

lemma sorted_remdups_strict: "sorted xs \<Longrightarrow> sorted_wrt (<) (remdups_adj (xs :: int list))"
proof (induction xs rule: remdups_adj.induct)
  case (3 x y xs)
  show ?case
  proof (cases "x = y")
    case False
    then have lt: "x < y" using 3(3) by simp
    have "y \<le> z" if "z \<in> set (remdups_adj (y # xs))" for z using that 3(3) by auto
    then have "\<forall>z\<in>set (remdups_adj (y # xs)). x < z" using lt by force
    moreover have "sorted_wrt (<) (remdups_adj (y # xs))" using 3 False by simp
    ultimately show ?thesis using False by simp
  qed (use 3 in simp)
qed simp_all

lemma batch_sizes_ok:
  assumes "sizes = determine_batch_sizes enable bs mx"
  shows "sorted_wrt (<) sizes" "n \<in> set sizes \<Longrightarrow> 1 \<le> n \<and> n \<le> mx"
proof -
  have "sorted (filter P (sort xs))" for P and xs :: "int list"
    using sorted_filter [of "\<lambda>x. x" "sort xs" P] by simp
  then show "sorted_wrt (<) sizes"
    unfolding assms determine_batch_sizes_def by (simp add: Let_def sorted_remdups_strict)
  show "n \<in> set sizes \<Longrightarrow> 1 \<le> n \<and> n \<le> mx"
    unfolding assms determine_batch_sizes_def by (auto simp: Let_def split: if_splits)
qed

text \<open>With the default sizes, the largest size is the maximal batch size.\<close>

lemma default_sizes_max:
  assumes "1 \<le> mx"
  shows "mx \<in> set (determine_batch_sizes True [] mx)"
proof -
  let ?d = "[1, 2, 4] @ doubling 8 mx"
  have "mx \<in> set (if last ?d \<noteq> mx then ?d @ [mx] else ?d)"
    using last_in_set [of ?d] by auto
  moreover have "determine_batch_sizes True [] mx =
      remdups_adj (filter (\<lambda>bs. \<not> (bs < 1 \<or> bs > mx)) (sort (if last ?d \<noteq> mx then ?d @ [mx] else ?d)))"
    using assms by (simp only: determine_batch_sizes_def Let_def) simp
  ultimately show ?thesis using assms by (simp only: remdups_adj_set set_filter set_sort) simp
qed

lemma find_first_ge:
  assumes "sorted_wrt (<) (xs :: int list)" "x \<in> set xs" "v \<le> x"
  shows "\<exists>y. List.find (\<lambda>x. \<not> x < v) xs = Some y \<and> y \<in> set xs \<and> v \<le> y \<and> (\<forall>z\<in>set xs. v \<le> z \<longrightarrow> y \<le> z)"
  using assms
proof (induction xs)
  case (Cons a xs)
  show ?case
  proof (cases "a < v")
    case True
    then have "x \<in> set xs" using Cons.prems by auto
    then obtain y where "List.find (\<lambda>x. \<not> x < v) xs = Some y" "y \<in> set xs" "v \<le> y"
      "\<forall>z\<in>set xs. v \<le> z \<longrightarrow> y \<le> z" using Cons by auto
    then show ?thesis using True by auto
  next
    case False
    then show ?thesis using Cons.prems(1) by auto
  qed
qed simp

definition graph_ok :: "graph_runner \<Rightarrow> bool" where
  "graph_ok g \<longleftrightarrow> sorted_wrt (<) (graph_batch_sizes g) \<and> (\<forall>n\<in>set (graph_batch_sizes g). 1 \<le> n) \<and>
     (graph_batch_sizes g \<noteq> [] \<longrightarrow> max_batch_size g = last (graph_batch_sizes g))"

lemma graph_runner_init_ok: "graph_ok (graph_runner_init enable sizes mx max_seq cap dummy)"
  using batch_sizes_ok(1) [OF refl, of enable sizes mx] batch_sizes_ok(2) [OF refl, of _ enable sizes mx]
  by (auto simp: graph_ok_def graph_runner_init_def Let_def)

text \<open>A batch that may use a graph is padded to the smallest captured size that holds it.\<close>

lemma pad_batch_captured:
  assumes "graph_ok g" "can_use_cuda_graph st g b"
  shows "int (padded_size (pad_batch st g b)) \<in> captured g"
    "n \<in> captured g \<Longrightarrow> int (batch_size b) \<le> n \<Longrightarrow> int (padded_size (pad_batch st g b)) \<le> n"
    "take (batch_size b) (padded_reqs (pad_batch st g b)) = reqs b"
proof -
  have ne: "graph_batch_sizes g \<noteq> []" and le: "int (batch_size b) \<le> max_batch_size g"
    using assms(2) by (auto simp: can_use_cuda_graph_def split: if_splits)
  have mx: "max_batch_size g \<in> set (graph_batch_sizes g)" using assms(1) ne by (simp add: graph_ok_def)
  obtain y where y: "lower_bound (graph_batch_sizes g) (int (batch_size b)) = Some y"
    "y \<in> set (graph_batch_sizes g)" "int (batch_size b) \<le> y"
    "\<forall>z\<in>set (graph_batch_sizes g). int (batch_size b) \<le> z \<longrightarrow> y \<le> z"
    using find_first_ge [OF _ mx le] assms(1) unfolding lower_bound_def graph_ok_def by blast
  have p: "padded_reqs (pad_batch st g b) = reqs b @ replicate (nat (y - int (batch_size b))) (dummy_req g)"
    using assms(2) y(1) by (simp add: pad_batch_def)
  then have sz: "int (padded_size (pad_batch st g b)) = y"
    using y(3) by (simp add: padded_size_def batch_size_def)
  show "int (padded_size (pad_batch st g b)) \<in> captured g" using sz y(2) by (simp add: captured_def)
  show "n \<in> captured g \<Longrightarrow> int (batch_size b) \<le> n \<Longrightarrow> int (padded_size (pad_batch st g b)) \<le> n"
    using sz y(4) by (simp add: captured_def)
  show "take (batch_size b) (padded_reqs (pad_batch st g b)) = reqs b"
    unfolding p by (simp add: batch_size_def)
qed

lemma pad_batch_fields:
  "reqs (pad_batch st g b) = reqs b" "phase (pad_batch st g b) = phase b"
  "\<exists>k. padded_reqs (pad_batch st g b) = reqs b @ replicate k (dummy_req g)"
proof -
  show "reqs (pad_batch st g b) = reqs b" "phase (pad_batch st g b) = phase b"
    by (simp_all add: pad_batch_def split: option.splits)
  show "\<exists>k. padded_reqs (pad_batch st g b) = reqs b @ replicate k (dummy_req g)"
    by (cases "can_use_cuda_graph st g b")
      (auto simp: pad_batch_def intro: exI [of _ 0] split: option.splits)
qed

section \<open>Lemmas on the forward step\<close>

lemma last_indices_ok:
  assumes "\<And>r. r \<in> set rs \<Longrightarrow> 0 < extend_len (st r)"
  shows "last_indices st rs off =
     Inr (map (\<lambda>i. off + sum_list (map (\<lambda>r. extend_len (st r)) (take (Suc i) rs)) - 1) [0..<length rs])"
  using assms
proof (induction rs arbitrary: off)
  case (Cons r rs)
  have "map (\<lambda>i. off + sum_list (map (\<lambda>r. extend_len (st r)) (take (Suc i) (r # rs))) - 1)
      [0..<length (r # rs)] =
    (off + extend_len (st r) - 1) #
    map (\<lambda>i. (off + extend_len (st r)) + sum_list (map (\<lambda>r. extend_len (st r)) (take (Suc i) rs)) - 1)
      [0..<length rs]"
    by (simp only: length_Cons upt_conv_Cons [OF zero_less_Suc] list.map)
      (simp add: map_Suc_upt [symmetric] algebra_simps del: upt_Suc)
  then show ?case using Cons by simp
qed simp

lemma complete_fold:
  assumes "distinct rs" "\<And>r. r \<in> set rs \<Longrightarrow> req_ok (st r)"
  shows "\<exists>st'. res_fold complete_req rs st = Inr st' \<and> (\<forall>r. r \<notin> set rs \<longrightarrow> st' r = st r) \<and>
     (\<forall>r\<in>set rs. complete_one (st r) = Inr (st' r))"
  using assms
proof (induction rs arbitrary: st)
  case (Cons r rs)
  obtain q where q: "complete_one (st r) = Inr q"
    using complete_one_eq [of "st r"] Cons.prems(2) by simp
  have r: "r \<notin> set rs" "distinct rs" using Cons.prems(1) by simp_all
  have ok: "req_ok ((st(r := q)) x)" if "x \<in> set rs" for x
    using that Cons.prems(2) r(1) by auto
  obtain st' where st': "res_fold complete_req rs (st(r := q)) = Inr st'"
    "\<forall>x. x \<notin> set rs \<longrightarrow> st' x = (st(r := q)) x"
    "\<forall>x\<in>set rs. complete_one ((st(r := q)) x) = Inr (st' x)"
    using Cons.IH [OF r(2), of "st(r := q)"] ok by blast
  have "complete_req r st = Inr (st(r := q))" by (simp add: complete_req_def q)
  moreover have "complete_one (st x) = Inr (st' x)" if "x \<in> set rs" for x
    using st'(3) that r(1) by (metis fun_upd_other)
  ultimately show ?case
    using st'(1,2) q r(1) by (intro exI [of _ st']) simp
qed simp

end
