(* ===== verification/Scheduler.thy ===== *)
theory Scheduler
  imports Prefill Engine
begin

text \<open>
  The scheduler of \<^verbatim>\<open>src/scheduler/scheduler.cc\<close>: submission, abortion, the preparation of a
  batch, the forward step with the write-back of the sampled tokens, the processing of the
  output, and the two ways to step: one batch at a time, or overlapped, where the next batch is
  launched before the previous output is processed and the release of resources is deferred.

  Streams and events order work on the device; the model is sequential, in the order in which
  the device executes the work. Profiling and logging are left out. \<open>forwards\<close> counts the calls
  of the network, see \<open>Engine\<close>.
\<close>

section \<open>State\<close>

record forward_input =
  fi_batch :: batch
  sample_args :: sampling_args
  input_tuple :: "int list \<times> int list"
  write_tuple :: "int list \<times> int list"

record pending_forward =
  pf_input :: forward_input
  pf_tokens :: "int list"
  can_decode_after_forward :: "bool list"

record detokenize_msg =
  msg_uid :: nat
  msg_next_token :: int
  msg_finished :: bool

record scheduler =
  max_seq_len :: int
  eos_token_id :: int
  vocab_size :: int
  enable_overlap_scheduling :: bool
  graph :: graph_runner
  prefill_budget :: int
  decode_burst_limit :: int
  decode_burst_pending_limit :: nat
  res :: resources
  decode_mgr :: decode_manager
  prefill_mgr :: prefill_manager
  decode_burst_remaining :: int
  pending_fwd :: "pending_forward option"
  suppressed_reqs :: "nat set"
  freed_reqs :: "nat set"
  deferred_free_reqs :: "nat \<Rightarrow> nat option"
  deferred_resource_actions :: "(nat \<times> bool) list"
  prepare_len :: nat
  prepare_write_len :: nat
  forwards :: nat

abbreviation req_of :: "scheduler \<Rightarrow> nat \<Rightarrow> req" where
  "req_of s \<equiv> req_at (res s)"

definition set_req :: "nat \<Rightarrow> req \<Rightarrow> scheduler \<Rightarrow> scheduler" where
  "set_req ref r s = s\<lparr>res := (res s)\<lparr>req_at := (req_at (res s))(ref := r)\<rparr>\<rparr>"

definition set_cache :: "cache_manager \<Rightarrow> scheduler \<Rightarrow> scheduler" where
  "set_cache cm s = s\<lparr>res := (res s)\<lparr>cache := cm\<rparr>\<rparr>"

section \<open>Submission\<close>

definition submit :: "generate_request \<Rightarrow> scheduler \<Rightarrow> scheduler" where
  "submit g s =
     (let max_output_len = max_seq_len s - int (length (g_input_ids g));
          sp = g_sampling_params g in
      if max_output_len \<le> 0 \<or> max_new_tokens sp \<le> 0 then s
      else
        (let g' = (if max_new_tokens sp > max_output_len
                   then g\<lparr>g_sampling_params := sp\<lparr>max_new_tokens := max_output_len\<rparr>\<rparr> else g) in
         s\<lparr>suppressed_reqs := suppressed_reqs s - {g_uid g},
           freed_reqs := freed_reqs s - {g_uid g},
           deferred_free_reqs := (deferred_free_reqs s)(g_uid g := None),
           prefill_mgr := pm_add_one_req g' (prefill_mgr s)\<rparr>))"

section \<open>Releasing resources\<close>

definition sched_cache_req :: "nat \<Rightarrow> bool \<Rightarrow> scheduler \<Rightarrow> scheduler result" where
  "sched_cache_req ref finished s =
     res_bind (cache_req (req_of s ref) finished (cache (res s))) (\<lambda>(r, cm).
       Inr (set_cache cm (set_req ref r s)))"

definition free_req_resources :: "nat \<Rightarrow> scheduler \<Rightarrow> scheduler result" where
  "free_req_resources ref s =
     (let uid = req_id (req_of s ref) in
      if uid \<in> freed_reqs s then Inr s
      else
        sched_cache_req ref True
          (s\<lparr>freed_reqs := insert uid (freed_reqs s),
             res := (res s)\<lparr>tables := tm_free (table_idx (req_of s ref)) (tables (res s))\<rparr>\<rparr>))"

definition pending_uses_req :: "nat \<Rightarrow> scheduler \<Rightarrow> bool" where
  "pending_uses_req uid s =
     (case pending_fwd s of
        None \<Rightarrow> False
      | Some pf \<Rightarrow> list_ex (\<lambda>r. req_id (req_of s r) = uid) (reqs (fi_batch (pf_input pf))))"

definition cache_req_or_defer :: "nat \<Rightarrow> bool \<Rightarrow> scheduler \<Rightarrow> scheduler result" where
  "cache_req_or_defer ref finished s =
     (if enable_overlap_scheduling s \<and> pending_fwd s \<noteq> None
      then Inr (s\<lparr>deferred_resource_actions := deferred_resource_actions s @ [(ref, finished)]\<rparr>)
      else sched_cache_req ref finished s)"

definition free_req_resources_or_defer :: "nat \<Rightarrow> scheduler \<Rightarrow> scheduler result" where
  "free_req_resources_or_defer ref s =
     (if enable_overlap_scheduling s \<and> pending_fwd s \<noteq> None
      then Inr (s\<lparr>deferred_resource_actions := deferred_resource_actions s @ [(ref, True)]\<rparr>)
      else free_req_resources ref s)"

definition release_deferred_req :: "nat \<Rightarrow> scheduler \<Rightarrow> scheduler result" where
  "release_deferred_req uid s =
     res_bind
       (case deferred_free_reqs s uid of
          Some ref \<Rightarrow>
            res_bind (free_req_resources_or_defer ref s) (\<lambda>s1.
              Inr (s1\<lparr>deferred_free_reqs := (deferred_free_reqs s1)(uid := None)\<rparr>))
        | None \<Rightarrow> Inr s)
       (\<lambda>s2. Inr (s2\<lparr>suppressed_reqs := suppressed_reqs s2 - {uid}\<rparr>))"

definition flush_action :: "nat \<times> bool \<Rightarrow> scheduler \<Rightarrow> scheduler result" where
  "flush_action a s =
     (if snd a then free_req_resources (fst a) s else sched_cache_req (fst a) False s)"

definition flush_deferred_resource_actions :: "scheduler \<Rightarrow> scheduler result" where
  "flush_deferred_resource_actions s =
     (if deferred_resource_actions s = [] then Inr s
      else res_fold flush_action (deferred_resource_actions s)
             (s\<lparr>deferred_resource_actions := []\<rparr>))"

definition abort :: "nat \<Rightarrow> scheduler \<Rightarrow> scheduler result" where
  "abort uid s =
     (let (r1, pm) = pm_abort_req uid (prefill_mgr s);
          s1 = s\<lparr>prefill_mgr := pm\<rparr>;
          (r2, s2) = (case r1 of
             Some ref \<Rightarrow> (Some ref, s1)
           | None \<Rightarrow> (let (r, dm) = dm_abort_req (req_of s1) uid (decode_mgr s1)
                     in (r, s1\<lparr>decode_mgr := dm\<rparr>)))
      in case r2 of
           None \<Rightarrow> Inr s2
         | Some ref \<Rightarrow>
             (let s3 = s2\<lparr>suppressed_reqs := insert uid (suppressed_reqs s2)\<rparr> in
              if pending_uses_req uid s3
              then Inr (s3\<lparr>deferred_free_reqs := (deferred_free_reqs s3)(uid \<mapsto> ref)\<rparr>)
              else
                res_bind (free_req_resources ref s3) (\<lambda>s4.
                Inr (s4\<lparr>suppressed_reqs := suppressed_reqs s4 - {uid}\<rparr>))))"

section \<open>Preparing a batch\<close>

definition ensure_prepare_workspace :: "int \<Rightarrow> nat \<Rightarrow> scheduler \<Rightarrow> scheduler" where
  "ensure_prepare_workspace token_count req_count s =
     (let tc = nat (max 1 token_count); rc = max 1 req_count;
          s1 = (if prepare_len s < tc then s\<lparr>prepare_len := double_until tc 1\<rparr> else s)
      in if prepare_write_len s1 < rc then s1\<lparr>prepare_write_len := double_until rc 1\<rparr> else s1)"

definition prepare_batch :: "batch \<Rightarrow> scheduler \<Rightarrow> (forward_input \<times> scheduler) result" where
  "prepare_batch b s =
     (let b1 = pad_batch (req_of s) (graph s) b in
      res_bind (allocate_paged (map (req_of s) (reqs b1)) (cache (res s))) (\<lambda>cm.
      let s1 = set_cache cm s;
          q = req_of s1;
          token_count = sum_list (map (\<lambda>r. extend_len (q r)) (padded_reqs b1));
          s2 = ensure_prepare_workspace token_count (length (reqs b1)) s1;
          pos = concat (map (\<lambda>r. [cached_len (q r)..device_len (q r) - 1]) (padded_reqs b1));
          mapping = concat (map (\<lambda>r. map (\<lambda>_. table_idx (q r))
                       [cached_len (q r)..device_len (q r) - 1]) (padded_reqs b1)) in
      res_bind (check (int (length pos) = token_count) (TorchCheck ''Prepared token count mismatch''))
        (\<lambda>_.
      let write_mapping = map (\<lambda>r. table_idx (q r)) (reqs b1);
          write_positions = map (\<lambda>r. if can_decode (q r) then device_len (q r) else -1) (reqs b1) in
      res_bind (gather_int32_2d (page_table cm) mapping pos) (\<lambda>locs.
      res_bind (gather_int32_2d (token_pool (tables (res s2))) mapping pos) (\<lambda>ids.
      let b2 = b1\<lparr>positions := pos, out_loc := locs, batch_input_ids := ids\<rparr> in
      Inr (\<lparr>fi_batch = b2, sample_args = prepare_sampling_args q (vocab_size s2) b2,
            input_tuple = (mapping, pos), write_tuple = (write_mapping, write_positions)\<rparr>, s2))))))"

section \<open>Scheduling and the forward step\<close>

definition schedule_next_batch :: "scheduler \<Rightarrow> (batch option \<times> scheduler) result" where
  "schedule_next_batch s =
     (if decode_burst_remaining s > 0 \<and> dm_runnable (decode_mgr s) \<and>
         dm_schedule_next_batch (decode_mgr s) \<noteq> None
      then Inr (dm_schedule_next_batch (decode_mgr s),
                s\<lparr>decode_burst_remaining := decode_burst_remaining s - 1\<rparr>)
      else
        res_bind (pm_schedule_next_batch (prefill_budget s) (decode_mgr s) (prefill_mgr s) (res s))
          (\<lambda>(b, pm, rs).
           let s1 = s\<lparr>prefill_mgr := pm, res := rs\<rparr> in
           case b of
             None \<Rightarrow> Inr (dm_schedule_next_batch (decode_mgr s1), s1)
           | Some bt \<Rightarrow>
               (let has_chunked_prefill = list_ex (\<lambda>r. is_chunked_prefill (req_of s1 r)) (reqs bt);
                    pending_pressure = pending_size (prefill_mgr s1) > decode_burst_pending_limit s1
                in Inr (Some bt, s1\<lparr>decode_burst_remaining :=
                     (if has_chunked_prefill \<or> pending_pressure then 0 else decode_burst_limit s1)\<rparr>))))"

definition forward :: "'l model_fns \<Rightarrow> forward_input \<Rightarrow> scheduler \<Rightarrow> (int list \<times> scheduler) result" where
  "forward fns fi s =
     res_bind (forward_batch fns (forwards s) (graph s) (fi_batch fi) (sample_args fi) (req_of s))
       (\<lambda>(tokens, st).
     let s1 = s\<lparr>res := (res s)\<lparr>req_at := st\<rparr>, forwards := Suc (forwards s)\<rparr> in
     res_bind (write_token_pool (fst (write_tuple fi)) (snd (write_tuple fi)) tokens
                 (token_pool (tables (res s1)))) (\<lambda>tp.
     let s2 = s1\<lparr>res := (res s1)\<lparr>tables := (tables (res s1))\<lparr>token_pool := tp\<rparr>\<rparr>\<rparr> in
     Inr (tokens, s2\<lparr>decode_mgr := filter_reqs (req_of s2) (reqs (fi_batch fi)) (decode_mgr s2)\<rparr>)))"

section \<open>Processing the output\<close>

definition process_one ::
  "bool \<Rightarrow> nat \<Rightarrow> int \<Rightarrow> bool option \<Rightarrow> scheduler \<Rightarrow> (detokenize_msg list \<times> scheduler) result" where
  "process_one prefill ref tok cd s =
     (let uid = req_id (req_of s ref) in
      if uid \<in> suppressed_reqs s then
        res_bind (release_deferred_req uid s) (\<lambda>s1. Inr ([], s1))
      else
        res_bind (append_host_token tok (req_of s ref)) (\<lambda>r.
        let s1 = set_req ref r s;
            can = (case cd of Some b \<Rightarrow> b | None \<Rightarrow> can_decode r);
            finished = (\<not> can \<or>
              (\<not> ignore_eos (sampling_params r) \<and> eos_token_id s1 \<ge> 0 \<and> tok = eos_token_id s1)) in
        res_bind
          (if finished then
             (let s2 = s1\<lparr>decode_mgr := remove_req (req_of s1) ref (decode_mgr s1)\<rparr> in
              if pending_uses_req uid s2
              then Inr (s2\<lparr>suppressed_reqs := insert uid (suppressed_reqs s2),
                           deferred_free_reqs := (deferred_free_reqs s2)(uid \<mapsto> ref)\<rparr>)
              else free_req_resources_or_defer ref s2)
           else if prefill \<and> \<not> pending_uses_req uid s1 then cache_req_or_defer ref False s1
           else Inr s1)
          (\<lambda>s3. Inr ([\<lparr>msg_uid = uid, msg_next_token = tok, msg_finished = finished\<rparr>], s3))))"

fun process_loop ::
  "bool \<Rightarrow> nat list \<Rightarrow> nat \<Rightarrow> int list \<Rightarrow> bool list option \<Rightarrow> detokenize_msg list \<Rightarrow> scheduler \<Rightarrow>
   (detokenize_msg list \<times> scheduler) result" where
  "process_loop prefill [] i tokens cds reply s = Inr (reply, s)"
| "process_loop prefill (ref # refs) i tokens cds reply s =
     (if is_chunked_prefill (req_of s ref) then
        process_loop prefill refs (Suc i) tokens cds reply s
      else if i \<ge> length tokens then Inl (IndexError ''next_tokens'')
      else
        res_bind (process_one prefill ref (tokens ! i) (map_option (\<lambda>cd. cd ! i) cds) s)
          (\<lambda>(msgs, s1). process_loop prefill refs (Suc i) tokens cds (reply @ msgs) s1))"

definition process_forward_output ::
  "forward_input \<Rightarrow> int list \<Rightarrow> bool list option \<Rightarrow> scheduler \<Rightarrow>
   (detokenize_msg list \<times> scheduler) result" where
  "process_forward_output fi tokens cds s =
     res_bind (lazy_free_enter (cache (res s))) (\<lambda>cm.
     res_bind (process_loop (is_prefill (fi_batch fi)) (reqs (fi_batch fi)) 0 tokens cds []
         (set_cache cm s)) (\<lambda>(reply, s1).
     Inr (reply, set_cache (lazy_free_leave (cache (res s1))) s1)))"

section \<open>Stepping\<close>

definition launch_next_forward ::
  "'l model_fns \<Rightarrow> scheduler \<Rightarrow> (pending_forward option \<times> scheduler) result" where
  "launch_next_forward fns s =
     res_bind (flush_deferred_resource_actions s) (\<lambda>s1.
     res_bind (schedule_next_batch s1) (\<lambda>(b, s2).
     case b of
       None \<Rightarrow> Inr (None, s2)
     | Some bt \<Rightarrow>
         res_bind (prepare_batch bt s2) (\<lambda>(fi, s3).
         res_bind (forward fns fi s3) (\<lambda>(tokens, s4).
         Inr (Some \<lparr>pf_input = fi, pf_tokens = tokens,
              can_decode_after_forward =
                map (\<lambda>r. can_decode (req_of s4 r)) (reqs (fi_batch fi))\<rparr>, s4)))))"

definition step_no_overlap ::
  "'l model_fns \<Rightarrow> scheduler \<Rightarrow> (detokenize_msg list \<times> scheduler) result" where
  "step_no_overlap fns s =
     res_bind (schedule_next_batch s) (\<lambda>(b, s1).
     case b of
       None \<Rightarrow> Inr ([], s1)
     | Some bt \<Rightarrow>
         res_bind (prepare_batch bt s1) (\<lambda>(fi, s2).
         res_bind (forward fns fi s2) (\<lambda>(tokens, s3).
         process_forward_output fi tokens None s3)))"

definition step_overlap ::
  "'l model_fns \<Rightarrow> scheduler \<Rightarrow> (detokenize_msg list \<times> scheduler) result" where
  "step_overlap fns s =
     (let previous = pending_fwd s; s0 = s\<lparr>pending_fwd := None\<rparr> in
      res_bind (launch_next_forward fns s0) (\<lambda>(pf, s1).
      let s2 = s1\<lparr>pending_fwd := pf\<rparr> in
      case previous of
        None \<Rightarrow> Inr ([], s2)
      | Some p \<Rightarrow>
          process_forward_output (pf_input p) (pf_tokens p) (Some (can_decode_after_forward p)) s2))"

definition step :: "'l model_fns \<Rightarrow> scheduler \<Rightarrow> (detokenize_msg list \<times> scheduler) result" where
  "step fns s = (if enable_overlap_scheduling s then step_overlap fns s else step_no_overlap fns s)"

definition has_work :: "scheduler \<Rightarrow> bool" where
  "has_work s \<longleftrightarrow> pending_fwd s \<noteq> None \<or> deferred_resource_actions s \<noteq> [] \<or>
     pm_runnable (prefill_mgr s) \<or> dm_runnable (decode_mgr s)"

text \<open>\<open>run_until_idle\<close> with at most \<open>fuel\<close> steps.\<close>

fun run_until_idle ::
  "nat \<Rightarrow> 'l model_fns \<Rightarrow> scheduler \<Rightarrow> (detokenize_msg list \<times> scheduler) result" where
  "run_until_idle 0 fns s = (if has_work s then Inl OutOfFuel else Inr ([], s))"
| "run_until_idle (Suc fuel) fns s =
     (if has_work s then
        res_bind (step fns s) (\<lambda>(msgs, s1).
        res_bind (run_until_idle fuel fns s1) (\<lambda>(rest, s2). Inr (msgs @ rest, s2)))
      else Inr ([], s))"

section \<open>The constructor\<close>

text \<open>
  \<open>dummy\<close> is the reference of the padding request of the engine, which the constructor of the
  engine has put into the store; its row of the page table is the last one.
\<close>

definition engine_page_table :: "int \<Rightarrow> int \<Rightarrow> int \<Rightarrow> table" where
  "engine_page_table max_running_req max_seq pages =
     replicate (nat max_running_req) (replicate (nat (align_ceil max_seq 32)) 0) @
     [replicate (nat (align_ceil max_seq 32)) pages]"

definition engine_dummy_req :: "int \<Rightarrow> req" where
  "engine_dummy_req max_running_req =
     default_req\<lparr>req_id := 2 ^ 64 - 1, input_ids := [0], table_idx := max_running_req,
       cached_len := 0, output_len := 1, dev_len := 1, max_dev_len := 2\<rparr>"

definition scheduler_init ::
  "int \<Rightarrow> int \<Rightarrow> int \<Rightarrow> int \<Rightarrow> int \<Rightarrow> int \<Rightarrow> bool \<Rightarrow> bool \<Rightarrow> int list \<Rightarrow> int \<Rightarrow> int \<Rightarrow>
   int \<Rightarrow> nat \<Rightarrow> (nat \<Rightarrow> int) \<Rightarrow> scheduler result" where
  "scheduler_init max_running_req pages max_seq eos vocab max_extend_tokens overlap
     cuda_graph graph_sizes graph_max_bs capture_max_seq burst burst_pending clk =
     (let pt = engine_page_table max_running_req max_seq pages in
      res_bind (cache_manager_init pages 1 pt ''radix'' 0 clk 0) (\<lambda>cm.
      Inr \<lparr>max_seq_len = max_seq, eos_token_id = eos, vocab_size = vocab,
        enable_overlap_scheduling = overlap,
        graph = graph_runner_init cuda_graph graph_sizes graph_max_bs
                  (align_ceil max_seq 32) capture_max_seq 0,
        prefill_budget = max_extend_tokens, decode_burst_limit = burst,
        decode_burst_pending_limit = burst_pending,
        res = \<lparr>cache = cm, tables = table_manager_init max_running_req pt,
               req_at = (\<lambda>_. engine_dummy_req max_running_req), next_ref = 1\<rparr>,
        decode_mgr = \<lparr>dm_page_size = 1, running_reqs = []\<rparr>, prefill_mgr = [],
        decode_burst_remaining = 0, pending_fwd = None, suppressed_reqs = {}, freed_reqs = {},
        deferred_free_reqs = (\<lambda>_. None), deferred_resource_actions = [],
        prepare_len = 0, prepare_write_len = 0, forwards = 0\<rparr>))"

end
