(* ===== verification/Ownership.thy ===== *)
theory Ownership
  imports CacheReq Scheduler
begin

text \<open>
  Who owns what. \<open>A\<close> lists the references of the active requests (running, in the batch, or cut
  into chunks) and \<open>hi r\<close> is the number of tokens of \<open>r\<close> that have a page. \<open>owns\<close> says that
  every page is free, in the prefix cache, or private to one active request, and that exactly
  the handles of the active requests are locked; \<open>X\<close> and \<open>Y\<close> are locks and pages in transit.
  \<open>tabs\<close> says the same of the rows of the request table.
\<close>

section \<open>Definitions\<close>

definition hl :: "req \<Rightarrow> nat" where
  "hl r = (case cache_handle r of None \<Rightarrow> 0 | Some h \<Rightarrow> handle_len h)"

definition key :: "req \<Rightarrow> int list" where
  "key r = take (hl r) (input_ids r)"

definition lock_keys :: "(nat \<Rightarrow> req) \<Rightarrow> nat list \<Rightarrow> int list multiset" where
  "lock_keys q A = image_mset (\<lambda>r. key (q r)) (mset A)"

definition own_pages :: "table \<Rightarrow> req \<Rightarrow> int \<Rightarrow> int multiset" where
  "own_pages t r hi = mset (row_range t r (int (hl r)) hi)"

definition private_pages :: "table \<Rightarrow> (nat \<Rightarrow> req) \<Rightarrow> nat list \<Rightarrow> (nat \<Rightarrow> int) \<Rightarrow> int multiset" where
  "private_pages t q A hi = (\<Sum>r\<in>#mset A. own_pages t (q r) (hi r))"

definition held :: "cache_manager \<Rightarrow> req \<Rightarrow> int \<Rightarrow> bool" where
  "held cm r hi \<longleftrightarrow> (\<exists>h. cache_handle r = Some h \<and> cm_handle cm h (key r)) \<and>
     hl r \<le> length (input_ids r) \<and> int (hl r) \<le> cached_len r \<and> cached_len r \<le> hi \<and>
     0 \<le> table_idx r \<and> table_idx r < int (length (page_table cm)) \<and>
     nat hi \<le> length (page_table cm ! nat (table_idx r))"

definition owns ::
  "resources \<Rightarrow> nat list \<Rightarrow> (nat \<Rightarrow> int) \<Rightarrow> int list multiset \<Rightarrow> int multiset \<Rightarrow> bool" where
  "owns rs A hi X Y \<longleftrightarrow> distinct A \<and> (\<forall>r\<in>set A. r < next_ref rs) \<and>
     cm_ok (cache rs) (lock_keys (req_at rs) A + X) \<and>
     cm_pages (cache rs) + private_pages (page_table (cache rs)) (req_at rs) A hi + Y =
       mset [0..num_pages (cache rs) - 1] \<and>
     (\<forall>r\<in>set A. held (cache rs) (req_at rs r) (hi r))"

definition shape :: "int \<Rightarrow> nat \<Rightarrow> table \<Rightarrow> bool" where
  "shape mr W t \<longleftrightarrow> int (length t) = mr + 1 \<and> (\<forall>i < length t. length (t ! i) = W)"

definition tabs :: "int \<Rightarrow> nat \<Rightarrow> resources \<Rightarrow> nat list \<Rightarrow> int list \<Rightarrow> bool" where
  "tabs mr W rs A T \<longleftrightarrow>
     mset (tm_free_slots (tables rs)) + mset (map (\<lambda>r. table_idx (req_at rs r)) A) + mset T =
       mset [0..mr - 1] \<and>
     shape mr W (page_table (cache rs)) \<and> shape mr W (token_pool (tables rs))"

section \<open>Basic facts\<close>

lemma ownsD:
  assumes "owns rs A hi X Y"
  shows "distinct A" "r \<in> set A \<Longrightarrow> r < next_ref rs"
    "cm_ok (cache rs) (lock_keys (req_at rs) A + X)"
    "cm_pages (cache rs) + private_pages (page_table (cache rs)) (req_at rs) A hi + Y =
       mset [0..num_pages (cache rs) - 1]"
    "r \<in> set A \<Longrightarrow> held (cache rs) (req_at rs r) (hi r)"
  using assms by (auto simp: owns_def)

lemma key_len: "held cm r hi \<Longrightarrow> length (key r) = hl r"
  by (auto simp: held_def key_def)

lemma hl_Some [simp]: "cache_handle r = Some h \<Longrightarrow> hl r = handle_len h"
  by (simp add: hl_def)

lemma lock_keys_simps [simp]:
  "lock_keys q [] = {#}" "lock_keys q (r # A) = add_mset (key (q r)) (lock_keys q A)"
  "lock_keys q (A @ B) = lock_keys q A + lock_keys q B"
  by (simp_all add: lock_keys_def)

lemma private_pages_simps [simp]:
  "private_pages t q [] hi = {#}"
  "private_pages t q (r # A) hi = own_pages t (q r) (hi r) + private_pages t q A hi"
  "private_pages t q (A @ B) hi = private_pages t q A hi + private_pages t q B hi"
  by (simp_all add: private_pages_def)

lemma lock_keys_remove:
  "r \<in> set A \<Longrightarrow> lock_keys q A = add_mset (key (q r)) (lock_keys q (remove1 r A))"
  by (simp add: lock_keys_def) (metis image_mset_add_mset insert_DiffM set_mset_mset)

lemma private_pages_remove:
  "r \<in> set A \<Longrightarrow> private_pages t q A hi = own_pages t (q r) (hi r) + private_pages t q (remove1 r A) hi"
  using sum_mset.insert [of "\<lambda>r. own_pages t (q r) (hi r)" r "mset (remove1 r A)"]
  unfolding private_pages_def by simp

lemma lock_keys_cong: "(\<And>r. r \<in> set A \<Longrightarrow> key (q' r) = key (q r)) \<Longrightarrow> lock_keys q' A = lock_keys q A"
  by (induction A) simp_all

lemma private_pages_cong:
  "(\<And>r. r \<in> set A \<Longrightarrow> own_pages t' (q' r) (hi' r) = own_pages t (q r) (hi r)) \<Longrightarrow>
   private_pages t' q' A hi' = private_pages t q A hi"
  by (induction A) simp_all

lemma own_pages_empty: "hi \<le> int (hl r) \<Longrightarrow> own_pages t r hi = {#}"
  by (simp add: own_pages_def row_range_def)

lemma shape_row:
  assumes "shape mr W t" "0 \<le> i" "i \<le> mr"
  shows "i < int (length t)" "length (t ! nat i) = W"
  using assms by (auto simp: shape_def)

lemma tabs_idx:
  assumes "tabs mr W rs A T"
  shows "r \<in> set A \<Longrightarrow> 0 \<le> table_idx (req_at rs r) \<and> table_idx (req_at rs r) < mr"
    "t \<in> set T \<Longrightarrow> 0 \<le> t \<and> t < mr"
    "r \<in> set A \<Longrightarrow> table_idx (req_at rs r) \<notin> set T"
    "distinct (map (\<lambda>r. table_idx (req_at rs r)) A)"
proof -
  let ?f = "\<lambda>r. table_idx (req_at rs r)"
  have eq: "mset (tm_free_slots (tables rs) @ map ?f A @ T) = mset [0..mr - 1]"
    using assms by (simp add: tabs_def ac_simps)
  then have d: "distinct (tm_free_slots (tables rs) @ map ?f A @ T)"
    using mset_eq_imp_distinct_iff by fastforce
  have s: "set (tm_free_slots (tables rs) @ map ?f A @ T) = {0..mr - 1}"
    using mset_eq_setD [OF eq] by simp
  show "r \<in> set A \<Longrightarrow> 0 \<le> ?f r \<and> ?f r < mr" "t \<in> set T \<Longrightarrow> 0 \<le> t \<and> t < mr"
    using s by auto
  show "r \<in> set A \<Longrightarrow> ?f r \<notin> set T" "distinct (map ?f A)" using d by auto
qed

text \<open>Taking one request out of the accounts, and putting one in.\<close>

lemma owns_take:
  assumes "owns rs A hi X Y" "r \<in> set A"
  shows "owns rs (remove1 r A) hi (add_mset (key (req_at rs r)) X)
     (own_pages (page_table (cache rs)) (req_at rs r) (hi r) + Y)"
  using assms unfolding owns_def
  by (auto simp: lock_keys_remove [OF assms(2)] private_pages_remove [OF assms(2)] ac_simps
      dest: notin_set_remove1 in_set_remove1 set_remove1_subset [THEN subsetD])

lemma owns_put:
  assumes "owns rs A hi (add_mset (key (req_at rs r)) X)
      (own_pages (page_table (cache rs)) (req_at rs r) (hi r) + Y)"
    and "r \<notin> set A" "r < next_ref rs" "held (cache rs) (req_at rs r) (hi r)"
  shows "owns rs (A @ [r]) hi X Y"
  using assms unfolding owns_def by (auto simp: ac_simps)

lemma owns_perm:
  assumes "owns rs A hi X Y" "mset B = mset A"
  shows "owns rs B hi X Y"
proof -
  have "lock_keys q B = lock_keys q A" "private_pages t q B hi = private_pages t q A hi" for q t
    by (simp_all add: lock_keys_def private_pages_def assms(2))
  moreover have "distinct B" "set B = set A"
    using assms ownsD(1) mset_eq_imp_distinct_iff mset_eq_setD by blast+
  ultimately show ?thesis using assms(1) unfolding owns_def by simp
qed

lemma tabs_perm:
  assumes "tabs mr W rs A T" "mset B = mset A"
  shows "tabs mr W rs B T"
  using assms unfolding tabs_def by simp

lemma tabs_take:
  assumes "tabs mr W rs A T" "r \<in> set A"
  shows "tabs mr W rs (remove1 r A) (table_idx (req_at rs r) # T)"
proof -
  have "mset A = add_mset r (mset (remove1 r A))" using assms(2) by simp
  then have "mset (map (\<lambda>r. table_idx (req_at rs r)) A) =
      add_mset (table_idx (req_at rs r)) (mset (map (\<lambda>r. table_idx (req_at rs r)) (remove1 r A)))"
    by (metis image_mset_add_mset mset_map)
  then show ?thesis using assms(1) unfolding tabs_def by (simp del: mset_map)
qed

lemma tabs_put: "tabs mr W rs A (table_idx (req_at rs r) # T) \<Longrightarrow> tabs mr W rs (A @ [r]) T"
  by (simp add: tabs_def)

text \<open>The accounts depend on the requests of the list only.\<close>

lemma held_cong:
  assumes "held cm r hi" "key r' = key r" "cache_handle r' = cache_handle r"
    "length (input_ids r) \<le> length (input_ids r')" "table_idx r' = table_idx r"
    "int (hl r) \<le> cached_len r'" "cached_len r' \<le> hi"
  shows "held cm r' hi"
  using assms unfolding held_def by (auto simp: hl_def)

lemma owns_cong:
  assumes "owns rs A hi X Y" and c: "cache rs' = cache rs" and n: "next_ref rs \<le> next_ref rs'"
    and q: "\<And>r. r \<in> set A \<Longrightarrow> key (req_at rs' r) = key (req_at rs r) \<and>
      cache_handle (req_at rs' r) = cache_handle (req_at rs r) \<and>
      length (input_ids (req_at rs r)) \<le> length (input_ids (req_at rs' r)) \<and>
      table_idx (req_at rs' r) = table_idx (req_at rs r) \<and> hi' r = hi r \<and>
      int (hl (req_at rs r)) \<le> cached_len (req_at rs' r) \<and> cached_len (req_at rs' r) \<le> hi r"
  shows "owns rs' A hi' X Y"
proof -
  have "lock_keys (req_at rs') A = lock_keys (req_at rs) A" using q by (intro lock_keys_cong) simp
  moreover have "private_pages (page_table (cache rs)) (req_at rs') A hi' =
      private_pages (page_table (cache rs)) (req_at rs) A hi"
    using q by (intro private_pages_cong) (simp add: own_pages_def row_range_def hl_def)
  moreover have "held (cache rs) (req_at rs' r) (hi' r)" if "r \<in> set A" for r
    using held_cong [OF ownsD(5) [OF assms(1) that]] q [OF that] by simp
  moreover have "r < next_ref rs'" if "r \<in> set A" for r
    using ownsD(2) [OF assms(1) that] n by simp
  ultimately show ?thesis using assms(1) c unfolding owns_def by simp
qed

end
