(* ===== verification/Admission.thy ===== *)
theory Admission
  imports Ownership
begin

text \<open>
  Admission (\<open>PrefillAdder\<close>, \<open>PrefillManager::schedule_next_batch\<close>): it never throws, admits
  a request only when the pages for its whole life are available next to what is reserved,
  never exceeds the token budget, and keeps the accounts of \<open>Ownership\<close>.
\<close>

section \<open>Changing the cache manager under the accounts\<close>

lemma owns_cache:
  assumes "owns rs A hi X Y"
    and "cm_ok cm (lock_keys (req_at rs) A + X')" "cm_pages cm + Y' = cm_pages (cache rs) + Y"
    and "page_table cm = page_table (cache rs)" "num_pages cm = num_pages (cache rs)"
    and "\<And>h r. r \<in> set A \<Longrightarrow> cm_handle (cache rs) h (key (req_at rs r)) \<Longrightarrow> cm_handle cm h (key (req_at rs r))"
    and "req_at rs' = req_at rs" "next_ref rs' = next_ref rs" "cache rs' = cm"
  shows "owns rs' A hi X' Y'"
proof -
  have "held cm (req_at rs r) (hi r)" if "r \<in> set A" for r
    using ownsD(5) [OF assms(1) that] assms(4) assms(6) [OF that] unfolding held_def by auto
  moreover have "cm_pages cm + private_pages (page_table (cache rs)) (req_at rs) A hi + Y' =
      mset [0..num_pages (cache rs) - 1]"
    using ownsD(4) [OF assms(1)] assms(3)
    by (metis (no_types, lifting) union_assoc union_commute)
  ultimately show ?thesis
    using assms unfolding owns_def by simp
qed

lemma owns_page_table:
  assumes "owns rs A hi X Y" and "length t = length (page_table (cache rs))"
    and "\<And>r. r \<in> set A \<Longrightarrow> t ! nat (table_idx (req_at rs r)) = page_table (cache rs) ! nat (table_idx (req_at rs r))"
    and "req_at rs' = req_at rs" "next_ref rs' = next_ref rs" "cache rs' = (cache rs)\<lparr>page_table := t\<rparr>"
  shows "owns rs' A hi X Y"
proof -
  have "private_pages t (req_at rs) A hi = private_pages (page_table (cache rs)) (req_at rs) A hi"
    using assms(3) by (intro private_pages_cong) (simp add: own_pages_def row_range_def)
  moreover have "held ((cache rs)\<lparr>page_table := t\<rparr>) (req_at rs r) (hi r)" if "r \<in> set A" for r
    using ownsD(5) [OF assms(1) that] assms(2) assms(3) [OF that] by (simp add: held_def)
  moreover have "cm_pages ((cache rs)\<lparr>page_table := t\<rparr>) = cm_pages (cache rs)"
    "cm_ok ((cache rs)\<lparr>page_table := t\<rparr>) K = cm_ok (cache rs) K" for K
    by (simp_all add: cm_pages_def cm_ok_def)
  ultimately show ?thesis using assms unfolding owns_def by simp
qed

lemma shape_update:
  assumes "shape mr W t" "length row = W"
  shows "shape mr W (t[i := row])"
proof -
  have "length (t[i := row] ! j) = W" if "j < length t" for j
    using assms that by (cases "j = i") (simp_all add: shape_def)
  then show ?thesis using assms by (simp add: shape_def)
qed

lemma tabs_res:
  assumes "tabs mr W rs A T" "tm_free_slots (tables rs') = tm_free_slots (tables rs)"
    "\<And>r. r \<in> set A \<Longrightarrow> table_idx (req_at rs' r) = table_idx (req_at rs r)"
    "shape mr W (page_table (cache rs'))" "shape mr W (token_pool (tables rs'))"
  shows "tabs mr W rs' A T"
proof -
  have "map (\<lambda>r. table_idx (req_at rs' r)) A = map (\<lambda>r. table_idx (req_at rs r)) A"
    using assms(3) by simp
  then have "mset (map (\<lambda>r. table_idx (req_at rs' r)) A) = mset (map (\<lambda>r. table_idx (req_at rs r)) A)"
    by (simp only:)
  then show ?thesis using assms unfolding tabs_def by (simp only:)
qed

lemma tm_allocate_ok:
  assumes "tabs mr W rs A T" "tm_free_slots (tables rs) \<noteq> []"
  shows "\<exists>ti tm. tm_allocate (tables rs) = Inr (ti, tm) \<and> tabs mr W (rs\<lparr>tables := tm\<rparr>) A (ti # T) \<and>
     token_pool tm = token_pool (tables rs)"
proof -
  have "mset (tm_free_slots (tables rs)) =
      add_mset (last (tm_free_slots (tables rs))) (mset (butlast (tm_free_slots (tables rs))))"
    using append_butlast_last_id [OF assms(2)] by (metis mset_append mset_single_iff_right union_mset_add_mset_right
        add.right_neutral mset.simps)
  then show ?thesis using assms by (simp add: tm_allocate_def tabs_def)
qed

section \<open>Allocating for one request\<close>

definition alloc_none ::
  "int \<Rightarrow> nat \<Rightarrow> prefill_adder \<Rightarrow> pending_req \<Rightarrow> resources \<Rightarrow> nat list \<Rightarrow> (nat \<Rightarrow> int) \<Rightarrow> resources \<Rightarrow> bool" where
  "alloc_none mr W ad p rs A hi rs' \<longleftrightarrow>
     owns rs' A hi {#} {#} \<and> tabs mr W rs' A [] \<and>
     available_size (cache rs') = available_size (cache rs) \<and>
     (tm_free_slots (tables rs) = [] \<or>
      input_len p + p_output_len p + reserved_size ad > available_size (cache rs))"

definition alloc_some ::
  "int \<Rightarrow> nat \<Rightarrow> prefill_adder \<Rightarrow> pending_req \<Rightarrow> nat list \<Rightarrow> (nat \<Rightarrow> int) \<Rightarrow> cache_handle \<Rightarrow> int \<Rightarrow> resources \<Rightarrow> bool" where
  "alloc_some mr W ad p A hi h ti rs' \<longleftrightarrow>
     owns rs' A hi {#take (handle_len h) (p_input_ids p)#} {#} \<and> tabs mr W rs' A [ti] \<and>
     cm_handle (cache rs') h (take (handle_len h) (p_input_ids p)) \<and>
     int (handle_len h) < input_len p \<and>
     input_len p - int (handle_len h) + p_output_len p + reserved_size ad \<le> available_size (cache rs')"

definition same_reqs :: "resources \<Rightarrow> resources \<Rightarrow> bool" where
  "same_reqs rs rs' \<longleftrightarrow> req_at rs' = req_at rs \<and> next_ref rs' = next_ref rs \<and>
     lazy_free_active (cache rs') = lazy_free_active (cache rs) \<and>
     num_pages (cache rs') = num_pages (cache rs)"

lemma cm_ok_cache:
  assumes "cm_ok cm K" "radix_ok pc K'"
  shows "cm_ok (cm\<lparr>prefix_cache := pc\<rparr>) K'"
  using assms by (simp add: cm_ok_def)

lemma try_allocate_one_ok:
  assumes own: "owns rs A hi {#} {#}" and tb: "tabs mr W rs A []"
    and lz: "\<not> lazy_free_active (cache rs)" and len: "0 < input_len p" "input_len p \<le> int W"
  shows "\<exists>out rs'. try_allocate_one ad p rs = Inr (out, rs') \<and> same_reqs rs rs' \<and>
     (case out of None \<Rightarrow> alloc_none mr W ad p rs A hi rs'
      | Some (h, ti) \<Rightarrow> alloc_some mr W ad p A hi h ti rs')"
proof (cases "tm_free_slots (tables rs) = []")
  case True
  then show ?thesis
    using own tb by (simp add: try_allocate_one_def tm_available_size_def same_reqs_def alloc_none_def)
next
  case False
  let ?cm = "cache rs" let ?K = "lock_keys (req_at rs) A" let ?ids = "p_input_ids p"
  have ok: "cm_ok ?cm ?K" using ownsD(3) [OF own] by simp
  note ps = cm_okD(1) [OF ok] and rx = cm_okD(2) [OF ok]
  let ?m = "take (nat (input_len p - 1)) ?ids"
  obtain h c1 c2 where m: "match_prefix ?m (prefix_cache ?cm) = Inr (h, c1)" "lock_handle h False c1 = Inr c2"
    "lock_handle h True c2 = Inr c1" "radix_ok c1 ?K" "radix_ok c2 (add_mset (take (handle_len h) ?m) ?K)"
    "handle_at c2 h (take (handle_len h) ?m)" "handle_len h \<le> length ?m"
    "tree_slots c1 = tree_slots (prefix_cache ?cm)" "tree_slots c2 = tree_slots (prefix_cache ?cm)"
    "evictable_size c1 = evictable_size (prefix_cache ?cm)"
    "evictable_size (prefix_cache ?cm) - int (handle_len h) \<le> evictable_size c2"
    "\<forall>h' ks. handle_at (prefix_cache ?cm) h' ks \<longrightarrow> handle_at c2 h' ks \<and> handle_at c1 h' ks"
    using radix.match_lock [OF rx, of ?m] by blast
  have "length ?m \<le> nat (input_len p - 1)" by simp
  then have hlen: "int (handle_len h) < input_len p" using m(7) len(1) by linarith
  then have tk: "take (handle_len h) ?m = take (handle_len h) ?ids"
    by (simp add: input_len_def min_absorb1)
  let ?cm1 = "?cm\<lparr>prefix_cache := c1\<rparr>" let ?cm2 = "?cm\<lparr>prefix_cache := c2\<rparr>"
  have mr: "match_req p ?cm = Inr (h, ?cm1)"
    using len(1) m(1) by (simp add: match_req_def islice_nonneg)
  have lk: "cm_lock h ?cm1 = Inr ?cm2" "cm_unlock h ?cm2 = Inr ?cm1"
    by (simp_all add: cm_lock_def cm_unlock_def m(2,3))
  have av1: "available_size ?cm1 = available_size ?cm"
    using m(10) by (simp add: available_size_def get_size_info_def)
  have av2: "available_size ?cm - int (handle_len h) \<le> available_size ?cm2"
    using m(11) by (simp add: available_size_def get_size_info_def)
  let ?est = "input_len p - int (handle_len h) + p_output_len p"
  have own1: "owns (rs\<lparr>cache := ?cm1\<rparr>) A hi {#} {#}"
    by (rule owns_cache [OF own cm_ok_cache [OF ok]])
      (use m(4,8,12) in \<open>auto simp: cm_pages_def\<close>)
  have tb1: "tabs mr W (rs\<lparr>cache := ?cm1\<rparr>) A []" using tb by (simp add: tabs_def)
  show ?thesis
  proof (cases "?est + reserved_size ad > available_size ?cm1")
    case True
    then have "try_allocate_one ad p rs = Inr (None, rs\<lparr>cache := ?cm1\<rparr>)"
      using False mr by (simp add: try_allocate_one_def tm_available_size_def Let_def)
    then show ?thesis
      using own1 tb1 av1 True by (simp add: same_reqs_def alloc_none_def)
  next
    case fits: False
    show ?thesis
    proof (cases "?est + reserved_size ad > available_size ?cm2")
      case True
      then have "try_allocate_one ad p rs = Inr (None, rs\<lparr>cache := ?cm1\<rparr>)"
        using False fits mr lk by (simp add: try_allocate_one_def tm_available_size_def Let_def)
      then show ?thesis
        using own1 tb1 av1 av2 True by (simp add: same_reqs_def alloc_none_def)
    next
      case fits2: False
      let ?rs2 = "rs\<lparr>cache := ?cm2\<rparr>"
      have own2: "owns ?rs2 A hi {#take (handle_len h) ?ids#} {#}"
        by (rule owns_cache [OF own cm_ok_cache [OF ok]])
          (use m(5,9,12) tk in \<open>auto simp: cm_pages_def\<close>)
      have tb2: "tabs mr W ?rs2 A []" using tb by (simp add: tabs_def)
      obtain ti tm where tm: "tm_allocate (tables rs) = Inr (ti, tm)"
        "tabs mr W (?rs2\<lparr>tables := tm\<rparr>) A [ti]" "token_pool tm = token_pool (tables rs)"
        using tm_allocate_ok [OF tb2] False by auto
      have ti: "0 \<le> ti" "ti < mr" "\<And>r. r \<in> set A \<Longrightarrow> table_idx (req_at rs r) \<noteq> ti"
        using tabs_idx(2,3) [OF tm(2)] by auto
      have nn: "nat ti \<noteq> nat (table_idx (req_at rs r))" if "r \<in> set A" for r
        using ti(3) [OF that] ti(1) tabs_idx(1) [OF tm(2)] that by (simp add: nat_eq_iff2)
      have sh: "shape mr W (page_table ?cm)" "shape mr W (token_pool tm)"
        using tb tm(3) by (simp_all add: tabs_def)
      note r1 = shape_row [OF sh(1) ti(1)] and r2 = shape_row [OF sh(2) ti(1)]
      let ?n = "handle_len h"
      have nW: "?n \<le> W" using hlen len(2) by simp
      have hat: "handle_at c2 h (take ?n ?ids)" using m(6) tk by simp
      have av: "?est + reserved_size ad \<le> available_size ?cm2" using fits2 by simp
      show ?thesis
      proof (cases "?n = 0")
        case True
        then have "try_allocate_one ad p rs = Inr (Some (h, ti), ?rs2\<lparr>tables := tm\<rparr>)"
          using False fits fits2 mr lk tm(1) by (simp add: try_allocate_one_def tm_available_size_def Let_def)
        moreover have "owns (?rs2\<lparr>tables := tm\<rparr>) A hi {#take ?n ?ids#} {#}"
          using own2 by (simp add: owns_def)
        ultimately show ?thesis
          using tm(2) hat hlen av by (simp add: same_reqs_def alloc_some_def)
      next
        case pos: False
        obtain vs where vs: "get_matched_indices c2 h = Inr vs" "length vs = length (take ?n ?ids)"
          using get_matched_indices_ok [OF m(5) m(6)] unfolding tk by blast
        have lens: "length (take ?n ?ids) = ?n" using hlen by (simp add: input_len_def)
        obtain tp where tp: "write_row (token_pool tm) ti 0 (int ?n) (islice 0 (int ?n) ?ids) = Inr tp"
          "shape mr W tp"
        proof
          show "write_row (token_pool tm) ti 0 (int ?n) (islice 0 (int ?n) ?ids) =
              Inr ((token_pool tm)[nat ti := take ?n ?ids @ drop ?n (token_pool tm ! nat ti)])"
            using nth_write_row [of ti "token_pool tm" 0 "int ?n" "take ?n ?ids"] ti r2 nW lens
            by (simp add: islice_nonneg)
          show "shape mr W ((token_pool tm)[nat ti := take ?n ?ids @ drop ?n (token_pool tm ! nat ti)])"
            using sh(2) r2(2) ti(2) nW lens by (intro shape_update) simp_all
        qed
        let ?pt = "(page_table ?cm)[nat ti := vs @ drop ?n (page_table ?cm ! nat ti)]"
        have pt: "write_row (page_table ?cm2) ti 0 (int ?n) vs = Inr ?pt" "shape mr W ?pt"
        proof -
          show "write_row (page_table ?cm2) ti 0 (int ?n) vs = Inr ?pt"
            using nth_write_row [of ti "page_table ?cm" 0 "int ?n" vs] ti r1 nW lens vs(2) by simp
          show "shape mr W ?pt"
            using sh(1) r1(2) ti(2) nW lens vs(2) by (intro shape_update) simp_all
        qed
        let ?rs' = "rs\<lparr>cache := ?cm2\<lparr>page_table := ?pt\<rparr>, tables := tm\<lparr>token_pool := tp\<rparr>\<rparr>"
        have "try_allocate_one ad p rs = Inr (Some (h, ti), ?rs')"
          using False fits fits2 mr lk tm(1) pos tp(1) pt(1) vs(1)
          by (simp add: try_allocate_one_def tm_available_size_def Let_def)
        moreover have "owns ?rs' A hi {#take ?n ?ids#} {#}"
          by (rule owns_page_table [OF own2, where t = ?pt]) (use nn in auto)
        moreover have "tabs mr W ?rs' A [ti]"
          using tm(2) tp(2) pt(2) by (simp add: tabs_def)
        moreover have "available_size (cache ?rs') = available_size ?cm2"
          by (simp add: available_size_def)
        ultimately show ?thesis
          using hat hlen av by (simp add: same_reqs_def alloc_some_def)
      qed
    qed
  qed
qed

end
