(* ===== verification/PrefillBatch.thy ===== *)
theory PrefillBatch
  imports Admission
begin

text \<open>
  The batch that \<open>PrefillManager::schedule_next_batch\<close> builds: what each admitted request looks
  like, the token budget, the reservation, and the pending requests that are left.
\<close>

section \<open>Admitted requests\<close>

definition admitted :: "pending_req \<Rightarrow> req \<Rightarrow> bool" where
  "admitted p r \<longleftrightarrow> req_id r = p_uid p \<and> 0 \<le> cached_len r \<and> cached_len r < dev_len r \<and>
     dev_len r \<le> input_len p \<and> input_ids r = take (nat (dev_len r)) (p_input_ids p) \<and>
     max_dev_len r = dev_len r + p_output_len p \<and> 0 < p_output_len p \<and>
     is_chunked_prefill r = (dev_len r < input_len p) \<and>
     sampling_params r = p_sampling_params p \<and> output_len r = p_output_len p"

definition need :: "pending_req \<Rightarrow> req \<Rightarrow> int" where
  "need p r = input_len p - cached_len r + p_output_len p"

definition pend_ok :: "nat \<Rightarrow> pending_req \<Rightarrow> bool" where
  "pend_ok W p \<longleftrightarrow> 0 < input_len p \<and> 0 < p_output_len p \<and> input_len p + p_output_len p \<le> int W"

lemma admitted_ok:
  assumes "admitted p r"
  shows "req_ok r" "device_len r = dev_len r" "extend_len r = dev_len r - cached_len r"
    "0 < extend_len r" "extend_len r \<le> need p r" "length (input_ids r) = nat (dev_len r)"
proof -
  have len: "length (input_ids r) = nat (dev_len r)"
    using assms by (auto simp: admitted_def input_len_def)
  then show "length (input_ids r) = nat (dev_len r)" .
  show "req_ok r" using assms len by (simp add: admitted_def req_ok_def)
  from req_ok_lens [OF this] show "device_len r = dev_len r" "extend_len r = dev_len r - cached_len r"
    by simp_all
  then show "0 < extend_len r" "extend_len r \<le> need p r" using assms by (simp_all add: admitted_def need_def)
qed

text \<open>A new request enters the accounts with the handle, the row and the pages it continues.\<close>

lemma add_one_req_ok:
  assumes own: "owns rs A hi {#take (handle_len h) (p_input_ids p)#} Y" and tb: "tabs mr W rs A [ti]"
    and h: "cm_handle (cache rs) h (take (handle_len h) (p_input_ids p))" "int (handle_len h) \<le> clen"
    and clen: "clen < input_len p" and p: "pend_ok W p" and bud: "0 < token_budget ad"
    and Y: "Y = mset (tslice (handle_len h) (nat clen) (page_table (cache rs) ! nat ti))"
  shows "\<exists>ref ad' rs'. adder_add_one_req ad p (Some h) ti clen rs = Inr (ref, ad', rs') \<and>
     ref = next_ref rs \<and> next_ref rs' = Suc (next_ref rs) \<and> cache rs' = cache rs \<and>
     (\<forall>x. x \<noteq> ref \<longrightarrow> req_at rs' x = req_at rs x) \<and>
     admitted p (req_at rs' ref) \<and> cached_len (req_at rs' ref) = clen \<and>
     cache_handle (req_at rs' ref) = Some h \<and> table_idx (req_at rs' ref) = ti \<and>
     extend_len (req_at rs' ref) = min (token_budget ad) (input_len p - clen) \<and>
     token_budget ad' = token_budget ad - extend_len (req_at rs' ref) \<and>
     reserved_size ad' = reserved_size ad + need p (req_at rs' ref) \<and>
     owns rs' (A @ [ref]) (hi(ref := clen)) {#} {#} \<and> tabs mr W rs' (A @ [ref]) []"
proof -
  let ?ids = "p_input_ids p" let ?ref = "next_ref rs"
  define chunk where "chunk = min (token_budget ad) (input_len p - clen)"
  define dev where "dev = clen + chunk"
  have c0: "0 \<le> clen" using h(2) by simp
  have ch: "0 < chunk" "dev \<le> input_len p" "clen < dev" "chunk \<le> input_len p - clen"
    using bud clen by (auto simp: chunk_def dev_def)
  then have dv0: "0 \<le> dev" "nat clen \<le> nat dev" "nat dev \<le> length ?ids" "int (nat dev) = dev"
    using c0 by (simp_all add: input_len_def)
  have ti: "0 \<le> ti" "ti < mr" using tabs_idx(2) [OF tb] by auto
  have W: "input_len p \<le> int W" using p by (simp add: pend_ok_def)
  have sh: "shape mr W (page_table (cache rs))" "shape mr W (token_pool (tables rs))"
    using tb by (simp_all add: tabs_def)
  note r1 = shape_row [OF sh(1) ti(1)] and r2 = shape_row [OF sh(2) ti(1)]
  have sl: "islice clen dev ?ids = tslice (nat clen) (nat dev) ?ids" "islice 0 dev ?ids = take (nat dev) ?ids"
    using c0 dv0(1) by (simp_all add: islice_nonneg)
  have slen: "length (tslice (nat clen) (nat dev) ?ids) = nat dev - nat clen"
    using dv0(3) by simp
  have dW: "nat dev \<le> W" using ch(2) W by linarith
  let ?row = "token_pool (tables rs) ! nat ti"
  let ?tp = "(token_pool (tables rs))[nat ti := take (nat clen) ?row @ tslice (nat clen) (nat dev) ?ids @ drop (nat dev) ?row]"
  have tp: "write_row (token_pool (tables rs)) ti clen dev (islice clen dev ?ids) = Inr ?tp"
    unfolding sl(1)
    using nth_write_row [of ti "token_pool (tables rs)" clen dev "tslice (nat clen) (nat dev) ?ids"]
      ti r2 c0 ch(3) dW slen by simp
  have tps: "shape mr W ?tp"
    using sh(2) r2(2) ti(2) dW slen dv0(2) by (intro shape_update) simp_all
  let ?r = "default_req\<lparr>req_id := p_uid p, input_ids := take (nat dev) ?ids, table_idx := ti,
      cached_len := clen, output_len := p_output_len p,
      sampling_params := p_sampling_params p, cache_handle := Some h,
      dev_len := int (length (take (nat dev) ?ids)),
      max_dev_len := int (length (take (nat dev) ?ids)) + p_output_len p,
      is_chunked_prefill := chunk < input_len p - clen\<rparr>"
  have dlen: "int (length (take (nat dev) ?ids)) = dev"
    using dv0(1,3) by (simp add: min_absorb1)
  have adm: "admitted p ?r"
    using p c0 ch dv0 dlen unfolding admitted_def pend_ok_def by (simp add: dev_def) linarith
  then have rok: "req_ok ?r" by (rule admitted_ok(1))
  have "dev_len ?r = dev" by (simp add: dlen del: length_take)
  then have ext: "extend_len ?r = chunk"
    using admitted_ok(3) [OF adm] by (simp add: dev_def del: length_take)
  let ?rs' = "rs\<lparr>tables := (tables rs)\<lparr>token_pool := ?tp\<rparr>, req_at := (req_at rs)(?ref := ?r), next_ref := Suc ?ref\<rparr>"
  let ?ad' = "ad\<lparr>token_budget := token_budget ad - chunk,
      reserved_size := reserved_size ad + (input_len p - clen + p_output_len p)\<rparr>"
  have "validate_runtime_state ?r = Inr ()" using rok validate_iff by blast
  then have res: "adder_add_one_req ad p (Some h) ti clen rs = Inr (?ref, ?ad', ?rs')"
    unfolding adder_add_one_req_def Let_def chunk_def [symmetric] dev_def [symmetric] sl(2) tp
    by (simp add: make_req_def Let_def)
  have fresh: "?ref \<notin> set A" using ownsD(2) [OF own] by auto
  have key: "key ?r = take (handle_len h) ?ids" "hl ?r = handle_len h"
  proof -
    show "hl ?r = handle_len h" by (simp add: hl_def)
    have "handle_len h \<le> nat dev" using h(2) ch(3) by linarith
    then show "key ?r = take (handle_len h) ?ids" by (simp add: key_def hl_def min_absorb1)
  qed
  have own2: "owns ?rs' A (hi(?ref := clen)) {#take (handle_len h) ?ids#} Y"
  proof (rule owns_cong [OF own])
    show "key (req_at ?rs' x) = key (req_at rs x) \<and>
        cache_handle (req_at ?rs' x) = cache_handle (req_at rs x) \<and>
        length (input_ids (req_at rs x)) \<le> length (input_ids (req_at ?rs' x)) \<and>
        table_idx (req_at ?rs' x) = table_idx (req_at rs x) \<and> (hi(?ref := clen)) x = hi x \<and>
        int (hl (req_at rs x)) \<le> cached_len (req_at ?rs' x) \<and> cached_len (req_at ?rs' x) \<le> hi x"
      if "x \<in> set A" for x
      using that fresh ownsD(5) [OF own that] by (auto simp: held_def)
  qed simp_all
  have "owns ?rs' (A @ [?ref]) (hi(?ref := clen)) {#} {#}"
  proof (rule owns_put)
    have "own_pages (page_table (cache ?rs')) ?r clen = Y"
      unfolding Y own_pages_def row_range_def key(2) by simp
    then show "owns ?rs' A (hi(?ref := clen)) (add_mset (key (req_at ?rs' ?ref)) {#})
        (own_pages (page_table (cache ?rs')) (req_at ?rs' ?ref) ((hi(?ref := clen)) ?ref) + {#})"
      using own2 key(1) by simp
    have "held (cache rs) ?r clen"
      unfolding held_def
      using h(1,2) key clen W ti r1 ch dlen by (auto simp: hl_def)
    then show "held (cache ?rs') (req_at ?rs' ?ref) ((hi(?ref := clen)) ?ref)" by simp
  qed (use fresh in simp_all)
  moreover have "tabs mr W ?rs' (A @ [?ref]) []"
  proof (rule tabs_put)
    show "tabs mr W ?rs' A [table_idx (req_at ?rs' ?ref)]"
      by (rule tabs_res [where rs' = ?rs' and T = "[table_idx (req_at ?rs' ?ref)]"])
        (use tb fresh tps in \<open>auto simp: tabs_def\<close>)
  qed
  ultimately show ?thesis
    using res adm ext by (intro exI [of _ ?ref] exI [of _ ?ad'] exI [of _ ?rs'])
      (simp add: need_def del: length_take, simp add: chunk_def)
qed

end
