(* ===== verification/CacheProps.thy ===== *)
theory CacheProps
  imports CacheInterface
begin

text \<open>
  What the prefix cache guarantees to the scheduler: matching, insertion, reading back, locking,
  eviction and the two counters, for every reachable state.
\<close>

section \<open>A concrete cache for the witnesses\<close>

definition demo_empty :: radix_cache where
  "demo_empty = radix_cache_init 1 0 (\<lambda>t. int t + 5) 0"

definition demo_cache :: radix_cache where
  "demo_cache = (case insert_prefix [1, 2, 3] [10, 11, 12] demo_empty of
     Inr (_, _, c) \<Rightarrow> c | Inl _ \<Rightarrow> demo_empty)"

definition demo_handle :: cache_handle where
  "demo_handle = (case insert_prefix [1, 2, 3] [10, 11, 12] demo_empty of
     Inr (_, h, _) \<Rightarrow> h | Inl _ \<Rightarrow> \<lparr>handle_len = 0, handle_node = 0\<rparr>)"

definition demo_locked :: radix_cache where
  "demo_locked = (case lock_handle demo_handle False demo_cache of Inr c \<Rightarrow> c | Inl _ \<Rightarrow> demo_cache)"

lemma demo_empty_ok: "radix_ok demo_empty {#}"
  unfolding demo_empty_def by (rule radix_cache_init_ok)

lemma demo_cache_ok: "radix_ok demo_cache {#}" "handle_at demo_cache demo_handle [1, 2, 3]"
  "evictable_size demo_cache = 3"
proof -
  obtain plen h c' where i: "insert_prefix [1, 2, 3] [10, 11, 12] demo_empty = Inr (plen, h, c')"
    "radix_ok c' {#}" "handle_at c' h [1, 2, 3]"
    "\<forall>s. prefix s [1, 2, 3] \<and> s \<noteq> [] \<longrightarrow> ((\<exists>v. stored demo_empty s v) \<longleftrightarrow> length s \<le> plen)"
    "evictable_size c' = evictable_size demo_empty + int (length [1, 2, 3 :: int] - plen)"
    using insert_prefix_ok [OF demo_empty_ok, of "[1, 2, 3]" "[10, 11, 12]"] by auto
  have "\<not> stored demo_empty s v" for s v unfolding demo_empty_def by (rule radix_cache_init_empty)
  then have "\<not> length [1 :: int] \<le> plen" using i(4) [rule_format, of "[1]"] by auto
  then have "plen = 0" by simp
  moreover have "evictable_size demo_empty = 0"
    by (simp add: demo_empty_def radix_cache_init_def new_node_def read_clock_def Let_def)
  ultimately show "radix_ok demo_cache {#}" "handle_at demo_cache demo_handle [1, 2, 3]"
    "evictable_size demo_cache = 3"
    using i(1,2,3,5) by (simp_all add: demo_cache_def demo_handle_def)
qed

lemma demo_locked_ok: "radix_ok demo_locked {#[1, 2, 3]#}" "handle_at demo_locked demo_handle [1, 2, 3]"
proof -
  obtain c' where "lock_handle demo_handle False demo_cache = Inr c'"
    "radix_ok c' (add_mset [1, 2, 3] {#})" "\<forall>h' ks'. handle_at c' h' ks' \<longleftrightarrow> handle_at demo_cache h' ks'"
    using lock_handle_ok [OF demo_cache_ok(1,2)] by blast
  then show "radix_ok demo_locked {#[1, 2, 3]#}" "handle_at demo_locked demo_handle [1, 2, 3]"
    using demo_cache_ok(2) by (simp_all add: demo_locked_def)
qed

section \<open>Reachable states\<close>

text \<open>
  A cache together with the handles its clients hold locked, each with the string it stands
  for: the operations of \<open>BasePrefixCache\<close> in any order, with any arguments that a client can
  have (an index for every token, a handle that the cache gave out while it was locked).
\<close>

inductive radix_reach :: "radix_cache \<Rightarrow> (cache_handle \<times> int list) list \<Rightarrow> bool" where
  reach_init: "radix_reach (radix_cache_init 1 cnt clk reads) []"
| reach_match: "radix_reach c H \<Longrightarrow> match_prefix ids c = Inr (h, c') \<Longrightarrow> radix_reach c' H"
| reach_match_lock: "radix_reach c H \<Longrightarrow> match_prefix ids c = Inr (h, c1) \<Longrightarrow>
    lock_handle h False c1 = Inr c2 \<Longrightarrow> radix_reach c2 ((h, take (handle_len h) ids) # H)"
| reach_insert: "radix_reach c H \<Longrightarrow> length ids \<le> length idx \<Longrightarrow>
    insert_prefix ids idx c = Inr (plen, h, c') \<Longrightarrow> radix_reach c' H"
| reach_insert_lock: "radix_reach c H \<Longrightarrow> length ids \<le> length idx \<Longrightarrow>
    insert_prefix ids idx c = Inr (plen, h, c1) \<Longrightarrow> lock_handle h False c1 = Inr c2 \<Longrightarrow>
    radix_reach c2 ((h, ids) # H)"
| reach_unlock: "radix_reach c (H1 @ (h, ks) # H2) \<Longrightarrow> lock_handle h True c = Inr c' \<Longrightarrow>
    radix_reach c' (H1 @ H2)"
| reach_evict: "radix_reach c H \<Longrightarrow> 0 \<le> need \<Longrightarrow> evict need c = Inr (vs, c') \<Longrightarrow> radix_reach c' H"

inductive_cases reach_nilE: "radix_reach c []"

lemma radix_reach_ok:
  assumes "radix_reach c H"
  shows "radix_ok c (mset (map snd H)) \<and> (\<forall>(h, ks) \<in> set H. handle_at c h ks)"
  using assms
proof induction
  case (reach_init cnt clk reads)
  show ?case using radix_cache_init_ok by simp
next
  case (reach_match c H ids h c')
  then show ?case using match_prefix_ok [of c "mset (map snd H)" ids] by auto
next
  case (reach_match_lock c H ids h c1 c2)
  have m: "radix_ok c1 (mset (map snd H))" "handle_at c1 h (take (handle_len h) ids)"
    "\<And>h' ks. handle_at c h' ks \<Longrightarrow> handle_at c1 h' ks"
    using reach_match_lock match_prefix_ok [of c "mset (map snd H)" ids] by auto
  then show ?case using reach_match_lock lock_handle_ok [OF m(1,2)] by auto
next
  case (reach_insert c H ids idx plen h c')
  then show ?case using insert_prefix_ok [of c "mset (map snd H)" ids idx] by auto
next
  case (reach_insert_lock c H ids idx plen h c1 c2)
  have m: "radix_ok c1 (mset (map snd H))" "handle_at c1 h ids"
    "\<And>h' ks. handle_at c h' ks \<Longrightarrow> handle_at c1 h' ks"
    using reach_insert_lock insert_prefix_ok [of c "mset (map snd H)" ids idx] by auto
  then show ?case using reach_insert_lock lock_handle_ok [OF m(1,2)] by auto
next
  case (reach_unlock c H1 h ks H2 c')
  then have "radix_ok c (add_mset ks (mset (map snd (H1 @ H2))))" "handle_at c h ks" by auto
  then obtain c2 where "lock_handle h True c = Inr c2"
      "radix_ok c2 (add_mset ks (mset (map snd (H1 @ H2))) - {#ks#})"
      "\<forall>h' ks'. handle_at c2 h' ks' \<longleftrightarrow> handle_at c h' ks'"
    using unlock_handle_ok [of c _ h ks] by (metis union_single_eq_member)
  then show ?case using reach_unlock by auto
next
  case (reach_evict c H need vs c')
  let ?K = "mset (map snd H)"
  have ok: "radix_ok c ?K" using reach_evict by simp
  have "0 \<le> evictable_size c" using counters(1) [OF ok] by simp
  then have need: "need \<le> evictable_size c"
    using evict_too_much [of need c] reach_evict(3) by (cases "need = 0") force+
  have c': "radix_ok c' ?K" "kept c ?K c'"
    using reach_evict(3) evict_ok [OF ok reach_evict(2) need] by auto
  have "handle_at c' h ks" if "(h, ks) \<in> set H" for h ks
  proof -
    have "ks \<in># ?K" using that by force
    then show ?thesis using c'(2) that reach_evict unfolding kept_def by blast
  qed
  then show ?case using c'(1) by auto
qed

section \<open>Properties of the prefix cache\<close>

text \<open>
  C6: In every reachable state of the prefix cache the handles that clients hold stand for stored
  strings, the evictable counter is the number of stored prefixes that no held handle covers, and
  the protected counter is the number of stored prefixes that some held handle covers.
\<close>

theorem radix_counters_reachable:
  assumes "radix_reach c H"
  shows "evictable_size c = int (card {s. (\<exists>v. stored c s v) \<and> \<not> (\<exists>(h, ks) \<in> set H. prefix s ks)}) \<and>
     protected_size c = int (card {s. (\<exists>v. stored c s v) \<and> (\<exists>(h, ks) \<in> set H. prefix s ks)}) \<and>
     (\<forall>(h, ks) \<in> set H. handle_at c h ks \<and> (ks \<noteq> [] \<longrightarrow> (\<exists>v. stored c ks v)))"
proof -
  have ok: "radix_ok c (mset (map snd H))" and at: "\<forall>(h, ks) \<in> set H. handle_at c h ks"
    using radix_reach_ok [OF assms] by auto
  have iff: "(\<exists>k\<in>#mset (map snd H). prefix s k) \<longleftrightarrow> (\<exists>(h, ks) \<in> set H. prefix s ks)" for s by force
  have "evictable_size c = int (card {s. (\<exists>v. stored c s v) \<and> \<not> (\<exists>(h, ks) \<in> set H. prefix s ks)})"
    "protected_size c = int (card {s. (\<exists>v. stored c s v) \<and> (\<exists>(h, ks) \<in> set H. prefix s ks)})"
    using counters(1,2) [OF ok] unfolding free_prefixes_def held_prefixes_def iff [symmetric] by simp_all
  moreover have "handle_at c h ks \<and> (ks \<noteq> [] \<longrightarrow> (\<exists>v. stored c ks v))" if "(h, ks) \<in> set H" for h ks
    using radix.at_stored [OF ok, of h ks] at that by auto
  ultimately show ?thesis by blast
qed

theorem radix_counters_reachable_witness:
  "protected_size demo_locked = int (card {s. (\<exists>v. stored demo_locked s v) \<and> prefix s [1, 2, 3]})"
proof -
  obtain plen where i: "insert_prefix [1, 2, 3] [10, 11, 12] demo_empty = Inr (plen, demo_handle, demo_cache)"
    using insert_prefix_ok [OF demo_empty_ok, of "[1, 2, 3]" "[10, 11, 12]"]
    by (auto simp: demo_cache_def demo_handle_def)
  have l: "lock_handle demo_handle False demo_cache = Inr demo_locked"
    using lock_handle_ok [OF demo_cache_ok(1,2)] by (auto simp: demo_locked_def)
  have "radix_reach demo_empty []" unfolding demo_empty_def by (rule reach_init)
  then have "radix_reach demo_locked [(demo_handle, [1, 2, 3])]"
    by (rule reach_insert_lock [OF _ _ i l]) simp
  from radix_counters_reachable [OF this] show ?thesis by simp
qed

text \<open>
  C7: \<open>match_prefix\<close> always succeeds and returns a handle on the longest prefix of the input that
  the cache stores; it changes neither the content nor the counters nor any other handle.
\<close>

theorem match_prefix_longest:
  assumes "radix_ok c K"
  shows "\<exists>h c'. match_prefix ids c = Inr (h, c') \<and> radix_ok c' K \<and>
     handle_at c' h (take (handle_len h) ids) \<and>
     handle_len h = Max {n. n \<le> length ids \<and> (n = 0 \<or> (\<exists>v. stored c (take n ids) v))} \<and>
     (\<forall>s v. stored c' s v \<longleftrightarrow> stored c s v) \<and> get_size_info c' = get_size_info c \<and>
     (\<forall>h' ks. handle_at c h' ks \<longrightarrow> handle_at c' h' ks)"
proof -
  obtain h c' where m: "match_prefix ids c = Inr (h, c')" "radix_ok c' K"
    "handle_at c' h (take (handle_len h) ids)" "handle_len h \<le> length ids"
    "\<forall>s. prefix s ids \<and> s \<noteq> [] \<longrightarrow> ((\<exists>v. stored c s v) \<longleftrightarrow> length s \<le> handle_len h)"
    "\<forall>s v. stored c' s v \<longleftrightarrow> stored c s v" "get_size_info c' = get_size_info c"
    "\<forall>h' ks. handle_at c h' ks \<longrightarrow> handle_at c' h' ks"
    using match_prefix_ok [OF assms, of ids] by blast
  let ?M = "{n. n \<le> length ids \<and> (n = 0 \<or> (\<exists>v. stored c (take n ids) v))}"
  have found: "(\<exists>v. stored c (take n ids) v) \<longleftrightarrow> n \<le> handle_len h" if "0 < n" "n \<le> length ids" for n
  proof -
    have "take n ids \<noteq> []" "length (take n ids) = n" using that by auto
    then show ?thesis using m(5) take_is_prefix by metis
  qed
  have "Max ?M = handle_len h"
  proof (rule Max_eqI)
    show "finite ?M" by (rule finite_subset [of _ "{..length ids}"]) auto
    show "n \<le> handle_len h" if "n \<in> ?M" for n using that found [of n] by (cases "n = 0") auto
    show "handle_len h \<in> ?M" using found [of "handle_len h"] m(4) by (cases "handle_len h = 0") auto
  qed
  then show ?thesis using m by auto
qed

theorem match_prefix_longest_witness:
  "\<exists>h c'. match_prefix [1, 2, 9] demo_cache = Inr (h, c') \<and>
     (\<forall>s v. stored c' s v \<longleftrightarrow> stored demo_cache s v)"
  using match_prefix_longest [OF demo_cache_ok(1), of "[1, 2, 9]"] by blast

text \<open>
  C8: \<open>insert_prefix\<close> adds exactly the missing prefixes of the input, each with the index given
  for its last token, keeps the index of every prefix that was stored before, and makes exactly
  the new tokens evictable.
\<close>

theorem insert_prefix_exact:
  assumes "radix_ok c K" "length ids \<le> length idx"
  shows "\<exists>plen h c'. insert_prefix ids idx c = Inr (plen, h, c') \<and> radix_ok c' K \<and>
     handle_at c' h ids \<and> plen \<le> length ids \<and>
     (\<forall>s v. stored c' s v \<longleftrightarrow> stored c s v \<or>
        (s \<noteq> [] \<and> prefix s ids \<and> \<not> (\<exists>w. stored c s w) \<and> v = idx ! (length s - 1))) \<and>
     evictable_size c' = evictable_size c + int (length ids - plen) \<and>
     protected_size c' = protected_size c \<and>
     tree_slots c' = tree_slots c + mset (tslice plen (length ids) idx)"
proof -
  obtain plen h c' where i: "insert_prefix ids idx c = Inr (plen, h, c')" "radix_ok c' K"
    "handle_at c' h ids" "plen \<le> length ids"
    "\<forall>s. prefix s ids \<and> s \<noteq> [] \<longrightarrow> ((\<exists>v. stored c s v) \<longleftrightarrow> length s \<le> plen)"
    "\<forall>s v. stored c' s v \<longleftrightarrow> stored c s v \<or>
        (s \<noteq> [] \<and> prefix s ids \<and> plen < length s \<and> v = idx ! (length s - 1))"
    "evictable_size c' = evictable_size c + int (length ids - plen)" "protected_size c' = protected_size c"
    using insert_prefix_ok [OF assms] by blast
  have "tree_slots c' = tree_slots c + mset (tslice plen (length ids) idx)"
    by (rule insert_slots [OF assms(1) i(2,4) assms(2) i(5,6)])
  moreover have "plen < length s \<longleftrightarrow> \<not> (\<exists>w. stored c s w)" if "s \<noteq> []" "prefix s ids" for s
    using i(5) that by (simp add: not_le)
  ultimately show ?thesis using i by (intro exI [of _ plen] exI [of _ h] exI [of _ c']) auto
qed

theorem insert_prefix_exact_witness:
  "\<exists>plen h c'. insert_prefix [1, 2, 7, 8] [20, 21, 22, 23] demo_cache = Inr (plen, h, c') \<and>
     handle_at c' h [1, 2, 7, 8]"
  using insert_prefix_exact [OF demo_cache_ok(1), of "[1, 2, 7, 8]" "[20, 21, 22, 23]"] by auto

text \<open>
  Round trip: the indices read back through the handle of an insertion are those the cache
  held for the matched prefix followed by the inserted ones for the rest.
\<close>

theorem insert_read_roundtrip:
  assumes "radix_ok c K" "length ids \<le> length idx"
  shows "\<exists>plen h c' vs. insert_prefix ids idx c = Inr (plen, h, c') \<and>
     get_matched_indices c' h = Inr vs \<and> length vs = length ids \<and>
     drop plen vs = tslice plen (length ids) idx \<and>
     (\<forall>i < plen. stored c (take (Suc i) ids) (vs ! i))"
proof -
  obtain plen h c' where i: "insert_prefix ids idx c = Inr (plen, h, c')" "radix_ok c' K"
    "handle_at c' h ids" "plen \<le> length ids"
    "\<forall>s v. stored c' s v \<longleftrightarrow> stored c s v \<or>
        (s \<noteq> [] \<and> prefix s ids \<and> plen < length s \<and> v = idx ! (length s - 1))"
    "\<forall>s. prefix s ids \<and> s \<noteq> [] \<longrightarrow> ((\<exists>v. stored c s v) \<longleftrightarrow> length s \<le> plen)"
    using insert_prefix_ok [OF assms] by blast
  obtain vs where v: "get_matched_indices c' h = Inr vs" "length vs = length ids"
    "\<forall>s v. prefix s ids \<and> s \<noteq> [] \<longrightarrow> (stored c' s v \<longleftrightarrow> v = vs ! (length s - 1))"
    using get_matched_indices_ok [OF i(2,3)] by blast
  have at: "stored c' (take (Suc j) ids) (vs ! j)" if "j < length ids" for j
  proof -
    have "take (Suc j) ids \<noteq> []" "length (take (Suc j) ids) - 1 = j" using that by auto
    then show ?thesis using v(3) take_is_prefix by metis
  qed
  have new: "vs ! j = idx ! j" if j: "plen \<le> j" "j < length ids" for j
  proof -
    have t: "take (Suc j) ids \<noteq> []" "length (take (Suc j) ids) = Suc j" using j by auto
    have "\<not> stored c (take (Suc j) ids) v" for v
      using i(6) [rule_format, of "take (Suc j) ids"] j(1) t take_is_prefix by (metis not_less_eq_eq)
    then show ?thesis using at [OF j(2)] i(5) [rule_format, of "take (Suc j) ids" "vs ! j"] t by simp
  qed
  have old: "stored c (take (Suc j) ids) (vs ! j)" if j: "j < plen" for j
  proof -
    have "length (take (Suc j) ids) = Suc j" using j i(4) by auto
    then show ?thesis using at [of j] i(4) i(5) [rule_format, of "take (Suc j) ids" "vs ! j"] j by simp
  qed
  have "drop plen vs = tslice plen (length ids) idx"
    by (rule nth_equalityI) (use v(2) i(4) assms(2) new in \<open>auto simp: tslice_def\<close>)
  then show ?thesis using i(1) v(1,2) old by blast
qed

theorem insert_read_roundtrip_witness:
  "\<exists>plen h c' vs. insert_prefix [1, 2, 7] [20, 21, 22] demo_cache = Inr (plen, h, c') \<and>
     get_matched_indices c' h = Inr vs \<and> length vs = 3 \<and> (\<forall>i < plen. stored demo_cache (take (Suc i) [1, 2, 7]) (vs ! i))"
  using insert_read_roundtrip [OF demo_cache_ok(1), of "[1, 2, 7]" "[20, 21, 22]"] by auto

text \<open>
  Locking a handle and unlocking it give back the very same cache, in both orders, and
  move each covered prefix between the evictable and the protected part without changing their
  sum or the content.
\<close>

theorem lock_unlock_inverse:
  assumes "radix_ok c K" "handle_at c h ks"
  shows "(\<exists>c'. lock_handle h False c = Inr c' \<and> lock_handle h True c' = Inr c \<and>
       radix_ok c' (add_mset ks K) \<and> total_size (get_size_info c') = total_size (get_size_info c) \<and>
       (\<forall>s v. stored c' s v \<longleftrightarrow> stored c s v)) \<and>
     (ks \<in># K \<longrightarrow> (\<exists>c'. lock_handle h True c = Inr c' \<and> lock_handle h False c' = Inr c \<and>
       radix_ok c' (K - {#ks#}) \<and> total_size (get_size_info c') = total_size (get_size_info c) \<and>
       (\<forall>s v. stored c' s v \<longleftrightarrow> stored c s v)))"
  using lock_handle_ok [OF assms] unlock_handle_ok [OF assms]
  by (auto simp: total_size_def get_size_info_def)

theorem lock_unlock_inverse_witness:
  "(\<exists>c'. lock_handle demo_handle False demo_locked = Inr c' \<and>
      lock_handle demo_handle True c' = Inr demo_locked) \<and>
   (\<exists>c'. lock_handle demo_handle True demo_locked = Inr c' \<and>
      lock_handle demo_handle False c' = Inr demo_locked)"
  using lock_unlock_inverse [OF demo_locked_ok] by auto

text \<open>
  C9: Eviction refines its specification: the code, which fills a heap once with the leaves and
  then adds a parent when its last child goes, always removes a least recently used leaf of the
  current tree that no one holds, until enough slots are free.
\<close>

theorem evict_implements_lru:
  assumes "radix_ok c K" "0 \<le> need" "need \<le> evictable_size c"
  shows "\<exists>vs c'. evict need c = Inr (vs, c') \<and> lru_evict need c vs c'"
  using assms by (rule evict_refines_lru)

theorem evict_implements_lru_witness:
  "\<exists>vs c'. evict 2 demo_cache = Inr (vs, c') \<and> lru_evict 2 demo_cache vs c'"
  by (rule evict_implements_lru [OF demo_cache_ok(1)]) (simp_all add: demo_cache_ok(3))

text \<open>
  C10: \<open>evict\<close> succeeds exactly when enough is evictable; it then returns at least the requested
  number of slots, which leave the cache, and what a locked handle covers stays with its indices.
\<close>

theorem evict_keeps_locked:
  assumes "radix_ok c K" "0 \<le> need"
  shows "if need \<le> evictable_size c
     then \<exists>vs c'. evict need c = Inr (vs, c') \<and> radix_ok c' K \<and> need \<le> int (length vs) \<and>
       tree_slots c = tree_slots c' + mset vs \<and>
       evictable_size c' = evictable_size c - int (length vs) \<and> protected_size c' = protected_size c \<and>
       (\<forall>s v. stored c' s v \<longrightarrow> stored c s v) \<and>
       (\<forall>s v k. k \<in># K \<longrightarrow> prefix s k \<longrightarrow> stored c s v \<longrightarrow> stored c' s v) \<and>
       (\<forall>h k. k \<in># K \<longrightarrow> handle_at c h k \<longrightarrow> handle_at c' h k)
     else evict need c = Inl (TorchCheck ''Cannot evict'')"
proof (cases "need \<le> evictable_size c")
  case True
  then show ?thesis using evict_ok [OF assms True] unfolding kept_def by auto
next
  case False
  moreover have "0 \<le> evictable_size c" using counters(1) [OF assms(1)] by simp
  ultimately show ?thesis using evict_too_much [of need c] by simp
qed

theorem evict_keeps_locked_witness:
  "(\<exists>vs c'. evict 2 demo_cache = Inr (vs, c') \<and> 2 \<le> int (length vs)) \<and>
   evict 4 demo_cache = Inl (TorchCheck ''Cannot evict'')"
  using evict_keeps_locked [OF demo_cache_ok(1), of 2] evict_keeps_locked [OF demo_cache_ok(1), of 4]
  by (auto simp: demo_cache_ok(3))

text \<open>
  \<open>fast_compare_key\<close> is the length of the longest common prefix of its arguments: the
  arguments agree up to it and disagree, or one of them ends, there.
\<close>

theorem fast_compare_key_is_lcp:
  "fast_compare_key xs ys = length (longest_common_prefix xs ys) \<and>
   take (fast_compare_key xs ys) xs = take (fast_compare_key xs ys) ys \<and>
   \<not> (fast_compare_key xs ys < length xs \<and> fast_compare_key xs ys < length ys \<and>
      xs ! fast_compare_key xs ys = ys ! fast_compare_key xs ys)"
proof -
  have l: "fast_compare_key xs ys = length (longest_common_prefix xs ys)"
    by (rule fast_compare_key_lcp)
  have "longest_common_prefix xs ys = take n xs" "longest_common_prefix xs ys = take n ys"
    if "n = length (longest_common_prefix xs ys)" for n
    using that longest_common_prefix_prefix1 longest_common_prefix_prefix2 by (metis take_of_prefix)+
  note t = this [OF refl]
  show ?thesis
  proof (intro conjI notI l)
    show "take (fast_compare_key xs ys) xs = take (fast_compare_key xs ys) ys" using t l by metis
  next
    let ?n = "fast_compare_key xs ys"
    assume eq: "?n < length xs \<and> ?n < length ys \<and> xs ! ?n = ys ! ?n"
    have "take (Suc ?n) xs = take (Suc ?n) ys"
      using eq t l by (simp add: take_Suc_conv_app_nth)
    then have "prefix (take (Suc ?n) xs) (longest_common_prefix xs ys)"
      using longest_common_prefix_max_prefix take_is_prefix by metis
    then show False using l eq prefix_length_le by fastforce
  qed
qed

text \<open>
  C15: On a reachable cache no operation runs out of fuel or throws: matching and locking always
  succeed, insertion succeeds when there is an index for every token, a held handle can be
  unlocked and read, and eviction succeeds up to the evictable size.
\<close>

theorem reachable_total:
  assumes "radix_reach c H"
  shows "(\<exists>h c'. match_prefix ids c = Inr (h, c') \<and> (\<exists>c''. lock_handle h False c' = Inr c'')) \<and>
     (length ids \<le> length idx \<longrightarrow> (\<exists>r. insert_prefix ids idx c = Inr r)) \<and>
     (\<forall>(h, ks) \<in> set H. (\<exists>c'. lock_handle h True c = Inr c') \<and>
        (\<exists>vs. get_matched_indices c h = Inr vs \<and> length vs = length ks)) \<and>
     (0 \<le> need \<and> need \<le> evictable_size c \<longrightarrow> (\<exists>r. evict need c = Inr r))"
proof -
  let ?K = "mset (map snd H)"
  have ok: "radix_ok c ?K" and at: "\<forall>(h, ks) \<in> set H. handle_at c h ks"
    using radix_reach_ok [OF assms] by auto
  have "\<exists>h c'. match_prefix ids c = Inr (h, c') \<and> (\<exists>c''. lock_handle h False c' = Inr c'')"
    using radix.match_lock [OF ok, of ids] by blast
  moreover have "\<exists>r. insert_prefix ids idx c = Inr r" if "length ids \<le> length idx"
    using insert_prefix_ok [OF ok that] by blast
  moreover have "(\<exists>c'. lock_handle h True c = Inr c') \<and>
      (\<exists>vs. get_matched_indices c h = Inr vs \<and> length vs = length ks)" if hK: "(h, ks) \<in> set H" for h ks
  proof -
    have "handle_at c h ks" "ks \<in># ?K" using at hK by (auto simp: image_iff intro!: bexI [of _ "(h, ks)"])
    then show ?thesis using unlock_handle_ok [OF ok] get_matched_indices_ok [OF ok] by blast
  qed
  moreover have "\<exists>r. evict need c = Inr r" if "0 \<le> need" "need \<le> evictable_size c"
    using evict_ok [OF ok that] by blast
  ultimately show ?thesis by blast
qed

theorem reachable_total_witness:
  "\<exists>h c'. match_prefix [4, 5] demo_empty = Inr (h, c') \<and> (\<exists>c''. lock_handle h False c' = Inr c'')"
proof -
  have "radix_reach demo_empty []" unfolding demo_empty_def by (rule reach_init)
  from reachable_total [OF this, of "[4, 5]" "[]" 0] show ?thesis by blast
qed

end
