(* ===== verification/PoolProps.thy ===== *)
theory PoolProps
  imports CacheProps CacheReq
begin

text \<open>
  What the cache manager guarantees: allocation with eviction, the page table, the hand-over of a
  request's pages to the prefix cache, and the integrity check.
\<close>

section \<open>The initial cache manager\<close>

lemma cache_manager_init_ok:
  assumes "cache_manager_init n 1 pt ''radix'' cnt clk reads = Inr cm"
  shows "cm_ok cm {#}" "\<not> lazy_free_active cm" "cm_pages cm = mset [0..n - 1]"
    "page_table cm = pt" "num_pages cm = n" "free_slots cm = [0..n - 1]"
    "prefix_cache cm = radix_cache_init 1 cnt clk reads"
proof -
  have cm: "cm = \<lparr>num_pages = n, cm_page_size = 1, page_table = pt,
      prefix_cache = radix_cache_init 1 cnt clk reads, free_slots = map (\<lambda>i. i * 1) [0..n - 1],
      lazy_free_active = False, lazy_free_list = [], page_write_len = 0\<rparr>"
    using assms by (simp add: cache_manager_init_def)
  have "{(s, v). stored (radix_cache_init 1 cnt clk reads) s v} = {}"
    using radix_cache_init_empty [of cnt clk reads] by simp
  then have "tree_slots (radix_cache_init 1 cnt clk reads) = {#}"
    using tree_slots_stored(1) [OF radix_cache_init_ok [of cnt clk reads]] by simp
  then show "cm_ok cm {#}" "\<not> lazy_free_active cm" "cm_pages cm = mset [0..n - 1]"
    "page_table cm = pt" "num_pages cm = n" "free_slots cm = [0..n - 1]"
    "prefix_cache cm = radix_cache_init 1 cnt clk reads"
    using radix_cache_init_ok [of cnt clk reads] by (simp_all add: cm cm_ok_def cm_pages_def)
qed

definition demo_cm :: cache_manager where
  "demo_cm = \<lparr>num_pages = 8, cm_page_size = 1, page_table = replicate 3 (replicate 8 0),
     prefix_cache = demo_empty, free_slots = [0..7], lazy_free_active = False,
     lazy_free_list = [], page_write_len = 0\<rparr>"

lemma demo_cm_init:
  "cache_manager_init 8 1 (replicate 3 (replicate 8 0)) ''radix'' 0 (\<lambda>t. int t + 5) 0 = Inr demo_cm"
  by (simp add: cache_manager_init_def demo_cm_def demo_empty_def)

lemmas demo_cm_ok = cache_manager_init_ok [OF demo_cm_init]

lemma demo_cm_available: "available_size demo_cm = 8"
proof -
  have "evictable_size demo_empty = 0"
    by (simp add: demo_empty_def radix_cache_init_def new_node_def read_clock_def Let_def)
  then show ?thesis
    by (simp add: available_size_def get_size_info_def demo_cm_def upto.simps)
qed

definition demo_req :: req where
  "demo_req = default_req\<lparr>req_id := 7, input_ids := [4, 5, 6], table_idx := 1, cached_len := 1,
     output_len := 2, dev_len := 3, max_dev_len := 5,
     cache_handle := Some \<lparr>handle_len = 0, handle_node = root_node\<rparr>\<rparr>"

lemma demo_root_handle: "handle_at demo_empty \<lparr>handle_len = 0, handle_node = root_node\<rparr> []"
  unfolding handle_at_def by (auto intro: reach.intros)

lemma demo_cm_locked: "cm_ok demo_cm {#[]#}"
proof -
  obtain c' where c': "lock_handle \<lparr>handle_len = 0, handle_node = root_node\<rparr> False demo_empty = Inr c'"
    "radix_ok c' {#[]#}"
    using lock_handle_ok [OF demo_empty_ok demo_root_handle] by auto
  have "c' = demo_empty"
    using c'(1) by (simp add: lock_handle_def demo_empty_def radix_cache_init_def new_node_def
        read_clock_def Let_def root_node_def)
  then show ?thesis using c'(2) demo_cm_ok(1) by (simp add: cm_ok_def demo_cm_def)
qed

lemma demo_req_row: "req_row_ok (page_table demo_cm) demo_req" "computed_ids demo_req = [4]"
  "cache_handle demo_req = Some \<lparr>handle_len = 0, handle_node = root_node\<rparr>"
  by (simp_all add: req_row_ok_def demo_cm_def demo_req_def default_req_def computed_ids_def numeral_3_eq_3)

section \<open>Properties\<close>





text \<open>
  The threads of \<open>write_token_pool_kernel\<close> may run in any order: when no cell is written
  twice, every order gives the same table, and each written cell inside the table holds its token.
\<close>

theorem write_token_pool_any_order:
  assumes "distinct (zip rs ps)" "length ps = length rs" "length ts = length rs"
    and "mset (zip rs (zip ps ts)) = mset (zip rs' (zip ps' ts'))"
    and "length ps' = length rs'" "length ts' = length rs'"
  shows "write_token_pool rs ps ts t = write_token_pool rs' ps' ts' t \<and>
     (\<exists>t'. write_token_pool rs ps ts t = Inr t' \<and>
       (\<forall>i < length rs. 0 \<le> rs ! i \<and> rs ! i < int (length t) \<and> 0 \<le> ps ! i \<and>
          ps ! i < int (length (t ! nat (rs ! i))) \<longrightarrow> read_cell t' (rs ! i) (ps ! i) = ts ! i))"
proof -
  let ?es = "zip rs (zip ps ts)"
  have m: "map (\<lambda>(r, p, v). (r, p)) ?es = zip rs ps"
    using assms(2,3) by (intro nth_equalityI) auto
  then have d: "distinct (map (\<lambda>(r, p, v). (r, p)) ?es)" using assms(1) by simp
  have "fold write_cell ?es t = fold write_cell (zip rs' (zip ps' ts')) t"
    by (rule write_order [OF d assms(4)])
  then have same: "write_token_pool rs ps ts t = write_token_pool rs' ps' ts' t"
    using assms(2,3,5,6) by (simp add: write_token_pool_def)
  have "read_cell (fold write_cell ?es t) (rs ! i) (ps ! i) = ts ! i"
    if i: "i < length rs" "0 \<le> rs ! i" "rs ! i < int (length t)" "0 \<le> ps ! i"
      "ps ! i < int (length (t ! nat (rs ! i)))" for i
  proof -
    have "?es ! i = (rs ! i, ps ! i, ts ! i)" "i < length ?es" using i(1) assms(2,3) by simp_all
    then have "(rs ! i, ps ! i, ts ! i) \<in> set ?es" by (metis nth_mem)
    then show ?thesis by (rule read_fold_in [OF _ d i(2-5)])
  qed
  moreover have "write_token_pool rs ps ts t = Inr (fold write_cell ?es t)"
    using assms(2,3) by (simp add: write_token_pool_def)
  ultimately show ?thesis using same by metis
qed

theorem write_token_pool_any_order_witness:
  "write_token_pool [0, 1] [1, 0] [5, 6] [[0, 0], [0, 0]] =
   write_token_pool [1, 0] [0, 1] [6, 5] [[0, 0], [0, 0]]"
  using write_token_pool_any_order [of "[0, 1]" "[1, 0]" "[5, 6]" "[1, 0]" "[0, 1]" "[6, 5]"] by simp

text \<open>
  C11: When a request finishes, \<open>cache_req\<close> gives all its pages back: those of new prefixes enter
  the prefix cache, the duplicates and the rest return to the pool, its lock is released, and
  every other handle stays valid.
\<close>

theorem cache_req_finished_conserves:
  assumes "cm_ok cm K" "req_row_ok (page_table cm) r"
    and "cache_handle r = Some old" "cm_handle cm old ks" "ks \<in># K" "prefix ks (computed_ids r)"
  shows "\<exists>cm'. cache_req r True cm = Inr (r, cm') \<and> cm_ok cm' (K - {#ks#}) \<and>
     cm_pages cm' = cm_pages cm + mset (row_range (page_table cm) r (int (length ks)) (cached_len r)) \<and>
     page_table cm' = page_table cm \<and> (\<forall>h k. cm_handle cm h k \<longrightarrow> cm_handle cm' h k)"
  using cache_req_finished [OF assms] by blast

theorem cache_req_finished_conserves_witness:
  "\<exists>cm'. cache_req demo_req True demo_cm = Inr (demo_req, cm') \<and> cm_ok cm' {#}"
proof -
  have "cm_handle demo_cm \<lparr>handle_len = 0, handle_node = root_node\<rparr> []"
    using demo_root_handle by (simp add: demo_cm_def)
  from cache_req_finished_conserves [OF demo_cm_locked demo_req_row(1,3) this]
  show ?thesis by auto
qed

text \<open>
  C12: While a request goes on, \<open>cache_req\<close> moves its lock to the longer prefix it has computed,
  and no page is lost; what can be allocated does not shrink.
\<close>

theorem cache_req_running_conserves:
  assumes "cm_ok cm K" "req_row_ok (page_table cm) r" "\<not> lazy_free_active cm"
    and "cache_handle r = Some old" "cm_handle cm old ks" "ks \<in># K" "prefix ks (computed_ids r)"
  shows "\<exists>h cm'. cache_req r False cm = Inr (r\<lparr>cache_handle := Some h\<rparr>, cm') \<and>
     cm_ok cm' (add_mset (computed_ids r) (K - {#ks#})) \<and> cm_handle cm' h (computed_ids r) \<and>
     cm_pages cm' = cm_pages cm +
       mset (row_range (page_table cm) r (int (length ks)) (int (length (computed_ids r)))) \<and>
     available_size cm \<le> available_size cm' \<and> (\<forall>h' k. cm_handle cm h' k \<longrightarrow> cm_handle cm' h' k)"
proof -
  obtain h cm' where c: "cache_req r False cm = Inr (r\<lparr>cache_handle := Some h\<rparr>, cm')"
    "cm_ok cm' (add_mset (computed_ids r) (K - {#ks#}))" "cm_handle cm' h (computed_ids r)"
    "cm_pages cm' = cm_pages cm +
       mset (row_range (page_table cm) r (int (length ks)) (int (length (computed_ids r))))"
    "cm_room cm \<le> cm_room cm'" "lazy_free_active cm' = lazy_free_active cm"
    "\<forall>h' k. cm_handle cm h' k \<longrightarrow> cm_handle cm' h' k"
    using cache_req_running [OF assms(1,2,4-7)] by blast
  then have "available_size cm \<le> available_size cm'"
    using room_available [OF assms(1,3)] room_available [OF c(2)] assms(3) by simp
  then show ?thesis using c by blast
qed

theorem cache_req_running_conserves_witness:
  "\<exists>h cm'. cache_req demo_req False demo_cm = Inr (demo_req\<lparr>cache_handle := Some h\<rparr>, cm') \<and>
     cm_handle cm' h [4]"
proof -
  have "cm_handle demo_cm \<lparr>handle_len = 0, handle_node = root_node\<rparr> []"
    using demo_root_handle by (simp add: demo_cm_def)
  from cache_req_running_conserves [OF demo_cm_locked demo_req_row(1) demo_cm_ok(2) demo_req_row(3) this]
  show ?thesis unfolding demo_req_row(2) by auto
qed

text \<open>
  \<open>check_integrity\<close> accepts a cache manager exactly when every page is either in the pool or
  in the prefix cache.
\<close>

theorem check_integrity_counts:
  assumes "cm_ok cm K" "\<not> lazy_free_active cm"
  shows "check_integrity cm = Inr () \<longleftrightarrow> int (size (cm_pages cm)) = num_pages cm"
  using assms by (rule check_integrity_iff)

theorem check_integrity_counts_witness: "check_integrity demo_cm = Inr ()"
  using check_integrity_counts [OF demo_cm_ok(1,2)] demo_cm_ok(3,5) by simp

end
