(* ===== verification/EngineProps.thy ===== *)
theory EngineProps
  imports Engine
begin

text \<open>
  What requests, the context and the engine guarantee: the life of a request, the guard of the
  active batch, the graph sizes and the padding, and the rows that are sampled.
\<close>

section \<open>The life of a request\<close>

text \<open>One round of a running request: the forward step, then the sampled token on the host.\<close>

definition decode_round :: "int \<Rightarrow> req \<Rightarrow> req result" where
  "decode_round t r = res_bind (complete_one r) (append_host_token t)"

definition live :: "req \<Rightarrow> bool" where
  "live r \<longleftrightarrow> req_ok r \<and> int (length (input_ids r)) = dev_len r"

lemma decode_round_live:
  assumes "live r"
  shows "decode_round t r =
     (if dev_len r < max_dev_len r
      then Inr (r\<lparr>cached_len := dev_len r, dev_len := dev_len r + 1, input_ids := input_ids r @ [t]\<rparr>)
      else Inl (TorchCheck ''Req::append_host_token cannot advance beyond device_len''))"
  and "dev_len r < max_dev_len r \<Longrightarrow>
     live (r\<lparr>cached_len := dev_len r, dev_len := dev_len r + 1, input_ids := input_ids r @ [t]\<rparr>)"
proof -
  let ?r = "r\<lparr>cached_len := dev_len r, dev_len := dev_len r + 1, input_ids := input_ids r @ [t]\<rparr>"
  have ok: "req_ok r" and len: "int (length (input_ids r)) = dev_len r" using assms by (simp_all add: live_def)
  let ?q = "r\<lparr>cached_len := dev_len r, dev_len := (if dev_len r < max_dev_len r then dev_len r + 1 else dev_len r)\<rparr>"
  have c: "complete_one r = Inr ?q" by (rule complete_one_eq [OF ok])
  have "req_ok ?q" using complete_one_ok(1) [OF ok c] .
  then show "decode_round t r = (if dev_len r < max_dev_len r then Inr ?r else
      Inl (TorchCheck ''Req::append_host_token cannot advance beyond device_len''))"
    using len by (simp add: decode_round_def c append_host_token_eq)
  show "dev_len r < max_dev_len r \<Longrightarrow> live ?r" using ok len by (simp add: live_def req_ok_def)
qed

lemma decode_rounds:
  assumes "live r" "int (length ts) \<le> max_dev_len r - dev_len r"
  shows "\<exists>r'. res_fold decode_round ts r = Inr r' \<and> live r' \<and> input_ids r' = input_ids r @ ts \<and>
     dev_len r' = dev_len r + int (length ts) \<and> max_dev_len r' = max_dev_len r \<and>
     is_chunked_prefill r' = is_chunked_prefill r"
  using assms
proof (induction ts arbitrary: r)
  case (Cons t ts)
  let ?r = "r\<lparr>cached_len := dev_len r, dev_len := dev_len r + 1, input_ids := input_ids r @ [t]\<rparr>"
  have lt: "dev_len r < max_dev_len r" using Cons.prems(2) by simp
  have d: "decode_round t r = Inr ?r" "live ?r" using decode_round_live [OF Cons.prems(1), of t] lt by simp_all
  show ?case using Cons.IH [OF d(2)] Cons.prems(2) d(1) by auto
qed simp

text \<open>
  A request produces exactly its output length: every round up to \<open>max_device_len\<close> succeeds
  and appends its token, \<open>can_decode\<close> holds precisely while tokens are left, and the round after
  the last one fails instead of writing beyond the reserved length.
\<close>

theorem request_exact_output:
  assumes "req_ok r" "int (length (input_ids r)) = dev_len r" "\<not> is_chunked_prefill r"
    and "int (length ts) \<le> max_dev_len r - dev_len r"
  shows "\<exists>r'. res_fold decode_round ts r = Inr r' \<and> input_ids r' = input_ids r @ ts \<and>
     remain_len r' = remain_len r - int (length ts) \<and>
     (can_decode r' \<longleftrightarrow> int (length ts) < remain_len r) \<and>
     (\<not> can_decode r' \<longrightarrow> decode_round t r' =
        Inl (TorchCheck ''Req::append_host_token cannot advance beyond device_len''))"
proof -
  obtain r' where r': "res_fold decode_round ts r = Inr r'" "live r'" "input_ids r' = input_ids r @ ts"
    "dev_len r' = dev_len r + int (length ts)" "max_dev_len r' = max_dev_len r"
    "is_chunked_prefill r' = is_chunked_prefill r"
    using decode_rounds [of r ts] assms(1,2,4) by (auto simp: live_def)
  have "remain_len r = max_dev_len r - dev_len r" "remain_len r' = max_dev_len r' - dev_len r'"
    using req_ok_lens(3) assms(1) r'(2) by (simp_all add: live_def)
  then show ?thesis
    using r' assms(3) decode_round_live(1) [OF r'(2), of t] by (auto simp: can_decode_def)
qed

definition demo_prompt :: req where
  "demo_prompt = default_req\<lparr>input_ids := [3, 4], output_len := 2, dev_len := 2, max_dev_len := 4\<rparr>"

theorem request_exact_output_witness:
  "\<exists>r'. res_fold decode_round [8, 9] demo_prompt = Inr r' \<and> input_ids r' = [3, 4, 8, 9] \<and> \<not> can_decode r'"
proof -
  have "req_ok demo_prompt" "int (length (input_ids demo_prompt)) = dev_len demo_prompt"
    "\<not> is_chunked_prefill demo_prompt" "int (length [8, 9 :: int]) \<le> max_dev_len demo_prompt - dev_len demo_prompt"
    by (simp_all add: demo_prompt_def default_req_def req_ok_def)
  moreover have "remain_len demo_prompt = 2" "input_ids demo_prompt = [3, 4]"
    by (simp_all add: demo_prompt_def default_req_def remain_len_def max_device_len_def device_len_def)
  ultimately show ?thesis using request_exact_output [of demo_prompt "[8, 9]" 0] by auto
qed

section \<open>The active batch\<close>

text \<open>
  \<open>BatchGuard\<close>: a guard inside the scope of another fails and leaves the outer batch active,
  the computation sees its batch, and after the guard no batch is active, whether or not the
  computation threw.
\<close>

theorem batch_guard_scope:
  "with_batch b body c =
     (case active_batch c of
        None \<Rightarrow> (let (r, c') = body (c\<lparr>active_batch := Some b\<rparr>) in (r, c'\<lparr>active_batch := None\<rparr>))
      | Some b' \<Rightarrow> (Inl (RuntimeError ''Nested forward_batch is not allowed / Batch already set''), c)) \<and>
   with_batch b (\<lambda>c1. with_batch b2 body2 c1) (context_init ps e) =
     (Inl (RuntimeError ''Nested forward_batch is not allowed / Batch already set''), context_init ps e)"
  by (simp add: with_batch_def set_batch_def clear_batch_def context_init_def split: option.splits)

section \<open>Graphs\<close>

text \<open>
  The sizes for which graphs are captured are strictly increasing and lie between 1 and the
  maximal batch size, whatever the configuration asks for, and the default sizes contain the
  maximal batch size.
\<close>

theorem graph_sizes_valid:
  "sorted_wrt (<) (determine_batch_sizes enable bs mx) \<and>
   set (determine_batch_sizes enable bs mx) \<subseteq> {1..mx} \<and>
   (enable \<and> bs \<noteq> [] \<longrightarrow> set (determine_batch_sizes enable bs mx) = set bs \<inter> {1..mx}) \<and>
   (1 \<le> mx \<longrightarrow> mx \<in> set (determine_batch_sizes True [] mx))"
proof (intro conjI)
  show "sorted_wrt (<) (determine_batch_sizes enable bs mx)" by (rule batch_sizes_ok(1) [OF refl])
  show "set (determine_batch_sizes enable bs mx) \<subseteq> {1..mx}" using batch_sizes_ok(2) [OF refl] by fastforce
  show "enable \<and> bs \<noteq> [] \<longrightarrow> set (determine_batch_sizes enable bs mx) = set bs \<inter> {1..mx}"
    by (auto simp: determine_batch_sizes_def Let_def)
  show "1 \<le> mx \<longrightarrow> mx \<in> set (determine_batch_sizes True [] mx)" using default_sizes_max by blast
qed

theorem graph_sizes_valid_witness:
  "10 \<in> set (determine_batch_sizes True [] 10) \<and> set (determine_batch_sizes True [5, 99, 5] 10) = {5}"
  using graph_sizes_valid [of True "[5, 99, 5]" 10] by auto

text \<open>
  C26: \<open>pad_batch\<close> keeps the requests of the batch in front and only adds the dummy request; when
  the batch may use a graph, the padded size is the smallest captured size that holds the batch,
  so that the lookup of the graph in \<open>replay\<close> never fails.
\<close>

theorem pad_batch_smallest_graph:
  assumes "g = graph_runner_init enable sizes mx max_seq cap dummy"
  shows "(\<exists>k. padded_reqs (pad_batch st g b) = reqs b @ replicate k dummy) \<and>
     (can_use_cuda_graph st g b \<longrightarrow>
        int (padded_size (pad_batch st g b)) =
          Min {n \<in> set (determine_batch_sizes enable sizes mx). int (batch_size b) \<le> n}) \<and>
     (\<not> can_use_cuda_graph st g b \<longrightarrow> padded_reqs (pad_batch st g b) = reqs b)"
proof -
  have g: "graph_ok g" "dummy_req g = dummy" "captured g = set (determine_batch_sizes enable sizes mx)"
    using graph_runner_init_ok by (simp_all add: assms graph_runner_init_def captured_def Let_def)
  have min: "int (padded_size (pad_batch st g b)) =
      Min {n \<in> set (determine_batch_sizes enable sizes mx). int (batch_size b) \<le> n}"
    if use: "can_use_cuda_graph st g b"
  proof (rule Min_eqI [symmetric])
    note p = pad_batch_captured [OF g(1) use]
    have "batch_size b \<le> padded_size (pad_batch st g b)"
      using arg_cong [OF p(3), of length] by (simp add: padded_size_def batch_size_def)
    then show "int (padded_size (pad_batch st g b)) \<in>
        {n \<in> set (determine_batch_sizes enable sizes mx). int (batch_size b) \<le> n}"
      using p(1) g(3) by simp
    show "int (padded_size (pad_batch st g b)) \<le> y"
      if "y \<in> {n \<in> set (determine_batch_sizes enable sizes mx). int (batch_size b) \<le> n}" for y
      using that p(2) g(3) by simp
  qed simp
  have "padded_reqs (pad_batch st g b) = reqs b" if "\<not> can_use_cuda_graph st g b"
    using that by (simp add: pad_batch_def)
  then show ?thesis using min pad_batch_fields(3) [of st g b] g(2) by auto
qed

definition demo_batch :: batch where
  "demo_batch = \<lparr>reqs = [1, 2, 3], phase = Decode, batch_input_ids = [], positions = [],
     out_loc = [], padded_reqs = []\<rparr>"

theorem pad_batch_smallest_graph_witness:
  "padded_size (pad_batch (\<lambda>_. demo_prompt) (graph_runner_init True [1, 5, 7] 6 64 0 0) demo_batch) = 5"
proof -
  let ?g = "graph_runner_init True [1, 5, 7] 6 64 0 0"
  have d: "determine_batch_sizes True [1, 5, 7] 6 = [1, 5]" by (simp add: determine_batch_sizes_def)
  have "can_use_cuda_graph (\<lambda>_. demo_prompt) ?g demo_batch"
    by (simp add: can_use_cuda_graph_def graph_runner_init_def d demo_batch_def is_decode_def
        batch_size_def device_len_def demo_prompt_def default_req_def)
  moreover have "{n \<in> set (determine_batch_sizes True [1, 5, 7] 6). int (batch_size demo_batch) \<le> n} = {5}"
    unfolding d by (auto simp: batch_size_def demo_batch_def)
  ultimately show ?thesis
    using pad_batch_smallest_graph [OF refl, of "\<lambda>_. demo_prompt" True "[1, 5, 7]" 6 64 0 0 demo_batch] by simp
qed

section \<open>The rows that are sampled\<close>

lemma last_select:
  assumes "list_all2 (\<lambda>r rows. rows \<noteq> [] \<and> int (length rows) = extend_len (st r)) rs rowss"
  shows "\<exists>ixs. last_indices st rs (int (length pre)) = Inr ixs \<and>
     (\<forall>i\<in>set ixs. 0 \<le> i \<and> i < int (length (pre @ concat rowss @ post))) \<and>
     map (\<lambda>i. (pre @ concat rowss @ post) ! nat i) ixs = map last rowss"
  using assms
proof (induction rs rowss arbitrary: pre rule: list_all2_induct)
  case (Cons r rs rows rowss)
  have r: "rows \<noteq> []" "extend_len (st r) = int (length rows)" using Cons(1) by simp_all
  have off: "int (length pre) + extend_len (st r) = int (length (pre @ rows))" using r(2) by simp
  obtain ixs where ixs: "last_indices st rs (int (length (pre @ rows))) = Inr ixs"
    "\<forall>i\<in>set ixs. 0 \<le> i \<and> i < int (length ((pre @ rows) @ concat rowss @ post))"
    "map (\<lambda>i. ((pre @ rows) @ concat rowss @ post) ! nat i) ixs = map last rowss"
    using Cons.IH [of "pre @ rows"] by blast
  let ?k = "int (length pre) + extend_len (st r) - 1"
  have "0 < length rows" using r(1) by simp
  then have k: "nat ?k = length pre + (length rows - 1)" "0 \<le> ?k" "length rows - 1 < length rows"
    using r(2) by linarith+
  have "last_indices st (r # rs) (int (length pre)) = Inr (?k # ixs)"
    using ixs(1) r off by simp
  moreover have "(pre @ rows @ concat rowss @ post) ! nat ?k = last rows"
    unfolding k(1) using k(3) by (simp add: nth_append last_conv_nth r(1) del: One_nat_def)
  moreover have "?k < int (length (pre @ rows @ concat rowss @ post))" using k by simp
  ultimately show ?case using ixs(2,3) k(2) by (intro exI [of _ "?k # ixs"]) simp
qed simp

text \<open>
  For a prefill batch the rows handed to the sampler are the last row of each request, in the
  order of the requests, however the rows of the requests are laid out one after the other; for a
  decode batch they are the rows of the requests without the padding.
\<close>

theorem sampled_rows_are_last:
  assumes "list_all2 (\<lambda>r rows. rows \<noteq> [] \<and> int (length rows) = extend_len (st r)) (reqs b) rowss"
  shows "select_sampling_logits st b (concat rowss) =
     (if is_prefill b then Inr (map last rowss) else Inr (take (batch_size b) (concat rowss)))"
proof (cases "is_prefill b \<and> length (concat rowss) \<noteq> batch_size b")
  case True
  obtain ixs where ixs: "last_indices st (reqs b) 0 = Inr ixs"
    "\<forall>i\<in>set ixs. 0 \<le> i \<and> i < int (length (concat rowss))" "map (\<lambda>i. concat rowss ! nat i) ixs = map last rowss"
    using last_select [OF assms, of "[]" "[]"] by auto
  then have "index_select (concat rowss) ixs = Inr (map last rowss)"
    by (simp add: index_select_def list_all_iff)
  then show ?thesis using True ixs(1) by (simp add: select_sampling_logits_def)
next
  case False
  have len: "length rowss = batch_size b" using assms by (simp add: batch_size_def list_all2_lengthD)
  have ne: "\<forall>rows\<in>set rowss. rows \<noteq> []" using assms
    by (auto simp: list_all2_conv_all_nth in_set_conv_nth)
  have "concat rowss = map last rowss" if "length (concat rowss) = length rowss"
    using that ne
  proof (induction rowss)
    case (Cons rows rowss)
    have ge: "length xss \<le> length (concat xss)" if "\<forall>xs\<in>set xss. xs \<noteq> []" for xss :: "'b list list"
      using that by (induction xss) (auto simp: Suc_leI add_mono neq_Nil_conv)
    have l: "length rows + length (concat rowss) = Suc (length rowss)" using Cons.prems(1) by simp
    have "0 < length rows" "length rowss \<le> length (concat rowss)" using Cons.prems(2) ge [of rowss] by auto
    then have "length rows = Suc 0" "length (concat rowss) = length rowss" using l by linarith+
    then show ?case using Cons by (auto simp: length_Suc_conv)
  qed simp
  then show ?thesis using False len by (auto simp: select_sampling_logits_def)
qed

theorem sampled_rows_are_last_witness:
  "select_sampling_logits (\<lambda>r. default_req\<lparr>dev_len := 1 + int r\<rparr>)
     (demo_batch\<lparr>phase := Prefill\<rparr>) [11, 12, 21, 22, 23, 31, 32, 33, 34 :: int] = Inr [12, 23, 34]"
  using sampled_rows_are_last [of "\<lambda>r. default_req\<lparr>dev_len := 1 + int r\<rparr>" "demo_batch\<lparr>phase := Prefill\<rparr>"
      "[[11, 12], [21, 22, 23], [31, 32, 33, 34 :: int]]"]
  by (simp add: demo_batch_def is_prefill_def extend_len_def device_len_def default_req_def)

end
