(* ===== verification/Strings.thy ===== *)
theory Strings
  imports Prelude Complex_Main "HOL-Library.Sublist"
begin

text \<open>
  The parts of the C++ library on strings that the front end uses: \<open>std::stoi\<close>, \<open>std::stof\<close>,
  \<open>std::to_string\<close> and cutting a string at a separator.
\<close>

section \<open>Digits\<close>

definition is_space :: "char \<Rightarrow> bool" where
  "is_space c \<longleftrightarrow> c = CHR '' '' \<or> (9 \<le> (of_char c :: nat) \<and> (of_char c :: nat) \<le> 13)"

definition is_digit :: "char \<Rightarrow> bool" where
  "is_digit c \<longleftrightarrow> 48 \<le> (of_char c :: nat) \<and> (of_char c :: nat) \<le> 57"

definition read_digits :: "string \<Rightarrow> nat" where
  "read_digits s = foldl (\<lambda>n c. 10 * n + (of_char c - 48)) 0 s"

definition read_sign :: "string \<Rightarrow> bool \<times> string" where
  "read_sign s =
     (case s of
        [] \<Rightarrow> (False, [])
      | c # t \<Rightarrow> if c = CHR ''-'' then (True, t) else if c = CHR ''+'' then (False, t) else (False, s))"

text \<open>
  \<open>std::stoi\<close> skips white space, takes a sign and the digits that follow, and ignores the rest of
  the string; it throws when there is no digit and when the value does not fit into an \<open>int\<close>.
\<close>

definition stoi :: "string \<Rightarrow> int result" where
  "stoi s =
     (let (neg, t) = read_sign (dropWhile is_space s);
          ds = takeWhile is_digit t in
      if ds = [] then Inl (InvalidArgument ''stoi'')
      else
        (let v = (if neg then - int (read_digits ds) else int (read_digits ds)) in
         if - (2 ^ 31) \<le> v \<and> v < 2 ^ 31 then Inr v else Inl (OutOfRange ''stoi'')))"

text \<open>
  \<open>std::stof\<close> on decimal numbers, without the rounding to a binary number: the value is the
  rational that the string denotes. Hexadecimal numbers, infinities and the check of the range
  are left out.
\<close>

definition read_exponent :: "string \<Rightarrow> int" where
  "read_exponent s =
     (case s of
        [] \<Rightarrow> 0
      | c # t \<Rightarrow>
          if c = CHR ''e'' \<or> c = CHR ''E'' then
            (let (neg, u) = read_sign t; ds = takeWhile is_digit u in
             if neg then - int (read_digits ds) else int (read_digits ds))
          else 0)"

definition stof :: "string \<Rightarrow> rat result" where
  "stof s =
     (let (neg, t) = read_sign (dropWhile is_space s);
          whole = takeWhile is_digit t;
          rest = dropWhile is_digit t;
          frac = (if rest \<noteq> [] \<and> hd rest = CHR ''.'' then takeWhile is_digit (tl rest) else []);
          rest2 = (if rest \<noteq> [] \<and> hd rest = CHR ''.'' then dropWhile is_digit (tl rest) else rest);
          e = read_exponent rest2 - int (length frac);
          m = of_nat (read_digits (whole @ frac)) :: rat;
          v = (if e \<ge> 0 then m * 10 ^ nat e else m / 10 ^ nat (- e)) in
      if whole = [] \<and> frac = [] then Inl (InvalidArgument ''stof'')
      else Inr (if neg then - v else v))"

fun nat_to_string :: "nat \<Rightarrow> string" where
  "nat_to_string n =
     (if n < 10 then [char_of (48 + n)]
      else nat_to_string (n div 10) @ [char_of (48 + n mod 10)])"

declare nat_to_string.simps [simp del]

definition int_to_string :: "int \<Rightarrow> string" where
  "int_to_string i =
     (if i < 0 then CHR ''-'' # nat_to_string (nat (- i)) else nat_to_string (nat i))"

text \<open>
  \<open>substr(pos)\<close>, which throws behind the end, \<open>rfind(c)\<close>, \<open>find(t) != npos\<close> and
  \<open>rfind(t, 0) == 0\<close>.
\<close>

definition substr_from :: "string \<Rightarrow> nat \<Rightarrow> string result" where
  "substr_from s pos = (if pos \<le> length s then Inr (drop pos s) else Inl (OutOfRange ''substr''))"

definition rfind_char :: "char \<Rightarrow> string \<Rightarrow> nat option" where
  "rfind_char c s =
     (if c \<in> set s then Some (length s - 1 - length (takeWhile (\<lambda>x. x \<noteq> c) (rev s))) else None)"

fun find_sub :: "string \<Rightarrow> string \<Rightarrow> nat option" where
  "find_sub t [] = (if t = [] then Some 0 else None)"
| "find_sub t (c # s) = (if take (length t) (c # s) = t then Some 0 else map_option Suc (find_sub t s))"

definition contains_sub :: "string \<Rightarrow> string \<Rightarrow> bool" where
  "contains_sub t s = (find_sub t s \<noteq> None)"

definition starts_with :: "string \<Rightarrow> string \<Rightarrow> bool" where
  "starts_with t s = (take (length t) s = t)"

definition ends_with :: "string \<Rightarrow> string \<Rightarrow> bool" where
  "ends_with t s = (length t \<le> length s \<and> drop (length s - length t) s = t)"

lemma find_sub_Some: "find_sub t s = Some i \<Longrightarrow> i + length t \<le> length s \<and> take (length t) (drop i s) = t"
proof (induction s arbitrary: i)
  case (Cons c s)
  show ?case
  proof (cases "take (length t) (c # s) = t")
    case True
    then have "length t \<le> length (c # s)" by (metis length_take min.cobounded1)
    then show ?thesis using True Cons.prems by simp
  next
    case False
    then obtain j where "find_sub t s = Some j" "i = Suc j" using Cons.prems by auto
    then show ?thesis using Cons.IH by simp
  qed
qed (auto split: if_splits)

lemma find_sub_None: "find_sub t s = None \<longleftrightarrow> \<not> sublist t s"
proof (induction s)
  case (Cons c s)
  have "take (length t) (c # s) = t \<longleftrightarrow> prefix t (c # s)"
    by (metis append_take_drop_id prefixI prefix_def append_eq_conv_conj)
  then show ?case using Cons by (auto simp: sublist_Cons_right)
qed simp

lemma contains_sub_iff: "contains_sub t s \<longleftrightarrow> sublist t s"
  by (simp add: contains_sub_def find_sub_None)

section \<open>Reading back what was printed\<close>

lemma digit_char:
  assumes "d < 10"
  shows "is_digit (char_of (48 + d :: nat))" "of_char (char_of (48 + d :: nat)) - 48 = d"
  using assms by (simp_all add: is_digit_def)

lemma nat_to_string_digits: "nat_to_string n \<noteq> [] \<and> list_all is_digit (nat_to_string n)"
proof (induction n rule: nat_to_string.induct)
  case (1 n)
  show ?case
  proof (cases "n < 10")
    case True
    then show ?thesis using digit_char(1) by (subst nat_to_string.simps, subst (2) nat_to_string.simps) simp
  next
    case False
    have "nat_to_string n = nat_to_string (n div 10) @ [char_of (48 + n mod 10)]"
      using False by (subst nat_to_string.simps) simp
    then show ?thesis using 1 [OF False] digit_char(1) [of "n mod 10"] by simp
  qed
qed

lemma read_nat_to_string: "read_digits (nat_to_string n) = n"
proof (induction n rule: nat_to_string.induct)
  case (1 n)
  show ?case
  proof (cases "n < 10")
    case True
    then show ?thesis using digit_char(2) [of n] by (subst nat_to_string.simps) (simp add: read_digits_def)
  next
    case False
    have "nat_to_string n = nat_to_string (n div 10) @ [char_of (48 + n mod 10)]"
      using False by (subst nat_to_string.simps) simp
    then show ?thesis using 1 [OF False] digit_char(2) [of "n mod 10"] by (simp add: read_digits_def)
  qed
qed

lemma is_digit_cases:
  assumes "is_digit c"
  shows "\<not> is_space c" "c \<noteq> CHR ''-''" "c \<noteq> CHR ''+''" "c \<noteq> CHR '',''" "c \<noteq> CHR ''~''"
  using assms by (auto simp: is_digit_def is_space_def)

lemma takeWhile_all_eq: "list_all P xs \<Longrightarrow> takeWhile P xs = xs"
  by (induction xs) auto

lemma stoi_int_to_string:
  assumes "- (2 ^ 31) \<le> i" "i < 2 ^ 31"
  shows "stoi (int_to_string i) = Inr i"
proof (cases "i < 0")
  case True
  let ?s = "nat_to_string (nat (- i))"
  have "\<not> is_space (CHR ''-'')" by (simp add: is_space_def)
  then have "read_sign (dropWhile is_space (int_to_string i)) = (True, ?s)"
    using True by (simp add: int_to_string_def read_sign_def)
  moreover have "takeWhile is_digit ?s = ?s" "?s \<noteq> []"
    using nat_to_string_digits takeWhile_all_eq by blast+
  ultimately show ?thesis using True assms(1) unfolding stoi_def by (simp add: read_nat_to_string Let_def del: takeWhile_eq_all_conv)
next
  case False
  let ?s = "nat_to_string (nat i)"
  obtain c t where s: "?s = c # t" "is_digit c" using nat_to_string_digits [of "nat i"] by (cases ?s) auto
  then have "read_sign (dropWhile is_space (int_to_string i)) = (False, ?s)"
    using False is_digit_cases [of c] by (simp add: int_to_string_def read_sign_def)
  moreover have "takeWhile is_digit ?s = ?s" "?s \<noteq> []"
    using nat_to_string_digits takeWhile_all_eq by blast+
  ultimately show ?thesis using False assms(2) unfolding stoi_def by (simp add: read_nat_to_string Let_def del: takeWhile_eq_all_conv)
qed

lemma int_to_string_chars: "c \<in> set (int_to_string i) \<Longrightarrow> c = CHR ''-'' \<or> is_digit c"
  using nat_to_string_digits [of "nat (- i)"] nat_to_string_digits [of "nat i"]
  by (auto simp: int_to_string_def list_all_iff split: if_splits)

lemma int_to_string_neq_Nil [simp]: "int_to_string i \<noteq> []"
  using nat_to_string_digits by (simp add: int_to_string_def)

end
