(* ===== verification/Args.thy ===== *)
theory Args
  imports Strings
begin

text \<open>
  The command line: \<open>ServerArgs\<close> and \<open>ServerArgsParser\<close> of \<^verbatim>\<open>src/server/args.cc\<close>, and the
  configurations of \<^verbatim>\<open>include/sglang/engine/config.h\<close> and \<^verbatim>\<open>include/sglang/scheduler/config.h\<close>
  that they fill. The environment variable \<open>HOME\<close> is an argument; numbers in floating point are
  rationals.
\<close>

section \<open>The configurations\<close>

datatype dtype = Float16 | BFloat16 | Float32

record engine_config =
  ec_model_path :: string
  ec_dtype :: dtype
  ec_max_running_req :: int
  ec_page_size :: int
  ec_memory_ratio :: rat
  ec_use_dummy_weight :: bool
  ec_enable_cuda_graph :: bool
  ec_random_seed :: int
  ec_max_seq_len_override :: "int option"
  ec_num_pages_override :: "int option"
  ec_cuda_graph_batch_sizes :: "int list"
  ec_cuda_graph_max_batch_size :: "int option"
  ec_cuda_graph_capture_max_seq_len :: int

record scheduler_config = engine_config +
  sc_max_extend_tokens :: int
  sc_cache_type :: string
  sc_enable_overlap_scheduling :: bool

text \<open>The memory ratio is the binary32 value of \<open>0.9F\<close>.\<close>

definition default_scheduler_config :: scheduler_config where
  "default_scheduler_config =
     \<lparr>ec_model_path = [], ec_dtype = Float16, ec_max_running_req = 256, ec_page_size = 1,
      ec_memory_ratio = 15099494 / 16777216, ec_use_dummy_weight = False, ec_enable_cuda_graph = False,
      ec_random_seed = 42, ec_max_seq_len_override = None, ec_num_pages_override = None,
      ec_cuda_graph_batch_sizes = [], ec_cuda_graph_max_batch_size = None,
      ec_cuda_graph_capture_max_seq_len = 4096, sc_max_extend_tokens = 8192,
      sc_cache_type = ''radix'', sc_enable_overlap_scheduling = True\<rparr>"

record server_args =
  sa_model_path :: string
  sa_dtype :: dtype
  sa_server_host :: string
  sa_server_port :: int
  sa_num_tokenizer_threads :: int
  sa_silent_output :: bool
  sa_max_running_req :: int
  sa_max_extend_tokens :: int
  sa_memory_ratio :: rat
  sa_page_size :: int
  sa_num_pages_override :: "int option"
  sa_max_seq_len_override :: "int option"
  sa_cuda_graph_max_batch_size :: "int option"
  sa_cuda_graph_batch_sizes :: "int list"
  sa_cuda_graph_capture_max_seq_len :: int
  sa_use_dummy_weight :: bool
  sa_enable_cuda_graph :: bool
  sa_shell_mode :: bool
  sa_cache_type :: string
  sa_enable_overlap_scheduling :: bool

definition default_server_args :: server_args where
  "default_server_args =
     (let d = default_scheduler_config in
      \<lparr>sa_model_path = [], sa_dtype = BFloat16, sa_server_host = ''127.0.0.1'',
       sa_server_port = 1919, sa_num_tokenizer_threads = 0, sa_silent_output = False,
       sa_max_running_req = ec_max_running_req d, sa_max_extend_tokens = sc_max_extend_tokens d,
       sa_memory_ratio = ec_memory_ratio d, sa_page_size = ec_page_size d,
       sa_num_pages_override = None, sa_max_seq_len_override = None,
       sa_cuda_graph_max_batch_size = None, sa_cuda_graph_batch_sizes = [],
       sa_cuda_graph_capture_max_seq_len = ec_cuda_graph_capture_max_seq_len d,
       sa_use_dummy_weight = False, sa_enable_cuda_graph = False, sa_shell_mode = False,
       sa_cache_type = sc_cache_type d,
       sa_enable_overlap_scheduling = sc_enable_overlap_scheduling d\<rparr>)"

definition share_tokenizer :: "server_args \<Rightarrow> bool" where
  "share_tokenizer a = (sa_num_tokenizer_threads a = 0)"

definition to_scheduler_config :: "server_args \<Rightarrow> scheduler_config" where
  "to_scheduler_config a =
     default_scheduler_config
       \<lparr>ec_model_path := sa_model_path a, ec_dtype := sa_dtype a,
        ec_max_running_req := sa_max_running_req a, ec_page_size := sa_page_size a,
        ec_memory_ratio := sa_memory_ratio a, ec_use_dummy_weight := sa_use_dummy_weight a,
        ec_enable_cuda_graph := sa_enable_cuda_graph a,
        ec_cuda_graph_max_batch_size := sa_cuda_graph_max_batch_size a,
        ec_cuda_graph_batch_sizes := sa_cuda_graph_batch_sizes a,
        ec_cuda_graph_capture_max_seq_len := sa_cuda_graph_capture_max_seq_len a,
        ec_max_seq_len_override := sa_max_seq_len_override a,
        ec_num_pages_override := sa_num_pages_override a,
        sc_max_extend_tokens := sa_max_extend_tokens a, sc_cache_type := sa_cache_type a,
        sc_enable_overlap_scheduling := sa_enable_overlap_scheduling a\<rparr>"

section \<open>The parser\<close>

definition parse_dtype :: "string \<Rightarrow> dtype result" where
  "parse_dtype v =
     (case map_of [(''float16'', Float16), (''fp16'', Float16), (''bfloat16'', BFloat16),
                   (''bf16'', BFloat16), (''float32'', Float32), (''fp32'', Float32)] v of
        None \<Rightarrow> Inl (InvalidArgument ''Unsupported dtype'')
      | Some d \<Rightarrow> Inr d)"

text \<open>\<open>require_value\<close>: the value and the arguments behind it.\<close>

definition require_value :: "string list \<Rightarrow> (string \<times> string list) result" where
  "require_value rest =
     (case rest of [] \<Rightarrow> Inl (InvalidArgument ''Missing value for argument'') | v # rest' \<Rightarrow> Inr (v, rest'))"

text \<open>The loop from separator to separator; empty pieces are skipped.\<close>

function parse_int_list :: "string \<Rightarrow> int list result" where
  "parse_int_list s =
     (let token = takeWhile (\<lambda>c. c \<noteq> CHR '','') s;
          rest = dropWhile (\<lambda>c. c \<noteq> CHR '','') s in
      res_bind (if token \<noteq> [] then res_bind (stoi token) (\<lambda>i. Inr [i]) else Inr []) (\<lambda>xs.
      if rest = [] then Inr xs
      else res_bind (parse_int_list (tl rest)) (\<lambda>ys. Inr (xs @ ys))))"
  by pat_completeness auto
termination
proof (relation "measure length")
  fix s :: string and token rest xs
  assume "rest = dropWhile (\<lambda>c. c \<noteq> CHR '','') s" "rest \<noteq> []"
  then show "(tl rest, s) \<in> measure length"
    using length_dropWhile_le [of "\<lambda>c. c \<noteq> CHR '',''" s] by (simp add: Suc_le_lessD Suc_diff_1 length_tl)
qed simp

declare parse_int_list.simps [simp del]

definition expand_home :: "string option \<Rightarrow> string \<Rightarrow> string" where
  "expand_home home path =
     (if path \<noteq> [] \<and> hd path = CHR ''~'' then
        (case home of Some h \<Rightarrow> h @ tl path | None \<Rightarrow> path)
      else path)"

definition with_value ::
  "string list \<Rightarrow> (string \<Rightarrow> server_args result) \<Rightarrow> (string list \<times> server_args) result" where
  "with_value rest f =
     res_bind (require_value rest) (\<lambda>(v, rest'). res_bind (f v) (\<lambda>r. Inr (rest', r)))"

definition with_int ::
  "string list \<Rightarrow> (int \<Rightarrow> server_args) \<Rightarrow> (string list \<times> server_args) result" where
  "with_int rest f = with_value rest (\<lambda>v. res_bind (stoi v) (\<lambda>i. Inr (f i)))"

text \<open>One pass of the loop: the option, the arguments behind it, the result so far.\<close>

definition parse_option ::
  "string option \<Rightarrow> string \<Rightarrow> string list \<Rightarrow> server_args \<Rightarrow> (string list \<times> server_args) result" where
  "parse_option home arg rest r =
     (if arg = ''--model-path'' \<or> arg = ''--model'' then
        with_value rest (\<lambda>v. Inr (r\<lparr>sa_model_path := expand_home home v\<rparr>))
      else if arg = ''--dtype'' then
        with_value rest (\<lambda>v. if v \<noteq> ''auto''
          then res_bind (parse_dtype v) (\<lambda>d. Inr (r\<lparr>sa_dtype := d\<rparr>)) else Inr r)
      else if arg = ''--host'' then
        with_value rest (\<lambda>v. Inr (r\<lparr>sa_server_host := v\<rparr>))
      else if arg = ''--port'' then with_int rest (\<lambda>i. r\<lparr>sa_server_port := i\<rparr>)
      else if arg = ''--num-tokenizer-threads'' \<or> arg = ''--num-tokenizer'' \<or>
          arg = ''--tokenizer-count'' then with_int rest (\<lambda>i. r\<lparr>sa_num_tokenizer_threads := i\<rparr>)
      else if arg = ''--max-running-requests'' then with_int rest (\<lambda>i. r\<lparr>sa_max_running_req := i\<rparr>)
      else if arg = ''--max-prefill-length'' \<or> arg = ''--max-extend-length'' then
        with_int rest (\<lambda>i. r\<lparr>sa_max_extend_tokens := i\<rparr>)
      else if arg = ''--memory-ratio'' then
        with_value rest (\<lambda>v. res_bind (stof v) (\<lambda>x. Inr (r\<lparr>sa_memory_ratio := x\<rparr>)))
      else if arg = ''--page-size'' then with_int rest (\<lambda>i. r\<lparr>sa_page_size := i\<rparr>)
      else if arg = ''--num-pages'' then with_int rest (\<lambda>i. r\<lparr>sa_num_pages_override := Some i\<rparr>)
      else if arg = ''--max-seq-len-override'' then
        with_int rest (\<lambda>i. r\<lparr>sa_max_seq_len_override := Some i\<rparr>)
      else if arg = ''--dummy-weight'' then Inr (rest, r\<lparr>sa_use_dummy_weight := True\<rparr>)
      else if arg = ''--disable-graph'' \<or> arg = ''--disable-cuda-graph'' then
        Inr (rest, r\<lparr>sa_enable_cuda_graph := False\<rparr>)
      else if arg = ''--graph'' \<or> arg = ''--cuda-graph-max-bs'' then
        with_int rest (\<lambda>i. r\<lparr>sa_enable_cuda_graph := True, sa_cuda_graph_max_batch_size := Some i\<rparr>)
      else if arg = ''--cuda-graph-batch-sizes'' then
        with_value rest (\<lambda>v. res_bind (parse_int_list v) (\<lambda>xs.
          Inr (r\<lparr>sa_enable_cuda_graph := True, sa_cuda_graph_batch_sizes := xs\<rparr>)))
      else if arg = ''--cuda-graph-capture-max-seq-len'' then
        with_int rest (\<lambda>i. r\<lparr>sa_cuda_graph_capture_max_seq_len := i\<rparr>)
      else if arg = ''--cache-type'' then
        with_value rest (\<lambda>v. Inr (r\<lparr>sa_cache_type := v\<rparr>))
      else if arg = ''--shell-mode'' then Inr (rest, r\<lparr>sa_shell_mode := True\<rparr>)
      else if arg = ''--silent-output'' then Inr (rest, r\<lparr>sa_silent_output := True\<rparr>)
      else if arg = ''--enable-overlap-scheduling'' then
        Inr (rest, r\<lparr>sa_enable_overlap_scheduling := True\<rparr>)
      else if arg = ''--disable-overlap-scheduling'' then
        Inr (rest, r\<lparr>sa_enable_overlap_scheduling := False\<rparr>)
      else Inl (InvalidArgument ''Unknown argument''))"

text \<open>An option takes at most its own value from the arguments behind it.\<close>

definition consumes :: "string list \<Rightarrow> (string list \<times> server_args) result \<Rightarrow> bool" where
  "consumes rest m \<longleftrightarrow> (\<forall>rest' r. m = Inr (rest', r) \<longrightarrow> length rest' \<le> length rest)"

lemma consumes_intros:
  "consumes rest m1 \<Longrightarrow> consumes rest m2 \<Longrightarrow> consumes rest (if b then m1 else m2)"
  "consumes rest (Inr (rest, r))" "consumes rest (Inl e)"
  "consumes rest (with_value rest f)" "consumes rest (with_int rest g)"
  by (auto simp: consumes_def with_int_def with_value_def require_value_def res_simps split: list.splits)

lemma parse_option_rest:
  "parse_option home arg rest r = Inr (rest', r') \<Longrightarrow> length rest' \<le> length rest"
proof -
  have "consumes rest (parse_option home arg rest r)"
    unfolding parse_option_def by (intro consumes_intros)
  then show "parse_option home arg rest r = Inr (rest', r') \<Longrightarrow> length rest' \<le> length rest"
    by (simp add: consumes_def)
qed

function parse_loop :: "string option \<Rightarrow> string list \<Rightarrow> server_args \<Rightarrow> server_args result" where
  "parse_loop home [] r = Inr r"
| "parse_loop home (arg # rest) r =
     res_bind (parse_option home arg rest r) (\<lambda>(rest', r'). parse_loop home rest' r')"
  by pat_completeness auto
termination
  by (relation "measure (\<lambda>(home, args, r). length args)") (auto dest: parse_option_rest)

definition parse :: "string option \<Rightarrow> string list \<Rightarrow> server_args result" where
  "parse home args =
     res_bind (parse_loop home args default_server_args) (\<lambda>r.
     res_bind (check (sa_model_path r \<noteq> []) (InvalidArgument ''--model-path is required'')) (\<lambda>_.
     Inr (if sa_shell_mode r then r\<lparr>sa_max_running_req := 1, sa_silent_output := True\<rparr> else r)))"

text \<open>\<open>parse(argc, argv)\<close> drops the name of the program.\<close>

definition parse_argv :: "string option \<Rightarrow> string list \<Rightarrow> server_args result" where
  "parse_argv home argv = parse home (drop 1 argv)"

end
