(* ===== verification/ArgsProps.thy ===== *)
theory ArgsProps
  imports Args
begin

text \<open>
  The command line can express every configuration, and the parser reads back exactly what was
  written; what it accepts is fit for the server.
\<close>

section \<open>Writing a command line\<close>

definition fits_int :: "int \<Rightarrow> bool" where
  "fits_int i \<longleftrightarrow> - (2 ^ 31) \<le> i \<and> i < 2 ^ 31"

fun join_ints :: "int list \<Rightarrow> string" where
  "join_ints [] = []"
| "join_ints [i] = int_to_string i"
| "join_ints (i # is) = int_to_string i @ CHR '','' # join_ints is"

definition dtype_name :: "dtype \<Rightarrow> string" where
  "dtype_name d = (case d of Float16 \<Rightarrow> ''float16'' | BFloat16 \<Rightarrow> ''bfloat16'' | Float32 \<Rightarrow> ''float32'')"

definition opt_arg :: "string \<Rightarrow> int option \<Rightarrow> string list" where
  "opt_arg name v = (case v of None \<Rightarrow> [] | Some i \<Rightarrow> [name, int_to_string i])"

definition flag_arg :: "string \<Rightarrow> bool \<Rightarrow> string list" where
  "flag_arg name b = (if b then [name] else [])"

text \<open>A command line for the arguments \<open>a\<close>, whose memory ratio is written \<open>ms\<close>.\<close>

definition render_args :: "server_args \<Rightarrow> string \<Rightarrow> string list" where
  "render_args a ms =
     [''--model-path'', sa_model_path a, ''--dtype'', dtype_name (sa_dtype a),
      ''--host'', sa_server_host a, ''--port'', int_to_string (sa_server_port a),
      ''--num-tokenizer-threads'', int_to_string (sa_num_tokenizer_threads a),
      ''--max-running-requests'', int_to_string (sa_max_running_req a),
      ''--max-prefill-length'', int_to_string (sa_max_extend_tokens a),
      ''--memory-ratio'', ms, ''--page-size'', int_to_string (sa_page_size a),
      ''--cuda-graph-capture-max-seq-len'', int_to_string (sa_cuda_graph_capture_max_seq_len a),
      ''--cuda-graph-batch-sizes'', join_ints (sa_cuda_graph_batch_sizes a),
      ''--cache-type'', sa_cache_type a] @
     opt_arg ''--num-pages'' (sa_num_pages_override a) @
     opt_arg ''--max-seq-len-override'' (sa_max_seq_len_override a) @
     opt_arg ''--cuda-graph-max-bs'' (sa_cuda_graph_max_batch_size a) @
     flag_arg ''--disable-graph'' (\<not> sa_enable_cuda_graph a) @
     flag_arg ''--dummy-weight'' (sa_use_dummy_weight a) @
     flag_arg ''--shell-mode'' (sa_shell_mode a) @
     flag_arg ''--silent-output'' (sa_silent_output a) @
     flag_arg ''--disable-overlap-scheduling'' (\<not> sa_enable_overlap_scheduling a)"

section \<open>Reading it back\<close>

lemma stoi_fits: "fits_int i \<Longrightarrow> stoi (int_to_string i) = Inr i"
  by (simp add: fits_int_def stoi_int_to_string)

lemma int_no_comma: "\<forall>c\<in>set (int_to_string i). c \<noteq> CHR '',''"
  using int_to_string_chars is_digit_cases(4) by fastforce

lemma parse_one_piece:
  assumes "\<forall>c\<in>set t. c \<noteq> CHR '',''" "t \<noteq> []" "stoi t = Inr i"
  shows "parse_int_list t = Inr [i]"
    "parse_int_list (t @ CHR '','' # rest) = res_bind (parse_int_list rest) (\<lambda>ys. Inr (i # ys))"
proof -
  have "takeWhile (\<lambda>c. c \<noteq> CHR '','') t = t" "dropWhile (\<lambda>c. c \<noteq> CHR '','') t = []"
    "takeWhile (\<lambda>c. c \<noteq> CHR '','') (t @ CHR '','' # rest) = t"
    "dropWhile (\<lambda>c. c \<noteq> CHR '','') (t @ CHR '','' # rest) = CHR '','' # rest"
    using assms(1) by (simp_all add: takeWhile_append dropWhile_append takeWhile_eq_all_conv dropWhile_eq_Nil_conv)
  then show "parse_int_list t = Inr [i]"
    "parse_int_list (t @ CHR '','' # rest) = res_bind (parse_int_list rest) (\<lambda>ys. Inr (i # ys))"
    using assms(2,3) by (subst parse_int_list.simps, simp add: Let_def del: takeWhile_eq_all_conv)+
qed

lemma parse_join_ints: "\<forall>i\<in>set is. fits_int i \<Longrightarrow> parse_int_list (join_ints is) = Inr is"
proof (induction "is" rule: join_ints.induct)
  case 1
  show ?case by (simp add: parse_int_list.simps)
next
  case (2 i)
  then show ?case using parse_one_piece(1) [OF int_no_comma] stoi_fits by simp
next
  case (3 i j js)
  have "join_ints (i # j # js) = int_to_string i @ CHR '','' # join_ints (j # js)" by simp
  then show ?case using parse_one_piece(2) [OF int_no_comma] stoi_fits 3 by (simp del: join_ints.simps)
qed

lemma with_int_step [simp]:
  "fits_int i \<Longrightarrow> with_int (int_to_string i # rest) f = Inr (rest, f i)"
  by (simp add: with_int_def with_value_def require_value_def stoi_fits)

lemma with_value_step [simp]: "with_value (v # rest) f = res_bind (f v) (\<lambda>r. Inr (rest, r))"
  by (simp add: with_value_def require_value_def)

lemma option_values:
  "parse_option home ''--model-path'' rest r = with_value rest (\<lambda>v. Inr (r\<lparr>sa_model_path := expand_home home v\<rparr>))"
  "parse_option home ''--dtype'' rest r = with_value rest (\<lambda>v. if v \<noteq> ''auto''
     then res_bind (parse_dtype v) (\<lambda>d. Inr (r\<lparr>sa_dtype := d\<rparr>)) else Inr r)"
  "parse_option home ''--host'' rest r = with_value rest (\<lambda>v. Inr (r\<lparr>sa_server_host := v\<rparr>))"
  "parse_option home ''--memory-ratio'' rest r =
     with_value rest (\<lambda>v. res_bind (stof v) (\<lambda>x. Inr (r\<lparr>sa_memory_ratio := x\<rparr>)))"
  "parse_option home ''--cuda-graph-batch-sizes'' rest r = with_value rest (\<lambda>v. res_bind (parse_int_list v)
     (\<lambda>xs. Inr (r\<lparr>sa_enable_cuda_graph := True, sa_cuda_graph_batch_sizes := xs\<rparr>)))"
  "parse_option home ''--cache-type'' rest r = with_value rest (\<lambda>v. Inr (r\<lparr>sa_cache_type := v\<rparr>))"
  by (simp_all add: parse_option_def)

lemma option_ints:
  "parse_option home ''--port'' rest r = with_int rest (\<lambda>i. r\<lparr>sa_server_port := i\<rparr>)"
  "parse_option home ''--num-tokenizer-threads'' rest r = with_int rest (\<lambda>i. r\<lparr>sa_num_tokenizer_threads := i\<rparr>)"
  "parse_option home ''--max-running-requests'' rest r = with_int rest (\<lambda>i. r\<lparr>sa_max_running_req := i\<rparr>)"
  "parse_option home ''--max-prefill-length'' rest r = with_int rest (\<lambda>i. r\<lparr>sa_max_extend_tokens := i\<rparr>)"
  "parse_option home ''--page-size'' rest r = with_int rest (\<lambda>i. r\<lparr>sa_page_size := i\<rparr>)"
  "parse_option home ''--num-pages'' rest r = with_int rest (\<lambda>i. r\<lparr>sa_num_pages_override := Some i\<rparr>)"
  "parse_option home ''--max-seq-len-override'' rest r = with_int rest (\<lambda>i. r\<lparr>sa_max_seq_len_override := Some i\<rparr>)"
  "parse_option home ''--cuda-graph-max-bs'' rest r =
     with_int rest (\<lambda>i. r\<lparr>sa_enable_cuda_graph := True, sa_cuda_graph_max_batch_size := Some i\<rparr>)"
  "parse_option home ''--cuda-graph-capture-max-seq-len'' rest r =
     with_int rest (\<lambda>i. r\<lparr>sa_cuda_graph_capture_max_seq_len := i\<rparr>)"
  by (simp_all add: parse_option_def)

lemma option_flags:
  "parse_option home ''--disable-graph'' rest r = Inr (rest, r\<lparr>sa_enable_cuda_graph := False\<rparr>)"
  "parse_option home ''--dummy-weight'' rest r = Inr (rest, r\<lparr>sa_use_dummy_weight := True\<rparr>)"
  "parse_option home ''--shell-mode'' rest r = Inr (rest, r\<lparr>sa_shell_mode := True\<rparr>)"
  "parse_option home ''--silent-output'' rest r = Inr (rest, r\<lparr>sa_silent_output := True\<rparr>)"
  "parse_option home ''--disable-overlap-scheduling'' rest r =
     Inr (rest, r\<lparr>sa_enable_overlap_scheduling := False\<rparr>)"
  by (simp_all add: parse_option_def)

text \<open>The optional and the boolean parts of the command line.\<close>

lemma loop_opt_arg:
  assumes "\<And>i rest. fits_int i \<Longrightarrow> parse_option home name (int_to_string i # rest) r = Inr (rest, f i)"
    and "\<And>i. v = Some i \<Longrightarrow> fits_int i"
  shows "parse_loop home (opt_arg name v @ rest) r =
     parse_loop home rest (case v of None \<Rightarrow> r | Some i \<Rightarrow> f i)"
  using assms by (cases v) (simp_all add: opt_arg_def)

lemma loop_flag_arg:
  assumes "\<And>rest. parse_option home name rest r = Inr (rest, r')"
  shows "parse_loop home (flag_arg name b @ rest) r = parse_loop home rest (if b then r' else r)"
  using assms by (simp add: flag_arg_def)

lemma parse_dtype_name: "dtype_name d \<noteq> ''auto''" "parse_dtype (dtype_name d) = Inr d"
  by (cases d; simp add: dtype_name_def parse_dtype_def)+

definition renderable :: "server_args \<Rightarrow> bool" where
  "renderable a \<longleftrightarrow> sa_model_path a \<noteq> [] \<and> hd (sa_model_path a) \<noteq> CHR ''~'' \<and>
     (sa_shell_mode a \<longrightarrow> sa_max_running_req a = 1 \<and> sa_silent_output a) \<and>
     fits_int (sa_server_port a) \<and> fits_int (sa_num_tokenizer_threads a) \<and>
     fits_int (sa_max_running_req a) \<and> fits_int (sa_max_extend_tokens a) \<and>
     fits_int (sa_page_size a) \<and> fits_int (sa_cuda_graph_capture_max_seq_len a) \<and>
     (\<forall>i \<in> set (sa_cuda_graph_batch_sizes a). fits_int i) \<and>
     (\<forall>v \<in> {sa_num_pages_override a, sa_max_seq_len_override a, sa_cuda_graph_max_batch_size a}.
        \<forall>i. v = Some i \<longrightarrow> fits_int i)"

lemma parse_loop_render:
  assumes "renderable a" "stof ms = Inr (sa_memory_ratio a)"
  shows "parse_loop home (render_args a ms) default_server_args = Inr a"
proof -
  have f: "fits_int (sa_server_port a)" "fits_int (sa_num_tokenizer_threads a)"
    "fits_int (sa_max_running_req a)" "fits_int (sa_max_extend_tokens a)" "fits_int (sa_page_size a)"
    "fits_int (sa_cuda_graph_capture_max_seq_len a)" "\<forall>i \<in> set (sa_cuda_graph_batch_sizes a). fits_int i"
    "\<And>i. sa_num_pages_override a = Some i \<Longrightarrow> fits_int i"
    "\<And>i. sa_max_seq_len_override a = Some i \<Longrightarrow> fits_int i"
    "\<And>i. sa_cuda_graph_max_batch_size a = Some i \<Longrightarrow> fits_int i"
    "expand_home home (sa_model_path a) = sa_model_path a"
    using assms(1) by (simp_all add: renderable_def expand_home_def)
  have opts: "parse_loop home (opt_arg ''--num-pages'' (sa_num_pages_override a) @ rest) r =
      parse_loop home rest (case sa_num_pages_override a of None \<Rightarrow> r
        | Some i \<Rightarrow> r\<lparr>sa_num_pages_override := Some i\<rparr>)"
    "parse_loop home (opt_arg ''--max-seq-len-override'' (sa_max_seq_len_override a) @ rest) r =
      parse_loop home rest (case sa_max_seq_len_override a of None \<Rightarrow> r
        | Some i \<Rightarrow> r\<lparr>sa_max_seq_len_override := Some i\<rparr>)"
    "parse_loop home (opt_arg ''--cuda-graph-max-bs'' (sa_cuda_graph_max_batch_size a) @ rest) r =
      parse_loop home rest (case sa_cuda_graph_max_batch_size a of None \<Rightarrow> r
        | Some i \<Rightarrow> r\<lparr>sa_enable_cuda_graph := True, sa_cuda_graph_max_batch_size := Some i\<rparr>)" for rest r
    by (rule loop_opt_arg; simp add: option_ints f(8-10))+
  note flags = loop_flag_arg [where home = home, OF option_flags(1)]
    loop_flag_arg [where home = home, OF option_flags(2)] loop_flag_arg [where home = home, OF option_flags(3)]
    loop_flag_arg [where home = home, OF option_flags(4)]
    loop_flag_arg [where home = home and rest = "[]", OF option_flags(5), simplified]
  show ?thesis
    unfolding render_args_def append_Cons append_Nil
    by (simp only: parse_loop.simps(2) option_values option_ints with_int_step [OF f(1)] with_int_step [OF f(2)]
        with_int_step [OF f(3)] with_int_step [OF f(4)] with_int_step [OF f(5)] with_int_step [OF f(6)]
        with_value_step f(11) parse_dtype_name assms(2) parse_join_ints [OF f(7)] res_bind_Inr prod.case
        if_True not_False_eq_True simp_thms opts flags parse_loop.simps(1))
      (simp add: default_server_args_def Let_def default_scheduler_config_def split: option.splits)
qed

text \<open>
  C28: Round trip of the command line: writing any arguments whose numbers fit into an \<open>int\<close> as
  options and parsing them gives the same arguments back, field by field.
\<close>

theorem args_roundtrip:
  assumes "renderable a" "stof ms = Inr (sa_memory_ratio a)"
  shows "parse home (render_args a ms) = Inr a"
proof -
  have "sa_model_path a \<noteq> []" "sa_shell_mode a \<Longrightarrow> a\<lparr>sa_max_running_req := 1, sa_silent_output := True\<rparr> = a"
    using assms(1) by (cases a, simp_all add: renderable_def)
  then show ?thesis
    unfolding parse_def parse_loop_render [OF assms] by simp
qed

definition demo_args :: server_args where
  "demo_args = default_server_args\<lparr>sa_model_path := ''/m'', sa_server_port := -5,
     sa_memory_ratio := 1 / 4, sa_num_pages_override := Some 256,
     sa_cuda_graph_batch_sizes := [1, 16]\<rparr>"

theorem args_roundtrip_witness: "parse None (render_args demo_args ''0.25'') = Inr demo_args"
proof (rule args_roundtrip)
  show "renderable demo_args"
    by (simp add: renderable_def demo_args_def default_server_args_def Let_def
        default_scheduler_config_def fits_int_def)
  show "stof ''0.25'' = Inr (sa_memory_ratio demo_args)"
    by (simp add: demo_args_def default_server_args_def Let_def default_scheduler_config_def stof_def
        read_sign_def is_space_def is_digit_def read_digits_def read_exponent_def)
qed

text \<open>
  What the parser accepts: the model path is never empty, shell mode always means one running
  request and silent output, and an unknown option or a missing value is refused wherever it
  stands at the front of the remaining arguments.
\<close>

theorem parse_accepts_valid:
  assumes "parse home args = Inr a"
  shows "sa_model_path a \<noteq> [] \<and> (sa_shell_mode a \<longrightarrow> sa_max_running_req a = 1 \<and> sa_silent_output a) \<and>
     parse home [''--port''] = Inl (InvalidArgument ''Missing value for argument'') \<and>
     parse home (''--what'' # args) = Inl (InvalidArgument ''Unknown argument'')"
proof -
  have "parse home [''--port''] = Inl (InvalidArgument ''Missing value for argument'')"
    by (simp add: parse_def option_ints with_int_def with_value_def require_value_def)
  moreover have "parse_option home ''--what'' args r = Inl (InvalidArgument ''Unknown argument'')" for r
    by (simp add: parse_option_def)
  moreover have "sa_model_path a \<noteq> [] \<and> (sa_shell_mode a \<longrightarrow> sa_max_running_req a = 1 \<and> sa_silent_output a)"
  proof -
    obtain r where "sa_model_path r \<noteq> []"
      "a = (if sa_shell_mode r then r\<lparr>sa_max_running_req := 1, sa_silent_output := True\<rparr> else r)"
      using assms unfolding parse_def by (auto simp: res_simps)
    then show ?thesis by (cases "sa_shell_mode r") simp_all
  qed
  ultimately show ?thesis by (simp add: parse_def)
qed

theorem parse_accepts_valid_witness:
  "parse None [''--what'', ''--model'', ''m''] = Inl (InvalidArgument ''Unknown argument'')"
proof -
  have "parse None [''--model'', ''m''] = Inr (default_server_args\<lparr>sa_model_path := ''m''\<rparr>)"
    by (simp add: parse_def parse_option_def expand_home_def default_server_args_def Let_def
        default_scheduler_config_def)
  from parse_accepts_valid [OF this] show ?thesis by simp
qed

end
