(* ===== verification/Tokenizer.thy ===== *)
theory Tokenizer
  imports Scheduler Strings
begin

text \<open>
  The tokenizer of \<^verbatim>\<open>src/tokenizer/hf_tokenizer.cc\<close>: the chat template, and the incremental
  decoder that turns the tokens of each request into pieces of text. The vocabulary itself
  (\<open>tokenizers::Tokenizer\<close>, a library) is given by its two functions \<open>encode\<close> and \<open>decode\<close>;
  strings are lists of bytes.
\<close>

section \<open>UTF-8\<close>

text \<open>
  \<open>std::wstring_convert<std::codecvt_utf8<char32_t>>\<close>: \<open>from_bytes\<close> fails on malformed input
  (a stray or missing continuation byte, an overlong form, a value beyond \<open>10FFFF\<close>).
\<close>

definition is_cont :: "nat \<Rightarrow> bool" where
  "is_cont b \<longleftrightarrow> 128 \<le> b \<and> b < 192"

definition code_point2 :: "nat \<Rightarrow> nat \<Rightarrow> nat" where
  "code_point2 b c = (b - 192) * 64 + (c - 128)"

definition code_point3 :: "nat \<Rightarrow> nat \<Rightarrow> nat \<Rightarrow> nat" where
  "code_point3 b c d = (b - 224) * 4096 + (c - 128) * 64 + (d - 128)"

definition code_point4 :: "nat \<Rightarrow> nat \<Rightarrow> nat \<Rightarrow> nat \<Rightarrow> nat" where
  "code_point4 b c d e = (b - 240) * 262144 + (c - 128) * 4096 + (d - 128) * 64 + (e - 128)"

fun utf8_decode :: "nat list \<Rightarrow> nat list option" where
  "utf8_decode [] = Some []"
| "utf8_decode (b # bs) =
     (if b < 128 then map_option (Cons b) (utf8_decode bs)
      else if 194 \<le> b \<and> b < 224 then
        (case bs of
           c # r \<Rightarrow> if is_cont c then map_option (Cons (code_point2 b c)) (utf8_decode r) else None
         | _ \<Rightarrow> None)
      else if 224 \<le> b \<and> b < 240 then
        (case bs of
           c # d # r \<Rightarrow>
             (let cp = code_point3 b c d in
              if is_cont c \<and> is_cont d \<and> 2048 \<le> cp then map_option (Cons cp) (utf8_decode r) else None)
         | _ \<Rightarrow> None)
      else if 240 \<le> b \<and> b < 245 then
        (case bs of
           c # d # e # r \<Rightarrow>
             (let cp = code_point4 b c d e in
              if is_cont c \<and> is_cont d \<and> is_cont e \<and> 65536 \<le> cp \<and> cp \<le> 1114111
              then map_option (Cons cp) (utf8_decode r) else None)
         | _ \<Rightarrow> None)
      else None)"

definition utf8_encode1 :: "nat \<Rightarrow> nat list" where
  "utf8_encode1 cp =
     (if cp < 128 then [cp]
      else if cp < 2048 then [192 + cp div 64, 128 + cp mod 64]
      else if cp < 65536 then [224 + cp div 4096, 128 + cp div 64 mod 64, 128 + cp mod 64]
      else [240 + cp div 262144, 128 + cp div 4096 mod 64, 128 + cp div 64 mod 64, 128 + cp mod 64])"

definition from_bytes :: "string \<Rightarrow> nat list option" where
  "from_bytes s = utf8_decode (map of_char s)"

definition to_bytes :: "nat list \<Rightarrow> string" where
  "to_bytes cps = map char_of (concat (map utf8_encode1 cps))"

section \<open>Printable text\<close>

definition is_chinese_char :: "nat \<Rightarrow> bool" where
  "is_chinese_char cp \<longleftrightarrow>
     (0x4E00 \<le> cp \<and> cp \<le> 0x9FFF) \<or> (0x3400 \<le> cp \<and> cp \<le> 0x4DBF) \<or>
     (0x20000 \<le> cp \<and> cp \<le> 0x2A6DF) \<or> (0x2A700 \<le> cp \<and> cp \<le> 0x2B73F) \<or>
     (0x2B740 \<le> cp \<and> cp \<le> 0x2B81F) \<or> (0x2B820 \<le> cp \<and> cp \<le> 0x2CEAF) \<or>
     (0xF900 \<le> cp \<and> cp \<le> 0xFAFF) \<or> (0x2F800 \<le> cp \<and> cp \<le> 0x2FA1F)"

definition newline :: char where
  "newline = char_of (10 :: nat)"

definition find_printable_text :: "string \<Rightarrow> string" where
  "find_printable_text text =
     (if text = [] then text
      else if last text = newline then text
      else
        (case from_bytes text of
           None \<Rightarrow> text
         | Some u \<Rightarrow>
             (if u = [] then text
              else if is_chinese_char (last u) then text
              else if length u > 1 \<and> is_chinese_char (u ! (length u - 2))
                then to_bytes (take (length u - 1) u)
              else
                (case rfind_char (CHR '' '') text of
                   Some i \<Rightarrow> take (i + 1) text
                 | None \<Rightarrow> text))))"

section \<open>The chat template\<close>

record chat_message =
  role :: string
  content :: string

definition dirname :: "string \<Rightarrow> string" where
  "dirname path =
     (if \<exists>c\<in>set path. c = CHR ''/'' \<or> c = CHR 0x5C
      then take (length path - 1 -
             length (takeWhile (\<lambda>c. \<not> (c = CHR ''/'' \<or> c = CHR 0x5C)) (rev path))) path
      else ''.'')"

definition im_start :: string where "im_start = ''<|im_start|>''"
definition im_end :: string where "im_end = ''<|im_end|>''"

definition render_qwen_im_template :: "chat_message list \<Rightarrow> bool \<Rightarrow> string" where
  "render_qwen_im_template messages add_generation_prompt =
     concat (map (\<lambda>m. im_start @ role m @ [newline] @ content m @ im_end @ [newline]) messages) @
     (if add_generation_prompt then im_start @ ''assistant'' @ [newline] else [])"

text \<open>
  The renderer is in the Qwen mode or has none. The constructor reads the template of
  \<^verbatim>\<open>tokenizer_config.json\<close>: \<open>None\<close> when the file, the field or its string is missing.
\<close>

datatype template_mode = QwenIm

definition chat_template_renderer :: "string option \<Rightarrow> template_mode option" where
  "chat_template_renderer template_str =
     (case template_str of
        Some t \<Rightarrow> if contains_sub im_start t \<and> contains_sub im_end t then Some QwenIm else None
      | None \<Rightarrow> None)"

definition render :: "template_mode option \<Rightarrow> chat_message list \<Rightarrow> bool \<Rightarrow> string" where
  "render mode messages add_generation_prompt =
     (case mode of
        None \<Rightarrow> concat (map (\<lambda>m. role m @ '': '' @ content m @ [newline]) messages) @
                (if add_generation_prompt then ''assistant: '' else [])
      | Some QwenIm \<Rightarrow> render_qwen_im_template messages add_generation_prompt)"

datatype tokenize_input = Text string | Messages "chat_message list"

definition tokenize_one ::
  "(string \<Rightarrow> int list result) \<Rightarrow> template_mode option \<Rightarrow> tokenize_input \<Rightarrow> int list result" where
  "tokenize_one encode mode input =
     (case input of Text prompt \<Rightarrow> encode prompt | Messages ms \<Rightarrow> encode (render mode ms True))"

record tokenize_msg =
  tm_uid :: nat
  tm_text :: tokenize_input
  tm_sampling :: sampling_params

fun tokenize ::
  "(string \<Rightarrow> int list result) \<Rightarrow> template_mode option \<Rightarrow> tokenize_msg list \<Rightarrow> int list list result" where
  "tokenize encode mode [] = Inr []"
| "tokenize encode mode (m # ms) =
     (case tokenize_one encode mode (tm_text m) of
        Inl e \<Rightarrow> Inl e
      | Inr ids \<Rightarrow>
          (case tokenize encode mode ms of Inl e \<Rightarrow> Inl e | Inr r \<Rightarrow> Inr (ids # r)))"

section \<open>Incremental decoding\<close>

record decode_status =
  decoded_ids :: "int list"
  decoded_str :: string
  read_offset :: nat
  surr_offset :: nat
  sent_offset :: nat

definition fresh_status :: decode_status where
  "fresh_status = \<lparr>decoded_ids = [], decoded_str = [], read_offset = 0, surr_offset = 0, sent_offset = 0\<rparr>"

type_synonym decode_map = "nat \<Rightarrow> decode_status option"

text \<open>The first loop: the new token enters its status, and the two slices are cut.\<close>

definition collect_one ::
  "detokenize_msg \<Rightarrow> decode_map \<Rightarrow> (int list \<times> int list) \<times> decode_map" where
  "collect_one msg dm =
     (let s0 = (case dm (msg_uid msg) of None \<Rightarrow> fresh_status | Some s \<Rightarrow> s);
          s = (if msg_next_token msg \<ge> 0
               then s0\<lparr>decoded_ids := decoded_ids s0 @ [msg_next_token msg]\<rparr> else s0) in
      ((drop (surr_offset s) (decoded_ids s), tslice (surr_offset s) (read_offset s) (decoded_ids s)),
       dm(msg_uid msg \<mapsto> s)))"

fun collect_all ::
  "detokenize_msg list \<Rightarrow> decode_map \<Rightarrow> (int list \<times> int list) list \<times> decode_map" where
  "collect_all [] dm = ([], dm)"
| "collect_all (m # ms) dm =
     (let (sl, dm1) = collect_one m dm; (sls, dm2) = collect_all ms dm1 in (sl # sls, dm2))"

definition replacement :: string where
  "replacement = [char_of (239 :: nat), char_of (191 :: nat), char_of (189 :: nat)]"

definition decode_text :: "(int list \<Rightarrow> string) \<Rightarrow> int list \<Rightarrow> string" where
  "decode_text decode ids = (if ids = [] then [] else decode ids)"

text \<open>
  One pass of the last loop: the text to send and the new status. An exception leaves the status
  as far as it was updated.
\<close>

definition advance :: "string \<Rightarrow> string \<Rightarrow> decode_status \<Rightarrow> string result \<times> decode_status" where
  "advance read_str surr_str s =
     (case substr_from read_str (length surr_str) of
        Inl e \<Rightarrow> (Inl e, s)
      | Inr new_text \<Rightarrow>
          (let ends = (length new_text \<ge> 3 \<and> drop (length new_text - 3) new_text = replacement);
               fresh = (new_text \<noteq> [] \<and> \<not> ends);
               s1 = (if fresh
                     then s\<lparr>decoded_str := decoded_str s @ new_text, surr_offset := read_offset s,
                            read_offset := length (decoded_ids s)\<rparr>
                     else s);
               new_text1 = (if fresh then new_text else find_printable_text new_text);
               full = (if ends then find_printable_text (decoded_str s1 @ new_text1) else decoded_str s1) in
           case substr_from full (sent_offset s1) of
             Inl e \<Rightarrow> (Inl e, s1)
           | Inr incremental \<Rightarrow> (Inr incremental, s1\<lparr>sent_offset := length full\<rparr>)))"

fun emit_all ::
  "detokenize_msg list \<Rightarrow> (string \<times> string) list \<Rightarrow> decode_map \<Rightarrow> string list result \<times> decode_map" where
  "emit_all (m # ms) ((r, u) # texts) dm =
     (let s = (case dm (msg_uid m) of None \<Rightarrow> fresh_status | Some s \<Rightarrow> s) in
      case advance r u s of
        (Inl e, s') \<Rightarrow> (Inl e, dm(msg_uid m \<mapsto> s'))
      | (Inr inc, s') \<Rightarrow>
          (let (out, dm') = emit_all ms texts
                 (if msg_finished m then dm(msg_uid m := None) else dm(msg_uid m \<mapsto> s'))
           in (res_bind out (\<lambda>incs. Inr (inc # incs)), dm')))"
| "emit_all _ _ dm = (Inr [], dm)"

definition detokenize ::
  "(int list \<Rightarrow> string) \<Rightarrow> detokenize_msg list \<Rightarrow> decode_map \<Rightarrow> string list result \<times> decode_map" where
  "detokenize decode msgs dm =
     (let (slices, dm1) = collect_all msgs dm;
          texts = map (\<lambda>(r, u). (decode_text decode r, decode_text decode u)) slices
      in emit_all msgs texts dm1)"

end
