(* ===== verification/Frontend.thy ===== *)
theory Frontend
  imports Tokenizer
begin

text \<open>
  The front end of \<^verbatim>\<open>src/server/frontend.cc\<close>: the contexts of the requests with their promises,
  the queues of the tokenizer pool and of the scheduler thread, and every handler that runs on
  them.

  A context is shared by the map and by the threads that wait on it, so it is a reference into
  \<open>ctx_at\<close>. A future is a number; \<open>chunk_log\<close> and \<open>result_log\<close> are history variables, the
  futures that were fulfilled, with the context they belong to. A handler runs its critical
  section on a context under the lock of that context, and is one step of the model; a call
  that blocks on a condition variable is a call that gets or makes its context, followed later
  by a step that is enabled when the condition holds.
\<close>

section \<open>State\<close>

record generate_response =
  gr_uid :: nat
  incremental_output :: string
  gr_finished :: bool

record text_result =
  tr_uid :: nat
  tr_text :: string
  tr_token_ids :: "int list"
  tr_finished :: bool

record request_context =
  rc_uid :: nat
  token_ids :: "int list"
  rc_text :: string
  pending_chunks :: "generate_response list"
  pending_chunk_promise :: "nat option"
  result_promise :: "nat option"
  finished :: bool
  aborted :: bool

definition request_context_init :: "nat \<Rightarrow> request_context" where
  "request_context_init uid =
     \<lparr>rc_uid = uid, token_ids = [], rc_text = [], pending_chunks = [], pending_chunk_promise = None,
      result_promise = None, finished = False, aborted = False\<rparr>"

datatype encode_task =
    TokenizeAsync nat tokenize_input sampling_params
  | TokenizeDispatch nat tokenize_input sampling_params

datatype decode_task =
    DetokenizeAsync nat "detokenize_msg list"
  | DetokenizeDispatch "detokenize_msg list"

record tokenizer_pool =
  num_encode_threads :: int
  encode_tasks :: "encode_task list"
  decode_tasks :: "decode_task list"
  decode_state :: decode_map
  pool_stop :: bool
  pool_futures :: nat
  tokenize_log :: "(nat \<times> int list result) list"
  detokenize_log :: "(nat \<times> string list result) list"

datatype command = KSubmit generate_request | KAbort nat

record scheduler_runner =
  sched :: scheduler
  commands :: "command list"
  running :: bool
  stop_requested :: bool

record frontend =
  next_uid :: nat
  contexts :: "nat \<Rightarrow> nat option"
  ctx_at :: "nat \<Rightarrow> request_context"
  next_ctx :: nat
  next_future :: nat
  chunk_log :: "(nat \<times> nat \<times> generate_response option) list"
  result_log :: "(nat \<times> nat \<times> text_result) list"
  pool :: tokenizer_pool
  runner :: scheduler_runner

definition pool_init :: "int \<Rightarrow> tokenizer_pool" where
  "pool_init threads =
     \<lparr>num_encode_threads = max 1 threads, encode_tasks = [], decode_tasks = [], decode_state = (\<lambda>_. None),
      pool_stop = False, pool_futures = 0, tokenize_log = [], detokenize_log = []\<rparr>"

definition runner_init :: "scheduler \<Rightarrow> scheduler_runner" where
  "runner_init s = \<lparr>sched = s, commands = [], running = False, stop_requested = False\<rparr>"

definition frontend_init :: "int \<Rightarrow> scheduler \<Rightarrow> frontend" where
  "frontend_init threads s =
     \<lparr>next_uid = 0, contexts = (\<lambda>_. None), ctx_at = (\<lambda>_. request_context_init 0), next_ctx = 0,
      next_future = 0, chunk_log = [], result_log = [], pool = pool_init threads, runner = runner_init s\<rparr>"

section \<open>The input of a request\<close>

text \<open>
  A tensor of token numbers: its dimension, whether its elements are 32 bits wide, and the
  elements. Its device and its layout do not change what it contains; the conversion of 64-bit
  elements keeps the lower half.
\<close>

record ids_tensor =
  ids_dim :: nat
  ids_int32 :: bool
  ids_data :: "int list"

definition to_int32 :: "int \<Rightarrow> int" where
  "to_int32 i = (i + 2 ^ 31) mod 2 ^ 32 - 2 ^ 31"

definition normalize_input_ids :: "ids_tensor \<Rightarrow> int list result" where
  "normalize_input_ids t =
     (let ids = (if ids_int32 t then ids_data t else map to_int32 (ids_data t)) in
      if ids_dim t = 1 then Inr ids
      else Inl (TorchCheck ''GenerateRequest.input_ids must be a 1D tensor''))"

definition make_text_result :: "nat \<Rightarrow> request_context \<Rightarrow> text_result" where
  "make_text_result uid c =
     \<lparr>tr_uid = uid, tr_text = rc_text c, tr_token_ids = token_ids c, tr_finished = finished c\<rparr>"

text \<open>\<open>value\<close> is the environment variable; the delay is in microseconds.\<close>

definition submit_coalesce_delay :: "string option \<Rightarrow> int" where
  "submit_coalesce_delay value =
     (case value of
        None \<Rightarrow> 1000
      | Some v \<Rightarrow> (case stoi v of Inl _ \<Rightarrow> 1000 | Inr n \<Rightarrow> max 0 n))"

section \<open>The tokenizer pool\<close>

definition tokenize_async :: "tokenize_input \<Rightarrow> sampling_params \<Rightarrow> tokenizer_pool \<Rightarrow> nat \<times> tokenizer_pool" where
  "tokenize_async input sp p =
     (pool_futures p,
      p\<lparr>pool_futures := Suc (pool_futures p),
        encode_tasks := encode_tasks p @ [TokenizeAsync (pool_futures p) input sp]\<rparr>)"

definition detokenize_async :: "detokenize_msg list \<Rightarrow> tokenizer_pool \<Rightarrow> nat \<times> tokenizer_pool" where
  "detokenize_async msgs p =
     (pool_futures p,
      p\<lparr>pool_futures := Suc (pool_futures p),
        decode_tasks := decode_tasks p @ [DetokenizeAsync (pool_futures p) msgs]\<rparr>)"

definition tokenize_dispatch :: "nat \<Rightarrow> tokenize_input \<Rightarrow> sampling_params \<Rightarrow> tokenizer_pool \<Rightarrow> tokenizer_pool" where
  "tokenize_dispatch uid input sp p = p\<lparr>encode_tasks := encode_tasks p @ [TokenizeDispatch uid input sp]\<rparr>"

definition detokenize_dispatch :: "detokenize_msg list \<Rightarrow> tokenizer_pool \<Rightarrow> tokenizer_pool" where
  "detokenize_dispatch msgs p = p\<lparr>decode_tasks := decode_tasks p @ [DetokenizeDispatch msgs]\<rparr>"

text \<open>The destructor raises the flag; the threads return once their queue is empty.\<close>

definition pool_shutdown :: "tokenizer_pool \<Rightarrow> tokenizer_pool" where
  "pool_shutdown p = p\<lparr>pool_stop := True\<rparr>"

datatype 'a worker_step = Waits | Leaves | Runs 'a

definition encode_loop_body :: "tokenizer_pool \<Rightarrow> (encode_task \<times> tokenizer_pool) worker_step" where
  "encode_loop_body p =
     (case encode_tasks p of
        [] \<Rightarrow> if pool_stop p then Leaves else Waits
      | t # ts \<Rightarrow> Runs (t, p\<lparr>encode_tasks := ts\<rparr>))"

definition decode_loop_body :: "tokenizer_pool \<Rightarrow> (decode_task \<times> tokenizer_pool) worker_step" where
  "decode_loop_body p =
     (case decode_tasks p of
        [] \<Rightarrow> if pool_stop p then Leaves else Waits
      | t # ts \<Rightarrow> Runs (t, p\<lparr>decode_tasks := ts\<rparr>))"

section \<open>The scheduler thread\<close>

definition runner_start :: "scheduler_runner \<Rightarrow> scheduler_runner" where
  "runner_start r = (if running r then r else r\<lparr>stop_requested := False, running := True\<rparr>)"

text \<open>\<open>stop\<close> asks the thread to leave, waits for it and then marks the runner as stopped.\<close>

definition runner_request_stop :: "scheduler_runner \<Rightarrow> scheduler_runner" where
  "runner_request_stop r = (if running r then r\<lparr>stop_requested := True\<rparr> else r)"

definition runner_joined :: "scheduler_runner \<Rightarrow> scheduler_runner" where
  "runner_joined r = r\<lparr>running := False\<rparr>"

definition runner_submit :: "generate_request \<Rightarrow> scheduler_runner \<Rightarrow> scheduler_runner" where
  "runner_submit g r = r\<lparr>commands := commands r @ [KSubmit g]\<rparr>"

definition runner_abort :: "nat \<Rightarrow> scheduler_runner \<Rightarrow> scheduler_runner" where
  "runner_abort uid r = r\<lparr>commands := commands r @ [KAbort uid]\<rparr>"

definition run_command :: "command \<Rightarrow> scheduler \<Rightarrow> scheduler result" where
  "run_command c s = (case c of KSubmit g \<Rightarrow> Inr (submit g s) | KAbort uid \<Rightarrow> abort uid s)"

text \<open>
  One round of \<open>run_loop\<close>: \<open>late\<close> are the commands that other threads queue while the thread
  waits for more submissions, \<open>delay\<close> is \<open>submit_coalesce_delay\<close>. The first component of the
  result are the replies, which go to \<open>reply_callback_\<close> when there are any.
\<close>

definition run_loop_body ::
  "'l model_fns \<Rightarrow> int \<Rightarrow> command list \<Rightarrow> scheduler_runner \<Rightarrow>
   (detokenize_msg list \<times> scheduler_runner) worker_step result" where
  "run_loop_body fns delay late r =
     (let idle = (commands r = [] \<and> \<not> has_work (sched r)) in
      if idle then Inr (if stop_requested r then Leaves else Waits)
      else
        (let coalesce = (\<not> stop_requested r \<and> commands r \<noteq> [] \<and> \<not> has_work (sched r) \<and> delay > 0);
             local_commands = commands r @ (if coalesce then late else []) in
         res_bind (res_fold run_command local_commands (sched r)) (\<lambda>s.
         if has_work s
         then res_bind (step fns s) (\<lambda>(replies, s1). Inr (Runs (replies, r\<lparr>sched := s1, commands := []\<rparr>)))
         else Inr (Runs ([], r\<lparr>sched := s, commands := []\<rparr>)))))"

section \<open>Contexts\<close>

definition find_context :: "nat \<Rightarrow> frontend \<Rightarrow> nat option" where
  "find_context uid fs = contexts fs uid"

definition new_context :: "nat \<Rightarrow> frontend \<Rightarrow> nat \<times> frontend" where
  "new_context uid fs =
     (next_ctx fs,
      fs\<lparr>next_ctx := Suc (next_ctx fs), ctx_at := (ctx_at fs)(next_ctx fs := request_context_init uid),
         contexts := (contexts fs)(uid \<mapsto> next_ctx fs)\<rparr>)"

definition get_or_create_context :: "nat \<Rightarrow> frontend \<Rightarrow> nat \<times> frontend" where
  "get_or_create_context uid fs =
     (case contexts fs uid of Some ref \<Rightarrow> (ref, fs) | None \<Rightarrow> new_context uid fs)"

definition set_ctx :: "nat \<Rightarrow> request_context \<Rightarrow> frontend \<Rightarrow> frontend" where
  "set_ctx ref c fs = fs\<lparr>ctx_at := (ctx_at fs)(ref := c)\<rparr>"

definition erase_context :: "nat \<Rightarrow> frontend \<Rightarrow> frontend" where
  "erase_context uid fs = fs\<lparr>contexts := (contexts fs)(uid := None)\<rparr>"

text \<open>\<open>setValue\<close> on a promise that was moved out of a context, if there was one.\<close>

definition fulfil_chunk :: "nat \<Rightarrow> nat option \<Rightarrow> generate_response option \<Rightarrow> frontend \<Rightarrow> frontend" where
  "fulfil_chunk ref promise value fs =
     (case promise of None \<Rightarrow> fs | Some p \<Rightarrow> fs\<lparr>chunk_log := chunk_log fs @ [(ref, p, value)]\<rparr>)"

definition fulfil_result :: "nat \<Rightarrow> nat \<Rightarrow> nat option \<Rightarrow> text_result \<Rightarrow> frontend \<Rightarrow> frontend" where
  "fulfil_result uid ref promise value fs =
     (case promise of
        None \<Rightarrow> fs
      | Some p \<Rightarrow> erase_context uid (fs\<lparr>result_log := result_log fs @ [(ref, p, value)]\<rparr>))"

text \<open>\<open>emplace\<close> does not replace a context that is there already.\<close>

definition new_request :: "frontend \<Rightarrow> nat \<times> frontend" where
  "new_request fs =
     (let uid = next_uid fs; fs1 = fs\<lparr>next_uid := (uid + 1) mod 2 ^ 64\<rparr> in
      (uid, snd (get_or_create_context uid fs1)))"

definition complete_request :: "nat \<Rightarrow> frontend \<Rightarrow> frontend" where
  "complete_request ref fs =
     (let c = (ctx_at fs ref)\<lparr>finished := True\<rparr>;
          c1 = c\<lparr>pending_chunk_promise := None, result_promise := None\<rparr>;
          fs1 = fulfil_chunk ref (pending_chunk_promise c) None (set_ctx ref c1 fs) in
      fulfil_result (rc_uid c) ref (result_promise c) (make_text_result (rc_uid c) c) fs1)"

section \<open>Handlers\<close>

definition queue_request :: "nat \<Rightarrow> int list \<Rightarrow> sampling_params \<Rightarrow> frontend \<Rightarrow> frontend" where
  "queue_request uid ids sp fs =
     fs\<lparr>runner := runner_submit \<lparr>g_uid = uid, g_input_ids = ids, g_sampling_params = sp\<rparr> (runner fs)\<rparr>"

definition submit_tokenized_request :: "ids_tensor \<Rightarrow> sampling_params \<Rightarrow> frontend \<Rightarrow> nat \<times> frontend" where
  "submit_tokenized_request t sp fs =
     (let (uid, fs1) = new_request fs in
      (uid,
       case find_context uid fs1 of
         None \<Rightarrow> fs1
       | Some ref \<Rightarrow>
           (case normalize_input_ids t of
              Inl e \<Rightarrow> complete_request ref fs1
            | Inr ids \<Rightarrow> queue_request uid ids sp fs1)))"

definition submit_text_request :: "tokenize_input \<Rightarrow> sampling_params \<Rightarrow> frontend \<Rightarrow> nat \<times> frontend" where
  "submit_text_request input sp fs =
     (let (uid, fs1) = new_request fs in
      (uid, fs1\<lparr>pool := tokenize_dispatch uid input sp (pool fs1)\<rparr>))"

text \<open>
  The callback of \<open>submit_text_request\<close> in two parts: it looks at the context under its lock, and
  submits after the lock is released.
\<close>

definition tokenized_wanted :: "nat \<Rightarrow> frontend \<Rightarrow> bool" where
  "tokenized_wanted uid fs =
     (case find_context uid fs of None \<Rightarrow> False | Some ref \<Rightarrow> \<not> aborted (ctx_at fs ref))"

definition tokenized_failed :: "nat \<Rightarrow> frontend \<Rightarrow> frontend" where
  "tokenized_failed uid fs =
     (case find_context uid fs of None \<Rightarrow> fs | Some ref \<Rightarrow> complete_request ref fs)"

definition run_encode_task ::
  "(string \<Rightarrow> int list result) \<Rightarrow> template_mode option \<Rightarrow> encode_task \<Rightarrow> frontend \<Rightarrow> frontend" where
  "run_encode_task encode mode t fs =
     (case t of
        TokenizeAsync f input sp \<Rightarrow>
          (let r = res_bind (tokenize encode mode [\<lparr>tm_uid = 0, tm_text = input, tm_sampling = sp\<rparr>])
                     (\<lambda>xs. Inr (hd xs)) in
           fs\<lparr>pool := (pool fs)\<lparr>tokenize_log := tokenize_log (pool fs) @ [(f, r)]\<rparr>\<rparr>)
      | TokenizeDispatch uid input sp \<Rightarrow>
          (case tokenize encode mode [\<lparr>tm_uid = 0, tm_text = input, tm_sampling = sp\<rparr>] of
             Inl e \<Rightarrow> tokenized_failed uid fs
           | Inr xs \<Rightarrow> if tokenized_wanted uid fs then queue_request uid (hd xs) sp fs else fs))"

definition fe_abort :: "nat \<Rightarrow> frontend \<Rightarrow> frontend" where
  "fe_abort uid fs =
     (case find_context uid fs of
        None \<Rightarrow> fs
      | Some ref \<Rightarrow>
          (let c = (ctx_at fs ref)\<lparr>aborted := True, finished := True\<rparr>;
               c1 = c\<lparr>pending_chunk_promise := None, result_promise := None\<rparr>;
               fs1 = fulfil_chunk ref (pending_chunk_promise c) None (set_ctx ref c1 fs);
               fs2 = fulfil_result uid ref (result_promise c) (make_text_result uid c) fs1 in
           fs2\<lparr>runner := runner_abort uid (runner fs2)\<rparr>))"

text \<open>\<open>None\<close>: the condition does not hold yet, the caller goes on waiting.\<close>

definition wait_result_resume :: "nat \<Rightarrow> nat \<Rightarrow> frontend \<Rightarrow> (text_result \<times> frontend) option" where
  "wait_result_resume uid ref fs =
     (if finished (ctx_at fs ref)
      then Some (make_text_result uid (ctx_at fs ref), erase_context uid fs)
      else None)"

definition wait_result_async :: "nat \<Rightarrow> frontend \<Rightarrow> nat \<times> frontend" where
  "wait_result_async uid fs =
     (let (ref, fs1) = get_or_create_context uid fs;
          c = ctx_at fs1 ref; f = next_future fs1;
          fs2 = fs1\<lparr>next_future := Suc f\<rparr> in
      (f,
       if finished c then fulfil_result uid ref (Some f) (make_text_result uid c) fs2
       else set_ctx ref (c\<lparr>result_promise := Some f\<rparr>) fs2))"

definition pop_chunk :: "nat \<Rightarrow> nat \<Rightarrow> frontend \<Rightarrow> frontend" where
  "pop_chunk ref f fs =
     (let c = ctx_at fs ref in
      fulfil_chunk ref (Some f) (Some (hd (pending_chunks c)))
        (set_ctx ref (c\<lparr>pending_chunks := tl (pending_chunks c)\<rparr>) fs))"

text \<open>\<open>wait_next_chunk\<close> returns its chunk through a reference; the call is logged as a future.\<close>

definition wait_next_chunk_resume :: "nat \<Rightarrow> frontend \<Rightarrow> (generate_response option \<times> frontend) option" where
  "wait_next_chunk_resume ref fs =
     (let c = ctx_at fs ref; f = next_future fs; fs1 = fs\<lparr>next_future := Suc f\<rparr> in
      if pending_chunks c \<noteq> [] then Some (Some (hd (pending_chunks c)), pop_chunk ref f fs1)
      else if finished c then Some (None, fulfil_chunk ref (Some f) None fs1)
      else None)"

definition wait_next_chunk_async :: "nat \<Rightarrow> frontend \<Rightarrow> nat \<times> frontend" where
  "wait_next_chunk_async uid fs =
     (let (ref, fs1) = get_or_create_context uid fs;
          c = ctx_at fs1 ref; f = next_future fs1;
          fs2 = fs1\<lparr>next_future := Suc f\<rparr> in
      (f,
       if pending_chunks c \<noteq> [] then pop_chunk ref f fs2
       else if finished c then fulfil_chunk ref (Some f) None fs2
       else set_ctx ref (c\<lparr>pending_chunk_promise := Some f\<rparr>) fs2))"

section \<open>Replies\<close>

definition handle_detokenize :: "detokenize_msg list \<Rightarrow> frontend \<Rightarrow> frontend" where
  "handle_detokenize msgs fs = fs\<lparr>pool := detokenize_dispatch msgs (pool fs)\<rparr>"

text \<open>The body of the loop of the callback, for one message and its text.\<close>

definition handle_one :: "detokenize_msg \<times> string \<Rightarrow> frontend \<Rightarrow> frontend" where
  "handle_one mc fs =
     (let (m, chunk) = mc; uid = msg_uid m in
      case find_context uid fs of
        None \<Rightarrow> fs
      | Some ref \<Rightarrow>
          (let response = \<lparr>gr_uid = uid, incremental_output = chunk, gr_finished = msg_finished m\<rparr>;
               c = ctx_at fs ref;
               c1 = c\<lparr>token_ids := token_ids c @ [msg_next_token m], rc_text := rc_text c @ chunk\<rparr>;
               c2 = (case pending_chunk_promise c1 of
                       Some p \<Rightarrow> c1\<lparr>pending_chunk_promise := None\<rparr>
                     | None \<Rightarrow> c1\<lparr>pending_chunks := pending_chunks c1 @ [response]\<rparr>);
               c3 = (if msg_finished m then c2\<lparr>finished := True\<rparr> else c2);
               c4 = (if msg_finished m then c3\<lparr>result_promise := None\<rparr> else c3);
               fs1 = fulfil_chunk ref (pending_chunk_promise c1) (Some response) (set_ctx ref c4 fs) in
           if msg_finished m
           then fulfil_result uid ref (result_promise c3) (make_text_result uid c3) fs1
           else fs1))"

definition run_decode_task :: "(int list \<Rightarrow> string) \<Rightarrow> decode_task \<Rightarrow> frontend \<Rightarrow> frontend" where
  "run_decode_task decode t fs =
     (case t of
        DetokenizeAsync f msgs \<Rightarrow>
          (let (r, dm) = detokenize decode msgs (decode_state (pool fs)) in
           fs\<lparr>pool := (pool fs)\<lparr>decode_state := dm, detokenize_log := detokenize_log (pool fs) @ [(f, r)]\<rparr>\<rparr>)
      | DetokenizeDispatch msgs \<Rightarrow>
          (let (r, dm) = detokenize decode msgs (decode_state (pool fs));
               fs1 = fs\<lparr>pool := (pool fs)\<lparr>decode_state := dm\<rparr>\<rparr> in
           case r of Inl e \<Rightarrow> fs1 | Inr chunks \<Rightarrow> fold handle_one (zip msgs chunks) fs1))"

text \<open>The scheduler thread hands its replies to \<open>handle_detokenize\<close>.\<close>

definition runner_round ::
  "'l model_fns \<Rightarrow> int \<Rightarrow> command list \<Rightarrow> frontend \<Rightarrow> frontend option result" where
  "runner_round fns delay late fs =
     res_bind (run_loop_body fns delay late (runner fs)) (\<lambda>st.
       case st of
         Runs (replies, r) \<Rightarrow>
           (let fs1 = fs\<lparr>runner := r\<rparr> in
            Inr (Some (if replies = [] then fs1 else handle_detokenize replies fs1)))
       | _ \<Rightarrow> Inr None)"

end
