(* ===== verification/Json.thy ===== *)
theory Json
  imports Strings
begin

text \<open>
  The JSON library is a parameter of the model: a record of the operations that the code calls,
  with the conversions that may throw as results, and what the code builds from them to read the
  members of an object.
\<close>

record 'j json_ops =
  j_object :: "(string \<times> 'j) list \<Rightarrow> 'j"
  j_array :: "'j list \<Rightarrow> 'j"
  j_string :: "string \<Rightarrow> 'j"
  j_int :: "int \<Rightarrow> 'j"
  j_bool :: "bool \<Rightarrow> 'j"
  j_null :: 'j
  j_contains :: "string \<Rightarrow> 'j \<Rightarrow> bool"
  j_at :: "string \<Rightarrow> 'j \<Rightarrow> 'j result"
  j_is_null :: "'j \<Rightarrow> bool"
  j_is_integer :: "'j \<Rightarrow> bool"
  j_is_array :: "'j \<Rightarrow> bool"
  j_get_string :: "'j \<Rightarrow> string result"
  j_get_int :: "'j \<Rightarrow> int result"
  j_get_float :: "'j \<Rightarrow> rat result"
  j_get_bool :: "'j \<Rightarrow> bool result"
  j_get_array :: "'j \<Rightarrow> 'j list result"
  j_items :: "'j \<Rightarrow> (string \<times> 'j) list"
  j_dump :: "'j \<Rightarrow> string result"
  j_parse :: "string \<Rightarrow> 'j result"

fun res_map :: "('a \<Rightarrow> 'b result) \<Rightarrow> 'a list \<Rightarrow> 'b list result" where
  "res_map f [] = Inr []"
| "res_map f (x # xs) = res_bind (f x) (\<lambda>y. res_bind (res_map f xs) (\<lambda>ys. Inr (y # ys)))"

text \<open>\<open>if (json.contains(k)) json.at(k).get_to(field)\<close>.\<close>

definition read_field ::
  "'j json_ops \<Rightarrow> string \<Rightarrow> ('j \<Rightarrow> 'v result) \<Rightarrow> ('v \<Rightarrow> 'r \<Rightarrow> 'r) \<Rightarrow> 'j \<Rightarrow> 'r \<Rightarrow> 'r result" where
  "read_field ops k get set_field j r =
     (if j_contains ops k j
      then res_bind (j_at ops k j) (\<lambda>v. res_bind (get v) (\<lambda>x. Inr (set_field x r)))
      else Inr r)"

text \<open>The same for the fields that may be \<open>null\<close>.\<close>

definition read_nullable ::
  "'j json_ops \<Rightarrow> string \<Rightarrow> ('j \<Rightarrow> 'v result) \<Rightarrow> ('v \<Rightarrow> 'r \<Rightarrow> 'r) \<Rightarrow> 'j \<Rightarrow> 'r \<Rightarrow> 'r result" where
  "read_nullable ops k get set_field j r =
     (if j_contains ops k j
      then res_bind (j_at ops k j) (\<lambda>v.
             if j_is_null ops v then Inr r else res_bind (get v) (\<lambda>x. Inr (set_field x r)))
      else Inr r)"

text \<open>\<open>json.value(k, default)\<close>: the default stands for a member that is not there.\<close>

definition j_value :: "'j json_ops \<Rightarrow> string \<Rightarrow> ('j \<Rightarrow> 'v result) \<Rightarrow> 'v \<Rightarrow> 'j \<Rightarrow> 'v result" where
  "j_value ops k get d j = (if j_contains ops k j then res_bind (j_at ops k j) get else Inr d)"

definition get_strings :: "'j json_ops \<Rightarrow> 'j \<Rightarrow> string list result" where
  "get_strings ops j = res_bind (j_get_array ops j) (res_map (j_get_string ops))"

end
