(* ===== verification/Http.thy ===== *)
theory Http
  imports Frontend Args Json
begin

text \<open>
  The HTTP server of \<^verbatim>\<open>src/server/http_server.cc\<close>: requests read from JSON, sampling
  parameters, the events of a stream, and the two handlers, which are coroutines: a point in the
  handler at which it awaits a future or the connection is a value of \<open>stream_pc\<close>, and a step
  goes on from there when the awaited result is known.

  The JSON library is a parameter, a record of the operations that the code calls. Threads,
  sockets and the header bytes belong to the HTTP library and are left out.
\<close>

section \<open>Requests and replies in JSON\<close>

record generate_http_request =
  gh_prompt :: string
  gh_max_tokens :: int
  gh_ignore_eos :: bool
  gh_stream :: bool

definition default_generate_http :: generate_http_request where
  "default_generate_http = \<lparr>gh_prompt = [], gh_max_tokens = 16, gh_ignore_eos = False, gh_stream = False\<rparr>"

record completion_request =
  cr_model :: string
  cr_prompt :: "string option"
  cr_messages :: "chat_message list option"
  cr_max_tokens :: int
  cr_temperature :: rat
  cr_top_k :: int
  cr_top_p :: rat
  cr_n :: int
  cr_stream :: bool
  cr_stop :: "string list"
  cr_presence_penalty :: rat
  cr_frequency_penalty :: rat
  cr_ignore_eos :: bool

definition default_completion :: completion_request where
  "default_completion =
     \<lparr>cr_model = [], cr_prompt = None, cr_messages = None, cr_max_tokens = 16, cr_temperature = 1,
      cr_top_k = -1, cr_top_p = 1, cr_n = 1, cr_stream = False, cr_stop = [], cr_presence_penalty = 0,
      cr_frequency_penalty = 0, cr_ignore_eos = False\<rparr>"

record model_card =
  mc_id :: string
  mc_object :: string
  mc_created :: int
  mc_owned_by :: string
  mc_root :: string

record model_list =
  ml_object :: string
  ml_data :: "model_card list"

definition generate_from_json :: "'j json_ops \<Rightarrow> 'j \<Rightarrow> generate_http_request \<Rightarrow> generate_http_request result" where
  "generate_from_json ops j r =
     res_bind (j_at ops ''prompt'' j) (\<lambda>p.
     res_bind (j_get_string ops p) (\<lambda>s.
     res_bind (read_field ops ''max_tokens'' (j_get_int ops) (\<lambda>x. gh_max_tokens_update (\<lambda>_. x)) j (r\<lparr>gh_prompt := s\<rparr>)) (\<lambda>r1.
     res_bind (read_field ops ''ignore_eos'' (j_get_bool ops) (\<lambda>x. gh_ignore_eos_update (\<lambda>_. x)) j r1) (\<lambda>r2.
     read_field ops ''stream'' (j_get_bool ops) (\<lambda>x. gh_stream_update (\<lambda>_. x)) j r2))))"

definition message_from_json :: "'j json_ops \<Rightarrow> 'j \<Rightarrow> chat_message result" where
  "message_from_json ops j =
     res_bind (j_at ops ''role'' j) (\<lambda>r.
     res_bind (j_get_string ops r) (\<lambda>rs.
     res_bind (j_at ops ''content'' j) (\<lambda>c.
     res_bind (j_get_string ops c) (\<lambda>cs. Inr \<lparr>role = rs, content = cs\<rparr>))))"

definition get_messages :: "'j json_ops \<Rightarrow> 'j \<Rightarrow> chat_message list result" where
  "get_messages ops j = res_bind (j_get_array ops j) (res_map (message_from_json ops))"

definition completion_from_json :: "'j json_ops \<Rightarrow> 'j \<Rightarrow> completion_request \<Rightarrow> completion_request result" where
  "completion_from_json ops j r =
     res_bind (read_field ops ''model'' (j_get_string ops) (\<lambda>x. cr_model_update (\<lambda>_. x)) j r) (\<lambda>r.
     res_bind (read_nullable ops ''prompt'' (j_get_string ops) (\<lambda>x. cr_prompt_update (\<lambda>_. Some x)) j r) (\<lambda>r.
     res_bind (read_nullable ops ''messages'' (get_messages ops) (\<lambda>x. cr_messages_update (\<lambda>_. Some x)) j r) (\<lambda>r.
     res_bind (read_field ops ''max_tokens'' (j_get_int ops) (\<lambda>x. cr_max_tokens_update (\<lambda>_. x)) j r) (\<lambda>r.
     res_bind (read_field ops ''temperature'' (j_get_float ops) (\<lambda>x. cr_temperature_update (\<lambda>_. x)) j r) (\<lambda>r.
     res_bind (read_field ops ''top_k'' (j_get_int ops) (\<lambda>x. cr_top_k_update (\<lambda>_. x)) j r) (\<lambda>r.
     res_bind (read_field ops ''top_p'' (j_get_float ops) (\<lambda>x. cr_top_p_update (\<lambda>_. x)) j r) (\<lambda>r.
     res_bind (read_field ops ''n'' (j_get_int ops) (\<lambda>x. cr_n_update (\<lambda>_. x)) j r) (\<lambda>r.
     res_bind (read_field ops ''stream'' (j_get_bool ops) (\<lambda>x. cr_stream_update (\<lambda>_. x)) j r) (\<lambda>r.
     res_bind (read_nullable ops ''stop'' (get_strings ops) (\<lambda>x. cr_stop_update (\<lambda>_. x)) j r) (\<lambda>r.
     res_bind (read_field ops ''presence_penalty'' (j_get_float ops) (\<lambda>x. cr_presence_penalty_update (\<lambda>_. x)) j r) (\<lambda>r.
     res_bind (read_field ops ''frequency_penalty'' (j_get_float ops) (\<lambda>x. cr_frequency_penalty_update (\<lambda>_. x)) j r) (\<lambda>r.
     read_field ops ''ignore_eos'' (j_get_bool ops) (\<lambda>x. cr_ignore_eos_update (\<lambda>_. x)) j r))))))))))))"

definition card_to_json :: "'j json_ops \<Rightarrow> model_card \<Rightarrow> 'j" where
  "card_to_json ops c =
     j_object ops [(''id'', j_string ops (mc_id c)), (''object'', j_string ops (mc_object c)),
       (''created'', j_int ops (mc_created c)), (''owned_by'', j_string ops (mc_owned_by c)),
       (''root'', j_string ops (mc_root c))]"

definition list_to_json :: "'j json_ops \<Rightarrow> model_list \<Rightarrow> 'j" where
  "list_to_json ops l =
     j_object ops [(''object'', j_string ops (ml_object l)),
       (''data'', j_array ops (map (card_to_json ops) (ml_data l)))]"

definition make_error_response :: "'j json_ops \<Rightarrow> string \<Rightarrow> 'j" where
  "make_error_response ops m = j_object ops [(''error'', j_string ops m)]"

definition make_generate_response :: "'j json_ops \<Rightarrow> text_result \<Rightarrow> 'j" where
  "make_generate_response ops r =
     j_object ops [(''id'', j_int ops (int (tr_uid r))), (''text'', j_string ops (tr_text r)),
       (''token_ids'', j_array ops (map (j_int ops) (tr_token_ids r))), (''finished'', j_bool ops (tr_finished r))]"

definition completion_id :: "nat \<Rightarrow> string" where
  "completion_id uid = ''cmpl-'' @ int_to_string (int uid)"

definition make_chat_response :: "'j json_ops \<Rightarrow> nat \<Rightarrow> string \<Rightarrow> 'j" where
  "make_chat_response ops uid t =
     j_object ops [(''id'', j_string ops (completion_id uid)), (''object'', j_string ops ''text_completion''),
       (''choices'', j_array ops [j_object ops [(''index'', j_int ops 0),
          (''message'', j_object ops [(''role'', j_string ops ''assistant''), (''content'', j_string ops t)]),
          (''finish_reason'', j_string ops ''stop'')]])]"

text \<open>The payload of a chunk of a chat; \<open>reason\<close> is \<open>null\<close> but for the last one.\<close>

definition chat_payload :: "'j json_ops \<Rightarrow> nat \<Rightarrow> (string \<times> 'j) list \<Rightarrow> 'j \<Rightarrow> 'j" where
  "chat_payload ops uid delta reason =
     j_object ops [(''id'', j_string ops (completion_id uid)), (''object'', j_string ops ''text_completion.chunk''),
       (''choices'', j_array ops [j_object ops [(''delta'', j_object ops delta), (''index'', j_int ops 0),
          (''finish_reason'', reason)]])]"

definition chat_delta :: "'j json_ops \<Rightarrow> bool \<Rightarrow> string \<Rightarrow> (string \<times> 'j) list" where
  "chat_delta ops first_chunk t =
     (if first_chunk then [(''role'', j_string ops ''assistant'')] else []) @
     (if t \<noteq> [] then [(''content'', j_string ops t)] else [])"

definition parse_request_json :: "'j json_ops \<Rightarrow> string \<Rightarrow> 'j result" where
  "parse_request_json ops body = (if body = [] then Inr (j_object ops []) else j_parse ops body)"

section \<open>Server-sent events\<close>

function sse_lines :: "string \<Rightarrow> string" where
  "sse_lines rest =
     (case dropWhile (\<lambda>c. c \<noteq> newline) rest of
        [] \<Rightarrow> ''data: '' @ rest @ [newline]
      | _ # rest1 \<Rightarrow>
          ''data: '' @ takeWhile (\<lambda>c. c \<noteq> newline) rest @ [newline] @
          (if rest1 = [] then ''data: '' @ [newline] else sse_lines rest1))"
  by auto
termination
proof (relation "measure length")
  fix rest x rest1
  assume "dropWhile (\<lambda>c. c \<noteq> newline) rest = x # rest1"
  then have "length (x # rest1) \<le> length rest" by (metis length_dropWhile_le)
  then show "(rest1, rest) \<in> measure length" by simp
qed simp

declare sse_lines.simps [simp del]

definition make_sse_event :: "string \<Rightarrow> string" where
  "make_sse_event payload = sse_lines payload @ [newline]"

section \<open>Requests\<close>

definition generate_sampling_params :: "generate_http_request \<Rightarrow> sampling_params" where
  "generate_sampling_params r =
     default_sampling_params\<lparr>ignore_eos := gh_ignore_eos r, max_new_tokens := gh_max_tokens r,
       temperature := 0, top_p := 1, top_k := -1\<rparr>"

definition completion_sampling_params :: "completion_request \<Rightarrow> sampling_params" where
  "completion_sampling_params r =
     default_sampling_params\<lparr>sp_n := cr_n r, stop := cr_stop r, ignore_eos := cr_ignore_eos r,
       max_new_tokens := cr_max_tokens r, temperature := cr_temperature r, top_k := cr_top_k r,
       top_p := cr_top_p r, presence_penalty := cr_presence_penalty r,
       frequency_penalty := cr_frequency_penalty r\<rparr>"

definition submit_chat_request ::
  "completion_request \<Rightarrow> sampling_params \<Rightarrow> frontend \<Rightarrow> (nat \<times> frontend) result" where
  "submit_chat_request r sp fs =
     (case cr_messages r of
        Some ms \<Rightarrow> Inr (submit_text_request (Messages ms) sp fs)
      | None \<Rightarrow>
          (case cr_prompt r of
             Some p \<Rightarrow> Inr (submit_text_request (Text p) sp fs)
           | None \<Rightarrow> Inl (InvalidArgument ''Either prompt or messages must be provided'')))"

definition handle_models :: "server_args \<Rightarrow> int \<Rightarrow> model_list" where
  "handle_models a now =
     \<lparr>ml_object = ''list'',
      ml_data = [\<lparr>mc_id = sa_model_path a, mc_object = ''model'', mc_created = now,
                  mc_owned_by = ''sglang.cpp'', mc_root = sa_model_path a\<rparr>]\<rparr>"

text \<open>
  The blocking calls in a row: \<open>None\<close> when one of them has to wait. \<open>wait_next_chunk\<close> leaves one
  chunk less in the queue each time it returns one.
\<close>

definition wait_result_now :: "nat \<Rightarrow> frontend \<Rightarrow> (text_result \<times> frontend) option" where
  "wait_result_now uid fs = (let (ref, fs1) = get_or_create_context uid fs in wait_result_resume uid ref fs1)"

definition wait_next_chunk_now :: "nat \<Rightarrow> frontend \<Rightarrow> (generate_response option \<times> frontend) option" where
  "wait_next_chunk_now uid fs = (let (ref, fs1) = get_or_create_context uid fs in wait_next_chunk_resume ref fs1)"

definition queued :: "nat \<Rightarrow> frontend \<Rightarrow> nat" where
  "queued uid fs = (case contexts fs uid of None \<Rightarrow> 0 | Some ref \<Rightarrow> length (pending_chunks (ctx_at fs ref)))"

lemma wait_next_chunk_queued:
  assumes "wait_next_chunk_now uid fs = Some (Some r, fs')"
  shows "queued uid fs' < queued uid fs"
proof (cases "contexts fs uid")
  case None
  then show ?thesis
    using assms by (auto simp: wait_next_chunk_now_def get_or_create_context_def new_context_def
        wait_next_chunk_resume_def request_context_init_def Let_def split: if_splits)
next
  case (Some ref)
  then show ?thesis
    using assms by (auto simp: wait_next_chunk_now_def get_or_create_context_def wait_next_chunk_resume_def
        queued_def pop_chunk_def fulfil_chunk_def set_ctx_def Let_def split: if_splits)
qed

function collect_generate_loop :: "nat \<Rightarrow> frontend \<Rightarrow> string \<Rightarrow> (string \<times> frontend) option" where
  "collect_generate_loop uid fs stream =
     (case wait_next_chunk_now uid fs of
        None \<Rightarrow> None
      | Some (None, fs1) \<Rightarrow> Some (stream, fs1)
      | Some (Some r, fs1) \<Rightarrow>
          (let stream1 = stream @ ''data: '' @ incremental_output r @ [newline] in
           if gr_finished r then Some (stream1, fs1) else collect_generate_loop uid fs1 stream1))"
  by auto
termination by (relation "measure (\<lambda>(uid, fs, _). queued uid fs)") (auto simp: wait_next_chunk_queued)

declare collect_generate_loop.simps [simp del]

definition collect_generate_sse :: "nat \<Rightarrow> frontend \<Rightarrow> (string \<times> frontend) option" where
  "collect_generate_sse uid fs =
     (case collect_generate_loop uid fs [] of
        None \<Rightarrow> None
      | Some (stream, fs1) \<Rightarrow>
          (case wait_result_now uid fs1 of
             None \<Rightarrow> None
           | Some (_, fs2) \<Rightarrow> Some (stream @ ''data: [DONE]'' @ [newline], fs2)))"

function collect_chat_loop ::
  "'j json_ops \<Rightarrow> nat \<Rightarrow> frontend \<Rightarrow> bool \<Rightarrow> string \<Rightarrow> (string \<times> frontend) result option" where
  "collect_chat_loop ops uid fs first_chunk stream =
     (case wait_next_chunk_now uid fs of
        None \<Rightarrow> None
      | Some (None, fs1) \<Rightarrow> Some (Inr (stream, fs1))
      | Some (Some r, fs1) \<Rightarrow>
          (case j_dump ops (chat_payload ops uid (chat_delta ops first_chunk (incremental_output r)) (j_null ops)) of
             Inl e \<Rightarrow> Some (Inl e)
           | Inr d \<Rightarrow>
               (let stream1 = stream @ ''data: '' @ d @ [newline, newline] in
                if gr_finished r then Some (Inr (stream1, fs1)) else collect_chat_loop ops uid fs1 False stream1)))"
  by pat_completeness auto
termination by (relation "measure (\<lambda>(_, uid, fs, _, _). queued uid fs)") (auto simp: wait_next_chunk_queued)

declare collect_chat_loop.simps [simp del]

definition collect_chat_sse :: "'j json_ops \<Rightarrow> nat \<Rightarrow> frontend \<Rightarrow> (string \<times> frontend) result option" where
  "collect_chat_sse ops uid fs =
     (case collect_chat_loop ops uid fs True [] of
        None \<Rightarrow> None
      | Some (Inl e) \<Rightarrow> Some (Inl e)
      | Some (Inr (stream, fs1)) \<Rightarrow>
          (case j_dump ops (chat_payload ops uid [] (j_string ops ''stop'')) of
             Inl e \<Rightarrow> Some (Inl e)
           | Inr d \<Rightarrow>
               (case wait_result_now uid fs1 of
                  None \<Rightarrow> None
                | Some (_, fs2) \<Rightarrow>
                    Some (Inr (stream @ ''data: '' @ d @ [newline, newline] @
                               ''data: [DONE]'' @ [newline, newline], fs2)))))"

section \<open>The streaming handlers\<close>

record http_response =
  headers :: "(string \<times> string) list"
  reply :: "(bool \<times> string) option"
  chunks_written :: "string list"
  chunked_closed :: bool

definition empty_response :: http_response where
  "empty_response = \<lparr>headers = [], reply = None, chunks_written = [], chunked_closed = False\<rparr>"

definition json_reply :: "bool \<Rightarrow> string \<Rightarrow> http_response \<Rightarrow> http_response" where
  "json_reply ok body r =
     r\<lparr>headers := headers r @ [(''Content-Type'', ''application/json'')], reply := Some (ok, body)\<rparr>"

definition stream_headers :: "http_response \<Rightarrow> http_response" where
  "stream_headers r =
     r\<lparr>headers := headers r @ [(''Content-Type'', ''text/event-stream''), (''Cache-Control'', ''no-cache''),
        (''X-Accel-Buffering'', ''no'')]\<rparr>"

definition write_chunk :: "bool \<Rightarrow> string \<Rightarrow> http_response \<Rightarrow> http_response" where
  "write_chunk ok c r = (if ok then r\<lparr>chunks_written := chunks_written r @ [c]\<rparr> else r)"

text \<open>
  Where a handler stands: it awaits the whole result, the start of the chunked reply, the result
  of a request it has given up, the next chunk, or the result at the end of the stream; or it
  is done. The awaited future is a number, \<open>first\<close> says whether the next chunk is the first.
\<close>

datatype stream_pc =
    AwaitWhole nat
  | AwaitBegin
  | AwaitGivenUp nat
  | AwaitChunk nat bool
  | AwaitEnd nat
  | Served

definition result_of :: "nat \<Rightarrow> frontend \<Rightarrow> text_result option" where
  "result_of f fs = map_option (snd \<circ> snd) (List.find (\<lambda>e. fst (snd e) = f) (result_log fs))"

definition chunk_of :: "nat \<Rightarrow> frontend \<Rightarrow> generate_response option option" where
  "chunk_of f fs = map_option (snd \<circ> snd) (List.find (\<lambda>e. fst (snd e) = f) (chunk_log fs))"

text \<open>The \<open>catch\<close> block; \<open>None\<close> when its \<open>wait_result\<close> blocks.\<close>

definition stream_catch ::
  "'j json_ops \<Rightarrow> nat option \<Rightarrow> string \<Rightarrow> http_response \<Rightarrow> frontend \<Rightarrow> (http_response \<times> frontend) option" where
  "stream_catch ops submitted what r fs =
     (case
        (case submitted of
           None \<Rightarrow> Some fs
         | Some uid \<Rightarrow> map_option snd (wait_result_now uid (fe_abort uid fs))) of
        None \<Rightarrow> None
      | Some fs1 \<Rightarrow>
          (case j_dump ops (make_error_response ops what) of
             Inl _ \<Rightarrow> Some (r, fs1)
           | Inr d \<Rightarrow> Some (json_reply False d r, fs1)))"

definition generate_start ::
  "'j json_ops \<Rightarrow> string \<Rightarrow> frontend \<Rightarrow> (nat \<times> stream_pc \<times> http_response \<times> frontend) result" where
  "generate_start ops body fs =
     res_bind (parse_request_json ops body) (\<lambda>j.
     res_bind (generate_from_json ops j default_generate_http) (\<lambda>g.
     let (uid, fs1) = submit_text_request (Text (gh_prompt g)) (generate_sampling_params g) fs in
     if \<not> gh_stream g
     then (let (f, fs2) = wait_result_async uid fs1 in Inr (uid, AwaitWhole f, empty_response, fs2))
     else Inr (uid, AwaitBegin, stream_headers empty_response, fs1)))"

text \<open>
  One resumption: \<open>ok\<close> is what the awaited operation on the connection returned, and what the
  writes after it return. \<open>None\<close>: the awaited future is not there yet.
\<close>

definition generate_step ::
  "'j json_ops \<Rightarrow> nat \<Rightarrow> bool \<Rightarrow> stream_pc \<times> http_response \<times> frontend \<Rightarrow>
   (stream_pc \<times> http_response \<times> frontend) result option" where
  "generate_step ops uid ok st =
     (case st of (pc, r, fs) \<Rightarrow>
      (case pc of
         AwaitWhole f \<Rightarrow>
           map_option (\<lambda>t. res_bind (j_dump ops (make_generate_response ops t))
             (\<lambda>d. Inr (Served, json_reply True d r, fs))) (result_of f fs)
       | AwaitBegin \<Rightarrow>
           (if \<not> ok then (let (f, fs1) = wait_result_async uid (fe_abort uid fs) in Some (Inr (AwaitGivenUp f, r, fs1)))
            else (let (f, fs1) = wait_next_chunk_async uid fs in Some (Inr (AwaitChunk f True, r, fs1))))
       | AwaitGivenUp f \<Rightarrow> map_option (\<lambda>_. Inr (Served, r, fs)) (result_of f fs)
       | AwaitChunk f first \<Rightarrow>
           map_option (\<lambda>c.
             (case c of
                None \<Rightarrow> (let (e, fs1) = wait_result_async uid fs in Inr (AwaitEnd e, r, fs1))
              | Some x \<Rightarrow>
                  (let r1 = write_chunk ok (make_sse_event (incremental_output x)) r in
                   if \<not> ok
                   then (let (e, fs1) = wait_result_async uid (fe_abort uid fs) in Inr (AwaitEnd e, r1, fs1))
                   else if gr_finished x
                   then (let (e, fs1) = wait_result_async uid fs in Inr (AwaitEnd e, r1, fs1))
                   else (let (f1, fs1) = wait_next_chunk_async uid fs in Inr (AwaitChunk f1 False, r1, fs1)))))
             (chunk_of f fs)
       | AwaitEnd e \<Rightarrow>
           map_option (\<lambda>_.
             Inr (Served, (write_chunk ok (make_sse_event ''[DONE]'') r)\<lparr>chunked_closed := ok\<rparr>, fs)) (result_of e fs)
       | Served \<Rightarrow> None))"

definition chat_start ::
  "'j json_ops \<Rightarrow> string \<Rightarrow> frontend \<Rightarrow> (nat \<times> stream_pc \<times> http_response \<times> frontend) result" where
  "chat_start ops body fs =
     res_bind (parse_request_json ops body) (\<lambda>j.
     res_bind (completion_from_json ops j default_completion) (\<lambda>c.
     res_bind (submit_chat_request c (completion_sampling_params c) fs) (\<lambda>(uid, fs1).
     if \<not> cr_stream c
     then (let (f, fs2) = wait_result_async uid fs1 in Inr (uid, AwaitWhole f, empty_response, fs2))
     else Inr (uid, AwaitBegin, stream_headers empty_response, fs1))))"

definition chat_step ::
  "'j json_ops \<Rightarrow> nat \<Rightarrow> bool \<Rightarrow> stream_pc \<times> http_response \<times> frontend \<Rightarrow>
   (stream_pc \<times> http_response \<times> frontend) result option" where
  "chat_step ops uid ok st =
     (case st of (pc, r, fs) \<Rightarrow>
      (case pc of
         AwaitWhole f \<Rightarrow>
           map_option (\<lambda>t. res_bind (j_dump ops (make_chat_response ops (tr_uid t) (tr_text t)))
             (\<lambda>d. Inr (Served, json_reply True d r, fs))) (result_of f fs)
       | AwaitBegin \<Rightarrow>
           (if \<not> ok then (let (f, fs1) = wait_result_async uid (fe_abort uid fs) in Some (Inr (AwaitGivenUp f, r, fs1)))
            else (let (f, fs1) = wait_next_chunk_async uid fs in Some (Inr (AwaitChunk f True, r, fs1))))
       | AwaitGivenUp f \<Rightarrow> map_option (\<lambda>_. Inr (Served, r, fs)) (result_of f fs)
       | AwaitChunk f first \<Rightarrow>
           map_option (\<lambda>c.
             (case c of
                None \<Rightarrow> (let (e, fs1) = wait_result_async uid fs in Inr (AwaitEnd e, r, fs1))
              | Some x \<Rightarrow>
                  res_bind (j_dump ops (chat_payload ops uid (chat_delta ops first (incremental_output x)) (j_null ops))) (\<lambda>d.
                  let r1 = write_chunk ok (make_sse_event d) r in
                  if \<not> ok
                  then (let (e, fs1) = wait_result_async uid (fe_abort uid fs) in Inr (AwaitEnd e, r1, fs1))
                  else if gr_finished x
                  then (let (e, fs1) = wait_result_async uid fs in Inr (AwaitEnd e, r1, fs1))
                  else (let (f1, fs1) = wait_next_chunk_async uid fs in Inr (AwaitChunk f1 False, r1, fs1)))))
             (chunk_of f fs)
       | AwaitEnd e \<Rightarrow>
           map_option (\<lambda>_.
             res_bind (j_dump ops (chat_payload ops uid [] (j_string ops ''stop''))) (\<lambda>d.
             Inr (Served,
               (write_chunk ok (make_sse_event ''[DONE]'') (write_chunk ok (make_sse_event d) r))\<lparr>chunked_closed := ok\<rparr>,
               fs))) (result_of e fs)
       | Served \<Rightarrow> None))"

section \<open>Routes and shutdown\<close>

datatype http_method = GET | POST | HEAD | OPTIONS | PUT | DELETE

datatype route = StreamGenerate | Version1 | StreamChat | Models

definition route_of :: "http_method \<Rightarrow> string \<Rightarrow> route option" where
  "route_of m path =
     (if path = ''/generate'' \<and> m = POST then Some StreamGenerate
      else if path = ''/v1'' \<and> m \<in> {GET, POST, HEAD, OPTIONS} then Some Version1
      else if path = ''/v1/chat/completions'' \<and> m = POST then Some StreamChat
      else if path = ''/v1/models'' \<and> m = GET then Some Models
      else None)"

text \<open>\<open>notify_stop\<close>: the first call sets the flag and wakes the waiters, a later one does nothing.\<close>

definition notify_stop :: "bool \<Rightarrow> bool \<times> bool" where
  "notify_stop stopped = (if stopped then (True, False) else (True, True))"

end
