(* ===== verification/TokenizerProps.thy ===== *)
theory TokenizerProps
  imports Tokenizer
begin

text \<open>
  The incremental decoder: what it sends is the decoded text, piece by piece; what it calls
  printable is a prefix of the text; and the case in which it throws.
\<close>

section \<open>UTF-8\<close>

lemma utf8_encode1_bytes: "\<forall>b\<in>set (utf8_encode1 cp). cp \<le> 1114111 \<longrightarrow> b < 256"
  by (auto simp: utf8_encode1_def)

lemma digits64:
  fixes w x y z :: nat
  assumes "x < 64" "y < 64" "z < 64"
  shows "(w * 262144 + x * 4096 + y * 64 + z) div 64 = w * 4096 + x * 64 + y"
    "(w * 262144 + x * 4096 + y * 64 + z) mod 64 = z"
    "(w * 262144 + x * 4096 + y * 64 + z) div 4096 = w * 64 + x"
    "(w * 262144 + x * 4096 + y * 64 + z) div 262144 = w"
proof -
  have n: "w * 262144 + x * 4096 + y * 64 + z = ((w * 64 + x) * 64 + y) * 64 + z" by simp
  have q: "(q * 64 + r) div 64 = q" "(q * 64 + r) mod 64 = r" if "r < 64" for q r :: nat
    using that by simp_all
  show "(w * 262144 + x * 4096 + y * 64 + z) div 64 = w * 4096 + x * 64 + y"
    "(w * 262144 + x * 4096 + y * 64 + z) mod 64 = z"
    unfolding n q [OF assms(3)] by simp_all
  have d: "m div 4096 = m div 64 div 64" "m div 262144 = m div 64 div 64 div 64" for m :: nat
    by (simp_all add: div_mult2_eq [symmetric])
  show "(w * 262144 + x * 4096 + y * 64 + z) div 4096 = w * 64 + x"
    "(w * 262144 + x * 4096 + y * 64 + z) div 262144 = w"
    unfolding n d q [OF assms(3)] q [OF assms(2)] q [OF assms(1)] by simp_all
qed

lemma utf8_decode_encode1:
  assumes "cp \<le> 1114111"
  shows "utf8_decode (utf8_encode1 cp @ r) = map_option (Cons cp) (utf8_decode r)"
proof -
  have d: "cp div 4096 = cp div 64 div 64" "cp div 262144 = cp div 64 div 64 div 64"
    by (simp_all add: div_mult2_eq [symmetric])
  define a b c where "a = cp mod 64" and "b = cp div 64 mod 64" and "c = cp div 64 div 64 mod 64"
  have m: "a < 64" "b < 64" "c < 64" by (simp_all add: a_def b_def c_def)
  have e: "cp div 64 * 64 + a = cp" "cp div 64 div 64 * 64 + b = cp div 64"
    "cp div 64 div 64 div 64 * 64 + c = cp div 64 div 64"
    by (simp_all only: a_def b_def c_def div_mult_mod_eq)
  consider "cp < 128" | "128 \<le> cp" "cp < 2048" | "2048 \<le> cp" "cp < 65536" | "65536 \<le> cp" by linarith
  then show ?thesis
  proof cases
    case 1
    then show ?thesis by (simp add: utf8_encode1_def)
  next
    case 2
    have "utf8_encode1 cp = [192 + cp div 64, 128 + a]" using 2 by (simp add: utf8_encode1_def a_def)
    moreover have "2 \<le> cp div 64" "cp div 64 < 32" using 2 e(1) m(1) by linarith+
    ultimately show ?thesis using e(1) m by (simp add: is_cont_def code_point2_def)
  next
    case 3
    have "utf8_encode1 cp = [224 + cp div 64 div 64, 128 + b, 128 + a]"
      using 3 by (simp add: utf8_encode1_def a_def b_def d)
    moreover have "cp div 64 div 64 < 16" using 3 e m by linarith
    moreover have "cp div 64 div 64 * 4096 + b * 64 + a = cp" using e by linarith
    ultimately show ?thesis using 3 m by (simp add: is_cont_def Let_def code_point3_def code_point4_def)
  next
    case 4
    have "utf8_encode1 cp = [240 + cp div 64 div 64 div 64, 128 + c, 128 + b, 128 + a]"
      using 4 by (simp add: utf8_encode1_def a_def b_def c_def d)
    moreover have "cp div 64 div 64 div 64 < 5" using assms e m by linarith
    moreover have "cp div 64 div 64 div 64 * 262144 + c * 4096 + b * 64 + a = cp" using e by linarith
    ultimately show ?thesis using 4 assms m by (simp add: is_cont_def Let_def code_point3_def code_point4_def)
  qed
qed

lemma utf8_encode_decode:
  "utf8_decode bs = Some cps \<Longrightarrow> concat (map utf8_encode1 cps) = bs"
proof (induction bs arbitrary: cps rule: utf8_decode.induct)
  case (2 b bs)
  consider (one) "b < 128" | (two) "194 \<le> b" "b < 224" | (three) "224 \<le> b" "b < 240"
    | (four) "240 \<le> b" "b < 245" | (bad) "128 \<le> b" "b < 194 \<or> 245 \<le> b" by linarith
  then show ?case
  proof cases
    case one
    then obtain ds where "utf8_decode bs = Some ds" "cps = b # ds" using 2(5) by auto
    then show ?thesis using 2(1) one by (simp add: utf8_encode1_def)
  next
    case two
    then obtain c r ds where r: "bs = c # r" "is_cont c" "utf8_decode r = Some ds"
      "cps = code_point2 b c # ds"
      using 2(5) by (auto split: list.splits if_splits)
    define x y where "x = b - 192" and "y = c - 128"
    have xy: "b = 192 + x" "c = 128 + y" "2 \<le> x" "x < 32" "y < 64"
      using two r(2) unfolding x_def y_def is_cont_def by linarith+
    have "concat (map utf8_encode1 ds) = r" using 2(2) two r by simp
    moreover have "utf8_encode1 (x * 64 + y) = [192 + x, 128 + y]"
      using xy(3-5) by (simp add: utf8_encode1_def)
    ultimately show ?thesis using r(1,4) xy(1,2) by (simp add: code_point2_def)
  next
    case three
    then obtain c d r ds where r: "bs = c # d # r" "is_cont c" "is_cont d" "utf8_decode r = Some ds"
      "cps = code_point3 b c d # ds"
      "2048 \<le> code_point3 b c d"
      using 2(5) by (auto simp: Let_def split: list.splits if_splits)
    define x y z where "x = b - 224" and "y = c - 128" and "z = d - 128"
    have xy: "b = 224 + x" "c = 128 + y" "d = 128 + z" "x < 16" "y < 64" "z < 64"
      using three r(2,3) unfolding x_def y_def z_def is_cont_def by linarith+
    have ge: "2048 \<le> x * 4096 + y * 64 + z" using r(6) by (simp add: x_def y_def z_def code_point3_def)
    have "concat (map utf8_encode1 ds) = r" using 2(3) three r by simp
    moreover have "utf8_encode1 (x * 4096 + y * 64 + z) = [224 + x, 128 + y, 128 + z]"
    proof -
      let ?n = "x * 4096 + y * 64 + z"
      have "?n div 64 = x * 64 + y" "?n div 4096 = x" "?n mod 64 = z"
        using digits64 [of 0 y z x] digits64 [of x y z 0] xy(4-6) by simp_all
      then show ?thesis using ge xy(4-6) by (simp add: utf8_encode1_def)
    qed
    ultimately show ?thesis using r(1,5) xy(1-3) by (simp add: code_point3_def)
  next
    case four
    then obtain c d e r ds where r: "bs = c # d # e # r" "is_cont c" "is_cont d" "is_cont e"
      "utf8_decode r = Some ds"
      "cps = code_point4 b c d e # ds"
      "65536 \<le> code_point4 b c d e"
      "code_point4 b c d e \<le> 1114111"
      using 2(5) by (auto simp: Let_def split: list.splits if_splits)
    define w x y z where "w = b - 240" and "x = c - 128" and "y = d - 128" and "z = e - 128"
    have xy: "b = 240 + w" "c = 128 + x" "d = 128 + y" "e = 128 + z" "x < 64" "y < 64" "z < 64"
      using four r(2-4) unfolding w_def x_def y_def z_def is_cont_def by linarith+
    have ge: "65536 \<le> w * 262144 + x * 4096 + y * 64 + z" using r(7) by (simp add: w_def x_def y_def z_def code_point4_def)
    have "concat (map utf8_encode1 ds) = r" using 2(4) four r by (simp add: Let_def)
    moreover have "utf8_encode1 (w * 262144 + x * 4096 + y * 64 + z) = [240 + w, 128 + x, 128 + y, 128 + z]"
    proof -
      let ?n = "w * 262144 + x * 4096 + y * 64 + z"
      have "?n div 64 = w * 4096 + x * 64 + y" "?n div 4096 = w * 64 + x" "?n div 262144 = w" "?n mod 64 = z"
        using digits64 [OF xy(5-7), of w] by simp_all
      moreover have "(w * 4096 + x * 64 + y) mod 64 = y"
        using mod_mult_self2 [of y 64 "w * 64 + x"] xy(6) by (simp add: algebra_simps)
      moreover have "(w * 64 + x) mod 64 = x" using xy(5) by simp
      ultimately show ?thesis using ge xy(5-7) by (simp add: utf8_encode1_def)
    qed
    ultimately show ?thesis using r(1,6) xy(1-4) by (simp add: code_point4_def)
  next
    case bad
    then show ?thesis using 2(5) by auto
  qed
qed simp

lemma map_of_char_inject: "map (of_char :: char \<Rightarrow> nat) xs = bs \<Longrightarrow> map char_of bs = xs"
  by auto

text \<open>
  \<open>find_printable_text\<close> returns a prefix of its argument, and the whole of it when the text
  ends in a line break or is not valid UTF-8: nothing is ever printed that the text does not
  contain, and the conversion to code points and back loses nothing.
\<close>

theorem printable_is_prefix:
  "prefix (find_printable_text t) t \<and>
   (t \<noteq> [] \<and> last t = newline \<or> from_bytes t = None \<longrightarrow> find_printable_text t = t)"
proof -
  have "prefix (to_bytes (take n u)) t" if "from_bytes t = Some u" for n u
  proof -
    have "concat (map utf8_encode1 u) = map of_char t"
      using utf8_encode_decode that by (simp add: from_bytes_def)
    moreover have "u = take n u @ drop n u" by simp
    ultimately have "prefix (concat (map utf8_encode1 (take n u))) (map of_char t)"
      by (metis concat_append map_append prefixI)
    then have "prefix (to_bytes (take n u)) (map char_of (map (of_char :: char \<Rightarrow> nat) t))"
      unfolding to_bytes_def by (rule map_mono_prefix)
    then show ?thesis by (simp add: comp_def)
  qed
  then have "prefix (find_printable_text t) t"
    unfolding find_printable_text_def by (auto split: option.splits simp: take_is_prefix)
  then show ?thesis by (auto simp: find_printable_text_def)
qed

theorem printable_is_prefix_witness:
  "find_printable_text [newline] = [newline]"
  using printable_is_prefix [of "[newline]"] by simp

section \<open>Streaming\<close>

text \<open>
  A vocabulary that decodes token by token, as a byte-level vocabulary does: the text of a
  sequence is the concatenation of the texts of its parts.
\<close>

definition compositional :: "(int list \<Rightarrow> string) \<Rightarrow> bool" where
  "compositional decode \<longleftrightarrow> (\<forall>xs ys. decode (xs @ ys) = decode xs @ decode ys)"

definition whole_token :: "(int list \<Rightarrow> string) \<Rightarrow> int \<Rightarrow> bool" where
  "whole_token decode t \<longleftrightarrow> 0 \<le> t \<and> \<not> (length (decode [t]) \<ge> 3 \<and>
     drop (length (decode [t]) - 3) (decode [t]) = replacement)"

definition status_ok :: "(int list \<Rightarrow> string) \<Rightarrow> decode_status \<Rightarrow> int list \<Rightarrow> bool" where
  "status_ok decode s toks \<longleftrightarrow> decoded_ids s = toks \<and> decoded_str s = decode toks \<and>
     sent_offset s = length (decode toks) \<and> surr_offset s \<le> read_offset s \<and>
     read_offset s \<le> length toks \<and> decode (drop (read_offset s) toks) = []"

definition map_ok :: "(int list \<Rightarrow> string) \<Rightarrow> decode_map \<Rightarrow> (nat \<Rightarrow> int list) \<Rightarrow> bool" where
  "map_ok decode dm hist \<longleftrightarrow>
     (\<forall>u. case dm u of None \<Rightarrow> hist u = [] | Some s \<Rightarrow> status_ok decode s (hist u))"

definition status_of :: "decode_map \<Rightarrow> detokenize_msg \<Rightarrow> decode_status" where
  "status_of dm m = (case dm (msg_uid m) of None \<Rightarrow> fresh_status | Some s \<Rightarrow> s)"

definition pushed :: "decode_map \<Rightarrow> detokenize_msg \<Rightarrow> decode_status" where
  "pushed dm m = (if msg_next_token m \<ge> 0
     then status_of dm m\<lparr>decoded_ids := decoded_ids (status_of dm m) @ [msg_next_token m]\<rparr>
     else status_of dm m)"

lemma compositional_Nil: "compositional decode \<Longrightarrow> decode [] = []"
  by (metis append_Nil append_self_conv compositional_def)

lemma status_of_ok:
  assumes "compositional decode" "map_ok decode dm hist"
  shows "status_ok decode (status_of dm m) (hist (msg_uid m))"
  using assms(2) [unfolded map_ok_def, rule_format, of "msg_uid m"] compositional_Nil [OF assms(1)]
  by (auto simp: status_of_def status_ok_def fresh_status_def split: option.splits)

lemma advance_whole:
  assumes c: "compositional decode" and t: "whole_token decode t" and s: "status_ok decode s toks"
    and q: "q = s\<lparr>decoded_ids := toks @ [t]\<rparr>"
  shows "\<exists>s'. advance (decode_text decode (drop (surr_offset q) (decoded_ids q)))
      (decode_text decode (tslice (surr_offset q) (read_offset q) (decoded_ids q))) q = (Inr (decode [t]), s') \<and>
     status_ok decode s' (toks @ [t])"
proof -
  note Nil = compositional_Nil [OF c]
  have app: "decode (xs @ ys) = decode xs @ decode ys" for xs ys using c by (simp add: compositional_def)
  have dt: "decode_text decode xs = decode xs" for xs by (simp add: decode_text_def Nil)
  have st: "decoded_str s = decode toks" "sent_offset s = length (decode toks)"
    "surr_offset s \<le> read_offset s" "read_offset s \<le> length toks" "decode (drop (read_offset s) toks) = []"
    using s by (simp_all add: status_ok_def)
  let ?u = "tslice (surr_offset s) (read_offset s) (toks @ [t])"
  have cut: "drop a xs = tslice a b xs @ drop b xs" if "a \<le> b" for a b and xs :: "int list"
    using append_take_drop_id [of "b - a" "drop a xs"] that by (simp add: tslice_def drop_take)
  have "drop (surr_offset s) (toks @ [t]) = ?u @ drop (read_offset s) (toks @ [t])"
    by (rule cut [OF st(3)])
  moreover have "decode (drop (read_offset s) (toks @ [t])) = decode [t]"
    using st(4,5) by (simp add: app)
  ultimately have r: "decode (drop (surr_offset s) (toks @ [t])) = decode ?u @ decode [t]" by (simp add: app)
  have q_sel: "decoded_ids q = toks @ [t]" "surr_offset q = surr_offset s" "read_offset q = read_offset s"
    by (simp_all add: q)
  show ?thesis
  proof (cases "decode [t] = []")
    case True
    have "status_ok decode (q\<lparr>sent_offset := length (decode toks)\<rparr>) (toks @ [t])"
      using s True st by (simp add: status_ok_def q app)
    moreover have "find_printable_text [] = []" by (simp add: find_printable_text_def)
    then have "advance (decode ?u @ []) (decode ?u) q = (Inr [], q\<lparr>sent_offset := length (decode toks)\<rparr>)"
      by (simp add: advance_def substr_from_def q st(1,2))
    ultimately show ?thesis unfolding dt q_sel r True by blast
  next
    case False
    let ?s = "q\<lparr>decoded_str := decode toks @ decode [t], surr_offset := read_offset s,
        read_offset := Suc (length toks), sent_offset := length (decode toks @ decode [t])\<rparr>"
    have w: "\<not> (length (decode [t]) \<ge> 3 \<and> drop (length (decode [t]) - 3) (decode [t]) = replacement)"
      using t by (simp add: whole_token_def)
    have sub: "substr_from (decode ?u @ decode [t]) (length (decode ?u)) = Inr (decode [t])"
      "substr_from (decode toks @ decode [t]) (length (decode toks)) = Inr (decode [t])"
      by (simp_all add: substr_from_def)
    have "advance (decode ?u @ decode [t]) (decode ?u) q = (Inr (decode [t]), ?s)"
      unfolding advance_def sub(1) sum.case Let_def
      by (simp only: False w simp_thms if_True if_False not_False_eq_True)
        (simp add: sub(2) q st(1,2))
    moreover have "status_ok decode ?s (toks @ [t])"
      using st(3,4) Nil by (simp add: status_ok_def q app)
    ultimately show ?thesis unfolding dt q_sel r by blast
  qed
qed

definition slices :: "decode_status \<Rightarrow> int list \<times> int list" where
  "slices s = (drop (surr_offset s) (decoded_ids s), tslice (surr_offset s) (read_offset s) (decoded_ids s))"

lemma collect_one_eq: "collect_one m dm = (slices (pushed dm m), dm(msg_uid m \<mapsto> pushed dm m))"
  by (simp add: collect_one_def pushed_def status_of_def slices_def Let_def)

lemma collect_all_eq:
  assumes "distinct (map msg_uid ms)"
  shows "collect_all ms dm =
     (map (\<lambda>m. slices (pushed dm m)) ms, fold (\<lambda>m d. d(msg_uid m \<mapsto> pushed dm m)) ms dm)"
  using assms
proof (induction ms arbitrary: dm)
  case (Cons m ms)
  let ?dm = "dm(msg_uid m \<mapsto> pushed dm m)"
  have same: "pushed ?dm x = pushed dm x" if "x \<in> set ms" for x
  proof -
    have "msg_uid m \<notin> msg_uid ` set ms" using Cons.prems by simp
    then have "msg_uid x \<noteq> msg_uid m" using that by (metis imageI)
    then show ?thesis by (simp add: pushed_def status_of_def)
  qed
  have f: "fold (\<lambda>m d. d(msg_uid m \<mapsto> pushed ?dm m)) ms d = fold (\<lambda>m d. d(msg_uid m \<mapsto> pushed dm m)) ms d" for d
    by (rule fold_cong) (simp_all add: same)
  have g: "map (\<lambda>m. slices (pushed ?dm m)) ms = map (\<lambda>m. slices (pushed dm m)) ms"
    by (rule map_cong) (simp_all add: same)
  have "collect_all ms ?dm = (map (\<lambda>m. slices (pushed ?dm m)) ms, fold (\<lambda>m d. d(msg_uid m \<mapsto> pushed ?dm m)) ms ?dm)"
    using Cons.prems by (intro Cons.IH) simp
  then show ?case unfolding f g by (simp only: collect_all.simps collect_one_eq Let_def prod.case list.map fold.simps comp_apply)
qed simp

lemma fold_upd:
  assumes "distinct (map msg_uid ms)"
  shows "m \<in> set ms \<Longrightarrow> fold (\<lambda>m d. d(msg_uid m := f m)) ms dm (msg_uid m) = f m"
    "u \<notin> msg_uid ` set ms \<Longrightarrow> fold (\<lambda>m d. d(msg_uid m := f m)) ms dm u = dm u"
proof -
  have other: "fold (\<lambda>m d. d(msg_uid m := f m)) ms dm u = dm u" if "u \<notin> msg_uid ` set ms" for u ms dm
    using that by (induction ms arbitrary: dm) auto
  show "u \<notin> msg_uid ` set ms \<Longrightarrow> fold (\<lambda>m d. d(msg_uid m := f m)) ms dm u = dm u" by (rule other)
  show "m \<in> set ms \<Longrightarrow> fold (\<lambda>m d. d(msg_uid m := f m)) ms dm (msg_uid m) = f m"
    using assms by (induction ms arbitrary: dm) (auto simp: other)
qed

lemma emit_all_eq:
  assumes "distinct (map msg_uid ms)"
    and "\<And>m. m \<in> set ms \<Longrightarrow> dm (msg_uid m) = Some (st m) \<and>
       advance (fst (t m)) (snd (t m)) (st m) = (Inr (inc m), st' m)"
  shows "emit_all ms (map t ms) dm =
     (Inr (map inc ms), fold (\<lambda>m d. d(msg_uid m := if msg_finished m then None else Some (st' m))) ms dm)"
  using assms
proof (induction ms arbitrary: dm)
  case (Cons m ms)
  obtain r u where tm: "t m = (r, u)" by (cases "t m")
  have m: "dm (msg_uid m) = Some (st m)" "advance r u (st m) = (Inr (inc m), st' m)"
    using Cons.prems(2) [of m] tm by simp_all
  let ?v = "if msg_finished m then None else Some (st' m)"
  have "emit_all ms (map t ms) (dm(msg_uid m := ?v)) =
      (Inr (map inc ms), fold (\<lambda>m d. d(msg_uid m := if msg_finished m then None else Some (st' m))) ms
         (dm(msg_uid m := ?v)))"
  proof (rule Cons.IH)
    have "msg_uid m \<notin> msg_uid ` set ms" using Cons.prems(1) by simp
    then have "msg_uid x \<noteq> msg_uid m" if "x \<in> set ms" for x using that by (metis imageI)
    then show "(dm(msg_uid m := ?v)) (msg_uid x) = Some (st x) \<and>
        advance (fst (t x)) (snd (t x)) (st x) = (Inr (inc x), st' x)" if "x \<in> set ms" for x
      using that Cons.prems(2) [of x] by simp
  qed (use Cons.prems(1) in simp)
  then show ?case using m tm by (cases "msg_finished m") (simp_all del: fun_upd_apply)
qed simp

lemma detokenize_exact:
  assumes "compositional decode" "map_ok decode dm hist" "distinct (map msg_uid msgs)"
    and "\<forall>m\<in>set msgs. whole_token decode (msg_next_token m)"
  shows "\<exists>dm'. detokenize decode msgs dm = (Inr (map (\<lambda>m. decode [msg_next_token m]) msgs), dm') \<and>
     map_ok decode dm' (\<lambda>u. case List.find (\<lambda>m. msg_uid m = u) msgs of
        None \<Rightarrow> hist u
      | Some m \<Rightarrow> if msg_finished m then [] else hist u @ [msg_next_token m])"
proof -
  let ?dm1 = "fold (\<lambda>m d. d(msg_uid m \<mapsto> pushed dm m)) msgs dm"
  define q where "q m = pushed dm m" for m
  define t where "t m = (decode_text decode (drop (surr_offset (q m)) (decoded_ids (q m))),
      decode_text decode (tslice (surr_offset (q m)) (read_offset (q m)) (decoded_ids (q m))))" for m
  have col: "collect_all msgs dm = (map (\<lambda>m. slices (q m)) msgs, ?dm1)"
    using collect_all_eq [OF assms(3), of dm] by (simp add: q_def)
  have "\<exists>s'. advance (fst (t m)) (snd (t m)) (q m) = (Inr (decode [msg_next_token m]), s') \<and>
      status_ok decode s' (hist (msg_uid m) @ [msg_next_token m])" if "m \<in> set msgs" for m
  proof -
    have w: "whole_token decode (msg_next_token m)" using assms(4) that by blast
    note s = status_of_ok [OF assms(1,2), of m]
    have "q m = status_of dm m\<lparr>decoded_ids := hist (msg_uid m) @ [msg_next_token m]\<rparr>"
      using w s by (simp add: q_def pushed_def whole_token_def status_ok_def)
    from advance_whole [OF assms(1) w s this] show ?thesis by (simp add: t_def)
  qed
  then obtain st' where st': "\<And>m. m \<in> set msgs \<Longrightarrow>
      advance (fst (t m)) (snd (t m)) (q m) = (Inr (decode [msg_next_token m]), st' m) \<and>
      status_ok decode (st' m) (hist (msg_uid m) @ [msg_next_token m])"
    by metis
  let ?dm2 = "fold (\<lambda>m d. d(msg_uid m := if msg_finished m then None else Some (st' m))) msgs ?dm1"
  have "?dm1 (msg_uid m) = Some (q m)" if "m \<in> set msgs" for m
    using fold_upd(1) [OF assms(3) that, of "\<lambda>m. Some (pushed dm m)"] by (simp add: q_def)
  then have "emit_all msgs (map t msgs) ?dm1 = (Inr (map (\<lambda>m. decode [msg_next_token m]) msgs), ?dm2)"
    using emit_all_eq [OF assms(3), of ?dm1 q t "\<lambda>m. decode [msg_next_token m]" st'] st' by blast
  then have det: "detokenize decode msgs dm = (Inr (map (\<lambda>m. decode [msg_next_token m]) msgs), ?dm2)"
    unfolding detokenize_def col by (simp add: t_def [abs_def] comp_def slices_def)
  have "case ?dm2 u of None \<Rightarrow> h u = [] | Some s \<Rightarrow> status_ok decode s (h u)"
    if h: "h = (\<lambda>u. case List.find (\<lambda>m. msg_uid m = u) msgs of None \<Rightarrow> hist u
      | Some m \<Rightarrow> if msg_finished m then [] else hist u @ [msg_next_token m])" for u h
  proof (cases "List.find (\<lambda>m. msg_uid m = u) msgs")
    case None
    then have u: "u \<notin> msg_uid ` set msgs" by (auto simp: find_None_iff)
    have "?dm2 u = dm u"
      using fold_upd(2) [OF assms(3) u, of "\<lambda>m. if msg_finished m then None else Some (st' m)" ?dm1]
        fold_upd(2) [OF assms(3) u, of "\<lambda>m. Some (pushed dm m)" dm] by simp
    moreover have "h u = hist u" using None by (simp add: h)
    ultimately show ?thesis using assms(2) [unfolded map_ok_def, rule_format, of u]
      by (cases "dm u") simp_all
  next
    case (Some m)
    then have m: "m \<in> set msgs" "msg_uid m = u" by (auto simp: find_Some_iff)
    then show ?thesis
      using fold_upd(1) [OF assms(3) m(1), of "\<lambda>m. if msg_finished m then None else Some (st' m)" ?dm1]
        Some st' [OF m(1)] by (simp add: h)
  qed
  then show ?thesis using det unfolding map_ok_def by blast
qed


definition demo_decode :: "int list \<Rightarrow> string" where
  "demo_decode ids = map (\<lambda>i. char_of (nat i)) ids"


section \<open>A character in several tokens\<close>

lemma utf8_decode_ascii: "\<forall>b\<in>set bs. b < 128 \<Longrightarrow> utf8_decode (bs @ r) = map_option ((@) bs) (utf8_decode r)"
  by (induction bs) (cases "utf8_decode r", auto)+

lemma from_bytes_ascii_replacement:
  assumes "\<forall>c\<in>set t. (of_char c :: nat) < 128"
  shows "from_bytes (t @ replacement) = Some (map of_char t @ [65533])"
proof -
  have "utf8_decode (map of_char replacement) = Some [65533]" by (simp add: replacement_def is_cont_def code_point3_def)
  then show ?thesis
    using utf8_decode_ascii [of "map of_char t" "map of_char replacement"] assms
    by (simp add: from_bytes_def)
qed

lemma rfind_char_last:
  assumes "c \<notin> set b"
  shows "rfind_char c (a @ c # b) = Some (length a)"
proof -
  have "takeWhile (\<lambda>x. x \<noteq> c) (rev (a @ c # b)) = rev b" using assms by (auto simp: takeWhile_append)
  then show ?thesis by (simp add: rfind_char_def)
qed

text \<open>
  C29: The case that is not handled: when a token leaves the text in the middle of a character
  (the decoder shows U+FFFD) and the text sent so far ends in a word after a space, the printable
  part of the text is shorter than what was sent already, \<open>substr\<close> is called behind its end
  and \<open>detokenize\<close> throws \<open>std::out_of_range\<close>.
\<close>

theorem advance_throws_mid_character:
  assumes "\<forall>c\<in>set (a @ b). (of_char c :: nat) < 128" "b \<noteq> []" "CHR '' '' \<notin> set b"
    and "decoded_str s = a @ CHR '' '' # b" "sent_offset s = length (decoded_str s)"
  shows "advance (surr @ replacement) surr s = (Inl (OutOfRange ''substr''), s)"
proof -
  let ?t = "decoded_str s"
  have ascii: "\<forall>c\<in>set ?t. (of_char c :: nat) < 128" using assms(1,4) by auto
  have new: "substr_from (surr @ replacement) (length surr) = Inr replacement" by (simp add: substr_from_def)
  have rep: "length replacement = 3" "replacement \<noteq> []" "last replacement \<noteq> newline" "CHR '' '' \<notin> set replacement"
    by (auto simp: replacement_def newline_def char_of_def)
  have "find_printable_text replacement = replacement"
    using from_bytes_ascii_replacement [of "[]"] rep
    by (simp add: find_printable_text_def is_chinese_char_def rfind_char_def)
  moreover have "find_printable_text (?t @ replacement) = a @ [CHR '' '']"
  proof -
    have "rfind_char (CHR '' '') (?t @ replacement) = Some (length a)"
      using rfind_char_last [of "CHR '' ''" "b @ replacement" a] assms(3,4) rep(4) by simp
    moreover have "\<not> is_chinese_char ((map of_char ?t @ [65533]) ! (length ?t - 1))"
    proof -
      have "?t \<noteq> []" using assms(4) by simp
      then have "(map of_char ?t @ [65533 :: nat]) ! (length ?t - 1) = of_char (last ?t)"
        by (simp add: nth_append last_conv_nth)
      moreover have "(of_char (last ?t) :: nat) < 128" using ascii \<open>?t \<noteq> []\<close> last_in_set by blast
      ultimately show ?thesis by (simp add: is_chinese_char_def)
    qed
    moreover have "\<not> is_chinese_char 65533" by (simp add: is_chinese_char_def)
    moreover have "length (map of_char ?t @ [65533 :: nat]) - 2 = length ?t - 1" by simp
    moreover have "?t @ replacement \<noteq> []" "last (?t @ replacement) \<noteq> newline" using rep by simp_all
    moreover have "take (length a + 1) (?t @ replacement) = a @ [CHR '' '']" using assms(4) by simp
    ultimately show ?thesis
      unfolding find_printable_text_def from_bytes_ascii_replacement [OF ascii]
      by (simp del: length_append append_is_Nil_conv)
  qed
  moreover have "\<not> length ?t \<le> length (a @ [CHR '' ''])" using assms(2,4) by simp
  ultimately have cut: "substr_from (find_printable_text (?t @ find_printable_text replacement)) (sent_offset s)
      = Inl (OutOfRange ''substr'')"
    using assms(5) by (simp add: substr_from_def)
  have ends: "(3 \<le> length replacement \<and> drop (length replacement - 3) replacement = replacement) = True"
    using rep(1) by simp
  show ?thesis
    unfolding advance_def new sum.case Let_def ends
    by (simp only: simp_thms if_True if_False cut sum.case)
qed

theorem advance_throws_mid_character_witness:
  "\<exists>s. decoded_str s = ''a b'' \<and> fst (advance replacement [] s) = Inl (OutOfRange ''substr'')"
proof -
  let ?s = "fresh_status\<lparr>decoded_str := ''a b'', sent_offset := 3\<rparr>"
  have "advance replacement [] ?s = (Inl (OutOfRange ''substr''), ?s)"
    using advance_throws_mid_character [of "''a''" "''b''" ?s "[]"] by simp
  then show ?thesis by (intro exI [of _ ?s]) simp
qed

end
