(* ===== verification/FrontendProps.thy ===== *)
theory FrontendProps
  imports Frontend TokenizerProps
begin

text \<open>
  The front end as a state machine: in every reachable state a finished request has no waiter
  left, no future is fulfilled twice, and what was handed out of a stream followed by what is
  queued spells the text of the request.
\<close>

section \<open>Steps\<close>

text \<open>
  The threads of the HTTP server call the handlers in any order, the tokenizer threads and the
  scheduler thread do one round each; \<open>replies\<close> lets any batch of replies arrive. \<open>late_submit\<close> is the second half of the callback of
  \<open>submit_text_request\<close>, whose first half saw an earlier state.
\<close>

inductive fe_step ::
  "'l model_fns \<Rightarrow> (string \<Rightarrow> int list result) \<Rightarrow> template_mode option \<Rightarrow> (int list \<Rightarrow> string) \<Rightarrow>
   frontend \<Rightarrow> frontend \<Rightarrow> bool"
  for fns encode mode decode where
  submit_tokens: "fe_step fns encode mode decode fs (snd (submit_tokenized_request t sp fs))"
| submit_text: "fe_step fns encode mode decode fs (snd (submit_text_request input sp fs))"
| late_submit: "fe_step fns encode mode decode fs (queue_request uid ids sp fs)"
| abort: "fe_step fns encode mode decode fs (fe_abort uid fs)"
| result_async: "fe_step fns encode mode decode fs (snd (wait_result_async uid fs))"
| chunk_async: "fe_step fns encode mode decode fs (snd (wait_next_chunk_async uid fs))"
| wait_begins: "fe_step fns encode mode decode fs (snd (get_or_create_context uid fs))"
| result_ready: "ref < next_ctx fs \<Longrightarrow> rc_uid (ctx_at fs ref) = uid \<Longrightarrow>
    wait_result_resume uid ref fs = Some (r, fs') \<Longrightarrow> fe_step fns encode mode decode fs fs'"
| chunk_ready: "ref < next_ctx fs \<Longrightarrow> wait_next_chunk_resume ref fs = Some (r, fs') \<Longrightarrow>
    fe_step fns encode mode decode fs fs'"
| encodes: "encode_loop_body (pool fs) = Runs (t, p) \<Longrightarrow>
    fe_step fns encode mode decode fs (run_encode_task encode mode t (fs\<lparr>pool := p\<rparr>))"
| decodes: "decode_loop_body (pool fs) = Runs (d, p) \<Longrightarrow>
    fe_step fns encode mode decode fs (run_decode_task decode d (fs\<lparr>pool := p\<rparr>))"
| replies: "fe_step fns encode mode decode fs (handle_detokenize msgs fs)"
| schedules: "runner_round fns delay late fs = Inr (Some fs') \<Longrightarrow> fe_step fns encode mode decode fs fs'"

inductive fe_reach ::
  "'l model_fns \<Rightarrow> (string \<Rightarrow> int list result) \<Rightarrow> template_mode option \<Rightarrow> (int list \<Rightarrow> string) \<Rightarrow>
   frontend \<Rightarrow> bool"
  for fns encode mode decode where
  starts: "fe_reach fns encode mode decode (frontend_init threads s)"
| steps: "fe_reach fns encode mode decode fs \<Longrightarrow> fe_step fns encode mode decode fs fs' \<Longrightarrow>
    fe_reach fns encode mode decode fs'"

section \<open>The invariant\<close>

fun chunks_of :: "nat \<Rightarrow> (nat \<times> nat \<times> generate_response option) list \<Rightarrow> generate_response list" where
  "chunks_of ref [] = []"
| "chunks_of ref ((r, p, v) # es) =
     (if r = ref then (case v of Some x \<Rightarrow> [x] | None \<Rightarrow> []) else []) @ chunks_of ref es"

lemma chunks_of_append [simp]: "chunks_of ref (l1 @ l2) = chunks_of ref l1 @ chunks_of ref l2"
  by (induction ref l1 rule: chunks_of.induct) auto

definition promises :: "request_context \<Rightarrow> nat set" where
  "promises c = set_option (pending_chunk_promise c) \<union> set_option (result_promise c)"

definition logged :: "frontend \<Rightarrow> nat list" where
  "logged fs = map (fst \<circ> snd) (chunk_log fs) @ map (fst \<circ> snd) (result_log fs)"

text \<open>A context and the part of its stream that was handed out.\<close>

definition ctx_ok :: "generate_response list \<Rightarrow> request_context \<Rightarrow> bool" where
  "ctx_ok out c \<longleftrightarrow>
     (finished c \<longrightarrow> pending_chunk_promise c = None \<and> result_promise c = None) \<and>
     (pending_chunks c \<noteq> [] \<longrightarrow> pending_chunk_promise c = None) \<and>
     rc_text c = concat (map incremental_output (out @ pending_chunks c)) \<and>
     length (token_ids c) = length (out @ pending_chunks c)"

definition fe_inv :: "frontend \<Rightarrow> bool" where
  "fe_inv fs \<longleftrightarrow>
     (\<forall>r. ctx_ok (chunks_of r (chunk_log fs)) (ctx_at fs r)) \<and>
     (\<forall>r. promises (ctx_at fs r) \<subseteq> {..<next_future fs} - set (logged fs)) \<and>
     (\<forall>r. pending_chunk_promise (ctx_at fs r) \<noteq> None \<longrightarrow>
          pending_chunk_promise (ctx_at fs r) \<noteq> result_promise (ctx_at fs r)) \<and>
     (\<forall>r r'. r \<noteq> r' \<longrightarrow> promises (ctx_at fs r) \<inter> promises (ctx_at fs r') = {}) \<and>
     distinct (logged fs) \<and> set (logged fs) \<subseteq> {..<next_future fs} \<and>
     (\<forall>u r. contexts fs u = Some r \<longrightarrow> r < next_ctx fs \<and> rc_uid (ctx_at fs r) = u) \<and>
     (\<forall>r\<ge>next_ctx fs. chunks_of r (chunk_log fs) = [])"

named_theorems fe_defs \<open>the small definitions of the front end\<close>

lemmas [fe_defs] = set_ctx_def erase_context_def fulfil_chunk_def fulfil_result_def find_context_def

lemma fe_inv_init: "fe_inv (frontend_init threads s)"
  by (simp add: fe_inv_def frontend_init_def ctx_ok_def request_context_init_def promises_def logged_def)

text \<open>The queues and the counter of request numbers do not matter.\<close>

lemma fe_inv_other [simp]:
  "fe_inv (fs\<lparr>pool := p\<rparr>) = fe_inv fs" "fe_inv (fs\<lparr>runner := r\<rparr>) = fe_inv fs"
  "fe_inv (fs\<lparr>next_uid := u\<rparr>) = fe_inv fs"
  by (simp_all add: fe_inv_def logged_def)

lemma fe_inv_erase [simp]: "fe_inv fs \<Longrightarrow> fe_inv (erase_context uid fs)"
  by (simp add: fe_inv_def logged_def erase_context_def)

lemma fe_inv_new_context:
  assumes "fe_inv fs" "contexts fs uid = None"
  shows "fe_inv (snd (new_context uid fs))"
proof -
  have "chunks_of (next_ctx fs) (chunk_log fs) = []" using assms(1) by (simp add: fe_inv_def)
  moreover have "promises (request_context_init uid) = {}" by (simp add: promises_def request_context_init_def)
  ultimately show ?thesis
    using assms
    by (auto simp: fe_inv_def new_context_def logged_def ctx_ok_def request_context_init_def intro: less_SucI)
qed

lemma get_or_create_ok:
  assumes "fe_inv fs" "get_or_create_context uid fs = (ref, fs1)"
  shows "fe_inv fs1" "ref < next_ctx fs1" "rc_uid (ctx_at fs1 ref) = uid" "contexts fs1 uid = Some ref"
    "next_future fs1 = next_future fs"
proof -
  have "fe_inv fs1 \<and> ref < next_ctx fs1 \<and> rc_uid (ctx_at fs1 ref) = uid \<and> contexts fs1 uid = Some ref \<and>
      next_future fs1 = next_future fs"
  proof (cases "contexts fs uid")
    case None
    then show ?thesis
      using assms fe_inv_new_context [OF assms(1) None]
      by (auto simp: get_or_create_context_def new_context_def request_context_init_def)
  next
    case (Some r)
    then show ?thesis using assms by (auto simp: get_or_create_context_def fe_inv_def)
  qed
  then show "fe_inv fs1" "ref < next_ctx fs1" "rc_uid (ctx_at fs1 ref) = uid" "contexts fs1 uid = Some ref"
    "next_future fs1 = next_future fs" by simp_all
qed

text \<open>
  Every action on one context: the futures it fulfils or leaves waiting are those that waited
  in the context before or are new.
\<close>

lemma fresh_futures:
  fixes n n' :: nat
  assumes "U \<subseteq> P \<union> {n..<n'}" "P \<subseteq> {..<n} - L" "L \<subseteq> {..<n}" "n \<le> n'"
  shows "U \<inter> L = {}" "U \<subseteq> {..<n'}" "Q \<subseteq> {..<n} - L \<Longrightarrow> P \<inter> Q = {} \<Longrightarrow> U \<inter> Q = {}"
  using assms by fastforce+

lemma fe_inv_act:
  assumes inv: "fe_inv fs" and ref: "ref < next_ctx fs"
    and c: "c = ctx_at fs ref" and uid: "rc_uid c' = rc_uid c"
    and fs': "ctx_at fs' = (ctx_at fs)(ref := c')" "next_ctx fs' = next_ctx fs" "next_future fs \<le> next_future fs'"
      "chunk_log fs' = chunk_log fs @ map (Pair ref) cl"
      "result_log fs' = result_log fs @ map (Pair ref) rl"
      "\<forall>u r. contexts fs' u = Some r \<longrightarrow> contexts fs u = Some r"
    and ok: "ctx_ok (chunks_of ref (chunk_log fs')) c'"
    and d: "distinct (map fst cl @ map fst rl)"
      "set (map fst cl @ map fst rl) \<subseteq> promises c \<union> {next_future fs..<next_future fs'}"
      "promises c' \<subseteq> promises c \<union> {next_future fs..<next_future fs'}"
      "set (map fst cl @ map fst rl) \<inter> promises c' = {}"
      "pending_chunk_promise c' \<noteq> None \<longrightarrow> pending_chunk_promise c' \<noteq> result_promise c'"
  shows "fe_inv fs'"
proof -
  let ?u = "set (map fst cl @ map fst rl)"
  have other: "chunks_of r (chunk_log fs') = chunks_of r (chunk_log fs)" if "r \<noteq> ref" for r
  proof -
    have "chunks_of r (map (Pair ref) cl) = []" using that by (induction cl) auto
    then show ?thesis by (simp add: fs')
  qed
  have lg: "set (logged fs') = set (logged fs) \<union> ?u"
    by (auto simp: logged_def fs' image_iff split: prod.splits)
  have i: "promises (ctx_at fs r) \<subseteq> {..<next_future fs} - set (logged fs)" for r
    using inv by (simp add: fe_inv_def)
  have j: "promises (ctx_at fs r) \<inter> promises (ctx_at fs r') = {}" if "r \<noteq> r'" for r r'
    using inv that by (simp add: fe_inv_def)
  have k: "distinct (logged fs)" "set (logged fs) \<subseteq> {..<next_future fs}" using inv by (simp_all add: fe_inv_def)
  note new = fresh_futures [OF d(2) [unfolded c] i [of ref] k(2) fs'(3)]
    and kept = fresh_futures [OF d(3) [unfolded c] i [of ref] k(2) fs'(3)]
  have away: "?u \<inter> promises (ctx_at fs r) = {}" "promises c' \<inter> promises (ctx_at fs r) = {}" if "r \<noteq> ref" for r
    using new(3) [OF i [of r]] kept(3) [OF i [of r]] j [of ref r] that by auto
  have dist: "distinct (logged fs')"
  proof -
    have "mset (logged fs') = mset (logged fs @ (map fst cl @ map fst rl))"
      by (simp add: logged_def fs' comp_def case_prod_unfold)
    moreover have "distinct (logged fs @ (map fst cl @ map fst rl))" using k(1) d(1) new(1) by auto
    ultimately show ?thesis by (metis mset_eq_imp_distinct_iff)
  qed
  have below: "set (logged fs') \<subseteq> {..<next_future fs'}"
    unfolding lg using k(2) new(2) fs'(3) by fastforce
  have prom: "promises (ctx_at fs' r) \<subseteq> {..<next_future fs'} - set (logged fs')" for r
  proof (cases "r = ref")
    case True
    then show ?thesis using d(4) kept(1,2) unfolding lg by (auto simp: fs')
  next
    case False
    then show ?thesis unfolding lg using i [of r] away(1) [OF False] fs'(3) by (fastforce simp: fs')
  qed
  have disj: "promises (ctx_at fs' r) \<inter> promises (ctx_at fs' r') = {}" if "r \<noteq> r'" for r r'
    using that j [of r r'] away(2) [of r] away(2) [of r'] by (auto simp: fs')
  have uids: "r < next_ctx fs' \<and> rc_uid (ctx_at fs' r) = u" if "contexts fs' u = Some r" for u r
  proof -
    have "contexts fs u = Some r" using fs'(6) that by blast
    then have "r < next_ctx fs \<and> rc_uid (ctx_at fs r) = u" using inv by (simp add: fe_inv_def)
    then show ?thesis using uid by (auto simp: fs' c)
  qed
  have "ctx_ok (chunks_of r (chunk_log fs')) (ctx_at fs' r)" for r
    using ok other [of r] inv by (cases "r = ref") (simp_all add: fs'(1) fe_inv_def)
  moreover have "pending_chunk_promise (ctx_at fs' r) \<noteq> None \<longrightarrow>
      pending_chunk_promise (ctx_at fs' r) \<noteq> result_promise (ctx_at fs' r)" for r
    using d(5) inv by (simp add: fs'(1) fe_inv_def)
  moreover have "chunks_of r (chunk_log fs') = []" if "next_ctx fs' \<le> r" for r
    using other [of r] that inv ref by (simp add: fs'(2) fe_inv_def)
  ultimately show ?thesis unfolding fe_inv_def using prom disj dist below uids by blast
qed

section \<open>Every handler keeps the invariant\<close>

definition opt_log :: "nat option \<Rightarrow> 'v \<Rightarrow> (nat \<times> 'v) list" where
  "opt_log p v = (case p of None \<Rightarrow> [] | Some q \<Rightarrow> [(q, v)])"

lemma opt_log_simps [simp]:
  "opt_log None v = []" "opt_log (Some q) v = [(q, v)]" "distinct (map fst (opt_log p v))"
  "fst ` set (opt_log p v) = set_option p"
  by (cases p; simp add: opt_log_def)+

lemma in_opt_log [simp]: "(a, b) \<in> set (opt_log p v) \<longleftrightarrow> p = Some a \<and> b = v"
  by (cases p) auto

lemma set_ctx_sel [simp]:
  "ctx_at (set_ctx ref c fs) = (ctx_at fs)(ref := c)" "contexts (set_ctx ref c fs) = contexts fs"
  "next_ctx (set_ctx ref c fs) = next_ctx fs" "next_future (set_ctx ref c fs) = next_future fs"
  "chunk_log (set_ctx ref c fs) = chunk_log fs" "result_log (set_ctx ref c fs) = result_log fs"
  "runner (set_ctx ref c fs) = runner fs" "pool (set_ctx ref c fs) = pool fs"
  by (simp_all add: set_ctx_def)

lemma fulfil_chunk_sel [simp]:
  "ctx_at (fulfil_chunk ref p v fs) = ctx_at fs" "contexts (fulfil_chunk ref p v fs) = contexts fs"
  "next_ctx (fulfil_chunk ref p v fs) = next_ctx fs" "next_future (fulfil_chunk ref p v fs) = next_future fs"
  "chunk_log (fulfil_chunk ref p v fs) = chunk_log fs @ map (Pair ref) (opt_log p v)"
  "result_log (fulfil_chunk ref p v fs) = result_log fs" "runner (fulfil_chunk ref p v fs) = runner fs"
  "pool (fulfil_chunk ref p v fs) = pool fs"
  by (simp_all add: fulfil_chunk_def split: option.splits)

lemma fulfil_result_sel [simp]:
  "ctx_at (fulfil_result uid ref p v fs) = ctx_at fs" "next_ctx (fulfil_result uid ref p v fs) = next_ctx fs"
  "next_future (fulfil_result uid ref p v fs) = next_future fs"
  "chunk_log (fulfil_result uid ref p v fs) = chunk_log fs"
  "result_log (fulfil_result uid ref p v fs) = result_log fs @ map (Pair ref) (opt_log p v)"
  "runner (fulfil_result uid ref p v fs) = runner fs" "pool (fulfil_result uid ref p v fs) = pool fs"
  "contexts (fulfil_result uid ref p v fs) = (if p = None then contexts fs else (contexts fs)(uid := None))"
  by (simp_all add: fulfil_result_def erase_context_def split: option.splits)

lemma chunks_of_opt [simp]:
  "chunks_of ref (map (Pair ref) (opt_log p v)) =
     (if p = None then [] else (case v of None \<Rightarrow> [] | Some x \<Rightarrow> [x]))"
  by (cases p) (simp_all split: option.splits)

lemma fe_inv_ctx: "fe_inv fs \<Longrightarrow> ctx_ok (chunks_of r (chunk_log fs)) (ctx_at fs r)"
  by (simp add: fe_inv_def)

lemma fe_inv_uid: "fe_inv fs \<Longrightarrow> contexts fs u = Some r \<Longrightarrow> rc_uid (ctx_at fs r) = u"
  by (simp add: fe_inv_def)

lemma fe_inv_distinct:
  "fe_inv fs \<Longrightarrow> pending_chunk_promise (ctx_at fs r) = Some p \<Longrightarrow> result_promise (ctx_at fs r) \<noteq> Some p"
  by (metis fe_inv_def option.distinct(1))

text \<open>Closing a context: both promises are fulfilled.\<close>

lemma fe_inv_close:
  assumes inv: "fe_inv fs" and ref: "ref < next_ctx fs" and uid: "rc_uid c1 = rc_uid (ctx_at fs ref)"
    and c1: "pending_chunk_promise c1 = None" "result_promise c1 = None"
      "pending_chunks c1 = pending_chunks (ctx_at fs ref)" "rc_text c1 = rc_text (ctx_at fs ref)"
      "token_ids c1 = token_ids (ctx_at fs ref)"
  shows "fe_inv (fulfil_result u ref (result_promise (ctx_at fs ref)) tr
    (fulfil_chunk ref (pending_chunk_promise (ctx_at fs ref)) None (set_ctx ref c1 fs)))"
proof (rule fe_inv_act [OF inv ref refl uid,
      where cl = "opt_log (pending_chunk_promise (ctx_at fs ref)) None" and
        rl = "opt_log (result_promise (ctx_at fs ref)) tr"])
  let ?c = "ctx_at fs ref"
  show "distinct (map fst (opt_log (pending_chunk_promise ?c) None) @ map fst (opt_log (result_promise ?c) tr))"
    using fe_inv_distinct [OF inv, of ref] by (auto simp: elem_set)
qed (use fe_inv_ctx [OF inv, of ref] c1 in \<open>auto simp: ctx_ok_def promises_def\<close>)

lemma fe_inv_complete:
  assumes "fe_inv fs" "ref < next_ctx fs"
  shows "fe_inv (complete_request ref fs)"
  using fe_inv_close [OF assms, of "(ctx_at fs ref)\<lparr>finished := True, pending_chunk_promise := None, result_promise := None\<rparr>"]
  by (simp add: complete_request_def Let_def)

lemma fe_inv_abort: "fe_inv fs \<Longrightarrow> fe_inv (fe_abort uid fs)"
proof (cases "contexts fs uid")
  case (Some ref)
  assume inv: "fe_inv fs"
  then have "ref < next_ctx fs" using Some by (simp add: fe_inv_def)
  then show ?thesis
    using Some fe_inv_close [OF inv, of ref
        "(ctx_at fs ref)\<lparr>aborted := True, finished := True, pending_chunk_promise := None, result_promise := None\<rparr>"]
    by (simp add: fe_abort_def find_context_def Let_def)
qed (simp add: fe_abort_def find_context_def)

lemma new_request_ok:
  assumes "fe_inv fs" "new_request fs = (uid, fs1)"
  shows "fe_inv fs1" "\<exists>ref. contexts fs1 uid = Some ref \<and> ref < next_ctx fs1"
proof -
  obtain ref where g: "get_or_create_context uid (fs\<lparr>next_uid := (uid + 1) mod 2 ^ 64\<rparr>) = (ref, fs1)"
    using assms(2) by (auto simp: new_request_def Let_def prod_eq_iff)
  have "fe_inv (fs\<lparr>next_uid := (uid + 1) mod 2 ^ 64\<rparr>)" using assms(1) by simp
  from get_or_create_ok [OF this g] show "fe_inv fs1" "\<exists>ref. contexts fs1 uid = Some ref \<and> ref < next_ctx fs1"
    by auto
qed

lemma fe_inv_queue [simp]: "fe_inv (queue_request uid ids sp fs) = fe_inv fs"
  by (simp add: queue_request_def)

lemma fe_inv_submit_tokens: "fe_inv fs \<Longrightarrow> fe_inv (snd (submit_tokenized_request t sp fs))"
proof -
  assume inv: "fe_inv fs"
  obtain uid fs1 where n: "new_request fs = (uid, fs1)" by (cases "new_request fs")
  obtain ref where r: "contexts fs1 uid = Some ref" "ref < next_ctx fs1" using new_request_ok(2) [OF inv n] by blast
  show ?thesis
    using new_request_ok(1) [OF inv n] fe_inv_complete [of fs1 ref] r
    by (simp add: submit_tokenized_request_def n find_context_def split: sum.splits)
qed

lemma fe_inv_submit_text: "fe_inv fs \<Longrightarrow> fe_inv (snd (submit_text_request input sp fs))"
  using new_request_ok(1) by (cases "new_request fs") (simp add: submit_text_request_def)

lemma fe_inv_encode: "fe_inv fs \<Longrightarrow> fe_inv (run_encode_task encode mode t fs)"
proof -
  assume inv: "fe_inv fs"
  have "fe_inv (tokenized_failed uid fs)" for uid
  proof (cases "contexts fs uid")
    case (Some ref)
    then have "ref < next_ctx fs" using inv by (simp add: fe_inv_def)
    then show ?thesis using fe_inv_complete [OF inv] Some by (simp add: tokenized_failed_def find_context_def)
  qed (simp add: tokenized_failed_def find_context_def inv)
  then show ?thesis
    using inv by (auto simp: run_encode_task_def Let_def split: encode_task.splits sum.splits)
qed

text \<open>A future that is ready at once, a chunk taken from the queue, a promise left in a context.\<close>

lemma fe_inv_ready:
  assumes inv: "fe_inv fs" and ref: "ref < next_ctx fs"
  shows "fe_inv (fulfil_chunk ref (Some (next_future fs)) None (fs\<lparr>next_future := Suc (next_future fs)\<rparr>))"
    and "fe_inv (fulfil_result uid ref (Some (next_future fs)) tr (fs\<lparr>next_future := Suc (next_future fs)\<rparr>))"
proof -
  let ?n = "next_future fs"
  have f: "?n \<notin> promises (ctx_at fs ref)" using inv by (auto simp: fe_inv_def)
  note c = fe_inv_ctx [OF inv, of ref] fe_inv_distinct [OF inv, of ref]
  show "fe_inv (fulfil_chunk ref (Some ?n) None (fs\<lparr>next_future := Suc ?n\<rparr>))"
    by (rule fe_inv_act [OF inv ref refl refl, where cl = "[(?n, None)]" and rl = "[]"])
      (use f c in \<open>auto simp: fulfil_chunk_def\<close>)
  show "fe_inv (fulfil_result uid ref (Some ?n) tr (fs\<lparr>next_future := Suc ?n\<rparr>))"
    by (rule fe_inv_act [OF inv ref refl refl, where cl = "[]" and rl = "[(?n, tr)]"])
      (use f c in \<open>auto simp: fulfil_result_def erase_context_def\<close>)
qed

lemma fe_inv_pop:
  assumes inv: "fe_inv fs" and ref: "ref < next_ctx fs" and p: "pending_chunks (ctx_at fs ref) \<noteq> []"
  shows "fe_inv (pop_chunk ref (next_future fs) (fs\<lparr>next_future := Suc (next_future fs)\<rparr>))"
proof -
  let ?n = "next_future fs" and ?c = "ctx_at fs ref"
  obtain x xs where q: "pending_chunks ?c = x # xs" using p by (cases "pending_chunks ?c") auto
  have f: "?n \<notin> promises ?c" using inv by (auto simp: fe_inv_def)
  note c = fe_inv_ctx [OF inv, of ref] fe_inv_distinct [OF inv, of ref]
  show ?thesis
    by (rule fe_inv_act [OF inv ref refl, where c' = "?c\<lparr>pending_chunks := xs\<rparr>" and
          cl = "[(?n, Some x)]" and rl = "[]"])
      (use f c q in \<open>auto simp: pop_chunk_def Let_def ctx_ok_def promises_def\<close>)
qed

lemma fe_inv_wait:
  assumes inv: "fe_inv fs" and ref: "ref < next_ctx fs" and nf: "\<not> finished (ctx_at fs ref)"
  shows "fe_inv (set_ctx ref ((ctx_at fs ref)\<lparr>result_promise := Some (next_future fs)\<rparr>)
           (fs\<lparr>next_future := Suc (next_future fs)\<rparr>))"
    and "pending_chunks (ctx_at fs ref) = [] \<Longrightarrow>
      fe_inv (set_ctx ref ((ctx_at fs ref)\<lparr>pending_chunk_promise := Some (next_future fs)\<rparr>)
           (fs\<lparr>next_future := Suc (next_future fs)\<rparr>))"
proof -
  let ?n = "next_future fs" and ?c = "ctx_at fs ref"
  have f: "?n \<notin> promises ?c" using inv by (auto simp: fe_inv_def)
  note c = fe_inv_ctx [OF inv, of ref] fe_inv_distinct [OF inv, of ref]
  show "fe_inv (set_ctx ref (?c\<lparr>result_promise := Some ?n\<rparr>) (fs\<lparr>next_future := Suc ?n\<rparr>))"
    by (rule fe_inv_act [OF inv ref refl, where c' = "?c\<lparr>result_promise := Some ?n\<rparr>" and cl = "[]" and rl = "[]"])
      (use f c nf in \<open>auto simp: ctx_ok_def promises_def\<close>)
  show "fe_inv (set_ctx ref (?c\<lparr>pending_chunk_promise := Some ?n\<rparr>) (fs\<lparr>next_future := Suc ?n\<rparr>))"
    if "pending_chunks ?c = []"
    by (rule fe_inv_act [OF inv ref refl, where c' = "?c\<lparr>pending_chunk_promise := Some ?n\<rparr>" and cl = "[]" and rl = "[]"])
      (use f c nf that in \<open>auto simp: ctx_ok_def promises_def\<close>)
qed

lemma fe_inv_result_async: "fe_inv fs \<Longrightarrow> fe_inv (snd (wait_result_async uid fs))"
proof -
  assume inv: "fe_inv fs"
  obtain ref fs1 where g: "get_or_create_context uid fs = (ref, fs1)" by (cases "get_or_create_context uid fs")
  note ok = get_or_create_ok [OF inv g]
  show ?thesis
    using fe_inv_ready(2) [OF ok(1,2)] fe_inv_wait(1) [OF ok(1,2)]
    by (simp add: wait_result_async_def g Let_def)
qed

lemma fe_inv_chunk_async: "fe_inv fs \<Longrightarrow> fe_inv (snd (wait_next_chunk_async uid fs))"
proof -
  assume inv: "fe_inv fs"
  obtain ref fs1 where g: "get_or_create_context uid fs = (ref, fs1)" by (cases "get_or_create_context uid fs")
  note ok = get_or_create_ok [OF inv g]
  show ?thesis
    using fe_inv_pop [OF ok(1,2)] fe_inv_ready(1) [OF ok(1,2)] fe_inv_wait(2) [OF ok(1,2)]
    by (simp add: wait_next_chunk_async_def g Let_def)
qed

lemma fe_inv_chunk_resume:
  "fe_inv fs \<Longrightarrow> ref < next_ctx fs \<Longrightarrow> wait_next_chunk_resume ref fs = Some (r, fs') \<Longrightarrow> fe_inv fs'"
  using fe_inv_pop [of fs ref] fe_inv_ready(1) [of fs ref]
  by (auto simp: wait_next_chunk_resume_def Let_def split: if_splits)

lemma fe_inv_handle_one: "fe_inv fs \<Longrightarrow> fe_inv (handle_one mc fs)"
proof (cases "contexts fs (msg_uid (fst mc))")
  case (Some ref)
  assume inv: "fe_inv fs"
  then have ref: "ref < next_ctx fs" using Some by (simp add: fe_inv_def)
  obtain m chunk where mc: "mc = (m, chunk)" by (cases mc)
  let ?c = "ctx_at fs ref"
  let ?x = "\<lparr>gr_uid = msg_uid m, incremental_output = chunk, gr_finished = msg_finished m\<rparr>"
  define c1 where "c1 = ?c\<lparr>token_ids := token_ids ?c @ [msg_next_token m], rc_text := rc_text ?c @ chunk\<rparr>"
  define c2 where "c2 = (case pending_chunk_promise c1 of
      Some p \<Rightarrow> c1\<lparr>pending_chunk_promise := None\<rparr>
    | None \<Rightarrow> c1\<lparr>pending_chunks := pending_chunks c1 @ [?x]\<rparr>)"
  define c3 where "c3 = (if msg_finished m then c2\<lparr>finished := True\<rparr> else c2)"
  define c4 where "c4 = (if msg_finished m then c3\<lparr>result_promise := None\<rparr> else c3)"
  define fs1 where "fs1 = fulfil_chunk ref (pending_chunk_promise c1) (Some ?x) (set_ctx ref c4 fs)"
  define tr where "tr = make_text_result (msg_uid m) c3"
  have run: "handle_one mc fs =
      (if msg_finished m then fulfil_result (msg_uid m) ref (result_promise c3) tr fs1 else fs1)"
    using Some unfolding handle_one_def mc find_context_def c1_def c2_def c3_def c4_def fs1_def tr_def Let_def
    by (simp only: fst_conv prod.case option.case)
  note c = fe_inv_ctx [OF inv, of ref] fe_inv_distinct [OF inv, of ref]
  have sel: "pending_chunk_promise c1 = pending_chunk_promise ?c" "result_promise c3 = result_promise ?c"
    "rc_uid c4 = rc_uid ?c" "pending_chunk_promise c4 = None"
    "result_promise c4 = (if msg_finished m then None else result_promise ?c)"
    by (cases "pending_chunk_promise ?c"; simp add: c1_def c2_def c3_def c4_def)+
  let ?cl = "opt_log (pending_chunk_promise ?c) (Some ?x)"
  let ?rl = "if msg_finished m then opt_log (result_promise ?c) tr else []"
  have "ctx_ok (chunks_of ref (chunk_log fs @ map (Pair ref) ?cl)) c4"
    using c(1) by (cases "pending_chunk_promise ?c") (auto simp: ctx_ok_def c1_def c2_def c3_def c4_def)
  then show ?thesis
    using Some c(2)
    by (intro fe_inv_act [OF inv ref refl, of c4 "handle_one mc fs" ?cl ?rl])
      (auto simp: run fs1_def sel promises_def elem_set)
qed (cases mc; simp add: handle_one_def find_context_def Let_def)

lemma fe_inv_handle_all: "fe_inv fs \<Longrightarrow> fe_inv (fold handle_one mcs fs)"
  by (induction mcs arbitrary: fs) (simp_all add: fe_inv_handle_one)

lemma fe_inv_decode: "fe_inv fs \<Longrightarrow> fe_inv (run_decode_task decode d fs)"
  by (auto simp: run_decode_task_def fe_inv_handle_all Let_def split: decode_task.splits prod.splits sum.splits)

lemma fe_inv_round:
  assumes "fe_inv fs" "runner_round fns delay late fs = Inr (Some fs')"
  shows "fe_inv fs'"
proof -
  obtain st where st: "run_loop_body fns delay late (runner fs) = Inr st"
    using assms(2) by (auto simp: runner_round_def res_simps)
  show ?thesis
    using assms by (cases st) (auto simp: st runner_round_def handle_detokenize_def Let_def split: if_splits)
qed

lemma fe_inv_step: "fe_step fns encode mode decode fs fs' \<Longrightarrow> fe_inv fs \<Longrightarrow> fe_inv fs'"
proof (induction rule: fe_step.induct)
  case (wait_begins fs uid)
  then show ?case by (cases "get_or_create_context uid fs") (use get_or_create_ok(1) in auto)
next
  case (result_ready ref fs uid r fs')
  then show ?case by (auto simp: wait_result_resume_def split: if_splits)
next
  case (chunk_ready ref fs r fs')
  then show ?case using fe_inv_chunk_resume by blast
next
  case (schedules delay late fs fs')
  then show ?case using fe_inv_round by blast
next
  case (encodes fs t p)
  then show ?case by (intro fe_inv_encode) simp
next
  case (decodes fs d p)
  then show ?case by (intro fe_inv_decode) simp
qed (simp_all only: fe_inv_submit_tokens fe_inv_submit_text fe_inv_abort fe_inv_result_async
    fe_inv_chunk_async fe_inv_queue handle_detokenize_def fe_inv_other)

lemma fe_reach_inv: "fe_reach fns encode mode decode fs \<Longrightarrow> fe_inv fs"
  by (induction rule: fe_reach.induct) (auto simp: fe_inv_init fe_inv_step)

section \<open>A small run\<close>

text \<open>
  A client asks for a chunk, two tokens arrive, the second one is the last: the first chunk goes
  to the client, the second one is queued.
\<close>

definition demo_tokens :: "detokenize_msg list" where
  "demo_tokens = [\<lparr>msg_uid = 0, msg_next_token = 72, msg_finished = False\<rparr>]"

definition demo_last :: "detokenize_msg list" where
  "demo_last = [\<lparr>msg_uid = 0, msg_next_token = 105, msg_finished = True\<rparr>]"

definition demo_arrive :: "detokenize_msg list \<Rightarrow> frontend \<Rightarrow> frontend" where
  "demo_arrive msgs fs = run_decode_task demo_decode (DetokenizeDispatch msgs)
     ((handle_detokenize msgs fs)\<lparr>pool := pool fs\<rparr>)"

definition demo_fe :: "scheduler \<Rightarrow> frontend" where
  "demo_fe s = demo_arrive demo_last (demo_arrive demo_tokens
     (snd (wait_next_chunk_async 0 (frontend_init 1 s))))"

lemma demo_arrive_pool: "decode_tasks (pool fs) = [] \<Longrightarrow> decode_tasks (pool (demo_arrive msgs fs)) = []"
proof -
  have "decode_tasks (pool (handle_one mc fs)) = decode_tasks (pool fs)" for mc fs
    by (cases mc) (simp add: handle_one_def Let_def split: option.splits)
  then have "decode_tasks (pool (fold handle_one mcs fs)) = decode_tasks (pool fs)" for mcs fs
    by (induction mcs arbitrary: fs) auto
  then show "decode_tasks (pool fs) = [] \<Longrightarrow> decode_tasks (pool (demo_arrive msgs fs)) = []"
    by (auto simp: demo_arrive_def run_decode_task_def handle_detokenize_def Let_def split: prod.splits sum.splits)
qed

lemma demo_arrive_reach:
  assumes "fe_reach fns encode mode demo_decode fs" "decode_tasks (pool fs) = []"
  shows "fe_reach fns encode mode demo_decode (demo_arrive msgs fs)"
proof -
  let ?fs = "handle_detokenize msgs fs"
  have "decode_loop_body (pool ?fs) = Runs (DetokenizeDispatch msgs, pool fs)"
    using assms(2) by (simp add: decode_loop_body_def handle_detokenize_def detokenize_dispatch_def)
  then have "fe_step fns encode mode demo_decode ?fs (demo_arrive msgs fs)"
    unfolding demo_arrive_def by (rule fe_step.decodes)
  moreover have "fe_reach fns encode mode demo_decode ?fs"
    by (rule fe_reach.steps [OF assms(1) fe_step.replies])
  ultimately show ?thesis by (rule fe_reach.steps [rotated])
qed

lemma demo_fe_reach: "fe_reach fns encode mode demo_decode (demo_fe s)"
proof -
  have "decode_tasks (pool (snd (wait_next_chunk_async 0 (frontend_init 1 s)))) = []"
    by (simp add: wait_next_chunk_async_def get_or_create_context_def new_context_def frontend_init_def
        pool_init_def request_context_init_def Let_def)
  then show ?thesis
    unfolding demo_fe_def
    by (intro demo_arrive_reach demo_arrive_pool) (blast intro: fe_reach.intros fe_step.chunk_async)+
qed

lemma demo_chars: "char_of (72 :: nat) = CHR ''H''" "char_of (105 :: nat) = CHR ''i''"
  by (simp_all add: char_of_def bit_0)

lemma demo_fe_state:
  "ctx_at (demo_fe s) 0 =
     \<lparr>rc_uid = 0, token_ids = [72, 105], rc_text = ''Hi'',
      pending_chunks = [\<lparr>gr_uid = 0, incremental_output = ''i'', gr_finished = True\<rparr>],
      pending_chunk_promise = None, result_promise = None, finished = True, aborted = False\<rparr> \<and>
   chunk_log (demo_fe s) = [(0, 0, Some \<lparr>gr_uid = 0, incremental_output = ''H'', gr_finished = False\<rparr>)] \<and>
   contexts (demo_fe s) 0 = Some 0"
proof -
  define fs0 where "fs0 = snd (wait_next_chunk_async 0 (frontend_init 1 s))"
  have 0: "ctx_at fs0 0 = (request_context_init 0)\<lparr>pending_chunk_promise := Some 0\<rparr>"
    "contexts fs0 0 = Some 0" "chunk_log fs0 = []" "decode_state (pool fs0) = (\<lambda>_. None)"
    by (simp_all add: fs0_def wait_next_chunk_async_def get_or_create_context_def new_context_def frontend_init_def
        pool_init_def request_context_init_def Let_def)
  define fs1 where "fs1 = demo_arrive demo_tokens fs0"
  have 1: "ctx_at fs1 0 = (request_context_init 0)\<lparr>token_ids := [72], rc_text := ''H''\<rparr>"
    "contexts fs1 0 = Some 0"
    "chunk_log fs1 = [(0, 0, Some \<lparr>gr_uid = 0, incremental_output = ''H'', gr_finished = False\<rparr>)]"
    "decode_state (pool fs1) 0 = Some \<lparr>decoded_ids = [72], decoded_str = ''H'', read_offset = 1, surr_offset = 0, sent_offset = 1\<rparr>"
    by (simp_all add: fs1_def demo_arrive_def demo_tokens_def run_decode_task_def handle_detokenize_def
        detokenize_def collect_one_def fresh_status_def advance_def 0 Let_def handle_one_def find_context_def
        decode_text_def demo_decode_def tslice_def substr_from_def request_context_init_def demo_chars)
  show ?thesis
    unfolding demo_fe_def fs0_def [symmetric] fs1_def [symmetric]
    by (simp add: demo_arrive_def demo_last_def run_decode_task_def handle_detokenize_def
        detokenize_def collect_one_def advance_def 1 Let_def handle_one_def find_context_def
        decode_text_def demo_decode_def tslice_def substr_from_def request_context_init_def demo_chars)
qed

section \<open>Waiting and streaming\<close>

text \<open>
  C30: In every reachable state of the front end, whatever the order in which clients, tokenizer
  threads and the scheduler thread run: a finished request has no waiter left behind, nobody
  waits for a chunk while one is queued, every future is fulfilled at most once and none that is
  still waiting was fulfilled before.
\<close>

theorem no_waiter_left:
  assumes "fe_reach fns encode mode decode fs"
  shows "(finished (ctx_at fs r) \<longrightarrow>
      pending_chunk_promise (ctx_at fs r) = None \<and> result_promise (ctx_at fs r) = None) \<and>
    (pending_chunks (ctx_at fs r) \<noteq> [] \<longrightarrow> pending_chunk_promise (ctx_at fs r) = None) \<and>
    distinct (logged fs) \<and> promises (ctx_at fs r) \<inter> set (logged fs) = {}"
  using fe_reach_inv [OF assms] unfolding fe_inv_def ctx_ok_def by blast

theorem no_waiter_left_witness:
  "\<forall>s. finished (ctx_at (demo_fe s) 0) \<and> result_promise (ctx_at (demo_fe s) 0) = None \<and> distinct (logged (demo_fe s))"
proof
  fix s
  have "fe_reach (undefined :: unit model_fns) (\<lambda>_. Inr []) None demo_decode (demo_fe s)" by (rule demo_fe_reach)
  from no_waiter_left [OF this, of 0] demo_fe_state [of s]
  show "finished (ctx_at (demo_fe s) 0) \<and> result_promise (ctx_at (demo_fe s) 0) = None \<and> distinct (logged (demo_fe s))"
    by simp
qed

text \<open>
  C31: In every reachable state the chunks that were handed out for a request, in the order of the
  calls, followed by those still queued, spell the text of the request and are as many as its
  tokens: no chunk is lost, repeated or reordered by the mix of blocking and asynchronous calls.
\<close>

theorem stream_spells_text:
  assumes "fe_reach fns encode mode decode fs"
  shows "rc_text (ctx_at fs r) = concat (map incremental_output
      (chunks_of r (chunk_log fs) @ pending_chunks (ctx_at fs r))) \<and>
    length (token_ids (ctx_at fs r)) = length (chunks_of r (chunk_log fs) @ pending_chunks (ctx_at fs r))"
  using fe_inv_ctx [OF fe_reach_inv [OF assms], of r] unfolding ctx_ok_def by simp

theorem stream_spells_text_witness:
  "\<forall>s. rc_text (ctx_at (demo_fe s) 0) = ''Hi'' \<and>
     map incremental_output (chunks_of 0 (chunk_log (demo_fe s)) @ pending_chunks (ctx_at (demo_fe s) 0)) = [''H'', ''i'']"
proof
  fix s
  have "fe_reach (undefined :: unit model_fns) (\<lambda>_. Inr []) None demo_decode (demo_fe s)" by (rule demo_fe_reach)
  from stream_spells_text [OF this, of 0] demo_fe_state [of s]
  show "rc_text (ctx_at (demo_fe s) 0) = ''Hi'' \<and>
     map incremental_output (chunks_of 0 (chunk_log (demo_fe s)) @ pending_chunks (ctx_at (demo_fe s) 0)) = [''H'', ''i'']"
    by simp
qed

text \<open>
  Aborting a known request ends it for everybody who waits: the future of the next chunk is
  fulfilled with the end of the stream, the future of the result with the text so far, nobody is
  left waiting, and the scheduler is told last.
\<close>

theorem abort_releases_waiters:
  assumes "find_context uid fs = Some ref"
  shows "finished (ctx_at (fe_abort uid fs) ref) \<and> promises (ctx_at (fe_abort uid fs) ref) = {} \<and>
    chunk_log (fe_abort uid fs) = chunk_log fs @ map (Pair ref) (opt_log (pending_chunk_promise (ctx_at fs ref)) None) \<and>
    result_log (fe_abort uid fs) = result_log fs @ map (Pair ref) (opt_log (result_promise (ctx_at fs ref))
      \<lparr>tr_uid = uid, tr_text = rc_text (ctx_at fs ref), tr_token_ids = token_ids (ctx_at fs ref), tr_finished = True\<rparr>) \<and>
    commands (runner (fe_abort uid fs)) = commands (runner fs) @ [KAbort uid]"
  using assms
  by (simp add: fe_abort_def Let_def promises_def make_text_result_def runner_abort_def)

theorem abort_releases_waiters_witness:
  "\<forall>s. chunk_log (fe_abort 0 (snd (wait_next_chunk_async 0 (frontend_init 1 s)))) = [(0, 0, None)]"
proof
  fix s
  let ?fs = "snd (wait_next_chunk_async 0 (frontend_init 1 s))"
  have "find_context 0 ?fs = Some 0" "chunk_log ?fs = []" "pending_chunk_promise (ctx_at ?fs 0) = Some 0"
    by (simp_all add: wait_next_chunk_async_def get_or_create_context_def new_context_def frontend_init_def
        find_context_def request_context_init_def Let_def)
  then show "chunk_log (fe_abort 0 ?fs) = [(0, 0, None)]" using abort_releases_waiters [of 0 ?fs 0] by simp
qed

text \<open>
  C32: An abort can be overtaken: when it comes between the moment at which the callback of the
  tokenizer has seen that the request is wanted and its submission, the scheduler gets the abort
  first, finds nothing, and then accepts the request, which it will compute although it was
  aborted.
\<close>

theorem abort_overtaken:
  fixes sp :: sampling_params
  assumes "tokenized_wanted uid fs" and "commands (runner fs) = []"
    and "\<forall>p\<in>set (prefill_mgr (sched (runner fs))). p_uid p \<noteq> uid"
    and "\<forall>r\<in>set (running_reqs (decode_mgr (sched (runner fs)))). req_id (req_of (sched (runner fs)) r) \<noteq> uid"
    and "0 < max_new_tokens sp" "int (length ids) < max_seq_len (sched (runner fs))"
  shows "\<exists>ref s. contexts fs uid = Some ref \<and>
    aborted (ctx_at (queue_request uid ids sp (fe_abort uid fs)) ref) \<and>
    res_fold run_command (commands (runner (queue_request uid ids sp (fe_abort uid fs)))) (sched (runner fs)) = Inr s \<and>
    (\<exists>p\<in>set (prefill_mgr s). p_uid p = uid \<and> p_input_ids p = ids)"
proof -
  let ?s = "sched (runner fs)"
  obtain ref where ref: "contexts fs uid = Some ref"
    using assms(1) by (auto simp: tokenized_wanted_def find_context_def split: option.splits)
  have cmds: "commands (runner (queue_request uid ids sp (fe_abort uid fs))) =
      [KAbort uid, KSubmit \<lparr>g_uid = uid, g_input_ids = ids, g_sampling_params = sp\<rparr>]"
    using ref assms(2)
    by (simp add: queue_request_def runner_submit_def fe_abort_def find_context_def Let_def runner_abort_def)
  have "List.extract (\<lambda>p. p_uid p = uid) (prefill_mgr ?s) = None"
    using assms(3) by (simp add: extract_None_iff)
  moreover have "List.extract (\<lambda>r. req_id (req_of ?s r) = uid) (running_reqs (decode_mgr ?s)) = None"
    using assms(4) by (simp add: extract_None_iff)
  ultimately have "abort uid ?s = Inr ?s"
    by (simp add: Scheduler.abort_def pm_abort_req_def dm_abort_req_def)
  moreover have "\<exists>p\<in>set (prefill_mgr (submit \<lparr>g_uid = uid, g_input_ids = ids, g_sampling_params = sp\<rparr> ?s)).
      p_uid p = uid \<and> p_input_ids p = ids"
    using assms(5,6) by (simp add: submit_def Let_def pm_add_one_req_def)
  moreover have "aborted (ctx_at (queue_request uid ids sp (fe_abort uid fs)) ref)"
    using ref by (simp add: queue_request_def fe_abort_def find_context_def Let_def)
  ultimately show ?thesis unfolding cmds by (simp add: run_command_def ref)
qed

definition demo_sched :: scheduler where
  "demo_sched = (case scheduler_init 1 4 8 (-1) 100 4 False False [] 3 0 0 1000 (\<lambda>n. int n + 1) of Inr s \<Rightarrow> s)"

lemma demo_sched_empty: "prefill_mgr demo_sched = []" "running_reqs (decode_mgr demo_sched) = []"
  "max_seq_len demo_sched = 8"
  by (simp_all add: demo_sched_def scheduler_init_def cache_manager_init_def Let_def)

theorem abort_overtaken_witness:
  "\<exists>s. res_fold run_command (commands (runner (queue_request 0 [3, 4] default_sampling_params
       (fe_abort 0 (snd (wait_next_chunk_async 0 (frontend_init 1 demo_sched))))))) demo_sched = Inr s \<and>
     (\<exists>p\<in>set (prefill_mgr s). p_uid p = 0)"
proof -
  let ?fs = "snd (wait_next_chunk_async 0 (frontend_init 1 demo_sched))"
  have w: "tokenized_wanted 0 ?fs" "commands (runner ?fs) = []" "sched (runner ?fs) = demo_sched"
    by (simp_all add: wait_next_chunk_async_def get_or_create_context_def new_context_def frontend_init_def
        find_context_def request_context_init_def Let_def tokenized_wanted_def runner_init_def)
  from abort_overtaken [OF w(1,2), of default_sampling_params "[3, 4]"] w(3) demo_sched_empty
  show ?thesis by (auto simp: default_sampling_params_def)
qed

section \<open>From tokens to text\<close>

definition absorbed :: "detokenize_msg \<times> string \<Rightarrow> request_context \<Rightarrow> request_context \<Rightarrow> bool" where
  "absorbed mc c c' \<longleftrightarrow> token_ids c' = token_ids c @ [msg_next_token (fst mc)] \<and>
     rc_text c' = rc_text c @ snd mc \<and> (finished c' \<longleftrightarrow> finished c \<or> msg_finished (fst mc))"

lemma handle_one_effect:
  assumes "contexts fs (msg_uid (fst mc)) = Some r"
  shows "absorbed mc (ctx_at fs r) (ctx_at (handle_one mc fs) r)"
proof -
  obtain m chunk where mc: "mc = (m, chunk)" by (cases mc)
  show ?thesis
    using assms by (cases "pending_chunk_promise (ctx_at fs r)")
      (simp_all add: handle_one_def mc find_context_def Let_def absorbed_def)
qed

lemma handle_one_other:
  "u \<noteq> msg_uid (fst mc) \<Longrightarrow> contexts (handle_one mc fs) u = contexts fs u"
  "contexts fs (msg_uid (fst mc)) \<noteq> Some r \<Longrightarrow> ctx_at (handle_one mc fs) r = ctx_at fs r"
  by (auto simp: handle_one_def find_context_def Let_def split: prod.splits option.splits)

lemma handle_all_effect:
  assumes "fe_inv fs" "distinct (map (msg_uid \<circ> fst) mcs)"
  shows "(\<forall>mc\<in>set mcs. \<forall>r. contexts fs (msg_uid (fst mc)) = Some r \<longrightarrow>
      absorbed mc (ctx_at fs r) (ctx_at (fold handle_one mcs fs) r)) \<and>
    (\<forall>r. (\<forall>mc\<in>set mcs. contexts fs (msg_uid (fst mc)) \<noteq> Some r) \<longrightarrow>
      ctx_at (fold handle_one mcs fs) r = ctx_at fs r)"
  using assms
proof (induction mcs arbitrary: fs)
  case (Cons x mcs)
  let ?fs = "handle_one x fs"
  have "fe_inv ?fs" using Cons.prems(1) by (rule fe_inv_handle_one)
  then have IH: "\<And>mc r. mc \<in> set mcs \<Longrightarrow> contexts ?fs (msg_uid (fst mc)) = Some r \<Longrightarrow>
      absorbed mc (ctx_at ?fs r) (ctx_at (fold handle_one mcs ?fs) r)"
    "\<And>r. \<forall>mc\<in>set mcs. contexts ?fs (msg_uid (fst mc)) \<noteq> Some r \<Longrightarrow>
      ctx_at (fold handle_one mcs ?fs) r = ctx_at ?fs r"
    using Cons.IH [of ?fs] Cons.prems(2) by simp_all
  have ne: "msg_uid (fst y) \<noteq> msg_uid (fst x)" if "y \<in> set mcs" for y
    using Cons.prems(2) that by (auto simp: image_iff)
  have same: "contexts ?fs (msg_uid (fst y)) = contexts fs (msg_uid (fst y))" if "y \<in> set mcs" for y
    using handle_one_other(1) ne [OF that] .
  have inj: "u = u'" if "contexts fs u = Some r" "contexts fs u' = Some r" for u u' r
    using fe_inv_uid [OF Cons.prems(1) that(1)] fe_inv_uid [OF Cons.prems(1) that(2)] by simp
  have "absorbed mc (ctx_at fs r) (ctx_at (fold handle_one (x # mcs) fs) r)"
    if m: "mc \<in> set (x # mcs)" and r: "contexts fs (msg_uid (fst mc)) = Some r" for mc r
  proof (cases "mc = x")
    case True
    have "\<forall>y\<in>set mcs. contexts ?fs (msg_uid (fst y)) \<noteq> Some r"
      using same ne inj r True by metis
    then show ?thesis using IH(2) handle_one_effect [OF r] True by simp
  next
    case False
    then have m: "mc \<in> set mcs" using m by simp
    have "contexts fs (msg_uid (fst x)) \<noteq> Some r" using inj r ne [OF m] by metis
    then show ?thesis using IH(1) [OF m] same [OF m] r handle_one_other(2) by simp
  qed
  moreover have "ctx_at (fold handle_one (x # mcs) fs) r = ctx_at fs r"
    if "\<forall>mc\<in>set (x # mcs). contexts fs (msg_uid (fst mc)) \<noteq> Some r" for r
    using IH(2) [of r] same that handle_one_other(2) by simp
  ultimately show ?case by blast
qed simp

text \<open>
  From tokens to text: one task of the detokenizer, for a vocabulary that decodes token by
  token, appends to every request of the batch that still has a context its token and exactly the
  text of that token, finishes those whose message says so, and touches no other context.
\<close>

theorem batch_reaches_contexts:
  assumes "fe_inv fs" "compositional decode" "map_ok decode (decode_state (pool fs)) hist"
    and "distinct (map msg_uid msgs)" "\<forall>m\<in>set msgs. whole_token decode (msg_next_token m)"
  shows "(\<forall>m\<in>set msgs. \<forall>r. contexts fs (msg_uid m) = Some r \<longrightarrow>
      absorbed (m, decode [msg_next_token m]) (ctx_at fs r)
        (ctx_at (run_decode_task decode (DetokenizeDispatch msgs) fs) r)) \<and>
    (\<forall>r. (\<forall>m\<in>set msgs. contexts fs (msg_uid m) \<noteq> Some r) \<longrightarrow>
      ctx_at (run_decode_task decode (DetokenizeDispatch msgs) fs) r = ctx_at fs r)"
proof -
  obtain dm where d: "detokenize decode msgs (decode_state (pool fs)) =
      (Inr (map (\<lambda>m. decode [msg_next_token m]) msgs), dm)"
    using detokenize_exact [OF assms(2-5)] by blast
  let ?fs = "fs\<lparr>pool := (pool fs)\<lparr>decode_state := dm\<rparr>\<rparr>"
  let ?mcs = "map (\<lambda>m. (m, decode [msg_next_token m])) msgs"
  have z: "zip msgs (map (\<lambda>m. decode [msg_next_token m]) msgs) = ?mcs"
    by (induction msgs) auto
  have "run_decode_task decode (DetokenizeDispatch msgs) fs = fold handle_one ?mcs ?fs"
    by (simp add: run_decode_task_def d Let_def z)
  moreover have "distinct (map (msg_uid \<circ> fst) ?mcs)" using assms(4) by (simp add: comp_def)
  ultimately show ?thesis using handle_all_effect [of ?fs ?mcs] assms(1) by simp
qed

theorem batch_reaches_contexts_witness:
  "\<forall>s. rc_text (ctx_at (run_decode_task demo_decode (DetokenizeDispatch demo_tokens)
     (snd (wait_next_chunk_async 0 (frontend_init 1 s)))) 0) = ''H''"
proof
  fix s
  let ?fs = "snd (wait_next_chunk_async 0 (frontend_init 1 s))"
  have sel: "contexts ?fs 0 = Some 0" "rc_text (ctx_at ?fs 0) = []" "decode_state (pool ?fs) = (\<lambda>_. None)"
    by (simp_all add: wait_next_chunk_async_def get_or_create_context_def new_context_def frontend_init_def
        pool_init_def request_context_init_def Let_def)
  have "fe_inv ?fs" by (rule fe_inv_chunk_async [OF fe_inv_init])
  moreover have "compositional demo_decode" by (simp add: compositional_def demo_decode_def)
  moreover have "map_ok demo_decode (decode_state (pool ?fs)) (\<lambda>_. [])" by (simp add: sel map_ok_def)
  moreover have "distinct (map msg_uid demo_tokens)"
    "\<forall>m\<in>set demo_tokens. whole_token demo_decode (msg_next_token m)"
    by (simp_all add: demo_tokens_def whole_token_def demo_decode_def)
  ultimately have "\<forall>m\<in>set demo_tokens. \<forall>r. contexts ?fs (msg_uid m) = Some r \<longrightarrow>
      absorbed (m, demo_decode [msg_next_token m]) (ctx_at ?fs r)
        (ctx_at (run_decode_task demo_decode (DetokenizeDispatch demo_tokens) ?fs) r)"
    by (intro batch_reaches_contexts [THEN conjunct1])
  then show "rc_text (ctx_at (run_decode_task demo_decode (DetokenizeDispatch demo_tokens) ?fs) 0) = ''H''"
    by (simp add: demo_tokens_def absorbed_def sel demo_decode_def demo_chars)
qed

end
