(* ===== verification/HttpProps.thy ===== *)
theory HttpProps
  imports Http FrontendProps ArgsProps
begin

text \<open>
  The HTTP server: events read back by a client are the payloads that were sent, a finished
  request is streamed completely and then forgotten, a client that goes away aborts its request
  and never blocks the handler, and the case in which the error path does block.
\<close>

section \<open>A client for server-sent events\<close>

text \<open>
  Lines end with a line feed, a carriage return or both; an unfinished line is not seen. The
  \<open>data\<close> fields of an event are joined with line feeds, and an empty line ends the event.
\<close>

function split_lines :: "string \<Rightarrow> string \<Rightarrow> string list" where
  "split_lines acc [] = []"
| "split_lines acc (c # cs) =
     (if c = newline then rev acc # split_lines [] cs
      else if c = CHR 0x0D then rev acc # split_lines [] (if cs \<noteq> [] \<and> hd cs = newline then tl cs else cs)
      else split_lines (c # acc) cs)"
  by pat_completeness auto
termination by (relation "measure (\<lambda>(_, s). length s)") auto

definition data_value :: "string \<Rightarrow> string" where
  "data_value l = (let v = drop 5 l in if v \<noteq> [] \<and> hd v = CHR '' '' then tl v else v)"

fun join_lines :: "string list \<Rightarrow> string" where
  "join_lines [] = []"
| "join_lines [l] = l"
| "join_lines (l # ls) = l @ newline # join_lines ls"

fun sse_dispatch :: "string list \<Rightarrow> string list \<Rightarrow> string list" where
  "sse_dispatch buf [] = []"
| "sse_dispatch buf (l # ls) =
     (if l = [] then (if buf = [] then sse_dispatch [] ls else join_lines buf # sse_dispatch [] ls)
      else if starts_with ''data:'' l then sse_dispatch (buf @ [data_value l]) ls
      else sse_dispatch buf ls)"

definition sse_events :: "string \<Rightarrow> string list" where
  "sse_events s = sse_dispatch [] (split_lines [] s)"

lemma newline_char: "newline = CHR 0x0A"
  by (simp add: newline_def char_of_def bit_0)

abbreviation plain :: "string \<Rightarrow> bool" where
  "plain s \<equiv> newline \<notin> set s \<and> CHR 0x0D \<notin> set s"

lemma split_lines_plain: "plain l \<Longrightarrow> split_lines acc (l @ newline # r) = (rev acc @ l) # split_lines [] r"
  by (induction l arbitrary: acc) auto

fun lines_of :: "string \<Rightarrow> string list" where
  "lines_of [] = [[]]"
| "lines_of (c # cs) = (if c = newline then [] # lines_of cs else (c # hd (lines_of cs)) # tl (lines_of cs))"

lemma lines_of_not_Nil [simp]: "lines_of s \<noteq> []"
  by (cases s) auto

lemma join_lines_of: "join_lines (lines_of s) = s"
proof (induction s)
  case (Cons c cs)
  have *: "join_lines ((c # hd ls) # tl ls) = c # join_lines ls" if "ls \<noteq> []" for ls
    using that by (cases ls rule: join_lines.cases) auto
  have "join_lines ([] # ls) = newline # join_lines ls" if "ls \<noteq> []" for ls
    using that by (cases ls) auto
  then show ?case using Cons * by simp
qed simp

lemma lines_of_plain: "CHR 0x0D \<notin> set s \<Longrightarrow> l \<in> set (lines_of s) \<Longrightarrow> plain l"
proof (induction s arbitrary: l)
  case (Cons c cs)
  have hd_in: "hd (lines_of cs) \<in> set (lines_of cs)" by simp
  have "l = [] \<or> l \<in> set (lines_of cs) \<or> (c \<noteq> newline \<and> l = c # hd (lines_of cs))"
    using Cons.prems(2) by (auto split: if_splits dest: list.set_sel(2) [rotated])
  then show ?case
    using Cons.IH [of l] Cons.IH [OF _ hd_in] Cons.prems(1) by auto
qed simp

lemma lines_of_break:
  "newline \<notin> set a \<Longrightarrow> lines_of (a @ newline # b) = a # lines_of b"
  "newline \<notin> set a \<Longrightarrow> lines_of a = [a]"
  by (induction a) auto

lemma sse_lines_eq: "sse_lines s = concat (map (\<lambda>l. ''data: '' @ l @ [newline]) (lines_of s))"
proof (induction s rule: sse_lines.induct)
  case (1 s)
  show ?case
  proof (cases "dropWhile (\<lambda>c. c \<noteq> newline) s")
    case Nil
    then have "newline \<notin> set s" by auto
    then show ?thesis using Nil by (subst sse_lines.simps, simp only: Nil list.case) (simp add: lines_of_break(2))
  next
    case (Cons x r)
    let ?a = "takeWhile (\<lambda>c. c \<noteq> newline) s"
    have x: "x = newline" using Cons hd_dropWhile [of "\<lambda>c. c \<noteq> newline" s] by simp
    have s: "s = ?a @ newline # r" using takeWhile_dropWhile_id [of "\<lambda>c. c \<noteq> newline" s] Cons x by simp
    have a: "newline \<notin> set ?a" by (auto dest: set_takeWhileD)
    have l: "lines_of s = ?a # lines_of r" using lines_of_break(1) [OF a, of r] s by simp
    have "sse_lines s = ''data: '' @ ?a @ [newline] @ (if r = [] then ''data: '' @ [newline] else sse_lines r)"
      using Cons by (subst sse_lines.simps) simp
    moreover have "r \<noteq> [] \<Longrightarrow> sse_lines r = concat (map (\<lambda>l. ''data: '' @ l @ [newline]) (lines_of r))"
      using 1 Cons by simp
    ultimately show ?thesis by (cases "r = []") (simp_all add: l)
  qed
qed

lemma data_line: "starts_with ''data:'' (''data: '' @ l)" "data_value (''data: '' @ l) = l" "''data: '' @ l \<noteq> []"
  by (simp_all add: starts_with_def data_value_def)

lemma split_data_lines:
  "\<forall>l\<in>set ls. plain l \<Longrightarrow>
   split_lines [] (concat (map (\<lambda>l. ''data: '' @ l @ [newline]) ls) @ r) = map (\<lambda>l. ''data: '' @ l) ls @ split_lines [] r"
proof (induction ls)
  case (Cons l ls)
  have "plain (''data: '' @ l)" using Cons.prems by (simp add: newline_char)
  from split_lines_plain [OF this, of "[]"] show ?case using Cons by simp
qed simp

lemma dispatch_data: "sse_dispatch buf (map (\<lambda>l. ''data: '' @ l) ls @ r) = sse_dispatch (buf @ ls) r"
proof (induction ls arbitrary: buf)
  case (Cons l ls)
  have "sse_dispatch buf ((''data: '' @ l) # x) = sse_dispatch (buf @ [l]) x" for x
    by (simp only: sse_dispatch.simps data_line if_True if_False simp_thms)
  then show ?case using Cons [of "buf @ [l]"] by (simp only: list.map append.simps append_assoc)
qed simp

text \<open>
  Round trip of the events: a client that reads what \<open>make_sse_event\<close> wrote for a list of
  payloads gets exactly these payloads, whatever line breaks they contain, as long as none
  contains a carriage return.
\<close>

theorem sse_roundtrip:
  assumes "\<forall>p\<in>set ps. CHR 0x0D \<notin> set p"
  shows "sse_events (concat (map make_sse_event ps)) = ps"
  using assms
proof (induction ps)
  case Nil
  then show ?case by (simp add: sse_events_def)
next
  case (Cons p ps)
  have "\<forall>l\<in>set (lines_of p). plain l" using lines_of_plain [of p] Cons.prems by auto
  from split_data_lines [OF this]
  have "split_lines [] (make_sse_event p @ r) = map (\<lambda>l. ''data: '' @ l) (lines_of p) @ [] # split_lines [] r" for r
    by (simp add: make_sse_event_def sse_lines_eq)
  then have "sse_events (make_sse_event p @ r) = p # sse_events r" for r
    by (simp only: sse_events_def dispatch_data append_Nil sse_dispatch.simps if_True lines_of_not_Nil
        if_False join_lines_of simp_thms)
  then show ?case using Cons by simp
qed

theorem sse_roundtrip_witness:
  "sse_events (concat (map make_sse_event [''a'' @ [newline, newline] @ ''b'', [], [newline]])) =
     [''a'' @ [newline, newline] @ ''b'', [], [newline]]"
  by (rule sse_roundtrip) (simp add: newline_char)

section \<open>Streaming a request\<close>

lemma demo_fe_other: "u \<noteq> 0 \<Longrightarrow> contexts (demo_fe s) u = None"
proof -
  assume u: "u \<noteq> 0"
  have a: "contexts (fold handle_one mcs fs) u = contexts fs u" if "\<forall>mc\<in>set mcs. msg_uid (fst mc) = 0" for mcs fs
    using that u handle_one_other(1) by (induction mcs arbitrary: fs) simp_all
  have b: "\<forall>mc\<in>set (zip demo_tokens cs). msg_uid (fst mc) = 0" "\<forall>mc\<in>set (zip demo_last cs). msg_uid (fst mc) = 0" for cs
    by (auto simp: demo_tokens_def demo_last_def dest: set_zip_leftD)
  have "contexts (demo_arrive demo_tokens fs) u = contexts fs u"
    "contexts (demo_arrive demo_last fs) u = contexts fs u" for fs
    by (auto simp: a [OF b(1)] a [OF b(2)] demo_arrive_def run_decode_task_def handle_detokenize_def Let_def split: prod.splits sum.splits)
  then show "contexts (demo_fe s) u = None"
    using u by (simp add: demo_fe_def wait_next_chunk_async_def get_or_create_context_def new_context_def
        frontend_init_def request_context_init_def Let_def)
qed

fun generate_run :: "'j json_ops \<Rightarrow> nat \<Rightarrow> nat \<Rightarrow> stream_pc \<times> http_response \<times> frontend \<Rightarrow>
    (stream_pc \<times> http_response \<times> frontend) result option" where
  "generate_run ops uid 0 st = Some (Inr st)"
| "generate_run ops uid (Suc n) st =
     (case generate_step ops uid True st of
        Some (Inr st1) \<Rightarrow> generate_run ops uid n st1
      | r \<Rightarrow> r)"

lemma find_fresh: "f \<notin> fst ` snd ` set es \<Longrightarrow> List.find (\<lambda>e. fst (snd e) = f) (es @ [(r, f, v)]) = Some (r, f, v)"
  by (induction es) auto

lemma logged_fresh:
  assumes "fe_inv fs"
  shows "next_future fs \<notin> fst ` snd ` set (chunk_log fs)" "next_future fs \<notin> fst ` snd ` set (result_log fs)"
  using assms by (auto simp: fe_inv_def logged_def image_subset_iff)

text \<open>Asking for the result of a finished request: the answer is there at once, the context goes.\<close>

lemma finished_result:
  assumes "fe_inv fs" "contexts fs uid = Some ref" "finished (ctx_at fs ref)"
  shows "\<exists>fs1. wait_result_async uid fs = (next_future fs, fs1) \<and> result_of (next_future fs) fs1 \<noteq> None \<and>
     contexts fs1 uid = None \<and> runner fs1 = runner fs"
  using assms logged_fresh(2) [OF assms(1)]
  by (auto simp: wait_result_async_def get_or_create_context_def Let_def result_of_def
      fulfil_result_def erase_context_def find_fresh)

text \<open>Asking for the next chunk when one is queued.\<close>

lemma queued_chunk:
  assumes "fe_inv fs" "contexts fs uid = Some ref" "pending_chunks (ctx_at fs ref) = x # xs"
  shows "\<exists>fs1. wait_next_chunk_async uid fs = (next_future fs, fs1) \<and> chunk_of (next_future fs) fs1 = Some (Some x) \<and>
     contexts fs1 = contexts fs \<and> fe_inv fs1 \<and> runner fs1 = runner fs \<and>
     ctx_at fs1 ref = (ctx_at fs ref)\<lparr>pending_chunks := xs\<rparr>"
proof -
  have ref: "ref < next_ctx fs" using assms(1,2) by (simp add: fe_inv_def)
  have "fe_inv (snd (wait_next_chunk_async uid fs))" using assms(1) by (rule fe_inv_chunk_async)
  then show ?thesis
    using assms logged_fresh(1) [OF assms(1)]
    by (auto simp: wait_next_chunk_async_def get_or_create_context_def Let_def chunk_of_def pop_chunk_def
        fulfil_chunk_def set_ctx_def find_fresh)
qed

lemma generate_stream_rest:
  assumes "fe_inv fs" "contexts fs uid = Some ref" "finished (ctx_at fs ref)"
    and "chunk_of f fs = Some (Some x)" "pending_chunks (ctx_at fs ref) = xs"
    and "map gr_finished (x # xs) = replicate (length xs) False @ [True]"
  shows "\<exists>r1 fs1. generate_run ops uid (length xs + 2) (AwaitChunk f first, r, fs) = Some (Inr (Served, r1, fs1)) \<and>
     chunks_written r1 = chunks_written r @ map (make_sse_event \<circ> incremental_output) (x # xs) @ [make_sse_event ''[DONE]''] \<and>
     chunked_closed r1 \<and> contexts fs1 uid = None \<and> runner fs1 = runner fs"
  using assms
proof (induction xs arbitrary: x fs f first r)
  case Nil
  obtain fs1 where w: "wait_result_async uid fs = (next_future fs, fs1)" "result_of (next_future fs) fs1 \<noteq> None"
    "contexts fs1 uid = None" "runner fs1 = runner fs"
    using finished_result [OF Nil.prems(1-3)] by blast
  have "gr_finished x" using Nil.prems(6) by simp
  then show ?case using w Nil.prems(4) by (auto simp: generate_step_def write_chunk_def numeral_2_eq_2)
next
  case (Cons y ys)
  obtain fs1 where w: "wait_next_chunk_async uid fs = (next_future fs, fs1)"
    "chunk_of (next_future fs) fs1 = Some (Some y)" "contexts fs1 = contexts fs" "fe_inv fs1" "runner fs1 = runner fs"
    "ctx_at fs1 ref = (ctx_at fs ref)\<lparr>pending_chunks := ys\<rparr>"
    using queued_chunk [OF Cons.prems(1,2,5)] by blast
  let ?r = "write_chunk True (make_sse_event (incremental_output x)) r"
  have nf: "\<not> gr_finished x" "map gr_finished (y # ys) = replicate (length ys) False @ [True]" using Cons.prems(6) by simp_all
  have "generate_step ops uid True (AwaitChunk f first, r, fs) = Some (Inr (AwaitChunk (next_future fs) False, ?r, fs1))"
    using nf w(1) Cons.prems(4) by (simp add: generate_step_def)
  then have "generate_run ops uid (length (y # ys) + 2) (AwaitChunk f first, r, fs) =
      generate_run ops uid (length ys + 2) (AwaitChunk (next_future fs) False, ?r, fs1)" by simp
  moreover have "contexts fs1 uid = Some ref" "finished (ctx_at fs1 ref)" "pending_chunks (ctx_at fs1 ref) = ys"
    using Cons.prems(2,3) w by simp_all
  ultimately show ?case
    using Cons.IH [OF w(4) _ _ w(2) _ nf(2), of False ?r] w(5) by (auto simp: write_chunk_def)
qed

text \<open>
  C33: A request that has finished with its chunks still queued is served completely: from the
  moment the client accepts the stream, the handler writes one event per chunk in order, the
  closing event, closes the stream, and the front end forgets the request; it never waits.
\<close>

theorem stream_serves_all:
  assumes "fe_inv fs" "contexts fs uid = Some ref" "finished (ctx_at fs ref)"
    and "map gr_finished (pending_chunks (ctx_at fs ref)) = replicate n False @ [True]"
  shows "\<exists>r1 fs1. generate_run ops uid (n + 3) (AwaitBegin, r, fs) = Some (Inr (Served, r1, fs1)) \<and>
     chunks_written r1 = chunks_written r @
       map (make_sse_event \<circ> incremental_output) (pending_chunks (ctx_at fs ref)) @ [make_sse_event ''[DONE]''] \<and>
     chunked_closed r1 \<and> contexts fs1 uid = None"
proof -
  obtain x xs where p: "pending_chunks (ctx_at fs ref) = x # xs"
    using assms(4) by (cases "pending_chunks (ctx_at fs ref)") auto
  have n: "length xs = n" using arg_cong [OF assms(4), of length] p by simp
  obtain fs1 where w: "wait_next_chunk_async uid fs = (next_future fs, fs1)"
    "chunk_of (next_future fs) fs1 = Some (Some x)" "contexts fs1 = contexts fs" "fe_inv fs1"
    "ctx_at fs1 ref = (ctx_at fs ref)\<lparr>pending_chunks := xs\<rparr>"
    using queued_chunk [OF assms(1,2) p] by blast
  have "generate_run ops uid (n + 3) (AwaitBegin, r, fs) =
      generate_run ops uid (length xs + 2) (AwaitChunk (next_future fs) True, r, fs1)"
    using w(1) n by (simp add: generate_step_def numeral_3_eq_3)
  moreover have "contexts fs1 uid = Some ref" "finished (ctx_at fs1 ref)" "pending_chunks (ctx_at fs1 ref) = xs"
    "map gr_finished (x # xs) = replicate (length xs) False @ [True]"
    using assms(2-4) w p n by simp_all
  ultimately show ?thesis
    using generate_stream_rest [OF w(4) _ _ w(2), where uid = uid and ref = ref and xs = xs and ops = ops and first = True and r = r] p
    by auto
qed

theorem stream_serves_all_witness:
  "\<forall>s. \<exists>r1 fs1. generate_run (undefined :: unit json_ops) 0 3 (AwaitBegin, empty_response, demo_fe s) =
       Some (Inr (Served, r1, fs1)) \<and>
     chunks_written r1 = [make_sse_event ''i'', make_sse_event ''[DONE]'']"
proof
  fix s
  have "fe_reach (undefined :: unit model_fns) (\<lambda>_. Inr []) None demo_decode (demo_fe s)" by (rule demo_fe_reach)
  from stream_serves_all [OF fe_reach_inv [OF this], of 0 0 0 "undefined :: unit json_ops" empty_response]
  show "\<exists>r1 fs1. generate_run (undefined :: unit json_ops) 0 3 (AwaitBegin, empty_response, demo_fe s) =
       Some (Inr (Served, r1, fs1)) \<and>
     chunks_written r1 = [make_sse_event ''i'', make_sse_event ''[DONE]'']"
    by (auto simp: demo_fe_state empty_response_def)
qed

text \<open>
  A client that goes away, before the stream begins or while a chunk is written, aborts its
  request: the scheduler is told, the front end forgets the request, and the result the handler
  then awaits is there at once, so that the handler cannot hang.
\<close>

theorem disconnect_aborts:
  assumes "fe_inv fs" "contexts fs uid = Some ref" "result_promise (ctx_at fs ref) = None"
    and "pc = AwaitBegin \<or> pc = AwaitChunk f first \<and> chunk_of f fs = Some (Some x)"
  shows "\<exists>e pc1 fs1. generate_step ops uid False (pc, r, fs) = Some (Inr (pc1, r, fs1)) \<and>
     pc1 \<in> {AwaitGivenUp e, AwaitEnd e} \<and> result_of e fs1 \<noteq> None \<and>
     commands (runner fs1) = commands (runner fs) @ [KAbort uid] \<and> contexts fs1 uid = None"
proof -
  let ?fs = "fe_abort uid fs"
  have "contexts ?fs uid = Some ref" "finished (ctx_at ?fs ref)"
    "commands (runner ?fs) = commands (runner fs) @ [KAbort uid]"
    using assms(2,3) by (simp_all add: fe_abort_def find_context_def Let_def runner_abort_def)
  then obtain e fs1 where w: "wait_result_async uid ?fs = (e, fs1)" "result_of e fs1 \<noteq> None"
    "contexts fs1 uid = None" "commands (runner fs1) = commands (runner fs) @ [KAbort uid]"
    using finished_result [OF fe_inv_abort [OF assms(1)]] by metis
  from assms(4) consider "pc = AwaitBegin" | "pc = AwaitChunk f first" "chunk_of f fs = Some (Some x)" by blast
  then show ?thesis
  proof cases
    case 1
    then have "generate_step ops uid False (pc, r, fs) = Some (Inr (AwaitGivenUp e, r, fs1))"
      using w(1) by (simp add: generate_step_def)
    then show ?thesis using w by blast
  next
    case 2
    then have "generate_step ops uid False (pc, r, fs) = Some (Inr (AwaitEnd e, r, fs1))"
      using w(1) by (simp add: generate_step_def write_chunk_def)
    then show ?thesis using w by blast
  qed
qed

theorem disconnect_aborts_witness:
  "\<forall>s. \<exists>e fs1. generate_step (undefined :: unit json_ops) 0 False (AwaitBegin, empty_response, demo_fe s) =
       Some (Inr (AwaitGivenUp e, empty_response, fs1)) \<and> contexts fs1 0 = None"
proof
  fix s
  have "fe_reach (undefined :: unit model_fns) (\<lambda>_. Inr []) None demo_decode (demo_fe s)" by (rule demo_fe_reach)
  from disconnect_aborts [OF fe_reach_inv [OF this], of 0 0 AwaitBegin 0 True undefined
      "undefined :: unit json_ops" empty_response]
  obtain e pc1 fs1 where g: "generate_step (undefined :: unit json_ops) 0 False (AwaitBegin, empty_response, demo_fe s) =
      Some (Inr (pc1, empty_response, fs1))" "contexts fs1 0 = None"
    by (auto simp: demo_fe_state)
  then have "\<exists>e. pc1 = AwaitGivenUp e" by (auto simp: generate_step_def split: prod.splits)
  then show "\<exists>e fs1. generate_step (undefined :: unit json_ops) 0 False (AwaitBegin, empty_response, demo_fe s) =
       Some (Inr (AwaitGivenUp e, empty_response, fs1)) \<and> contexts fs1 0 = None"
    using g by blast
qed



section \<open>Requests\<close>

text \<open>What the JSON library promises for the values that the server reads.\<close>

definition json_laws :: "'j json_ops \<Rightarrow> bool" where
  "json_laws ops \<longleftrightarrow>
     (\<forall>kvs k. j_contains ops k (j_object ops kvs) \<longleftrightarrow> map_of kvs k \<noteq> None) \<and>
     (\<forall>kvs k v. map_of kvs k = Some v \<longrightarrow> j_at ops k (j_object ops kvs) = Inr v) \<and>
     (\<forall>kvs k. map_of kvs k = None \<longrightarrow> (\<exists>e. j_at ops k (j_object ops kvs) = Inl e)) \<and>
     (\<forall>s. j_get_string ops (j_string ops s) = Inr s) \<and>
     (\<forall>i. fits_int i \<longrightarrow> j_get_int ops (j_int ops i) = Inr i) \<and>
     (\<forall>b. j_get_bool ops (j_bool ops b) = Inr b)"

definition opt_field :: "string \<Rightarrow> bool \<Rightarrow> 'j \<Rightarrow> (string \<times> 'j) list" where
  "opt_field k present v = (if present then [(k, v)] else [])"

definition generate_to_json :: "'j json_ops \<Rightarrow> bool \<Rightarrow> generate_http_request \<Rightarrow> 'j" where
  "generate_to_json ops all g =
     j_object ops ([(''prompt'', j_string ops (gh_prompt g))] @
       opt_field ''max_tokens'' (all \<or> gh_max_tokens g \<noteq> 16) (j_int ops (gh_max_tokens g)) @
       opt_field ''ignore_eos'' (all \<or> gh_ignore_eos g) (j_bool ops (gh_ignore_eos g)) @
       opt_field ''stream'' (all \<or> gh_stream g) (j_bool ops (gh_stream g)))"

text \<open>
  Round trip of a generate request: reading the object that holds the prompt and the fields,
  where the fields with their default value may be left out, gives the request back, and an
  object without a prompt is refused.
\<close>

theorem generate_request_roundtrip:
  assumes "json_laws ops" "fits_int (gh_max_tokens g)"
  shows "generate_from_json ops (generate_to_json ops all g) default_generate_http = Inr g \<and>
    (map_of kvs ''prompt'' = None \<longrightarrow> (\<exists>e. generate_from_json ops (j_object ops kvs) default_generate_http = Inl e))"
proof
  define kvs where "kvs = [(''prompt'', j_string ops (gh_prompt g))] @
       opt_field ''max_tokens'' (all \<or> gh_max_tokens g \<noteq> 16) (j_int ops (gh_max_tokens g)) @
       opt_field ''ignore_eos'' (all \<or> gh_ignore_eos g) (j_bool ops (gh_ignore_eos g)) @
       opt_field ''stream'' (all \<or> gh_stream g) (j_bool ops (gh_stream g))"
  have m: "map_of kvs ''prompt'' = Some (j_string ops (gh_prompt g))"
    "map_of kvs ''max_tokens'' = (if all \<or> gh_max_tokens g \<noteq> 16 then Some (j_int ops (gh_max_tokens g)) else None)"
    "map_of kvs ''ignore_eos'' = (if all \<or> gh_ignore_eos g then Some (j_bool ops (gh_ignore_eos g)) else None)"
    "map_of kvs ''stream'' = (if all \<or> gh_stream g then Some (j_bool ops (gh_stream g)) else None)"
    by (simp_all add: kvs_def opt_field_def)
  have c: "j_contains ops k (j_object ops kvs) \<longleftrightarrow> map_of kvs k \<noteq> None"
    "map_of kvs k = Some v \<Longrightarrow> j_at ops k (j_object ops kvs) = Inr v" for k v
    using assms(1) by (auto simp: json_laws_def)
  have get: "j_get_string ops (j_string ops s) = Inr s" "j_get_bool ops (j_bool ops b) = Inr b"
    "j_get_int ops (j_int ops (gh_max_tokens g)) = Inr (gh_max_tokens g)" for s b
    using assms by (simp_all add: json_laws_def)
  show "generate_from_json ops (generate_to_json ops all g) default_generate_http = Inr g"
    unfolding generate_to_json_def kvs_def [symmetric] generate_from_json_def read_field_def c(1)
    by (auto simp: m c(2) get default_generate_http_def intro: generate_http_request.equality)
  show "map_of kvs ''prompt'' = None \<longrightarrow> (\<exists>e. generate_from_json ops (j_object ops kvs) default_generate_http = Inl e)"
    for kvs
  proof
    assume "map_of kvs ''prompt'' = None"
    then obtain e where "j_at ops ''prompt'' (j_object ops kvs) = Inl e" using assms(1) unfolding json_laws_def by blast
    then show "\<exists>e. generate_from_json ops (j_object ops kvs) default_generate_http = Inl e"
      by (simp add: generate_from_json_def)
  qed
qed

datatype demo_json =
    JObject "(string \<times> demo_json) list"
  | JArray "demo_json list"
  | JString string
  | JInt int
  | JBool bool
  | JNull

definition demo_ops :: "demo_json json_ops" where
  "demo_ops =
     \<lparr>j_object = JObject, j_array = JArray, j_string = JString, j_int = JInt, j_bool = JBool, j_null = JNull,
      j_contains = (\<lambda>k j. case j of JObject kvs \<Rightarrow> map_of kvs k \<noteq> None | _ \<Rightarrow> False),
      j_at = (\<lambda>k j. case j of
         JObject kvs \<Rightarrow> (case map_of kvs k of Some v \<Rightarrow> Inr v | None \<Rightarrow> Inl (OutOfRange k))
       | _ \<Rightarrow> Inl (RuntimeError k)),
      j_is_null = (\<lambda>j. j = JNull),
      j_is_integer = (\<lambda>j. case j of JInt i \<Rightarrow> True | _ \<Rightarrow> False),
      j_is_array = (\<lambda>j. case j of JArray js \<Rightarrow> True | _ \<Rightarrow> False),
      j_get_string = (\<lambda>j. case j of JString s \<Rightarrow> Inr s | _ \<Rightarrow> Inl (RuntimeError [])),
      j_get_int = (\<lambda>j. case j of JInt i \<Rightarrow> Inr i | _ \<Rightarrow> Inl (RuntimeError [])),
      j_get_float = (\<lambda>j. case j of JInt i \<Rightarrow> Inr (of_int i) | _ \<Rightarrow> Inl (RuntimeError [])),
      j_get_bool = (\<lambda>j. case j of JBool b \<Rightarrow> Inr b | _ \<Rightarrow> Inl (RuntimeError [])),
      j_get_array = (\<lambda>j. case j of JArray js \<Rightarrow> Inr js | _ \<Rightarrow> Inl (RuntimeError [])),
      j_items = (\<lambda>j. case j of JObject kvs \<Rightarrow> kvs | _ \<Rightarrow> []),
      j_dump = (\<lambda>j. Inr []), j_parse = (\<lambda>s. Inl (RuntimeError []))\<rparr>"

theorem generate_request_roundtrip_witness:
  "generate_from_json demo_ops (generate_to_json demo_ops False
       \<lparr>gh_prompt = ''hi'', gh_max_tokens = 5, gh_ignore_eos = True, gh_stream = False\<rparr>) default_generate_http =
     Inr \<lparr>gh_prompt = ''hi'', gh_max_tokens = 5, gh_ignore_eos = True, gh_stream = False\<rparr> \<and>
   (\<exists>e. generate_from_json demo_ops (j_object demo_ops []) default_generate_http = Inl e)"
proof -
  have "json_laws demo_ops" by (simp add: json_laws_def demo_ops_def)
  from generate_request_roundtrip [OF this, of
      "\<lparr>gh_prompt = ''hi'', gh_max_tokens = 5, gh_ignore_eos = True, gh_stream = False\<rparr>" False "[]"]
  show ?thesis by (simp add: fits_int_def)
qed

end
