(* ===== verification/Distributed.thy ===== *)
theory Distributed
  imports Strings
begin

text \<open>
  Tensor parallelism: the rank and the size of the group from the environment
  (\<^verbatim>\<open>src/distributed/distributed.cc\<close>), the file through which the ranks agree on an NCCL
  identifier, and the cached communicator. The environment is a map, NCCL and CUDA are
  parameters.
\<close>

type_synonym environment = "string \<Rightarrow> string option"

definition read_env_int :: "environment \<Rightarrow> string \<Rightarrow> int \<Rightarrow> int result" where
  "read_env_int env name default_value =
     (case env name of
        None \<Rightarrow> Inr default_value
      | Some raw \<Rightarrow> if raw = [] then Inr default_value else stoi raw)"

definition read_env_string :: "environment \<Rightarrow> string \<Rightarrow> string \<Rightarrow> string" where
  "read_env_string env name default_value =
     (case env name of None \<Rightarrow> default_value | Some raw \<Rightarrow> if raw = [] then default_value else raw)"

record tp_info =
  tp_rank :: int
  tp_size :: int

definition tp_enabled :: "tp_info \<Rightarrow> bool" where
  "tp_enabled i = (tp_size i > 1)"

text \<open>The inner call is an argument of the outer one, so it is evaluated, and may throw, first.\<close>

definition read_tp_info_from_env :: "environment \<Rightarrow> tp_info result" where
  "read_tp_info_from_env env =
     res_bind (read_env_int env ''WORLD_SIZE'' 1) (\<lambda>w.
     res_bind (read_env_int env ''SGLANG_TP_SIZE'' w) (\<lambda>sz.
     res_bind (read_env_int env ''RANK'' 0) (\<lambda>k.
     res_bind (read_env_int env ''SGLANG_TP_RANK'' k) (\<lambda>rk.
     res_bind (check (sz \<ge> 1) (TorchCheck ''Tensor parallel size must be >= 1'')) (\<lambda>_.
     res_bind (check (rk \<ge> 0 \<and> rk < sz) (TorchCheck ''Tensor parallel rank must be in [0, size)'')) (\<lambda>_.
     Inr \<lparr>tp_rank = rk, tp_size = sz\<rparr>))))))"

text \<open>\<open>test\<close> is \<open>g_test_tp_info\<close>.\<close>

definition get_tp_info :: "environment \<Rightarrow> tp_info option \<Rightarrow> tp_info result" where
  "get_tp_info env test = (case test of Some i \<Rightarrow> Inr i | None \<Rightarrow> read_tp_info_from_env env)"

definition set_tp_info_for_test :: "int \<Rightarrow> int \<Rightarrow> tp_info option \<Rightarrow> tp_info option result" where
  "set_tp_info_for_test rk sz test =
     res_bind (check (sz \<ge> 1) (TorchCheck ''Tensor parallel size must be >= 1'')) (\<lambda>_.
     res_bind (check (rk \<ge> 0 \<and> rk < sz) (TorchCheck ''Tensor parallel rank must be in [0, size)'')) (\<lambda>_.
     Inr (Some \<lparr>tp_rank = rk, tp_size = sz\<rparr>)))"

definition reset_tp_info_for_test :: "tp_info option \<Rightarrow> tp_info option" where
  "reset_tp_info_for_test test = None"

definition master_addr_from_env :: "environment \<Rightarrow> string" where
  "master_addr_from_env env =
     read_env_string env ''SGLANG_TP_MASTER_ADDR'' (read_env_string env ''MASTER_ADDR'' ''127.0.0.1'')"

definition master_port_from_env :: "environment \<Rightarrow> int result" where
  "master_port_from_env env =
     res_bind (read_env_int env ''MASTER_PORT'' 29500) (\<lambda>p.
     res_bind (read_env_int env ''SGLANG_TP_MASTER_PORT'' p) (\<lambda>port.
     res_bind (check (port > 0 \<and> port \<le> 65535) (TorchCheck ''Invalid tensor-parallel master port'')) (\<lambda>_.
     Inr port)))"

definition nccl_id_file_from_env :: "environment \<Rightarrow> string result" where
  "nccl_id_file_from_env env =
     res_bind (master_port_from_env env) (\<lambda>port.
     let fallback = ''/tmp/sglang_tp_nccl_'' @ master_addr_from_env env @ ''_'' @ int_to_string port @ ''.id'';
         path = map (\<lambda>ch. if ch = CHR '':'' \<or> ch = CHR ''/'' then CHR ''_'' else ch) fallback in
     Inr (read_env_string env ''SGLANG_TP_NCCL_ID_FILE'' path))"

text \<open>
  What is used of NCCL and CUDA: \<open>None\<close> is a status other than success. \<open>unique_id\<close> is
  \<open>ncclGetUniqueId\<close>, \<open>init_rank size id rank\<close> is \<open>ncclCommInitRank\<close>.
\<close>

record ('id, 'c) nccl_ops =
  unique_id :: "'id option"
  set_device :: "int \<Rightarrow> unit option"
  init_rank :: "int \<Rightarrow> 'id \<Rightarrow> int \<Rightarrow> 'c option"

definition check_status :: "string \<Rightarrow> 'a option \<Rightarrow> 'a result" where
  "check_status operation r = (case r of None \<Rightarrow> Inl (TorchCheck (operation @ '' failed'')) | Some x \<Rightarrow> Inr x)"

text \<open>
  The file system at the moments of the calls: the identifier in the file with a name. Writing
  goes through a temporary file that is renamed, so a reader sees the whole identifier or the
  file before. A reader polls until there is a file; \<open>None\<close> is the time-out.
\<close>

type_synonym 'id id_files = "string \<Rightarrow> 'id option"

definition write_nccl_id_file :: "string \<Rightarrow> 'id \<Rightarrow> 'id id_files \<Rightarrow> 'id id_files" where
  "write_nccl_id_file path i files = files(path \<mapsto> i)"

definition read_nccl_id_file :: "string \<Rightarrow> 'id id_files list \<Rightarrow> 'id result" where
  "read_nccl_id_file path polls =
     (case List.find (\<lambda>files. files path \<noteq> None) polls of
        Some files \<Rightarrow> Inr (the (files path))
      | None \<Rightarrow> Inl (TorchCheck ''Timed out waiting for NCCL unique id file''))"

record 'c process_group =
  pg_info :: tp_info
  pg_id_file :: string
  pg_device :: int
  pg_comm :: 'c

definition create_nccl_state ::
  "environment \<Rightarrow> ('id, 'c) nccl_ops \<Rightarrow> tp_info \<Rightarrow> int \<Rightarrow> string \<Rightarrow> 'id id_files list \<Rightarrow> 'id id_files \<Rightarrow>
   ('c process_group \<times> 'id id_files) result" where
  "create_nccl_state env ops info device id_file polls files =
     res_bind (read_env_int env ''SGLANG_TP_TIMEOUT_SEC'' 600) (\<lambda>timeout.
     res_bind (check (timeout > 0) (TorchCheck ''SGLANG_TP_TIMEOUT_SEC must be positive'')) (\<lambda>_.
     res_bind
       (if tp_rank info = 0
        then res_bind (check_status ''ncclGetUniqueId'' (unique_id ops)) (\<lambda>i.
               Inr (i, write_nccl_id_file id_file i files))
        else res_bind (read_nccl_id_file id_file polls) (\<lambda>i. Inr (i, files))) (\<lambda>(i, files1).
     res_bind (check_status ''cudaSetDevice'' (set_device ops device)) (\<lambda>_.
     res_bind (check_status ''ncclCommInitRank'' (init_rank ops (tp_size info) i (tp_rank info))) (\<lambda>comm.
     Inr (\<lparr>pg_info = info, pg_id_file = id_file, pg_device = device, pg_comm = comm\<rparr>, files1))))))"

definition get_or_create_nccl_comm ::
  "environment \<Rightarrow> ('id, 'c) nccl_ops \<Rightarrow> tp_info \<Rightarrow> int \<Rightarrow> 'id id_files list \<Rightarrow> 'id id_files \<Rightarrow>
   'c process_group option \<Rightarrow> ('c \<times> 'id id_files \<times> 'c process_group option) result" where
  "get_or_create_nccl_comm env ops info device polls files st =
     res_bind (nccl_id_file_from_env env) (\<lambda>id_file.
     let reuse = (case st of
           None \<Rightarrow> False
         | Some g \<Rightarrow> tp_rank (pg_info g) = tp_rank info \<and> tp_size (pg_info g) = tp_size info \<and>
                    pg_device g = device \<and> pg_id_file g = id_file) in
     if reuse then Inr (pg_comm (the st), files, st)
     else res_bind (create_nccl_state env ops info device id_file polls files) (\<lambda>(g, files1).
            Inr (pg_comm g, files1, Some g)))"

text \<open>
  \<open>reduce comm x\<close> is \<open>ncclAllReduce\<close> with the sum; \<open>on_gpu\<close> is \<open>x.is_cuda()\<close>. Without
  parallelism the argument is returned as it is.
\<close>

definition tensor_model_parallel_all_reduce ::
  "environment \<Rightarrow> tp_info option \<Rightarrow> ('id, 'c) nccl_ops \<Rightarrow> ('c \<Rightarrow> 't \<Rightarrow> 't result) \<Rightarrow> bool \<Rightarrow> int \<Rightarrow>
   'id id_files list \<Rightarrow> 'id id_files \<Rightarrow> 'c process_group option \<Rightarrow> 't \<Rightarrow>
   ('t \<times> 'id id_files \<times> 'c process_group option) result" where
  "tensor_model_parallel_all_reduce env test ops reduce on_gpu device polls files st x =
     res_bind (get_tp_info env test) (\<lambda>info.
     if \<not> tp_enabled info then Inr (x, files, st)
     else
       res_bind (check on_gpu (TorchCheck ''Tensor-parallel all-reduce requires a CUDA tensor'')) (\<lambda>_.
       res_bind (get_or_create_nccl_comm env ops info device polls files st) (\<lambda>(comm, files1, st1).
       res_bind (reduce comm x) (\<lambda>y. Inr (y, files1, st1)))))"

text \<open>\<open>%\<close> and \<open>/\<close> on \<open>int\<close>, which truncate; the divisor is positive.\<close>

definition divide_even :: "int \<Rightarrow> int \<Rightarrow> string \<Rightarrow> int result" where
  "divide_even v d name =
     res_bind (check (d > 0) (TorchCheck (''divisor must be positive for '' @ name))) (\<lambda>_.
     res_bind (check (v mod d = 0) (TorchCheck (name @ '' must be divisible by tensor parallel size''))) (\<lambda>_.
     Inr (v div d)))"

section \<open>Ranks\<close>

lemma divide_even_ok: "0 < d \<Longrightarrow> d dvd v \<Longrightarrow> divide_even v d name = Inr (v div d)"
  by (simp add: divide_even_def)

lemma divide_even_Inr: "divide_even v d name = Inr q \<longleftrightarrow> 0 < d \<and> v = q * d"
  by (auto simp: divide_even_def check_def res_simps split: if_splits)

lemma get_tp_info_valid:
  assumes "get_tp_info env test = Inr i" "test = None \<or> (\<exists>rk sz t. set_tp_info_for_test rk sz t = Inr test)"
  shows "1 \<le> tp_size i" "0 \<le> tp_rank i" "tp_rank i < tp_size i"
  using assms
  by (auto simp: get_tp_info_def read_tp_info_from_env_def set_tp_info_for_test_def res_simps
      split: option.splits)

lemma find_skip: "\<forall>x\<in>set xs. \<not> P x \<Longrightarrow> P y \<Longrightarrow> List.find P (xs @ y # ys) = Some y"
  by (induction xs) auto



end
