(* ===== verification/ModelConfig.thy ===== *)
theory ModelConfig
  imports Json Args Core MathUtils Distributed
begin

text \<open>
  The configuration of the model, read from \<^verbatim>\<open>config.json\<close> (\<^verbatim>\<open>src/models/config.cc\<close>), what
  \<^verbatim>\<open>src/engine/config.cc\<close> takes from it, and the number of pages and the device that the
  engine derives (\<^verbatim>\<open>src/engine/engine.cc\<close>). \<open>load\<close> is the file system: the parsed contents
  of a file, or the exception of opening or parsing it.
\<close>

record rotary_config =
  rot_head_dim :: int
  rotary_dim :: int
  max_position :: int
  rot_base :: rat

record model_config =
  num_layers :: int
  num_qo_heads :: int
  num_kv_heads :: int
  head_dim :: int
  hidden_size :: int
  mc_vocab_size :: int
  intermediate_size :: int
  rms_norm_eps :: rat
  rotary :: rotary_config
  hidden_act :: string
  tie_word_embeddings :: bool
  num_experts :: int
  num_experts_per_tok :: int
  moe_intermediate_size :: int
  norm_topk_prob :: bool
  model_type :: string
  architectures :: "string list"
  mc_eos_token_id :: int

definition is_moe :: "model_config \<Rightarrow> bool" where
  "is_moe c = contains_sub ''moe'' (model_type c)"

text \<open>
  The end-of-sequence token: an integer, the first element of a list, or none. A division by
  zero, which stops the program, is an error of its own.
\<close>

definition read_eos :: "'j json_ops \<Rightarrow> 'j \<Rightarrow> int result" where
  "read_eos ops j =
     (if \<not> j_contains ops ''eos_token_id'' j then Inr (-1)
      else
        res_bind (j_at ops ''eos_token_id'' j) (\<lambda>e.
        if j_is_integer ops e then j_get_int ops e
        else if j_is_array ops e then
          res_bind (j_get_array ops e) (\<lambda>es. if es = [] then Inr (-1) else j_get_int ops (hd es))
        else Inr (-1)))"

definition from_json_file ::
  "'j json_ops \<Rightarrow> (string \<Rightarrow> 'j result) \<Rightarrow> string \<Rightarrow> model_config result" where
  "from_json_file ops load path =
     res_bind (load path) (\<lambda>j.
     let req = (\<lambda>k. res_bind (j_at ops k j) (j_get_int ops));
         int_or = (\<lambda>k d. j_value ops k (j_get_int ops) d j);
         float_or = (\<lambda>k d. j_value ops k (j_get_float ops) d j);
         string_or = (\<lambda>k d. j_value ops k (j_get_string ops) d j);
         bool_or = (\<lambda>k d. j_value ops k (j_get_bool ops) d j) in
     res_bind (req ''num_hidden_layers'') (\<lambda>layers.
     res_bind (req ''num_attention_heads'') (\<lambda>qo.
     res_bind (int_or ''num_key_value_heads'' qo) (\<lambda>kv.
     res_bind (req ''hidden_size'') (\<lambda>hidden.
     res_bind (req ''vocab_size'') (\<lambda>vocab.
     res_bind (req ''intermediate_size'') (\<lambda>inter.
     res_bind (float_or ''rms_norm_eps'' kEpsilon) (\<lambda>eps.
     res_bind (string_or ''hidden_act'' ''silu'') (\<lambda>act.
     res_bind (bool_or ''tie_word_embeddings'' False) (\<lambda>tie.
     res_bind (if j_contains ops ''head_dim'' j then req ''head_dim''
               else if qo = 0 then Inl (AssertFail ''integer division by zero'')
               else Inr (hidden sdiv qo)) (\<lambda>hd.
     res_bind (int_or ''max_position_embeddings'' 32768) (\<lambda>pos.
     res_bind (float_or ''rope_theta'' 10000) (\<lambda>theta.
     res_bind (string_or ''model_type'' []) (\<lambda>mt.
     res_bind (if j_contains ops ''architectures'' j
               then res_bind (j_at ops ''architectures'' j) (get_strings ops) else Inr []) (\<lambda>arch.
     res_bind (read_eos ops j) (\<lambda>eos.
     res_bind (int_or ''num_experts'' 0) (\<lambda>ne.
     res_bind (int_or ''num_local_experts'' ne) (\<lambda>nle.
     res_bind (int_or ''num_experts_per_tok'' 0) (\<lambda>per.
     res_bind (int_or ''moe_intermediate_size'' 0) (\<lambda>moe.
     res_bind (bool_or ''norm_topk_prob'' False) (\<lambda>norm.
     Inr \<lparr>num_layers = layers, num_qo_heads = qo, num_kv_heads = kv, head_dim = hd, hidden_size = hidden,
       mc_vocab_size = vocab, intermediate_size = inter, rms_norm_eps = eps,
       rotary = \<lparr>rot_head_dim = hd, rotary_dim = hd, max_position = pos, rot_base = theta\<rparr>,
       hidden_act = act, tie_word_embeddings = tie, num_experts = nle, num_experts_per_tok = per,
       moe_intermediate_size = moe, norm_topk_prob = norm, model_type = mt, architectures = arch,
       mc_eos_token_id = eos\<rparr>)))))))))))))))))))))"

text \<open>\<open>over\<close> is \<open>model_config_override\<close>.\<close>

definition load_model_config ::
  "'j json_ops \<Rightarrow> (string \<Rightarrow> 'j result) \<Rightarrow> model_config option \<Rightarrow> 'x engine_config_scheme \<Rightarrow> model_config result" where
  "load_model_config ops load over ec =
     (case over of
        Some c \<Rightarrow> Inr c
      | None \<Rightarrow>
          if ec_model_path ec = []
          then Inl (RuntimeError ''EngineConfig requires either model_path or model_config_override'')
          else from_json_file ops load (ec_model_path ec @ ''/config.json''))"

definition ec_max_seq_len ::
  "'j json_ops \<Rightarrow> (string \<Rightarrow> 'j result) \<Rightarrow> model_config option \<Rightarrow> 'x engine_config_scheme \<Rightarrow> int result" where
  "ec_max_seq_len ops load over ec =
     (case ec_max_seq_len_override ec of
        Some n \<Rightarrow> Inr n
      | None \<Rightarrow> res_bind (load_model_config ops load over ec) (\<lambda>c. Inr (max_position (rotary c))))"

section \<open>What the engine derives\<close>

definition read_optional_env_int :: "environment \<Rightarrow> string \<Rightarrow> int option result" where
  "read_optional_env_int env name =
     (case env name of
        None \<Rightarrow> Inr None
      | Some raw \<Rightarrow> if raw = [] then Inr None else res_bind (stoi raw) (\<lambda>i. Inr (Some i)))"

text \<open>A device: a GPU with its index, which is negative when none is given, or another one.\<close>

datatype device = Cuda int | OtherDevice

definition resolve_engine_device :: "environment \<Rightarrow> device \<Rightarrow> device result" where
  "resolve_engine_device env d =
     (case d of
        OtherDevice \<Rightarrow> Inr d
      | Cuda idx \<Rightarrow>
          res_bind (read_optional_env_int env ''SGLANG_TP_LOCAL_RANK'') (\<lambda>l.
          case l of
            Some r \<Rightarrow> Inr (Cuda r)
          | None \<Rightarrow>
              res_bind (read_optional_env_int env ''SGLANG_TP_SIZE'') (\<lambda>t.
              res_bind (read_optional_env_int env ''WORLD_SIZE'') (\<lambda>w.
              let world_size = (case t of Some n \<Rightarrow> n | None \<Rightarrow> (case w of Some n \<Rightarrow> n | None \<Rightarrow> 1)) in
              if world_size > 1 \<and> idx \<le> 0 then
                res_bind (read_optional_env_int env ''LOCAL_RANK'') (\<lambda>r.
                Inr (case r of Some i \<Rightarrow> Cuda i | None \<Rightarrow> d))
              else Inr d))))"

definition element_size :: "dtype \<Rightarrow> int" where
  "element_size d = (case d of Float16 \<Rightarrow> 2 | BFloat16 \<Rightarrow> 2 | Float32 \<Rightarrow> 4)"

text \<open>
  \<open>size_t\<close> arithmetic wraps at 64 bits and the conversion to \<open>int\<close> keeps 32 of them. The product
  with the memory ratio, a rounded \<open>float\<close> in the code, is exact here and then truncated.
\<close>

definition as_size_t :: "int \<Rightarrow> int" where
  "as_size_t n = n mod 2 ^ 64"

definition as_int :: "int \<Rightarrow> int" where
  "as_int n = (n + 2 ^ 31) mod 2 ^ 32 - 2 ^ 31"

definition cache_per_page :: "int \<Rightarrow> model_config \<Rightarrow> 'x engine_config_scheme \<Rightarrow> int result" where
  "cache_per_page tp c ec =
     res_bind (div_even (num_kv_heads c) tp False) (\<lambda>heads.
     Inr (as_size_t (2 * head_dim c * heads * ec_page_size ec * element_size (ec_dtype ec) * num_layers c)))"

definition determine_num_pages ::
  "int \<Rightarrow> int option \<Rightarrow> model_config \<Rightarrow> 'x engine_config_scheme \<Rightarrow> int result" where
  "determine_num_pages tp free_memory c ec =
     (case ec_num_pages_override ec of
        Some n \<Rightarrow> Inr n
      | None \<Rightarrow>
          (case free_memory of
             None \<Rightarrow> Inl (TorchCheck ''cudaMemGetInfo failed'')
           | Some m \<Rightarrow>
               res_bind (cache_per_page tp c ec) (\<lambda>per_page.
               let budget = as_size_t \<lfloor>of_int m * ec_memory_ratio ec\<rfloor> in
               Inr (max (as_int (budget div max per_page 1)) 2))))"

definition engine_max_seq_len :: "int \<Rightarrow> int \<Rightarrow> 'x engine_config_scheme \<Rightarrow> int" where
  "engine_max_seq_len configured pages ec = min configured (pages * ec_page_size ec)"

section \<open>Properties\<close>


definition demo_model_config :: model_config where
  "demo_model_config = \<lparr>num_layers = 28, num_qo_heads = 16, num_kv_heads = 8, head_dim = 128, hidden_size = 2048,
     mc_vocab_size = 1000, intermediate_size = 4096, rms_norm_eps = kEpsilon,
     rotary = \<lparr>rot_head_dim = 128, rotary_dim = 128, max_position = 32768, rot_base = 10000\<rparr>,
     hidden_act = ''silu'', tie_word_embeddings = False, num_experts = 0, num_experts_per_tok = 0,
     moe_intermediate_size = 0, norm_topk_prob = False, model_type = ''qwen2'', architectures = [],
     mc_eos_token_id = -1\<rparr>"


end
