(* ===== verification/WeightNames.thy ===== *)
theory WeightNames
  imports ModelConfig "HOL-Library.List_Lexorder" "HOL-Library.Char_ord" "HOL-Library.Multiset"
begin

text \<open>
  The names of weights and what they say, from \<^verbatim>\<open>src/models/weight_loader.cc\<close>: which
  projections are merged into one, which tensors are experts, which are scales, and how many
  files are loaded at a time.
\<close>

section \<open>Merged projections\<close>

record merge_info =
  fused_suffix :: string
  slot_names :: "string list"

text \<open>A hash map in the code; its order is not fixed, so the functions take it as an argument.\<close>

definition merge_groups :: "(string \<times> merge_info) list" where
  "merge_groups =
     [(''.q_proj'', \<lparr>fused_suffix = ''.qkv_proj'', slot_names = [''q'', ''k'', ''v'']\<rparr>),
      (''.k_proj'', \<lparr>fused_suffix = ''.qkv_proj'', slot_names = [''q'', ''k'', ''v'']\<rparr>),
      (''.v_proj'', \<lparr>fused_suffix = ''.qkv_proj'', slot_names = [''q'', ''k'', ''v'']\<rparr>),
      (''.gate_proj'', \<lparr>fused_suffix = ''.gate_up_proj'', slot_names = [''gate'', ''up'']\<rparr>),
      (''.up_proj'', \<lparr>fused_suffix = ''.gate_up_proj'', slot_names = [''gate'', ''up'']\<rparr>)]"

definition slot_of :: "string \<Rightarrow> string option" where
  "slot_of sfx =
     map_of [(''.q_proj'', ''q''), (''.k_proj'', ''k''), (''.v_proj'', ''v''),
             (''.gate_proj'', ''gate''), (''.up_proj'', ''up'')] sfx"

fun get_merge_info :: "(string \<times> merge_info) list \<Rightarrow> string \<Rightarrow> (string \<times> string \<times> string list) option" where
  "get_merge_info [] key = None"
| "get_merge_info ((sfx, info) # groups) key =
     (case find_sub sfx key of
        Some pos \<Rightarrow>
          Some (take pos key @ fused_suffix info @ drop (pos + length sfx) key,
                the (slot_of sfx), slot_names info)
      | None \<Rightarrow> get_merge_info groups key)"

section \<open>The files\<close>

text \<open>
  \<open>path::extension\<close> of a file name: what follows the last dot, with the dot, unless the name
  begins with that dot. The entries of the directory are file names, in no fixed order.
\<close>

definition file_extension :: "string \<Rightarrow> string" where
  "file_extension name =
     (case rfind_char (CHR ''.'') name of
        None \<Rightarrow> []
      | Some pos \<Rightarrow> if pos = 0 then [] else drop pos name)"

definition join_path :: "string \<Rightarrow> string \<Rightarrow> string" where
  "join_path dir name = (if dir \<noteq> [] \<and> last dir = CHR ''/'' then dir @ name else dir @ ''/'' @ name)"

definition find_safetensors_files :: "string \<Rightarrow> string list \<Rightarrow> string list" where
  "find_safetensors_files dir entries =
     (let weight_files = filter (\<lambda>n. file_extension n = ''.safetensors'') entries;
          files = filter (\<lambda>n. \<not> contains_sub ''consolidated'' n) weight_files in
      sort (map (join_path dir) (if files = [] then weight_files else files)))"

section \<open>How many files at a time\<close>

text \<open>
  \<open>std::stoull\<close>, which negates modulo \<open>2 ^ 64\<close> after a minus sign, on the first word of the file
  of the control group; \<open>None\<close> when there is no such file.
\<close>

definition stoull :: "string \<Rightarrow> int result" where
  "stoull s =
     (let (neg, t) = read_sign (dropWhile is_space s);
          ds = takeWhile is_digit t;
          v = int (read_digits ds) in
      if ds = [] then Inl (InvalidArgument ''stoull'')
      else if 2 ^ 64 \<le> v then Inl (OutOfRange ''stoull'')
      else Inr (if neg then as_size_t (- v) else v))"

definition read_cgroup_memory_limit :: "string option \<Rightarrow> int" where
  "read_cgroup_memory_limit content =
     (case content of
        None \<Rightarrow> 0
      | Some text \<Rightarrow>
          (let v = takeWhile (\<lambda>c. \<not> is_space c) (dropWhile is_space text) in
           if v = [] \<or> v = ''max'' then 0
           else (case stoull v of Inl _ \<Rightarrow> 0 | Inr n \<Rightarrow> n)))"

definition parse_positive_env :: "environment \<Rightarrow> string \<Rightarrow> int" where
  "parse_positive_env env name =
     (case env name of
        None \<Rightarrow> 0
      | Some v \<Rightarrow> if v = [] then 0 else (case stoi v of Inl _ \<Rightarrow> 0 | Inr n \<Rightarrow> max 0 n))"

definition estimated_shard_bytes :: int where
  "estimated_shard_bytes = 48 * 1024 * 1024 * 1024"

text \<open>\<open>hw\<close> is the number of hardware threads, \<open>memory_limit\<close> that of the control group, 0 if none.\<close>

definition determine_weight_load_parallelism :: "environment \<Rightarrow> int \<Rightarrow> int \<Rightarrow> nat \<Rightarrow> int \<Rightarrow> int" where
  "determine_weight_load_parallelism env hw memory_limit num_files tp =
     (if num_files \<le> 1 then 1
      else
        (let env_parallelism = parse_positive_env env ''SGLANG_WEIGHT_LOAD_PARALLELISM'' in
         if env_parallelism > 0 then max 1 (min env_parallelism (as_int (int num_files)))
         else
           (let hw_threads = max 1 hw;
                cpu_limited = max 1 (as_int (hw_threads div max 1 (tp * 24)));
                memory_limited = (if memory_limit > 0
                  then max 1 (as_int (memory_limit div as_size_t (max 1 tp * estimated_shard_bytes)))
                  else as_int (int num_files)) in
            max 1 (min (as_int (int num_files)) (min cpu_limited memory_limited)))))"

section \<open>Element types\<close>

datatype scalar_type =
    SBool | SUInt8 | SInt8 | SInt16 | SUInt16 | SHalf | SBFloat16 | SInt32 | SUInt32 | SFloat
  | SDouble | SInt64 | SUInt64 | SFloat8e4m3 | SFloat8e5m2

definition scalar_names :: "(string \<times> scalar_type) list" where
  "scalar_names =
     [(''BOOL'', SBool), (''U8'', SUInt8), (''I8'', SInt8), (''I16'', SInt16), (''U16'', SUInt16),
      (''F16'', SHalf), (''BF16'', SBFloat16), (''I32'', SInt32), (''U32'', SUInt32), (''F32'', SFloat),
      (''F64'', SDouble), (''I64'', SInt64), (''U64'', SUInt64), (''F8_E4M3'', SFloat8e4m3),
      (''F8_E5M2'', SFloat8e5m2)]"

definition dtype_from_safetensors_name :: "string \<Rightarrow> scalar_type result" where
  "dtype_from_safetensors_name name =
     (case map_of scalar_names name of
        Some t \<Rightarrow> Inr t
      | None \<Rightarrow> Inl (TorchCheck (''Unsupported safetensors dtype: '' @ name)))"

definition scalar_size :: "scalar_type \<Rightarrow> nat" where
  "scalar_size t =
     (case t of
        SBool \<Rightarrow> 1 | SUInt8 \<Rightarrow> 1 | SInt8 \<Rightarrow> 1 | SFloat8e4m3 \<Rightarrow> 1 | SFloat8e5m2 \<Rightarrow> 1
      | SInt16 \<Rightarrow> 2 | SUInt16 \<Rightarrow> 2 | SHalf \<Rightarrow> 2 | SBFloat16 \<Rightarrow> 2
      | SInt32 \<Rightarrow> 4 | SUInt32 \<Rightarrow> 4 | SFloat \<Rightarrow> 4
      | SDouble \<Rightarrow> 8 | SInt64 \<Rightarrow> 8 | SUInt64 \<Rightarrow> 8)"

section \<open>Names\<close>

definition normalize_weight_name :: "string \<Rightarrow> string" where
  "normalize_weight_name name =
     (if starts_with ''language_model.'' name then drop (length ''language_model.'') name else name)"

text \<open>A module cannot have a dot in its name, so layer \<open>i\<close> is registered as \<open>layers_i\<close>.\<close>

definition normalize_param_name :: "string \<Rightarrow> string" where
  "normalize_param_name name =
     (if starts_with ''model.layers_'' name then
        (let pos = length ''model.layers_''; rest = drop pos name in
         if CHR ''.'' \<in> set rest
         then ''model.layers.'' @ takeWhile (\<lambda>c. c \<noteq> CHR ''.'') rest @ dropWhile (\<lambda>c. c \<noteq> CHR ''.'') rest
         else name)
      else name)"

definition is_scale_inv_name :: "string \<Rightarrow> bool" where
  "is_scale_inv_name name = ends_with ''_scale_inv'' name"

definition scaled_weight_name :: "string \<Rightarrow> string" where
  "scaled_weight_name s = take (length s - length ''_scale_inv'') s"

text \<open>
  The pattern \<open>^(.*\.experts)\.(\d+)\.(.+)$\<close>: the first group is as long as it can be, and no
  group matches a line break. \<open>expert_match key i\<close> tries the first group of length \<open>i\<close>.
\<close>

definition expert_match :: "string \<Rightarrow> nat \<Rightarrow> (string \<times> string \<times> string) option" where
  "expert_match key i =
     (let p = take i key; rest = drop i key; ds = takeWhile is_digit (tl rest); after = dropWhile is_digit (tl rest) in
      if ends_with ''.experts'' p \<and> rest \<noteq> [] \<and> hd rest = CHR ''.'' \<and> ds \<noteq> [] \<and>
         after \<noteq> [] \<and> hd after = CHR ''.'' \<and> tl after \<noteq> []
      then Some (p, ds, tl after) else None)"

definition match_expert_pattern :: "string \<Rightarrow> (string \<times> string \<times> string) option" where
  "match_expert_pattern key =
     (if list_ex (\<lambda>c. c = CHR 0x0A \<or> c = CHR 0x0D) key then None
      else
        (case List.find (\<lambda>i. expert_match key i \<noteq> None) (rev [0..<Suc (length key)]) of
           None \<Rightarrow> None
         | Some i \<Rightarrow> expert_match key i))"

definition get_expert_stack_info :: "string \<Rightarrow> (string \<times> int) option result" where
  "get_expert_stack_info key =
     (case match_expert_pattern key of
        None \<Rightarrow> Inr None
      | Some (p, ds, name) \<Rightarrow>
          (let packed_name = (if ends_with ''.weight'' name then take (length name - length ''.weight'') name else name) in
           res_bind (stoi ds) (\<lambda>i. Inr (Some (p @ ''.'' @ packed_name, i)))))"

definition is_qkv_weight :: "string \<Rightarrow> bool" where
  "is_qkv_weight name = contains_sub ''.qkv_proj.weight'' name"

definition is_gate_up_or_col_weight :: "string \<Rightarrow> bool" where
  "is_gate_up_or_col_weight name = contains_sub ''.gate_up_proj.weight'' name"

definition is_row_parallel_weight :: "string \<Rightarrow> bool" where
  "is_row_parallel_weight name \<longleftrightarrow> contains_sub ''.down_proj.weight'' name \<or> contains_sub ''.o_proj.weight'' name"

definition is_vocab_parallel_weight :: "string \<Rightarrow> bool" where
  "is_vocab_parallel_weight name \<longleftrightarrow> contains_sub ''embed_tokens.weight'' name \<or> contains_sub ''lm_head.weight'' name"

end
