(* ===== verification/WeightLoader.thy ===== *)
theory WeightLoader
  imports WeightNames
begin

text \<open>
  The weight loader of \<^verbatim>\<open>src/models/weight_loader.cc\<close>: reading a safetensors file, merging the
  projections and stacking the experts, cutting a tensor for one rank, and copying the files
  into the parameters with several files read at a time.

  A tensor is its sizes and its elements by index, so that a view is a change of the index. The
  arithmetic of elements is a parameter. Hash maps are association lists in the order in which
  they are iterated.
\<close>

section \<open>Tensors\<close>

record 'a tensor =
  sizes :: "nat list"
  elem :: "nat list \<Rightarrow> 'a"

definition dims :: "'a tensor \<Rightarrow> nat" where
  "dims t = length (sizes t)"

text \<open>\<open>narrow\<close>, \<open>cat\<close> and \<open>stack\<close> of LibTorch, which throw when the shapes do not fit.\<close>

definition narrow :: "nat \<Rightarrow> nat \<Rightarrow> nat \<Rightarrow> 'a tensor \<Rightarrow> 'a tensor result" where
  "narrow d start len t =
     (if d < dims t \<and> start + len \<le> sizes t ! d
      then Inr \<lparr>sizes = (sizes t)[d := len], elem = (\<lambda>ix. elem t (ix[d := ix ! d + start]))\<rparr>
      else Inl (IndexError ''narrow''))"

definition cat2 :: "nat \<Rightarrow> 'a tensor \<Rightarrow> 'a tensor \<Rightarrow> 'a tensor result" where
  "cat2 d a b =
     (if d < dims a \<and> dims a = dims b \<and> (sizes a)[d := 0] = (sizes b)[d := 0]
      then Inr \<lparr>sizes = (sizes a)[d := sizes a ! d + sizes b ! d],
                elem = (\<lambda>ix. if ix ! d < sizes a ! d then elem a ix else elem b (ix[d := ix ! d - sizes a ! d]))\<rparr>
      else Inl (RuntimeError ''Sizes of tensors must match''))"

fun cat :: "nat \<Rightarrow> 'a tensor list \<Rightarrow> 'a tensor result" where
  "cat d [] = Inl (RuntimeError ''torch.cat(): expected a non-empty list of Tensors'')"
| "cat d [t] = (if d < dims t then Inr t else Inl (IndexError ''cat''))"
| "cat d (a # b # ts) = res_bind (cat2 d a b) (\<lambda>ab. cat d (ab # ts))"

definition stack :: "'a tensor list \<Rightarrow> 'a tensor result" where
  "stack ts =
     (if ts \<noteq> [] \<and> list_all (\<lambda>t. sizes t = sizes (hd ts)) ts
      then Inr \<lparr>sizes = length ts # sizes (hd ts), elem = (\<lambda>ix. elem (ts ! hd ix) (tl ix))\<rparr>
      else Inl (RuntimeError ''stack expects each tensor to be equal size''))"

section \<open>Cutting a tensor for one rank\<close>

definition slice_dim :: "'a tensor \<Rightarrow> nat \<Rightarrow> nat \<Rightarrow> nat \<Rightarrow> 'a tensor result" where
  "slice_dim t d rank tp =
     res_bind (check (d < dims t) (IndexError ''size'')) (\<lambda>_.
     res_bind (check (sizes t ! d mod tp = 0) (TorchCheck ''Cannot shard tensor dimension evenly'')) (\<lambda>_.
     let local_size = sizes t ! d div tp in
     narrow d (rank * local_size) local_size t))"

definition shard_qkv_weight ::
  "'a tensor \<Rightarrow> nat list \<Rightarrow> nat \<Rightarrow> nat \<Rightarrow> model_config option \<Rightarrow> 'a tensor result" where
  "shard_qkv_weight t param_sizes rank tp cfg =
     res_bind (check ((dims t = 1 \<or> dims t = 2) \<and> length param_sizes = dims t)
       (TorchCheck ''QKV weight/bias must be rank-1 or rank-2'')) (\<lambda>_.
     if sizes t = param_sizes then Inr t
     else
       (case cfg of
          None \<Rightarrow> Inl (TorchCheck ''ModelConfig is required to shard qkv_proj weights for TP'')
        | Some c \<Rightarrow>
            (let q_rows = nat (num_qo_heads c) * nat (head_dim c);
                 kv_rows = nat (num_kv_heads c) * nat (head_dim c);
                 local_q_rows = q_rows div tp; local_kv_rows = kv_rows div tp in
             res_bind (check (q_rows mod tp = 0 \<and> kv_rows mod tp = 0)
               (TorchCheck ''QKV heads must be divisible by TP size'')) (\<lambda>_.
             res_bind (check (sizes t ! 0 = q_rows + 2 * kv_rows)
               (TorchCheck ''QKV tensor shape does not match config'')) (\<lambda>_.
             res_bind (check (param_sizes ! 0 = local_q_rows + 2 * local_kv_rows)
               (TorchCheck ''QKV local row size mismatch'')) (\<lambda>_.
             res_bind (narrow 0 (rank * local_q_rows) local_q_rows t) (\<lambda>q.
             res_bind (narrow 0 (q_rows + rank * local_kv_rows) local_kv_rows t) (\<lambda>k.
             res_bind (narrow 0 (q_rows + kv_rows + rank * local_kv_rows) local_kv_rows t) (\<lambda>v.
             cat 0 [q, k, v])))))))))"

definition shard_gate_up_2d :: "'a tensor \<Rightarrow> nat list \<Rightarrow> nat \<Rightarrow> nat \<Rightarrow> 'a tensor result" where
  "shard_gate_up_2d t param_sizes rank tp =
     res_bind (check (dims t = 2 \<and> length param_sizes = 2) (TorchCheck ''gate_up weight must be rank-2'')) (\<lambda>_.
     if sizes t = param_sizes then Inr t
     else
       res_bind (check (sizes t ! 0 mod 2 = 0)
         (TorchCheck ''gate_up first dimension must contain gate and up halves'')) (\<lambda>_.
       let half = sizes t ! 0 div 2 in
       res_bind (check (half mod tp = 0) (TorchCheck ''gate/up sizes must be divisible by TP size'')) (\<lambda>_.
       let local_half = half div tp in
       res_bind (check (param_sizes ! 0 = local_half * 2) (TorchCheck ''gate_up local row size mismatch'')) (\<lambda>_.
       res_bind (narrow 0 (rank * local_half) local_half t) (\<lambda>gate.
       res_bind (narrow 0 (half + rank * local_half) local_half t) (\<lambda>up.
       cat 0 [gate, up]))))))"

definition shard_expert_tensor :: "string \<Rightarrow> 'a tensor \<Rightarrow> nat list \<Rightarrow> nat \<Rightarrow> nat \<Rightarrow> 'a tensor result" where
  "shard_expert_tensor name t param_sizes rank tp =
     res_bind (check (dims t = 3 \<and> length param_sizes = 3) (TorchCheck ''MoE expert weight must be rank-3'')) (\<lambda>_.
     if sizes t = param_sizes then Inr t
     else if contains_sub ''gate_up_proj'' name then
       res_bind (check (sizes t ! 1 mod 2 = 0)
         (TorchCheck ''MoE gate_up expert dim must contain gate and up halves'')) (\<lambda>_.
       let half = sizes t ! 1 div 2 in
       res_bind (check (half mod tp = 0) (TorchCheck ''MoE gate/up sizes must be divisible by TP size'')) (\<lambda>_.
       let local_half = half div tp in
       res_bind (check (param_sizes ! 1 = local_half * 2) (TorchCheck ''MoE gate_up local shard mismatch'')) (\<lambda>_.
       res_bind (narrow 1 (rank * local_half) local_half t) (\<lambda>gate.
       res_bind (narrow 1 (half + rank * local_half) local_half t) (\<lambda>up.
       cat 1 [gate, up])))))
     else
       res_bind (check (sizes t ! 2 div tp = param_sizes ! 2) (TorchCheck ''MoE down local shard mismatch'')) (\<lambda>_.
       slice_dim t 2 rank tp))"

definition shard_tensor_for_parameter ::
  "string \<Rightarrow> 'a tensor \<Rightarrow> nat list \<Rightarrow> nat \<Rightarrow> nat \<Rightarrow> model_config option \<Rightarrow> 'a tensor result" where
  "shard_tensor_for_parameter name t param_sizes rank tp cfg =
     (if sizes t = param_sizes \<or> tp = 1 then Inr t
      else if dims t = 3 then shard_expert_tensor name t param_sizes rank tp
      else if is_qkv_weight name then shard_qkv_weight t param_sizes rank tp cfg
      else if is_gate_up_or_col_weight name then shard_gate_up_2d t param_sizes rank tp
      else if is_vocab_parallel_weight name \<or> (dims t = 1 \<and> sizes t ! 0 \<noteq> param_sizes ! 0)
        then slice_dim t 0 rank tp
      else if is_row_parallel_weight name then slice_dim t 1 rank tp
      else Inl (TorchCheck (''No tensor-parallel shard rule for parameter '' @ name)))"

section \<open>Merging\<close>

text \<open>Block-wise scales: each covers 128 rows and 128 columns. \<open>mul\<close> is the product of elements.\<close>

definition dequantize_fp8_weight ::
  "('a \<Rightarrow> 'a \<Rightarrow> 'a) \<Rightarrow> 'a tensor \<Rightarrow> 'a tensor \<Rightarrow> 'a tensor result" where
  "dequantize_fp8_weight mul t scale =
     res_bind (check (dims t = 2 \<and> dims scale = 2)
       (TorchCheck ''FP8 block dequant expects rank-2 weight and scale tensors'')) (\<lambda>_.
     if sizes t ! 0 \<le> sizes scale ! 0 * 128 \<and> sizes t ! 1 \<le> sizes scale ! 1 * 128
     then Inr (t\<lparr>elem := (\<lambda>ix. mul (elem t ix) (elem scale [ix ! 0 div 128, ix ! 1 div 128]))\<rparr>)
     else Inl (RuntimeError ''The size of tensor a must match the size of tensor b''))"

type_synonym 'a weights = "(string \<times> 'a tensor) list"

fun collect_scales :: "'a weights \<Rightarrow> 'a weights \<Rightarrow> 'a weights" where
  "collect_scales [] scales = scales"
| "collect_scales ((name, t) # raw) scales =
     (let clean_name = normalize_weight_name name in
      collect_scales raw
        (if is_scale_inv_name clean_name then AList.update (scaled_weight_name clean_name) t scales else scales))"

record 'a merge_state =
  scales_left :: "'a weights"
  merged_by_name :: "'a weights"
  merge_buf :: "(string \<times> 'a weights) list"

text \<open>One round of the second loop.\<close>

definition merge_one ::
  "('a \<Rightarrow> 'a \<Rightarrow> 'a) \<Rightarrow> (string \<times> merge_info) list \<Rightarrow> string \<times> 'a tensor \<Rightarrow> 'a merge_state \<Rightarrow> 'a merge_state result" where
  "merge_one mul groups nt s =
     (let clean_name = normalize_weight_name (fst nt) in
      if is_scale_inv_name clean_name then Inr s
      else if starts_with ''vision_tower.'' clean_name \<or> starts_with ''multi_modal_projector.'' clean_name then Inr s
      else
        res_bind
          (case map_of (scales_left s) clean_name of
             None \<Rightarrow> Inr (snd nt, s)
           | Some scale \<Rightarrow>
               res_bind (dequantize_fp8_weight mul (snd nt) scale) (\<lambda>t.
               Inr (t, s\<lparr>scales_left := AList.delete clean_name (scales_left s)\<rparr>)))
          (\<lambda>(t, s1).
           case get_merge_info groups clean_name of
             None \<Rightarrow> Inr (s1\<lparr>merged_by_name := AList.update clean_name t (merged_by_name s1)\<rparr>)
           | Some (merged_key, slot, all_slots) \<Rightarrow>
               (let filled = AList.update slot t (case map_of (merge_buf s1) merged_key of Some f \<Rightarrow> f | None \<Rightarrow> []) in
                if list_all (\<lambda>x. map_of filled x \<noteq> None) all_slots
                then
                  res_bind (cat 0 (map (\<lambda>x. the (map_of filled x)) all_slots)) (\<lambda>m.
                  Inr (s1\<lparr>merged_by_name := AList.update merged_key m (merged_by_name s1),
                          merge_buf := AList.delete merged_key (merge_buf s1)\<rparr>))
                else Inr (s1\<lparr>merge_buf := AList.update merged_key filled (merge_buf s1)\<rparr>))))"

text \<open>The third loop: experts by their index, the rest as it is.\<close>

fun split_experts ::
  "'a weights \<Rightarrow> 'a weights \<Rightarrow> (string \<times> (int \<times> 'a tensor) list) list \<Rightarrow>
   ('a weights \<times> (string \<times> (int \<times> 'a tensor) list) list) result" where
  "split_experts [] result buf = Inr (result, buf)"
| "split_experts ((name, t) # ms) result buf =
     res_bind (get_expert_stack_info name) (\<lambda>e.
     case e of
       Some (packed_key, i) \<Rightarrow>
         split_experts ms result
           (AList.update packed_key
             (AList.update i t (case map_of buf packed_key of Some f \<Rightarrow> f | None \<Rightarrow> [])) buf)
     | None \<Rightarrow> split_experts ms (AList.update name t result) buf)"

definition stack_experts :: "string \<Rightarrow> (int \<times> 'a tensor) list \<Rightarrow> 'a tensor result" where
  "stack_experts packed_key ts =
     (let sorted = sort_key fst ts in
      if map fst sorted = map int [0..<length sorted] then stack (map snd sorted)
      else Inl (RuntimeError (''Incomplete expert tensor group for '' @ packed_key)))"

definition merge_weights ::
  "('a \<Rightarrow> 'a \<Rightarrow> 'a) \<Rightarrow> (string \<times> merge_info) list \<Rightarrow> 'a weights \<Rightarrow> 'a weights result" where
  "merge_weights mul groups raw =
     res_bind (res_fold (merge_one mul groups) raw
       \<lparr>scales_left = collect_scales raw [], merged_by_name = [], merge_buf = []\<rparr>) (\<lambda>s.
     if merge_buf s \<noteq> [] then Inl (RuntimeError ''Incomplete merge groups'')
     else
       res_bind (split_experts (merged_by_name s) [] []) (\<lambda>(result, buf).
       res_fold (\<lambda>(k, ts) r. res_bind (stack_experts k ts) (\<lambda>t. Inr (AList.update k t r))) buf result))"

section \<open>Reading a file\<close>

text \<open>
  Bytes are numbers below 256. \<open>decode\<close> is \<open>from_blob\<close> on the bytes it covers, which are as many
  as the sizes and the type ask for, whatever the offsets say.
\<close>

definition le64 :: "nat list \<Rightarrow> nat" where
  "le64 bytes = (\<Sum>i<8. bytes ! i * 256 ^ i)"

definition read_entry ::
  "'j json_ops \<Rightarrow> (scalar_type \<Rightarrow> nat list \<Rightarrow> nat list \<Rightarrow> 'a tensor) \<Rightarrow> nat list \<Rightarrow> nat \<Rightarrow> string \<times> 'j \<Rightarrow>
   'a weights \<Rightarrow> 'a weights result" where
  "read_entry ops decode bytes data_begin kv tensors =
     (if fst kv = ''__metadata__'' then Inr tensors
      else
        res_bind (j_at ops ''shape'' (snd kv)) (\<lambda>shape.
        res_bind (res_bind (j_get_array ops shape) (res_map (j_get_int ops))) (\<lambda>sz.
        res_bind (j_at ops ''data_offsets'' (snd kv)) (\<lambda>offs.
        res_bind (j_get_array ops offs) (\<lambda>offsets.
        res_bind (check (length offsets = 2) (TorchCheck ''Invalid safetensors offsets'')) (\<lambda>_.
        res_bind (j_get_int ops (offsets ! 0)) (\<lambda>o0.
        res_bind (j_get_int ops (offsets ! 1)) (\<lambda>o1.
        let first = nat (as_size_t (int data_begin + o0)); last = nat (as_size_t (int data_begin + o1)) in
        res_bind (check (first \<le> last \<and> last \<le> length bytes) (TorchCheck ''Safetensors data offset out of range'')) (\<lambda>_.
        res_bind (j_at ops ''dtype'' (snd kv)) (\<lambda>dt.
        res_bind (j_get_string ops dt) (\<lambda>dn.
        res_bind (dtype_from_safetensors_name dn) (\<lambda>ty.
        let n = prod_list (map nat sz) * scalar_size ty in
        if first + n \<le> length bytes
        then Inr (if map_of tensors (fst kv) = None
                  then tensors @ [(fst kv, decode ty (map nat sz) (take n (drop first bytes)))] else tensors)
        else Inl (AssertFail ''read behind the end of the buffer'')))))))))))))"

definition read_safetensors ::
  "'j json_ops \<Rightarrow> (nat list \<Rightarrow> 'j result) \<Rightarrow> (scalar_type \<Rightarrow> nat list \<Rightarrow> nat list \<Rightarrow> 'a tensor) \<Rightarrow> nat list \<Rightarrow>
   'a weights result" where
  "read_safetensors ops parse_header decode bytes =
     res_bind (check (8 \<le> length bytes) (TorchCheck ''Invalid safetensors file'')) (\<lambda>_.
     let header_len = le64 bytes in
     res_bind (check (as_size_t (8 + int header_len) \<le> int (length bytes))
       (TorchCheck ''Invalid safetensors header length'')) (\<lambda>_.
     if 8 + header_len \<le> length bytes
     then
       res_bind (parse_header (take header_len (drop 8 bytes))) (\<lambda>header.
       res_fold (read_entry ops decode bytes (8 + header_len)) (j_items ops header) [])
     else Inl (AssertFail ''read behind the end of the buffer'')))"

section \<open>Loading\<close>

record 'a load_state =
  parameters :: "(string \<times> 'a tensor) list"
  loaded :: nat
  skipped :: nat
  merged_count :: nat

text \<open>\<open>conv\<close> converts an element to the type of the model.\<close>

definition copy_one ::
  "('a \<Rightarrow> 'a) \<Rightarrow> nat \<Rightarrow> nat \<Rightarrow> model_config option \<Rightarrow> string \<times> 'a tensor \<Rightarrow> 'a load_state \<Rightarrow> 'a load_state result" where
  "copy_one conv rank tp cfg nt s =
     (case map_of (parameters s) (fst nt) of
        None \<Rightarrow> Inr (s\<lparr>skipped := skipped s + 1\<rparr>)
      | Some param \<Rightarrow>
          res_bind
            (if sizes param \<noteq> sizes (snd nt)
             then shard_tensor_for_parameter (fst nt) (snd nt) (sizes param) rank tp cfg else Inr (snd nt)) (\<lambda>t.
          if sizes param = sizes t
          then Inr (s\<lparr>parameters := AList.update (fst nt) (t\<lparr>elem := conv \<circ> elem t\<rparr>) (parameters s), loaded := loaded s + 1\<rparr>)
          else Inr (s\<lparr>skipped := skipped s + 1\<rparr>)))"

definition copy_shard ::
  "('a \<Rightarrow> 'a) \<Rightarrow> nat \<Rightarrow> nat \<Rightarrow> model_config option \<Rightarrow> 'a weights \<Rightarrow> 'a load_state \<Rightarrow> 'a load_state result" where
  "copy_shard conv rank tp cfg merged s =
     res_fold (copy_one conv rank tp cfg) merged (s\<lparr>merged_count := merged_count s + length merged\<rparr>)"

definition load_shard ::
  "('a \<Rightarrow> 'a \<Rightarrow> 'a) \<Rightarrow> (string \<times> merge_info) list \<Rightarrow> (string \<Rightarrow> 'a weights result) \<Rightarrow> string \<Rightarrow> 'a weights result" where
  "load_shard mul groups read file =
     res_bind (read file) (\<lambda>ts.
     merge_weights mul groups (fold (\<lambda>(n, t) m. AList.update (normalize_weight_name n) t m) ts []))"

text \<open>
  The files in flight, oldest first, and those not started yet: the oldest is waited for and
  copied, then new ones are started up to the parallelism.
\<close>

function enqueue :: "nat \<Rightarrow> string list \<Rightarrow> string list \<Rightarrow> string list \<times> string list" where
  "enqueue parallelism in_flight rest =
     (if rest \<noteq> [] \<and> length in_flight < parallelism
      then enqueue parallelism (in_flight @ [hd rest]) (tl rest) else (in_flight, rest))"
  by auto
termination by (relation "measure (\<lambda>(_, _, rest). length rest)") auto

declare enqueue.simps [simp del]

lemma enqueue_append: "enqueue p fl rest = (fl', rest') \<Longrightarrow> fl' @ rest' = fl @ rest"
proof (induction p fl rest arbitrary: fl' rest' rule: enqueue.induct)
  case (1 p fl rest)
  show ?case
  proof (cases "rest \<noteq> [] \<and> length fl < p")
    case True
    then have "enqueue p (fl @ [hd rest]) (tl rest) = (fl', rest')"
      using "1.prems" by (subst (asm) enqueue.simps) simp
    then show ?thesis using "1.IH" [OF True] True by simp
  next
    case False
    then show ?thesis using "1.prems" by (subst (asm) enqueue.simps) auto
  qed
qed

function load_loop ::
  "nat \<Rightarrow> (string \<Rightarrow> 'w result) \<Rightarrow> ('w \<Rightarrow> 's \<Rightarrow> 's result) \<Rightarrow> string list \<Rightarrow> string list \<Rightarrow> 's \<Rightarrow> 's result" where
  "load_loop parallelism load copy in_flight rest s =
     (case in_flight of
        [] \<Rightarrow> Inr s
      | file # later \<Rightarrow>
          res_bind (load file) (\<lambda>shard.
          res_bind (copy shard s) (\<lambda>s1.
          let (fl, r) = enqueue parallelism later rest in load_loop parallelism load copy fl r s1)))"
  by auto
termination
proof (relation "measure (\<lambda>(_, _, _, fl, rest, _). length fl + length rest)", goal_cases)
  case (2 p load copy fl rest s f later shard s1 x fl1 r)
  then have "fl1 @ r = later @ rest" using enqueue_append by metis
  then have "length fl1 + length r = length later + length rest" by (metis length_append)
  then show ?case using 2 by simp
qed simp

declare load_loop.simps [simp del]

definition load_files ::
  "('a \<Rightarrow> 'a \<Rightarrow> 'a) \<Rightarrow> ('a \<Rightarrow> 'a) \<Rightarrow> (string \<times> merge_info) list \<Rightarrow> (string \<Rightarrow> 'a weights result) \<Rightarrow>
   string list \<Rightarrow> nat \<Rightarrow> tp_info \<Rightarrow> model_config option \<Rightarrow> 'a weights \<Rightarrow> 'a load_state result" where
  "load_files mul conv groups read files parallelism tp cfg params =
     (let s = \<lparr>parameters = map (\<lambda>(n, t). (normalize_param_name n, t)) params,
               loaded = 0, skipped = 0, merged_count = 0\<rparr>;
          (fl, rest) = enqueue parallelism [] files in
      load_loop parallelism (load_shard mul groups read)
        (copy_shard conv (nat (tp_rank tp)) (nat (tp_size tp)) cfg) fl rest s)"

text \<open>
  \<open>hw\<close> is the number of hardware threads, \<open>cgroup\<close> the memory limit's file, \<open>test_tp\<close> the
  group set by a test, \<open>entries\<close> the names in the directory.
\<close>

definition load_weights ::
  "('a \<Rightarrow> 'a \<Rightarrow> 'a) \<Rightarrow> ('a \<Rightarrow> 'a) \<Rightarrow> (string \<times> merge_info) list \<Rightarrow> (string \<Rightarrow> 'a weights result) \<Rightarrow>
   environment \<Rightarrow> int \<Rightarrow> string option \<Rightarrow> tp_info option \<Rightarrow> string \<Rightarrow> string list \<Rightarrow> model_config option \<Rightarrow>
   'a weights \<Rightarrow> 'a load_state result" where
  "load_weights mul conv groups read env hw cgroup test_tp dir entries cfg params =
     (let files = find_safetensors_files dir entries in
      if files = [] then Inl (RuntimeError ''No safetensors files found'')
      else
        res_bind (get_tp_info env test_tp) (\<lambda>tp.
        let parallelism = determine_weight_load_parallelism env hw (read_cgroup_memory_limit cgroup)
              (length files) (tp_size tp) in
        load_files mul conv groups read files (nat parallelism) tp cfg params))"

end
