(* ===== verification/WeightProps.thy ===== *)
theory WeightProps
  imports WeightLoader
begin

text \<open>
  Loading weights: the shards of the merged projection together hold every row once, but those
  of its bias do not; the order in which files take effect does not depend on how many are read
  at a time; and what a damaged file can do.
\<close>

section \<open>The rows of a merged projection\<close>

text \<open>
  The row of the whole tensor that is row \<open>i\<close> of the shard of \<open>rank\<close>, for \<open>q\<close> query rows and
  \<open>kv\<close> rows of keys and as many of values: the rank's part of each of the three.
\<close>

definition qkv_row :: "nat \<Rightarrow> nat \<Rightarrow> nat \<Rightarrow> nat \<Rightarrow> nat \<Rightarrow> nat" where
  "qkv_row q kv tp rank i =
     (if i < q div tp then rank * (q div tp) + i
      else if i < q div tp + kv div tp then q + rank * (kv div tp) + (i - q div tp)
      else q + kv + rank * (kv div tp) + (i - q div tp - kv div tp))"

lemma block_below:
  fixes rank tp i n :: nat
  assumes "rank < tp" "i < n div tp"
  shows "rank * (n div tp) + i < n"
proof -
  have "rank * (n div tp) + i < Suc rank * (n div tp)" using assms(2) by simp
  also have "\<dots> \<le> tp * (n div tp)" using assms(1) by (intro mult_le_mono1) simp
  also have "\<dots> \<le> n" by simp
  finally show ?thesis .
qed

lemma block_inj:
  fixes r r' i i' m :: nat
  assumes "i < m" "i' < m" "r * m + i = r' * m + i'"
  shows "r = r' \<and> i = i'"
proof -
  have "(r * m + i) div m = r" "(r' * m + i') div m = r'" "(r * m + i) mod m = i" "(r' * m + i') mod m = i'"
    using assms(1,2) by simp_all
  then show ?thesis using assms(3) by metis
qed

lemma qkv_row_cases:
  assumes "i < q div tp + 2 * (kv div tp)"
  obtains (queries) "i < q div tp" "qkv_row q kv tp rank i = rank * (q div tp) + i"
  | (keys) x where "i = q div tp + x" "x < kv div tp" "qkv_row q kv tp rank i = q + (rank * (kv div tp) + x)"
  | (vals) x where "i = q div tp + kv div tp + x" "x < kv div tp" "qkv_row q kv tp rank i = q + kv + (rank * (kv div tp) + x)"
proof -
  define lq lk where "lq = q div tp" and "lk = kv div tp"
  consider "i < lq" | "lq \<le> i" "i < lq + lk" | "lq + lk \<le> i" by linarith
  then show ?thesis
  proof cases
    case 1
    then show ?thesis using queries by (simp add: qkv_row_def lq_def)
  next
    case 2
    then obtain x where "i = lq + x" "x < lk" using le_Suc_ex by fastforce
    then show ?thesis using keys [of x] by (simp add: qkv_row_def lq_def lk_def)
  next
    case 3
    then obtain x where "i = lq + lk + x" using le_Suc_ex by blast
    then show ?thesis using vals [of x] assms by (simp add: qkv_row_def lq_def lk_def)
  qed
qed

lemma qkv_row_bij:
  assumes "0 < tp" "tp dvd q" "tp dvd kv"
  shows "bij_betw (\<lambda>(rank, i). qkv_row q kv tp rank i) ({..<tp} \<times> {..<q div tp + 2 * (kv div tp)}) {..<q + 2 * kv}"
proof -
  let ?lq = "q div tp" and ?lk = "kv div tp"
  let ?D = "{..<tp} \<times> {..<?lq + 2 * ?lk}"
  let ?f = "\<lambda>(rank, i). qkv_row q kv tp rank i"
  have img: "?f ` ?D \<subseteq> {..<q + 2 * kv}"
  proof (rule image_subsetI)
    fix p
    assume "p \<in> ?D"
    then obtain rank i where p: "p = (rank, i)" "rank < tp" "i < ?lq + 2 * ?lk" by auto
    from p(3) have "qkv_row q kv tp rank i < q + 2 * kv"
    proof (cases rule: qkv_row_cases [where rank = rank])
      case queries
      then show ?thesis using block_below [OF p(2), of i q] by linarith
    next
      case (keys x)
      then show ?thesis using block_below [OF p(2), of x kv] by linarith
    next
      case (vals x)
      then show ?thesis using block_below [OF p(2), of x kv] by linarith
    qed
    then show "?f p \<in> {..<q + 2 * kv}" by (simp add: p(1))
  qed
  have inj: "inj_on ?f ?D"
  proof (rule inj_onI)
    fix p p'
    assume "p \<in> ?D" "p' \<in> ?D" and eq: "?f p = ?f p'"
    then obtain r i r' i' where p: "p = (r, i)" "r < tp" "i < ?lq + 2 * ?lk" and
      p': "p' = (r', i')" "r' < tp" "i' < ?lq + 2 * ?lk" by auto
    have e: "qkv_row q kv tp r i = qkv_row q kv tp r' i'" using eq by (simp add: p(1) p'(1))
    from p(3) have "r = r' \<and> i = i'"
    proof (cases rule: qkv_row_cases [where rank = r])
      case queries
      note c = queries block_below [OF p(2) queries(1)]
      from p'(3) show ?thesis
      proof (cases rule: qkv_row_cases [where rank = r'])
        case queries
        then have "r * ?lq + i = r' * ?lq + i'" using c(2) e by linarith
        with c(1) queries(1) show ?thesis by (rule block_inj)
      next
        case (keys y)
        then show ?thesis using c e by linarith
      next
        case (vals y)
        then show ?thesis using c e by linarith
      qed
    next
      case (keys x)
      note c = keys block_below [OF p(2) keys(2)]
      from p'(3) show ?thesis
      proof (cases rule: qkv_row_cases [where rank = r'])
        case queries
        then show ?thesis using c e block_below [OF p'(2) queries(1)] by linarith
      next
        case (keys y)
        then have "r * ?lk + x = r' * ?lk + y" using c(3) e by linarith
        with c(2) keys(2) have "r = r' \<and> x = y" by (rule block_inj)
        then show ?thesis using c(1) keys(1) by simp
      next
        case (vals y)
        then show ?thesis using c e by linarith
      qed
    next
      case (vals x)
      note c = vals block_below [OF p(2) vals(2)]
      from p'(3) show ?thesis
      proof (cases rule: qkv_row_cases [where rank = r'])
        case queries
        then show ?thesis using c e block_below [OF p'(2) queries(1)] by linarith
      next
        case (keys y)
        then show ?thesis using c e block_below [OF p'(2) keys(2)] by linarith
      next
        case (vals y)
        then have "r * ?lk + x = r' * ?lk + y" using c(3) e by linarith
        with c(2) vals(2) have "r = r' \<and> x = y" by (rule block_inj)
        then show ?thesis using c(1) vals(1) by simp
      qed
    qed
    then show "p = p'" by (simp add: p(1) p'(1))
  qed
  have "card ?D = tp * (?lq + 2 * ?lk)" by simp
  also have "\<dots> = q + 2 * kv" using assms(2,3) by (simp add: distrib_left mult.left_commute [of tp])
  finally have "card (?f ` ?D) = card {..<q + 2 * kv}" using card_image [OF inj] by simp
  then have "?f ` ?D = {..<q + 2 * kv}" using card_subset_eq [OF _ img] by simp
  then show ?thesis using inj by (simp add: bij_betw_def)
qed

lemma bij_betw_unique: "bij_betw f A B \<Longrightarrow> y \<in> B \<Longrightarrow> \<exists>!x. x \<in> A \<and> f x = y"
  unfolding bij_betw_def inj_on_def by blast

lemma narrow_ok: "d < dims t \<Longrightarrow> a + n \<le> sizes t ! d \<Longrightarrow>
    narrow d a n t = Inr \<lparr>sizes = (sizes t)[d := n], elem = (\<lambda>ix. elem t (ix[d := ix ! d + a]))\<rparr>"
  by (simp add: narrow_def)

lemma block_fits:
  fixes rank tp n :: nat
  assumes "rank < tp"
  shows "rank * (n div tp) + n div tp \<le> n"
proof -
  have "Suc rank * (n div tp) \<le> tp * (n div tp)" using assms by (intro mult_le_mono1) simp
  also have "\<dots> \<le> n" by simp
  finally show ?thesis by simp
qed

lemma rows_total:
  fixes tp q kv :: nat
  assumes "tp dvd q" "tp dvd kv"
  shows "q + 2 * kv = tp * (q div tp + 2 * (kv div tp))"
  using assms by (simp add: distrib_left mult.left_commute [of tp])

lemma rows_shrink:
  fixes tp q kv :: nat
  assumes "1 < tp" "tp dvd q" "tp dvd kv" "0 < q"
  shows "q div tp + 2 * (kv div tp) < q + 2 * kv"
proof -
  have "0 < q div tp" using assms by (auto simp: dvd_def)
  then have "1 * (q div tp + 2 * (kv div tp)) < tp * (q div tp + 2 * (kv div tp))"
    using assms(1) by (intro mult_strict_right_mono) simp_all
  then show ?thesis using rows_total [OF assms(2,3)] by simp
qed

definition qkv_shape :: "model_config \<Rightarrow> nat \<Rightarrow> nat \<Rightarrow> bool" where
  "qkv_shape c q kv \<longleftrightarrow> q = nat (num_qo_heads c) * nat (head_dim c) \<and> kv = nat (num_kv_heads c) * nat (head_dim c)"

lemma qkv_shard_elem:
  assumes "qkv_shape c q kv" "1 < tp" "tp dvd q" "tp dvd kv" "0 < q" "sizes t = [q + 2 * kv, h]"
    and "is_qkv_weight name" and r: "rank < tp"
  shows "\<exists>s. shard_tensor_for_parameter name t [q div tp + 2 * (kv div tp), h] rank tp (Some c) = Inr s \<and>
      sizes s = [q div tp + 2 * (kv div tp), h] \<and>
      (\<forall>i<q div tp + 2 * (kv div tp). \<forall>j. elem s [i, j] = elem t [qkv_row q kv tp rank i, j])"
proof -
  let ?lq = "q div tp" and ?lk = "kv div tp"
  let ?p = "[?lq + 2 * ?lk, h]"
  have d: "dims t = 2" using assms(6) by (simp add: dims_def)
  have ne: "sizes t \<noteq> ?p" using rows_shrink [OF assms(2-5)] assms(6) by simp
  have sh: "shard_tensor_for_parameter name t ?p rank tp (Some c) = shard_qkv_weight t ?p rank tp (Some c)"
    using ne d assms(2,7) by (simp add: shard_tensor_for_parameter_def)
  have qr: "nat (num_qo_heads c) * nat (head_dim c) = q" "nat (num_kv_heads c) * nat (head_dim c) = kv"
    using assms(1) by (simp_all add: qkv_shape_def)
  have f: "rank * ?lq + ?lq \<le> sizes t ! 0" "q + rank * ?lk + ?lk \<le> sizes t ! 0" "q + kv + rank * ?lk + ?lk \<le> sizes t ! 0"
    using block_fits [OF r, of q] block_fits [OF r, of kv] by (simp_all add: assms(6))
  have nq: "narrow 0 (rank * ?lq) ?lq t = Inr \<lparr>sizes = [?lq, h], elem = (\<lambda>ix. elem t (ix[0 := ix ! 0 + rank * ?lq]))\<rparr>"
    and nk: "narrow 0 (q + rank * ?lk) ?lk t = Inr \<lparr>sizes = [?lk, h], elem = (\<lambda>ix. elem t (ix[0 := ix ! 0 + (q + rank * ?lk)]))\<rparr>"
    and nv: "narrow 0 (q + kv + rank * ?lk) ?lk t = Inr \<lparr>sizes = [?lk, h], elem = (\<lambda>ix. elem t (ix[0 := ix ! 0 + (q + kv + rank * ?lk)]))\<rparr>"
    using narrow_ok [of 0 t, OF _ f(1)] narrow_ok [of 0 t, OF _ f(2)] narrow_ok [of 0 t, OF _ f(3)] d
    by (simp_all add: assms(6))
  have "\<exists>s. shard_qkv_weight t ?p rank tp (Some c) = Inr s \<and> sizes s = ?p \<and>
      (\<forall>i<?lq + 2 * ?lk. \<forall>j. elem s [i, j] = elem t [qkv_row q kv tp rank i, j])"
    using ne d assms(3,4)
    by (simp add: shard_qkv_weight_def qr Let_def nq nk nv cat2_def dims_def qkv_row_def)
      (auto simp: assms(6) dims_def add.commute add.left_commute)
  then show "\<exists>s. shard_tensor_for_parameter name t ?p rank tp (Some c) = Inr s \<and> sizes s = ?p \<and>
      (\<forall>i<?lq + 2 * ?lk. \<forall>j. elem s [i, j] = elem t [qkv_row q kv tp rank i, j])"
    unfolding sh .
qed

text \<open>
  C35: The shards of the merged query, key and value projection are a partition of its rows: the
  shard of a rank has the size of the parameter, its rows are the rank's block of the queries,
  then that of the keys, then that of the values, and every row of the whole is a row of exactly
  one shard.
\<close>

theorem qkv_shards_partition:
  assumes "qkv_shape c q kv" "1 < tp" "tp dvd q" "tp dvd kv" "0 < q" "sizes t = [q + 2 * kv, h]"
    and "is_qkv_weight name"
  shows "(\<forall>rank<tp. \<exists>s. shard_tensor_for_parameter name t [q div tp + 2 * (kv div tp), h] rank tp (Some c) = Inr s \<and>
      sizes s = [q div tp + 2 * (kv div tp), h] \<and>
      (\<forall>i<q div tp + 2 * (kv div tp). \<forall>j. elem s [i, j] = elem t [qkv_row q kv tp rank i, j])) \<and>
    (\<forall>g<q + 2 * kv. \<exists>!p. p \<in> {..<tp} \<times> {..<q div tp + 2 * (kv div tp)} \<and> (case p of (rank, i) \<Rightarrow> qkv_row q kv tp rank i = g))"
proof (intro conjI allI impI)
  fix g
  assume "g < q + 2 * kv"
  then show "\<exists>!p. p \<in> {..<tp} \<times> {..<q div tp + 2 * (kv div tp)} \<and> (case p of (rank, i) \<Rightarrow> qkv_row q kv tp rank i = g)"
    using bij_betw_unique [OF qkv_row_bij [OF _ assms(3,4)], of g] assms(2) by (simp add: case_prod_beta)
qed (rule qkv_shard_elem [OF assms])

definition demo_weight :: "nat \<Rightarrow> nat tensor" where
  "demo_weight n = \<lparr>sizes = [n, 2], elem = (\<lambda>ix. 10 * ix ! 0 + ix ! 1)\<rparr>"

definition demo_heads :: model_config where
  "demo_heads = demo_model_config\<lparr>num_qo_heads := 4, num_kv_heads := 2, head_dim := 1\<rparr>"

lemma demo_qkv_name: "is_qkv_weight ''l.qkv_proj.weight''"
  by (simp add: is_qkv_weight_def contains_sub_def)

theorem qkv_shards_partition_witness:
  "\<exists>s. shard_tensor_for_parameter ''l.qkv_proj.weight'' (demo_weight 8) [4, 2] 1 2 (Some demo_heads) = Inr s \<and>
     map (\<lambda>i. elem s [i, 0]) [0..<4] = [20, 30, 50, 70]"
proof -
  have "qkv_shape demo_heads 4 2" by (simp add: qkv_shape_def demo_heads_def)
  note part = qkv_shards_partition [OF this, of 2 "demo_weight 8" 2, OF _ _ _ _ _ demo_qkv_name]
  have "\<exists>s. shard_tensor_for_parameter ''l.qkv_proj.weight'' (demo_weight 8) [4, 2] 1 2 (Some demo_heads) = Inr s \<and>
      sizes s = [4, 2] \<and> (\<forall>i<4. \<forall>j. elem s [i, j] = elem (demo_weight 8) [qkv_row 4 2 2 1 i, j])"
    using part [THEN conjunct1, THEN spec, of 1] by (simp add: demo_weight_def)
  then obtain s where s: "shard_tensor_for_parameter ''l.qkv_proj.weight'' (demo_weight 8) [4, 2] 1 2 (Some demo_heads) = Inr s"
    "\<forall>i<4. \<forall>j. elem s [i, j] = elem (demo_weight 8) [qkv_row 4 2 2 1 i, j]"
    by blast
  then have "map (\<lambda>i. elem s [i, 0]) [0..<4] = map (\<lambda>i. 10 * qkv_row 4 2 2 1 i) [0..<4]"
    by (auto simp: demo_weight_def)
  then show ?thesis using s(1) by (auto simp: qkv_row_def upt_rec)
qed

text \<open>
  C37: The bias of the merged projection is cut differently: its name does not say \<open>.weight\<close>, so
  it is cut into equal consecutive blocks, and with at least two ranks the rows behind the
  queries of rank 0 are queries of rank 1 where the weight has keys.
\<close>

theorem qkv_bias_misplaced:
  assumes "1 < tp" "tp dvd q" "tp dvd kv" "0 < q" "0 < kv" "sizes t = [q + 2 * kv]"
    and "\<not> is_qkv_weight name" "\<not> is_gate_up_or_col_weight name"
  shows "\<exists>s. shard_tensor_for_parameter name t [q div tp + 2 * (kv div tp)] 0 tp cfg = Inr s \<and>
    sizes s = [q div tp + 2 * (kv div tp)] \<and> q div tp < q div tp + 2 * (kv div tp) \<and>
    elem s [q div tp] = elem t [q div tp] \<and>
    qkv_row q kv tp 0 (q div tp) = q \<and> q div tp < q"
proof -
  let ?lq = "q div tp" and ?lk = "kv div tp"
  have d: "dims t = 1" using assms(6) by (simp add: dims_def)
  have shrink: "?lq + 2 * ?lk < q + 2 * kv" using rows_shrink [OF assms(1-4)] .
  have n: "q + 2 * kv = tp * (?lq + 2 * ?lk)" by (rule rows_total [OF assms(2,3)])
  have div: "(q + 2 * kv) div tp = ?lq + 2 * ?lk" "(q + 2 * kv) mod tp = 0" using assms(1) unfolding n by simp_all
  have pos: "0 < ?lk" "?lq < q" using assms(1-5) by (auto simp: dvd_def)
  have "shard_tensor_for_parameter name t [?lq + 2 * ?lk] 0 tp cfg = slice_dim t 0 0 tp"
    using assms(1,6,7,8) d shrink by (simp add: shard_tensor_for_parameter_def)
  also have "slice_dim t 0 0 tp = Inr \<lparr>sizes = [?lq + 2 * ?lk], elem = (\<lambda>ix. elem t (ix[0 := ix ! 0]))\<rparr>"
    using d shrink div by (simp add: slice_dim_def narrow_def assms(6) less_imp_le Let_def)
  finally show ?thesis using pos by (simp add: qkv_row_def)
qed

theorem qkv_bias_misplaced_witness:
  "\<exists>s. shard_tensor_for_parameter ''l.qkv_proj.bias'' \<lparr>sizes = [8], elem = (\<lambda>ix. ix ! 0)\<rparr> [4] 0 2 (Some demo_heads) = Inr s \<and>
     elem s [2] = 2 \<and> qkv_row 4 2 2 0 2 = 4"
proof -
  have "\<not> is_qkv_weight ''l.qkv_proj.bias''" "\<not> is_gate_up_or_col_weight ''l.qkv_proj.bias''"
    by (simp_all add: is_qkv_weight_def is_gate_up_or_col_weight_def contains_sub_def)
  from qkv_bias_misplaced [OF _ _ _ _ _ _ this, of 2 4 2 "\<lparr>sizes = [8], elem = (\<lambda>ix. ix ! 0)\<rparr>" "Some demo_heads"]
  show ?thesis by auto
qed

section \<open>Files\<close>

lemma enqueue_bound: "length fl \<le> p \<Longrightarrow> length (fst (enqueue p fl rest)) \<le> p"
  by (induction p fl rest rule: enqueue.induct) (subst enqueue.simps, simp)

lemma enqueue_some: "0 < p \<Longrightarrow> fl @ rest \<noteq> [] \<Longrightarrow> fst (enqueue p fl rest) \<noteq> []"
proof (induction p fl rest rule: enqueue.induct)
  case (1 p fl rest)
  then show ?case by (subst enqueue.simps) auto
qed

lemma load_loop_in_order:
  assumes "0 < p" "fl = [] \<Longrightarrow> rest = []"
  shows "load_loop p load copy fl rest s = res_fold (\<lambda>f s. res_bind (load f) (\<lambda>w. copy w s)) (fl @ rest) s"
  using assms
proof (induction p load copy fl rest s rule: load_loop.induct)
  case (1 p load copy fl rest s)
  show ?case
  proof (cases fl)
    case Nil
    then show ?thesis using "1.prems" by (subst load_loop.simps) simp
  next
    case (Cons f later)
    obtain fl1 r where e: "enqueue p later rest = (fl1, r)" by (cases "enqueue p later rest")
    have app: "fl1 @ r = later @ rest" using e by (rule enqueue_append)
    have "fl1 = [] \<Longrightarrow> r = []" using enqueue_some [OF "1.prems"(1), of later rest] e app by auto
    then have "load_loop p load copy fl1 r s1 = res_fold (\<lambda>f s. res_bind (load f) (\<lambda>w. copy w s)) (later @ rest) s1"
      if "load f = Inr w" "copy w s = Inr s1" for w s1
      using "1.IH" [OF Cons that e [symmetric] refl "1.prems"(1)] app by simp
    then show ?thesis
      unfolding Cons by (subst load_loop.simps)
        (auto simp: e res_bind_def split: sum.splits)
  qed
qed

lemma clamp_bounds: "1 \<le> (n::int) \<Longrightarrow> 1 \<le> max 1 (min e n) \<and> max 1 (min e n) \<le> n"
  "1 \<le> (n::int) \<Longrightarrow> 1 \<le> max 1 (min n e) \<and> max 1 (min n e) \<le> n"
  by simp_all

lemma parallelism_bounds:
  assumes "0 < n" "n < 2 ^ 31"
  shows "1 \<le> determine_weight_load_parallelism env hw mem n sz \<and> determine_weight_load_parallelism env hw mem n sz \<le> int n"
proof (cases "n \<le> 1")
  case True
  then show ?thesis using assms(1) by (simp add: determine_weight_load_parallelism_def)
next
  case False
  have a: "as_int (int n) = int n" using assms(2) by (simp add: as_int_def)
  have "1 \<le> int n" using assms(1) by simp
  note clamp_bounds [OF this]
  then show ?thesis unfolding determine_weight_load_parallelism_def Let_def a if_not_P [OF False] by (simp only: split: if_split) blast
qed

text \<open>The state before the first file, and copying one file after the other.\<close>

definition load_start :: "'a weights \<Rightarrow> 'a load_state" where
  "load_start params =
     \<lparr>parameters = map (\<lambda>(n, t). (normalize_param_name n, t)) params, loaded = 0, skipped = 0, merged_count = 0\<rparr>"

definition load_one_by_one ::
  "('a \<Rightarrow> 'a \<Rightarrow> 'a) \<Rightarrow> ('a \<Rightarrow> 'a) \<Rightarrow> (string \<times> merge_info) list \<Rightarrow> (string \<Rightarrow> 'a weights result) \<Rightarrow>
   string list \<Rightarrow> tp_info \<Rightarrow> model_config option \<Rightarrow> 'a weights \<Rightarrow> 'a load_state result" where
  "load_one_by_one mul conv groups read files tp cfg params =
     res_fold (\<lambda>f s. res_bind (load_shard mul groups read f)
                  (\<lambda>w. copy_shard conv (nat (tp_rank tp)) (nat (tp_size tp)) cfg w s)) files (load_start params)"

lemma load_files_in_order:
  assumes "0 < p"
  shows "load_files mul conv groups read files p tp cfg params = load_one_by_one mul conv groups read files tp cfg params"
proof -
  obtain fl rest where e: "enqueue p [] files = (fl, rest)" by (cases "enqueue p [] files")
  have app: "fl @ rest = files" using enqueue_append [OF e] by simp
  have nil: "fl = [] \<Longrightarrow> rest = []" using enqueue_some [OF assms, of "[]" files] e app by auto
  have "load_loop p load copy fl rest s = res_fold (\<lambda>f s. res_bind (load f) (\<lambda>w. copy w s)) files s"
    for load :: "string \<Rightarrow> 'a weights result" and copy and s :: "'a load_state"
    using load_loop_in_order [of p fl rest load copy s] assms nil app by simp
  then show ?thesis by (simp add: load_files_def e load_one_by_one_def load_start_def)
qed

lemma sort_map_mset: "mset xs = mset ys \<Longrightarrow> sort (map g xs) = sort (map g ys)"
  by (metis mset_map sorted_list_of_multiset_mset)

lemma find_files_any_order:
  "mset entries = mset entries' \<Longrightarrow> find_safetensors_files dir entries = find_safetensors_files dir entries'"
proof -
  assume m: "mset entries = mset entries'"
  let ?w = "\<lambda>n. file_extension n = ''.safetensors''" and ?c = "\<lambda>n. \<not> contains_sub ''consolidated'' n"
  have w: "mset (filter ?w entries) = mset (filter ?w entries')" using m by (simp only: mset_filter)
  then have c: "mset (filter ?c (filter ?w entries)) = mset (filter ?c (filter ?w entries'))" by (simp only: mset_filter)
  then have e: "filter ?c (filter ?w entries) = [] \<longleftrightarrow> filter ?c (filter ?w entries') = []"
    by (metis mset_zero_iff)
  show ?thesis
    unfolding find_safetensors_files_def Let_def e
    by (cases "filter ?c (filter ?w entries') = []")
      (simp_all only: if_P if_not_P if_True if_False simp_thms sort_map_mset [OF w] sort_map_mset [OF c])
qed

text \<open>
  C36: The order in which weights take effect is the sorted order of the files. Neither the number
  of files that are read at a time (the setting, the processors and the memory limit) nor the
  order in which the directory lists them changes the outcome: it is that of loading the sorted
  files one after the other.
\<close>

theorem load_independent_of_parallelism:
  assumes "mset listed = mset entries" "length entries < 2 ^ 31" "find_safetensors_files dir entries \<noteq> []"
    and "get_tp_info env test_tp = Inr tp"
  shows "load_weights mul conv groups read env hw cgroup test_tp dir listed cfg params =
    load_one_by_one mul conv groups read (find_safetensors_files dir entries) tp cfg params"
proof -
  let ?files = "find_safetensors_files dir entries"
  have f: "find_safetensors_files dir listed = ?files" by (rule find_files_any_order [OF assms(1)])
  have "length ?files \<le> length entries"
    by (auto simp: find_safetensors_files_def Let_def intro: le_trans [OF length_filter_le])
  then have "1 \<le> determine_weight_load_parallelism env hw (read_cgroup_memory_limit cgroup) (length ?files) (tp_size tp)"
    using parallelism_bounds [of "length ?files"] assms(2,3) by auto
  then have "0 < nat (determine_weight_load_parallelism env hw (read_cgroup_memory_limit cgroup) (length ?files) (tp_size tp))"
    by linarith
  note load_files_in_order [OF this, of mul conv groups read ?files tp cfg params]
  then show ?thesis using assms(3,4) by (simp add: load_weights_def f Let_def res_bind_def)
qed

lemma demo_files: "find_safetensors_files ''m'' [''b.safetensors'', ''a.safetensors'', ''README''] = [''m/a.safetensors'', ''m/b.safetensors'']"
  by code_simp

theorem load_independent_of_parallelism_witness:
  "load_weights (+) id merge_groups (\<lambda>f. Inr [(''w'', demo_weight (length f))]) (\<lambda>_. None) 64 None (Some \<lparr>tp_rank = 0, tp_size = 1\<rparr>)
       ''m'' [''README'', ''a.safetensors'', ''b.safetensors''] None [(''w'', demo_weight 3)] =
     load_one_by_one (+) id merge_groups (\<lambda>f. Inr [(''w'', demo_weight (length f))]) [''m/a.safetensors'', ''m/b.safetensors'']
       \<lparr>tp_rank = 0, tp_size = 1\<rparr> None [(''w'', demo_weight 3)]"
  by (rule load_independent_of_parallelism [of _ "[''b.safetensors'', ''a.safetensors'', ''README'']" "''m''", unfolded demo_files])
    (simp_all add: get_tp_info_def)

text \<open>
  C38: A header length near the maximum passes the check, because \<open>8 + header_len\<close> wraps around,
  and the header is then read behind the end of the buffer; shorter wrong lengths are refused.
\<close>

theorem header_length_wraps:
  assumes "8 \<le> length bytes" "\<forall>b\<in>set bytes. b < 256" "length bytes < 2 ^ 63" "le64 bytes < 2 ^ 64"
  shows "(2 ^ 64 - 8 \<le> le64 bytes \<longrightarrow>
      read_safetensors ops parse_json decode bytes = Inl (AssertFail ''read behind the end of the buffer'')) \<and>
    (length bytes < 8 + le64 bytes \<and> le64 bytes < 2 ^ 64 - 8 \<longrightarrow>
      read_safetensors ops parse_json decode bytes = Inl (TorchCheck ''Invalid safetensors header length''))"
proof -
  define n where "n = le64 bytes"
  have n: "n < 2 ^ 64" using assms(4) by (simp add: n_def)
  show ?thesis
    unfolding read_safetensors_def n_def [symmetric] Let_def
  proof (intro conjI impI)
    assume big: "2 ^ 64 - 8 \<le> n"
    then obtain m where m: "n = 2 ^ 64 - 8 + m" using le_Suc_ex by blast
    then have "m < 8" using n by simp
    then have "as_size_t (8 + int n) = int m" unfolding m as_size_t_def by (simp add: add.commute)
    then have "as_size_t (8 + int n) \<le> int (length bytes)" using assms(1) \<open>m < 8\<close> by linarith
    moreover have "\<not> 8 + n \<le> length bytes" using big assms(3) by simp
    ultimately show "res_bind (check (8 \<le> length bytes) (TorchCheck ''Invalid safetensors file''))
      (\<lambda>_. res_bind (check (as_size_t (8 + int n) \<le> int (length bytes)) (TorchCheck ''Invalid safetensors header length''))
         (\<lambda>_. if 8 + n \<le> length bytes then
             res_bind (parse_json (take n (drop 8 bytes))) (\<lambda>header. res_fold (read_entry ops decode bytes (8 + n)) (j_items ops header) [])
           else Inl (AssertFail ''read behind the end of the buffer''))) = Inl (AssertFail ''read behind the end of the buffer'')"
      using assms(1) by simp
  next
    assume small: "length bytes < 8 + n \<and> n < 2 ^ 64 - 8"
    then have "as_size_t (8 + int n) = 8 + int n" by (simp add: as_size_t_def)
    then have "\<not> as_size_t (8 + int n) \<le> int (length bytes)" using small by linarith
    then show "res_bind (check (8 \<le> length bytes) (TorchCheck ''Invalid safetensors file''))
      (\<lambda>_. res_bind (check (as_size_t (8 + int n) \<le> int (length bytes)) (TorchCheck ''Invalid safetensors header length''))
         (\<lambda>_. if 8 + n \<le> length bytes then
             res_bind (parse_json (take n (drop 8 bytes))) (\<lambda>header. res_fold (read_entry ops decode bytes (8 + n)) (j_items ops header) [])
           else Inl (AssertFail ''read behind the end of the buffer''))) = Inl (TorchCheck ''Invalid safetensors header length'')"
      using assms(1) by simp
  qed
qed

theorem header_length_wraps_witness:
  "read_safetensors (undefined :: unit json_ops) (\<lambda>_. Inr ()) (undefined :: scalar_type \<Rightarrow> nat list \<Rightarrow> nat list \<Rightarrow> nat tensor)
     (replicate 8 255) = Inl (AssertFail ''read behind the end of the buffer'')"
  by (rule header_length_wraps [THEN conjunct1, rule_format]) (simp_all add: le64_def lessThan_nat_numeral)

end
