(* ===== verification/SchedInv.thy ===== *)
theory SchedInv
  imports PrefillBatch
begin

text \<open>
  The invariant of the scheduler without overlap: what holds between two steps of the requests,
  the pages, the rows of the table and the room that is reserved for the requests that were
  admitted; and what releasing and caching one request does to it.
\<close>

section \<open>Requests\<close>

abbreviation accts :: "resources \<Rightarrow> nat list \<Rightarrow> bool" where
  "accts rs A \<equiv> owns rs A (\<lambda>r. cached_len (req_at rs r)) {#} {#}"

text \<open>A request that waits for its next token, and one whose token was computed but not appended.\<close>

definition run_ok :: "int \<Rightarrow> req \<Rightarrow> bool" where
  "run_ok M r \<longleftrightarrow> req_ok r \<and> \<not> is_chunked_prefill r \<and> cached_len r + 1 = dev_len r \<and>
     int (length (input_ids r)) = dev_len r \<and> dev_len r < max_dev_len r \<and> max_dev_len r \<le> M"

definition fresh_ok :: "int \<Rightarrow> req \<Rightarrow> bool" where
  "fresh_ok M r \<longleftrightarrow> req_ok r \<and> \<not> is_chunked_prefill r \<and> cached_len r + 1 = dev_len r \<and>
     int (length (input_ids r)) = cached_len r \<and> dev_len r \<le> max_dev_len r \<and> max_dev_len r \<le> M"

text \<open>The request that stands for the part of \<open>p\<close> computed so far.\<close>

definition chunk_ok :: "pending_req \<Rightarrow> req \<Rightarrow> bool" where
  "chunk_ok p r \<longleftrightarrow> req_id r = p_uid p \<and> is_chunked_prefill r \<and> 0 \<le> cached_len r \<and>
     cached_len r < input_len p \<and> input_ids r = take (nat (cached_len r)) (p_input_ids p)"

lemma run_can_decode: "run_ok M r \<Longrightarrow> can_decode r"
  by (simp add: run_ok_def can_decode_def req_ok_lens)

lemma fresh_can_decode: "fresh_ok M r \<Longrightarrow> can_decode r \<longleftrightarrow> dev_len r < max_dev_len r"
  by (simp add: fresh_ok_def can_decode_def req_ok_lens)

lemma run_extend: "run_ok M r \<Longrightarrow> extend_len r = 1 \<and> device_len r = dev_len r \<and> 0 < remain_len r \<and>
    remain_len r = max_dev_len r - dev_len r"
  by (simp add: run_ok_def req_ok_lens)

section \<open>Pending requests\<close>

fun chunk_refs :: "pending_req list \<Rightarrow> nat list" where
  "chunk_refs [] = []"
| "chunk_refs (p # ps) = (case p_chunked_req p of None \<Rightarrow> [] | Some c \<Rightarrow> [c]) @ chunk_refs ps"

definition chunk_need :: "(nat \<Rightarrow> req) \<Rightarrow> pending_req \<Rightarrow> int" where
  "chunk_need q p = (case p_chunked_req p of None \<Rightarrow> 0 | Some c \<Rightarrow> need p (q c))"

text \<open>
  \<open>demand\<close> is the room that the admitted requests may still take, \<open>work\<close> the number of tokens that
  all requests may still take.
\<close>

definition demand :: "(nat \<Rightarrow> req) \<Rightarrow> nat list \<Rightarrow> pending_req list \<Rightarrow> int" where
  "demand q D P = sum_list (map (\<lambda>r. remain_len (q r)) D) + sum_list (map (chunk_need q) P)"

definition pend_work :: "(nat \<Rightarrow> req) \<Rightarrow> pending_req \<Rightarrow> int" where
  "pend_work q p = (case p_chunked_req p of None \<Rightarrow> input_len p + p_output_len p | Some c \<Rightarrow> need p (q c))"

definition work :: "(nat \<Rightarrow> req) \<Rightarrow> nat list \<Rightarrow> pending_req list \<Rightarrow> int" where
  "work q D P = sum_list (map (\<lambda>r. remain_len (q r)) D) + sum_list (map (pend_work q) P)"

lemma chunk_refs_append [simp]: "chunk_refs (ps @ ps') = chunk_refs ps @ chunk_refs ps'"
  by (induction ps) simp_all

lemma chunk_refs_None: "(\<And>p. p \<in> set ps \<Longrightarrow> p_chunked_req p = None) \<Longrightarrow> chunk_refs ps = []"
  by (induction ps) simp_all

lemma chunk_need_None: "(\<And>p. p \<in> set ps \<Longrightarrow> p_chunked_req p = None) \<Longrightarrow> map (chunk_need q) ps = map (\<lambda>_. 0) ps"
  by (simp add: chunk_need_def)

lemma chunk_refs_mem: "c \<in> set (chunk_refs ps) \<longleftrightarrow> (\<exists>p\<in>set ps. p_chunked_req p = Some c)"
  by (induction ps) (auto split: option.splits)

lemma demand_cong:
  assumes "\<And>r. r \<in> set D \<Longrightarrow> remain_len (q' r) = remain_len (q r)" "\<And>r. r \<in> set (chunk_refs P) \<Longrightarrow> q' r = q r"
  shows "demand q' D P = demand q D P" "work q' D P = work q D P"
proof -
  have "map (chunk_need q') P = map (chunk_need q) P" "map (pend_work q') P = map (pend_work q) P"
    using assms(2) unfolding chunk_need_def pend_work_def
    by (auto split: option.splits) (metis chunk_refs_mem)+
  moreover have "map (\<lambda>r. remain_len (q' r)) D = map (\<lambda>r. remain_len (q r)) D" using assms(1) by simp
  ultimately show "demand q' D P = demand q D P" "work q' D P = work q D P"
    by (simp_all only: demand_def work_def)
qed

section \<open>The running requests\<close>

lemma filter_loop_eq:
  "distinct (map (\<lambda>r. req_id (q r)) rs) \<Longrightarrow>
   filter_loop q rs (merged, seen) =
     (merged @ filter (\<lambda>r. can_decode (q r) \<and> req_id (q r) \<notin> seen) rs,
      seen \<union> {req_id (q r) | r. r \<in> set rs \<and> can_decode (q r)})"
proof (induction rs arbitrary: merged seen)
  case (Cons r rs)
  then have d: "distinct (map (\<lambda>r. req_id (q r)) rs)" and n: "\<And>x. x \<in> set rs \<Longrightarrow> req_id (q x) \<noteq> req_id (q r)"
    by (simp_all add: image_iff) metis
  show ?case
  proof (cases "can_decode (q r) \<and> req_id (q r) \<notin> seen")
    case True
    have "filter (\<lambda>x. can_decode (q x) \<and> req_id (q x) \<notin> insert (req_id (q r)) seen) rs =
        filter (\<lambda>x. can_decode (q x) \<and> req_id (q x) \<notin> seen) rs"
      using n by (intro filter_cong) auto
    then show ?thesis using True Cons.IH [OF d] by auto
  next
    case False
    then show ?thesis using Cons.IH [OF d] by auto
  qed
qed auto

text \<open>Adding requests with other identifiers, and adding the running requests themselves.\<close>

lemma filter_reqs_new:
  assumes "distinct (map (\<lambda>r. req_id (q r)) (running_reqs dm @ rs))"
  shows "running_reqs (filter_reqs q rs dm) = filter (\<lambda>r. can_decode (q r)) (running_reqs dm @ rs)"
proof -
  have d: "distinct (map (\<lambda>r. req_id (q r)) (running_reqs dm))" "distinct (map (\<lambda>r. req_id (q r)) rs)"
    using assms by simp_all
  have n: "req_id (q x) \<notin> {req_id (q r) | r. r \<in> set (running_reqs dm) \<and> can_decode (q r)}" if "x \<in> set rs" for x
    using assms that by (auto simp: image_iff)
  then have "filter (\<lambda>r. can_decode (q r) \<and> req_id (q r) \<notin> {req_id (q r) | r. r \<in> set (running_reqs dm) \<and> can_decode (q r)}) rs =
      filter (\<lambda>r. can_decode (q r)) rs"
    by (intro filter_cong) auto
  then show ?thesis
    by (simp add: filter_reqs_def filter_loop_eq [OF d(1)] filter_loop_eq [OF d(2)])
qed

lemma filter_reqs_same:
  assumes "distinct (map (\<lambda>r. req_id (q r)) (running_reqs dm))"
  shows "running_reqs (filter_reqs q (running_reqs dm) dm) = filter (\<lambda>r. can_decode (q r)) (running_reqs dm)"
proof -
  have "filter (\<lambda>r. can_decode (q r) \<and> req_id (q r) \<notin> {req_id (q r) | r. r \<in> set (running_reqs dm) \<and> can_decode (q r)})
      (running_reqs dm) = []"
    by (auto simp: filter_empty_conv)
  then show ?thesis
    by (simp add: filter_reqs_def filter_loop_eq [OF assms])
qed

lemma filter_reqs_page_size [simp]: "dm_page_size (filter_reqs q rs dm) = dm_page_size dm"
  by (simp add: filter_reqs_def)

section \<open>Releasing one request\<close>

lemma accts_row:
  assumes own: "accts rs A" and r: "r \<in> set A"
  shows "req_row_ok (page_table (cache rs)) (req_at rs r)"
    "\<exists>h. cache_handle (req_at rs r) = Some h \<and> cm_handle (cache rs) h (key (req_at rs r))"
    "key (req_at rs r) \<in># lock_keys (req_at rs) A"
    "length (key (req_at rs r)) = hl (req_at rs r)"
    "prefix (key (req_at rs r)) (computed_ids (req_at rs r))"
proof -
  have h: "held (cache rs) (req_at rs r) (cached_len (req_at rs r))" using ownsD(5) [OF own r] .
  then show "req_row_ok (page_table (cache rs)) (req_at rs r)"
    "\<exists>h. cache_handle (req_at rs r) = Some h \<and> cm_handle (cache rs) h (key (req_at rs r))"
    by (auto simp: held_def req_row_ok_def)
  show "key (req_at rs r) \<in># lock_keys (req_at rs) A" using r by (simp add: lock_keys_def)
  show "length (key (req_at rs r)) = hl (req_at rs r)" using key_len [OF h] .
  have "hl (req_at rs r) \<le> nat (cached_len (req_at rs r))" using h by (simp add: held_def le_nat_iff)
  then show "prefix (key (req_at rs r)) (computed_ids (req_at rs r))"
    unfolding key_def computed_ids_def by (metis min.absorb1 take_is_prefix take_take)
qed

text \<open>
  The rest of the accounts when one request is handed to the cache: \<open>cm'\<close> is the manager after
  the hand-over, which keeps the handles and the page table.
\<close>

lemma accts_remove:
  assumes own: "accts rs A" and r: "r \<in> set A"
    and cm: "cm_ok cm' (lock_keys (req_at rs) A - {#key (req_at rs r)#})"
    and pages: "cm_pages cm' = cm_pages (cache rs) +
      mset (row_range (page_table (cache rs)) (req_at rs r) (int (hl (req_at rs r))) (cached_len (req_at rs r)))"
    and same: "page_table cm' = page_table (cache rs)" "num_pages cm' = num_pages (cache rs)"
    and handles: "\<forall>h k. cm_handle (cache rs) h k \<longrightarrow> cm_handle cm' h k"
    and rs': "cache rs' = cm'" "req_at rs' = req_at rs" "next_ref rs' = next_ref rs"
  shows "accts rs' (remove1 r A)"
proof -
  let ?hi = "\<lambda>x. cached_len (req_at rs x)"
  have t: "owns rs (remove1 r A) ?hi {#key (req_at rs r)#}
      (own_pages (page_table (cache rs)) (req_at rs r) (?hi r))"
    using owns_take [OF own r] by simp
  have k: "lock_keys (req_at rs) A - {#key (req_at rs r)#} = lock_keys (req_at rs) (remove1 r A) + {#}"
    by (simp add: lock_keys_remove [OF r])
  have "owns rs' (remove1 r A) ?hi {#} {#}"
    by (rule owns_cache [OF t, where cm = cm'])
      (use cm k pages same handles rs' in \<open>simp_all add: own_pages_def\<close>)
  then show ?thesis using rs'(2) by simp
qed

lemma free_req_resources_ok:
  assumes own: "accts (res s) A" and tb: "tabs mr W (res s) A []" and r: "r \<in> set A"
    and new: "req_id (req_of s r) \<notin> freed_reqs s"
  shows "\<exists>rs'. free_req_resources r s =
       Inr (s\<lparr>freed_reqs := insert (req_id (req_of s r)) (freed_reqs s), res := rs'\<rparr>) \<and>
     req_at rs' = req_of s \<and> next_ref rs' = next_ref (res s) \<and>
     accts rs' (remove1 r A) \<and> tabs mr W rs' (remove1 r A) [] \<and>
     cm_room (cache (res s)) \<le> cm_room (cache rs') \<and> num_pages (cache rs') = num_pages (cache (res s)) \<and>
     lazy_free_active (cache rs') = lazy_free_active (cache (res s))"
proof -
  let ?rs = "res s" let ?q = "req_of s r" let ?K = "lock_keys (req_of s) A"
  have ok: "cm_ok (cache ?rs) ?K" using ownsD(3) [OF own] by simp
  note row = accts_row [OF own r]
  obtain h where h: "cache_handle ?q = Some h" "cm_handle (cache ?rs) h (key ?q)" using row(2) by blast
  obtain cm' where c: "cache_req ?q True (cache ?rs) = Inr (?q, cm')" "cm_ok cm' (?K - {#key ?q#})"
    "cm_pages cm' = cm_pages (cache ?rs) + mset (row_range (page_table (cache ?rs)) ?q (int (length (key ?q))) (cached_len ?q))"
    "cm_room (cache ?rs) + (cached_len ?q - int (length (key ?q))) \<le> cm_room cm'"
    "page_table cm' = page_table (cache ?rs)" "num_pages cm' = num_pages (cache ?rs)"
    "lazy_free_active cm' = lazy_free_active (cache ?rs)" "\<forall>h k. cm_handle (cache ?rs) h k \<longrightarrow> cm_handle cm' h k"
    using cache_req_finished [OF ok row(1) h row(3,5)] by blast
  let ?rs' = "?rs\<lparr>tables := tm_free (table_idx ?q) (tables ?rs), cache := cm'\<rparr>"
  have "accts ?rs' (remove1 r A)"
    by (rule accts_remove [OF own r c(2)]) (use c row(4) in simp_all)
  moreover have "tabs mr W ?rs' (remove1 r A) []"
  proof -
    have "tabs mr W ?rs (remove1 r A) [table_idx ?q]" using tabs_take [OF tb r] .
    then show ?thesis using c(5) by (simp add: tabs_def tm_free_def ac_simps)
  qed
  moreover have "int (length (key ?q)) \<le> cached_len ?q"
    using ownsD(5) [OF own r] row(4) by (simp add: held_def)
  moreover have "free_req_resources r s =
      Inr (s\<lparr>freed_reqs := insert (req_id ?q) (freed_reqs s), res := ?rs'\<rparr>)"
    using new c(1) by (simp add: free_req_resources_def sched_cache_req_def Let_def set_cache_def set_req_def)
  ultimately show ?thesis using c by (intro exI [of _ ?rs']) simp
qed

section \<open>Caching a request that goes on\<close>

lemma sched_cache_req_ok:
  assumes own: "accts (res s) A" and tb: "tabs mr W (res s) A []" and r: "r \<in> set A"
    and len: "cached_len (req_of s r) \<le> int (length (input_ids (req_of s r)))"
  shows "\<exists>rs' h. sched_cache_req r False s = Inr (s\<lparr>res := rs'\<rparr>) \<and>
     req_at rs' = (req_of s)(r := (req_of s r)\<lparr>cache_handle := Some h\<rparr>) \<and> next_ref rs' = next_ref (res s) \<and>
     accts rs' A \<and> tabs mr W rs' A [] \<and>
     cm_room (cache (res s)) \<le> cm_room (cache rs') \<and> num_pages (cache rs') = num_pages (cache (res s)) \<and>
     lazy_free_active (cache rs') = lazy_free_active (cache (res s))"
proof -
  let ?rs = "res s" let ?q = "req_of s r" let ?K = "lock_keys (req_of s) A"
  let ?hi = "\<lambda>x. cached_len (req_of s x)"
  have ok: "cm_ok (cache ?rs) ?K" using ownsD(3) [OF own] by simp
  note row = accts_row [OF own r]
  obtain old where o: "cache_handle ?q = Some old" "cm_handle (cache ?rs) old (key ?q)" using row(2) by blast
  let ?ids = "computed_ids ?q"
  have pos: "0 \<le> cached_len ?q" using row(1) by (simp add: req_row_ok_def)
  have idl: "length ?ids = nat (cached_len ?q)" using len pos by (simp add: computed_ids_def min_absorb2)
  obtain h cm' where c: "cache_req ?q False (cache ?rs) = Inr (?q\<lparr>cache_handle := Some h\<rparr>, cm')"
    "cm_ok cm' (add_mset ?ids (?K - {#key ?q#}))" "cm_handle cm' h ?ids" "handle_len h = length ?ids"
    "cm_pages cm' = cm_pages (cache ?rs) + mset (row_range (page_table (cache ?rs)) ?q (int (length (key ?q))) (int (length ?ids)))"
    "cm_room (cache ?rs) \<le> cm_room cm'" "page_table cm' = page_table (cache ?rs)"
    "num_pages cm' = num_pages (cache ?rs)" "lazy_free_active cm' = lazy_free_active (cache ?rs)"
    "\<forall>h k. cm_handle (cache ?rs) h k \<longrightarrow> cm_handle cm' h k"
    using cache_req_running [OF ok row(1) o row(3,5)] by blast
  let ?q' = "?q\<lparr>cache_handle := Some h\<rparr>"
  let ?rs' = "?rs\<lparr>req_at := (req_of s)(r := ?q'), cache := cm'\<rparr>"
  have key': "key ?q' = ?ids" "hl ?q' = nat (cached_len ?q)"
    using c(4) idl by (simp_all add: key_def computed_ids_def)
  have dA: "distinct A" and lt: "r < next_ref ?rs" using ownsD(1,2) [OF own] r by simp_all
  then have nr: "r \<notin> set (remove1 r A)" by simp
  have t: "owns ?rs (remove1 r A) ?hi {#key ?q#} (own_pages (page_table (cache ?rs)) ?q (?hi r))"
    using owns_take [OF own r] by simp
  have "?K - {#key ?q#} = lock_keys (req_of s) (remove1 r A)" by (simp add: lock_keys_remove [OF r])
  then have k: "cm_ok cm' (lock_keys (req_of s) (remove1 r A) + {#?ids#})" using c(2) by simp
  have t2: "owns (?rs\<lparr>cache := cm'\<rparr>) (remove1 r A) ?hi {#?ids#} {#}"
    by (rule owns_cache [OF t k]) (use c(5,7,8,10) row(4) idl pos in \<open>simp_all add: own_pages_def\<close>)
  have t3: "owns ?rs' (remove1 r A) ?hi {#?ids#} {#}"
    by (rule owns_cong [OF t2]) (use nr ownsD(5) [OF t2] in \<open>auto simp: held_def\<close>)
  have hd: "held cm' ?q' (cached_len ?q)"
    using ownsD(5) [OF own r] c(3,7) key' idl len pos by (simp add: held_def)
  have "owns ?rs' (remove1 r A @ [r]) ?hi {#} {#}"
    by (rule owns_put) (use t3 nr lt hd key' in \<open>simp_all add: own_pages_empty\<close>)
  then have "owns ?rs' A ?hi {#} {#}" by (rule owns_perm) (use r in simp)
  moreover have "(\<lambda>x. cached_len (req_at ?rs' x)) = ?hi" by auto
  ultimately have own': "accts ?rs' A" by simp
  have "tabs mr W ?rs' A []"
    by (rule tabs_res [OF tb]) (use tb c(7) in \<open>auto simp: tabs_def\<close>)
  moreover have "sched_cache_req r False s = Inr (s\<lparr>res := ?rs'\<rparr>)"
    using c(1) by (simp add: sched_cache_req_def set_cache_def set_req_def)
  ultimately show ?thesis using own' c by (intro exI [of _ ?rs'] exI [of _ h]) simp
qed

end
