(* ===== verification/SchedPrefill.thy ===== *)
theory SchedPrefill
  imports SchedInv
begin

text \<open>
  \<open>PrefillManager::schedule_next_batch\<close> under the invariant: every pending request in front of
  the first that does not fit is admitted, within the budget and the room, and at most the last
  of them is cut.
\<close>

section \<open>One request\<close>

definition grows :: "resources \<Rightarrow> resources \<Rightarrow> bool" where
  "grows rs rs' \<longleftrightarrow> (\<forall>x<next_ref rs. req_at rs' x = req_at rs x) \<and> next_ref rs \<le> next_ref rs' \<and>
     lazy_free_active (cache rs') = lazy_free_active (cache rs) \<and> num_pages (cache rs') = num_pages (cache rs)"

lemma grows_trans: "grows r1 r2 \<Longrightarrow> grows r2 r3 \<Longrightarrow> grows r1 r3"
  by (auto simp: grows_def)

lemma owns_hi: "owns rs A hi X Y \<Longrightarrow> (\<And>r. r \<in> set A \<Longrightarrow> hi' r = hi r) \<Longrightarrow> owns rs A hi' X Y"
  by (rule owns_cong [where rs = rs and rs' = rs]) (auto dest: ownsD(5) simp: held_def)

definition admits :: "(nat \<Rightarrow> req) \<Rightarrow> (nat \<Rightarrow> req) \<Rightarrow> pending_req \<Rightarrow> nat \<Rightarrow> bool" where
  "admits q q' p r \<longleftrightarrow> admitted p (q' r) \<and> need p (q' r) \<le> pend_work q p"

definition blocked :: "prefill_adder \<Rightarrow> pending_req \<Rightarrow> resources \<Rightarrow> bool" where
  "blocked ad p rs \<longleftrightarrow> tm_free_slots (tables rs) = [] \<or>
     input_len p + p_output_len p + reserved_size ad > available_size (cache rs)"

lemma try_add_one_ok:
  assumes own: "accts rs (A @ chunk_refs [p])" and tb: "tabs mr W rs (A @ chunk_refs [p]) []"
    and lz: "\<not> lazy_free_active (cache rs)" and p: "pend_ok W p"
    and ck: "\<And>c. p_chunked_req p = Some c \<Longrightarrow> chunk_ok p (req_at rs c)"
    and bud: "0 < token_budget ad" and room: "reserved_size ad + chunk_need (req_at rs) p \<le> available_size (cache rs)"
  shows "\<exists>out ad' rs'. try_add_one ad p rs = Inr (out, ad', rs') \<and> grows rs rs' \<and>
     (case out of
        None \<Rightarrow> p_chunked_req p = None \<and> accts rs' A \<and> tabs mr W rs' A [] \<and> ad' = ad \<and>
          available_size (cache rs') = available_size (cache rs) \<and> blocked ad p rs
      | Some ref \<Rightarrow> ref = next_ref rs \<and> ref < next_ref rs' \<and> admits (req_at rs) (req_at rs') p ref \<and>
          accts rs' (A @ [ref]) \<and> tabs mr W rs' (A @ [ref]) [] \<and>
          (is_chunked_prefill (req_at rs' ref) \<longrightarrow> token_budget ad' = 0) \<and>
          reserved_size ad' = reserved_size ad + need p (req_at rs' ref) \<and>
          reserved_size ad' \<le> available_size (cache rs'))"
proof (cases "p_chunked_req p")
  case None
  have own': "accts rs A" and tb': "tabs mr W rs A []" using own tb None by simp_all
  have len: "0 < input_len p" "input_len p \<le> int W" using p by (simp_all add: pend_ok_def)
  let ?hi = "\<lambda>x. cached_len (req_at rs x)"
  obtain out rs1 where t: "try_allocate_one ad p rs = Inr (out, rs1)" "same_reqs rs rs1"
    "case out of None \<Rightarrow> alloc_none mr W ad p rs A ?hi rs1 | Some (h, ti) \<Rightarrow> alloc_some mr W ad p A ?hi h ti rs1"
    using try_allocate_one_ok [OF own' tb' lz len] by blast
  have g1: "grows rs rs1" using t(2) by (simp add: same_reqs_def grows_def)
  have q1: "req_at rs1 = req_at rs" "next_ref rs1 = next_ref rs" using t(2) by (simp_all add: same_reqs_def)
  show ?thesis
  proof (cases out)
    case None
    then have a: "alloc_none mr W ad p rs A ?hi rs1" using t(3) by simp
    have "try_add_one ad p rs = Inr (None, ad, rs1)"
      using \<open>p_chunked_req p = None\<close> bud t(1) None by (simp add: try_add_one_def)
    then show ?thesis
      using a g1 \<open>p_chunked_req p = None\<close> q1 by (simp add: alloc_none_def blocked_def)
  next
    case (Some hti)
    obtain h ti where hti: "hti = (h, ti)" by fastforce
    let ?n = "handle_len h"
    have a: "owns rs1 A ?hi {#take ?n (p_input_ids p)#} {#}" "tabs mr W rs1 A [ti]"
      "cm_handle (cache rs1) h (take ?n (p_input_ids p))" "int ?n < input_len p"
      "input_len p - int ?n + p_output_len p + reserved_size ad \<le> available_size (cache rs1)"
      using t(3) Some hti by (simp_all add: alloc_some_def)
    obtain ref ad' rs' where r: "adder_add_one_req ad p (Some h) ti (int ?n) rs1 = Inr (ref, ad', rs')"
      "ref = next_ref rs1" "next_ref rs' = Suc (next_ref rs1)" "cache rs' = cache rs1"
      "\<forall>x. x \<noteq> ref \<longrightarrow> req_at rs' x = req_at rs1 x" "admitted p (req_at rs' ref)"
      "cached_len (req_at rs' ref) = int ?n"
      "extend_len (req_at rs' ref) = min (token_budget ad) (input_len p - int ?n)"
      "token_budget ad' = token_budget ad - extend_len (req_at rs' ref)"
      "reserved_size ad' = reserved_size ad + need p (req_at rs' ref)"
      "owns rs' (A @ [ref]) (?hi(ref := int ?n)) {#} {#}" "tabs mr W rs' (A @ [ref]) []"
      using add_one_req_ok [OF a(1,2,3) order_refl a(4) p bud] by auto
    have need: "need p (req_at rs' ref) = input_len p - int ?n + p_output_len p" by (simp add: need_def r(7))
    have "ref \<notin> set A" using ownsD(2) [OF own'] r(2) q1(2) by auto
    then have "accts rs' (A @ [ref])"
      by (intro owns_hi [OF r(11)]) (use r(5,7) q1(1) in auto)
    moreover have "token_budget ad' = 0" if "is_chunked_prefill (req_at rs' ref)"
    proof -
      have "dev_len (req_at rs' ref) < input_len p" using that r(6) by (simp add: admitted_def)
      moreover have "extend_len (req_at rs' ref) = dev_len (req_at rs' ref) - int ?n"
        using admitted_ok(3) [OF r(6)] r(7) by simp
      ultimately show ?thesis using r(8,9) by linarith
    qed
    moreover have "try_add_one ad p rs = Inr (Some ref, ad', rs')"
      using \<open>p_chunked_req p = None\<close> bud t(1) Some hti r(1) by (simp add: try_add_one_def)
    moreover have "grows rs rs'" using g1 r(2-5) q1 by (auto simp: grows_def)
    ultimately show ?thesis
      using r a(5) need q1 \<open>p_chunked_req p = None\<close> by (simp add: admits_def pend_work_def)
  qed
next
  case (Some c)
  let ?q = "req_at rs c" let ?hi = "\<lambda>x. cached_len (req_at rs x)"
  have own': "accts rs (A @ [c])" and tb': "tabs mr W rs (A @ [c]) []" using own tb Some by simp_all
  have cok: "chunk_ok p ?q" using ck Some by blast
  have d: "c \<notin> set A" "c < next_ref rs" using ownsD(1,2) [OF own'] by auto
  then have rm: "remove1 c (A @ [c]) = A" by (simp add: remove1_append)
  have hd: "held (cache rs) ?q (cached_len ?q)" using ownsD(5) [OF own'] by simp
  obtain h where h: "cache_handle ?q = Some h" "cm_handle (cache rs) h (key ?q)" using hd by (auto simp: held_def)
  have hl: "hl ?q = handle_len h" "int (handle_len h) \<le> cached_len ?q" using h(1) hd by (simp_all add: held_def)
  have key: "key ?q = take (handle_len h) (p_input_ids p)"
  proof -
    have "handle_len h \<le> nat (cached_len ?q)" using hl(2) by simp
    then show ?thesis using cok by (simp add: key_def hl(1) chunk_ok_def min_absorb1)
  qed
  have own2: "owns rs A ?hi {#take (handle_len h) (p_input_ids p)#} (own_pages (page_table (cache rs)) ?q (cached_len ?q))"
    using owns_take [OF own', of c] rm key by simp
  have tb2: "tabs mr W rs A [table_idx ?q]" using tabs_take [OF tb', of c] rm by simp
  have clen: "cached_len ?q < input_len p" using cok by (simp add: chunk_ok_def)
  have Y: "own_pages (page_table (cache rs)) ?q (cached_len ?q) =
      mset (tslice (handle_len h) (nat (cached_len ?q)) (page_table (cache rs) ! nat (table_idx ?q)))"
    by (simp add: own_pages_def row_range_def hl(1))
  obtain ref ad' rs' where r: "adder_add_one_req ad p (Some h) (table_idx ?q) (cached_len ?q) rs = Inr (ref, ad', rs')"
    "ref = next_ref rs" "next_ref rs' = Suc (next_ref rs)" "cache rs' = cache rs"
    "\<forall>x. x \<noteq> ref \<longrightarrow> req_at rs' x = req_at rs x" "admitted p (req_at rs' ref)"
    "cached_len (req_at rs' ref) = cached_len ?q"
    "extend_len (req_at rs' ref) = min (token_budget ad) (input_len p - cached_len ?q)"
    "token_budget ad' = token_budget ad - extend_len (req_at rs' ref)"
    "reserved_size ad' = reserved_size ad + need p (req_at rs' ref)"
    "owns rs' (A @ [ref]) (?hi(ref := cached_len ?q)) {#} {#}" "tabs mr W rs' (A @ [ref]) []"
    using add_one_req_ok [OF own2 tb2 _ hl(2) clen p bud Y] h(2) key by auto
  have "ref \<notin> set A" using ownsD(2) [OF own'] r(2) by auto
  then have "accts rs' (A @ [ref])"
    by (intro owns_hi [OF r(11)]) (use r(5,7) in auto)
  moreover have "token_budget ad' = 0" if "is_chunked_prefill (req_at rs' ref)"
  proof -
    have "dev_len (req_at rs' ref) < input_len p" using that r(6) by (simp add: admitted_def)
    moreover have "extend_len (req_at rs' ref) = dev_len (req_at rs' ref) - cached_len ?q"
      using admitted_ok(3) [OF r(6)] r(7) by simp
    ultimately show ?thesis using r(8,9) by linarith
  qed
  moreover have "try_add_one ad p rs = Inr (Some ref, ad', rs')"
    using Some bud r(1) h(1) by (simp add: try_add_one_def)
  moreover have "grows rs rs'" using r(2-5) by (auto simp: grows_def)
  moreover have "need p (req_at rs' ref) = need p ?q" by (simp add: need_def r(7))
  ultimately show ?thesis
    using r room Some by (simp add: admits_def pend_work_def chunk_need_def)
qed

section \<open>The batch\<close>

text \<open>The requests that go back to the front of the queue because they were cut.\<close>

fun cut_reqs :: "(nat \<Rightarrow> req) \<Rightarrow> pending_req list \<Rightarrow> nat list \<Rightarrow> pending_req list" where
  "cut_reqs q (p # ps) (r # rs) =
     (if is_chunked_prefill (q r) then [p\<lparr>p_chunked_req := Some r\<rparr>] else []) @ cut_reqs q ps rs"
| "cut_reqs q _ _ = []"

definition needs :: "(nat \<Rightarrow> req) \<Rightarrow> pending_req list \<Rightarrow> nat list \<Rightarrow> int" where
  "needs q ps rs = sum_list (map2 (\<lambda>p r. need p (q r)) ps rs)"

lemma pend_work_None: "p_chunked_req p = None \<Longrightarrow> pend_work q p = pend_work q' p"
  by (simp add: pend_work_def)

lemma schedule_loop_stop: "token_budget ad \<le> 0 \<Longrightarrow> schedule_loop ad ps rs B ck = Inr (B, ck, rs)"
  by (cases ps) (simp_all add: try_add_one_def)

lemma schedule_loop_ok:
  assumes "accts rs (A @ chunk_refs ps)" "tabs mr W rs (A @ chunk_refs ps) []"
    and "\<not> lazy_free_active (cache rs)" "\<And>p. p \<in> set ps \<Longrightarrow> pend_ok W p"
    and "\<And>p c. p \<in> set ps \<Longrightarrow> p_chunked_req p = Some c \<Longrightarrow> chunk_ok p (req_at rs c)"
    and "\<And>p. p \<in> set (tl ps) \<Longrightarrow> p_chunked_req p = None"
    and "reserved_size ad + sum_list (map (chunk_need (req_at rs)) ps) \<le> available_size (cache rs)"
    and "0 < token_budget ad \<or> chunk_refs ps = []"
  shows "\<exists>qs rest L rs'. ps = qs @ rest \<and> length L = length qs \<and>
     schedule_loop ad ps rs B ck = Inr (B @ L, ck @ cut_reqs (req_at rs') qs L, rs') \<and>
     grows rs rs' \<and> accts rs' (A @ L) \<and> tabs mr W rs' (A @ L) [] \<and>
     list_all2 (admits (req_at rs) (req_at rs')) qs L \<and> (\<forall>r\<in>set L. next_ref rs \<le> r) \<and>
     (\<forall>p\<in>set rest. p_chunked_req p = None) \<and> length (cut_reqs (req_at rs') qs L) \<le> 1 \<and>
     reserved_size ad + needs (req_at rs') qs L \<le> available_size (cache rs') \<and>
     (qs = [] \<longrightarrow> ps = [] \<or> token_budget ad \<le> 0 \<or> (chunk_refs ps = [] \<and> blocked ad (hd ps) rs))"
  using assms
proof (induction ps arbitrary: ad rs A B ck)
  case Nil
  then show ?case
    by (intro exI [of _ "[]"] exI [of _ rs]) (simp add: grows_def needs_def)
next
  case (Cons p ps)
  have tl: "\<And>p. p \<in> set ps \<Longrightarrow> p_chunked_req p = None" using Cons.prems(6) by simp
  then have cr: "chunk_refs (p # ps) = chunk_refs [p]" "chunk_refs ps = []"
    "sum_list (map (chunk_need q) ps) = 0" for q
    by (simp_all add: chunk_refs_None chunk_need_None)
  have own: "accts rs (A @ chunk_refs [p])" and tb: "tabs mr W rs (A @ chunk_refs [p]) []"
    using Cons.prems(1,2) cr by simp_all
  have room: "reserved_size ad + chunk_need (req_at rs) p \<le> available_size (cache rs)"
    using Cons.prems(7) cr(3) by simp
  have pok: "pend_ok W p" using Cons.prems(4) by simp
  show ?case
  proof (cases "0 < token_budget ad")
    case False
    then have "p_chunked_req p = None" using Cons.prems(8) cr by (auto split: option.splits)
    then have "\<forall>p\<in>set (p # ps). p_chunked_req p = None" using tl by simp
    then show ?thesis
      using False own tb room schedule_loop_stop [of ad "p # ps" rs B ck] \<open>p_chunked_req p = None\<close>
      by (intro exI [of _ "[]"] exI [of _ "p # ps"] exI [of _ rs])
        (simp add: grows_def needs_def chunk_need_def)
  next
    case True
    obtain out ad1 rs1 where t: "try_add_one ad p rs = Inr (out, ad1, rs1)" "grows rs rs1"
      "case out of
        None \<Rightarrow> p_chunked_req p = None \<and> accts rs1 A \<and> tabs mr W rs1 A [] \<and> ad1 = ad \<and>
          available_size (cache rs1) = available_size (cache rs) \<and> blocked ad p rs
      | Some ref \<Rightarrow> ref = next_ref rs \<and> ref < next_ref rs1 \<and> admits (req_at rs) (req_at rs1) p ref \<and>
          accts rs1 (A @ [ref]) \<and> tabs mr W rs1 (A @ [ref]) [] \<and>
          (is_chunked_prefill (req_at rs1 ref) \<longrightarrow> token_budget ad1 = 0) \<and>
          reserved_size ad1 = reserved_size ad + need p (req_at rs1 ref) \<and>
          reserved_size ad1 \<le> available_size (cache rs1)"
      using try_add_one_ok [OF own tb Cons.prems(3) pok _ True room] Cons.prems(5) by fastforce
    show ?thesis
    proof (cases out)
      case None
      then have "schedule_loop ad (p # ps) rs B ck = Inr (B, ck, rs1)" using t(1) by simp
      moreover have "\<forall>p\<in>set (p # ps). p_chunked_req p = None" using tl t(3) None by simp
      moreover have "reserved_size ad \<le> available_size (cache rs1)"
        using t(3) None room by (simp add: chunk_need_def)
      ultimately show ?thesis
        using t(2,3) None cr(2)
        by (intro exI [of _ "[]"] exI [of _ "p # ps"] exI [of _ rs1]) (simp add: needs_def)
    next
      case (Some ref)
      have s: "ref = next_ref rs" "ref < next_ref rs1" "admits (req_at rs) (req_at rs1) p ref"
        "accts rs1 (A @ [ref])" "tabs mr W rs1 (A @ [ref]) []"
        "is_chunked_prefill (req_at rs1 ref) \<Longrightarrow> token_budget ad1 = 0"
        "reserved_size ad1 = reserved_size ad + need p (req_at rs1 ref)"
        "reserved_size ad1 \<le> available_size (cache rs1)"
        using t(3) [unfolded Some option.case] by blast+
      show ?thesis
      proof (cases "is_chunked_prefill (req_at rs1 ref)")
        case True
        have "schedule_loop ad (p # ps) rs B ck = Inr (B @ [ref], ck @ [p\<lparr>p_chunked_req := Some ref\<rparr>], rs1)"
          using t(1) Some True schedule_loop_stop [of ad1] s(6) by simp
        then show ?thesis
          using s t(2) True tl
          by (intro exI [of _ "[p]"] exI [of _ ps] exI [of _ "[ref]"] exI [of _ rs1]) (simp add: needs_def)
      next
        case False
        have lz1: "\<not> lazy_free_active (cache rs1)" using t(2) Cons.prems(3) by (simp add: grows_def)
        have "\<exists>qs rest L rs'. ps = qs @ rest \<and> length L = length qs \<and>
           schedule_loop ad1 ps rs1 (B @ [ref]) ck = Inr ((B @ [ref]) @ L, ck @ cut_reqs (req_at rs') qs L, rs') \<and>
           grows rs1 rs' \<and> accts rs' ((A @ [ref]) @ L) \<and> tabs mr W rs' ((A @ [ref]) @ L) [] \<and>
           list_all2 (admits (req_at rs1) (req_at rs')) qs L \<and> (\<forall>r\<in>set L. next_ref rs1 \<le> r) \<and>
           (\<forall>p\<in>set rest. p_chunked_req p = None) \<and> length (cut_reqs (req_at rs') qs L) \<le> 1 \<and>
           reserved_size ad1 + needs (req_at rs') qs L \<le> available_size (cache rs') \<and>
           (qs = [] \<longrightarrow> ps = [] \<or> token_budget ad1 \<le> 0 \<or> (chunk_refs ps = [] \<and> blocked ad1 (hd ps) rs1))"
        proof (rule Cons.IH)
          show "p_chunked_req p = None" if "p \<in> set (tl ps)" for p
            using tl that list.set_sel(2) by (cases ps) auto
        qed (use s lz1 Cons.prems(4) tl cr in auto)
        then obtain qs rest L rs' where i: "ps = qs @ rest" "length L = length qs"
          "schedule_loop ad1 ps rs1 (B @ [ref]) ck = Inr ((B @ [ref]) @ L, ck @ cut_reqs (req_at rs') qs L, rs')"
          "grows rs1 rs'" "accts rs' ((A @ [ref]) @ L)" "tabs mr W rs' ((A @ [ref]) @ L) []"
          "list_all2 (admits (req_at rs1) (req_at rs')) qs L" "\<forall>r\<in>set L. next_ref rs1 \<le> r"
          "\<forall>p\<in>set rest. p_chunked_req p = None" "length (cut_reqs (req_at rs') qs L) \<le> 1"
          "reserved_size ad1 + needs (req_at rs') qs L \<le> available_size (cache rs')" by blast
        have rr: "req_at rs' ref = req_at rs1 ref" using i(4) s(2) by (simp add: grows_def)
        have sub: "set qs \<subseteq> set ps" using i(1) by simp
        have "list_all2 (admits (req_at rs) (req_at rs')) qs L"
        proof (rule list.rel_mono_strong [OF i(7)])
          fix x y
          assume "x \<in> set qs" "y \<in> set L" "admits (req_at rs1) (req_at rs') x y"
          then show "admits (req_at rs) (req_at rs') x y"
            using pend_work_None [OF tl, of x "req_at rs" "req_at rs1"] sub by (auto simp: admits_def)
        qed
        moreover have "admits (req_at rs) (req_at rs') p ref" using s(3) rr by (simp add: admits_def)
        moreover have "schedule_loop ad (p # ps) rs B ck = Inr (B @ ref # L, ck @ cut_reqs (req_at rs') qs L, rs')"
          using t(1) Some False i(3) by simp
        moreover have "next_ref rs \<le> r" if "r \<in> set L" for r
          using i(8) that t(2) by (auto simp: grows_def intro: le_trans)
        ultimately show ?thesis
          using i s grows_trans [OF t(2) i(4)] False rr
          by (intro exI [of _ "p # qs"] exI [of _ rest] exI [of _ "ref # L"] exI [of _ rs'])
            (simp add: needs_def add.assoc)
      qed
    qed
  qed
qed

end
