(* ===== verification/SchedForward.thy ===== *)
theory SchedForward
  imports SchedPrefill
begin

text \<open>
  Preparing a batch and the forward step under the invariant: every token of the batch gets its
  page out of the room that was reserved, the requests advance by one step, and the running
  requests are those that can go on.
\<close>

section \<open>Pages for the batch\<close>

lemma row_range_split:
  assumes "0 \<le> a" "a \<le> b" "b \<le> c"
  shows "mset (row_range t r a c) = mset (row_range t r a b) + mset (row_range t r b c)"
  using assms mset_tslice_split [of "nat a" "nat b" "nat c"] by (simp add: row_range_def nat_mono)

lemma row_range_same:
  assumes "0 \<le> table_idx r" "table_idx r < int (length t)" "0 \<le> a" "nat b \<le> length (t ! nat (table_idx r))"
    and "length t' = length t" "length (t' ! nat (table_idx r)) = length (t ! nat (table_idx r))"
    and "\<And>p. a \<le> p \<Longrightarrow> p < b \<Longrightarrow> read_cell t' (table_idx r) p = read_cell t (table_idx r) p"
  shows "row_range t' r a b = row_range t r a b"
  using assms row_range_map [of r t a b] row_range_map [of r t' a b] by simp

lemma sum_private:
  assumes "\<And>r. r \<in> set L \<Longrightarrow> own_pages t' (q r) (hi' r) = own_pages t (q r) (hi r) + f (q r)"
  shows "private_pages t' q L hi' = private_pages t q L hi + sum_list (map f (map q L))"
  using assms by (induction L) (simp_all add: ac_simps)

lemma allocate_accts:
  assumes own: "accts rs (L @ A)" and tb: "tabs mr W rs (L @ A) []" and lz: "\<not> lazy_free_active (cache rs)"
    and L: "\<And>r. r \<in> set L \<Longrightarrow> req_ok (req_at rs r) \<and> dev_len (req_at rs r) \<le> int W"
    and room: "sum_list (map (\<lambda>r. extend_len (req_at rs r)) L) \<le> available_size (cache rs)"
  shows "\<exists>cm. allocate_paged (map (req_at rs) L) (cache rs) = Inr cm \<and> \<not> lazy_free_active cm \<and>
     num_pages cm = num_pages (cache rs) \<and>
     available_size cm = available_size (cache rs) - sum_list (map (\<lambda>r. extend_len (req_at rs r)) L) \<and>
     owns (rs\<lparr>cache := cm\<rparr>) (L @ A)
       (\<lambda>r. if r \<in> set L then dev_len (req_at rs r) else cached_len (req_at rs r)) {#} {#} \<and>
     tabs mr W (rs\<lparr>cache := cm\<rparr>) (L @ A) []"
proof -
  let ?q = "req_at rs" let ?t = "page_table (cache rs)" let ?K = "lock_keys ?q (L @ A)"
  let ?hi = "\<lambda>r. if r \<in> set L then dev_len (?q r) else cached_len (?q r)"
  have ok: "cm_ok (cache rs) ?K" using ownsD(3) [OF own] by simp
  have sh: "shape mr W ?t" using tb by (simp add: tabs_def)
  have idx: "0 \<le> table_idx (?q r)" "table_idx (?q r) < int (length ?t)" "length (?t ! nat (table_idx (?q r))) = W"
    if "r \<in> set (L @ A)" for r
    using tabs_idx(1) [OF tb that] shape_row [OF sh, of "table_idx (?q r)"] by auto
  have di: "distinct (map (\<lambda>r. table_idx (?q r)) (L @ A))" using tabs_idx(4) [OF tb] .
  have lens: "device_len (?q r) = dev_len (?q r)" "0 \<le> cached_len (?q r)" "cached_len (?q r) \<le> dev_len (?q r)"
    "nat (dev_len (?q r)) \<le> W" if "r \<in> set L" for r
    using L [OF that] req_ok_lens(1) [of "?q r"] by (auto simp: req_ok_def)
  have rows: "batch_rows ?t (map ?q L)"
    using di idx lens by (auto simp: batch_rows_def comp_def)
  have room': "sum_list (map extend_len (map ?q L)) \<le> available_size (cache rs)"
    using room by (simp add: comp_def)
  obtain cm where a: "allocate_paged (map ?q L) (cache rs) = Inr cm" "cm_ok cm ?K" "\<not> lazy_free_active cm"
    "cm_pages (cache rs) = cm_pages cm +
       sum_list (map (\<lambda>r. mset (row_range (page_table cm) r (cached_len r) (device_len r))) (map ?q L))"
    "available_size cm = available_size (cache rs) - sum_list (map extend_len (map ?q L))"
    "length (page_table cm) = length ?t" "\<forall>i. length (page_table cm ! i) = length (?t ! i)"
    "\<forall>i p. (i, p) \<notin> set (targets (map ?q L)) \<longrightarrow> read_cell (page_table cm) i p = read_cell ?t i p"
    "num_pages cm = num_pages (cache rs)" "keeps_handles (cache rs) ?K cm"
    using allocate_paged_ok [OF ok lz rows room'] by blast
  let ?t' = "page_table cm"
  have hd: "held (cache rs) (?q r) (cached_len (?q r))" if "r \<in> set (L @ A)" for r
    using ownsD(5) [OF own that] .
  have free: "(table_idx (?q r), p) \<notin> set (targets (map ?q L))" if r: "r \<in> set (L @ A)" "p < cached_len (?q r)" for r p
  proof
    assume "(table_idx (?q r), p) \<in> set (targets (map ?q L))"
    then obtain x where x: "x \<in> set L" "table_idx (?q x) = table_idx (?q r)" "cached_len (?q x) \<le> p"
      by (auto simp: targets_def)
    have "inj_on (\<lambda>r. table_idx (?q r)) (set (L @ A))" using di by (simp only: distinct_map)
    then have "x = r" by (rule inj_onD) (use x(1,2) r(1) in simp_all)
    then show False using x(3) r(2) by simp
  qed
  have same: "own_pages ?t' (?q r) (cached_len (?q r)) = own_pages ?t (?q r) (cached_len (?q r))"
    if r: "r \<in> set (L @ A)" for r
  proof -
    have "nat (cached_len (?q r)) \<le> W" using hd [OF r] idx(3) [OF r] by (simp add: held_def)
    then have "row_range ?t' (?q r) (int (hl (?q r))) (cached_len (?q r)) = row_range ?t (?q r) (int (hl (?q r))) (cached_len (?q r))"
    proof (intro row_range_same)
      show "read_cell ?t' (table_idx (?q r)) p = read_cell ?t (table_idx (?q r)) p" if "p < cached_len (?q r)" for p
        using a(8) free [OF r that] by blast
    qed (use idx [OF r] a(6,7) in simp_all)
    then show ?thesis by (simp add: own_pages_def)
  qed
  have "private_pages ?t' ?q L ?hi = private_pages ?t ?q L (\<lambda>r. cached_len (?q r)) +
      sum_list (map (\<lambda>r. mset (row_range ?t' r (cached_len r) (device_len r))) (map ?q L))"
  proof (rule sum_private)
    fix r
    assume r: "r \<in> set L"
    then have "int (hl (?q r)) \<le> cached_len (?q r)" using hd [of r] by (simp add: held_def)
    then show "own_pages ?t' (?q r) (?hi r) = own_pages ?t (?q r) (cached_len (?q r)) +
        mset (row_range ?t' (?q r) (cached_len (?q r)) (device_len (?q r)))"
      using row_range_split [of "int (hl (?q r))" "cached_len (?q r)" "dev_len (?q r)" ?t' "?q r"]
        same [of r] lens [OF r] r by (simp add: own_pages_def)
  qed
  moreover have "private_pages ?t' ?q A ?hi = private_pages ?t ?q A (\<lambda>r. cached_len (?q r))"
  proof (rule private_pages_cong)
    fix r
    assume r: "r \<in> set A"
    then have "r \<notin> set L" using ownsD(1) [OF own] by auto
    then show "own_pages ?t' (?q r) (?hi r) = own_pages ?t (?q r) (cached_len (?q r))" using same [of r] r by simp
  qed
  ultimately have pages: "cm_pages cm + private_pages ?t' ?q (L @ A) ?hi = mset [0..num_pages cm - 1]"
    using ownsD(4) [OF own] a(4,9) by (simp add: ac_simps)
  have "held cm (?q r) (?hi r)" if r: "r \<in> set (L @ A)" for r
  proof -
    have "key (?q r) \<in># ?K" using r by (auto simp: lock_keys_def)
    then have "\<exists>h. cache_handle (?q r) = Some h \<and> cm_handle cm h (key (?q r))"
      using hd [OF r] a(10) by (auto simp: held_def keeps_handles_def)
    then show ?thesis using hd [OF r] idx [OF r] a(6,7) lens by (auto simp: held_def)
  qed
  then have "owns (rs\<lparr>cache := cm\<rparr>) (L @ A) ?hi {#} {#}"
    using ownsD(1,2) [OF own] a(2) pages by (simp add: owns_def)
  moreover have "tabs mr W (rs\<lparr>cache := cm\<rparr>) (L @ A) []"
    using tb a(6,7) by (simp add: tabs_def shape_def)
  ultimately show ?thesis using a by (intro exI [of _ cm]) (simp add: comp_def)
qed

section \<open>The batch that is sent\<close>

definition fns_ok :: "'l model_fns \<Rightarrow> bool" where
  "fns_ok fns \<longleftrightarrow>
     (\<forall>n b. length (m_forward fns n b) = length (positions b) \<or>
        is_prefill b \<and> length (m_forward fns n b) = length (reqs b)) \<and>
     (\<forall>n b. length (m_replay fns n b) = length (padded_reqs b)) \<and>
     (\<forall>n ls args. length (m_sample fns n ls args) = length ls)"

lemma concat_upto_length:
  assumes "\<And>r. r \<in> set rs \<Longrightarrow> a r \<le> b r"
  shows "int (length (concat (map (\<lambda>r. [a r..b r - 1]) rs))) = sum_list (map (\<lambda>r. b r - a r) rs)"
  using assms by (induction rs) simp_all

lemma ensure_prepare_workspace_res:
  "\<exists>a b. ensure_prepare_workspace n m s = s\<lparr>prepare_len := a, prepare_write_len := b\<rparr>"
  by (rule exI [of _ "prepare_len (ensure_prepare_workspace n m s)"],
      rule exI [of _ "prepare_write_len (ensure_prepare_workspace n m s)"])
    (simp add: ensure_prepare_workspace_def Let_def)

lemma prepare_batch_ok:
  fixes s :: scheduler and b
  defines "p \<equiv> pad_batch (req_of s) (graph s) b"
  assumes al: "allocate_paged (map (req_of s) (reqs b)) (cache (res s)) = Inr cm"
    and L: "\<And>r. r \<in> set (reqs b) \<Longrightarrow> cached_len (req_of s r) \<le> device_len (req_of s r)"
    and dummy: "cached_len (req_of s (dummy_req (graph s))) \<le> device_len (req_of s (dummy_req (graph s)))"
  shows "\<exists>fi a c. prepare_batch b s = Inr (fi, (set_cache cm s)\<lparr>prepare_len := a, prepare_write_len := c\<rparr>) \<and>
     reqs (fi_batch fi) = reqs b \<and> phase (fi_batch fi) = phase b \<and>
     padded_reqs (fi_batch fi) = padded_reqs p \<and>
     int (length (positions (fi_batch fi))) = sum_list (map (\<lambda>r. extend_len (req_of s r)) (padded_reqs p)) \<and>
     length (fst (write_tuple fi)) = length (reqs b) \<and> length (snd (write_tuple fi)) = length (reqs b)"
proof -
  let ?q = "req_of s"
  have f: "reqs p = reqs b" "phase p = phase b" using pad_batch_fields(1,2) by (simp_all add: p_def)
  obtain k where k: "padded_reqs p = reqs b @ replicate k (dummy_req (graph s))"
    using pad_batch_fields(3) [of ?q "graph s" b] by (auto simp: p_def)
  let ?pos = "concat (map (\<lambda>r. [cached_len (?q r)..device_len (?q r) - 1]) (padded_reqs p))"
  let ?map = "concat (map (\<lambda>r. map (\<lambda>_. table_idx (?q r)) [cached_len (?q r)..device_len (?q r) - 1]) (padded_reqs p))"
  let ?n = "sum_list (map (\<lambda>r. extend_len (?q r)) (padded_reqs p))"
  have le: "cached_len (?q r) \<le> device_len (?q r)" if "r \<in> set (padded_reqs p)" for r
    using that L dummy by (auto simp: k)
  have np: "int (length ?pos) = ?n"
    using concat_upto_length [of "padded_reqs p" "\<lambda>r. cached_len (?q r)" "\<lambda>r. device_len (?q r)"] le
    by (simp add: extend_len_def)
  have "length (concat (map (\<lambda>r. map (\<lambda>_. table_idx (?q r)) [cached_len (?q r)..device_len (?q r) - 1]) xs)) =
      length (concat (map (\<lambda>r. [cached_len (?q r)..device_len (?q r) - 1]) xs))" for xs
    by (induction xs) simp_all
  then have nm: "length ?map = length ?pos" .
  obtain a c where w: "ensure_prepare_workspace ?n (length (reqs b)) (set_cache cm s) =
      (set_cache cm s)\<lparr>prepare_len := a, prepare_write_len := c\<rparr>"
    using ensure_prepare_workspace_res by blast
  let ?s2 = "(set_cache cm s)\<lparr>prepare_len := a, prepare_write_len := c\<rparr>"
  have q2: "req_of (set_cache cm s) = ?q" by (simp add: set_cache_def)
  let ?locs = "map2 (read_cell (page_table cm)) ?map ?pos"
  let ?ids = "map2 (read_cell (token_pool (tables (res ?s2)))) ?map ?pos"
  let ?b2 = "p\<lparr>positions := ?pos, out_loc := ?locs, batch_input_ids := ?ids\<rparr>"
  let ?fi = "\<lparr>fi_batch = ?b2, sample_args = prepare_sampling_args ?q (vocab_size ?s2) ?b2,
      input_tuple = (?map, ?pos),
      write_tuple = (map (\<lambda>r. table_idx (?q r)) (reqs b),
        map (\<lambda>r. if can_decode (?q r) then device_len (?q r) else -1) (reqs b))\<rparr>"
  have "prepare_batch b s = Inr (?fi, ?s2)"
    unfolding prepare_batch_def p_def [symmetric] Let_def f
    by (simp only: al res_bind_Inr q2 w np check_True gather_ok [OF nm] simp_thms)
  then show ?thesis using f np by (intro exI [of _ ?fi] exI [of _ a] exI [of _ c]) simp
qed

section \<open>The forward step\<close>

lemma sampled_ok:
  assumes fns: "fns_ok fns" and g: "graph_ok (graph s)"
    and fb: "reqs fb = reqs b" "phase fb = phase b"
    and pad: "padded_reqs fb = padded_reqs (pad_batch q g' b)" "g' = graph s"
    and pos: "int (length (positions fb)) = sum_list (map (\<lambda>r. extend_len (q r)) (padded_reqs fb))"
    and ext: "\<And>r. r \<in> set (reqs b) \<Longrightarrow> 0 < extend_len (q r)" and dummy: "0 \<le> extend_len (q (dummy_req g'))"
    and ok: "\<And>r. r \<in> set (reqs b) \<Longrightarrow> req_ok (q r)" and d: "distinct (reqs b)"
  shows "\<exists>tokens q'. forward_batch fns n g' fb args q = Inr (tokens, q') \<and>
     length tokens = length (reqs b) \<and> (\<forall>r. r \<notin> set (reqs b) \<longrightarrow> q' r = q r) \<and>
     (\<forall>r\<in>set (reqs b). complete_one (q r) = Inr (q' r))"
proof -
  obtain k where k: "padded_reqs fb = reqs b @ replicate k (dummy_req g')"
    using pad_batch_fields(3) [of q g' b] pad by auto
  have can: "can_use_cuda_graph q g' fb = can_use_cuda_graph q g' b"
    using fb by (simp add: can_use_cuda_graph_def batch_size_def is_decode_def)
  have bs: "batch_size fb = length (reqs b)" using fb by (simp add: batch_size_def)
  have ge: "int (length rs) \<le> sum_list (map (\<lambda>r. extend_len (q r)) rs)" if "set rs \<subseteq> set (reqs b)" for rs
    using that ext by (induction rs) force+
  have "0 \<le> sum_list (map (\<lambda>r. extend_len (q r)) (replicate k (dummy_req g')))"
    using dummy by (simp add: sum_list_replicate)
  then have np: "length (reqs b) \<le> length (positions fb)"
    using pos ge [of "reqs b"] unfolding k map_append sum_list_append by simp
  obtain logits where l: "(if can_use_cuda_graph q g' fb then
        res_bind (check (int (padded_size fb) \<in> captured g') (TorchCheck ''No CUDA graph captured for batch size''))
          (\<lambda>_. Inr (take (batch_size fb) (m_replay fns n fb)))
      else Inr (m_forward fns n fb)) = Inr logits"
    "length (reqs b) \<le> length logits"
    "is_prefill fb \<Longrightarrow> length logits = length (reqs b) \<or> length logits = length (positions fb)"
  proof (cases "can_use_cuda_graph q g' fb")
    case True
    then have c: "int (padded_size fb) \<in> captured g'"
      using pad_batch_captured(1) [of g' q b] g pad can by (simp add: padded_size_def)
    have "length (m_replay fns n fb) = length (padded_reqs fb)" using fns by (simp add: fns_ok_def)
    then have "length (take (batch_size fb) (m_replay fns n fb)) = length (reqs b)" using k bs by simp
    then show ?thesis using that [of "take (batch_size fb) (m_replay fns n fb)"] True c by simp
  next
    case False
    have "length (m_forward fns n fb) = length (positions fb) \<or> length (m_forward fns n fb) = length (reqs b)"
      using fns fb(1) unfolding fns_ok_def by metis
    then show ?thesis using that [of "m_forward fns n fb"] False np by auto
  qed
  obtain sel where sel: "select_sampling_logits q fb logits = Inr sel" "length sel = length (reqs b)"
  proof (cases "is_prefill fb \<and> length logits \<noteq> length (reqs b)")
    case True
    then have nl: "length logits = length (positions fb)" using l(3) by blast
    let ?f = "\<lambda>r. extend_len (q r)"
    let ?is = "map (\<lambda>i. 0 + sum_list (map ?f (take (Suc i) (reqs b))) - 1) [0..<length (reqs b)]"
    have li: "last_indices q (reqs b) 0 = Inr ?is" by (rule last_indices_ok) (use ext in blast)
    have "0 \<le> x \<and> x < int (length logits)" if x: "x \<in> set ?is" for x
    proof -
      obtain i where i: "i < length (reqs b)" "x = sum_list (map ?f (take (Suc i) (reqs b))) - 1"
        using x unfolding set_map by (elim imageE) simp
      have sub: "set (take m (reqs b)) \<subseteq> set (reqs b)" "set (drop m (reqs b)) \<subseteq> set (reqs b)" for m
        by (simp_all add: set_take_subset set_drop_subset)
      have "sum_list (map ?f (reqs b)) =
          sum_list (map ?f (take (Suc i) (reqs b))) + sum_list (map ?f (drop (Suc i) (reqs b)))"
        by (metis append_take_drop_id map_append sum_list_append)
      moreover have "int (length (take (Suc i) (reqs b))) \<le> sum_list (map ?f (take (Suc i) (reqs b)))"
        "int (length (drop (Suc i) (reqs b))) \<le> sum_list (map ?f (drop (Suc i) (reqs b)))"
        using ge sub by blast+
      moreover have "sum_list (map ?f (reqs b)) \<le> int (length (positions fb))"
        using pos \<open>0 \<le> sum_list (map (\<lambda>r. extend_len (q r)) (replicate k (dummy_req g')))\<close>
        unfolding k map_append sum_list_append by linarith
      ultimately show ?thesis using i nl by simp
    qed
    then have "index_select logits ?is = Inr (map (\<lambda>i. logits ! nat i) ?is)"
      unfolding index_select_def by (simp only: list_all_iff) simp
    then show ?thesis
      using that [of "map (\<lambda>i. logits ! nat i) ?is"] True li bs fb by (simp add: select_sampling_logits_def)
  next
    case False
    then show ?thesis
      using that [of "take (length (reqs b)) logits"] l(2) bs by (auto simp: select_sampling_logits_def)
  qed
  obtain q' where q': "res_fold complete_req (reqs b) q = Inr q'" "\<forall>r. r \<notin> set (reqs b) \<longrightarrow> q' r = q r"
    "\<forall>r\<in>set (reqs b). complete_one (q r) = Inr (q' r)"
    using complete_fold [OF d] ok by blast
  have "length (m_sample fns n sel args) = length (reqs b)" using fns sel(2) by (simp add: fns_ok_def)
  moreover have "forward_batch fns n g' fb args q = Inr (m_sample fns n sel args, q')"
    unfolding forward_batch_def l(1) by (simp add: sel(1) fb(1) q'(1))
  ultimately show ?thesis using q' by blast
qed

text \<open>What no step changes, and what the forward step leaves alone.\<close>

definition frame :: "scheduler \<Rightarrow> scheduler \<Rightarrow> bool" where
  "frame s s' \<longleftrightarrow> max_seq_len s' = max_seq_len s \<and> eos_token_id s' = eos_token_id s \<and>
     enable_overlap_scheduling s' = enable_overlap_scheduling s \<and> graph s' = graph s \<and>
     prefill_budget s' = prefill_budget s \<and> pending_fwd s' = pending_fwd s \<and>
     suppressed_reqs s' = suppressed_reqs s \<and> deferred_free_reqs s' = deferred_free_reqs s \<and>
     deferred_resource_actions s' = deferred_resource_actions s \<and>
     dm_page_size (decode_mgr s') = dm_page_size (decode_mgr s) \<and>
     next_ref (res s) \<le> next_ref (res s') \<and>
     num_pages (cache (res s')) = num_pages (cache (res s))"

lemma frame_refl [simp]: "frame s s" by (simp add: frame_def)

lemma frame_trans: "frame s s' \<Longrightarrow> frame s' s'' \<Longrightarrow> frame s s''" by (simp add: frame_def)

definition advanced :: "req \<Rightarrow> req" where
  "advanced r = r\<lparr>cached_len := dev_len r, dev_len := dev_len r + 1\<rparr>"

lemma forward_ok:
  assumes own: "accts (res s) (L @ A)" and tb: "tabs mr W (res s) (L @ A) []"
    and lz: "\<not> lazy_free_active (cache (res s))" and g: "graph_ok (graph s)" and fns: "fns_ok fns"
    and b: "reqs b = L"
    and L: "\<And>r. r \<in> set L \<Longrightarrow> req_ok (req_of s r) \<and> dev_len (req_of s r) \<le> int W \<and>
      cached_len (req_of s r) < dev_len (req_of s r) \<and> dev_len (req_of s r) < max_dev_len (req_of s r)"
    and room: "sum_list (map (\<lambda>r. extend_len (req_of s r)) L) \<le> available_size (cache (res s))"
    and dummy: "req_ok (req_of s (dummy_req (graph s)))"
  shows "\<exists>fi s2 tokens s3. prepare_batch b s = Inr (fi, s2) \<and> forward fns fi s2 = Inr (tokens, s3) \<and>
     reqs (fi_batch fi) = L \<and> phase (fi_batch fi) = phase b \<and> length tokens = length L \<and>
     frame s s3 \<and> prefill_mgr s3 = prefill_mgr s \<and> freed_reqs s3 = freed_reqs s \<and>
     next_ref (res s3) = next_ref (res s) \<and> \<not> lazy_free_active (cache (res s3)) \<and>
     available_size (cache (res s3)) =
       available_size (cache (res s)) - sum_list (map (\<lambda>r. extend_len (req_of s r)) L) \<and>
     accts (res s3) (L @ A) \<and> tabs mr W (res s3) (L @ A) [] \<and>
     (\<forall>r. r \<notin> set L \<longrightarrow> req_of s3 r = req_of s r) \<and> (\<forall>r\<in>set L. req_of s3 r = advanced (req_of s r)) \<and>
     decode_mgr s3 = filter_reqs (req_of s3) L (decode_mgr s)"
proof -
  let ?q = "req_of s" let ?g = "graph s"
  have L1: "req_ok (?q r)" "0 < extend_len (?q r)" "device_len (?q r) = dev_len (?q r)"
    "cached_len (?q r) \<le> device_len (?q r)" "extend_len (?q r) = dev_len (?q r) - cached_len (?q r)" if "r \<in> set L" for r
    using L [OF that] req_ok_lens [of "?q r"] by auto
  have d0: "cached_len (?q (dummy_req ?g)) \<le> device_len (?q (dummy_req ?g))" "0 \<le> extend_len (?q (dummy_req ?g))"
    using dummy req_ok_lens [OF dummy] by (simp_all add: req_ok_def)
  obtain cm where cm: "allocate_paged (map ?q L) (cache (res s)) = Inr cm" "\<not> lazy_free_active cm"
    "num_pages cm = num_pages (cache (res s))"
    "available_size cm = available_size (cache (res s)) - sum_list (map (\<lambda>r. extend_len (?q r)) L)"
    "owns ((res s)\<lparr>cache := cm\<rparr>) (L @ A) (\<lambda>r. if r \<in> set L then dev_len (?q r) else cached_len (?q r)) {#} {#}"
    "tabs mr W ((res s)\<lparr>cache := cm\<rparr>) (L @ A) []"
    using allocate_accts [OF own tb lz _ room] L by blast
  obtain fi a c where p: "prepare_batch b s = Inr (fi, (set_cache cm s)\<lparr>prepare_len := a, prepare_write_len := c\<rparr>)"
    "reqs (fi_batch fi) = reqs b" "phase (fi_batch fi) = phase b"
    "padded_reqs (fi_batch fi) = padded_reqs (pad_batch ?q ?g b)"
    "int (length (positions (fi_batch fi))) = sum_list (map (\<lambda>r. extend_len (?q r)) (padded_reqs (pad_batch ?q ?g b)))"
    "length (fst (write_tuple fi)) = length (reqs b)" "length (snd (write_tuple fi)) = length (reqs b)"
    using prepare_batch_ok [of s b cm] cm(1) b L1(4) d0(1) by blast
  let ?s2 = "(set_cache cm s)\<lparr>prepare_len := a, prepare_write_len := c\<rparr>"
  have q2: "req_of ?s2 = ?q" "graph ?s2 = ?g" by (simp_all add: set_cache_def)
  have dL: "distinct L" using ownsD(1) [OF own] by simp
  obtain tokens q' where f: "forward_batch fns (forwards ?s2) ?g (fi_batch fi) (sample_args fi) ?q = Inr (tokens, q')"
    "length tokens = length (reqs b)" "\<forall>r. r \<notin> set (reqs b) \<longrightarrow> q' r = ?q r"
    "\<forall>r\<in>set (reqs b). complete_one (?q r) = Inr (q' r)"
    using sampled_ok [OF fns g p(2,3,4) refl p(5) [folded p(4)], of "forwards ?s2" "sample_args fi"] b L1 d0(2) dL by auto
  have adv: "q' r = advanced (?q r)" if "r \<in> set L" for r
    using f(4) that b complete_one_eq [OF L1(1) [OF that]] L [OF that] by (simp add: advanced_def)
  let ?tp = "fold write_cell (zip (fst (write_tuple fi)) (zip (snd (write_tuple fi)) tokens)) (token_pool (tables (res s)))"
  let ?rs3 = "(res s)\<lparr>cache := cm, tables := (tables (res s))\<lparr>token_pool := ?tp\<rparr>, req_at := q'\<rparr>"
  let ?s3 = "?s2\<lparr>res := ?rs3, decode_mgr := filter_reqs q' L (decode_mgr s), forwards := Suc (forwards s)\<rparr>"
  have wr: "write_token_pool (fst (write_tuple fi)) (snd (write_tuple fi)) tokens (token_pool (tables (res s))) = Inr ?tp"
    using p(6,7) f(2) by (simp add: write_token_pool_def)
  have "forward fns fi ?s2 = Inr (tokens, ?s3)"
    unfolding forward_def q2 f(1)
    using wr p(2) b by (simp add: set_cache_def Let_def)
  moreover have "accts ?rs3 (L @ A)"
  proof -
    have same: "key (q' r) = key (?q r) \<and> cache_handle (q' r) = cache_handle (?q r) \<and>
        input_ids (q' r) = input_ids (?q r) \<and> table_idx (q' r) = table_idx (?q r)" for r
      using f(3) b adv by (cases "r \<in> set L") (auto simp: advanced_def key_def hl_def)
    have "owns ?rs3 (L @ A) (\<lambda>r. if r \<in> set L then dev_len (?q r) else cached_len (?q r)) {#} {#}"
    proof (rule owns_cong [OF cm(5)], goal_cases)
      case (3 r)
      then have "held cm (?q r) (if r \<in> set L then dev_len (?q r) else cached_len (?q r))"
        using ownsD(5) [OF cm(5)] by simp
      then have "int (hl (?q r)) \<le> cached_len (q' r) \<and>
          cached_len (q' r) \<le> (if r \<in> set L then dev_len (?q r) else cached_len (?q r))"
        using f(3) b adv by (cases "r \<in> set L") (auto simp: advanced_def held_def)
      then show ?case using same [of r] by simp
    qed simp_all
    then show ?thesis
      by (rule owns_hi) (use f(3) b adv in \<open>auto simp: advanced_def\<close>)
  qed
  moreover have "tabs mr W ?rs3 (L @ A) []"
  proof (rule tabs_res [OF cm(6)])
    show "table_idx (req_at ?rs3 r) = table_idx (req_at ((res s)\<lparr>cache := cm\<rparr>) r)" for r
      using f(3) b adv by (cases "r \<in> set L") (auto simp: advanced_def)
    show "shape mr W (token_pool (tables ?rs3))"
      using cm(6) by (simp add: tabs_def shape_def fold_write_shape)
  qed (use cm(6) in \<open>auto simp: tabs_def\<close>)
  ultimately show ?thesis
    using p(1-3) f(2,3) adv b cm(2-4)
    by (intro exI [of _ fi] exI [of _ ?s2] exI [of _ tokens] exI [of _ ?s3]) (simp add: frame_def set_cache_def)
qed

end
