(* ===== verification/SchedProcess.thy ===== *)
theory SchedProcess
  imports SchedForward
begin

text \<open>
  The invariant between and within steps, and the processing of the output: every request of the
  batch gets its token, is released when it is finished, and otherwise goes on.
\<close>

section \<open>The invariant\<close>

abbreviation running :: "scheduler \<Rightarrow> nat list" where
  "running s \<equiv> running_reqs (decode_mgr s)"

abbreviation cut :: "scheduler \<Rightarrow> nat list" where
  "cut s \<equiv> chunk_refs (prefill_mgr s)"

text \<open>What the configuration and the mode of the scheduler give.\<close>

definition conf :: "int \<Rightarrow> nat \<Rightarrow> scheduler \<Rightarrow> bool" where
  "conf mr W s \<longleftrightarrow> \<not> enable_overlap_scheduling s \<and> pending_fwd s = None \<and> suppressed_reqs s = {} \<and>
     deferred_resource_actions s = [] \<and> dm_page_size (decode_mgr s) = 1 \<and> 0 < prefill_budget s \<and> 0 < mr \<and>
     graph_ok (graph s) \<and> dummy_req (graph s) < next_ref (res s) \<and> req_ok (req_of s (dummy_req (graph s))) \<and>
     max_seq_len s \<le> int W \<and> max_seq_len s \<le> num_pages (cache (res s))"

text \<open>
  \<open>U\<close> are the running requests whose token was appended, \<open>T\<close> those of the batch that still have
  to be processed.
\<close>

definition reqs_ok :: "scheduler \<Rightarrow> nat list \<Rightarrow> nat list \<Rightarrow> bool" where
  "reqs_ok s U T \<longleftrightarrow>
     (\<forall>r\<in>set U. run_ok (max_seq_len s) (req_of s r)) \<and> (\<forall>r\<in>set T. fresh_ok (max_seq_len s) (req_of s r)) \<and>
     distinct (running s) \<and> set (running s) = set U \<union> {r\<in>set T. can_decode (req_of s r)} \<and>
     dummy_req (graph s) \<notin> set (U @ T)"

definition pending_ok :: "scheduler \<Rightarrow> bool" where
  "pending_ok s \<longleftrightarrow> dummy_req (graph s) \<notin> set (cut s) \<and>
     (\<forall>p\<in>set (prefill_mgr s). pend_ok (nat (max_seq_len s)) p \<and>
        (\<forall>c. p_chunked_req p = Some c \<longrightarrow> chunk_ok p (req_of s c))) \<and>
     (\<forall>p\<in>set (tl (prefill_mgr s)). p_chunked_req p = None)"

definition uids :: "scheduler \<Rightarrow> nat list \<Rightarrow> nat list" where
  "uids s A = map (\<lambda>r. req_id (req_of s r)) A @ map p_uid (prefill_mgr s)"

definition names_ok :: "scheduler \<Rightarrow> nat list \<Rightarrow> bool" where
  "names_ok s A \<longleftrightarrow> distinct (uids s A) \<and> freed_reqs s \<inter> set (uids s A) = {}"

abbreviation demand_of :: "scheduler \<Rightarrow> int" where
  "demand_of s \<equiv> demand (req_of s) (running s) (prefill_mgr s)"

abbreviation work_of :: "scheduler \<Rightarrow> int" where
  "work_of s \<equiv> work (req_of s) (running s) (prefill_mgr s)"

definition sinv :: "int \<Rightarrow> nat \<Rightarrow> scheduler \<Rightarrow> nat list \<Rightarrow> nat list \<Rightarrow> bool" where
  "sinv mr W s U T \<longleftrightarrow> conf mr W s \<and> reqs_ok s U T \<and> pending_ok s \<and> names_ok s (U @ T) \<and>
     accts (res s) (U @ T @ cut s) \<and> tabs mr W (res s) (U @ T @ cut s) [] \<and>
     demand_of s \<le> cm_room (cache (res s))"

lemma sinvD:
  assumes "sinv mr W s U T"
  shows "conf mr W s" "reqs_ok s U T" "pending_ok s" "names_ok s (U @ T)"
    "accts (res s) (U @ T @ cut s)" "tabs mr W (res s) (U @ T @ cut s) []"
    "demand_of s \<le> cm_room (cache (res s))"
  using assms by (simp_all add: sinv_def)

lemma confD:
  assumes "conf mr W s"
  shows "\<not> enable_overlap_scheduling s" "pending_fwd s = None" "suppressed_reqs s = {}"
    "deferred_resource_actions s = []" "pending_uses_req uid s = False"
  using assms by (simp_all add: conf_def pending_uses_req_def)

lemma conf_frame:
  assumes "conf mr W s" "frame s s'" "req_of s' (dummy_req (graph s)) = req_of s (dummy_req (graph s))"
  shows "conf mr W s'"
  using assms by (simp add: conf_def frame_def)

lemma remain_nonneg: "run_ok M r \<or> fresh_ok M r \<Longrightarrow> 0 \<le> remain_len r"
  by (auto simp: run_ok_def fresh_ok_def req_ok_lens)

lemma sum_list_filter_le:
  fixes f :: "'a \<Rightarrow> int"
  assumes "\<And>x. x \<in> set xs \<Longrightarrow> 0 \<le> f x"
  shows "sum_list (map f (filter P xs)) \<le> sum_list (map f xs)"
  using assms
proof (induction xs)
  case (Cons x xs)
  then have "0 \<le> f x" "sum_list (map f (filter P xs)) \<le> sum_list (map f xs)" by simp_all
  then show ?case by (cases "P x") simp_all
qed simp

section \<open>One token\<close>

lemma set_req_accts:
  assumes own: "accts (res s) A" and tb: "tabs mr W (res s) A []" and r: "r \<in> set A"
    and q: "cache_handle q = cache_handle (req_of s r)" "table_idx q = table_idx (req_of s r)"
      "cached_len q = cached_len (req_of s r)" "input_ids q = input_ids (req_of s r) @ ids"
  shows "accts (res (set_req r q s)) A" "tabs mr W (res (set_req r q s)) A []"
proof -
  have "hl (req_of s r) \<le> length (input_ids (req_of s r))"
    using ownsD(5) [OF own r] by (simp add: held_def)
  then have k: "key q = key (req_of s r)" "hl q = hl (req_of s r)"
    by (simp_all add: key_def hl_def q)
  have "owns (res (set_req r q s)) A (\<lambda>x. cached_len (req_of s x)) {#} {#}"
  proof (rule owns_cong [OF own], goal_cases)
    case (3 x)
    have "held (cache (res s)) (req_of s x) (cached_len (req_of s x))" using ownsD(5) [OF own 3] .
    then show ?case by (cases "x = r") (simp_all add: set_req_def k q held_def)
  qed (simp_all add: set_req_def)
  then show "accts (res (set_req r q s)) A"
    by (rule owns_hi) (simp add: set_req_def q)
  show "tabs mr W (res (set_req r q s)) A []"
    by (rule tabs_res [OF tb]) (use tb q in \<open>auto simp: tabs_def set_req_def\<close>)
qed

text \<open>The token that a request of the batch gets.\<close>

definition token_ends :: "scheduler \<Rightarrow> nat \<Rightarrow> int \<Rightarrow> bool" where
  "token_ends s r tok \<longleftrightarrow> \<not> can_decode (req_of s r) \<or>
     \<not> ignore_eos (sampling_params (req_of s r)) \<and> eos_token_id s \<ge> 0 \<and> tok = eos_token_id s"

definition appended :: "int \<Rightarrow> req \<Rightarrow> req" where
  "appended tok r = r\<lparr>input_ids := input_ids r @ [tok]\<rparr>"

lemma process_one_eq:
  assumes c: "conf mr W s" and f: "fresh_ok M (req_of s r)"
  shows "process_one prefill r tok None s =
    res_bind
      (if token_ends s r tok then
         free_req_resources r ((set_req r (appended tok (req_of s r)) s)\<lparr>decode_mgr :=
           (decode_mgr s)\<lparr>running_reqs := filter (\<lambda>x. req_id (req_of s x) \<noteq> req_id (req_of s r)) (running s)\<rparr>\<rparr>)
       else if prefill then sched_cache_req r False (set_req r (appended tok (req_of s r)) s)
       else Inr (set_req r (appended tok (req_of s r)) s))
      (\<lambda>s3. Inr ([\<lparr>msg_uid = req_id (req_of s r), msg_next_token = tok, msg_finished = token_ends s r tok\<rparr>], s3))"
proof -
  let ?q = "appended tok (req_of s r)" let ?s1 = "set_req r ?q s"
  have ok: "req_ok (req_of s r)" "int (length (input_ids (req_of s r))) < dev_len (req_of s r)"
    using f by (simp_all add: fresh_ok_def)
  have ap: "append_host_token tok (req_of s r) = Inr ?q"
    using append_host_token_eq [OF ok(1)] ok(2) by (simp add: appended_def)
  have q: "can_decode ?q = can_decode (req_of s r)"
    using f by (simp add: appended_def can_decode_def remain_len_def device_len_def max_device_len_def fresh_ok_def req_ok_def)
  have te: "(\<not> can_decode ?q \<or> \<not> ignore_eos (sampling_params ?q) \<and> eos_token_id ?s1 \<ge> 0 \<and> tok = eos_token_id ?s1) =
      token_ends s r tok"
    by (simp add: token_ends_def q) (simp add: appended_def set_req_def)
  have ids: "req_id (req_of ?s1 x) = req_id (req_of s x)" for x
    by (simp add: set_req_def appended_def)
  have dm: "decode_mgr ?s1 = decode_mgr s" by (simp add: set_req_def)
  have rm: "remove_req (req_of ?s1) r (decode_mgr ?s1) =
      (decode_mgr s)\<lparr>running_reqs := filter (\<lambda>x. req_id (req_of s x) \<noteq> req_id (req_of s r)) (running s)\<rparr>"
    by (simp only: remove_req_def ids dm)
  have p: "pending_uses_req u (?s1\<lparr>decode_mgr := d\<rparr>) = False" "pending_uses_req u ?s1 = False" for u d
    using c by (simp_all add: conf_def pending_uses_req_def set_req_def)
  have o: "\<not> enable_overlap_scheduling ?s1" using c by (simp add: conf_def set_req_def)
  show ?thesis
    unfolding process_one_def Let_def ap res_bind_Inr option.case te rm p
    using c o by (simp add: conf_def free_req_resources_or_defer_def cache_req_or_defer_def set_req_def)
qed

lemma demand_filter:
  assumes "\<And>r. r \<in> set D \<Longrightarrow> 0 \<le> remain_len (q r)"
  shows "demand q (filter f D) P \<le> demand q D P" "work q (filter f D) P \<le> work q D P"
  using sum_list_filter_le [of D "\<lambda>r. remain_len (q r)" f] assms by (simp_all add: demand_def work_def)

lemma running_remain: "reqs_ok s U T \<Longrightarrow> r \<in> set (running s) \<Longrightarrow> 0 \<le> remain_len (req_of s r)"
  using remain_nonneg by (auto simp: reqs_ok_def)

text \<open>What a step of the loop leaves as it is.\<close>

definition calm :: "scheduler \<Rightarrow> scheduler \<Rightarrow> bool" where
  "calm s s' \<longleftrightarrow> frame s s' \<and> prefill_mgr s' = prefill_mgr s \<and> work_of s' \<le> work_of s \<and>
     lazy_free_active (cache (res s')) = lazy_free_active (cache (res s))"

lemma calm_trans: "calm s s' \<Longrightarrow> calm s' s'' \<Longrightarrow> calm s s''"
  by (auto simp: calm_def intro: frame_trans)

lemma process_finished:
  assumes inv: "sinv mr W s U (r # T)" and q: "q = appended tok (req_of s r)"
    and s2: "s2 = (set_req r q s)\<lparr>decode_mgr :=
      (decode_mgr s)\<lparr>running_reqs := filter (\<lambda>x. req_id (req_of s x) \<noteq> req_id (req_of s r)) (running s)\<rparr>\<rparr>"
  shows "\<exists>s'. free_req_resources r s2 = Inr s' \<and> sinv mr W s' U T \<and> calm s s' \<and>
    (\<forall>x. x \<noteq> r \<longrightarrow> req_of s' x = req_of s x) \<and> req_of s' r = q"
proof -
  note i = sinvD [OF inv]
  let ?A = "U @ (r # T) @ cut s"
  have d: "distinct ?A" using ownsD(1) [OF i(5)] .
  then have nr: "r \<notin> set U" "r \<notin> set T" "r \<notin> set (cut s)" by auto
  have a: "accts (res s2) ?A" "tabs mr W (res s2) ?A []"
    using set_req_accts [OF i(5,6), of r q "[tok]"] by (simp_all add: s2 q appended_def)
  have qs: "req_of s2 = (req_of s)(r := q)" by (simp add: s2 set_req_def)
  have id: "req_id (req_of s2 r) = req_id (req_of s r)" by (simp add: qs q appended_def)
  have nm: "distinct (uids s (U @ r # T))" "freed_reqs s \<inter> set (uids s (U @ r # T)) = {}"
    using i(4) by (simp_all add: names_ok_def)
  have nf: "req_id (req_of s2 r) \<notin> freed_reqs s2"
    using nm(2) id by (auto simp: uids_def s2 set_req_def)
  obtain rs' where f: "free_req_resources r s2 =
       Inr (s2\<lparr>freed_reqs := insert (req_id (req_of s2 r)) (freed_reqs s2), res := rs'\<rparr>)"
    "req_at rs' = req_of s2" "next_ref rs' = next_ref (res s2)" "accts rs' (remove1 r ?A)"
    "tabs mr W rs' (remove1 r ?A) []" "cm_room (cache (res s2)) \<le> cm_room (cache rs')"
    "num_pages (cache rs') = num_pages (cache (res s2))"
    "lazy_free_active (cache rs') = lazy_free_active (cache (res s2))"
    using free_req_resources_ok [OF a _ nf] by auto
  let ?s' = "s2\<lparr>freed_reqs := insert (req_id (req_of s2 r)) (freed_reqs s2), res := rs'\<rparr>"
  have q': "req_of ?s' x = (if x = r then q else req_of s x)" for x using f(2) qs by simp
  have rm: "remove1 r ?A = U @ T @ cut s" using nr by (simp add: remove1_append)
  have pm: "prefill_mgr ?s' = prefill_mgr s" "graph ?s' = graph s" "max_seq_len ?s' = max_seq_len s"
    "running ?s' = filter (\<lambda>x. req_id (req_of s x) \<noteq> req_id (req_of s r)) (running s)"
    by (simp_all add: s2 set_req_def)
  have fr: "frame s ?s'" using f(3,7) by (simp add: frame_def s2 set_req_def)
  have other: "req_id (req_of s x) \<noteq> req_id (req_of s r)" if "x \<in> set (U @ T)" for x
    using nm(1) that by (auto simp: uids_def) (metis image_eqI)+
  have dm: "dummy_req (graph s) \<noteq> r" using i(2) by (auto simp: reqs_ok_def)
  have "conf mr W ?s'"
    by (rule conf_frame [OF i(1) fr]) (use dm q' in simp)
  moreover have "reqs_ok ?s' U T"
  proof -
    have "set (running ?s') = set U \<union> {x\<in>set T. can_decode (req_of s x)}"
      using i(2) other unfolding pm by (auto simp: reqs_ok_def)
    then show ?thesis using i(2) nr unfolding reqs_ok_def pm q' by auto
  qed
  moreover have "pending_ok ?s'"
    using i(3) nr(3) unfolding pending_ok_def pm q' by (auto simp: chunk_refs_mem)
  moreover have "names_ok ?s' (U @ T)"
  proof -
    have "map (\<lambda>x. req_id (req_of ?s' x)) (U @ T) = map (\<lambda>x. req_id (req_of s x)) (U @ T)"
      unfolding q' using nr by auto
    then have "uids ?s' (U @ T) = uids s (U @ T)" by (simp only: uids_def pm)
    moreover have "freed_reqs ?s' = insert (req_id (req_of s r)) (freed_reqs s)"
      using id by (simp add: s2 set_req_def)
    moreover have "distinct (uids s (U @ T))" "insert (req_id (req_of s r)) (freed_reqs s) \<inter> set (uids s (U @ T)) = {}"
      using nm by (auto simp: uids_def)
    ultimately show ?thesis by (simp only: names_ok_def simp_thms)
  qed
  moreover have "demand_of ?s' \<le> demand_of s \<and> work_of ?s' \<le> work_of s"
  proof -
    have nD: "r \<notin> set (running ?s')" unfolding pm by simp
    have "demand (req_of ?s') (running ?s') (prefill_mgr s) = demand (req_of s) (running ?s') (prefill_mgr s)"
      "work (req_of ?s') (running ?s') (prefill_mgr s) = work (req_of s) (running ?s') (prefill_mgr s)"
      using nD nr(3) q' by (intro demand_cong; metis)+
    then show ?thesis
      using demand_filter [of "running s" "req_of s"] running_remain [OF i(2)] unfolding pm by simp
  qed
  moreover have "cm_room (cache (res s)) = cm_room (cache (res s2))" by (simp add: s2 set_req_def)
  ultimately have "sinv mr W ?s' U T" "calm s ?s'"
    using f(4-8) rm i(7) fr pm(1) by (simp_all add: sinv_def calm_def) (simp_all add: s2 set_req_def)
  then show ?thesis using f(1) q' by auto
qed

lemma process_goes_on:
  assumes inv: "sinv mr W s U (r # T)" and can: "can_decode (req_of s r)"
    and q: "q = (appended tok (req_of s r))\<lparr>cache_handle := h\<rparr>"
    and rs': "req_at rs' = (req_of s)(r := q)" "next_ref rs' = next_ref (res s)" "accts rs' (U @ (r # T) @ cut s)"
      "tabs mr W rs' (U @ (r # T) @ cut s) []" "cm_room (cache (res s)) \<le> cm_room (cache rs')"
      "num_pages (cache rs') = num_pages (cache (res s))"
      "lazy_free_active (cache rs') = lazy_free_active (cache (res s))"
  shows "sinv mr W (s\<lparr>res := rs'\<rparr>) (U @ [r]) T" "calm s (s\<lparr>res := rs'\<rparr>)"
proof -
  note i = sinvD [OF inv]
  let ?s' = "s\<lparr>res := rs'\<rparr>"
  have "distinct (U @ (r # T) @ cut s)" using ownsD(1) [OF i(5)] .
  then have nr: "r \<notin> set U" "r \<notin> set T" "r \<notin> set (cut s)" by auto
  have q': "req_of ?s' x = (if x = r then q else req_of s x)" for x using rs'(1) by simp
  have pm: "prefill_mgr ?s' = prefill_mgr s" "graph ?s' = graph s" "max_seq_len ?s' = max_seq_len s"
    "running ?s' = running s" "freed_reqs ?s' = freed_reqs s"
    by simp_all
  have fr: "frame s ?s'" using rs'(2,6) by (simp add: frame_def)
  have fresh: "fresh_ok (max_seq_len s) (req_of s r)" using i(2) by (simp add: reqs_ok_def)
  have rn: "run_ok (max_seq_len s) q" "remain_len q = remain_len (req_of s r)" "can_decode q"
  proof -
    have "dev_len (req_of s r) < max_dev_len (req_of s r)" using fresh_can_decode [OF fresh] can by simp
    then show "run_ok (max_seq_len s) q" using fresh by (simp add: q appended_def run_ok_def fresh_ok_def req_ok_def)
    then show "can_decode q" by (rule run_can_decode)
    show "remain_len q = remain_len (req_of s r)"
      using fresh by (simp add: q appended_def remain_len_def device_len_def max_device_len_def fresh_ok_def req_ok_def)
  qed
  have dm: "dummy_req (graph s) \<noteq> r" using i(2) by (auto simp: reqs_ok_def)
  have w: "demand_of ?s' = demand_of s" "work_of ?s' = work_of s"
    unfolding pm by (rule demand_cong; use q' rn(2) nr(3) in metis)+
  have "conf mr W ?s'"
    by (rule conf_frame [OF i(1) fr]) (use dm q' in simp)
  moreover have "reqs_ok ?s' (U @ [r]) T"
    using i(2) nr rn(1) can unfolding reqs_ok_def pm q' by auto
  moreover have "pending_ok ?s'"
    using i(3) nr(3) unfolding pending_ok_def pm q' by (auto simp: chunk_refs_mem)
  moreover have "names_ok ?s' ((U @ [r]) @ T)"
  proof -
    have "req_id (req_of ?s' x) = req_id (req_of s x)" for x
      unfolding q' by (simp add: q appended_def)
    then have "uids ?s' ((U @ [r]) @ T) = uids s (U @ r # T)" by (simp add: uids_def)
    then show ?thesis using i(4) by (simp add: names_ok_def)
  qed
  ultimately show "sinv mr W ?s' (U @ [r]) T"
    using rs'(3-5) i(7) w unfolding sinv_def pm by simp
  show "calm s ?s'" using fr w rs'(7) by (simp add: calm_def)
qed

lemma process_one_ok:
  assumes inv: "sinv mr W s U (r # T)"
  shows "\<exists>s' U'. process_one prefill r tok None s =
       Inr ([\<lparr>msg_uid = req_id (req_of s r), msg_next_token = tok, msg_finished = token_ends s r tok\<rparr>], s') \<and>
     sinv mr W s' U' T \<and> calm s s' \<and> (\<forall>x. x \<noteq> r \<longrightarrow> req_of s' x = req_of s x) \<and>
     U' = (if token_ends s r tok then U else U @ [r]) \<and> req_id (req_of s' r) = req_id (req_of s r)"
proof -
  note i = sinvD [OF inv]
  let ?q = "appended tok (req_of s r)" let ?A = "U @ (r # T) @ cut s" let ?s1 = "set_req r ?q s"
  have fresh: "fresh_ok (max_seq_len s) (req_of s r)" using i(2) by (simp add: reqs_ok_def)
  note eq = process_one_eq [OF i(1) fresh, of prefill tok]
  have a: "accts (res ?s1) ?A" "tabs mr W (res ?s1) ?A []"
    using set_req_accts [OF i(5,6), of r ?q "[tok]"] by (simp_all add: appended_def)
  have s1: "?s1 = s\<lparr>res := res ?s1\<rparr>" "req_of ?s1 = (req_of s)(r := ?q)" "next_ref (res ?s1) = next_ref (res s)"
    "cache (res ?s1) = cache (res s)"
    by (simp_all add: set_req_def)
  consider "token_ends s r tok" | "\<not> token_ends s r tok" "prefill" | "\<not> token_ends s r tok" "\<not> prefill" by blast
  then show ?thesis
  proof cases
    case 1
    let ?s2 = "?s1\<lparr>decode_mgr := (decode_mgr s)\<lparr>running_reqs :=
        filter (\<lambda>x. req_id (req_of s x) \<noteq> req_id (req_of s r)) (running s)\<rparr>\<rparr>"
    obtain s' where s': "free_req_resources r ?s2 = Inr s'" "sinv mr W s' U T" "calm s s'"
      "\<forall>x. x \<noteq> r \<longrightarrow> req_of s' x = req_of s x" "req_of s' r = ?q"
      using process_finished [OF inv refl refl] by blast
    then show ?thesis using eq 1 by (simp add: appended_def)
  next
    case 2
    then have can: "can_decode (req_of s r)" by (simp add: token_ends_def)
    have "cached_len (req_of ?s1 r) \<le> int (length (input_ids (req_of ?s1 r)))"
      using fresh unfolding s1(2) by (simp add: appended_def fresh_ok_def)
    then obtain rs' h where c: "sched_cache_req r False ?s1 = Inr (?s1\<lparr>res := rs'\<rparr>)"
      "req_at rs' = (req_of ?s1)(r := (req_of ?s1 r)\<lparr>cache_handle := Some h\<rparr>)" "next_ref rs' = next_ref (res ?s1)"
      "accts rs' ?A" "tabs mr W rs' ?A []" "cm_room (cache (res ?s1)) \<le> cm_room (cache rs')"
      "num_pages (cache rs') = num_pages (cache (res ?s1))"
      "lazy_free_active (cache rs') = lazy_free_active (cache (res ?s1))"
      using sched_cache_req_ok [OF a, of r] by auto
    have u: "?s1\<lparr>res := rs'\<rparr> = s\<lparr>res := rs'\<rparr>" by (simp add: set_req_def)
    note g = process_goes_on [OF inv can, where q = "?q\<lparr>cache_handle := Some h\<rparr>" and rs' = rs', OF refl]
    have "sinv mr W (s\<lparr>res := rs'\<rparr>) (U @ [r]) T" "calm s (s\<lparr>res := rs'\<rparr>)"
      by (rule g; use c s1 in simp)+
    then show ?thesis using eq 2 c(1,2) s1(2) unfolding u by (simp add: appended_def)
  next
    case 3
    then have can: "can_decode (req_of s r)" by (simp add: token_ends_def)
    have "?q = ?q\<lparr>cache_handle := cache_handle (req_of s r)\<rparr>" by (simp add: appended_def)
    note g = process_goes_on [OF inv can this, where rs' = "res ?s1"]
    have "sinv mr W (s\<lparr>res := res ?s1\<rparr>) (U @ [r]) T" "calm s (s\<lparr>res := res ?s1\<rparr>)"
      by (rule g; use a s1 in simp)+
    then show ?thesis using eq 3 s1 by (simp add: appended_def)
  qed
qed

section \<open>The loop\<close>

definition finished_of :: "detokenize_msg list \<Rightarrow> nat list" where
  "finished_of msgs = map msg_uid (filter msg_finished msgs)"

lemma finished_of_simps [simp]:
  "finished_of [] = []" "finished_of (m # ms) = (if msg_finished m then msg_uid m # finished_of ms else finished_of ms)"
  "finished_of (ms @ ms') = finished_of ms @ finished_of ms'"
  by (simp_all add: finished_of_def)

lemma process_loop_ok:
  assumes "sinv mr W s U T" "T = filter (\<lambda>r. \<not> is_chunked_prefill (req_of s r)) todo" "distinct todo"
    and "i + length todo \<le> length tokens"
  shows "\<exists>msgs s' U'. process_loop prefill todo i tokens None reply s = Inr (reply @ msgs, s') \<and>
     sinv mr W s' U' [] \<and> calm s s' \<and> map msg_uid msgs = map (\<lambda>r. req_id (req_of s r)) T \<and>
     mset (map (\<lambda>r. req_id (req_of s r)) (U @ T)) =
       mset (map (\<lambda>r. req_id (req_of s' r)) U') + mset (finished_of msgs)"
  using assms
proof (induction todo arbitrary: i s U T reply)
  case Nil
  then show ?case by (intro exI [of _ "[]"] exI [of _ s] exI [of _ U]) (simp add: calm_def)
next
  case (Cons r todo)
  show ?case
  proof (cases "is_chunked_prefill (req_of s r)")
    case True
    then have "T = filter (\<lambda>r. \<not> is_chunked_prefill (req_of s r)) todo" using Cons.prems(2) by simp
    from Cons.IH [OF Cons.prems(1) this, of "Suc i" reply] show ?thesis
      using Cons.prems(3,4) True by simp
  next
    case False
    let ?T = "filter (\<lambda>r. \<not> is_chunked_prefill (req_of s r)) todo"
    have T: "T = r # ?T" using Cons.prems(2) False by simp
    let ?tok = "tokens ! i" let ?m = "\<lparr>msg_uid = req_id (req_of s r), msg_next_token = ?tok, msg_finished = token_ends s r ?tok\<rparr>"
    obtain s1 U1 where o: "process_one prefill r ?tok None s = Inr ([?m], s1)" "sinv mr W s1 U1 ?T" "calm s s1"
      "\<forall>x. x \<noteq> r \<longrightarrow> req_of s1 x = req_of s x" "U1 = (if token_ends s r ?tok then U else U @ [r])"
      "req_id (req_of s1 r) = req_id (req_of s r)"
      using process_one_ok [OF Cons.prems(1) [unfolded T]] by blast
    have r: "r \<notin> set todo" "distinct todo" using Cons.prems(3) by simp_all
    have same: "?T = filter (\<lambda>r. \<not> is_chunked_prefill (req_of s1 r)) todo"
      by (rule filter_cong) (use o(4) r(1) in auto)
    have ids: "req_id (req_of s1 x) = req_id (req_of s x)" for x using o(4,6) by (cases "x = r") auto
    obtain msgs s' U' where l: "process_loop prefill todo (Suc i) tokens None (reply @ [?m]) s1 = Inr ((reply @ [?m]) @ msgs, s')"
      "sinv mr W s' U' []" "calm s1 s'" "map msg_uid msgs = map (\<lambda>r. req_id (req_of s1 r)) ?T"
      "mset (map (\<lambda>r. req_id (req_of s1 r)) (U1 @ ?T)) = mset (map (\<lambda>r. req_id (req_of s' r)) U') + mset (finished_of msgs)"
      using Cons.IH [OF o(2) same r(2), of "Suc i" "reply @ [?m]"] Cons.prems(4) by auto
    have "process_loop prefill (r # todo) i tokens None reply s = Inr (reply @ ?m # msgs, s')"
      using False Cons.prems(4) o(1) l(1) by simp
    moreover have "mset (map (\<lambda>r. req_id (req_of s r)) (U @ T)) =
        mset (map (\<lambda>r. req_id (req_of s' r)) U') + mset (finished_of (?m # msgs))"
      using l(5) o(5) unfolding ids T by (simp split: if_splits)
    ultimately show ?thesis
      using l(2-4) calm_trans [OF o(3)] T ids by (intro exI [of _ "?m # msgs"] exI [of _ s'] exI [of _ U']) simp
  qed
qed

end
