(* ===== verification/SchedBatch.thy ===== *)
theory SchedBatch
  imports SchedProcess
begin

text \<open>
  What the forward step makes of an admitted batch: the requests that were admitted in full wait
  for their token, the one that was cut is at the front of the queue again, and what they still
  need is what was reserved less the pages the batch has taken.
\<close>

lemma admitted_advanced:
  assumes a: "admitted p r" and p: "pend_ok (nat M) p" and M: "0 \<le> M"
  shows "\<not> is_chunked_prefill r \<Longrightarrow> fresh_ok M (advanced r)"
    "\<not> is_chunked_prefill r \<Longrightarrow> remain_len (advanced r) < need p r - extend_len r"
    "is_chunked_prefill r \<Longrightarrow> chunk_ok p (advanced r)"
    "need p (advanced r) = need p r - extend_len r"
    "is_chunked_prefill r \<Longrightarrow> \<not> can_decode (advanced r)"
    "0 < extend_len r" "0 \<le> need p r - extend_len r" "req_id (advanced r) = p_uid p"
    "is_chunked_prefill (advanced r) = is_chunked_prefill r"
    "req_ok r" "dev_len r < max_dev_len r" "max_dev_len r \<le> M" "cached_len r < dev_len r"
proof -
  have f: "req_id r = p_uid p" "0 \<le> cached_len r" "cached_len r < dev_len r" "dev_len r \<le> input_len p"
    "input_ids r = take (nat (dev_len r)) (p_input_ids p)" "max_dev_len r = dev_len r + p_output_len p"
    "0 < p_output_len p" "is_chunked_prefill r = (dev_len r < input_len p)"
    using a by (simp_all add: admitted_def)
  have m: "input_len p + p_output_len p \<le> M" using p M by (simp add: pend_ok_def)
  have len: "int (length (input_ids r)) = dev_len r"
    using f(2,3) admitted_ok(6) [OF a] by simp
  have ext: "extend_len r = dev_len r - cached_len r" using admitted_ok(3) [OF a] .
  have v: "req_ok (advanced r)" using f len by (simp add: req_ok_def advanced_def)
  show "req_ok r" using admitted_ok(1) [OF a] .
  show "0 < extend_len r" using admitted_ok(4) [OF a] .
  show "dev_len r < max_dev_len r" "cached_len r < dev_len r" "max_dev_len r \<le> M" using f m by auto
  show "\<not> is_chunked_prefill r \<Longrightarrow> fresh_ok M (advanced r)"
    using v len f m by (simp add: fresh_ok_def advanced_def)
  show "\<not> is_chunked_prefill r \<Longrightarrow> remain_len (advanced r) < need p r - extend_len r"
    using req_ok_lens(3) [OF v] f ext by (simp add: advanced_def need_def)
  show "need p (advanced r) = need p r - extend_len r" using ext by (simp add: advanced_def need_def)
  show "0 \<le> need p r - extend_len r" using ext f by (simp add: need_def)
  show "is_chunked_prefill r \<Longrightarrow> chunk_ok p (advanced r)"
    using f by (simp add: chunk_ok_def advanced_def)
  show "is_chunked_prefill r \<Longrightarrow> \<not> can_decode (advanced r)" by (simp add: can_decode_def advanced_def)
  show "req_id (advanced r) = p_uid p" "is_chunked_prefill (advanced r) = is_chunked_prefill r"
    using f(1) by (simp_all add: advanced_def)
qed

section \<open>A whole batch\<close>

definition full_refs :: "(nat \<Rightarrow> req) \<Rightarrow> nat list \<Rightarrow> nat list" where
  "full_refs q L = filter (\<lambda>r. \<not> is_chunked_prefill (q r)) L"

lemma cut_reqs_facts:
  assumes "list_all2 (\<lambda>p r. admitted p (q r)) qs L"
  shows "mset L = mset (full_refs q L) + mset (chunk_refs (cut_reqs q qs L))"
    "mset (map p_uid qs) = mset (map (\<lambda>r. req_id (q r)) (full_refs q L)) + mset (map p_uid (cut_reqs q qs L))"
    "p' \<in> set (cut_reqs q qs L) \<Longrightarrow> \<exists>p r. (p, r) \<in> set (zip qs L) \<and> is_chunked_prefill (q r) \<and> p' = p\<lparr>p_chunked_req := Some r\<rparr>"
  using assms
proof (induction rule: list_all2_induct)
  case (Cons p qs r L)
  {
    case 1
    then show ?case using Cons by (simp add: full_refs_def)
  next
    case 2
    then show ?case using Cons by (simp add: full_refs_def admitted_def)
  next
    case 3
    then show ?case using Cons by (auto split: if_splits)
  }
qed (simp_all add: full_refs_def)

lemma cut_reqs_cong: "(\<And>r. r \<in> set L \<Longrightarrow> is_chunked_prefill (q' r) = is_chunked_prefill (q r)) \<Longrightarrow>
    cut_reqs q' ps L = cut_reqs q ps L"
  by (induction q ps L rule: cut_reqs.induct) simp_all

text \<open>The room and the work after the step, against those before.\<close>

lemma batch_sums:
  assumes "list_all2 (admits q0 q) qs L" "\<And>p. p \<in> set qs \<Longrightarrow> pend_ok (nat M) p" "0 \<le> M"
    and "\<And>r. r \<in> set L \<Longrightarrow> q' r = advanced (q r)"
  shows "(sum_list (map (\<lambda>r. remain_len (q' r)) (filter (\<lambda>r. can_decode (q' r)) L)) +
      sum_list (map (chunk_need q') (cut_reqs q qs L)) \<le> needs q qs L - sum_list (map (\<lambda>r. extend_len (q r)) L)) \<and>
    (sum_list (map (\<lambda>r. remain_len (q' r)) (filter (\<lambda>r. can_decode (q' r)) L)) +
      sum_list (map (pend_work q') (cut_reqs q qs L)) + int (length L) \<le> sum_list (map (pend_work q0) qs))"
  using assms
proof (induction rule: list_all2_induct)
  case (Cons p qs r L)
  have a: "admitted p (q r)" "need p (q r) \<le> pend_work q0 p" using Cons.hyps(1) by (simp_all add: admits_def)
  have pk: "pend_ok (nat M) p" using Cons.prems by simp
  note f = admitted_advanced [OF a(1) pk Cons.prems(2)]
  have q': "q' r = advanced (q r)" using Cons.prems by simp
  have IH: "sum_list (map (\<lambda>r. remain_len (q' r)) (filter (\<lambda>r. can_decode (q' r)) L)) +
      sum_list (map (chunk_need q') (cut_reqs q qs L)) \<le> needs q qs L - sum_list (map (\<lambda>r. extend_len (q r)) L)"
    "sum_list (map (\<lambda>r. remain_len (q' r)) (filter (\<lambda>r. can_decode (q' r)) L)) +
      sum_list (map (pend_work q') (cut_reqs q qs L)) + int (length L) \<le> sum_list (map (pend_work q0) qs)"
    using Cons.IH Cons.prems by simp_all
  have nd: "needs q (p # qs) (r # L) = need p (q r) + needs q qs L" by (simp add: needs_def)
  have one: "need p (q' r) = need p (q r) - extend_len (q r)" using f(4) q' by simp
  have np: "chunk_need q' (p\<lparr>p_chunked_req := Some r\<rparr>) = need p (q' r)"
    "pend_work q' (p\<lparr>p_chunked_req := Some r\<rparr>) = need p (q' r)"
    by (simp_all add: chunk_need_def pend_work_def need_def input_len_def p_output_len_def)
  have "is_chunked_prefill (q r) \<or> \<not> is_chunked_prefill (q r) \<and> can_decode (advanced (q r)) \<or>
      \<not> is_chunked_prefill (q r) \<and> \<not> can_decode (advanced (q r))" by blast
  then show ?case
    using IH nd one f q' np a(2) by (elim disjE) simp_all
qed (simp add: needs_def)

section \<open>Changing resources under the invariant\<close>

lemma sinv_perm:
  assumes "sinv mr W s U T" "mset U' = mset U"
  shows "sinv mr W s U' T"
proof -
  note i = sinvD [OF assms(1)]
  have st: "set U' = set U" using assms(2) by (rule mset_eq_setD)
  have "mset (uids s (U' @ T)) = mset (uids s (U @ T))"
    using assms(2) by (simp add: uids_def)
  then have "names_ok s (U' @ T)"
    using i(4) mset_eq_imp_distinct_iff mset_eq_setD unfolding names_ok_def by metis
  moreover have "reqs_ok s U' T" using i(2) st by (simp add: reqs_ok_def)
  moreover have "accts (res s) (U' @ T @ cut s)" by (rule owns_perm [OF i(5)]) (use assms(2) in simp)
  moreover have "tabs mr W (res s) (U' @ T @ cut s) []" by (rule tabs_perm [OF i(6)]) (use assms(2) in simp)
  ultimately show ?thesis using i by (simp add: sinv_def)
qed

text \<open>Opening and closing the region of deferred frees.\<close>

lemma sinv_cache:
  assumes inv: "sinv mr W s U T"
    and cm: "cm_ok cm (lock_keys (req_of s) (U @ T @ cut s))" "cm_pages cm = cm_pages (cache (res s))"
      "page_table cm = page_table (cache (res s))" "num_pages cm = num_pages (cache (res s))"
      "prefix_cache cm = prefix_cache (cache (res s))" "cm_room cm = cm_room (cache (res s))"
  shows "sinv mr W (set_cache cm s) U T"
proof -
  note i = sinvD [OF inv]
  let ?s' = "set_cache cm s"
  have f: "req_of ?s' = req_of s" "prefill_mgr ?s' = prefill_mgr s" "decode_mgr ?s' = decode_mgr s" "graph ?s' = graph s"
    "max_seq_len ?s' = max_seq_len s" "freed_reqs ?s' = freed_reqs s" "cache (res ?s') = cm"
    by (simp_all add: set_cache_def)
  have "accts (res ?s') (U @ T @ cut s)"
  proof -
    have "owns (res ?s') (U @ T @ cut s) (\<lambda>r. cached_len (req_of s r)) {#} {#}"
      by (rule owns_cache [OF i(5), where cm = cm]) (use cm in \<open>simp_all add: set_cache_def\<close>)
    then show ?thesis using f(1) by simp
  qed
  moreover have "tabs mr W (res ?s') (U @ T @ cut s) []"
    using i(6) cm(3) by (simp add: tabs_def set_cache_def)
  moreover have "conf mr W ?s'"
    by (rule conf_frame [OF i(1)]) (simp_all add: frame_def set_cache_def cm(4))
  ultimately show ?thesis
    using i(2-4,7) cm(6) by (simp add: sinv_def reqs_ok_def pending_ok_def names_ok_def uids_def f)
qed

lemma sinv_cm:
  assumes "sinv mr W s U T"
  shows "cm_ok (cache (res s)) (lock_keys (req_of s) (U @ T @ cut s))"
  using ownsD(3) [OF sinvD(5) [OF assms]] by simp

lemma set_cache_frame:
  assumes "num_pages cm = num_pages (cache (res s))"
  shows "frame s (set_cache cm s)" "work_of (set_cache cm s) = work_of s" "prefill_mgr (set_cache cm s) = prefill_mgr s"
    "req_of (set_cache cm s) = req_of s" "running (set_cache cm s) = running s"
  using assms by (simp_all add: frame_def set_cache_def)

lemma process_output_ok:
  assumes inv: "sinv mr W s U T" and lz: "\<not> lazy_free_active (cache (res s))"
    and T: "T = full_refs (req_of s) (reqs (fi_batch fi))" "distinct (reqs (fi_batch fi))"
    and len: "length tokens = length (reqs (fi_batch fi))"
  shows "\<exists>msgs s'. process_forward_output fi tokens None s = Inr (msgs, s') \<and>
     sinv mr W s' (running s') [] \<and> \<not> lazy_free_active (cache (res s')) \<and> frame s s' \<and> work_of s' \<le> work_of s \<and>
     map msg_uid msgs = map (\<lambda>r. req_id (req_of s r)) T \<and>
     mset (uids s (U @ T)) = mset (uids s' (running s')) + mset (finished_of msgs)"
proof -
  let ?cm = "(cache (res s))\<lparr>lazy_free_active := True\<rparr>" let ?s1 = "set_cache ?cm s"
  note ok = sinv_cm [OF inv]
  have i1: "sinv mr W ?s1 U T"
    by (rule sinv_cache [OF inv]) (use ok in \<open>simp_all add: cm_ok_def cm_pages_def cm_room_def\<close>)
  have q1: "req_of ?s1 = req_of s" by (simp add: set_cache_def)
  obtain msgs s2 U' where l: "process_loop (is_prefill (fi_batch fi)) (reqs (fi_batch fi)) 0 tokens None [] ?s1 = Inr ([] @ msgs, s2)"
    "sinv mr W s2 U' []" "calm ?s1 s2" "map msg_uid msgs = map (\<lambda>r. req_id (req_of ?s1 r)) T"
    "mset (map (\<lambda>r. req_id (req_of ?s1 r)) (U @ T)) = mset (map (\<lambda>r. req_id (req_of s2 r)) U') + mset (finished_of msgs)"
    using process_loop_ok [OF i1, of "reqs (fi_batch fi)" 0 tokens "is_prefill (fi_batch fi)" "[]"] T len q1
    unfolding full_refs_def by auto
  let ?cm3 = "lazy_free_leave (cache (res s2))" let ?s3 = "set_cache ?cm3 s2"
  note ok2 = sinv_cm [OF l(2)]
  note lv = lazy_free_leave_ok [OF ok2]
  have np: "num_pages ?cm3 = num_pages (cache (res s2))" and rm: "cm_room ?cm3 = cm_room (cache (res s2))"
    using cm_okD(1) [OF ok2] by (simp_all add: lazy_free_leave_eq cm_room_def)
  have i3: "sinv mr W ?s3 U' []"
    by (rule sinv_cache [OF l(2)]) (use lv np rm in simp_all)
  have "set (running ?s3) = set U'" "distinct (running ?s3)" using sinvD(2) [OF i3] by (simp_all add: reqs_ok_def)
  moreover have "distinct U'" using ownsD(1) [OF sinvD(5) [OF i3]] by simp
  ultimately have mU: "mset (running ?s3) = mset U'" using set_eq_iff_mset_eq_distinct by blast
  have p: "process_forward_output fi tokens None s = Inr (msgs, ?s3)"
    using lazy_free_enter_ok(1) [OF ok lz] l(1) by (simp add: process_forward_output_def)
  have "mset (uids s (U @ T)) = mset (uids ?s3 (running ?s3)) + mset (finished_of msgs)"
  proof -
    have "mset (map (\<lambda>r. req_id (req_of s2 r)) U') = mset (map (\<lambda>r. req_id (req_of s2 r)) (running ?s3))"
      using mU by simp
    moreover have "prefill_mgr s2 = prefill_mgr s" using l(3) by (simp add: calm_def set_cache_def)
    ultimately show ?thesis using l(5) q1 by (simp add: uids_def set_cache_def ac_simps)
  qed
  moreover have "frame s ?s3"
    using frame_trans [OF set_cache_frame(1) frame_trans [of ?s1 s2 ?s3]] l(3) set_cache_frame(1) [OF np]
    by (simp add: calm_def)
  moreover have "work_of ?s3 \<le> work_of s"
  proof -
    have "work_of s2 \<le> work_of ?s1" using l(3) unfolding calm_def by blast
    moreover have "work_of ?s1 = work_of s" "work_of ?s3 = work_of s2" using np by (simp_all add: set_cache_frame)
    ultimately show ?thesis by linarith
  qed
  ultimately show ?thesis
    using p lv(3) l(4) q1 sinv_perm [OF i3 mU] by (intro exI [of _ msgs] exI [of _ ?s3]) (simp add: set_cache_def)
qed

end
