(* ===== verification/SchedStep.thy ===== *)
theory SchedStep
  imports SchedBatch
begin

text \<open>
  One step of the scheduler without overlap: from a state between two steps it never fails,
  reaches such a state again, and the work that is left becomes less.
\<close>

definition idle :: "int \<Rightarrow> nat \<Rightarrow> scheduler \<Rightarrow> bool" where
  "idle mr W s \<longleftrightarrow> sinv mr W s (running s) [] \<and> \<not> lazy_free_active (cache (res s))"

lemma idleD:
  assumes "idle mr W s"
  shows "sinv mr W s (running s) []" "\<not> lazy_free_active (cache (res s))"
    "cm_room (cache (res s)) = available_size (cache (res s))"
  using assms room_available [OF sinv_cm] by (auto simp: idle_def)

lemma names_split:
  assumes "names_ok s A"
  shows "distinct (map (\<lambda>r. req_id (req_of s r)) A)" "distinct (map p_uid (prefill_mgr s))"
    "r \<in> set A \<Longrightarrow> p \<in> set (prefill_mgr s) \<Longrightarrow> req_id (req_of s r) \<noteq> p_uid p"
  using assms by (auto simp: names_ok_def uids_def)

section \<open>Running a batch\<close>

text \<open>What \<open>step_no_overlap\<close> does with a batch.\<close>

definition run_batch :: "'l model_fns \<Rightarrow> batch \<Rightarrow> scheduler \<Rightarrow> (detokenize_msg list \<times> scheduler) result" where
  "run_batch fns b s =
     res_bind (prepare_batch b s) (\<lambda>(fi, s2).
     res_bind (forward fns fi s2) (\<lambda>(tokens, s3). process_forward_output fi tokens None s3))"

lemma advanced_run:
  assumes "run_ok M r"
  shows "fresh_ok M (advanced r)" "remain_len (advanced r) = remain_len r - 1" "req_id (advanced r) = req_id r"
proof -
  show f: "fresh_ok M (advanced r)" using assms by (simp add: run_ok_def fresh_ok_def advanced_def req_ok_def)
  show "remain_len (advanced r) = remain_len r - 1"
    using f run_extend [OF assms] by (simp add: fresh_ok_def req_ok_lens) (simp add: advanced_def)
qed (simp add: advanced_def)

lemma chunk_need_nonneg:
  assumes "pending_ok s" "p \<in> set (prefill_mgr s)"
  shows "0 \<le> chunk_need (req_of s) p" "0 \<le> pend_work (req_of s) p"
  using assms by (auto simp: pending_ok_def chunk_need_def pend_work_def need_def chunk_ok_def pend_ok_def split: option.splits)

lemma pending_cong:
  assumes "pending_ok s" "prefill_mgr s' = prefill_mgr s" "graph s' = graph s" "max_seq_len s' = max_seq_len s"
    and "\<And>c. c \<in> set (cut s) \<Longrightarrow> req_of s' c = req_of s c"
  shows "pending_ok s'"
proof -
  have "chunk_ok p (req_of s' c)" if "p \<in> set (prefill_mgr s)" "p_chunked_req p = Some c" for p c
  proof -
    have "c \<in> set (cut s)" using that chunk_refs_mem by blast
    then have "req_of s' c = req_of s c" by (rule assms(5))
    moreover have "chunk_ok p (req_of s c)" using assms(1) that by (simp add: pending_ok_def)
    ultimately show ?thesis by simp
  qed
  then show ?thesis using assms(1-4) by (simp add: pending_ok_def)
qed

lemma demand_running:
  assumes "pending_ok s"
  shows "sum_list (map (\<lambda>r. remain_len (req_of s r)) (running s)) \<le> demand_of s"
  using sum_list_nonneg [of "map (chunk_need (req_of s)) (prefill_mgr s)"] chunk_need_nonneg(1) [OF assms]
  by (auto simp: demand_def)

lemma decode_batch_ok:
  assumes idle: "idle mr W s" and fns: "fns_ok fns" and ne: "running s \<noteq> []"
    and b: "reqs b = running s"
  shows "\<exists>msgs s'. run_batch fns b s = Inr (msgs, s') \<and> idle mr W s' \<and> frame s s' \<and> work_of s' < work_of s \<and>
     map msg_uid msgs = map (\<lambda>r. req_id (req_of s r)) (running s) \<and>
     mset (uids s (running s)) = mset (uids s' (running s')) + mset (finished_of msgs)"
proof -
  note i = sinvD [OF idleD(1) [OF idle]] and lz = idleD(2) [OF idle] and room = idleD(3) [OF idle]
  let ?L = "running s" let ?A = "cut s" let ?M = "max_seq_len s"
  have run: "run_ok ?M (req_of s r)" if "r \<in> set ?L" for r using i(2) that by (simp add: reqs_ok_def)
  have M: "?M \<le> int W" using i(1) by (simp add: conf_def)
  have own: "accts (res s) (?L @ ?A)" and tb: "tabs mr W (res s) (?L @ ?A) []" using i(5,6) by simp_all
  have d: "distinct (?L @ ?A)" using ownsD(1) [OF own] .
  have L: "req_ok (req_of s r) \<and> dev_len (req_of s r) \<le> int W \<and> cached_len (req_of s r) < dev_len (req_of s r) \<and>
      dev_len (req_of s r) < max_dev_len (req_of s r)" if "r \<in> set ?L" for r
    using run [OF that] M by (auto simp: run_ok_def)
  have ext: "map (\<lambda>r. extend_len (req_of s r)) ?L = map (\<lambda>_. 1) ?L"
    using run run_extend by (intro map_cong) blast+
  then have sum1: "sum_list (map (\<lambda>r. extend_len (req_of s r)) ?L) = int (length ?L)"
    by (simp only:) (simp add: sum_list_triv)
  have "int (length ?L) \<le> sum_list (map (\<lambda>r. remain_len (req_of s r)) ?L)"
  proof -
    have "1 \<le> remain_len (req_of s r)" if "r \<in> set ?L" for r using run_extend [OF run [OF that]] by linarith
    then show ?thesis using sum_list_mono [of ?L "\<lambda>_. 1" "\<lambda>r. remain_len (req_of s r)"] by (simp add: sum_list_triv)
  qed
  then have fits: "sum_list (map (\<lambda>r. extend_len (req_of s r)) ?L) \<le> available_size (cache (res s))"
    using demand_running [OF i(3)] i(7) room sum1 by simp
  have g: "graph_ok (graph s)" "req_ok (req_of s (dummy_req (graph s)))" using i(1) by (simp_all add: conf_def)
  obtain fi s2 tokens s3 where f: "prepare_batch b s = Inr (fi, s2)" "forward fns fi s2 = Inr (tokens, s3)"
    "reqs (fi_batch fi) = ?L" "length tokens = length ?L" "frame s s3" "prefill_mgr s3 = prefill_mgr s"
    "freed_reqs s3 = freed_reqs s" "\<not> lazy_free_active (cache (res s3))"
    "available_size (cache (res s3)) = available_size (cache (res s)) - sum_list (map (\<lambda>r. extend_len (req_of s r)) ?L)"
    "accts (res s3) (?L @ ?A)" "tabs mr W (res s3) (?L @ ?A) []"
    "\<forall>r. r \<notin> set ?L \<longrightarrow> req_of s3 r = req_of s r" "\<forall>r\<in>set ?L. req_of s3 r = advanced (req_of s r)"
    "decode_mgr s3 = filter_reqs (req_of s3) ?L (decode_mgr s)"
    using forward_ok [OF own tb lz g(1) fns b L fits g(2)] by blast
  have fresh: "fresh_ok ?M (req_of s3 r)" "remain_len (req_of s3 r) = remain_len (req_of s r) - 1"
    "req_id (req_of s3 r) = req_id (req_of s r)" if "r \<in> set ?L" for r
    using advanced_run [OF run [OF that]] f(13) that by simp_all
  have nm: "distinct (map (\<lambda>r. req_id (req_of s r)) ?L)" using names_split(1) [OF i(4)] by simp
  have ids: "map (\<lambda>r. req_id (req_of s3 r)) ?L = map (\<lambda>r. req_id (req_of s r)) ?L" using fresh(3) by simp
  have run3: "running s3 = filter (\<lambda>r. can_decode (req_of s3 r)) ?L"
    unfolding f(14) by (rule filter_reqs_same) (use ids nm in metis)
  have chunks: "req_of s3 c = req_of s c" if "c \<in> set ?A" for c using f(12) d that by auto
  have dm: "dummy_req (graph s) \<notin> set ?L" using i(2) by (simp add: reqs_ok_def)
  have ms: "max_seq_len s3 = ?M" "graph s3 = graph s" using f(5) by (simp_all add: frame_def)
  have w: "demand_of s3 \<le> demand_of s - int (length ?L)" "work_of s3 \<le> work_of s - int (length ?L)"
  proof -
    have "sum_list (map (\<lambda>r. remain_len (req_of s3 r)) (running s3)) \<le> sum_list (map (\<lambda>r. remain_len (req_of s3 r)) ?L)"
      unfolding run3 by (rule sum_list_filter_le) (use fresh(1) remain_nonneg in blast)
    also have "\<dots> = sum_list (map (\<lambda>r. remain_len (req_of s r) - 1) ?L)" using fresh(2) by (metis (no_types, lifting) map_cong)
    also have "\<dots> = sum_list (map (\<lambda>r. remain_len (req_of s r)) ?L) - int (length ?L)"
      by (simp add: sum_list_subtractf sum_list_triv)
    finally have le: "sum_list (map (\<lambda>r. remain_len (req_of s3 r)) (running s3)) \<le>
        sum_list (map (\<lambda>r. remain_len (req_of s r)) ?L) - int (length ?L)" .
    have "sum_list (map (chunk_need (req_of s3)) (prefill_mgr s)) = sum_list (map (chunk_need (req_of s)) (prefill_mgr s))"
      "sum_list (map (pend_work (req_of s3)) (prefill_mgr s)) = sum_list (map (pend_work (req_of s)) (prefill_mgr s))"
      using demand_cong [of "[]" "req_of s3" "req_of s" "prefill_mgr s"] chunks by (simp_all add: demand_def work_def)
    then show "demand_of s3 \<le> demand_of s - int (length ?L)" "work_of s3 \<le> work_of s - int (length ?L)"
      using le unfolding demand_def work_def f(6) by simp_all
  qed
  have i3: "sinv mr W s3 [] ?L"
    unfolding sinv_def
  proof (intro conjI)
    show "conf mr W s3" by (rule conf_frame [OF i(1) f(5)]) (use f(12) dm in simp)
    show "reqs_ok s3 [] ?L"
      using fresh(1) i(2) dm unfolding reqs_ok_def ms run3 by auto
    show "pending_ok s3"
      by (rule pending_cong [OF i(3) f(6) ms(2,1)]) (rule chunks)
    have "uids s3 ([] @ ?L) = uids s (?L @ [])" unfolding uids_def f(6) by (simp only: append_Nil append_Nil2 ids)
    then show "names_ok s3 ([] @ ?L)" using i(4) f(7) by (simp only: names_ok_def)
    show "accts (res s3) ([] @ ?L @ cut s3)" "tabs mr W (res s3) ([] @ ?L @ cut s3) []"
      using f(6,10,11) by simp_all
    have "cm_ok (cache (res s3)) (lock_keys (req_of s3) (?L @ ?A))" using ownsD(3) [OF f(10)] by simp
    then show "demand_of s3 \<le> cm_room (cache (res s3))"
      using w(1) i(7) room f(8,9) sum1 room_available by fastforce
  qed
  have full: "?L = full_refs (req_of s3) (reqs (fi_batch fi))"
    using fresh(1) unfolding f(3) by (simp add: full_refs_def fresh_ok_def)
  have dL: "distinct (reqs (fi_batch fi))" "length tokens = length (reqs (fi_batch fi))"
    using d f(3,4) by simp_all
  obtain msgs s' where p: "process_forward_output fi tokens None s3 = Inr (msgs, s')"
    "sinv mr W s' (running s') []" "\<not> lazy_free_active (cache (res s'))" "frame s3 s'" "work_of s' \<le> work_of s3"
    "map msg_uid msgs = map (\<lambda>r. req_id (req_of s3 r)) ?L"
    "mset (uids s3 ([] @ ?L)) = mset (uids s' (running s')) + mset (finished_of msgs)"
    using process_output_ok [OF i3 f(8) full dL] by blast
  have "run_batch fns b s = Inr (msgs, s')" using f(1,2) p(1) by (simp add: run_batch_def)
  moreover have "uids s3 ([] @ ?L) = uids s ?L" unfolding uids_def f(6) by (simp only: append_Nil ids)
  then have "mset (uids s ?L) = mset (uids s' (running s')) + mset (finished_of msgs)" using p(7) by (simp only:)
  moreover have "map msg_uid msgs = map (\<lambda>r. req_id (req_of s r)) ?L" using p(6) ids by (simp only:)
  moreover have "0 < length ?L" using ne by simp
  then have "work_of s' < work_of s" using w(2) p(5) by linarith
  moreover have "idle mr W s'" using p(2,3) by (simp only: idle_def simp_thms)
  moreover have "frame s s'" using f(5) p(4) by (rule frame_trans)
  ultimately show ?thesis by blast
qed

text \<open>The state after admission: the queue, the resources, and the admitted requests \<open>L\<close>.\<close>

definition admission :: "int \<Rightarrow> nat \<Rightarrow> scheduler \<Rightarrow> pending_req list \<Rightarrow> pending_req list \<Rightarrow> nat list \<Rightarrow> resources \<Rightarrow> bool" where
  "admission mr W s qs rest L rs' \<longleftrightarrow> prefill_mgr s = qs @ rest \<and> (\<forall>p\<in>set rest. p_chunked_req p = None) \<and>
     grows (res s) rs' \<and> accts rs' (running s @ L) \<and> tabs mr W rs' (running s @ L) [] \<and>
     list_all2 (admits (req_of s) (req_at rs')) qs L \<and> (\<forall>r\<in>set L. next_ref (res s) \<le> r) \<and>
     length (cut_reqs (req_at rs') qs L) \<le> 1 \<and>
     sum_list (map (\<lambda>r. remain_len (req_of s r)) (running s)) + needs (req_at rs') qs L \<le> available_size (cache rs')"

lemma needs_extend:
  assumes "list_all2 (\<lambda>p r. admitted p (q r)) qs L"
  shows "sum_list (map (\<lambda>r. extend_len (q r)) L) \<le> needs q qs L"
  using assms
proof (induction rule: list_all2_induct)
  case (Cons p ps r rs)
  then show ?case using admitted_ok(5) by (fastforce simp: needs_def)
qed (simp add: needs_def)

lemma admitted_names:
  "list_all2 (\<lambda>p r. admitted p (q r)) qs L \<Longrightarrow> map (\<lambda>r. req_id (q r)) L = map p_uid qs"
  by (induction rule: list_all2_induct) (simp_all add: admitted_def)

lemma chunk_need_rest: "\<forall>p\<in>set ps. p_chunked_req p = None \<Longrightarrow> sum_list (map (chunk_need q) ps) = 0 \<and>
    map (pend_work q) ps = map (pend_work q') ps"
  by (induction ps) (simp_all add: chunk_need_def pend_work_def)

lemma prefill_batch_ok:
  assumes idle: "idle mr W s" and fns: "fns_ok fns" and adm: "admission mr W s qs rest L rs'" and ne: "qs \<noteq> []"
    and s1: "s1 = s\<lparr>prefill_mgr := cut_reqs (req_at rs') qs L @ rest, res := rs', decode_burst_remaining := x\<rparr>"
    and b: "reqs b = L"
  shows "\<exists>msgs s'. run_batch fns b s1 = Inr (msgs, s') \<and> idle mr W s' \<and> frame s s' \<and> work_of s' < work_of s \<and>
     mset (uids s (running s)) = mset (uids s' (running s')) + mset (finished_of msgs)"
proof -
  note i = sinvD [OF idleD(1) [OF idle]] and lz = idleD(2) [OF idle]
  let ?U = "running s" let ?q = "req_at rs'" let ?M = "max_seq_len s" let ?C = "cut_reqs ?q qs L"
  have a: "prefill_mgr s = qs @ rest" "\<forall>p\<in>set rest. p_chunked_req p = None" "grows (res s) rs'"
    "accts rs' (?U @ L)" "tabs mr W rs' (?U @ L) []" "list_all2 (admits (req_of s) ?q) qs L"
    "\<forall>r\<in>set L. next_ref (res s) \<le> r" "length ?C \<le> 1"
    "sum_list (map (\<lambda>r. remain_len (req_of s r)) ?U) + needs ?q qs L \<le> available_size (cache rs')"
    using adm by (simp_all add: admission_def)
  have g: "\<And>y. y < next_ref (res s) \<Longrightarrow> ?q y = req_of s y" "\<not> lazy_free_active (cache rs')"
    "num_pages (cache rs') = num_pages (cache (res s))" "next_ref (res s) \<le> next_ref rs'"
    using a(3) lz by (simp_all add: grows_def)
  have M: "?M \<le> int W" using i(1) by (simp add: conf_def)
  have pk: "pend_ok (nat ?M) p" if "p \<in> set (qs @ rest)" for p using i(3) that a(1) by (simp add: pending_ok_def)
  have M0: "0 \<le> ?M"
  proof -
    have "pend_ok (nat ?M) (hd qs)" using pk ne by simp
    then have "0 < int (nat ?M)" unfolding pend_ok_def by linarith
    then show ?thesis by linarith
  qed
  have adm2: "list_all2 (\<lambda>p r. admitted p (?q r)) qs L"
    using a(6) by (rule list_all2_mono) (simp add: admits_def)
  have pair: "\<exists>p\<in>set qs. admitted p (?q r)" if "r \<in> set L" for r
    using that adm2 by (metis in_set_conv_nth list_all2_conv_all_nth)
  have facts: "req_ok (?q r)" "dev_len (?q r) < max_dev_len (?q r)" "max_dev_len (?q r) \<le> ?M" "cached_len (?q r) < dev_len (?q r)"
    "\<not> is_chunked_prefill (?q r) \<Longrightarrow> fresh_ok ?M (advanced (?q r))"
    "is_chunked_prefill (?q r) \<Longrightarrow> \<not> can_decode (advanced (?q r))"
    "is_chunked_prefill (advanced (?q r)) = is_chunked_prefill (?q r)" "req_id (advanced (?q r)) = req_id (?q r)"
    if r: "r \<in> set L" for r
  proof -
    obtain p where p: "p \<in> set qs" "admitted p (?q r)" using pair [OF r] by blast
    have "pend_ok (nat ?M) p" using pk p(1) by simp
    note f = admitted_advanced [OF p(2) this M0]
    show "req_ok (?q r)" "dev_len (?q r) < max_dev_len (?q r)" "max_dev_len (?q r) \<le> ?M" "cached_len (?q r) < dev_len (?q r)"
      "\<not> is_chunked_prefill (?q r) \<Longrightarrow> fresh_ok ?M (advanced (?q r))"
      "is_chunked_prefill (?q r) \<Longrightarrow> \<not> can_decode (advanced (?q r))"
      "is_chunked_prefill (advanced (?q r)) = is_chunked_prefill (?q r)"
      using f by blast+
    show "req_id (advanced (?q r)) = req_id (?q r)" by (simp add: advanced_def)
  qed
  have q1: "req_of s1 = ?q" "res s1 = rs'" "graph s1 = graph s" "decode_mgr s1 = decode_mgr s" "max_seq_len s1 = ?M"
    "prefill_mgr s1 = ?C @ rest" "freed_reqs s1 = freed_reqs s" by (simp_all add: s1)
  have own: "accts (res s1) (L @ ?U)" unfolding q1(2) by (rule owns_perm [OF a(4)]) simp
  have tb: "tabs mr W (res s1) (L @ ?U) []" unfolding q1(2) by (rule tabs_perm [OF a(5)]) simp
  have lt: "r < next_ref (res s)" if "r \<in> set ?U" for r using ownsD(2) [OF i(5)] that by simp
  have cd: "graph_ok (graph s)" "dummy_req (graph s) < next_ref (res s)" "req_ok (req_of s (dummy_req (graph s)))"
    using i(1) by (simp_all add: conf_def)
  have old: "?q r = req_of s r" "r \<notin> set L" if "r \<in> set ?U \<or> r = dummy_req (graph s)" for r
    using that lt cd(2) g(1) a(7) by (auto simp: not_le [symmetric])
  have rem: "0 \<le> sum_list (map (\<lambda>r. remain_len (req_of s r)) ?U)"
    by (rule sum_list_nonneg) (use running_remain [OF i(2)] in auto)
  have fits: "sum_list (map (\<lambda>r. extend_len (req_of s1 r)) L) \<le> available_size (cache (res s1))"
    using needs_extend [OF adm2] a(9) rem by (simp add: q1)
  have Lc: "req_ok (req_of s1 r) \<and> dev_len (req_of s1 r) \<le> int W \<and> cached_len (req_of s1 r) < dev_len (req_of s1 r) \<and>
      dev_len (req_of s1 r) < max_dev_len (req_of s1 r)" if "r \<in> set L" for r
    using facts(1-4) [OF that] M by (simp add: q1)
  have dmy: "req_ok (req_of s1 (dummy_req (graph s1)))" using old(1) [of "dummy_req (graph s)"] cd(3) by (simp add: q1)
  obtain fi s2 tokens s3 where f: "prepare_batch b s1 = Inr (fi, s2)" "forward fns fi s2 = Inr (tokens, s3)"
    "reqs (fi_batch fi) = L" "length tokens = length L" "frame s1 s3" "prefill_mgr s3 = prefill_mgr s1"
    "freed_reqs s3 = freed_reqs s1" "\<not> lazy_free_active (cache (res s3))"
    "available_size (cache (res s3)) = available_size (cache (res s1)) - sum_list (map (\<lambda>r. extend_len (req_of s1 r)) L)"
    "accts (res s3) (L @ ?U)" "tabs mr W (res s3) (L @ ?U) []"
    "\<forall>r. r \<notin> set L \<longrightarrow> req_of s3 r = req_of s1 r" "\<forall>r\<in>set L. req_of s3 r = advanced (req_of s1 r)"
    "decode_mgr s3 = filter_reqs (req_of s3) L (decode_mgr s1)"
    using forward_ok [OF own tb _ _ fns b Lc fits dmy] g(2) cd(1) q1 by auto
  have q3: "req_of s3 r = advanced (?q r)" if "r \<in> set L" for r using f(13) that by (simp add: q1)
  have q3u: "req_of s3 r = req_of s r" if "r \<in> set ?U \<or> r = dummy_req (graph s)" for r
    using f(12) old [OF that] by (simp add: q1)
  let ?T = "full_refs (req_of s3) L"
  have Teq: "?T = full_refs ?q L" unfolding full_refs_def by (rule filter_cong) (use q3 facts(7) in auto)
  have fr: "frame s s3"
    by (rule frame_trans [OF _ f(5)]) (simp add: frame_def s1 g)
  have ms: "max_seq_len s3 = ?M" "graph s3 = graph s" using fr by (simp_all add: frame_def)
  have runU: "run_ok ?M (req_of s r)" if "r \<in> set ?U" for r using i(2) that by (simp add: reqs_ok_def)
  have idsL: "map (\<lambda>r. req_id (req_of s3 r)) L = map p_uid qs"
  proof -
    have "map (\<lambda>r. req_id (req_of s3 r)) L = map (\<lambda>r. req_id (?q r)) L" using q3 facts(8) by simp
    then show ?thesis using admitted_names [OF adm2] by simp
  qed
  have idsU: "map (\<lambda>r. req_id (req_of s3 r)) ?U = map (\<lambda>r. req_id (req_of s r)) ?U" using q3u by simp
  have nm: "distinct (map (\<lambda>r. req_id (req_of s r)) ?U @ map p_uid (qs @ rest))"
    using i(4) a(1) by (simp add: names_ok_def uids_def)
  have run3: "running s3 = ?U @ filter (\<lambda>r. can_decode (req_of s3 r)) L"
  proof -
    have "running s3 = filter (\<lambda>r. can_decode (req_of s3 r)) (?U @ L)"
      unfolding f(14) q1(4)
      by (rule filter_reqs_new) (use nm idsL idsU in \<open>simp only: map_append distinct_append set_append\<close>, auto)
    moreover have "filter (\<lambda>r. can_decode (req_of s3 r)) ?U = ?U"
      by (rule filter_True) (metis q3u runU run_can_decode)
    ultimately show ?thesis by simp
  qed
  have canL: "r \<in> set ?T" if "r \<in> set L" "can_decode (req_of s3 r)" for r
    using that facts(6,7) q3 by (auto simp: full_refs_def)
  have d: "distinct (?U @ L)" using ownsD(1) [OF a(4)] .
  have cuts: "chunk_refs (prefill_mgr s3) = chunk_refs ?C"
    using a(2) by (simp add: f(6) q1(6) chunk_refs_None)
  note cf = cut_reqs_facts [OF adm2]
  have sums: "sum_list (map (\<lambda>r. remain_len (req_of s3 r)) (filter (\<lambda>r. can_decode (req_of s3 r)) L)) +
      sum_list (map (chunk_need (req_of s3)) ?C) \<le> needs ?q qs L - sum_list (map (\<lambda>r. extend_len (?q r)) L)"
    "sum_list (map (\<lambda>r. remain_len (req_of s3 r)) (filter (\<lambda>r. can_decode (req_of s3 r)) L)) +
      sum_list (map (pend_work (req_of s3)) ?C) + int (length L) \<le> sum_list (map (pend_work (req_of s)) qs)"
    using batch_sums [OF a(6) _ M0 q3] pk by auto
  have remU: "map (\<lambda>r. remain_len (req_of s3 r)) ?U = map (\<lambda>r. remain_len (req_of s r)) ?U" using q3u by simp
  have demand: "demand_of s3 \<le> available_size (cache (res s3))"
    using sums(1) a(9) f(9) chunk_need_rest [OF a(2), of "req_of s3"]
    by (simp add: demand_def run3 f(6) q1 remU)
  have work: "work_of s3 + int (length L) \<le> work_of s"
  proof -
    have r1: "map (pend_work (req_of s3)) rest = map (pend_work (req_of s)) rest"
      using chunk_need_rest [OF a(2), of "req_of s3" "req_of s"] by (rule conjunct2)
    show ?thesis using sums(2) unfolding work_def run3 f(6) q1(6) a(1) map_append sum_list_append remU r1 by linarith
  qed
  have un: "mset (uids s3 (?U @ ?T)) = mset (uids s (?U @ []))"
  proof -
    have "mset (map (\<lambda>r. req_id (req_of s3 r)) ?T) + mset (map p_uid ?C) = mset (map p_uid qs)"
    proof -
      have "map (\<lambda>r. req_id (req_of s3 r)) ?T = map (\<lambda>r. req_id (?q r)) (full_refs ?q L)"
        unfolding Teq using q3 facts(8) by (auto simp: full_refs_def)
      then show ?thesis using cf(2) by simp
    qed
    then show ?thesis unfolding uids_def f(6) q1(6) a(1) map_append idsU by (simp add: ac_simps)
  qed
  have i3: "sinv mr W s3 ?U ?T"
    unfolding sinv_def
  proof (intro conjI)
    show "conf mr W s3" by (rule conf_frame [OF i(1) fr]) (use q3u in simp)
    show "reqs_ok s3 ?U ?T"
    proof -
      have "set (running s3) = set ?U \<union> {r \<in> set ?T. can_decode (req_of s3 r)}"
        unfolding run3 using canL by (auto simp: full_refs_def)
      moreover have "distinct (running s3)" unfolding run3 using d by auto
      moreover have "run_ok ?M (req_of s3 r)" if "r \<in> set ?U" for r using runU [OF that] q3u that by simp
      moreover have "fresh_ok ?M (req_of s3 r)" if "r \<in> set ?T" for r
        using that facts(5,7) q3 by (auto simp: full_refs_def)
      moreover have "dummy_req (graph s) \<notin> set (?U @ ?T)"
        using i(2) old(2) by (auto simp: reqs_ok_def full_refs_def)
      ultimately show ?thesis unfolding reqs_ok_def ms by blast
    qed
    show "pending_ok s3"
      unfolding pending_ok_def ms cuts f(6) q1(6)
    proof (intro conjI ballI allI impI)
      show "dummy_req (graph s) \<notin> set (chunk_refs (?C @ rest))"
        using cf(1) old(2) a(2) mset_eq_setD [of L "full_refs ?q L @ chunk_refs ?C"]
        by (auto simp: chunk_refs_None)
      fix p'
      assume p': "p' \<in> set (?C @ rest)"
      have cut: "pend_ok (nat ?M) p' \<and> (\<forall>c. p_chunked_req p' = Some c \<longrightarrow> chunk_ok p' (req_of s3 c))" if pc: "p' \<in> set ?C"
      proof -
        obtain p r where z: "(p, r) \<in> set (zip qs L)" "is_chunked_prefill (?q r)" "p' = p\<lparr>p_chunked_req := Some r\<rparr>"
          using cf(3) [OF pc] by blast
        then have m: "p \<in> set qs" "r \<in> set L" by (auto dest: set_zip_leftD set_zip_rightD)
        have "admitted p (?q r)" using adm2 z(1) by (auto simp: list_all2_iff)
        then have "chunk_ok p (advanced (?q r))" using admitted_advanced(3) [OF _ _ M0] pk m(1) z(2) by auto
        then have "chunk_ok p' (req_of s3 r)" using q3 [OF m(2)] z(3) by (simp add: chunk_ok_def input_len_def)
        moreover have "pend_ok (nat ?M) p'" using pk m(1) z(3) by (simp add: pend_ok_def input_len_def p_output_len_def)
        ultimately show ?thesis using z(3) by simp
      qed
      show "pend_ok (nat ?M) p'" using p' cut pk by auto
      show "chunk_ok p' (req_of s3 c)" if "p_chunked_req p' = Some c" for c
        using p' cut a(2) that by auto
    next
      fix p'
      assume "p' \<in> set (tl (?C @ rest))"
      then have "p' \<in> set rest" using a(8) by (cases ?C) (auto, cases rest, auto)
      then show "p_chunked_req p' = None" using a(2) by blast
    qed
    show "names_ok s3 (?U @ ?T)"
      using un i(4) f(7) q1(7) mset_eq_imp_distinct_iff mset_eq_setD unfolding names_ok_def by metis
    have perm: "mset (?U @ ?T @ cut s3) = mset (L @ ?U)" using cf(1) cuts Teq by simp
    show "accts (res s3) (?U @ ?T @ cut s3)" by (rule owns_perm [OF f(10) perm])
    show "tabs mr W (res s3) (?U @ ?T @ cut s3) []" by (rule tabs_perm [OF f(11) perm])
    have "cm_ok (cache (res s3)) (lock_keys (req_of s3) (L @ ?U))" using ownsD(3) [OF f(10)] by simp
    then show "demand_of s3 \<le> cm_room (cache (res s3))"
      using demand room_available f(8) by fastforce
  qed
  have dL: "distinct (reqs (fi_batch fi))" "length tokens = length (reqs (fi_batch fi))" "?T = full_refs (req_of s3) (reqs (fi_batch fi))"
    using d f(3,4) by simp_all
  obtain msgs s' where p: "process_forward_output fi tokens None s3 = Inr (msgs, s')"
    "sinv mr W s' (running s') []" "\<not> lazy_free_active (cache (res s'))" "frame s3 s'" "work_of s' \<le> work_of s3"
    "mset (uids s3 (?U @ ?T)) = mset (uids s' (running s')) + mset (finished_of msgs)"
    using process_output_ok [OF i3 f(8) dL(3,1,2)] by blast
  have "run_batch fns b s1 = Inr (msgs, s')" using f(1,2) p(1) by (simp add: run_batch_def)
  moreover have "mset (uids s ?U) = mset (uids s' (running s')) + mset (finished_of msgs)" using p(6) un by simp
  moreover have "0 < length L" using ne a(6) by (auto simp: list_all2_iff)
  then have "work_of s' < work_of s" using work p(5) by linarith
  moreover have "idle mr W s'" using p(2,3) by (simp only: idle_def simp_thms)
  moreover have "frame s s'" using fr p(4) by (rule frame_trans)
  ultimately show ?thesis by blast
qed

end
