(* ===== verification/SchedIdle.thy ===== *)
theory SchedIdle
  imports SchedStep
begin

text \<open>
  Scheduling always finds a batch while there is work, so that \<open>run_until_idle\<close> ends, without an
  error, with every request finished exactly once and every page back.
\<close>

section \<open>Nothing is held when no request is active\<close>

lemma available_all:
  assumes "cm_ok cm {#}" "\<not> lazy_free_active cm" "cm_pages cm = mset [0..n - 1]"
  shows "n \<le> available_size cm" "check_integrity cm = Inr () \<longleftrightarrow> 0 \<le> num_pages cm \<and> n = num_pages cm \<or> n < 0 \<and> num_pages cm = 0"
proof -
  note ok = cm_okD [OF assms(1)]
  have "held_prefixes (prefix_cache cm) {#} = {}" by (simp add: held_prefixes_def)
  then have "protected_size (prefix_cache cm) = 0" using counters(2) [OF ok(2)] by simp
  then have "int (size (tree_slots (prefix_cache cm))) = evictable_size (prefix_cache cm)"
    using tree_slots_size [OF ok(2)] by simp
  moreover have "int (size (cm_pages cm)) = int (nat n)" by (simp add: assms(3))
  ultimately have "available_size cm = int (nat n)"
    using ok(1,3) assms(2) available_size_1 [OF ok(1)] by (simp add: cm_pages_def)
  then show "n \<le> available_size cm" by linarith
  show "check_integrity cm = Inr () \<longleftrightarrow> 0 \<le> num_pages cm \<and> n = num_pages cm \<or> n < 0 \<and> num_pages cm = 0"
    unfolding check_integrity_iff [OF assms(1,2)] using assms(3) by auto
qed

lemma idle_integrity:
  assumes "idle mr W s" "running s = []" "prefill_mgr s = []" "0 \<le> num_pages (cache (res s))"
  shows "check_integrity (cache (res s)) = Inr ()" "tm_available_size (tables (res s)) = max 0 mr"
proof -
  note i = sinvD [OF idleD(1) [OF assms(1)]]
  have own: "accts (res s) []" "tabs mr W (res s) [] []" using i(5,6) assms(2,3) by simp_all
  have "cm_ok (cache (res s)) {#}" "cm_pages (cache (res s)) = mset [0..num_pages (cache (res s)) - 1]"
    using ownsD(3,4) [OF own(1)] by simp_all
  then show "check_integrity (cache (res s)) = Inr ()"
    using available_all(2) idleD(2) [OF assms(1)] assms(4) by blast
  have "mset (tm_free_slots (tables (res s))) = mset [0..mr - 1]" using own(2) by (simp add: tabs_def)
  then have "length (tm_free_slots (tables (res s))) = nat mr"
    by (metis length_upto size_mset diff_add_cancel diff_zero)
  then show "tm_available_size (tables (res s)) = max 0 mr" by (simp add: tm_available_size_def)
qed

section \<open>Scheduling\<close>

lemma idle_burst: "idle mr W (s\<lparr>decode_burst_remaining := x\<rparr>) = idle mr W s"
  by (simp add: idle_def sinv_def conf_def reqs_ok_def pending_ok_def names_ok_def uids_def)

lemma idle_res:
  assumes idle: "idle mr W s" and g: "grows (res s) rs'" and own: "accts rs' (running s @ cut s)"
    and tb: "tabs mr W rs' (running s @ cut s) []" and room: "demand_of s \<le> available_size (cache rs')"
  shows "idle mr W (s\<lparr>res := rs'\<rparr>)" "work_of (s\<lparr>res := rs'\<rparr>) = work_of s"
    "uids (s\<lparr>res := rs'\<rparr>) (running s) = uids s (running s)" "frame s (s\<lparr>res := rs'\<rparr>)"
proof -
  note i = sinvD [OF idleD(1) [OF idle]] and lz = idleD(2) [OF idle]
  let ?s' = "s\<lparr>res := rs'\<rparr>"
  have "conf mr W s" using i(1) .
  then have "dummy_req (graph s) < next_ref (res s)" by (simp add: conf_def)
  then have q: "req_at rs' r = req_of s r" if "r \<in> set (running s @ cut s) \<or> r = dummy_req (graph s)" for r
    using that g ownsD(2) [OF i(5)] by (auto simp: grows_def)
  have lz': "\<not> lazy_free_active (cache rs')" using g lz by (simp add: grows_def)
  show fr: "frame s ?s'" using g by (simp add: frame_def grows_def)
  have ids: "map (\<lambda>r. req_id (req_at rs' r)) (running s) = map (\<lambda>r. req_id (req_of s r)) (running s)" using q by simp
  then show u: "uids ?s' (running s) = uids s (running s)" by (simp add: uids_def)
  have w: "demand_of ?s' = demand_of s" "work_of ?s' = work_of s"
    using demand_cong [of "running s" "req_at rs'" "req_of s" "prefill_mgr s"] q by simp_all
  then show "work_of ?s' = work_of s" by simp
  have "sinv mr W ?s' (running s) []"
    unfolding sinv_def
  proof (intro conjI)
    show "conf mr W ?s'" by (rule conf_frame [OF i(1) fr]) (use q in simp)
    show "reqs_ok ?s' (running s) []" using i(2) q by (simp add: reqs_ok_def)
    show "pending_ok ?s'" by (rule pending_cong [OF i(3)]) (use q in simp_all)
    show "names_ok ?s' (running s @ [])" using i(4) u by (simp add: names_ok_def)
    have "cm_ok (cache rs') (lock_keys (req_at rs') (running s @ cut s))" using ownsD(3) [OF own] by simp
    then show "demand_of ?s' \<le> cm_room (cache (res ?s'))"
      using room w(1) room_available lz' by fastforce
  qed (use own tb in simp_all)
  then show "idle mr W ?s'" using lz' by (simp add: idle_def)
qed

lemma admission_ok:
  assumes idle: "idle mr W s" and ne: "prefill_mgr s \<noteq> []"
  shows "\<exists>qs rest L rs'. admission mr W s qs rest L rs' \<and> (qs = [] \<longrightarrow> L = [] \<and> cut s = [] \<and> running s \<noteq> []) \<and>
     pm_schedule_next_batch (prefill_budget s) (decode_mgr s) (prefill_mgr s) (res s) =
       Inr (if qs = [] then (None, prefill_mgr s, rs')
            else (Some \<lparr>reqs = L, phase = Prefill, batch_input_ids = [], positions = [], out_loc = [], padded_reqs = []\<rparr>,
                  cut_reqs (req_at rs') qs L @ rest, rs'))"
proof -
  note i = sinvD [OF idleD(1) [OF idle]] and lz = idleD(2) [OF idle] and rm = idleD(3) [OF idle]
  let ?P = "prefill_mgr s" let ?D = "running s" let ?M = "max_seq_len s"
  define ad where "ad = \<lparr>token_budget = prefill_budget s, reserved_size = inflight_tokens (req_of s) (decode_mgr s)\<rparr>"
  have c: "dm_page_size (decode_mgr s) = 1" "0 < prefill_budget s" "0 < mr" "?M \<le> int W" "?M \<le> num_pages (cache (res s))"
    using i(1) by (simp_all add: conf_def)
  have rs: "reserved_size ad = sum_list (map (\<lambda>r. remain_len (req_of s r)) ?D)"
    by (simp add: ad_def inflight_tokens_def c(1))
  have own: "accts (res s) (?D @ chunk_refs ?P)" and tb: "tabs mr W (res s) (?D @ chunk_refs ?P) []"
    using i(5,6) by simp_all
  have pM: "pend_ok (nat ?M) p" if "p \<in> set ?P" for p using i(3) that by (simp add: pending_ok_def)
  have pW: "pend_ok W p" if "p \<in> set ?P" for p
  proof -
    have "int (nat ?M) \<le> int W" using c(4) by simp
    then show ?thesis using pM [OF that] unfolding pend_ok_def by linarith
  qed
  have room: "reserved_size ad + sum_list (map (chunk_need (req_of s)) ?P) \<le> available_size (cache (res s))"
    using i(7) rm rs by (simp add: demand_def)
  have ck: "chunk_ok p (req_of s c)" if "p \<in> set ?P" "p_chunked_req p = Some c" for p c
    using i(3) that by (simp add: pending_ok_def)
  have tl: "p_chunked_req p = None" if "p \<in> set (tl ?P)" for p using i(3) that by (simp add: pending_ok_def)
  have bud: "0 < token_budget ad \<or> chunk_refs ?P = []" using c(2) by (simp add: ad_def)
  obtain qs rest L rs' where l: "?P = qs @ rest" "length L = length qs"
    "schedule_loop ad ?P (res s) [] [] = Inr ([] @ L, [] @ cut_reqs (req_at rs') qs L, rs')"
    "grows (res s) rs'" "accts rs' (?D @ L)" "tabs mr W rs' (?D @ L) []"
    "list_all2 (admits (req_of s) (req_at rs')) qs L" "\<forall>r\<in>set L. next_ref (res s) \<le> r"
    "\<forall>p\<in>set rest. p_chunked_req p = None" "length (cut_reqs (req_at rs') qs L) \<le> 1"
    "reserved_size ad + needs (req_at rs') qs L \<le> available_size (cache rs')"
    "qs = [] \<longrightarrow> ?P = [] \<or> token_budget ad \<le> 0 \<or> (chunk_refs ?P = [] \<and> blocked ad (hd ?P) (res s))"
    using schedule_loop_ok [OF own tb lz pW ck tl room bud, of "[]" "[]"] by blast
  have adm: "admission mr W s qs rest L rs'" using l rs by (simp add: admission_def)
  have run: "?D \<noteq> [] \<and> cut s = [] \<and> L = []" if "qs = []"
  proof -
    have b: "cut s = []" "blocked ad (hd ?P) (res s)" using l(12) that ne c(2) by (simp_all add: ad_def)
    have "?D \<noteq> []"
    proof
      assume D: "?D = []"
      have e: "accts (res s) []" "tabs mr W (res s) [] []" using own tb D b(1) by simp_all
      have "num_pages (cache (res s)) \<le> available_size (cache (res s))"
        using available_all(1) [OF _ lz] ownsD(3,4) [OF e(1)] by simp
      moreover have "input_len (hd ?P) + p_output_len (hd ?P) \<le> ?M"
      proof -
        have "pend_ok (nat ?M) (hd ?P)" using pM ne by simp
        then show ?thesis unfolding pend_ok_def by linarith
      qed
      moreover have "reserved_size ad = 0" using rs D by simp
      moreover have "tm_free_slots (tables (res s)) \<noteq> []"
      proof
        assume "tm_free_slots (tables (res s)) = []"
        then have "mset [0..mr - 1] = {#}" using e(2) by (simp add: tabs_def)
        then show False using c(3) by simp
      qed
      ultimately show False using b(2) c(5) by (simp add: blocked_def)
    qed
    then show ?thesis using b(1) l(2) that by simp
  qed
  have drop: "drop (length L) ?P = rest" using l(1,2) by simp
  have "pm_schedule_next_batch (prefill_budget s) (decode_mgr s) ?P (res s) =
       Inr (if qs = [] then (None, ?P, rs')
            else (Some \<lparr>reqs = L, phase = Prefill, batch_input_ids = [], positions = [], out_loc = [], padded_reqs = []\<rparr>,
                  cut_reqs (req_at rs') qs L @ rest, rs'))"
    using ne l(2,3) drop unfolding pm_schedule_next_batch_def Let_def ad_def [symmetric] by (cases qs) auto
  then show ?thesis using adm run by blast
qed

section \<open>A step\<close>

lemma no_overlap: "idle mr W s \<Longrightarrow> step fns s = step_no_overlap fns s"
  using sinvD(1) [OF idleD(1)] by (simp add: step_def conf_def)

lemma has_work_iff: "idle mr W s \<Longrightarrow> has_work s \<longleftrightarrow> running s \<noteq> [] \<or> prefill_mgr s \<noteq> []"
  using sinvD(1) [OF idleD(1)] by (auto simp: has_work_def conf_def pm_runnable_def dm_runnable_def)

lemma step_no_overlap_eq:
  "step_no_overlap fns s = res_bind (schedule_next_batch s) (\<lambda>(b, s1).
     case b of None \<Rightarrow> Inr ([], s1) | Some bt \<Rightarrow> run_batch fns bt s1)"
  unfolding step_no_overlap_def run_batch_def ..

lemma step_ok:
  assumes idle: "idle mr W s" and fns: "fns_ok fns" and work: "has_work s"
  shows "\<exists>msgs s'. step fns s = Inr (msgs, s') \<and> idle mr W s' \<and> frame s s' \<and> work_of s' < work_of s \<and>
     mset (uids s (running s)) = mset (uids s' (running s')) + mset (finished_of msgs)"
proof -
  have eq: "step fns s = res_bind (schedule_next_batch s) (\<lambda>(b, s1).
     case b of None \<Rightarrow> Inr ([], s1) | Some bt \<Rightarrow> run_batch fns bt s1)"
    using no_overlap [OF idle] step_no_overlap_eq by metis
  have decode: ?thesis
    if s1: "schedule_next_batch s = Inr (dm_schedule_next_batch (decode_mgr s1), s1)" "idle mr W s1"
      "running s1 = running s" "running s \<noteq> []" "frame s s1" "work_of s1 = work_of s" "uids s1 (running s) = uids s (running s)"
    for s1
  proof -
    let ?b = "\<lparr>reqs = running s, phase = Decode, batch_input_ids = [], positions = [], out_loc = [], padded_reqs = []\<rparr>"
    have "dm_schedule_next_batch (decode_mgr s1) = Some ?b" using s1(3,4) by (simp add: dm_schedule_next_batch_def)
    then have st: "step fns s = run_batch fns ?b s1" using eq s1(1) by simp
    obtain msgs s' where r: "run_batch fns ?b s1 = Inr (msgs, s')" "idle mr W s'" "frame s1 s'" "work_of s' < work_of s1"
      "mset (uids s1 (running s1)) = mset (uids s' (running s')) + mset (finished_of msgs)"
      using decode_batch_ok [OF s1(2) fns, of ?b] s1(3,4) by auto
    have "work_of s' < work_of s" using r(4) s1(6) by linarith
    moreover have "mset (uids s (running s)) = mset (uids s' (running s')) + mset (finished_of msgs)"
      using r(5) s1(3,7) by metis
    ultimately show ?thesis using st r(1,2) frame_trans [OF s1(5) r(3)] by metis
  qed
  have sched: "schedule_next_batch s = res_bind (pm_schedule_next_batch (prefill_budget s) (decode_mgr s) (prefill_mgr s) (res s))
          (\<lambda>(b, pm, rs).
           let s1 = s\<lparr>prefill_mgr := pm, res := rs\<rparr> in
           case b of
             None \<Rightarrow> Inr (dm_schedule_next_batch (decode_mgr s1), s1)
           | Some bt \<Rightarrow>
               (let has_chunked_prefill = list_ex (\<lambda>r. is_chunked_prefill (req_of s1 r)) (reqs bt);
                    pending_pressure = pending_size (prefill_mgr s1) > decode_burst_pending_limit s1
                in Inr (Some bt, s1\<lparr>decode_burst_remaining :=
                     (if has_chunked_prefill \<or> pending_pressure then 0 else decode_burst_limit s1)\<rparr>)))"
    if "\<not> (decode_burst_remaining s > 0 \<and> dm_runnable (decode_mgr s) \<and> dm_schedule_next_batch (decode_mgr s) \<noteq> None)"
    using that unfolding schedule_next_batch_def by (simp only: if_False)
  consider (burst) "decode_burst_remaining s > 0 \<and> dm_runnable (decode_mgr s) \<and> dm_schedule_next_batch (decode_mgr s) \<noteq> None"
    | (empty) "\<not> (decode_burst_remaining s > 0 \<and> dm_runnable (decode_mgr s) \<and> dm_schedule_next_batch (decode_mgr s) \<noteq> None)"
        "prefill_mgr s = []"
    | (prefill) "\<not> (decode_burst_remaining s > 0 \<and> dm_runnable (decode_mgr s) \<and> dm_schedule_next_batch (decode_mgr s) \<noteq> None)"
        "prefill_mgr s \<noteq> []" by blast
  then show ?thesis
  proof cases
    case burst
    let ?s1 = "s\<lparr>decode_burst_remaining := decode_burst_remaining s - 1\<rparr>"
    show ?thesis
      by (rule decode [of ?s1])
        (use burst idle in \<open>simp_all add: schedule_next_batch_def idle_burst dm_runnable_def frame_def uids_def\<close>)
  next
    case empty
    then have "running s \<noteq> []" using work has_work_iff [OF idle] by simp
    then show ?thesis
      using sched [OF empty(1)] empty(2) idle by (intro decode [of s]) (simp_all add: pm_schedule_next_batch_def)
  next
    case prefill
    obtain qs rest L rs' where a: "admission mr W s qs rest L rs'"
      "qs = [] \<longrightarrow> L = [] \<and> cut s = [] \<and> running s \<noteq> []"
      "pm_schedule_next_batch (prefill_budget s) (decode_mgr s) (prefill_mgr s) (res s) =
       Inr (if qs = [] then (None, prefill_mgr s, rs')
            else (Some \<lparr>reqs = L, phase = Prefill, batch_input_ids = [], positions = [], out_loc = [], padded_reqs = []\<rparr>,
                  cut_reqs (req_at rs') qs L @ rest, rs'))"
      using admission_ok [OF idle prefill(2)] by blast
    show ?thesis
    proof (cases "qs = []")
      case True
      have d: "demand_of s = sum_list (map (\<lambda>r. remain_len (req_of s r)) (running s))"
        using a(1) True chunk_need_rest [of rest "req_of s"] by (simp add: demand_def admission_def)
      have r: "idle mr W (s\<lparr>res := rs'\<rparr>)" "work_of (s\<lparr>res := rs'\<rparr>) = work_of s"
        "uids (s\<lparr>res := rs'\<rparr>) (running s) = uids s (running s)" "frame s (s\<lparr>res := rs'\<rparr>)"
        by (rule idle_res [OF idle]; use a(1,2) True d in \<open>simp add: admission_def needs_def\<close>)+
      show ?thesis
        by (rule decode [of "s\<lparr>res := rs'\<rparr>"]) (use sched [OF prefill(1)] a(2,3) True r in simp_all)
    next
      case False
      let ?b = "\<lparr>reqs = L, phase = Prefill, batch_input_ids = [], positions = [], out_loc = [], padded_reqs = []\<rparr>"
      obtain x where s1: "schedule_next_batch s = Inr (Some ?b,
          s\<lparr>prefill_mgr := cut_reqs (req_at rs') qs L @ rest, res := rs', decode_burst_remaining := x\<rparr>)"
        using sched [OF prefill(1)] a(3) False by (simp add: Let_def)
      then have "step fns s = run_batch fns ?b
          (s\<lparr>prefill_mgr := cut_reqs (req_at rs') qs L @ rest, res := rs', decode_burst_remaining := x\<rparr>)"
        using eq by simp
      then show ?thesis using prefill_batch_ok [OF idle fns a(1) False refl, of ?b x] by simp
    qed
  qed
qed

end
