(* ===== verification/SchedOps.thy ===== *)
theory SchedOps
  imports SchedIdle PoolProps
begin

text \<open>
  Submitting and aborting between two steps, and the state that the constructor builds.
\<close>

section \<open>Submission\<close>

lemma submit_ok:
  assumes idle: "idle mr W s" and ids: "g_input_ids g \<noteq> []" and new: "g_uid g \<notin> set (uids s (running s))"
  shows "idle mr W (submit g s)" "running (submit g s) = running s"
    "uids (submit g s) (running s) = uids s (running s) @
       (if int (length (g_input_ids g)) < max_seq_len s \<and> 0 < max_new_tokens (g_sampling_params g) then [g_uid g] else [])"
proof -
  note i = sinvD [OF idleD(1) [OF idle]] and lz = idleD(2) [OF idle]
  let ?M = "max_seq_len s" and ?sp = "g_sampling_params g"
  define left where "left = ?M - int (length (g_input_ids g))"
  show "running (submit g s) = running s" by (simp add: submit_def Let_def)
  have "idle mr W (submit g s) \<and> uids (submit g s) (running s) = uids s (running s) @
       (if int (length (g_input_ids g)) < ?M \<and> 0 < max_new_tokens ?sp then [g_uid g] else [])"
  proof (cases "left \<le> 0 \<or> max_new_tokens ?sp \<le> 0")
    case True
    then have "submit g s = s" by (auto simp: submit_def Let_def left_def)
    then show ?thesis using True idle by (auto simp: left_def)
  next
    case False
    define n where "n = min (max_new_tokens ?sp) left"
    define p where "p = \<lparr>p_uid = g_uid g, p_input_ids = g_input_ids g,
      p_sampling_params = (if max_new_tokens ?sp > left then ?sp\<lparr>max_new_tokens := left\<rparr> else ?sp), p_chunked_req = None\<rparr>"
    let ?s' = "s\<lparr>suppressed_reqs := suppressed_reqs s - {g_uid g}, freed_reqs := freed_reqs s - {g_uid g},
      deferred_free_reqs := (deferred_free_reqs s)(g_uid g := None), prefill_mgr := prefill_mgr s @ [p]\<rparr>"
    have s': "submit g s = ?s'"
      using False by (simp add: submit_def Let_def left_def p_def pm_add_one_req_def)
    have pp: "p_chunked_req p = None" "p_uid p = g_uid g" "pend_ok (nat ?M) p"
      using False ids by (auto simp: p_def left_def pend_ok_def input_len_def p_output_len_def)
    have u: "uids ?s' (running s) = uids s (running s) @ [g_uid g]" by (simp add: uids_def pp(2))
    have w: "demand_of ?s' = demand_of s" by (simp add: demand_def chunk_need_def pp(1))
    have "sinv mr W ?s' (running s) []"
      unfolding sinv_def
    proof (intro conjI)
      show "conf mr W ?s'" using i(1) by (simp add: conf_def)
      show "reqs_ok ?s' (running s) []" using i(2) by (simp add: reqs_ok_def)
      show "pending_ok ?s'"
        using i(3) pp by (cases "prefill_mgr s") (auto simp: pending_ok_def)
      show "names_ok ?s' (running s @ [])"
        using i(4) u new by (auto simp: names_ok_def)
    qed (use i(5-7) w in \<open>simp_all add: pp(1)\<close>)
    then have "idle mr W ?s'" using lz by (simp add: idle_def)
    moreover have "int (length (g_input_ids g)) < ?M \<and> 0 < max_new_tokens ?sp" using False by (auto simp: left_def)
    ultimately show ?thesis using s' u by simp
  qed
  then show "idle mr W (submit g s)" "uids (submit g s) (running s) = uids s (running s) @
       (if int (length (g_input_ids g)) < ?M \<and> 0 < max_new_tokens ?sp then [g_uid g] else [])" by simp_all
qed

section \<open>Abortion\<close>

text \<open>Taking a request out, with its resources already released.\<close>

lemma idle_drop:
  assumes idle: "idle mr W s" and q: "req_of s' = req_of s" and conf: "conf mr W s'"
    and fr: "graph s' = graph s" "max_seq_len s' = max_seq_len s" "freed_reqs s' \<inter> set (uids s' (running s')) = {}"
    and D: "set (running s') \<subseteq> set (running s)" "distinct (running s')"
    and P: "set (prefill_mgr s') \<subseteq> set (prefill_mgr s)" "set (tl (prefill_mgr s')) \<subseteq> set (tl (prefill_mgr s))"
      "distinct (map p_uid (prefill_mgr s'))"
    and own: "accts (res s') (running s' @ cut s')" "tabs mr W (res s') (running s' @ cut s') []"
    and room: "demand_of s' \<le> demand_of s" "cm_room (cache (res s)) \<le> cm_room (cache (res s'))"
      "lazy_free_active (cache (res s')) = lazy_free_active (cache (res s))"
  shows "idle mr W s'"
proof -
  note i = sinvD [OF idleD(1) [OF idle]] and lz = idleD(2) [OF idle]
  have cuts: "set (cut s') \<subseteq> set (cut s)" using P(1) chunk_refs_mem by blast
  have nm: "distinct (uids s' (running s'))"
  proof -
    have "inj_on (\<lambda>r. req_id (req_of s r)) (set (running s))"
      using names_split(1) [OF i(4)] by (simp add: distinct_map)
    then have "distinct (map (\<lambda>r. req_id (req_of s r)) (running s'))"
      using D inj_on_subset by (auto simp: distinct_map)
    moreover have "req_id (req_of s r) \<noteq> p_uid p" if "r \<in> set (running s')" "p \<in> set (prefill_mgr s')" for r p
      using names_split(3) [OF i(4), of r p] that D(1) P(1) by auto
    ultimately show ?thesis using P(3) q by (auto simp: uids_def)
  qed
  have "sinv mr W s' (running s') []"
    unfolding sinv_def
  proof (intro conjI)
    show "reqs_ok s' (running s') []" using i(2) D q fr by (auto simp: reqs_ok_def)
    show "pending_ok s'" using i(3) P(1,2) q fr cuts unfolding pending_ok_def by (auto 0 4)
    show "names_ok s' (running s' @ [])" using nm fr(3) by (simp add: names_ok_def)
    show "demand_of s' \<le> cm_room (cache (res s'))" using room(1,2) i(7) by linarith
  qed (use own conf in simp_all)
  then show ?thesis using lz room(3) by (simp add: idle_def)
qed

text \<open>Releasing an active request that is no longer listed.\<close>

lemma release_ok:
  assumes idle: "idle mr W s" and r: "r \<in> set (running s @ cut s)"
    and listed: "mset (running s @ cut s) = add_mset r (mset (D @ chunk_refs P))"
    and sub: "set D \<subseteq> set (running s)" "set P \<subseteq> set (prefill_mgr s)" "set (tl P) \<subseteq> set (tl (prefill_mgr s))"
      "distinct (map p_uid P)" "demand (req_of s) D P \<le> demand_of s"
    and gone: "req_id (req_of s r) = uid" "uid \<notin> set (map (\<lambda>x. req_id (req_of s x)) D @ map p_uid P)"
    and new: "uid \<in> set (uids s (running s))"
    and s2: "s2 = s\<lparr>prefill_mgr := P, decode_mgr := (decode_mgr s)\<lparr>running_reqs := D\<rparr>, suppressed_reqs := {uid}\<rparr>"
  shows "\<exists>s'. free_req_resources r s2 = Inr s' \<and> idle mr W (s'\<lparr>suppressed_reqs := {}\<rparr>) \<and> suppressed_reqs s' = {uid} \<and>
    running s' = D \<and> prefill_mgr s' = P \<and> req_of s' = req_of s"
proof -
  note i = sinvD [OF idleD(1) [OF idle]] and lz = idleD(2) [OF idle]
  have own: "accts (res s2) (running s @ cut s)" "tabs mr W (res s2) (running s @ cut s) []"
    using i(5,6) by (simp_all add: s2)
  have nf: "req_id (req_of s2 r) \<notin> freed_reqs s2"
    using new i(4) gone(1) by (auto simp: s2 names_ok_def)
  obtain rs' where f: "free_req_resources r s2 =
       Inr (s2\<lparr>freed_reqs := insert (req_id (req_of s2 r)) (freed_reqs s2), res := rs'\<rparr>)"
    "req_at rs' = req_of s2" "next_ref rs' = next_ref (res s2)"
    "accts rs' (remove1 r (running s @ cut s))" "tabs mr W rs' (remove1 r (running s @ cut s)) []"
    "cm_room (cache (res s2)) \<le> cm_room (cache rs')" "num_pages (cache rs') = num_pages (cache (res s2))"
    "lazy_free_active (cache rs') = lazy_free_active (cache (res s2))"
    using free_req_resources_ok [OF own r nf] by blast
  let ?s' = "s2\<lparr>freed_reqs := insert (req_id (req_of s2 r)) (freed_reqs s2), res := rs'\<rparr>"
  let ?s'' = "?s'\<lparr>suppressed_reqs := {}\<rparr>"
  have q: "req_of ?s'' = req_of s" using f(2) by (simp add: s2)
  have m: "mset (D @ chunk_refs P) = mset (remove1 r (running s @ cut s))"
    using listed by simp
  have dist: "distinct (running s @ cut s)" using ownsD(1) [OF own(1)] .
  have "distinct (D @ chunk_refs P)"
    using distinct_remove1 [OF dist, of r] m mset_eq_imp_distinct_iff by metis
  then have dD: "distinct D" by simp
  have "idle mr W ?s''"
  proof (rule idle_drop [OF idle q])
    have "dummy_req (graph s) < next_ref (res s)" using i(1) by (simp add: conf_def)
    then show "conf mr W ?s''" using i(1) f(2,3,7) by (simp add: conf_def s2)
    have "freed_reqs s \<inter> (set (map (\<lambda>x. req_id (req_of s x)) D @ map p_uid P)) = {}"
    proof -
      have "set (map (\<lambda>x. req_id (req_of s x)) D @ map p_uid P) \<subseteq> set (uids s (running s @ []))"
        unfolding uids_def using sub(1,2) by (simp only: set_append set_map append_Nil2) blast
      then show ?thesis using i(4) unfolding names_ok_def by blast
    qed
    then show "freed_reqs ?s'' \<inter> set (uids ?s'' (running ?s'')) = {}"
      using gone f(2) by (auto simp: s2 uids_def)
    have "accts rs' (D @ chunk_refs P)" by (rule owns_perm [OF f(4) m])
    then show "accts (res ?s'') (running ?s'' @ cut ?s'')" by (simp add: s2)
    have "tabs mr W rs' (D @ chunk_refs P) []" by (rule tabs_perm [OF f(5) m])
    then show "tabs mr W (res ?s'') (running ?s'' @ cut ?s'') []" by (simp add: s2)
    show "demand_of ?s'' \<le> demand_of s" using sub(5) f(2) by (simp add: s2)
  qed (use sub dD f in \<open>simp_all add: s2\<close>)
  then show ?thesis using f(1,2) by (intro exI [of _ ?s']) (simp add: s2)
qed

lemma demand_sub:
  assumes ok: "reqs_ok s (running s) []" "pending_ok s"
  shows "running s = b @ r # a \<Longrightarrow> demand (req_of s) (b @ a) (prefill_mgr s) \<le> demand_of s"
    "prefill_mgr s = bp @ p # ap \<Longrightarrow> demand (req_of s) (running s) (bp @ ap) \<le> demand_of s"
proof -
  show "running s = b @ r # a \<Longrightarrow> demand (req_of s) (b @ a) (prefill_mgr s) \<le> demand_of s"
    using running_remain [OF ok(1), of r] by (simp add: demand_def)
  show "prefill_mgr s = bp @ p # ap \<Longrightarrow> demand (req_of s) (running s) (bp @ ap) \<le> demand_of s"
    using chunk_need_nonneg(1) [OF ok(2), of p] by (simp add: demand_def)
qed

lemma abort_ok:
  assumes idle: "idle mr W s"
  shows "\<exists>s'. abort uid s = Inr s' \<and> idle mr W s' \<and> req_of s' = req_of s \<and>
    set (uids s' (running s')) = set (uids s (running s)) - {uid}"
proof -
  note i = sinvD [OF idleD(1) [OF idle]] and lz = idleD(2) [OF idle]
  let ?D = "running s" let ?P = "prefill_mgr s"
  have sup: "suppressed_reqs s = {}" "pending_fwd s = None" using i(1) by (simp_all add: conf_def)
  have pu: "pending_uses_req u s' = False" if "pending_fwd s' = None" for u s' using that by (simp add: pending_uses_req_def)
  note nm = names_split [OF i(4)]
  have idD: "inj_on (\<lambda>r. req_id (req_of s r)) (set ?D)" using nm(1) by (simp add: distinct_map)
  show ?thesis
  proof (cases "List.extract (\<lambda>p. p_uid p = uid) ?P")
    case None
    then have noP: "uid \<notin> set (map p_uid ?P)" by (auto simp: extract_None_iff)
    show ?thesis
    proof (cases "List.extract (\<lambda>x. req_id (req_of s x) = uid) ?D")
      case None2: None
      then have "uid \<notin> set (map (\<lambda>r. req_id (req_of s r)) ?D)" by (auto simp: extract_None_iff)
      moreover have "abort uid s = Inr s"
        using None None2 by (simp add: abort_def pm_abort_req_def dm_abort_req_def Let_def)
      ultimately show ?thesis using idle noP by (auto simp: uids_def)
    next
      case (Some x)
      obtain b r a where x: "x = (b, r, a)" by (cases x) auto
      have D: "?D = b @ r # a" "req_id (req_of s r) = uid" using Some x by (auto simp: extract_Some_iff)
      let ?s2 = "s\<lparr>prefill_mgr := ?P, decode_mgr := (decode_mgr s)\<lparr>running_reqs := b @ a\<rparr>, suppressed_reqs := {uid}\<rparr>"
      have others: "req_id (req_of s y) \<noteq> uid" if "y \<in> set (b @ a)" for y
        using nm(1) D that by (auto simp: image_iff)
      have dP: "distinct (map p_uid ?P)" using nm(2) .
      have "\<exists>s'. free_req_resources r ?s2 = Inr s' \<and> idle mr W (s'\<lparr>suppressed_reqs := {}\<rparr>) \<and> suppressed_reqs s' = {uid} \<and>
          running s' = b @ a \<and> prefill_mgr s' = ?P \<and> req_of s' = req_of s"
      proof (rule release_ok [OF idle _ _ _ subset_refl subset_refl dP _ D(2) _ _ refl])
        show "demand (req_of s) (b @ a) ?P \<le> demand_of s" using demand_sub(1) [OF _ i(3)] i(2) D(1) by simp
        show "uid \<notin> set (map (\<lambda>x. req_id (req_of s x)) (b @ a) @ map p_uid ?P)"
          using others noP by auto
      qed (use D in \<open>auto simp: uids_def\<close>)
      then obtain s' where f: "free_req_resources r ?s2 = Inr s'" "idle mr W (s'\<lparr>suppressed_reqs := {}\<rparr>)"
        "suppressed_reqs s' = {uid}" "running s' = b @ a" "prefill_mgr s' = ?P" "req_of s' = req_of s" by blast
      have "abort uid s = Inr (s'\<lparr>suppressed_reqs := {}\<rparr>)"
        using None Some x f(1,3) sup by (simp add: abort_def pm_abort_req_def dm_abort_req_def Let_def pu)
      moreover have "set (uids (s'\<lparr>suppressed_reqs := {}\<rparr>) (b @ a)) = set (uids s ?D) - {uid}"
      proof -
        let ?I = "(\<lambda>y. req_id (req_of s y)) ` set (b @ a) \<union> p_uid ` set ?P"
        have "set (uids (s'\<lparr>suppressed_reqs := {}\<rparr>) (b @ a)) = ?I" using f(5,6) by (simp add: uids_def image_Un Un_assoc)
        moreover have "set (uids s ?D) = insert uid ?I" by (simp add: uids_def D image_Un Un_assoc)
        moreover have "uid \<notin> ?I" using others noP by (simp only: set_map Un_iff image_iff) blast
        ultimately show ?thesis by simp
      qed
      ultimately show ?thesis using f by (intro exI [of _ "s'\<lparr>suppressed_reqs := {}\<rparr>"]) simp
    qed
  next
    case (Some x)
    obtain b p a where x: "x = (b, p, a)" by (cases x) auto
    have P: "?P = b @ p # a" "p_uid p = uid" using Some x by (auto simp: extract_Some_iff)
    have noD: "req_id (req_of s r) \<noteq> uid" if "r \<in> set ?D" for r using nm(3) [of r p] that P by auto
    have others: "p_uid y \<noteq> uid" if "y \<in> set (b @ a)" for y
      using nm(2) P that by (auto simp: image_iff)
    have dP: "distinct (map p_uid (b @ a))" using nm(2) P(1) by auto
    have subP: "set (b @ a) \<subseteq> set ?P" "set (tl (b @ a)) \<subseteq> set (tl ?P)"
      using P(1) by (cases b; cases a; auto)+
    have dem: "demand (req_of s) ?D (b @ a) \<le> demand_of s" using demand_sub(2) [OF _ i(3)] i(2) P(1) by simp
    have gone: "uid \<notin> set (map (\<lambda>x. req_id (req_of s x)) ?D @ map p_uid (b @ a))" using noD others by auto
    show ?thesis
    proof (cases "p_chunked_req p")
      case None
      let ?s' = "s\<lparr>prefill_mgr := b @ a\<rparr>"
      have nx: "List.extract (\<lambda>x. req_id (req_of s x) = uid) ?D = None" using noD by (auto simp: extract_None_iff)
      have "abort uid s = Inr ?s'"
        using Some x None nx by (simp add: abort_def pm_abort_req_def dm_abort_req_def Let_def)
      moreover have "idle mr W ?s'"
      proof (rule idle_drop [OF idle])
        show "conf mr W ?s'" using i(1) by (simp add: conf_def)
        show "freed_reqs ?s' \<inter> set (uids ?s' (running ?s')) = {}" using i(4) P(1) by (auto simp: names_ok_def uids_def)
        show "accts (res ?s') (running ?s' @ cut ?s')" "tabs mr W (res ?s') (running ?s' @ cut ?s') []"
          using i(5,6) P(1) None by simp_all
        show "distinct (running ?s')" using i(2) by (simp add: reqs_ok_def)
      qed (use subP dP dem in simp_all)
      moreover have "set (uids ?s' (running ?s')) = set (uids s ?D) - {uid}"
        using gone P by (auto simp: uids_def)
      ultimately show ?thesis by (intro exI [of _ ?s']) simp
    next
      case (Some c)
      let ?s2 = "s\<lparr>prefill_mgr := b @ a, decode_mgr := (decode_mgr s)\<lparr>running_reqs := ?D\<rparr>, suppressed_reqs := {uid}\<rparr>"
      have cid: "req_id (req_of s c) = uid" using i(3) P Some by (auto simp: pending_ok_def chunk_ok_def)
      have "\<exists>s'. free_req_resources c ?s2 = Inr s' \<and> idle mr W (s'\<lparr>suppressed_reqs := {}\<rparr>) \<and> suppressed_reqs s' = {uid} \<and>
          running s' = ?D \<and> prefill_mgr s' = b @ a \<and> req_of s' = req_of s"
        by (rule release_ok [OF idle _ _ subset_refl subP dP dem cid gone _ refl])
          (use P Some in \<open>auto simp: uids_def\<close>)
      then obtain s' where f: "free_req_resources c ?s2 = Inr s'" "idle mr W (s'\<lparr>suppressed_reqs := {}\<rparr>)"
        "suppressed_reqs s' = {uid}" "running s' = ?D" "prefill_mgr s' = b @ a" "req_of s' = req_of s" by blast
      have s2: "?s2 = s\<lparr>prefill_mgr := b @ a, suppressed_reqs := {uid}\<rparr>" by simp
      note f1 = f(1) [unfolded s2]
      have "abort uid s = Inr (s'\<lparr>suppressed_reqs := {}\<rparr>)"
        using \<open>List.extract (\<lambda>p. p_uid p = uid) ?P = Some x\<close> x Some f1 f(3) sup
        by (simp add: abort_def pm_abort_req_def Let_def pu)
      moreover have "set (uids (s'\<lparr>suppressed_reqs := {}\<rparr>) ?D) = set (uids s ?D) - {uid}"
        using f(5,6) gone P by (auto simp: uids_def)
      ultimately show ?thesis using f by (intro exI [of _ "s'\<lparr>suppressed_reqs := {}\<rparr>"]) simp
    qed
  qed
qed

end
