(* ===== verification/SchedProps.thy ===== *)
theory SchedProps
  imports SchedOps
begin

text \<open>
  What the scheduler guarantees when it runs one batch at a time: in every state that
  submissions, abortions and steps reach from the constructor the accounts of requests, rows and
  pages are right, no operation fails, and \<open>run_until_idle\<close> ends with every request finished
  exactly once and everything given back.
\<close>

section \<open>The constructor\<close>

lemma init_ok:
  assumes init: "scheduler_init mr pages max_seq eos vocab budget False cg sizes mx cap burst pend clk = Inr s"
    and cfg: "0 < mr" "0 < budget" "0 \<le> max_seq" "max_seq \<le> pages"
  shows "idle mr (nat (align_ceil max_seq 32)) s" "max_seq_len s = max_seq" "uids s (running s) = []"
proof -
  let ?W = "nat (align_ceil max_seq 32)" let ?pt = "engine_page_table mr max_seq pages"
  obtain cm where cm: "cache_manager_init pages 1 ?pt ''radix'' 0 clk 0 = Inr cm"
    using init by (cases "cache_manager_init pages 1 ?pt ''radix'' 0 clk 0") (simp_all add: scheduler_init_def Let_def)
  note c = cache_manager_init_ok [OF cm]
  have s: "\<not> enable_overlap_scheduling s" "graph s = graph_runner_init cg sizes mx (align_ceil max_seq 32) cap 0"
    "prefill_budget s = budget" "cache (res s) = cm" "tables (res s) = table_manager_init mr ?pt"
    "req_of s = (\<lambda>_. engine_dummy_req mr)" "next_ref (res s) = 1" "decode_mgr s = \<lparr>dm_page_size = 1, running_reqs = []\<rparr>"
    "prefill_mgr s = []" "pending_fwd s = None" "suppressed_reqs s = {}" "freed_reqs s = {}" "deferred_resource_actions s = []"
    "max_seq_len s = max_seq"
    using init cm by (auto simp: scheduler_init_def Let_def)
  show "max_seq_len s = max_seq" "uids s (running s) = []" using s by (simp_all add: uids_def)
  have W: "max_seq \<le> int ?W"
    using div_ceil_bounds(1) [of max_seq 32] cfg(3) by (simp add: align_ceil_def)
  have sh: "shape mr ?W ?pt"
    using cfg(1) by (auto simp: shape_def engine_page_table_def nth_append)
  then have sh2: "shape mr ?W (token_pool (table_manager_init mr ?pt))"
    by (simp add: shape_def table_manager_init_def)
  have "conf mr ?W s"
    using s c(5) cfg W graph_runner_init_ok [of cg sizes mx "align_ceil max_seq 32" cap 0]
    by (simp add: conf_def graph_runner_init_def Let_def engine_dummy_req_def req_ok_def default_req_def)
  moreover have "accts (res s) []"
    using s c by (simp add: owns_def lock_keys_def private_pages_def)
  moreover have "tabs mr ?W (res s) [] []"
    using s c(4) sh sh2 by (simp add: tabs_def table_manager_init_def)
  moreover have "0 \<le> cm_room cm"
    using room_available [OF c(1,2)] available_all(1) [OF c(1,2,3)] cfg by linarith
  ultimately show "idle mr ?W s"
    using s c(2) by (simp add: idle_def sinv_def reqs_ok_def pending_ok_def names_ok_def uids_def demand_def)
qed

section \<open>Reachable states\<close>

text \<open>
  The states of a scheduler without overlap: the constructor, given at least one row and at least as
  many pages as the longest sequence, then submissions with a fresh identifier and a prompt that is
  not empty, abortions and steps in any order.
\<close>

abbreviation active :: "scheduler \<Rightarrow> nat list" where
  "active s \<equiv> uids s (running s)"

inductive sched_reach :: "'l model_fns \<Rightarrow> int \<Rightarrow> scheduler \<Rightarrow> bool" for fns mr where
  starts: "scheduler_init mr pages max_seq eos vocab budget False cg sizes mx cap burst pend clk = Inr s \<Longrightarrow>
    0 < mr \<Longrightarrow> 0 < budget \<Longrightarrow> 0 \<le> max_seq \<Longrightarrow> max_seq \<le> pages \<Longrightarrow> sched_reach fns mr s"
| submits: "sched_reach fns mr s \<Longrightarrow> g_input_ids g \<noteq> [] \<Longrightarrow> g_uid g \<notin> set (active s) \<Longrightarrow>
    sched_reach fns mr (submit g s)"
| aborts: "sched_reach fns mr s \<Longrightarrow> abort uid s = Inr s' \<Longrightarrow> sched_reach fns mr s'"
| steps: "sched_reach fns mr s \<Longrightarrow> has_work s \<Longrightarrow> step fns s = Inr (msgs, s') \<Longrightarrow> sched_reach fns mr s'"

lemma free_req_resources_max_seq: "free_req_resources r s = Inr s' \<Longrightarrow> max_seq_len s' = max_seq_len s"
  by (auto simp: free_req_resources_def sched_cache_req_def Let_def set_cache_def set_req_def res_simps split: if_splits)

lemma abort_max_seq: "abort uid s = Inr s' \<Longrightarrow> max_seq_len s' = max_seq_len s"
  by (auto simp: abort_def Let_def res_simps dest!: free_req_resources_max_seq split: prod.splits option.splits if_splits)

lemma submit_max_seq: "max_seq_len (submit g s) = max_seq_len s"
  by (simp add: submit_def Let_def)

lemma sched_reach_idle:
  assumes "sched_reach fns mr s" "fns_ok fns"
  shows "(\<exists>W. idle mr W s) \<and> 0 \<le> max_seq_len s"
  using assms(1)
proof induction
  case (starts pages max_seq eos vocab budget cg sizes mx cap burst pend clk s)
  then show ?case using init_ok [OF starts] by blast
next
  case (submits s g)
  then show ?case using submit_ok(1) by (metis submit_max_seq)
next
  case (aborts s uid s')
  then show ?case using abort_ok abort_max_seq by (metis sum.inject(2))
next
  case (steps s msgs s')
  then obtain W where "idle mr W s" by blast
  then have "idle mr W s' \<and> frame s s'" using step_ok [OF _ assms(2) steps.hyps(2)] steps.hyps(3) by fastforce
  then show ?case using steps.IH by (auto simp: frame_def)
qed

section \<open>Running until there is no work\<close>

lemma work_nonneg:
  assumes "idle mr W s"
  shows "0 \<le> work_of s"
proof -
  note i = sinvD [OF idleD(1) [OF assms]]
  have "0 \<le> remain_len (req_of s r)" if "r \<in> set (running s)" for r using running_remain [OF i(2) that] .
  moreover have "0 \<le> pend_work (req_of s) p" if "p \<in> set (prefill_mgr s)" for p
    using chunk_need_nonneg(2) [OF i(3) that] .
  ultimately show ?thesis by (auto simp: work_def intro!: add_nonneg_nonneg sum_list_nonneg)
qed

lemma run_ok_idle:
  assumes "fns_ok fns"
  shows "idle mr W s \<Longrightarrow> work_of s \<le> int n \<Longrightarrow>
    \<exists>msgs s'. (\<forall>fuel\<ge>n. run_until_idle fuel fns s = Inr (msgs, s')) \<and> idle mr W s' \<and> frame s s' \<and> \<not> has_work s' \<and>
      mset (finished_of msgs) = mset (active s)"
proof (induction n arbitrary: s)
  case 0
  have nw: "\<not> has_work s"
  proof
    assume "has_work s"
    then obtain msgs s' where s': "idle mr W s'" "work_of s' < work_of s" using step_ok [OF 0(1) assms] by blast
    then show False using work_nonneg [OF s'(1)] 0(2) by linarith
  qed
  then have "run_until_idle fuel fns s = Inr ([], s)" for fuel by (cases fuel) simp_all
  moreover have "active s = []" using nw has_work_iff [OF 0(1)] by (simp add: uids_def)
  ultimately show ?case using 0 nw by (intro exI [of _ "[]"] exI [of _ s]) simp
next
  case (Suc n)
  show ?case
  proof (cases "has_work s")
    case False
    then have "run_until_idle fuel fns s = Inr ([], s)" for fuel by (cases fuel) simp_all
    moreover have "active s = []" using False has_work_iff [OF Suc.prems(1)] by (simp add: uids_def)
    ultimately show ?thesis using Suc.prems False by (intro exI [of _ "[]"] exI [of _ s]) simp
  next
    case True
    obtain ms s1 where s1: "step fns s = Inr (ms, s1)" "idle mr W s1" "frame s s1" "work_of s1 < work_of s"
      "mset (active s) = mset (active s1) + mset (finished_of ms)"
      using step_ok [OF Suc.prems(1) assms True] by blast
    have "work_of s1 \<le> int n" using s1(4) Suc.prems(2) by linarith
    then obtain msgs s' where r: "\<forall>fuel\<ge>n. run_until_idle fuel fns s1 = Inr (msgs, s')" "idle mr W s'" "frame s1 s'"
      "\<not> has_work s'" "mset (finished_of msgs) = mset (active s1)" using Suc.IH [OF s1(2)] by blast
    have "run_until_idle fuel fns s = Inr (ms @ msgs, s')" if fuel: "fuel \<ge> Suc n" for fuel
    proof -
      obtain f where "fuel = Suc f" "n \<le> f" using fuel by (cases fuel) simp_all
      then show ?thesis using True s1(1) r(1) by simp
    qed
    then show ?thesis using r frame_trans [OF s1(3) r(3)] s1(5) by (intro exI [of _ "ms @ msgs"] exI [of _ s']) simp
  qed
qed

section \<open>The guarantees\<close>

text \<open>
  C3: The state of the scheduler is well formed in every reachable state: the identifiers of the active
  requests are distinct; a running request has computed all tokens but its last one, knows all of
  them, and may take another one; every request that holds resources has a row of its own; and
  every page is in exactly one place: free, in the prefix cache, or owned by one row.
\<close>

theorem scheduler_wellformed:
  assumes "sched_reach fns mr s" "fns_ok fns"
  shows "distinct (active s) \<and>
    (\<forall>r\<in>set (running s). validate_runtime_state (req_of s r) = Inr () \<and> can_decode (req_of s r) \<and>
       device_len (req_of s r) = int (length (input_ids (req_of s r))) \<and>
       extend_len (req_of s r) = 1 \<and> max_device_len (req_of s r) \<le> max_seq_len s) \<and>
    mset (tm_free_slots (tables (res s))) + mset (map (\<lambda>r. table_idx (req_of s r)) (running s @ cut s)) = mset [0..mr - 1] \<and>
    cm_pages (cache (res s)) +
      private_pages (page_table (cache (res s))) (req_of s) (running s @ cut s) (\<lambda>r. cached_len (req_of s r)) =
      mset [0..num_pages (cache (res s)) - 1]"
proof -
  obtain W where i: "idle mr W s" using sched_reach_idle [OF assms] by blast
  note f = sinvD [OF idleD(1) [OF i]]
  have "validate_runtime_state (req_of s r) = Inr () \<and> can_decode (req_of s r) \<and>
       device_len (req_of s r) = int (length (input_ids (req_of s r))) \<and>
       extend_len (req_of s r) = 1 \<and> max_device_len (req_of s r) \<le> max_seq_len s" if "r \<in> set (running s)" for r
  proof -
    have "run_ok (max_seq_len s) (req_of s r)" using f(2) that by (simp add: reqs_ok_def)
    then show ?thesis
      using run_can_decode run_extend by (auto simp: run_ok_def validate_iff req_ok_lens)
  qed
  moreover have "distinct (active s)" using f(4) by (simp add: names_ok_def)
  moreover have "mset (tm_free_slots (tables (res s))) + mset (map (\<lambda>r. table_idx (req_of s r)) (running s @ cut s)) =
      mset [0..mr - 1]" using f(6) by (simp add: tabs_def)
  moreover have "cm_pages (cache (res s)) +
      private_pages (page_table (cache (res s))) (req_of s) (running s @ cut s) (\<lambda>r. cached_len (req_of s r)) =
      mset [0..num_pages (cache (res s)) - 1]" using ownsD(4) [OF f(5)] by simp
  ultimately show ?thesis by blast
qed

text \<open>
  C2: The scheduler never fails: while there is work a step returns, finishes or keeps every
  active request, and decreases the number of tokens that may still be taken; aborting returns,
  and takes exactly the request with that identifier out.
\<close>

theorem scheduler_never_fails:
  assumes "sched_reach fns mr s" "fns_ok fns"
  shows "(has_work s \<longrightarrow> (\<exists>msgs s'. step fns s = Inr (msgs, s') \<and> 0 \<le> work_of s' \<and> work_of s' < work_of s \<and>
       mset (active s) = mset (active s') + mset (finished_of msgs))) \<and>
    (\<exists>s'. abort uid s = Inr s' \<and> set (active s') = set (active s) - {uid})"
proof -
  obtain W where i: "idle mr W s" using sched_reach_idle [OF assms] by blast
  show ?thesis using step_ok [OF i assms(2)] abort_ok [OF i, of uid] work_nonneg by blast
qed

text \<open>
  C1: \<open>run_until_idle\<close> ends, after at most as many steps as tokens may still be taken: it returns
  without an error, every active request is reported as finished exactly once, there is no work
  left, the integrity check passes and every row of the table is free again.
\<close>

theorem run_until_idle_finishes:
  assumes "sched_reach fns mr s" "fns_ok fns"
  shows "\<exists>msgs s'. (\<forall>fuel\<ge>nat (work_of s). run_until_idle fuel fns s = Inr (msgs, s')) \<and>
    mset (finished_of msgs) = mset (active s) \<and> \<not> has_work s' \<and> active s' = [] \<and>
    check_integrity (cache (res s')) = Inr () \<and> tm_available_size (tables (res s')) = mr"
proof -
  obtain W where i: "idle mr W s" "0 \<le> max_seq_len s" using sched_reach_idle [OF assms] by blast
  have bound: "work_of s \<le> int (nat (work_of s))" by linarith
  obtain msgs s' where r: "\<forall>fuel\<ge>nat (work_of s). run_until_idle fuel fns s = Inr (msgs, s')" "idle mr W s'"
    "frame s s'" "\<not> has_work s'" "mset (finished_of msgs) = mset (active s)"
    using run_ok_idle [OF assms(2) i(1) bound] by blast
  have e: "running s' = []" "prefill_mgr s' = []" using r(4) has_work_iff [OF r(2)] by simp_all
  have "conf mr W s'" using sinvD(1) [OF idleD(1) [OF r(2)]] .
  then have c: "0 < mr" "0 \<le> num_pages (cache (res s'))" using i(2) r(3) by (simp_all add: conf_def frame_def)
  show ?thesis using r e c idle_integrity [OF r(2) e c(2)] by (intro exI [of _ msgs] exI [of _ s']) (simp add: uids_def)
qed

section \<open>Examples\<close>

definition demo_fns :: "int model_fns" where
  "demo_fns = \<lparr>m_forward = (\<lambda>n b. positions b), m_replay = (\<lambda>n b. map (\<lambda>_. 0) (padded_reqs b)),
     m_sample = (\<lambda>n ls args. map (\<lambda>_. 1) ls)\<rparr>"

definition demo_serving :: scheduler where
  "demo_serving = (case scheduler_init 2 8 8 (-1) 100 4 False False [] 3 0 0 1000 (\<lambda>n. int n + 1) of Inr s \<Rightarrow> s)"

definition demo_ask :: "nat \<Rightarrow> generate_request" where
  "demo_ask uid = \<lparr>g_uid = uid, g_input_ids = [3, 4, 5], g_sampling_params = default_sampling_params\<lparr>max_new_tokens := 2\<rparr>\<rparr>"

lemma demo_fns_ok: "fns_ok demo_fns"
  by (simp add: fns_ok_def demo_fns_def)

lemma demo_serving_reach: "sched_reach fns 2 demo_serving"
proof -
  have "scheduler_init 2 8 8 (-1) 100 4 False False [] 3 0 0 1000 (\<lambda>n. int n + 1) = Inr demo_serving"
    by (simp add: demo_serving_def scheduler_init_def cache_manager_init_def Let_def)
  then show ?thesis by (rule sched_reach.starts) simp_all
qed

lemma demo_serving_simps: "prefill_mgr demo_serving = []" "running demo_serving = []" "max_seq_len demo_serving = 8"
  by (simp_all add: demo_serving_def scheduler_init_def cache_manager_init_def Let_def)

lemma demo_asked:
  "active (submit (demo_ask 7) demo_serving) = [7]" "prefill_mgr (submit (demo_ask 7) demo_serving) \<noteq> []"
  "active (submit (demo_ask 9) (submit (demo_ask 7) demo_serving)) = [7, 9]"
  "running (submit (demo_ask 9) (submit (demo_ask 7) demo_serving)) = []"
  by (simp_all add: submit_def demo_ask_def Let_def demo_serving_simps pm_add_one_req_def uids_def)

lemma demo_asked_reach:
  "sched_reach fns 2 (submit (demo_ask 7) demo_serving)"
  "sched_reach fns 2 (submit (demo_ask 9) (submit (demo_ask 7) demo_serving))"
proof -
  show r: "sched_reach fns 2 (submit (demo_ask 7) demo_serving)"
    by (rule sched_reach.submits [OF demo_serving_reach]) (simp_all add: demo_ask_def uids_def demo_serving_simps)
  show "sched_reach fns 2 (submit (demo_ask 9) (submit (demo_ask 7) demo_serving))"
    by (rule sched_reach.submits [OF r]) (use demo_asked(1) in \<open>simp_all add: demo_ask_def\<close>)
qed

abbreviation demo_two :: scheduler where
  "demo_two \<equiv> submit (demo_ask 9) (submit (demo_ask 7) demo_serving)"

theorem scheduler_wellformed_witness:
  "distinct (active demo_two) \<and>
   mset (tm_free_slots (tables (res demo_two))) + mset (map (\<lambda>r. table_idx (req_of demo_two r)) (running demo_two @ cut demo_two)) =
     mset [0..2 - 1]"
  using scheduler_wellformed [OF demo_asked_reach(2) demo_fns_ok] by blast

theorem scheduler_never_fails_witness:
  "has_work (submit (demo_ask 7) demo_serving) \<and>
   (\<exists>msgs s'. step demo_fns (submit (demo_ask 7) demo_serving) = Inr (msgs, s') \<and>
      mset [7] = mset (active s') + mset (finished_of msgs)) \<and>
   (\<exists>s'. abort 7 (submit (demo_ask 7) demo_serving) = Inr s' \<and> set (active s') = {})"
proof -
  have w: "has_work (submit (demo_ask 7) demo_serving)"
    using demo_asked(2) by (simp add: has_work_def pm_runnable_def)
  show ?thesis
    using scheduler_never_fails [OF demo_asked_reach(1) demo_fns_ok, of 7] w demo_asked(1) by auto
qed

theorem run_until_idle_finishes_witness:
  "\<exists>msgs s'. run_until_idle (nat (work_of demo_two)) demo_fns demo_two = Inr (msgs, s') \<and>
     mset (finished_of msgs) = {#7, 9#} \<and> check_integrity (cache (res s')) = Inr ()"
  using run_until_idle_finishes [OF demo_asked_reach(2) demo_fns_ok] demo_asked(3) by auto

end
