(* ===== verification/Kernel.thy ===== *)
theory Kernel
  imports Prelude "HOL-Library.Word"
begin

text \<open>
  What the models of the CUDA kernels share: the stores of the threads as a list of addresses and
  values, the elements that a thread of a strided loop visits, and the sum of a warp by the
  butterfly of \<^verbatim>\<open>__shfl_xor_sync\<close>.
\<close>

section \<open>Stores\<close>

definition put :: "(nat \<times> 'a) list \<Rightarrow> 'a list \<Rightarrow> 'a list" where
  "put ws mem = fold (\<lambda>(a, v) m. m[a := v]) ws mem"

lemma put_simps [simp]:
  "put [] mem = mem" "put ((a, v) # ws) mem = put ws (mem[a := v])" "put (ws @ ws') mem = put ws' (put ws mem)"
  by (simp_all add: put_def)

lemma length_put [simp]: "length (put ws mem) = length mem"
  by (induction ws arbitrary: mem) auto

lemma nth_put_other: "a \<notin> fst ` set ws \<Longrightarrow> put ws mem ! a = mem ! a"
  by (induction ws arbitrary: mem) auto

lemma nth_put_in:
  assumes "(a, v) \<in> set ws" "distinct (map fst ws)" "a < length mem"
  shows "put ws mem ! a = v"
  using assms
proof (induction ws arbitrary: mem)
  case (Cons w ws)
  obtain b u where w: "w = (b, u)" by (cases w)
  show ?case
  proof (cases "w = (a, v)")
    case True
    then have "a \<notin> fst ` set ws" using Cons.prems(2) by simp
    then show ?thesis using True Cons.prems(3) by (simp add: nth_put_other)
  next
    case False
    then show ?thesis using Cons w by auto
  qed
qed simp

lemma nth_put_agree:
  assumes "(a, v) \<in> set ws" "\<And>u. (a, u) \<in> set ws \<Longrightarrow> u = v" "a < length mem"
  shows "put ws mem ! a = v"
  using assms
proof (induction ws arbitrary: mem)
  case (Cons w ws)
  obtain b u where w: "w = (b, u)" by (cases w)
  show ?case
  proof (cases "a \<in> fst ` set ws")
    case True
    then obtain u' where u': "(a, u') \<in> set ws" by auto
    have uniq: "\<And>u. (a, u) \<in> set ws \<Longrightarrow> u = v" using Cons.prems(2) by (meson list.set_intros(2))
    have mem: "a < length (mem[b := u])" using Cons.prems(3) by simp
    have "(a, v) \<in> set ws" using u' uniq [OF u'] by (simp only:)
    from Cons.IH [OF this uniq mem] have "put ws (mem[b := u]) ! a = v" .
    then show ?thesis by (simp only: w put_simps)
  next
    case False
    then have "(a, v) = w" using Cons.prems(1) by force
    then show ?thesis using False Cons.prems(3) w by (simp add: nth_put_other)
  qed
qed simp

text \<open>The order of stores to different addresses does not matter.\<close>

lemma put_order:
  assumes "distinct (map fst ws)" "mset ws' = mset ws"
  shows "put ws' mem = put ws mem"
proof (rule nth_equalityI)
  show "length (put ws' mem) = length (put ws mem)" by simp
  fix a
  assume "a < length (put ws' mem)"
  then have a: "a < length mem" by simp
  have s: "set ws' = set ws" using assms(2) by (rule mset_eq_setD)
  have d: "distinct (map fst ws')" using assms by (metis mset_eq_imp_distinct_iff mset_map)
  show "put ws' mem ! a = put ws mem ! a"
  proof (cases "a \<in> fst ` set ws")
    case True
    then obtain v where v: "(a, v) \<in> set ws" by auto
    then show ?thesis using nth_put_in [OF _ d a] nth_put_in [OF v assms(1) a] s by simp
  next
    case False
    then show ?thesis using nth_put_other [of a ws mem] nth_put_other [of a ws' mem] s by simp
  qed
qed

lemma put_block:
  assumes "s + n \<le> length mem"
  shows "put (map (\<lambda>p. (s + p, f p)) [0..<n]) mem = take s mem @ map f [0..<n] @ drop (s + n) mem"
  using assms
proof (induction n)
  case (Suc n)
  have "put (map (\<lambda>p. (s + p, f p)) [0..<Suc n]) mem = (take s mem @ map f [0..<n] @ drop (s + n) mem)[s + n := f n]"
    using Suc by (simp del: append_assoc)
  also have "\<dots> = take s mem @ map f [0..<n] @ (drop (s + n) mem)[0 := f n]"
    using Suc.prems by (simp add: list_update_append)
  also have "(drop (s + n) mem)[0 := f n] = f n # drop (s + Suc n) mem"
    using Suc.prems by (simp add: Cons_nth_drop_Suc [symmetric])
  finally show ?case by simp
qed simp

text \<open>Stores that are gathered from lists, in any order of the lists.\<close>

lemma mset_concat_map: "mset (concat (map f xs)) = (\<Sum>x\<in>#mset xs. mset (f x))"
  by (induction xs) simp_all

lemma concat_map_concat: "concat (map f (concat xss)) = concat (map (\<lambda>xs. concat (map f xs)) xss)"
  by (induction xss) simp_all

section \<open>Strided loops\<close>

text \<open>\<open>for (pos = tid; pos < len; pos += step)\<close>.\<close>

function thread_positions :: "nat \<Rightarrow> nat \<Rightarrow> nat \<Rightarrow> nat list" where
  "thread_positions pos len step =
     (if 0 < step \<and> pos < len then pos # thread_positions (pos + step) len step else [])"
  by pat_completeness auto
termination
  by (relation "measure (\<lambda>(pos, len, step). len - pos)") auto

declare thread_positions.simps [simp del]

lemma thread_positions_set:
  "0 < step \<Longrightarrow> set (thread_positions pos len step) = {p. pos \<le> p \<and> p < len \<and> p mod step = pos mod step} \<and>
     distinct (thread_positions pos len step)"
proof (induction pos len step rule: thread_positions.induct)
  case (1 pos len step)
  show ?case
  proof (cases "pos < len")
    case True
    have IH: "set (thread_positions (pos + step) len step) = {p. pos + step \<le> p \<and> p < len \<and> p mod step = (pos + step) mod step}"
      "distinct (thread_positions (pos + step) len step)" using 1 True by simp_all
    have "{p. pos \<le> p \<and> p < len \<and> p mod step = pos mod step} = insert pos {p. pos + step \<le> p \<and> p < len \<and> p mod step = pos mod step}"
    proof -
      have "p = pos \<or> pos + step \<le> p" if p: "pos \<le> p" "p mod step = pos mod step" for p
      proof -
        obtain k where "p = pos + step * k" using p by (metis mod_eq_nat1E mult.commute add.commute)
        then show ?thesis by (cases k) simp_all
      qed
      then show ?thesis using True by auto
    qed
    then show ?thesis using True 1(2) IH thread_positions.simps [of pos len step] by auto
  qed (use thread_positions.simps [of pos len step] in auto)
qed

lemma thread_positions_partition:
  assumes "0 < step"
  shows "mset (concat (map (\<lambda>t. thread_positions t len step) [0..<step])) = mset [0..<len]"
proof -
  have s: "set (thread_positions t len step) = {p. p < len \<and> p mod step = t}" if "t < step" for t
    using thread_positions_set [OF assms, of t len] that by (auto intro: mod_less_eq_dividend)
  have "distinct (concat (map (\<lambda>t. thread_positions t len step) [0..<step]))"
    unfolding distinct_concat_iff
  proof (intro conjI ballI impI allI)
    show "distinct (removeAll [] (map (\<lambda>t. thread_positions t len step) [0..<step]))"
    proof -
      have "inj_on (\<lambda>t. thread_positions t len step) {t. t < step \<and> thread_positions t len step \<noteq> []}"
      proof (rule inj_onI)
        fix t u
        assume a: "t \<in> {t. t < step \<and> thread_positions t len step \<noteq> []}" "u \<in> {t. t < step \<and> thread_positions t len step \<noteq> []}"
          and eq: "thread_positions t len step = thread_positions u len step"
        then have "hd (thread_positions t len step) \<in> set (thread_positions t len step)" by simp
        then obtain p where p: "p \<in> set (thread_positions t len step)" by blast
        then have "p mod step = t" using s a(1) by auto
        moreover have "p mod step = u" using p s a(2) eq by auto
        ultimately show "t = u" by simp
      qed
      then show ?thesis
        unfolding inj_on_def by (auto simp: distinct_map removeAll_filter_not_eq filter_map o_def inj_on_def)
    qed
    show "distinct ys" if "ys \<in> set (map (\<lambda>t. thread_positions t len step) [0..<step])" for ys
      using that thread_positions_set [OF assms] by auto
    show "set ys \<inter> set zs = {}"
      if yz: "ys \<in> set (map (\<lambda>t. thread_positions t len step) [0..<step]) \<and>
          zs \<in> set (map (\<lambda>t. thread_positions t len step) [0..<step]) \<and> ys \<noteq> zs" for ys zs
    proof -
      obtain t u where tu: "t < step" "u < step" "ys = thread_positions t len step" "zs = thread_positions u len step"
        using yz by auto
      then have "t \<noteq> u" using yz by auto
      then show ?thesis using s tu by auto
    qed
  qed
  moreover have "set (concat (map (\<lambda>t. thread_positions t len step) [0..<step])) = set [0..<len]"
    using s assms by auto
  ultimately show ?thesis by (metis distinct_upt set_eq_iff_mset_eq_distinct)
qed

section \<open>Launches\<close>

text \<open>A launch of \<open>blocks\<close> blocks, and its threads one after the other in a given order.\<close>

definition launch_threads :: "nat \<Rightarrow> nat \<Rightarrow> (nat \<times> nat) list" where
  "launch_threads blocks bdim = concat (map (\<lambda>b. map (\<lambda>t. (b, t)) [0..<bdim]) [0..<blocks])"

lemma mem_launch: "(b, t) \<in> set (launch_threads n m) \<longleftrightarrow> b < n \<and> t < m"
  unfolding launch_threads_def set_concat set_map by auto (metis atLeastLessThan_iff image_eqI le0)

section \<open>The sum of a warp\<close>

text \<open>\<open>for (offset = n; offset > 0; offset >>= 1) x += __shfl_xor_sync(mask, x, offset)\<close> on all lanes.\<close>

function warp_offsets :: "nat \<Rightarrow> nat list" where
  "warp_offsets n = (if 0 < n then n # warp_offsets (n div 2) else [])"
  by pat_completeness auto
termination
  by (relation "measure (\<lambda>n. n)") auto

declare warp_offsets.simps [simp del]

definition shfl_xor_add :: "nat \<Rightarrow> (nat \<Rightarrow> 'a::comm_monoid_add) \<Rightarrow> nat \<Rightarrow> 'a" where
  "shfl_xor_add offset x lane = x lane + x (Bit_Operations.xor lane offset)"

definition warp_sum :: "(nat \<Rightarrow> 'a::comm_monoid_add) \<Rightarrow> nat \<Rightarrow> 'a" where
  "warp_sum x = fold shfl_xor_add (warp_offsets 16) x"

text \<open>The lanes that have been added up after the given offsets, as masks.\<close>

fun masks :: "nat list \<Rightarrow> nat list \<Rightarrow> nat list" where
  "masks ms [] = ms"
| "masks ms (off # offs) = masks (ms @ map (\<lambda>m. Bit_Operations.xor off m) ms) offs"

lemma fold_shfl:
  "fold shfl_xor_add offs (\<lambda>l. \<Sum>m\<leftarrow>ms. x (Bit_Operations.xor l m)) =
     (\<lambda>l. \<Sum>m\<leftarrow>masks ms offs. x (Bit_Operations.xor l m))"
proof (induction offs arbitrary: ms)
  case (Cons off offs)
  have "shfl_xor_add off (\<lambda>l. \<Sum>m\<leftarrow>ms. x (Bit_Operations.xor l m)) =
      (\<lambda>l. \<Sum>m\<leftarrow>ms @ map (\<lambda>m. Bit_Operations.xor off m) ms. x (Bit_Operations.xor l m))"
    by (rule ext) (simp add: shfl_xor_add_def o_def xor.assoc)
  then show ?case by (simp only: fold_Cons comp_apply masks.simps Cons)
qed simp

lemma warp_sum_all:
  assumes "lane < 32"
  shows "warp_sum x lane = (\<Sum>l<32. x l)"
proof -
  have offs: "warp_offsets 16 = [16, 8, 4, 2, 1]" by (simp add: warp_offsets.simps)
  have "warp_sum x = (\<lambda>l. \<Sum>m\<leftarrow>masks [0] [16, 8, 4, 2, 1]. x (Bit_Operations.xor l m))"
    using fold_shfl [of "[16, 8, 4, 2, 1]" x "[0]"] by (simp only: warp_sum_def offs) simp
  moreover have "sort (masks [0] [16, 8, 4, 2, 1]) = [0..<32]" by code_simp
  then have "mset (masks [0] [16, 8, 4, 2, 1]) = mset [0..<32]" by (metis mset_sort)
  then have "(\<Sum>m\<leftarrow>masks [0] [16, 8, 4, 2, 1]. x (Bit_Operations.xor lane m)) = (\<Sum>m\<leftarrow>[0..<32]. x (Bit_Operations.xor lane m))"
    by (metis (no_types, lifting) mset_map sum_mset_sum_list)
  moreover have "(\<Sum>m\<leftarrow>[0..<32]. x (Bit_Operations.xor lane m)) = (\<Sum>m<32. x (Bit_Operations.xor lane m))"
    by (simp add: sum_list_sum_nth atLeast0LessThan interv_sum_list_conv_sum_set_nat)
  moreover have "(\<Sum>m<32. x (Bit_Operations.xor lane m)) = (\<Sum>l<32. x l)"
  proof (rule sum.reindex_bij_witness [where i = "\<lambda>l. Bit_Operations.xor lane l" and j = "\<lambda>m. Bit_Operations.xor lane m"])
    have lt: "Bit_Operations.xor lane m < 32" if "m < 32" for m :: nat
    proof -
      have "take_bit 5 (Bit_Operations.xor lane m) = Bit_Operations.xor lane m"
        using assms that by (simp add: take_bit_xor take_bit_nat_eq_self)
      moreover have "take_bit 5 (Bit_Operations.xor lane m) < 2 ^ 5" by (rule take_bit_nat_less_exp)
      ultimately show ?thesis by simp
    qed
    show "Bit_Operations.xor lane m \<in> {..<32}" if "m \<in> {..<32}" for m using lt that by simp
    show "Bit_Operations.xor lane l \<in> {..<32}" if "l \<in> {..<32}" for l using lt that by simp
  qed (simp_all flip: xor.assoc)
  ultimately show ?thesis by simp
qed

end
