(* ===== verification/Attention.thy ===== *)
theory Attention
  imports Engine CacheManager Kernel
begin

text \<open>
  The metadata of the attention backend, \<^verbatim>\<open>src/attention/flashinfer_backend.cu\<close>: which pages of the
  key and value cache the attention of a batch reads, the buffers that captured graphs read, and
  the ring of pinned workspaces. The planner of FlashInfer and its split of the key ranges are not
  part of the repository: they are the parameters \<open>decode_plan\<close> and \<open>split_kv_indptr\<close>, and the
  attention itself is left out. Tensors are lists; \<open>garbage\<close> is what uninitialised memory holds.
\<close>

section \<open>State\<close>

record plan_info =
  padded_batch_size :: nat
  request_indices_offset :: nat
  kv_tile_indices_offset :: nat
  o_indptr_offset :: nat
  kv_chunk_size_ptr_offset :: nat
  block_valid_mask_offset :: nat
  split_kv :: bool

record plan_state =
  plan :: plan_info
  kv_chunk_size :: int

text \<open>The arrays that a plan keeps in the integer workspace, at the offsets of \<open>plan_info\<close>.\<close>

record plan_arrays =
  request_indices :: "int list"
  kv_tile_indices :: "int list"
  o_indptr :: "int list"
  ws_kv_chunk_size :: int
  block_valid_mask :: "bool list"

record plan_fns =
  decode_plan :: "int list \<Rightarrow> nat \<Rightarrow> (plan_info \<times> plan_arrays) option"
  split_kv_indptr :: "int list \<Rightarrow> nat \<Rightarrow> int \<Rightarrow> int list \<times> int list \<times> int list"

record attn_metadata =
  md_is_prefill :: bool
  seq_lens :: "int list"
  cached_lens :: "int list"
  qo_indptr_host :: "int list"
  kv_indptr_host :: "int list"
  last_page_len_host :: "int list"
  indptr :: "int list"
  md_indices :: "int list"
  paged_kv_indptr :: "int list"
  paged_kv_last_page_len :: "int list"
  kv_indptr_host_tensor :: "int list option"
  md_initialized :: bool
  use_capture_buffers :: bool
  decode_plan_state :: "plan_state option"

text \<open>
  The metadata of a captured batch size are slices of the buffers of the capture: what is kept for
  each size is its plan.
\<close>

record decode_capture =
  dc_max_seq_len :: int
  dc_max_batch_size :: int
  dc_batch_sizes :: "int list"
  dc_kv_indptr_host :: "int list"
  dc_kv_indptr_device :: "int list"
  dc_indices :: "int list"
  dc_last_page_len :: "int list"
  dc_metadata :: "nat \<Rightarrow> plan_state option"

record flashinfer =
  garbage :: "nat \<Rightarrow> int"
  pinned_int_workspaces :: "plan_arrays list"
  workspace_copy_done_events :: "bool list"
  next_pinned_slot :: nat
  int_workspace :: plan_arrays
  cached_ones_device :: "int list"
  decode_table_indices_host :: "int list"
  decode_table_indices_device :: "int list"
  decode_kv_indptr_host :: "int list"
  decode_kv_indptr_device :: "int list"
  decode_indices_device :: "int list"
  decode_capture_data :: "decode_capture option"

section \<open>The ring of pinned workspaces\<close>

definition flashinfer_init :: "(nat \<Rightarrow> int) \<Rightarrow> plan_arrays \<Rightarrow> flashinfer" where
  "flashinfer_init junk empty_ws =
     \<lparr>garbage = junk, pinned_int_workspaces = replicate 32 empty_ws,
      workspace_copy_done_events = replicate 32 False, next_pinned_slot = 0, int_workspace = empty_ws,
      cached_ones_device = [], decode_table_indices_host = [], decode_table_indices_device = [],
      decode_kv_indptr_host = [], decode_kv_indptr_device = [], decode_indices_device = [],
      decode_capture_data = None\<rparr>"

definition wait_workspace_copy_done :: "nat \<Rightarrow> flashinfer \<Rightarrow> flashinfer result" where
  "wait_workspace_copy_done slot s =
     res_bind (check (slot < length (workspace_copy_done_events s))
         (TorchCheck ''Invalid FlashInfer workspace event slot''))
       (\<lambda>_. Inr (s\<lparr>workspace_copy_done_events := (workspace_copy_done_events s)[slot := False]\<rparr>))"

definition acquire_pinned_int_workspace :: "flashinfer \<Rightarrow> (nat \<times> flashinfer) result" where
  "acquire_pinned_int_workspace s =
     res_bind (check (pinned_int_workspaces s \<noteq> []) (TorchCheck ''FlashInfer pinned workspace ring is empty''))
       (\<lambda>_. let slot = next_pinned_slot s in
        res_bind (wait_workspace_copy_done slot
            (s\<lparr>next_pinned_slot := (next_pinned_slot s + 1) mod length (pinned_int_workspaces s)\<rparr>))
          (\<lambda>s1. Inr (slot, s1)))"

definition record_workspace_copy_done :: "nat \<Rightarrow> flashinfer \<Rightarrow> flashinfer result" where
  "record_workspace_copy_done slot s =
     res_bind (check (slot < length (workspace_copy_done_events s))
         (TorchCheck ''Invalid FlashInfer workspace event slot''))
       (\<lambda>_. Inr (s\<lparr>workspace_copy_done_events := (workspace_copy_done_events s)[slot := True]\<rparr>))"

text \<open>The workspace is written before its slot is recorded; \<open>cudaMemcpyAsync\<close> copies it to the device.\<close>

definition write_workspace :: "nat \<Rightarrow> plan_arrays \<Rightarrow> flashinfer \<Rightarrow> flashinfer" where
  "write_workspace slot ws s =
     s\<lparr>pinned_int_workspaces := (pinned_int_workspaces s)[slot := ws], int_workspace := ws\<rparr>"

definition decode_plan_copy_bytes :: "plan_info \<Rightarrow> nat" where
  "decode_plan_copy_bytes p =
     (let bytes = kv_chunk_size_ptr_offset p + 4;
          bytes = max bytes (request_indices_offset p + padded_batch_size p * 4);
          bytes = max bytes (kv_tile_indices_offset p + padded_batch_size p * 4);
          bytes = max bytes (o_indptr_offset p + (padded_batch_size p + 1) * 4)
      in if split_kv p then max bytes (block_valid_mask_offset p + padded_batch_size p * 1) else bytes)"

section \<open>Workspaces that grow\<close>

definition torch_empty :: "nat \<Rightarrow> flashinfer \<Rightarrow> int list" where
  "torch_empty n s = map (garbage s) [0..<n]"

definition get_ones_device :: "int \<Rightarrow> flashinfer \<Rightarrow> int list \<times> flashinfer" where
  "get_ones_device bs s =
     (if bs \<le> int (length (cached_ones_device s)) then (islice 0 bs (cached_ones_device s), s)
      else
        (let ones = replicate (double_until (nat bs) 1) 1 in
         (islice 0 bs ones, s\<lparr>cached_ones_device := ones\<rparr>)))"

definition ensure_decode_workspace :: "int \<Rightarrow> int \<Rightarrow> flashinfer \<Rightarrow> flashinfer" where
  "ensure_decode_workspace bs total_kv_len s =
     (let s1 = (if int (length (decode_table_indices_host s)) < bs
                then let n = double_until (nat bs) 1 in
                     s\<lparr>decode_table_indices_host := torch_empty n s, decode_table_indices_device := torch_empty n s\<rparr>
                else s);
          s2 = (if int (length (decode_kv_indptr_host s1)) < bs + 1
                then let n = double_until (nat (bs + 1)) 1 in
                     s1\<lparr>decode_kv_indptr_host := torch_empty n s, decode_kv_indptr_device := torch_empty n s\<rparr>
                else s1)
      in if int (length (decode_indices_device s2)) < total_kv_len
         then s2\<lparr>decode_indices_device := torch_empty (double_until (nat total_kv_len) 1) s\<rparr> else s2)"

section \<open>The kernel\<close>

definition table_cols :: "table \<Rightarrow> nat" where
  "table_cols t = (case t of [] \<Rightarrow> 0 | row # _ \<Rightarrow> length row)"

text \<open>The stores of thread \<open>tid\<close> of block \<open>req_idx\<close>, in blocks of \<open>bdim\<close> threads.\<close>

definition decode_index_stores ::
  "table \<Rightarrow> int list \<Rightarrow> int list \<Rightarrow> nat \<Rightarrow> nat \<Rightarrow> nat \<times> nat \<Rightarrow> (nat \<times> int) list" where
  "decode_index_stores pt table_indices kv_indptr bs bdim = (\<lambda>(req_idx, tid).
     if req_idx \<ge> bs then []
     else
       (let table_idx = table_indices ! req_idx;
            start = kv_indptr ! req_idx;
            len = kv_indptr ! (req_idx + 1) - start in
        if table_idx < 0 \<or> table_idx \<ge> int (length pt) \<or> len \<le> 0 then []
        else
          map (\<lambda>pos. (nat (start + int pos),
                 if pos < table_cols pt then pt ! nat table_idx ! pos else 0))
            (thread_positions tid (nat len) bdim)))"

definition build_decode_indices ::
  "table \<Rightarrow> int list \<Rightarrow> int list \<Rightarrow> nat \<Rightarrow> nat \<Rightarrow> (nat \<times> nat) list \<Rightarrow> int list \<Rightarrow> int list" where
  "build_decode_indices pt table_indices kv_indptr bs bdim threads indices =
     put (concat (map (decode_index_stores pt table_indices kv_indptr bs bdim) threads)) indices"

section \<open>The metadata of a batch\<close>

text \<open>\<open>indptr_from a lens\<close> is \<open>a\<close> followed by the running sums.\<close>

fun indptr_from :: "int \<Rightarrow> int list \<Rightarrow> int list" where
  "indptr_from a [] = [a]"
| "indptr_from a (l # ls) = a # indptr_from (a + l) ls"

text \<open>The host loop and the kernel fill the workspaces of the backend.\<close>

definition fill_decode_workspace :: "table \<Rightarrow> (nat \<Rightarrow> req) \<Rightarrow> nat list \<Rightarrow> flashinfer \<Rightarrow> flashinfer" where
  "fill_decode_workspace pt q rs s =
     (let n = length rs;
          total_kv_len = sum_list (map (\<lambda>r. device_len (q r)) rs);
          s1 = ensure_decode_workspace (int n) total_kv_len s;
          tis = map (\<lambda>r. table_idx (q r)) rs;
          kvs = indptr_from 0 (map (\<lambda>r. device_len (q r)) rs);
          s2 = s1\<lparr>decode_table_indices_host := tis @ drop n (decode_table_indices_host s1),
                  decode_table_indices_device := tis @ drop n (decode_table_indices_device s1),
                  decode_kv_indptr_host := kvs @ drop (n + 1) (decode_kv_indptr_host s1),
                  decode_kv_indptr_device := kvs @ drop (n + 1) (decode_kv_indptr_device s1)\<rparr>
      in if total_kv_len > 0
         then s2\<lparr>decode_indices_device :=
           build_decode_indices pt (islice 0 (int n) (decode_table_indices_device s2))
             (islice 0 (int n + 1) (decode_kv_indptr_device s2)) n 256 (launch_threads n 256)
             (decode_indices_device s2)\<rparr>
         else s2)"

definition prepare_decode :: "table \<Rightarrow> (nat \<Rightarrow> req) \<Rightarrow> batch \<Rightarrow> flashinfer \<Rightarrow> attn_metadata \<times> flashinfer" where
  "prepare_decode pt q b s =
     (let rs = padded_reqs b; n = length rs;
          total_kv_len = sum_list (map (\<lambda>r. device_len (q r)) rs);
          (ones, s4) = get_ones_device (int n) (fill_decode_workspace pt q rs s)
      in (\<lparr>md_is_prefill = is_prefill b,
           seq_lens = map (\<lambda>r. device_len (q r)) rs,
           cached_lens = map (\<lambda>r. cached_len (q r)) rs,
           qo_indptr_host = map int [0..<n + 1],
           kv_indptr_host = islice 0 (int n + 1) (decode_kv_indptr_host s4),
           last_page_len_host = replicate n 1,
           indptr = islice 0 (int n + 1) (decode_kv_indptr_device s4),
           md_indices = islice 0 total_kv_len (decode_indices_device s4),
           paged_kv_indptr = [],
           paged_kv_last_page_len = ones,
           kv_indptr_host_tensor = Some (islice 0 (int n + 1) (decode_kv_indptr_host s4)),
           md_initialized = False, use_capture_buffers = False, decode_plan_state = None\<rparr>, s4))"

definition page_slice :: "table \<Rightarrow> req \<Rightarrow> int list result" where
  "page_slice pt r = res_bind (select_row pt (table_idx r)) (\<lambda>row. Inr (islice 0 (device_len r) row))"

fun res_list :: "('a \<Rightarrow> 'b result) \<Rightarrow> 'a list \<Rightarrow> 'b list result" where
  "res_list f [] = Inr []"
| "res_list f (x # xs) = res_bind (f x) (\<lambda>y. res_bind (res_list f xs) (\<lambda>ys. Inr (y # ys)))"

definition prepare_prefill :: "table \<Rightarrow> (nat \<Rightarrow> req) \<Rightarrow> batch \<Rightarrow> attn_metadata result" where
  "prepare_prefill pt q b =
     (let rs = padded_reqs b;
          qo_lens = map (\<lambda>r. max 1 (extend_len (q r))) rs;
          kv_lens = map (\<lambda>r. device_len (q r)) rs;
          cls = map (\<lambda>r. cached_len (q r)) rs;
          kvs = indptr_from 0 kv_lens;
          all_no_cache_hit = list_all (\<lambda>c. c = 0) cls;
          qos = (if all_no_cache_hit then kvs else indptr_from 0 qo_lens) in
      res_bind (res_list (page_slice pt) (map q rs)) (\<lambda>slices.
      Inr \<lparr>md_is_prefill = is_prefill b, seq_lens = kv_lens, cached_lens = cls,
           qo_indptr_host = qos, kv_indptr_host = kvs, last_page_len_host = replicate (length rs) 1,
           indptr = (if is_prefill b then qos else kvs), md_indices = concat slices,
           paged_kv_indptr = (if is_prefill b then kvs else []),
           paged_kv_last_page_len = replicate (length rs) 1, kv_indptr_host_tensor = None,
           md_initialized = False, use_capture_buffers = False, decode_plan_state = None\<rparr>))"

definition prepare_metadata ::
  "table \<Rightarrow> (nat \<Rightarrow> req) \<Rightarrow> batch \<Rightarrow> flashinfer \<Rightarrow> (attn_metadata \<times> flashinfer) result" where
  "prepare_metadata pt q b s =
     (if is_decode b then Inr (prepare_decode pt q b s)
      else res_bind (prepare_prefill pt q b) (\<lambda>md. Inr (md, s)))"

definition get_last_indices :: "attn_metadata \<Rightarrow> int \<Rightarrow> int list" where
  "get_last_indices md bs = map (\<lambda>x. x - 1) (islice 1 (bs + 1) (indptr md))"

section \<open>Captured graphs\<close>

definition init_capture_graph :: "int \<Rightarrow> int list \<Rightarrow> flashinfer \<Rightarrow> flashinfer" where
  "init_capture_graph max_seq bs_list s =
     (if bs_list = [] then s\<lparr>decode_capture_data := None\<rparr>
      else
        (let mx = Max (set bs_list) in
         s\<lparr>decode_capture_data := Some
           \<lparr>dc_max_seq_len = max_seq, dc_max_batch_size = mx, dc_batch_sizes = bs_list,
            dc_kv_indptr_host = replicate (nat (mx + 1)) 0, dc_kv_indptr_device = replicate (nat (mx + 1)) 0,
            dc_indices = replicate (nat (mx * max_seq)) 0, dc_last_page_len = replicate (nat mx) 1,
            dc_metadata = (\<lambda>_. None)\<rparr>\<rparr>))"

definition initialize_decode_metadata_once ::
  "plan_fns \<Rightarrow> int list \<Rightarrow> nat \<Rightarrow> flashinfer \<Rightarrow> (plan_state \<times> flashinfer) result" where
  "initialize_decode_metadata_once fns kv_indptr bs s =
     res_bind (acquire_pinned_int_workspace s) (\<lambda>(slot, s1).
     case decode_plan fns kv_indptr bs of
       None \<Rightarrow> Inl (TorchCheck ''FlashInfer DecodePlan failed'')
     | Some (info, ws) \<Rightarrow>
         res_bind (record_workspace_copy_done slot (write_workspace slot ws s1)) (\<lambda>s2.
         Inr (\<lparr>plan = info, kv_chunk_size = ws_kv_chunk_size ws\<rparr>, s2)))"

text \<open>\<open>slice(0, 0, n)\<close> of a buffer overwritten by \<open>copy_\<close>.\<close>

definition overwrite :: "int \<Rightarrow> 'a list \<Rightarrow> 'a list \<Rightarrow> 'a list result" where
  "overwrite n src buf =
     res_bind (copy_to (length (islice 0 n buf)) src) (\<lambda>vals. Inr (vals @ drop (length vals) buf))"

definition prepare_for_capture ::
  "plan_fns \<Rightarrow> table \<Rightarrow> (nat \<Rightarrow> req) \<Rightarrow> batch \<Rightarrow> flashinfer \<Rightarrow> flashinfer result" where
  "prepare_for_capture fns pt q b s =
     res_bind (check (is_decode b) (TorchCheck ''FlashInfer capture only supports decode batches'')) (\<lambda>_.
     case decode_capture_data s of
       None \<Rightarrow> Inl (TorchCheck ''Decode capture state is not initialized'')
     | Some dc \<Rightarrow>
         (let n = padded_size b; ms = dc_max_seq_len dc;
              kvs = map (\<lambda>i. int i * ms) [0..<n + 1] in
          res_bind (overwrite (int n + 1) kvs (dc_kv_indptr_host dc)) (\<lambda>host.
          res_bind (overwrite (int n + 1) kvs (dc_kv_indptr_device dc)) (\<lambda>dev.
          res_bind (select_row pt (table_idx (q (hd (padded_reqs b))))) (\<lambda>row.
          res_bind (overwrite (int n * ms) (concat (replicate n (islice 0 ms row))) (dc_indices dc)) (\<lambda>idx.
          res_bind (overwrite (int n) (replicate n 1) (dc_last_page_len dc)) (\<lambda>lpl.
          res_bind (initialize_decode_metadata_once fns (islice 0 (int n + 1) host) n s) (\<lambda>(ps, s1).
          Inr (s1\<lparr>decode_capture_data := Some (dc\<lparr>dc_kv_indptr_host := host, dc_kv_indptr_device := dev,
             dc_indices := idx, dc_last_page_len := lpl,
             dc_metadata := (dc_metadata dc)(n \<mapsto> ps)\<rparr>)\<rparr>)))))))))"

text \<open>What a captured graph of batch size \<open>n\<close> reads.\<close>

definition capture_metadata :: "decode_capture \<Rightarrow> nat \<Rightarrow> plan_state \<Rightarrow> attn_metadata" where
  "capture_metadata dc n ps =
     \<lparr>md_is_prefill = False, seq_lens = [], cached_lens = [], qo_indptr_host = [], kv_indptr_host = [],
      last_page_len_host = replicate n 1,
      indptr = islice 0 (int n + 1) (dc_kv_indptr_device dc),
      md_indices = islice 0 (int n * dc_max_seq_len dc) (dc_indices dc), paged_kv_indptr = [],
      paged_kv_last_page_len = islice 0 (int n) (dc_last_page_len dc),
      kv_indptr_host_tensor = Some (islice 0 (int n + 1) (dc_kv_indptr_host dc)),
      md_initialized = True, use_capture_buffers = True, decode_plan_state = Some ps\<rparr>"

definition get_capture_metadata :: "nat \<Rightarrow> flashinfer \<Rightarrow> (decode_capture \<times> plan_state) result" where
  "get_capture_metadata n s =
     (case decode_capture_data s of
        None \<Rightarrow> Inl (TorchCheck ''Decode capture state is not initialized'')
      | Some dc \<Rightarrow>
          (case dc_metadata dc n of
             None \<Rightarrow> Inl (TorchCheck ''No decode capture metadata for batch size'')
           | Some ps \<Rightarrow> Inr (dc, ps)))"

definition replay_arrays :: "nat \<Rightarrow> int \<Rightarrow> bool \<Rightarrow> int list \<Rightarrow> int list \<Rightarrow> int list \<Rightarrow> plan_arrays \<Rightarrow> plan_arrays" where
  "replay_arrays padded chunk split req_idx tiles o_ptr ws =
     ws\<lparr>request_indices := req_idx @ replicate (padded - length req_idx) 0,
        kv_tile_indices := tiles @ replicate (padded - length tiles) 0,
        o_indptr := o_ptr @ replicate (padded + 1 - length o_ptr) (last o_ptr),
        ws_kv_chunk_size := chunk,
        block_valid_mask := (if split then replicate (length req_idx) True @ replicate (padded - length req_idx) False
                             else block_valid_mask ws)\<rparr>"

text \<open>The copies of the metadata into the buffers of the capture.\<close>

definition copy_to_capture :: "nat \<Rightarrow> attn_metadata \<Rightarrow> decode_capture \<Rightarrow> decode_capture result" where
  "copy_to_capture n md dc =
     res_bind (case kv_indptr_host_tensor md of
         Some kvs \<Rightarrow> overwrite (int n + 1) kvs (dc_kv_indptr_host dc)
       | None \<Rightarrow>
           res_bind (check (length (kv_indptr_host md) = n + 1) (TorchCheck ''Invalid kv_indptr_host size for replay''))
             (\<lambda>_. overwrite (int n + 1) (kv_indptr_host md) (dc_kv_indptr_host dc))) (\<lambda>host.
     res_bind (overwrite (int n + 1) (indptr md) (dc_kv_indptr_device dc)) (\<lambda>dev.
     res_bind (overwrite (int n) (paged_kv_last_page_len md) (dc_last_page_len dc)) (\<lambda>lpl.
     res_bind (if md_indices md = [] then Inr (dc_indices dc)
               else res_bind (overwrite (int (length (md_indices md))) (md_indices md)
                      (islice 0 (int n * dc_max_seq_len dc) (dc_indices dc)))
                    (\<lambda>idx. Inr (idx @ drop (length idx) (dc_indices dc)))) (\<lambda>idx.
     Inr (dc\<lparr>dc_kv_indptr_host := host, dc_kv_indptr_device := dev, dc_indices := idx, dc_last_page_len := lpl\<rparr>)))))"

definition prepare_for_replay ::
  "plan_fns \<Rightarrow> batch \<Rightarrow> attn_metadata \<Rightarrow> flashinfer \<Rightarrow> (attn_metadata \<times> flashinfer) result" where
  "prepare_for_replay fns b md s =
     res_bind (check (is_decode b) (TorchCheck ''FlashInfer replay only supports decode batches'')) (\<lambda>_.
     let n = padded_size b in
     res_bind (get_capture_metadata n s) (\<lambda>(dc, ps).
     res_bind (copy_to_capture n md dc) (\<lambda>dc'.
     res_bind (check (kv_chunk_size ps > 0) (TorchCheck ''Invalid FlashInfer decode kv chunk size'')) (\<lambda>_.
     res_bind (acquire_pinned_int_workspace s) (\<lambda>(slot, s1).
     let (req_idx, tiles, o_ptr) = split_kv_indptr fns (islice 0 (int n + 1) (dc_kv_indptr_host dc')) n (kv_chunk_size ps);
         padded = padded_batch_size (plan ps) in
     res_bind (check (length req_idx \<le> padded) (TorchCheck ''FlashInfer replay request tile count exceeds captured plan capacity'')) (\<lambda>_.
     res_bind (check (length tiles \<le> padded) (TorchCheck ''FlashInfer replay KV tile count exceeds captured plan capacity'')) (\<lambda>_.
     res_bind (check (length o_ptr = n + 1) (TorchCheck ''Invalid FlashInfer replay o_indptr size'')) (\<lambda>_.
     let ws = replay_arrays padded (kv_chunk_size ps) (split_kv (plan ps)) req_idx tiles o_ptr
                (pinned_int_workspaces s1 ! slot) in
     res_bind (record_workspace_copy_done slot (write_workspace slot ws s1)) (\<lambda>s2.
     Inr (capture_metadata dc' n ps, s2\<lparr>decode_capture_data := Some dc'\<rparr>))))))))))"

end
