(* ===== verification/Device.thy ===== *)
theory Device
  imports Kernel TokenPool
begin

text \<open>
  The kernels of the program itself: the scatter of keys and values into the cache,
  \<^verbatim>\<open>src/kvcache/mha_kvcache.cu\<close>, the rotary embedding for head sizes that FlashInfer does not
  support, \<^verbatim>\<open>src/layers/rotary_embedding.cu\<close>, and the normalization of queries and keys,
  \<^verbatim>\<open>src/layers/normalization.cu\<close>. Memory is a list of scalars, a tensor the place of its first
  element and its strides. Scalars are of any type with the operations that a kernel uses: rounding
  between the formats of floating point numbers is left out.
\<close>

section \<open>Storing keys and values\<close>

record 'a mha_kvcache =
  kv_heads :: nat
  kv_head_dim :: nat
  k_buffer :: "'a list list"
  v_buffer :: "'a list list"

record 'a kv_tensor =
  t_sizes :: "nat list"
  t_stride :: nat
  t_data :: "'a list"

definition mha_kvcache_init :: "nat \<Rightarrow> nat \<Rightarrow> nat \<Rightarrow> nat \<Rightarrow> nat \<Rightarrow> (nat \<Rightarrow> 'a) \<Rightarrow> 'a mha_kvcache" where
  "mha_kvcache_init num_kv_heads num_layers hdim num_pages ps junk =
     (let slots = num_pages * ps; layer = map junk [0..<slots * num_kv_heads * hdim] in
      \<lparr>kv_heads = num_kv_heads, kv_head_dim = hdim, k_buffer = replicate num_layers layer, v_buffer = replicate num_layers layer\<rparr>)"

text \<open>\<open>view({-1, heads, dim})\<close> of a matrix whose rows are \<open>t_stride\<close> apart.\<close>

definition view_heads :: "nat \<Rightarrow> nat \<Rightarrow> 'a kv_tensor \<Rightarrow> 'a kv_tensor result" where
  "view_heads h hdim t =
     (case t_sizes t of
        [n, m] \<Rightarrow>
          if m = h * hdim then Inr (t\<lparr>t_sizes := [n, h, hdim]\<rparr>)
          else if t_stride t = m \<and> 0 < h * hdim \<and> n * m mod (h * hdim) = 0
          then Inr (t\<lparr>t_sizes := [n * m div (h * hdim), h, hdim], t_stride := h * hdim\<rparr>)
          else Inl (RuntimeError ''view size is not compatible with input tensor'')
      | _ \<Rightarrow> Inr t)"

text \<open>The stores of a thread into one of the two caches.\<close>

definition store_kv_stores ::
  "int list \<Rightarrow> nat \<Rightarrow> nat \<Rightarrow> nat \<Rightarrow> 'a list \<Rightarrow> nat \<Rightarrow> nat \<times> nat \<Rightarrow> (nat \<times> 'a) list" where
  "store_kv_stores loc num_tokens elems stride src bdim = (\<lambda>(blk, tid).
     let warp_id = tid div 32; lane = tid mod 32; warps_per_block = bdim div 32;
         token_idx = blk * warps_per_block + warp_id in
     if token_idx \<ge> num_tokens then []
     else map (\<lambda>elem. (nat (loc ! token_idx) * elems + elem, src ! (token_idx * stride + elem)))
            (thread_positions lane elems 32))"

definition store_kv_cache_kernel ::
  "int list \<Rightarrow> nat \<Rightarrow> nat \<Rightarrow> nat \<Rightarrow> 'a list \<Rightarrow> nat \<Rightarrow> (nat \<times> nat) list \<Rightarrow> 'a list \<Rightarrow> 'a list" where
  "store_kv_cache_kernel loc num_tokens elems stride src bdim threads cache =
     put (concat (map (store_kv_stores loc num_tokens elems stride src bdim) threads)) cache"

text \<open>\<open>threads\<close> gives the order in which the threads of a launch run.\<close>

definition store_kv ::
  "(nat \<Rightarrow> nat \<Rightarrow> (nat \<times> nat) list) \<Rightarrow> 'a kv_tensor \<Rightarrow> 'a kv_tensor \<Rightarrow> int list \<Rightarrow> nat \<Rightarrow> 'a mha_kvcache \<Rightarrow>
   'a mha_kvcache result" where
  "store_kv threads key val loc layer kv =
     res_bind (view_heads (kv_heads kv) (kv_head_dim kv) key) (\<lambda>k.
     res_bind (view_heads (kv_heads kv) (kv_head_dim kv) val) (\<lambda>v.
     res_bind (check (length (t_sizes k) = 3 \<and> length (t_sizes v) = 3) (TorchCheck ''key and val must be rank 2 or 3'')) (\<lambda>_.
     res_bind (check (t_sizes k ! 0 = t_sizes v ! 0 \<and> t_sizes k ! 0 = length loc)
         (TorchCheck ''key, val and out_loc token counts must match'')) (\<lambda>_.
     res_bind (check (t_sizes k ! 1 = kv_heads kv \<and> t_sizes v ! 1 = kv_heads kv \<and>
         t_sizes k ! 2 = kv_head_dim kv \<and> t_sizes v ! 2 = kv_head_dim kv)
         (TorchCheck ''key and val shape must match KV cache layout'')) (\<lambda>_.
     res_bind (check (layer < length (k_buffer kv)) (IndexError ''index is out of bounds for dimension 0'')) (\<lambda>_.
     let n = t_sizes k ! 0; elems = kv_heads kv * kv_head_dim kv; order = threads ((n + 3) div 4) 128 in
     if n = 0 then Inr kv
     else
       Inr (kv\<lparr>k_buffer := (k_buffer kv)[layer := store_kv_cache_kernel loc n elems (t_stride k) (t_data k) 128 order (k_buffer kv ! layer)],
               v_buffer := (v_buffer kv)[layer := store_kv_cache_kernel loc n elems (t_stride v) (t_data v) 128 order (v_buffer kv ! layer)]\<rparr>)))))))"

section \<open>The rotary embedding\<close>

record rotary_dims =
  nnz :: nat
  num_qo_heads :: nat
  num_kv_heads :: nat
  rotary_dim :: nat
  rot_head_dim :: nat
  q_base :: nat
  q_stride_n :: nat
  q_stride_h :: nat
  k_base :: nat
  k_stride_n :: nat
  k_stride_h :: nat

text \<open>The token of a row and the place of its first element; queries come before keys.\<close>

definition rotary_row :: "rotary_dims \<Rightarrow> nat \<Rightarrow> (nat \<times> nat) option" where
  "rotary_row d row =
     (let total_rows = nnz d * (num_qo_heads d + num_kv_heads d) in
      if row \<ge> total_rows then None
      else if row < nnz d * num_qo_heads d then
        (let token = row div num_qo_heads d; head = row - token * num_qo_heads d in
         Some (token, q_base d + token * q_stride_n d + head * q_stride_h d))
      else
        (let k_row = row - nnz d * num_qo_heads d; token = k_row div num_kv_heads d;
             head = k_row - token * num_kv_heads d in
         Some (token, k_base d + token * k_stride_n d + head * k_stride_h d)))"

text \<open>One iteration of the loop of a thread: it reads two elements and writes one of them.\<close>

definition rotary_step ::
  "(nat \<Rightarrow> 'a) \<Rightarrow> (nat \<Rightarrow> 'a) \<Rightarrow> nat \<Rightarrow> nat \<Rightarrow> nat \<Rightarrow> 'a list \<Rightarrow> 'a::{plus, times, uminus} list" where
  "rotary_step c sn rdim base i mem =
     (if i \<ge> rdim then mem
      else
        (let half = rdim div 2;
             other_idx = (if i < half then i + half else i - half);
             x = mem ! (base + i); other = mem ! (base + other_idx) in
         mem[base + i := x * c i + (if i < half then - other else other) * sn i]))"

text \<open>What the caches hold for element \<open>i\<close> of a row at position \<open>pos\<close>.\<close>

definition cache_at :: "'a list \<Rightarrow> nat \<Rightarrow> nat \<Rightarrow> nat \<Rightarrow> nat \<Rightarrow> 'a" where
  "cache_at cache width rdim pos i =
     (let half = rdim div 2; pair_idx = (if i < half then i else i - half) in
      cache ! (pos * width + (if width = rdim then i else pair_idx)))"

definition rotary_thread ::
  "'a list \<Rightarrow> 'a list \<Rightarrow> nat \<Rightarrow> nat \<Rightarrow> int list \<Rightarrow> rotary_dims \<Rightarrow> nat \<Rightarrow> nat \<times> nat \<Rightarrow> 'a list \<Rightarrow>
   'a::{plus, times, uminus} list" where
  "rotary_thread cos_cache sin_cache cos_w sin_w ps d bdim = (\<lambda>(row, tid) mem.
     case rotary_row d row of
       None \<Rightarrow> mem
     | Some (token, base) \<Rightarrow>
         (let pos = nat (ps ! token) in
          fold (rotary_step (cache_at cos_cache cos_w (rotary_dim d) pos) (cache_at sin_cache sin_w (rotary_dim d) pos)
                  (rotary_dim d) base)
            (thread_positions tid (rot_head_dim d) bdim) mem))"

definition rotary_kernel ::
  "'a list \<Rightarrow> 'a list \<Rightarrow> nat \<Rightarrow> nat \<Rightarrow> int list \<Rightarrow> rotary_dims \<Rightarrow> nat \<Rightarrow> (nat \<times> nat) list \<Rightarrow> 'a list \<Rightarrow>
   'a::{plus, times, uminus} list" where
  "rotary_kernel cos_cache sin_cache cos_w sin_w ps d bdim threads mem =
     fold (rotary_thread cos_cache sin_cache cos_w sin_w ps d bdim) threads mem"

text \<open>
  The class around the kernel. \<open>pow\<close>, \<open>cosf\<close>, \<open>sinf\<close> are functions of the tensor library; the caches hold
  one angle for every pair of elements, row by row. FlashInfer's kernel for the usual head sizes, and the order of the threads
  of the repository's own kernel, are parameters.
\<close>

record 'a rotary_embedding =
  re_rotary_dim :: nat
  re_width :: nat
  re_cos_cache :: "'a list"
  re_sin_cache :: "'a list"

definition rotary_angles :: "('a \<Rightarrow> 'a \<Rightarrow> 'a) \<Rightarrow> nat \<Rightarrow> nat \<Rightarrow> 'a \<Rightarrow> 'a::field list" where
  "rotary_angles pow rdim max_pos base =
     (let inv_freq = map (\<lambda>j. 1 / pow base (of_nat (2 * j) / of_nat rdim)) [0..<(rdim + 1) div 2] in
      concat (map (\<lambda>t. map (\<lambda>f. of_nat t * f) inv_freq) [0..<max_pos]))"

definition rotary_embedding_init ::
  "('a \<Rightarrow> 'a \<Rightarrow> 'a) \<Rightarrow> ('a \<Rightarrow> 'a) \<Rightarrow> ('a \<Rightarrow> 'a) \<Rightarrow> nat \<Rightarrow> nat \<Rightarrow> 'a \<Rightarrow> 'a::field rotary_embedding" where
  "rotary_embedding_init pow cosf sinf rdim max_pos base =
     (let freqs = rotary_angles pow rdim max_pos base in
      \<lparr>re_rotary_dim = rdim, re_width = (rdim + 1) div 2, re_cos_cache = map cosf freqs, re_sin_cache = map sinf freqs\<rparr>)"

definition is_flashinfer_supported_head_dim :: "nat \<Rightarrow> bool" where
  "is_flashinfer_supported_head_dim hdim \<longleftrightarrow> hdim = 64 \<or> hdim = 128 \<or> hdim = 256 \<or> hdim = 512"

definition rotary_forward_inplace ::
  "('a list \<Rightarrow> 'a list \<Rightarrow> int list \<Rightarrow> rotary_dims \<Rightarrow> 'a list \<Rightarrow> 'a list) \<Rightarrow> 'a rotary_embedding \<Rightarrow> int list \<Rightarrow> rotary_dims \<Rightarrow>
   (nat \<times> nat) list \<Rightarrow> 'a list \<Rightarrow> 'a::{plus, times, uminus} list result" where
  "rotary_forward_inplace fi re ps d threads mem =
     (let w = re_width re; rdim = re_rotary_dim re; d = d\<lparr>rotary_dim := rdim\<rparr> in
      if \<not> is_flashinfer_supported_head_dim (rot_head_dim d) then
        res_bind (check (rdim mod 2 = 0) (TorchCheck ''rotary_dim must be even'')) (\<lambda>_.
        res_bind (check (w = rdim \<or> w = rdim div 2) (TorchCheck ''cos cache width must be rotary_dim or rotary_dim / 2'')) (\<lambda>_.
        Inr (rotary_kernel (re_cos_cache re) (re_sin_cache re) w w ps d 128 threads mem)))
      else Inr (fi (re_cos_cache re) (re_sin_cache re) ps d mem))"

section \<open>The normalization of queries and keys\<close>

text \<open>The elements that a lane visits: one at a time, or eight.\<close>

definition lane_elements :: "bool \<Rightarrow> nat \<Rightarrow> nat \<Rightarrow> nat list" where
  "lane_elements vec d lane =
     (if vec then concat (map (\<lambda>b. map (\<lambda>i. b + i) [0..<8]) (thread_positions (lane * 8) d (32 * 8)))
      else thread_positions lane d 32)"

definition warp_norm ::
  "('a \<Rightarrow> 'a) \<Rightarrow> 'a \<Rightarrow> bool \<Rightarrow> nat \<Rightarrow> 'a list \<Rightarrow> nat \<Rightarrow> nat list \<Rightarrow> 'a list \<Rightarrow> 'a::field list" where
  "warp_norm rsqrt eps vec d weight base lanes mem =
     (let sum_sq = warp_sum (\<lambda>lane. \<Sum>i\<leftarrow>lane_elements vec d lane. mem ! (base + i) * mem ! (base + i));
          scale = (\<lambda>lane. rsqrt (sum_sq lane / of_nat d + eps)) in
      put (concat (map (\<lambda>lane. map (\<lambda>i. (base + i, mem ! (base + i) * scale lane * weight ! i))
             (lane_elements vec d lane)) lanes)) mem)"

record norm_dims =
  nd_tokens :: nat
  nd_heads :: nat
  nd_base :: nat
  stride_token :: nat
  stride_head :: nat

definition norm_row :: "norm_dims \<Rightarrow> nat \<Rightarrow> nat" where
  "norm_row nd job =
     (let token = job div nd_heads nd; head = job - token * nd_heads nd in
      nd_base nd + token * stride_token nd + head * stride_head nd)"

text \<open>Job \<open>job\<close> of \<open>forward_inplace_3d_strided\<close>, and of the kernel for queries and keys together.\<close>

definition qk_rmsnorm_job ::
  "('a \<Rightarrow> 'a) \<Rightarrow> 'a \<Rightarrow> bool \<Rightarrow> nat \<Rightarrow> norm_dims \<Rightarrow> 'a list \<Rightarrow> nat \<Rightarrow> 'a list \<Rightarrow> 'a::field list" where
  "qk_rmsnorm_job rsqrt eps vec d nd weight job mem =
     (if job \<ge> nd_tokens nd * nd_heads nd then mem
      else warp_norm rsqrt eps vec d weight (norm_row nd job) [0..<32] mem)"

definition fused_rmsnorm_job ::
  "('a \<Rightarrow> 'a) \<Rightarrow> 'a \<Rightarrow> bool \<Rightarrow> nat \<Rightarrow> norm_dims \<Rightarrow> norm_dims \<Rightarrow> 'a list \<Rightarrow> 'a list \<Rightarrow> nat \<Rightarrow> 'a list \<Rightarrow> 'a::field list" where
  "fused_rmsnorm_job rsqrt eps vec d q k q_weight k_weight job mem =
     (let q_rows = nd_tokens q * nd_heads q; total_rows = q_rows + nd_tokens q * nd_heads k in
      if job \<ge> total_rows then mem
      else if job < q_rows then warp_norm rsqrt eps vec d q_weight (norm_row q job) [0..<32] mem
      else warp_norm rsqrt eps vec d k_weight (norm_row k (job - q_rows)) [0..<32] mem)"

text \<open>The launches: four warps a block, the vectorised kernel when the size allows it.\<close>

definition norm_jobs :: "nat \<Rightarrow> nat list" where
  "norm_jobs rows = [0..<(rows + 3) div 4 * 4]"

definition forward_inplace_3d_strided ::
  "('a \<Rightarrow> 'a) \<Rightarrow> 'a \<Rightarrow> nat \<Rightarrow> norm_dims \<Rightarrow> 'a list \<Rightarrow> 'a list \<Rightarrow> ('a::field list) result" where
  "forward_inplace_3d_strided rsqrt eps d nd weight mem =
     res_bind (check (length weight = d) (TorchCheck ''RMSNorm weight size must match last dimension'')) (\<lambda>_.
     let rows = nd_tokens nd * nd_heads nd in
     if rows = 0 then Inr mem
     else Inr (fold (qk_rmsnorm_job rsqrt eps (d mod 8 = 0) d nd weight) (norm_jobs rows) mem))"

definition fused_qk_rmsnorm ::
  "('a \<Rightarrow> 'a) \<Rightarrow> 'a \<Rightarrow> 'a \<Rightarrow> nat \<Rightarrow> norm_dims \<Rightarrow> norm_dims \<Rightarrow> 'a list \<Rightarrow> 'a list \<Rightarrow> 'a list \<Rightarrow> ('a::field list) result" where
  "fused_qk_rmsnorm rsqrt q_eps k_eps d q k q_weight k_weight mem =
     res_bind (check (nd_tokens q = nd_tokens k) (TorchCheck ''q and k token dimensions must match'')) (\<lambda>_.
     res_bind (check (length q_weight = d \<and> length k_weight = d) (TorchCheck ''RMSNorm weight size must match last dimension'')) (\<lambda>_.
     let total_rows = nd_tokens q * (nd_heads q + nd_heads k) in
     if total_rows = 0 then Inr mem
     else
       res_bind (check (q_eps = k_eps) (TorchCheck ''Q and K RMSNorm eps must match'')) (\<lambda>_.
       Inr (fold (fused_rmsnorm_job rsqrt q_eps (d mod 8 = 0) d q k q_weight k_weight) (norm_jobs total_rows) mem))))"

end
