(* ===== verification/Forward.thy ===== *)
theory Forward
  imports Attention Device
begin

text \<open>
  One layer of attention, \<^verbatim>\<open>FlashInferBackend::forward\<close> of \<^verbatim>\<open>src/attention/flashinfer_backend.cu\<close>: the
  keys and values of the batch are stored, the plan of a decode batch is made by its first layer and
  kept for the others, and the kernels of FlashInfer run on the metadata. Those kernels, and the
  planner of prefill batches, are parameters; queries and results are lists of rows.
\<close>

text \<open>
  \<open>paged_decode\<close> and \<open>paged_prefill\<close> get the caches of the layer, the offsets, the pages, the last
  page lengths, the queries and what the plan left in the workspace; \<open>None\<close> is a failure.
\<close>

record 'a attn_ops =
  prefill_plan :: "int list \<Rightarrow> int list \<Rightarrow> nat \<Rightarrow> (nat \<times> plan_arrays) option"
  paged_decode :: "'a list \<Rightarrow> 'a list \<Rightarrow> int list \<Rightarrow> int list \<Rightarrow> int list \<Rightarrow> 'a list list \<Rightarrow> plan_info \<Rightarrow>
    plan_arrays \<Rightarrow> 'a list list option"
  paged_prefill :: "nat \<Rightarrow> 'a list \<Rightarrow> 'a list \<Rightarrow> int list \<Rightarrow> int list \<Rightarrow> int list \<Rightarrow> int list \<Rightarrow> 'a list list \<Rightarrow>
    plan_arrays \<Rightarrow> 'a list list option"

definition decode_initialized ::
  "plan_fns \<Rightarrow> nat \<Rightarrow> attn_metadata \<Rightarrow> flashinfer \<Rightarrow> (attn_metadata \<times> flashinfer) result" where
  "decode_initialized fns n md s =
     (if md_initialized md then Inr (md, s)
      else
        res_bind (initialize_decode_metadata_once fns
            (case kv_indptr_host_tensor md of Some h \<Rightarrow> h | None \<Rightarrow> kv_indptr_host md) n s) (\<lambda>(ps, s1).
        Inr (md\<lparr>decode_plan_state := Some ps, md_initialized := True\<rparr>, s1)))"

definition forward_decode ::
  "plan_fns \<Rightarrow> 'a attn_ops \<Rightarrow> 'a list list \<Rightarrow> 'a list \<Rightarrow> 'a list \<Rightarrow> nat \<Rightarrow> attn_metadata \<Rightarrow> flashinfer \<Rightarrow>
   ('a list list \<times> attn_metadata \<times> flashinfer) result" where
  "forward_decode fns ops q kb vb n md s =
     res_bind (decode_initialized fns n md s) (\<lambda>(md1, s1).
     case decode_plan_state md1 of
       None \<Rightarrow> Inl (TorchCheck ''FlashInfer decode plan state is not initialized'')
     | Some ps \<Rightarrow>
         (case paged_decode ops kb vb (indptr md1) (md_indices md1) (paged_kv_last_page_len md1) q (plan ps) (int_workspace s1) of
            None \<Rightarrow> Inl (TorchCheck ''FlashInfer Decode Run failed'')
          | Some out \<Rightarrow> Inr (out, md1, s1)))"

definition forward_prefill ::
  "'a attn_ops \<Rightarrow> 'a list list \<Rightarrow> 'a list \<Rightarrow> 'a list \<Rightarrow> nat \<Rightarrow> attn_metadata \<Rightarrow> flashinfer \<Rightarrow>
   ('a list list \<times> attn_metadata \<times> flashinfer) result" where
  "forward_prefill ops q kb vb n md s =
     (let total_num_rows = nat (qo_indptr_host md ! n) in
      res_bind (acquire_pinned_int_workspace s) (\<lambda>(slot, s1).
      case prefill_plan ops (qo_indptr_host md) (kv_indptr_host md) total_num_rows of
        None \<Rightarrow> Inl (TorchCheck ''FlashInfer PrefillPlan failed'')
      | Some (cta_tile_q, ws) \<Rightarrow>
          res_bind (record_workspace_copy_done slot (write_workspace slot ws s1)) (\<lambda>s2.
          res_bind (check (cta_tile_q = 128 \<or> cta_tile_q = 64 \<or> cta_tile_q = 16) (TorchCheck ''Unsupported cta_tile_q'')) (\<lambda>_.
          case paged_prefill ops cta_tile_q kb vb (indptr md) (paged_kv_indptr md) (md_indices md)
                 (paged_kv_last_page_len md) q (int_workspace s2) of
            None \<Rightarrow> Inl (TorchCheck ''FlashInfer Prefill Run failed'')
          | Some out \<Rightarrow> Inr (out, md, s2)))))"

definition attn_forward ::
  "plan_fns \<Rightarrow> 'a attn_ops \<Rightarrow> (nat \<Rightarrow> nat \<Rightarrow> (nat \<times> nat) list) \<Rightarrow> 'a list list \<Rightarrow> 'a kv_tensor \<Rightarrow> 'a kv_tensor \<Rightarrow> nat \<Rightarrow>
   batch \<Rightarrow> attn_metadata \<times> flashinfer \<times> 'a mha_kvcache \<Rightarrow>
   ('a list list \<times> attn_metadata \<times> flashinfer \<times> 'a mha_kvcache) result" where
  "attn_forward fns ops threads q key val layer b = (\<lambda>(md, s, kv).
     res_bind (view_heads (kv_heads kv) (kv_head_dim kv) key) (\<lambda>k_3d.
     res_bind (view_heads (kv_heads kv) (kv_head_dim kv) val) (\<lambda>v_3d.
     res_bind (store_kv threads k_3d v_3d (out_loc b) layer kv) (\<lambda>kv1.
     let n = length (padded_reqs b); kb = k_buffer kv1 ! layer; vb = v_buffer kv1 ! layer in
     res_bind (if \<not> md_is_prefill md then forward_decode fns ops q kb vb n md s else forward_prefill ops q kb vb n md s)
       (\<lambda>(out, md1, s1). Inr (out, md1, s1, kv1))))))"

end
