(* ===== verification/Graphs.thy ===== *)
theory Graphs
  imports Attention
begin

text \<open>
  The capture and the replay of the CUDA graphs, \<^verbatim>\<open>src/engine/engine.cc\<close>: the buffers that a
  captured graph reads, and their contents before a replay. What the graph computes is left out;
  replaying it runs the captured kernels on the buffers and on the metadata given here.
\<close>

section \<open>Definitions\<close>

record graph_buffers =
  gb_input_ids :: "int list"
  gb_out_loc :: "int list"
  gb_positions :: "int list"

definition graph_buffers_init :: "nat \<Rightarrow> graph_buffers" where
  "graph_buffers_init n = \<lparr>gb_input_ids = replicate n 0, gb_out_loc = replicate n 0, gb_positions = replicate n 0\<rparr>"

definition copy_from :: "batch \<Rightarrow> graph_buffers \<Rightarrow> graph_buffers result" where
  "copy_from b g =
     (let count = int (padded_size b) in
      res_bind (overwrite count (batch_input_ids b) (gb_input_ids g)) (\<lambda>ids.
      res_bind (overwrite count (out_loc b) (gb_out_loc g)) (\<lambda>loc.
      res_bind (overwrite count (positions b) (gb_positions g)) (\<lambda>pos.
      Inr \<lparr>gb_input_ids = ids, gb_out_loc = loc, gb_positions = pos\<rparr>))))"

type_synonym graph_map = "nat \<Rightarrow> graph_buffers option"

definition capture_batch :: "nat \<Rightarrow> nat \<Rightarrow> batch" where
  "capture_batch dummy n =
     \<lparr>reqs = replicate n dummy, phase = Decode, batch_input_ids = replicate n 0, positions = replicate n 0,
      out_loc = replicate n 0, padded_reqs = replicate n dummy\<rparr>"

definition capture_one ::
  "plan_fns \<Rightarrow> table \<Rightarrow> (nat \<Rightarrow> req) \<Rightarrow> nat \<Rightarrow> int \<Rightarrow> graph_map \<times> flashinfer \<Rightarrow> (graph_map \<times> flashinfer) result" where
  "capture_one fns pt q dummy bsize = (\<lambda>(gm, s).
     let n = nat bsize in
     res_bind (prepare_for_capture fns pt q (capture_batch dummy n) s) (\<lambda>s1.
     res_bind (select_row pt (table_idx (q dummy))) (\<lambda>row.
     res_bind (copy_to n (islice 0 (int n) row)) (\<lambda>loc.
     Inr (gm(n \<mapsto> (graph_buffers_init n)\<lparr>gb_out_loc := loc\<rparr>), s1)))))"

definition capture_graphs ::
  "plan_fns \<Rightarrow> table \<Rightarrow> (nat \<Rightarrow> req) \<Rightarrow> graph_runner \<Rightarrow> flashinfer \<Rightarrow> (graph_map \<times> flashinfer) result" where
  "capture_graphs fns pt q g s =
     (if graph_batch_sizes g = [] then Inr (Map.empty, s)
      else res_fold (capture_one fns pt q (dummy_req g)) (rev (graph_batch_sizes g))
             (Map.empty, init_capture_graph (capture_max_seq_len g) (graph_batch_sizes g) s))"

text \<open>What the graph that is replayed reads, and the state after it.\<close>

definition graph_replay ::
  "plan_fns \<Rightarrow> (nat \<Rightarrow> req) \<Rightarrow> graph_runner \<Rightarrow> batch \<Rightarrow> attn_metadata \<Rightarrow> graph_map \<Rightarrow> flashinfer \<Rightarrow>
   (graph_buffers \<times> attn_metadata \<times> graph_map \<times> flashinfer) result" where
  "graph_replay fns q g b md gm s =
     res_bind (check (can_use_cuda_graph q g b) (TorchCheck ''CUDA graph replay is not available for this batch'')) (\<lambda>_.
     case gm (padded_size b) of
       None \<Rightarrow> Inl (TorchCheck ''No CUDA graph captured for batch size'')
     | Some gb \<Rightarrow>
         res_bind (copy_from b gb) (\<lambda>gb'.
         res_bind (prepare_for_replay fns b md s) (\<lambda>(md', s').
         Inr (gb', md', gm(padded_size b \<mapsto> gb'), s'))))"

end
