(* ===== verification/AttentionProps.thy ===== *)
theory AttentionProps
  imports Attention PagePool
begin

text \<open>
  The pages that the attention of a batch reads are the rows of the page table of its requests, up
  to their lengths, whether the metadata is prepared on the host or by the kernel.
\<close>

section \<open>Running sums\<close>

lemma length_indptr_from [simp]: "length (indptr_from a ls) = Suc (length ls)"
  by (induction ls arbitrary: a) simp_all

lemma nth_indptr_from: "i \<le> length ls \<Longrightarrow> indptr_from a ls ! i = a + sum_list (take i ls)"
  by (induction ls arbitrary: a i) (auto simp: nth_Cons' take_Cons')

definition row_pages :: "table \<Rightarrow> req \<Rightarrow> int list" where
  "row_pages pt r = take (nat (device_len r)) (pt ! nat (table_idx r))"

definition reads_ok :: "table \<Rightarrow> req \<Rightarrow> bool" where
  "reads_ok pt r \<longleftrightarrow> 0 \<le> table_idx r \<and> table_idx r < int (length pt) \<and> 0 \<le> device_len r \<and>
     nat (device_len r) \<le> length (pt ! nat (table_idx r)) \<and> length (pt ! nat (table_idx r)) = table_cols pt"

definition kv_view :: "int list \<Rightarrow> 'a list \<Rightarrow> 'a list list" where
  "kv_view ptr idx = map (\<lambda>i. islice (ptr ! i) (ptr ! (i + 1)) idx) [0..<length ptr - 1]"

lemma length_row_pages: "reads_ok pt r \<Longrightarrow> length (row_pages pt r) = nat (device_len r)"
  by (simp add: row_pages_def reads_ok_def)

lemma device_lens:
  "\<forall>r\<in>set rs. reads_ok pt r \<Longrightarrow> map device_len rs = map (\<lambda>xs. int (length xs)) (map (row_pages pt) rs)"
  by (auto simp: length_row_pages) (simp add: reads_ok_def)

lemma sum_lengths: "sum_list (map (\<lambda>xs. int (length xs)) xss) = int (length (concat xss))"
  by (induction xss) simp_all

lemma nth_indptr_lengths:
  "i \<le> length xss \<Longrightarrow> indptr_from 0 (map (\<lambda>xs. int (length xs)) xss) ! i = int (length (concat (take i xss)))"
  by (simp add: nth_indptr_from take_map sum_lengths)

lemma kv_view_concat: "kv_view (indptr_from 0 (map (\<lambda>xs. int (length xs)) xss)) (concat xss @ rest) = xss"
proof (rule nth_equalityI)
  show "length (kv_view (indptr_from 0 (map (\<lambda>xs. int (length xs)) xss)) (concat xss @ rest)) = length xss"
    by (simp add: kv_view_def)
  fix i
  assume "i < length (kv_view (indptr_from 0 (map (\<lambda>xs. int (length xs)) xss)) (concat xss @ rest))"
  then have i: "i < length xss" by (simp add: kv_view_def)
  have "concat xss = concat (take i xss) @ xss ! i @ concat (drop (Suc i) xss)"
    using i by (metis concat.simps(2) concat_append id_take_nth_drop)
  moreover have "concat (take (Suc i) xss) = concat (take i xss) @ xss ! i"
    using i by (simp add: take_Suc_conv_app_nth)
  ultimately show "kv_view (indptr_from 0 (map (\<lambda>xs. int (length xs)) xss)) (concat xss @ rest) ! i = xss ! i"
    using i by (simp add: kv_view_def nth_indptr_lengths islice_nonneg tslice_def)
qed

lemma row_pages_total:
  assumes "\<forall>r\<in>set rs. reads_ok pt r"
  shows "sum_list (map device_len rs) = int (length (concat (map (row_pages pt) rs)))"
  unfolding device_lens [OF assms] by (rule sum_lengths)

section \<open>The kernel\<close>

lemma zip_blocks:
  "concat (map (\<lambda>i. zip [length (concat (take i xss))..<length (concat (take (Suc i) xss))] (xss ! i)) [0..<n]) =
     zip [0..<length (concat (take n xss))] (concat (take n xss))" if "n \<le> length xss"
  using that
proof (induction n)
  case (Suc n)
  let ?a = "length (concat (take n xss))" and ?b = "length (concat (take (Suc n) xss))"
  have c: "concat (take (Suc n) xss) = concat (take n xss) @ xss ! n"
    using Suc.prems by (simp add: take_Suc_conv_app_nth)
  then have ab: "?b = ?a + length (xss ! n)" by simp
  then have "zip [0..<?b] (concat (take n xss) @ xss ! n) = zip [0..<?a] (concat (take n xss)) @ zip [?a..<?b] (xss ! n)"
    using upt_add_eq_append [of 0 ?a "length (xss ! n)"] by (simp only: add_0) (simp add: zip_append)
  then have "zip [0..<?b] (concat (take (Suc n) xss)) = zip [0..<?a] (concat (take n xss)) @ zip [?a..<?b] (xss ! n)"
    by (simp only: c)
  then show ?case using Suc by (simp only: upt_Suc_append zero_le map_append concat_append) simp
qed simp

lemma put_zip: "length vs \<le> length mem \<Longrightarrow> put (zip [0..<length vs] vs) mem = vs @ drop (length vs) mem"
proof -
  assume "length vs \<le> length mem"
  moreover have "zip [0..<length vs] vs = map (\<lambda>p. (0 + p, vs ! p)) [0..<length vs]"
    by (rule nth_equalityI) simp_all
  ultimately show ?thesis using put_block [of 0 "length vs" mem "(!) vs"] by (simp add: map_nth)
qed

text \<open>What block \<open>i\<close> stores, up to the order.\<close>

lemma block_stores:
  assumes rows: "\<And>r. r \<in> set rs \<Longrightarrow> reads_ok pt r" and i: "i < length rs" and bdim: "0 < bdim"
  shows "mset (concat (map (\<lambda>t. decode_index_stores pt (map table_idx rs) (indptr_from 0 (map device_len rs)) (length rs) bdim (i, t))
      [0..<bdim])) =
    mset (zip [length (concat (take i (map (row_pages pt) rs)))..<length (concat (take (Suc i) (map (row_pages pt) rs)))]
      (row_pages pt (rs ! i)))"
proof -
  let ?R = "map (row_pages pt) rs" and ?r = "rs ! i"
  let ?a = "length (concat (take i ?R))" and ?n = "nat (device_len (rs ! i))"
  have r: "reads_ok pt ?r" using rows i by simp
  have lens: "map device_len rs = map (\<lambda>xs. int (length xs)) ?R"
    using rows device_lens by blast
  have c: "concat (take (Suc i) ?R) = concat (take i ?R) @ row_pages pt ?r"
    using i by (simp add: take_Suc_conv_app_nth)
  have ptr: "indptr_from 0 (map device_len rs) ! i = int ?a"
    "indptr_from 0 (map device_len rs) ! Suc i = int ?a + int ?n"
    unfolding lens using nth_indptr_lengths [of i ?R] nth_indptr_lengths [of "Suc i" ?R] i c length_row_pages [OF r]
    by (simp_all del: map_map)
  let ?f = "\<lambda>pos. (?a + pos, row_pages pt ?r ! pos)"
  have st: "decode_index_stores pt (map table_idx rs) (indptr_from 0 (map device_len rs)) (length rs) bdim (i, t) =
      map ?f (thread_positions t ?n bdim)" if "t < bdim" for t
  proof (cases "?n = 0")
    case True
    then show ?thesis using i ptr by (simp add: decode_index_stores_def Let_def thread_positions.simps [of t 0])
  next
    case False
    have "pos < ?n" if "pos \<in> set (thread_positions t ?n bdim)" for pos
      using that thread_positions_set [OF bdim, of t ?n] by auto
    then have "pt ! nat (table_idx ?r) ! pos = row_pages pt ?r ! pos \<and> pos < table_cols pt"
      if "pos \<in> set (thread_positions t ?n bdim)" for pos
      using that r by (fastforce simp: row_pages_def reads_ok_def)
    then show ?thesis
      using i ptr False r by (simp add: decode_index_stores_def Let_def reads_ok_def nat_add_distrib)
  qed
  have "mset (concat (map (\<lambda>t. decode_index_stores pt (map table_idx rs) (indptr_from 0 (map device_len rs)) (length rs) bdim (i, t))
      [0..<bdim])) = mset (concat (map (\<lambda>t. map ?f (thread_positions t ?n bdim)) [0..<bdim]))"
    using st by (intro arg_cong [where f = mset] arg_cong [where f = concat] map_cong) simp_all
  also have "\<dots> = mset (map ?f (concat (map (\<lambda>t. thread_positions t ?n bdim) [0..<bdim])))"
    by (simp add: map_concat o_def)
  also have "\<dots> = mset (map ?f [0..<?n])"
    unfolding mset_map thread_positions_partition [OF bdim] ..
  also have "map ?f [0..<?n] = zip [?a..<?a + ?n] (row_pages pt ?r)"
    using length_row_pages [OF r] by (intro nth_equalityI) simp_all
  finally show ?thesis using c length_row_pages [OF r] by simp
qed

text \<open>
  The kernel of the attention backend writes the pages of the requests one after the other,
  whatever the number of threads of a block and the order in which the threads run, and leaves the
  rest of the buffer alone.
\<close>

theorem decode_indices_any_order:
  assumes rows: "\<forall>r\<in>set rs. reads_ok pt r" and bdim: "0 < bdim"
    and order: "mset threads = mset (launch_threads (length rs) bdim)"
    and room: "sum_list (map device_len rs) \<le> int (length buf)"
  shows "build_decode_indices pt (map table_idx rs) (indptr_from 0 (map device_len rs)) (length rs) bdim threads buf =
    concat (map (row_pages pt) rs) @ drop (nat (sum_list (map device_len rs))) buf"
proof -
  let ?R = "map (row_pages pt) rs" and ?n = "length rs"
  let ?S = "decode_index_stores pt (map table_idx rs) (indptr_from 0 (map device_len rs)) ?n bdim"
  let ?can = "zip [0..<length (concat ?R)] (concat ?R)"
  have tot: "sum_list (map device_len rs) = int (length (concat ?R))" by (rule row_pages_total [OF rows])
  have "mset (concat (map ?S threads)) = mset (concat (map ?S (launch_threads ?n bdim)))"
    unfolding mset_concat_map order ..
  also have "concat (map ?S (launch_threads ?n bdim)) = concat (map (\<lambda>i. concat (map (\<lambda>t. ?S (i, t)) [0..<bdim])) [0..<?n])"
    unfolding launch_threads_def concat_map_concat by (simp add: o_def)
  also have "mset \<dots> = mset (concat (map (\<lambda>i. zip [length (concat (take i ?R))..<length (concat (take (Suc i) ?R))] (?R ! i)) [0..<?n]))"
  proof -
    have "mset (concat (map (\<lambda>t. ?S (i, t)) [0..<bdim])) =
        mset (zip [length (concat (take i ?R))..<length (concat (take (Suc i) ?R))] (?R ! i))" if "i \<in> set [0..<?n]" for i
      using block_stores [OF _ _ bdim, of rs pt i] rows that by simp
    then show ?thesis unfolding mset_concat_map by (intro arg_cong [where f = "\<Sum>\<^sub>#"] image_mset_cong) simp
  qed
  also have "concat (map (\<lambda>i. zip [length (concat (take i ?R))..<length (concat (take (Suc i) ?R))] (?R ! i)) [0..<?n]) = ?can"
    using zip_blocks [of ?n ?R] by simp
  finally have m: "mset (concat (map ?S threads)) = mset ?can" .
  have "put (concat (map ?S threads)) buf = put ?can buf"
    by (rule put_order [OF _ m]) simp
  also have "\<dots> = concat ?R @ drop (length (concat ?R)) buf"
    by (rule put_zip) (use room tot in linarith)
  finally show ?thesis using tot by (simp add: build_decode_indices_def)
qed

section \<open>The metadata\<close>

definition fi_ok :: "flashinfer \<Rightarrow> bool" where
  "fi_ok s \<longleftrightarrow> set (cached_ones_device s) \<subseteq> {1} \<and>
     length (decode_table_indices_device s) = length (decode_table_indices_host s) \<and>
     length (decode_kv_indptr_device s) = length (decode_kv_indptr_host s) \<and>
     length (workspace_copy_done_events s) = length (pinned_int_workspaces s) \<and>
     next_pinned_slot s < length (pinned_int_workspaces s)"

lemma fi_init_ok: "fi_ok (flashinfer_init junk ws)"
  by (simp add: fi_ok_def flashinfer_init_def)

lemma islice_take: "0 \<le> n \<Longrightarrow> islice 0 n xs = take (nat n) xs"
  by (simp add: islice_nonneg)

lemma double_until_ge: "needed \<le> double_until needed 1"
  using double_until_bounds [of 1 needed] by simp

lemma ensure_decode_workspace_ok:
  assumes "fi_ok s" and s': "s' = ensure_decode_workspace bs tot s"
  shows "fi_ok s'" "bs \<le> int (length (decode_table_indices_host s'))" "bs + 1 \<le> int (length (decode_kv_indptr_host s'))"
    "tot \<le> int (length (decode_indices_device s'))" "decode_capture_data s' = decode_capture_data s"
proof -
  have d: "x \<le> int (double_until (nat x) 1)" for x using double_until_ge [of "nat x"] by linarith
  show "fi_ok s'" using assms by (simp add: ensure_decode_workspace_def fi_ok_def torch_empty_def Let_def)
  show "bs \<le> int (length (decode_table_indices_host s'))" "bs + 1 \<le> int (length (decode_kv_indptr_host s'))"
    "tot \<le> int (length (decode_indices_device s'))" "decode_capture_data s' = decode_capture_data s"
    using d [of bs] d [of "bs + 1"] d [of tot]
    unfolding s' by (simp_all add: ensure_decode_workspace_def torch_empty_def Let_def)
qed

lemma get_ones_ok:
  assumes "fi_ok s" "get_ones_device (int n) s = (ones, s')"
  shows "ones = replicate n 1" "fi_ok s'" "decode_kv_indptr_host s' = decode_kv_indptr_host s"
    "decode_kv_indptr_device s' = decode_kv_indptr_device s" "decode_indices_device s' = decode_indices_device s"
    "decode_capture_data s' = decode_capture_data s"
proof -
  have "take n (cached_ones_device s) = replicate n 1" if "n \<le> length (cached_ones_device s)"
  proof -
    have "\<forall>x\<in>set (take n (cached_ones_device s)). x = 1" using assms(1) set_take_subset by (fastforce simp: fi_ok_def)
    then show ?thesis using that by (metis length_take min.absorb2 replicate_length_same)
  qed
  then show "ones = replicate n 1" "fi_ok s'" "decode_kv_indptr_host s' = decode_kv_indptr_host s"
    "decode_kv_indptr_device s' = decode_kv_indptr_device s" "decode_indices_device s' = decode_indices_device s"
    "decode_capture_data s' = decode_capture_data s"
    using assms double_until_ge [of n]
    by (auto simp: get_ones_device_def islice_take fi_ok_def Let_def min_absorb2 split: if_splits)
qed

lemma fill_fi:
  assumes "fi_ok s"
  shows "fi_ok (fill_decode_workspace pt q rs s)"
    "decode_capture_data (fill_decode_workspace pt q rs s) = decode_capture_data s"
proof -
  note e = ensure_decode_workspace_ok [OF assms refl, of "int (length rs)" "sum_list (map (\<lambda>r. device_len (q r)) rs)"]
  show "fi_ok (fill_decode_workspace pt q rs s)" using e(1) by (simp add: fill_decode_workspace_def Let_def fi_ok_def)
  show "decode_capture_data (fill_decode_workspace pt q rs s) = decode_capture_data s"
    using e(5) by (simp add: fill_decode_workspace_def Let_def)
qed

lemma prepare_decode_ok:
  assumes rows: "\<forall>r\<in>set (padded_reqs b). reads_ok pt (q r)" and s: "fi_ok s"
    and prep: "prepare_decode pt q b s = (md, s')"
  shows "indptr md = indptr_from 0 (map (\<lambda>r. device_len (q r)) (padded_reqs b))"
    "kv_indptr_host_tensor md = Some (indptr md)" "md_indices md = concat (map (\<lambda>r. row_pages pt (q r)) (padded_reqs b))"
    "paged_kv_last_page_len md = replicate (length (padded_reqs b)) 1" "fi_ok s'"
    "decode_capture_data s' = decode_capture_data s" "qo_indptr_host md = map int [0..<length (padded_reqs b) + 1]"
proof -
  let ?rs = "map q (padded_reqs b)" and ?n = "length (padded_reqs b)"
  let ?tot = "sum_list (map (\<lambda>r. device_len (q r)) (padded_reqs b))" and ?tis = "map (\<lambda>r. table_idx (q r)) (padded_reqs b)"
  let ?kvs = "indptr_from 0 (map (\<lambda>r. device_len (q r)) (padded_reqs b))"
  have mm: "map device_len ?rs = map (\<lambda>r. device_len (q r)) (padded_reqs b)" "map table_idx ?rs = ?tis" by simp_all
  have rows': "\<forall>r\<in>set ?rs. reads_ok pt r" using rows by simp
  have tot0: "0 \<le> ?tot" by (rule sum_list_nonneg) (use rows in \<open>auto simp: reads_ok_def\<close>)
  define s1 where "s1 = ensure_decode_workspace (int ?n) ?tot s"
  note e = ensure_decode_workspace_ok [OF s s1_def]
  define s2 where "s2 = s1\<lparr>decode_table_indices_host := ?tis @ drop ?n (decode_table_indices_host s1),
    decode_table_indices_device := ?tis @ drop ?n (decode_table_indices_device s1),
    decode_kv_indptr_host := ?kvs @ drop (?n + 1) (decode_kv_indptr_host s1),
    decode_kv_indptr_device := ?kvs @ drop (?n + 1) (decode_kv_indptr_device s1)\<rparr>"
  have sl: "islice 0 (int ?n) (decode_table_indices_device s2) = ?tis" "islice 0 (int ?n + 1) (decode_kv_indptr_device s2) = ?kvs"
    by (simp_all add: islice_take s2_def nat_add_distrib)
  define s3 where "s3 = (if ?tot > 0
    then s2\<lparr>decode_indices_device := build_decode_indices pt (islice 0 (int ?n) (decode_table_indices_device s2))
        (islice 0 (int ?n + 1) (decode_kv_indptr_device s2)) ?n 256 (launch_threads ?n 256) (decode_indices_device s2)\<rparr> else s2)"
  have fill: "fill_decode_workspace pt q (padded_reqs b) s = s3"
    unfolding fill_decode_workspace_def Let_def s1_def [symmetric] s2_def [symmetric] s3_def [symmetric] ..
  obtain ones s4 where s4: "get_ones_device (int ?n) s3 = (ones, s4)" by fastforce
  have ix: "islice 0 ?tot (decode_indices_device s3) = concat (map (row_pages pt) ?rs)"
  proof (cases "?tot > 0")
    case True
    have "decode_indices_device s3 = concat (map (row_pages pt) ?rs) @ drop (nat ?tot) (decode_indices_device s1)"
      using decode_indices_any_order [OF rows', of 256 "launch_threads ?n 256" "decode_indices_device s1"] True e(4)
      unfolding s3_def sl mm length_map by (simp add: s2_def)
    moreover have "length (concat (map (row_pages pt) ?rs)) = nat ?tot"
      using row_pages_total [OF rows'] unfolding mm by simp
    ultimately show ?thesis using tot0 by (simp add: islice_take)
  next
    case False
    then have "length (concat (map (row_pages pt) ?rs)) = 0"
      using row_pages_total [OF rows'] unfolding mm by linarith
    then show ?thesis using False tot0 by (simp add: islice_take)
  qed
  have f2: "fi_ok s2" using e(1-3) by (simp add: fi_ok_def s2_def)
  then have f3: "fi_ok s3" by (simp add: fi_ok_def s3_def)
  note o = get_ones_ok [OF f3 s4]
  have kv3: "decode_kv_indptr_device s3 = decode_kv_indptr_device s2" "decode_kv_indptr_host s3 = decode_kv_indptr_host s2"
    "decode_capture_data s3 = decode_capture_data s" using e(5) by (simp_all add: s3_def s2_def)
  have eq: "(md, s') = (\<lparr>md_is_prefill = is_prefill b, seq_lens = map (\<lambda>r. device_len (q r)) (padded_reqs b),
      cached_lens = map (\<lambda>r. cached_len (q r)) (padded_reqs b), qo_indptr_host = map int [0..<?n + 1],
      kv_indptr_host = islice 0 (int ?n + 1) (decode_kv_indptr_host s4), last_page_len_host = replicate ?n 1,
      indptr = islice 0 (int ?n + 1) (decode_kv_indptr_device s4), md_indices = islice 0 ?tot (decode_indices_device s4),
      paged_kv_indptr = [], paged_kv_last_page_len = ones,
      kv_indptr_host_tensor = Some (islice 0 (int ?n + 1) (decode_kv_indptr_host s4)),
      md_initialized = False, use_capture_buffers = False, decode_plan_state = None\<rparr>, s4)"
    unfolding prep [symmetric] prepare_decode_def Let_def fill s4 by simp
  have kv: "islice 0 (int ?n + 1) (decode_kv_indptr_host s4) = ?kvs" "islice 0 (int ?n + 1) (decode_kv_indptr_device s4) = ?kvs"
    using o kv3 by (simp_all add: islice_take nat_add_distrib s2_def)
  show "indptr md = indptr_from 0 (map (\<lambda>r. device_len (q r)) (padded_reqs b))" "kv_indptr_host_tensor md = Some (indptr md)"
    "md_indices md = concat (map (\<lambda>r. row_pages pt (q r)) (padded_reqs b))"
    "paged_kv_last_page_len md = replicate (length (padded_reqs b)) 1" "fi_ok s'"
    "decode_capture_data s' = decode_capture_data s" "qo_indptr_host md = map int [0..<length (padded_reqs b) + 1]"
    using eq kv o kv3 ix by (simp_all add: o_def)
qed

lemma res_list_ok: "(\<And>x. x \<in> set xs \<Longrightarrow> f x = Inr (g x)) \<Longrightarrow> res_list f xs = Inr (map g xs)"
  by (induction xs) simp_all

lemma page_slice_ok: "reads_ok pt r \<Longrightarrow> page_slice pt r = Inr (row_pages pt r)"
  by (simp add: page_slice_def reads_ok_def select_row_ok islice_take row_pages_def)

lemma prepare_prefill_ok:
  assumes "\<forall>r\<in>set (padded_reqs b). reads_ok pt (q r)" "is_prefill b"
  shows "\<exists>md. prepare_prefill pt q b = Inr md \<and>
     paged_kv_indptr md = indptr_from 0 (map (\<lambda>r. device_len (q r)) (padded_reqs b)) \<and>
     md_indices md = concat (map (\<lambda>r. row_pages pt (q r)) (padded_reqs b)) \<and>
     paged_kv_last_page_len md = replicate (padded_size b) 1 \<and>
     ((\<forall>r\<in>set (padded_reqs b). 0 < extend_len (q r)) \<longrightarrow>
       indptr md = indptr_from 0 (map (\<lambda>r. extend_len (q r)) (padded_reqs b)))"
proof -
  let ?rs = "map q (padded_reqs b)"
  have sl: "res_list (page_slice pt) ?rs = Inr (map (row_pages pt) ?rs)"
    by (rule res_list_ok) (use assms page_slice_ok in auto)
  have qo: "(if list_all (\<lambda>c. c = 0) (map (\<lambda>r. cached_len (q r)) (padded_reqs b))
        then indptr_from 0 (map (\<lambda>r. device_len (q r)) (padded_reqs b))
        else indptr_from 0 (map (\<lambda>r. max 1 (extend_len (q r))) (padded_reqs b))) =
      indptr_from 0 (map (\<lambda>r. extend_len (q r)) (padded_reqs b))"
    if "\<forall>r\<in>set (padded_reqs b). 0 < extend_len (q r)"
  proof (cases "list_all (\<lambda>c. c = 0) (map (\<lambda>r. cached_len (q r)) (padded_reqs b))")
    case True
    then show ?thesis by (simp add: list_all_iff extend_len_def cong: map_cong)
  next
    case False
    have "map (\<lambda>r. max 1 (extend_len (q r))) (padded_reqs b) = map (\<lambda>r. extend_len (q r)) (padded_reqs b)"
      using that by (intro map_cong) auto
    then show ?thesis using False by (simp only: if_False)
  qed
  show ?thesis
    unfolding prepare_prefill_def Let_def sl using qo assms(2) by (simp add: o_def padded_size_def)
qed

text \<open>
  C17: The metadata of every batch, prepared on the host for a prefill batch and by the kernel for a
  decode batch, makes the attention of each request read exactly the row of the page table of that
  request up to its length, whatever the buffers of the backend held before.
\<close>

theorem attention_reads_rows:
  assumes "\<forall>r\<in>set (padded_reqs b). reads_ok pt (q r)" "fi_ok s"
  shows "\<exists>md s'. prepare_metadata pt q b s = Inr (md, s') \<and> fi_ok s' \<and>
    kv_view (if is_prefill b then paged_kv_indptr md else indptr md) (md_indices md) =
      map (\<lambda>r. row_pages pt (q r)) (padded_reqs b) \<and>
    paged_kv_last_page_len md = replicate (padded_size b) 1"
proof -
  let ?R = "map (\<lambda>r. row_pages pt (q r)) (padded_reqs b)"
  have lens: "map (\<lambda>r. device_len (q r)) (padded_reqs b) = map (\<lambda>xs. int (length xs)) ?R"
    using device_lens [of "map q (padded_reqs b)" pt] assms(1) by (simp add: o_def)
  have v: "kv_view (indptr_from 0 (map (\<lambda>r. device_len (q r)) (padded_reqs b))) (concat ?R) = ?R"
    unfolding lens using kv_view_concat [of ?R "[]"] by simp
  show ?thesis
  proof (cases "phase b")
    case Prefill
    then have p: "is_prefill b" "\<not> is_decode b" by (simp_all add: is_prefill_def is_decode_def)
    obtain md where "prepare_prefill pt q b = Inr md"
      "paged_kv_indptr md = indptr_from 0 (map (\<lambda>r. device_len (q r)) (padded_reqs b))"
      "md_indices md = concat ?R" "paged_kv_last_page_len md = replicate (padded_size b) 1"
      using prepare_prefill_ok [OF assms(1) p(1)] by blast
    then show ?thesis using p v assms(2) by (simp add: prepare_metadata_def)
  next
    case Decode
    then have d: "\<not> is_prefill b" "is_decode b" by (simp_all add: is_prefill_def is_decode_def)
    obtain md s' where p: "prepare_decode pt q b s = (md, s')" by fastforce
    note f = prepare_decode_ok [OF assms p]
    show ?thesis using f d v p by (simp add: prepare_metadata_def padded_size_def)
  qed
qed

text \<open>
  The rows of the hidden states that the head of the model keeps for a prefill batch, by the
  indices of the metadata, are the last rows of the requests that the engine would select from the
  logits of all rows.
\<close>

theorem last_indices_agree:
  assumes "\<forall>r\<in>set (reqs b). reads_ok pt (q r) \<and> 0 < extend_len (q r)"
    and b: "is_prefill b" "padded_reqs b = reqs b"
  shows "\<exists>md s'. prepare_metadata pt q b s = Inr (md, s') \<and>
    last_indices q (reqs b) 0 = Inr (get_last_indices md (int (batch_size b)))"
proof -
  let ?e = "map (\<lambda>r. extend_len (q r)) (reqs b)"
  obtain md where md: "prepare_prefill pt q b = Inr md" "indptr md = indptr_from 0 ?e"
    using prepare_prefill_ok [of b pt q] assms by auto
  have "islice 1 (int (batch_size b) + 1) (indptr_from 0 ?e) = map (\<lambda>i. sum_list (take (Suc i) ?e)) [0..<length (reqs b)]"
    by (rule nth_equalityI) (simp_all add: islice_nonneg nat_add_distrib batch_size_def nth_tslice nth_indptr_from)
  then have "get_last_indices md (int (batch_size b)) =
      map (\<lambda>i. 0 + sum_list (map (\<lambda>r. extend_len (q r)) (take (Suc i) (reqs b))) - 1) [0..<length (reqs b)]"
    by (simp add: get_last_indices_def md(2) take_map o_def)
  then have "last_indices q (reqs b) 0 = Inr (get_last_indices md (int (batch_size b)))"
    using last_indices_ok [of "reqs b" q 0] assms(1) by simp
  then show ?thesis using md(1) b(1) by (simp add: prepare_metadata_def is_prefill_def is_decode_def)
qed

section \<open>Examples\<close>

definition demo_table :: table where
  "demo_table = [[5, 6, 7, 0], [8, 9, 10, 0], [2, 2, 2, 2]]"

definition demo_attn :: "nat \<Rightarrow> req" where
  "demo_attn r = default_req\<lparr>table_idx := int r, cached_len := [1, 2, 0] ! r, dev_len := [2, 3, 1] ! r, max_dev_len := 4\<rparr>"

definition demo_attn_batch :: "batch_phase \<Rightarrow> batch" where
  "demo_attn_batch ph = \<lparr>reqs = [0, 1], phase = ph, batch_input_ids = [21, 22], positions = [1, 2], out_loc = [6, 10],
     padded_reqs = [0, 1]\<rparr>"

definition demo_ws :: plan_arrays where
  "demo_ws = \<lparr>request_indices = [], kv_tile_indices = [], o_indptr = [], ws_kv_chunk_size = 0, block_valid_mask = []\<rparr>"

lemma demo_attn_reads: "r < 3 \<Longrightarrow> reads_ok demo_table (demo_attn r)"
  by (auto simp: less_Suc_eq numeral_3_eq_3 reads_ok_def demo_table_def demo_attn_def table_cols_def device_len_def default_req_def)

lemma demo_attn_pages: "row_pages demo_table (demo_attn 0) = [5, 6]" "row_pages demo_table (demo_attn (Suc 0)) = [8, 9, 10]"
  by (simp_all add: row_pages_def demo_table_def demo_attn_def device_len_def default_req_def)

theorem decode_indices_any_order_witness:
  "build_decode_indices demo_table [0, 1] [0, 2, 5] 2 2 [(1, 1), (0, 0), (1, 0), (0, 1)] [1, 1, 1, 1, 1, 1] =
     [5, 6, 8, 9, 10, 1]"
proof -
  have "\<forall>r\<in>set [demo_attn 0, demo_attn 1]. reads_ok demo_table r" using demo_attn_reads by simp
  from decode_indices_any_order [OF this, of 2 "[(1, 1), (0, 0), (1, 0), (0, 1)]" "[1, 1, 1, 1, 1, 1]"]
  show ?thesis
    by (simp add: demo_attn_pages launch_threads_def upt_rec)
      (simp add: demo_attn_def device_len_def default_req_def numeral_2_eq_2)
qed

theorem attention_reads_rows_witness:
  "\<exists>md s'. prepare_metadata demo_table demo_attn (demo_attn_batch Decode) (flashinfer_init (\<lambda>_. 77) demo_ws) = Inr (md, s') \<and>
     kv_view (indptr md) (md_indices md) = [[5, 6], [8, 9, 10]]"
proof -
  have "\<forall>r\<in>set (padded_reqs (demo_attn_batch Decode)). reads_ok demo_table (demo_attn r)"
    using demo_attn_reads by (simp add: demo_attn_batch_def)
  from attention_reads_rows [OF this fi_init_ok, of "\<lambda>_. 77" demo_ws] show ?thesis
    by (auto simp: is_prefill_def demo_attn_batch_def demo_attn_pages)
qed

theorem last_indices_agree_witness:
  "\<exists>md s'. prepare_metadata demo_table demo_attn (demo_attn_batch Prefill) (flashinfer_init (\<lambda>_. 77) demo_ws) = Inr (md, s') \<and>
     last_indices demo_attn [0, 1] 0 = Inr (get_last_indices md 2)"
proof -
  have "\<forall>r\<in>set (reqs (demo_attn_batch Prefill)). reads_ok demo_table (demo_attn r) \<and> 0 < extend_len (demo_attn r)"
    using demo_attn_reads [of 0] demo_attn_reads [of 1]
    by (simp add: demo_attn_batch_def) (simp add: demo_attn_def extend_len_def device_len_def default_req_def)
  from last_indices_agree [OF this, of "flashinfer_init (\<lambda>_. 77) demo_ws"] show ?thesis
    by (simp add: is_prefill_def demo_attn_batch_def batch_size_def)
qed

end
