(* ===== verification/GraphProps.thy ===== *)
theory GraphProps
  imports Graphs AttentionProps
begin

text \<open>
  After the graphs have been captured, every batch that may use one is replayed: the buffers of the
  graph hold the batch, and its attention reads the pages of the batch.
\<close>

section \<open>What FlashInfer has to guarantee\<close>

text \<open>
  A plan for \<open>n\<close> ranges of keys has a positive chunk size and is large enough for the split of any
  ranges that are not longer than the planned ones.
\<close>

definition shorter :: "int list \<Rightarrow> int list \<Rightarrow> bool" where
  "shorter kvs kvs0 \<longleftrightarrow> length kvs = length kvs0 \<and>
     (\<forall>i. Suc i < length kvs \<longrightarrow> kvs ! Suc i - kvs ! i \<le> kvs0 ! Suc i - kvs0 ! i)"

definition plan_fits :: "plan_fns \<Rightarrow> nat \<Rightarrow> int list \<Rightarrow> plan_info \<Rightarrow> int \<Rightarrow> bool" where
  "plan_fits fns n kvs0 info chunk \<longleftrightarrow> 0 < chunk \<and>
     (\<forall>kvs. shorter kvs kvs0 \<longrightarrow>
       (case split_kv_indptr fns kvs n chunk of (ri, kt, op) \<Rightarrow>
          length ri \<le> padded_batch_size info \<and> length kt \<le> padded_batch_size info \<and> length op = n + 1))"

definition plan_ok :: "plan_fns \<Rightarrow> bool" where
  "plan_ok fns \<longleftrightarrow> (\<forall>n kvs0. length kvs0 = n + 1 \<longrightarrow>
     (\<exists>info ws. decode_plan fns kvs0 n = Some (info, ws) \<and> plan_fits fns n kvs0 info (ws_kv_chunk_size ws)))"

section \<open>The invariant of the captured graphs\<close>

abbreviation capture_ptr :: "int \<Rightarrow> nat \<Rightarrow> int list" where
  "capture_ptr ms n \<equiv> map (\<lambda>i. int i * ms) [0..<n + 1]"

definition captures_ok :: "plan_fns \<Rightarrow> int \<Rightarrow> int \<Rightarrow> nat set \<Rightarrow> graph_map \<Rightarrow> flashinfer \<Rightarrow> bool" where
  "captures_ok fns mx ms sizes gm s \<longleftrightarrow> fi_ok s \<and>
     (\<exists>dc. decode_capture_data s = Some dc \<and> dc_max_seq_len dc = ms \<and>
        length (dc_kv_indptr_host dc) = nat (mx + 1) \<and> length (dc_kv_indptr_device dc) = nat (mx + 1) \<and>
        length (dc_indices dc) = nat (mx * ms) \<and> length (dc_last_page_len dc) = nat mx \<and>
        (\<forall>n\<in>sizes. (\<exists>ps. dc_metadata dc n = Some ps \<and> plan_fits fns n (capture_ptr ms n) (plan ps) (kv_chunk_size ps)) \<and>
           (\<exists>gb. gm n = Some gb \<and> length (gb_input_ids gb) = n \<and> length (gb_out_loc gb) = n \<and>
              length (gb_positions gb) = n)))"

lemma overwrite_ok:
  assumes "0 \<le> n" "length src = nat n" "nat n \<le> length buf"
  shows "overwrite n src buf = Inr (src @ drop (nat n) buf)"
  using assms by (simp add: overwrite_def islice_take copy_to_def min_absorb2)

lemma acquire_ok:
  assumes "fi_ok s"
  shows "\<exists>s1. acquire_pinned_int_workspace s = Inr (next_pinned_slot s, s1) \<and> fi_ok s1 \<and>
     next_pinned_slot s < length (pinned_int_workspaces s1) \<and> decode_capture_data s1 = decode_capture_data s"
proof -
  have "pinned_int_workspaces s \<noteq> []" "0 < length (pinned_int_workspaces s)" using assms by (auto simp: fi_ok_def)
  then show ?thesis
    using assms by (simp add: acquire_pinned_int_workspace_def wait_workspace_copy_done_def Let_def fi_ok_def)
qed

lemma record_ok:
  assumes "fi_ok s" "slot < length (pinned_int_workspaces s)"
  shows "\<exists>s1. record_workspace_copy_done slot (write_workspace slot ws s) = Inr s1 \<and> fi_ok s1 \<and>
     decode_capture_data s1 = decode_capture_data s"
  using assms by (simp add: record_workspace_copy_done_def write_workspace_def fi_ok_def)

lemma initialize_decode_ok:
  assumes "plan_ok fns" "fi_ok s" "length kvs = n + 1"
  shows "\<exists>ps s1. initialize_decode_metadata_once fns kvs n s = Inr (ps, s1) \<and> fi_ok s1 \<and>
     plan_fits fns n kvs (plan ps) (kv_chunk_size ps) \<and> decode_capture_data s1 = decode_capture_data s"
proof -
  obtain info ws where p: "decode_plan fns kvs n = Some (info, ws)" "plan_fits fns n kvs info (ws_kv_chunk_size ws)"
    using assms(1,3) unfolding plan_ok_def by blast
  obtain s1 where s1: "acquire_pinned_int_workspace s = Inr (next_pinned_slot s, s1)" "fi_ok s1"
    "next_pinned_slot s < length (pinned_int_workspaces s1)" "decode_capture_data s1 = decode_capture_data s"
    using acquire_ok [OF assms(2)] by blast
  obtain s2 where "record_workspace_copy_done (next_pinned_slot s) (write_workspace (next_pinned_slot s) ws s1) = Inr s2"
    "fi_ok s2" "decode_capture_data s2 = decode_capture_data s1"
    using record_ok [OF s1(2,3)] by blast
  then show ?thesis using p s1 by (simp add: initialize_decode_metadata_once_def)
qed

lemma length_islice: "0 \<le> n \<Longrightarrow> nat n \<le> length xs \<Longrightarrow> length (islice 0 n xs) = nat n"
  by (simp add: islice_take)

text \<open>Capturing one more size keeps what was captured before.\<close>

lemma prepare_for_capture_ok:
  assumes ok: "captures_ok fns mx ms sizes gm s" and fns: "plan_ok fns"
    and n: "1 \<le> n" "n \<le> mx" and ms: "0 \<le> ms" and dummy: "reads_ok pt (q d)"
    and cols: "ms \<le> int (table_cols pt)"
    and gb: "length (gb_input_ids gb) = nat n" "length (gb_out_loc gb) = nat n" "length (gb_positions gb) = nat n"
  shows "\<exists>s'. prepare_for_capture fns pt q (capture_batch d (nat n)) s = Inr s' \<and>
     captures_ok fns mx ms (insert (nat n) sizes) (gm(nat n \<mapsto> gb)) s'"
proof -
  let ?n = "nat n" let ?b = "capture_batch d ?n"
  obtain dc where fi: "fi_ok s" and dc: "decode_capture_data s = Some dc" "dc_max_seq_len dc = ms"
    "length (dc_kv_indptr_host dc) = nat (mx + 1)" "length (dc_kv_indptr_device dc) = nat (mx + 1)"
    "length (dc_indices dc) = nat (mx * ms)" "length (dc_last_page_len dc) = nat mx"
    and sizes: "\<And>m. m \<in> sizes \<Longrightarrow> (\<exists>ps. dc_metadata dc m = Some ps \<and> plan_fits fns m (capture_ptr ms m) (plan ps) (kv_chunk_size ps)) \<and>
           (\<exists>gb. gm m = Some gb \<and> length (gb_input_ids gb) = m \<and> length (gb_out_loc gb) = m \<and> length (gb_positions gb) = m)"
    using ok unfolding captures_ok_def by blast
  let ?kvs = "capture_ptr ms ?n"
  have row: "select_row pt (table_idx (q d)) = Inr (pt ! nat (table_idx (q d)))"
    "length (pt ! nat (table_idx (q d))) = table_cols pt"
    using dummy by (simp_all add: reads_ok_def select_row_ok)
  let ?row = "pt ! nat (table_idx (q d))"
  have b: "is_decode ?b" "padded_size ?b = ?n" "hd (padded_reqs ?b) = d"
    using n by (simp_all add: capture_batch_def is_decode_def padded_size_def)
  have host: "overwrite (int ?n + 1) ?kvs (dc_kv_indptr_host dc) = Inr (?kvs @ drop (?n + 1) (dc_kv_indptr_host dc))"
    using overwrite_ok [of "int ?n + 1" ?kvs "dc_kv_indptr_host dc"] dc(3) n by (simp add: nat_add_distrib)
  have dev: "overwrite (int ?n + 1) ?kvs (dc_kv_indptr_device dc) = Inr (?kvs @ drop (?n + 1) (dc_kv_indptr_device dc))"
    using overwrite_ok [of "int ?n + 1" ?kvs "dc_kv_indptr_device dc"] dc(4) n by (simp add: nat_add_distrib)
  have lrow: "length (islice 0 ms ?row) = nat ms" using length_islice [of ms ?row] ms cols row(2) by simp
  have lrep: "length (concat (replicate ?n (islice 0 ms ?row))) = nat (int ?n * ms)"
    using ms lrow by (simp add: length_concat sum_list_replicate nat_mult_distrib)
  have le: "nat (int ?n * ms) \<le> length (dc_indices dc)" using dc(5) n ms by (simp add: nat_mono mult_right_mono)
  have ix: "overwrite (int ?n * ms) (concat (replicate ?n (islice 0 ms ?row))) (dc_indices dc) =
      Inr (concat (replicate ?n (islice 0 ms ?row)) @ drop (nat (int ?n * ms)) (dc_indices dc))"
    by (rule overwrite_ok) (use ms lrep le in simp_all)
  have lp: "overwrite (int ?n) (replicate ?n 1) (dc_last_page_len dc) = Inr (replicate ?n 1 @ drop ?n (dc_last_page_len dc))"
    using overwrite_ok [of "int ?n" "replicate ?n 1" "dc_last_page_len dc"] dc(6) n by simp
  have slice: "islice 0 (int ?n + 1) (?kvs @ drop (?n + 1) (dc_kv_indptr_host dc)) = ?kvs"
    by (simp add: islice_take nat_add_distrib)
  obtain ps s1 where init: "initialize_decode_metadata_once fns ?kvs ?n s = Inr (ps, s1)" "fi_ok s1"
    "plan_fits fns ?n ?kvs (plan ps) (kv_chunk_size ps)"
    using initialize_decode_ok [OF fns fi, of ?kvs ?n] by auto
  let ?dc = "dc\<lparr>dc_kv_indptr_host := ?kvs @ drop (?n + 1) (dc_kv_indptr_host dc),
    dc_kv_indptr_device := ?kvs @ drop (?n + 1) (dc_kv_indptr_device dc),
    dc_indices := concat (replicate ?n (islice 0 ms ?row)) @ drop (nat (int ?n * ms)) (dc_indices dc),
    dc_last_page_len := replicate ?n 1 @ drop ?n (dc_last_page_len dc), dc_metadata := (dc_metadata dc)(?n \<mapsto> ps)\<rparr>"
  have prep: "prepare_for_capture fns pt q ?b s = Inr (s1\<lparr>decode_capture_data := Some ?dc\<rparr>)"
    unfolding prepare_for_capture_def Let_def b dc(1,2) option.case
    by (simp only: b(1) check_True res_bind_Inr host dev row(1) ix lp slice init(1) prod.case)
  have "captures_ok fns mx ms (insert ?n sizes) (gm(?n \<mapsto> gb)) (s1\<lparr>decode_capture_data := Some ?dc\<rparr>)"
    unfolding captures_ok_def
  proof (intro conjI exI [of _ ?dc])
    show "fi_ok (s1\<lparr>decode_capture_data := Some ?dc\<rparr>)" using init(2) by (simp add: fi_ok_def)
    show "length (dc_kv_indptr_host ?dc) = nat (mx + 1)" "length (dc_kv_indptr_device ?dc) = nat (mx + 1)"
      "length (dc_last_page_len ?dc) = nat mx" using dc n by simp_all
    show "length (dc_indices ?dc) = nat (mx * ms)" using lrep le dc(5) by simp
    show "\<forall>m\<in>insert ?n sizes. (\<exists>ps. dc_metadata ?dc m = Some ps \<and> plan_fits fns m (capture_ptr ms m) (plan ps) (kv_chunk_size ps)) \<and>
           (\<exists>g. (gm(?n \<mapsto> gb)) m = Some g \<and> length (gb_input_ids g) = m \<and> length (gb_out_loc g) = m \<and> length (gb_positions g) = m)"
      using sizes init(3) gb by auto
  qed (use dc in simp_all)
  then show ?thesis using prep by blast
qed

lemma capture_one_eq:
  assumes ok: "captures_ok fns mx ms sizes gm s" and fns: "plan_ok fns"
    and n: "1 \<le> n" "n \<le> mx" and ms: "0 \<le> ms" and dummy: "reads_ok pt (q d)" and cols: "ms \<le> int (table_cols pt)"
  shows "n \<le> int (table_cols pt) \<Longrightarrow>
      \<exists>gm' s'. capture_one fns pt q d n (gm, s) = Inr (gm', s') \<and> captures_ok fns mx ms (insert (nat n) sizes) gm' s'"
    "int (table_cols pt) < n \<Longrightarrow> table_cols pt \<noteq> 1 \<Longrightarrow>
      capture_one fns pt q d n (gm, s) = Inl (RuntimeError ''The size of tensor a must match the size of tensor b'')"
proof -
  let ?n = "nat n" let ?row = "pt ! nat (table_idx (q d))"
  let ?loc = "if n \<le> int (table_cols pt) then islice 0 (int ?n) ?row else replicate ?n 0"
  let ?gb = "(graph_buffers_init ?n)\<lparr>gb_out_loc := ?loc\<rparr>"
  have row: "select_row pt (table_idx (q d)) = Inr ?row" "length ?row = table_cols pt"
    using dummy by (simp_all add: reads_ok_def select_row_ok)
  have len: "length ?loc = ?n" using n row(2) length_islice [of "int ?n" ?row] by simp
  obtain s' where s': "prepare_for_capture fns pt q (capture_batch d ?n) s = Inr s'"
    "captures_ok fns mx ms (insert ?n sizes) (gm(?n \<mapsto> ?gb)) s'"
    using prepare_for_capture_ok [where gb = ?gb and q = q and pt = pt and d = d, OF assms] len by (auto simp: graph_buffers_init_def)
  show "\<exists>gm' s'. capture_one fns pt q d n (gm, s) = Inr (gm', s') \<and> captures_ok fns mx ms (insert ?n sizes) gm' s'"
    if "n \<le> int (table_cols pt)"
    using s' row(1) len that by (simp add: capture_one_def Let_def copy_to_def)
  show "capture_one fns pt q d n (gm, s) = Inl (RuntimeError ''The size of tensor a must match the size of tensor b'')"
    if "int (table_cols pt) < n" "table_cols pt \<noteq> 1"
    using s'(1) row that by (simp add: capture_one_def Let_def copy_to_def islice_take)
qed

lemma capture_graphs_ok:
  assumes fns: "plan_ok fns" and fi: "fi_ok s" and ne: "graph_batch_sizes g \<noteq> []"
    and sizes: "\<forall>n\<in>set (graph_batch_sizes g). 1 \<le> n \<and> n \<le> int (table_cols pt)"
    and dummy: "reads_ok pt (q (dummy_req g))" and ms: "0 \<le> capture_max_seq_len g" "capture_max_seq_len g \<le> int (table_cols pt)"
  shows "\<exists>gm s'. capture_graphs fns pt q g s = Inr (gm, s') \<and>
    captures_ok fns (Max (set (graph_batch_sizes g))) (capture_max_seq_len g) (nat ` set (graph_batch_sizes g)) gm s'"
proof -
  let ?B = "graph_batch_sizes g" let ?mx = "Max (set ?B)" and ?ms = "capture_max_seq_len g"
  have mx: "n \<le> ?mx" if "n \<in> set ?B" for n using that by simp
  have "1 \<le> ?mx" using ne sizes mx by (metis list.set_intros(1) neq_Nil_conv order_trans)
  then have init: "captures_ok fns ?mx ?ms {} Map.empty (init_capture_graph ?ms ?B s)"
    using ne fi by (simp add: captures_ok_def init_capture_graph_def fi_ok_def Let_def)
  have "\<exists>gm' s'. res_fold (capture_one fns pt q (dummy_req g)) ns (gm, s1) = Inr (gm', s') \<and>
      captures_ok fns ?mx ?ms (S \<union> nat ` set ns) gm' s'"
    if "set ns \<subseteq> set ?B" "captures_ok fns ?mx ?ms S gm s1" for ns S gm s1
    using that
  proof (induction ns arbitrary: S gm s1)
    case (Cons n ns)
    have n: "1 \<le> n" "n \<le> ?mx" "n \<le> int (table_cols pt)" using Cons.prems(1) sizes mx by auto
    obtain gm1 s2 where o: "capture_one fns pt q (dummy_req g) n (gm, s1) = Inr (gm1, s2)"
      "captures_ok fns ?mx ?ms (insert (nat n) S) gm1 s2"
      using capture_one_eq(1) [where q = q and pt = pt and d = "dummy_req g", OF Cons.prems(2) fns n(1,2) ms(1) dummy ms(2) n(3)] by blast
    obtain gm' s' where "res_fold (capture_one fns pt q (dummy_req g)) ns (gm1, s2) = Inr (gm', s')"
      "captures_ok fns ?mx ?ms (insert (nat n) S \<union> nat ` set ns) gm' s'"
      using Cons.IH [OF _ o(2)] Cons.prems(1) by auto
    then show ?case using o(1) by simp
  qed simp
  from this [OF _ init, of "rev ?B"] show ?thesis using ne by (simp add: capture_graphs_def)
qed

lemma shorter_capture:
  assumes "\<forall>l\<in>set lens. l \<le> ms" "length lens = n"
  shows "shorter (indptr_from 0 lens) (capture_ptr ms n)"
proof -
  have "indptr_from 0 lens ! Suc i - indptr_from 0 lens ! i = lens ! i" if "i < n" for i
    using that assms(2) by (simp add: nth_indptr_from take_Suc_conv_app_nth)
  moreover have "capture_ptr ms n ! i = int i * ms" if "i \<le> n" for i
    using nth_map_upt [of i "n + 1" 0 "\<lambda>i. int i * ms"] that by (simp del: upt_Suc)
  then have "capture_ptr ms n ! Suc i - capture_ptr ms n ! i = ms" if "i < n" for i
    using that by (simp add: ring_distribs del: upt_Suc)
  ultimately show ?thesis using assms by (auto simp: shorter_def simp del: upt_Suc)
qed

lemma prepare_for_replay_ok:
  assumes ok: "captures_ok fns mx ms sizes gm s" and n: "padded_size b = n" "n \<in> sizes" "int n \<le> mx" and ms: "0 \<le> ms"
    and b: "is_decode b" and lens: "lens = map (\<lambda>xs. int (length xs)) xss" "length xss = n" "\<forall>l\<in>set lens. l \<le> ms"
    and md: "indptr md = indptr_from 0 lens" "kv_indptr_host_tensor md = Some (indptr_from 0 lens)"
      "md_indices md = concat xss" "paged_kv_last_page_len md = replicate n 1"
  shows "\<exists>md' s'. prepare_for_replay fns b md s = Inr (md', s') \<and> captures_ok fns mx ms sizes gm s' \<and>
    kv_view (indptr md') (md_indices md') = xss \<and> paged_kv_last_page_len md' = replicate n 1"
proof -
  obtain dc where fi: "fi_ok s" and dc: "decode_capture_data s = Some dc" "dc_max_seq_len dc = ms"
    "length (dc_kv_indptr_host dc) = nat (mx + 1)" "length (dc_kv_indptr_device dc) = nat (mx + 1)"
    "length (dc_indices dc) = nat (mx * ms)" "length (dc_last_page_len dc) = nat mx"
    and sz: "\<And>m. m \<in> sizes \<Longrightarrow> (\<exists>ps. dc_metadata dc m = Some ps \<and> plan_fits fns m (capture_ptr ms m) (plan ps) (kv_chunk_size ps)) \<and>
           (\<exists>gb. gm m = Some gb \<and> length (gb_input_ids gb) = m \<and> length (gb_out_loc gb) = m \<and> length (gb_positions gb) = m)"
    using ok unfolding captures_ok_def by blast
  obtain ps where ps: "dc_metadata dc n = Some ps" "plan_fits fns n (capture_ptr ms n) (plan ps) (kv_chunk_size ps)"
    using sz n(2) by blast
  let ?kvs = "indptr_from 0 lens" and ?idx = "concat xss"
  have ln: "length lens = n" using lens by simp
  have host: "overwrite (int n + 1) ?kvs (dc_kv_indptr_host dc) = Inr (?kvs @ drop (n + 1) (dc_kv_indptr_host dc))"
    using overwrite_ok [of "int n + 1" ?kvs "dc_kv_indptr_host dc"] dc(3) n(3) ln by (simp add: nat_add_distrib)
  have dev: "overwrite (int n + 1) ?kvs (dc_kv_indptr_device dc) = Inr (?kvs @ drop (n + 1) (dc_kv_indptr_device dc))"
    using overwrite_ok [of "int n + 1" ?kvs "dc_kv_indptr_device dc"] dc(4) n(3) ln by (simp add: nat_add_distrib)
  have lpl: "overwrite (int n) (replicate n 1) (dc_last_page_len dc) = Inr (replicate n 1 @ drop n (dc_last_page_len dc))"
    using overwrite_ok [of "int n" "replicate n 1" "dc_last_page_len dc"] dc(6) n(3) by simp
  have "sum_list lens \<le> int n * ms"
    using sum_list_mono [of lens "\<lambda>x. x" "\<lambda>_. ms"] lens(3) ln by (simp add: sum_list_triv)
  then have tot: "int (length ?idx) \<le> int n * ms" using sum_lengths [of xss] lens(1) by simp
  have nm: "int n * ms \<le> mx * ms" using n(3) ms by (simp add: mult_right_mono)
  have cap: "length (islice 0 (int n * ms) (dc_indices dc)) = nat (int n * ms)"
    using dc(5) nm ms by (intro length_islice) (simp_all add: nat_mono)
  let ?ix = "?idx @ drop (length ?idx) (dc_indices dc)"
  have ix: "(if ?idx = [] then Inr (dc_indices dc)
      else res_bind (overwrite (int (length ?idx)) ?idx (islice 0 (int n * ms) (dc_indices dc)))
             (\<lambda>idx. Inr (idx @ drop (length idx) (dc_indices dc)))) = Inr ?ix"
  proof (cases "?idx = []")
    case False
    have "overwrite (int (length ?idx)) ?idx (islice 0 (int n * ms) (dc_indices dc)) =
        Inr (?idx @ drop (length ?idx) (islice 0 (int n * ms) (dc_indices dc)))"
      using overwrite_ok [of "int (length ?idx)" ?idx "islice 0 (int n * ms) (dc_indices dc)"] cap tot by simp
    moreover have "?idx @ drop (length ?idx) (islice 0 (int n * ms) (dc_indices dc)) @
        drop (length ?idx + (nat (int n * ms) - length ?idx)) (dc_indices dc) = ?ix"
    proof -
      have k: "length ?idx + (nat (int n * ms) - length ?idx) = nat (int n * ms)" using tot by linarith
      have "islice 0 (int n * ms) (dc_indices dc) = take (nat (int n * ms)) (dc_indices dc)"
        using ms by (simp add: islice_take)
      then have "drop (length ?idx) (islice 0 (int n * ms) (dc_indices dc)) @ drop (nat (int n * ms)) (dc_indices dc) =
          drop (length ?idx) (dc_indices dc)"
        using k by (metis append_take_drop_id drop_drop drop_take add.commute add_diff_cancel_left')
      then show ?thesis unfolding k by simp
    qed
    ultimately show ?thesis using False cap by (simp only: if_False res_bind_Inr length_append length_drop append_assoc)
  next
    case True
    show ?thesis unfolding True by simp
  qed
  have chunk: "0 < kv_chunk_size ps" using ps(2) by (simp add: plan_fits_def)
  obtain s1 where s1: "acquire_pinned_int_workspace s = Inr (next_pinned_slot s, s1)" "fi_ok s1"
    "next_pinned_slot s < length (pinned_int_workspaces s1)" "decode_capture_data s1 = decode_capture_data s"
    using acquire_ok [OF fi] by blast
  obtain ri kt op where sp: "split_kv_indptr fns ?kvs n (kv_chunk_size ps) = (ri, kt, op)"
    by (cases "split_kv_indptr fns ?kvs n (kv_chunk_size ps)") auto
  have fit: "length ri \<le> padded_batch_size (plan ps)" "length kt \<le> padded_batch_size (plan ps)" "length op = n + 1"
  proof -
    have sh: "shorter ?kvs (capture_ptr ms n)" by (rule shorter_capture [OF lens(3) ln])
    have "case split_kv_indptr fns ?kvs n (kv_chunk_size ps) of (ri, kt, op) \<Rightarrow>
        length ri \<le> padded_batch_size (plan ps) \<and> length kt \<le> padded_batch_size (plan ps) \<and> length op = n + 1"
      by (rule mp [OF spec [OF conjunct2 [OF ps(2) [unfolded plan_fits_def]], of ?kvs] sh])
    then show "length ri \<le> padded_batch_size (plan ps)" "length kt \<le> padded_batch_size (plan ps)" "length op = n + 1"
      unfolding sp by simp_all
  qed
  let ?ws = "replay_arrays (padded_batch_size (plan ps)) (kv_chunk_size ps) (split_kv (plan ps)) ri kt op
      (pinned_int_workspaces s1 ! next_pinned_slot s)"
  obtain s2 where s2: "record_workspace_copy_done (next_pinned_slot s) (write_workspace (next_pinned_slot s) ?ws s1) = Inr s2"
    "fi_ok s2" "decode_capture_data s2 = decode_capture_data s1"
    using record_ok [OF s1(2,3)] by blast
  have slice: "islice 0 (int n + 1) (?kvs @ drop (n + 1) (dc_kv_indptr_host dc)) = ?kvs"
    using ln by (simp add: islice_take nat_add_distrib)
  let ?dc = "dc\<lparr>dc_kv_indptr_host := ?kvs @ drop (n + 1) (dc_kv_indptr_host dc),
      dc_kv_indptr_device := ?kvs @ drop (n + 1) (dc_kv_indptr_device dc), dc_indices := ?ix,
      dc_last_page_len := replicate n 1 @ drop n (dc_last_page_len dc)\<rparr>"
  have gc: "get_capture_metadata n s = Inr (dc, ps)" using dc(1) ps(1) by (simp add: get_capture_metadata_def)
  have cp: "copy_to_capture n md dc = Inr ?dc"
    unfolding copy_to_capture_def md by (simp only: res_bind_Inr option.case host dev lpl dc(2) ix)
  have slice': "islice 0 (int n + 1) (dc_kv_indptr_host ?dc) = ?kvs" using slice by simp
  have run: "prepare_for_replay fns b md s = Inr (capture_metadata ?dc n ps, s2\<lparr>decode_capture_data := Some ?dc\<rparr>)"
    unfolding prepare_for_replay_def Let_def n(1) gc
    by (simp only: b check_True res_bind_Inr prod.case cp chunk s1(1) slice' sp fit s2(1) simp_thms)
  moreover have "captures_ok fns mx ms sizes gm (s2\<lparr>decode_capture_data := Some ?dc\<rparr>)"
    unfolding captures_ok_def
  proof (intro conjI exI [of _ ?dc])
    show "fi_ok (s2\<lparr>decode_capture_data := Some ?dc\<rparr>)" using s2(2) by (simp add: fi_ok_def)
    show "length (dc_kv_indptr_host ?dc) = nat (mx + 1)" "length (dc_kv_indptr_device ?dc) = nat (mx + 1)"
      "length (dc_last_page_len ?dc) = nat mx" using dc n(3) ln by simp_all
    show "length (dc_indices ?dc) = nat (mx * ms)" using dc(5) tot nm by simp
  qed (use dc sz in simp_all)
  moreover have "kv_view (indptr (capture_metadata ?dc n ps)) (md_indices (capture_metadata ?dc n ps)) = xss"
  proof -
    have "indptr (capture_metadata ?dc n ps) = ?kvs"
      using ln by (simp add: capture_metadata_def islice_take nat_add_distrib)
    moreover have "md_indices (capture_metadata ?dc n ps) = ?idx @ take (nat (int n * ms) - length ?idx) (drop (length ?idx) (dc_indices dc))"
      using dc(2) ms tot by (simp add: capture_metadata_def islice_take nat_le_iff)
    ultimately show ?thesis using kv_view_concat [of xss] lens(1) by simp
  qed
  moreover have "paged_kv_last_page_len (capture_metadata ?dc n ps) = replicate n 1"
    by (simp add: capture_metadata_def islice_take)
  ultimately show ?thesis by blast
qed

section \<open>Replaying\<close>

lemma overwrite_length: "overwrite n src buf = Inr buf' \<Longrightarrow> length buf' = length buf"
proof -
  assume "overwrite n src buf = Inr buf'"
  then obtain vals where v: "copy_to (length (islice 0 n buf)) src = Inr vals" "buf' = vals @ drop (length vals) buf"
    by (auto simp: overwrite_def res_simps)
  then have "length vals = length (islice 0 n buf)" by (auto simp: copy_to_def split: if_splits)
  then show ?thesis using v(2) length_islice_le [of 0 n buf] by simp
qed

lemma copy_from_lengths:
  assumes "copy_from b gb = Inr gb'"
  shows "length (gb_input_ids gb') = length (gb_input_ids gb) \<and> length (gb_out_loc gb') = length (gb_out_loc gb) \<and>
    length (gb_positions gb') = length (gb_positions gb)"
  using assms by (auto simp: copy_from_def Let_def res_simps dest!: overwrite_length)

lemma wait_fi: "wait_workspace_copy_done slot s = Inr s' \<Longrightarrow> fi_ok s \<Longrightarrow> fi_ok s' \<and> decode_capture_data s' = decode_capture_data s"
  by (auto simp: wait_workspace_copy_done_def fi_ok_def res_simps)

lemma record_fi: "record_workspace_copy_done slot s = Inr s' \<Longrightarrow> fi_ok s \<Longrightarrow> fi_ok s' \<and> decode_capture_data s' = decode_capture_data s"
  by (auto simp: record_workspace_copy_done_def fi_ok_def res_simps)

lemma copy_to_capture_fields:
  assumes "copy_to_capture n md dc = Inr dc'"
  shows "length (dc_kv_indptr_host dc') = length (dc_kv_indptr_host dc)"
    "length (dc_kv_indptr_device dc') = length (dc_kv_indptr_device dc)"
    "length (dc_indices dc') = length (dc_indices dc)" "length (dc_last_page_len dc') = length (dc_last_page_len dc)"
    "dc_metadata dc' = dc_metadata dc" "dc_max_seq_len dc' = dc_max_seq_len dc"
proof -
  obtain host dev lpl idx where r:
    "(case kv_indptr_host_tensor md of
         Some kvs \<Rightarrow> overwrite (int n + 1) kvs (dc_kv_indptr_host dc)
       | None \<Rightarrow>
           res_bind (check (length (kv_indptr_host md) = n + 1) (TorchCheck ''Invalid kv_indptr_host size for replay''))
             (\<lambda>_. overwrite (int n + 1) (kv_indptr_host md) (dc_kv_indptr_host dc))) = Inr host"
    "overwrite (int n + 1) (indptr md) (dc_kv_indptr_device dc) = Inr dev"
    "overwrite (int n) (paged_kv_last_page_len md) (dc_last_page_len dc) = Inr lpl"
    "(if md_indices md = [] then Inr (dc_indices dc)
               else res_bind (overwrite (int (length (md_indices md))) (md_indices md)
                      (islice 0 (int n * dc_max_seq_len dc) (dc_indices dc)))
                    (\<lambda>idx. Inr (idx @ drop (length idx) (dc_indices dc)))) = Inr idx"
    "dc' = dc\<lparr>dc_kv_indptr_host := host, dc_kv_indptr_device := dev, dc_indices := idx, dc_last_page_len := lpl\<rparr>"
    using assms unfolding copy_to_capture_def res_bind_eq_Inr sum.inject by blast
  have "length host = length (dc_kv_indptr_host dc)"
    using r(1) overwrite_length by (auto simp: res_simps split: option.splits)
  moreover have "length dev = length (dc_kv_indptr_device dc)" "length lpl = length (dc_last_page_len dc)"
    using r(2,3) overwrite_length by blast+
  moreover have "length idx = length (dc_indices dc)"
    using r(4) overwrite_length [of "int (length (md_indices md))" "md_indices md"]
      length_islice_le [of 0 "int n * dc_max_seq_len dc" "dc_indices dc"]
    by (auto simp: res_simps split: if_splits)
  ultimately show "length (dc_kv_indptr_host dc') = length (dc_kv_indptr_host dc)"
    "length (dc_kv_indptr_device dc') = length (dc_kv_indptr_device dc)"
    "length (dc_indices dc') = length (dc_indices dc)" "length (dc_last_page_len dc') = length (dc_last_page_len dc)"
    "dc_metadata dc' = dc_metadata dc" "dc_max_seq_len dc' = dc_max_seq_len dc"
    unfolding r(5) by simp_all
qed

lemma prepare_for_replay_keeps:
  assumes "captures_ok fns mx ms sizes gm s" "prepare_for_replay fns' b md s = Inr (md', s')"
  shows "captures_ok fns mx ms sizes gm s'"
proof -
  let ?n = "padded_size b"
  obtain dc where fi: "fi_ok s" and dc: "decode_capture_data s = Some dc" using assms(1) unfolding captures_ok_def by blast
  obtain s1 where s1: "acquire_pinned_int_workspace s = Inr (next_pinned_slot s, s1)" "fi_ok s1"
    using acquire_ok [OF fi] by blast
  obtain ps dc' ws s2 where r: "copy_to_capture ?n md dc = Inr dc'"
    "record_workspace_copy_done (next_pinned_slot s) (write_workspace (next_pinned_slot s) ws s1) = Inr s2"
    "s' = s2\<lparr>decode_capture_data := Some dc'\<rparr>"
    using assms(2) dc unfolding prepare_for_replay_def Let_def
    by (auto simp: get_capture_metadata_def res_bind_eq_Inr s1(1) case_prod_beta split: option.splits)
  have "fi_ok (write_workspace (next_pinned_slot s) ws s1)" using s1(2) by (simp add: fi_ok_def write_workspace_def)
  then have "fi_ok s2" using record_fi [OF r(2)] by blast
  then have "fi_ok s'" unfolding r(3) by (simp add: fi_ok_def)
  moreover have "decode_capture_data s' = Some dc'" unfolding r(3) by simp
  ultimately show ?thesis
    using assms(1) dc copy_to_capture_fields [OF r(1)] unfolding captures_ok_def by (simp del: upt_Suc)
qed

lemma captures_gm:
  assumes "captures_ok fns mx ms sizes gm s" "gm k = Some gb0"
    and len: "length (gb_input_ids gb) = length (gb_input_ids gb0)" "length (gb_out_loc gb) = length (gb_out_loc gb0)"
      "length (gb_positions gb) = length (gb_positions gb0)"
  shows "captures_ok fns mx ms sizes (gm(k \<mapsto> gb)) s"
proof -
  have "(\<exists>g. (gm(k \<mapsto> gb)) n = Some g \<and> length (gb_input_ids g) = n \<and> length (gb_out_loc g) = n \<and> length (gb_positions g) = n)"
    if "\<exists>g. gm n = Some g \<and> length (gb_input_ids g) = n \<and> length (gb_out_loc g) = n \<and> length (gb_positions g) = n" for n
    using that assms(2) len by (cases "n = k") auto
  then show ?thesis using assms(1) unfolding captures_ok_def by blast
qed

lemma prepare_metadata_keeps:
  assumes "captures_ok fns mx ms sizes gm s" "prepare_metadata pt q b s = Inr (md, s')"
  shows "captures_ok fns mx ms sizes gm s'"
proof (cases "is_decode b")
  case True
  let ?n = "length (padded_reqs b)" let ?s3 = "fill_decode_workspace pt q (padded_reqs b) s"
  have fi: "fi_ok s" using assms(1) by (simp add: captures_ok_def)
  obtain ones s4 where g: "get_ones_device (int ?n) ?s3 = (ones, s4)" by fastforce
  then have "s' = s4" using assms(2) True by (simp add: prepare_metadata_def prepare_decode_def Let_def)
  then have "fi_ok s' \<and> decode_capture_data s' = decode_capture_data s"
    using get_ones_ok [OF fill_fi(1) [OF fi] g] fill_fi(2) [OF fi] by simp
  then show ?thesis using assms(1) unfolding captures_ok_def by simp
next
  case False
  then show ?thesis using assms by (auto simp: prepare_metadata_def res_simps)
qed

text \<open>
  The life of the captured graphs: captured for a fresh backend, with the row of the padding request
  in the table and no more columns than the table has, then metadata prepared for any batches, and
  replays of any batches.
\<close>

inductive graph_life :: "plan_fns \<Rightarrow> graph_runner \<Rightarrow> graph_map \<Rightarrow> flashinfer \<Rightarrow> bool" for fns g where
  captures: "capture_graphs fns pt q g (flashinfer_init junk ws) = Inr (gm, s) \<Longrightarrow> graph_ok g \<Longrightarrow>
    reads_ok pt (q (dummy_req g)) \<Longrightarrow> 0 \<le> capture_max_seq_len g \<Longrightarrow> capture_max_seq_len g \<le> int (table_cols pt) \<Longrightarrow>
    \<forall>n\<in>set (graph_batch_sizes g). n \<le> int (table_cols pt) \<Longrightarrow> graph_life fns g gm s"
| prepares: "graph_life fns g gm s \<Longrightarrow> prepare_metadata pt q b s = Inr (md, s') \<Longrightarrow> graph_life fns g gm s'"
| replays: "graph_life fns g gm s \<Longrightarrow> graph_replay fns q g b md gm s = Inr (gb, md', gm', s') \<Longrightarrow> graph_life fns g gm' s'"

lemma graph_life_ok:
  assumes "graph_life fns g gm s" "plan_ok fns" "graph_batch_sizes g \<noteq> []"
  shows "graph_ok g \<and> 0 \<le> capture_max_seq_len g \<and>
    captures_ok fns (Max (set (graph_batch_sizes g))) (capture_max_seq_len g) (nat ` set (graph_batch_sizes g)) gm s"
  using assms(1)
proof induction
  case (captures pt q junk ws gm s)
  have "\<forall>n\<in>set (graph_batch_sizes g). 1 \<le> n \<and> n \<le> int (table_cols pt)"
    using captures(2,6) by (simp add: graph_ok_def)
  then obtain gm' s' where "capture_graphs fns pt q g (flashinfer_init junk ws) = Inr (gm', s')"
    "captures_ok fns (Max (set (graph_batch_sizes g))) (capture_max_seq_len g) (nat ` set (graph_batch_sizes g)) gm' s'"
    using capture_graphs_ok [where g = g and pt = pt and q = q, OF assms(2) fi_init_ok assms(3)] captures(3-5) by blast
  then show ?case using captures(1,2,4) by simp
next
  case (prepares gm s pt q b md s')
  then show ?case using prepare_metadata_keeps by blast
next
  case (replays gm s q b md gb md' gm' s')
  then obtain gb0 where r: "gm (padded_size b) = Some gb0" "copy_from b gb0 = Inr gb" "prepare_for_replay fns b md s = Inr (md', s')"
    "gm' = gm(padded_size b \<mapsto> gb)"
    by (auto simp: graph_replay_def res_simps split: option.splits)
  have "captures_ok fns (Max (set (graph_batch_sizes g))) (capture_max_seq_len g) (nat ` set (graph_batch_sizes g)) gm s'"
    using prepare_for_replay_keeps [OF _ r(3)] replays.IH by blast
  then show ?case
    using replays.IH captures_gm [where gm = gm and k = "padded_size b" and gb = gb and ?gb0.0 = gb0, OF _ r(1)] copy_from_lengths [OF r(2)] r(4) by blast
qed

text \<open>
  C16: Whenever a batch may use a graph, preparing its metadata and replaying the graph of its padded
  size succeeds, and the graph reads exactly the padded batch: its tokens, positions and places in
  the cache from the buffers of the graph, and for the attention of each request the row of the
  page table up to its length, whatever the buffers held from the capture and earlier replays.
\<close>

theorem graph_replay_presents_batch:
  assumes life: "graph_life fns g gm s" and fns: "plan_ok fns" and use: "can_use_cuda_graph q g b"
    and padded: "padded_reqs b = padded_reqs (pad_batch q g b)"
    and rows: "\<forall>r\<in>set (padded_reqs b). reads_ok pt (q r)" and dummy: "device_len (q (dummy_req g)) \<le> capture_max_seq_len g"
    and len: "length (batch_input_ids b) = padded_size b" "length (out_loc b) = padded_size b" "length (positions b) = padded_size b"
  shows "\<exists>md s1 gb md' gm' s'. prepare_metadata pt q b s = Inr (md, s1) \<and>
    graph_replay fns q g b md gm s1 = Inr (gb, md', gm', s') \<and>
    gb = \<lparr>gb_input_ids = batch_input_ids b, gb_out_loc = out_loc b, gb_positions = positions b\<rparr> \<and>
    kv_view (indptr md') (md_indices md') = map (\<lambda>r. row_pages pt (q r)) (padded_reqs b) \<and>
    paged_kv_last_page_len md' = replicate (padded_size b) 1"
proof -
  let ?B = "set (graph_batch_sizes g)" let ?mx = "Max ?B" and ?ms = "capture_max_seq_len g" and ?n = "padded_size b"
  let ?R = "map (\<lambda>r. row_pages pt (q r)) (padded_reqs b)"
  have d: "is_decode b" and ne: "graph_batch_sizes g \<noteq> []" and lim: "\<forall>r\<in>set (reqs b). device_len (q r) \<le> ?ms"
    using use by (auto simp: can_use_cuda_graph_def list_all_iff split: if_splits)
  have ok: "graph_ok g" "0 \<le> ?ms" "captures_ok fns ?mx ?ms (nat ` ?B) gm s"
    using graph_life_ok [OF life fns ne] by blast+
  have sz: "int ?n \<in> ?B"
    using pad_batch_captured(1) [OF ok(1) use] padded by (simp add: captured_def padded_size_def)
  then have n: "?n \<in> nat ` ?B" "int ?n \<le> ?mx" by (force, simp)
  obtain md s1 where prep: "prepare_decode pt q b s = (md, s1)" by fastforce
  then have pm: "prepare_metadata pt q b s = Inr (md, s1)" using d by (simp add: prepare_metadata_def)
  have fi: "fi_ok s" using ok(3) by (simp add: captures_ok_def)
  note f = prepare_decode_ok [OF rows fi prep]
  have ok1: "captures_ok fns ?mx ?ms (nat ` ?B) gm s1" by (rule prepare_metadata_keeps [OF ok(3) pm])
  have "set (padded_reqs b) \<subseteq> set (reqs b) \<union> {dummy_req g}"
  proof -
    obtain k where "padded_reqs b = reqs b @ replicate k (dummy_req g)"
      using pad_batch_fields(3) [of q g b] padded by auto
    then show ?thesis by auto
  qed
  then have "\<forall>r\<in>set (padded_reqs b). device_len (q r) \<le> ?ms" using lim dummy by blast
  moreover have lens: "map (\<lambda>r. device_len (q r)) (padded_reqs b) = map (\<lambda>xs. int (length xs)) ?R"
    using device_lens [of "map q (padded_reqs b)" pt] rows by (simp add: o_def)
  ultimately have le: "\<forall>l\<in>set (map (\<lambda>xs. int (length xs)) ?R). l \<le> ?ms" unfolding lens [symmetric] by auto
  obtain md' s' where r: "prepare_for_replay fns b md s1 = Inr (md', s')" "kv_view (indptr md') (md_indices md') = ?R"
    "paged_kv_last_page_len md' = replicate ?n 1"
    using prepare_for_replay_ok [OF ok1 refl n ok(2) d refl _ le, of md] f(1-4) lens by (auto simp: padded_size_def)
  obtain gb where gb: "gm ?n = Some gb" "length (gb_input_ids gb) = ?n" "length (gb_out_loc gb) = ?n" "length (gb_positions gb) = ?n"
    using ok1 n(1) unfolding captures_ok_def by blast
  have "copy_from b gb = Inr \<lparr>gb_input_ids = batch_input_ids b, gb_out_loc = out_loc b, gb_positions = positions b\<rparr>"
    using overwrite_ok [of "int ?n" "batch_input_ids b" "gb_input_ids gb"] overwrite_ok [of "int ?n" "out_loc b" "gb_out_loc gb"]
      overwrite_ok [of "int ?n" "positions b" "gb_positions gb"] gb len by (simp add: copy_from_def Let_def)
  then have "graph_replay fns q g b md gm s1 =
      Inr (\<lparr>gb_input_ids = batch_input_ids b, gb_out_loc = out_loc b, gb_positions = positions b\<rparr>, md',
        gm(?n \<mapsto> \<lparr>gb_input_ids = batch_input_ids b, gb_out_loc = out_loc b, gb_positions = positions b\<rparr>), s')"
    using use gb(1) r(1) by (simp add: graph_replay_def)
  then show ?thesis using pm r(2,3) by blast
qed

lemma capture_too_wide:
  assumes "graph_ok g" "graph_batch_sizes g \<noteq> []" "plan_ok fns" "reads_ok pt (q (dummy_req g))"
    and "0 \<le> capture_max_seq_len g" "capture_max_seq_len g \<le> int (table_cols pt)"
    and "int (table_cols pt) < max_batch_size g" "table_cols pt \<noteq> 1"
  shows "capture_graphs fns pt q g (flashinfer_init junk ws) =
    Inl (RuntimeError ''The size of tensor a must match the size of tensor b'')"
proof -
  let ?B = "graph_batch_sizes g" let ?mx = "Max (set ?B)" and ?ms = "capture_max_seq_len g"
  have s: "sorted_wrt (<) ?B" "\<forall>n\<in>set ?B. 1 \<le> n" "max_batch_size g = last ?B" using assms(1,2) by (simp_all add: graph_ok_def)
  have l: "last ?B \<in> set ?B" using assms(2) by simp
  obtain ns where ns: "rev ?B = last ?B # ns" using assms(2) by (metis append_butlast_last_id rev_eq_Cons_iff rev_rev_ident)
  have mx: "1 \<le> last ?B" "last ?B \<le> ?mx" using s(2) l by auto
  then have "1 \<le> ?mx" by linarith
  then have init: "captures_ok fns ?mx ?ms {} Map.empty (init_capture_graph ?ms ?B (flashinfer_init junk ws))"
    using assms(2) fi_init_ok [of junk ws] by (simp add: captures_ok_def init_capture_graph_def fi_ok_def Let_def)
  have "capture_one fns pt q (dummy_req g) (last ?B) (Map.empty, init_capture_graph ?ms ?B (flashinfer_init junk ws)) =
      Inl (RuntimeError ''The size of tensor a must match the size of tensor b'')"
    by (rule capture_one_eq(2) [where q = q and pt = pt, OF init assms(3) mx assms(5,4,6)]) (use assms(7,8) s(3) in simp_all)
  then show ?thesis using assms(2) by (simp only: capture_graphs_def if_False ns res_fold.simps res_bind_Inl)
qed

text \<open>
  C24: Capturing fails with an exception, and the engine with it, when the largest batch size is
  larger than the number of columns of the page table: the places in the cache of the captured
  batch are copied from one row of the table.
\<close>

theorem capture_needs_columns:
  assumes "graph_ok g" "graph_batch_sizes g \<noteq> []" "plan_ok fns" "reads_ok pt (q (dummy_req g))"
    and "0 \<le> capture_max_seq_len g" "capture_max_seq_len g \<le> int (table_cols pt)"
    and "int (table_cols pt) < max_batch_size g" "table_cols pt \<noteq> 1"
  shows "capture_graphs fns pt q g (flashinfer_init junk ws) =
    Inl (RuntimeError ''The size of tensor a must match the size of tensor b'')"
  by (rule capture_too_wide [where q = q, OF assms])

section \<open>Examples\<close>

text \<open>A planner that gives every range of keys one tile.\<close>

definition demo_plan :: plan_fns where
  "demo_plan = \<lparr>decode_plan = (\<lambda>kvs n. Some (\<lparr>padded_batch_size = n, request_indices_offset = 0,
       kv_tile_indices_offset = 4 * n, o_indptr_offset = 8 * n, kv_chunk_size_ptr_offset = 12 * n + 4,
       block_valid_mask_offset = 12 * n + 8, split_kv = False\<rparr>,
      \<lparr>request_indices = map int [0..<n], kv_tile_indices = replicate n 0, o_indptr = map int [0..<n + 1],
       ws_kv_chunk_size = 4096, block_valid_mask = []\<rparr>)),
     split_kv_indptr = (\<lambda>kvs n chunk. (map int [0..<n], replicate n 0, map int [0..<n + 1]))\<rparr>"

definition demo_graphs :: graph_runner where
  "demo_graphs = graph_runner_init True [] 3 4 0 2"

lemma demo_plan_ok: "plan_ok demo_plan"
  by (simp add: plan_ok_def plan_fits_def demo_plan_def)

lemma demo_graph_sizes: "graph_batch_sizes demo_graphs = [1, 2, 3]" "capture_max_seq_len demo_graphs = 4"
  "dummy_req demo_graphs = 2" "max_batch_size demo_graphs = 3" "enable_cuda_graph demo_graphs"
  by (simp_all add: demo_graphs_def graph_runner_init_def determine_batch_sizes_def Let_def doubling.simps)

lemma demo_graph_life: "\<exists>gm s. graph_life demo_plan demo_graphs gm s"
proof -
  have r: "reads_ok demo_table (demo_attn (dummy_req demo_graphs))" using demo_attn_reads by (simp add: demo_graph_sizes)
  have c: "table_cols demo_table = 4" by (simp add: table_cols_def demo_table_def)
  have g: "graph_ok demo_graphs" by (simp add: demo_graphs_def graph_runner_init_ok)
  obtain gm s where "capture_graphs demo_plan demo_table demo_attn demo_graphs (flashinfer_init (\<lambda>_. 0) demo_ws) = Inr (gm, s)"
    using capture_graphs_ok [where g = demo_graphs and pt = demo_table and q = demo_attn, OF demo_plan_ok fi_init_ok]
      r c demo_graph_sizes by fastforce
  then have "graph_life demo_plan demo_graphs gm s"
    by (rule graph_life.captures) (use g r c demo_graph_sizes in simp_all)
  then show ?thesis by blast
qed

theorem graph_replay_presents_batch_witness:
  "\<exists>gm s md s1 gb md' gm' s'. prepare_metadata demo_table demo_attn (demo_attn_batch Decode) s = Inr (md, s1) \<and>
     graph_replay demo_plan demo_attn demo_graphs (demo_attn_batch Decode) md gm s1 = Inr (gb, md', gm', s') \<and>
     gb_input_ids gb = [21, 22] \<and> kv_view (indptr md') (md_indices md') = [[5, 6], [8, 9, 10]]"
proof -
  let ?b = "demo_attn_batch Decode"
  obtain gm s where l: "graph_life demo_plan demo_graphs gm s" using demo_graph_life by blast
  have dl: "device_len (demo_attn 0) = 2" "device_len (demo_attn 1) = 3" "device_len (demo_attn 2) = 1"
    by (simp_all add: demo_attn_def device_len_def default_req_def)
  have u: "can_use_cuda_graph demo_attn demo_graphs ?b"
    using dl by (simp add: can_use_cuda_graph_def demo_graph_sizes demo_attn_batch_def is_decode_def batch_size_def)
  have p: "padded_reqs ?b = padded_reqs (pad_batch demo_attn demo_graphs ?b)"
    using u by (simp add: pad_batch_def lower_bound_def demo_graph_sizes demo_attn_batch_def batch_size_def)
  have r: "\<forall>r\<in>set (padded_reqs ?b). reads_ok demo_table (demo_attn r)"
    using demo_attn_reads by (simp add: demo_attn_batch_def)
  have d: "device_len (demo_attn (dummy_req demo_graphs)) \<le> capture_max_seq_len demo_graphs"
    using dl by (simp add: demo_graph_sizes)
  have "\<exists>md s1 gb md' gm' s'. prepare_metadata demo_table demo_attn ?b s = Inr (md, s1) \<and>
    graph_replay demo_plan demo_attn demo_graphs ?b md gm s1 = Inr (gb, md', gm', s') \<and>
    gb = \<lparr>gb_input_ids = batch_input_ids ?b, gb_out_loc = out_loc ?b, gb_positions = positions ?b\<rparr> \<and>
    kv_view (indptr md') (md_indices md') = map (\<lambda>r. row_pages demo_table (demo_attn r)) (padded_reqs ?b) \<and>
    paged_kv_last_page_len md' = replicate (padded_size ?b) 1"
    by (rule graph_replay_presents_batch [OF l demo_plan_ok u p r d])
      (simp_all add: demo_attn_batch_def padded_size_def)
  then show ?thesis by (fastforce simp: demo_attn_batch_def demo_attn_pages)
qed

text \<open>Three requests at a time, but rows of two columns.\<close>

theorem capture_needs_columns_witness:
  "capture_graphs demo_plan [[0, 0], [0, 0], [9, 9]] (\<lambda>r. default_req\<lparr>table_idx := 2, dev_len := 1\<rparr>)
     (graph_runner_init True [] 3 2 0 2) (flashinfer_init (\<lambda>_. 0) demo_ws) =
     Inl (RuntimeError ''The size of tensor a must match the size of tensor b'')"
proof -
  let ?g = "graph_runner_init True [] 3 2 0 2" let ?q = "\<lambda>r. default_req\<lparr>table_idx := 2, dev_len := 1\<rparr>"
  have g: "graph_batch_sizes ?g = [1, 2, 3]" "capture_max_seq_len ?g = 2" "max_batch_size ?g = 3"
    by (simp_all add: graph_runner_init_def determine_batch_sizes_def Let_def doubling.simps)
  have r: "reads_ok [[0, 0], [0, 0], [9, 9]] (?q (dummy_req ?g))"
    by (simp add: reads_ok_def table_cols_def device_len_def default_req_def)
  show ?thesis
    by (rule capture_needs_columns [OF graph_runner_init_ok _ demo_plan_ok r]) (simp_all add: g table_cols_def)
qed

end
