(* ===== verification/DeviceProps.thy ===== *)
theory DeviceProps
  imports Complex_Main Device
begin

text \<open>
  What the kernels compute, for every order of their threads where it does not matter, and a case
  where it does.
\<close>

section \<open>Keys and values\<close>

text \<open>The stores of all threads: each element of each token once.\<close>

lemma store_kv_stores_all:
  assumes threads: "set threads = set (launch_threads ((n + 3) div 4) 128)"
  shows "set (concat (map (store_kv_stores loc n elems stride src 128) threads)) =
    {(nat (loc ! t) * elems + e, src ! (t * stride + e)) |t e. t < n \<and> e < elems}"
proof -
  have mem: "(b, t) \<in> set threads \<longleftrightarrow> b < (n + 3) div 4 \<and> t < 128" for b t
    unfolding threads by (rule mem_launch)
  have tp: "e \<in> set (thread_positions lane elems 32) \<longleftrightarrow> lane \<le> e \<and> e < elems \<and> e mod 32 = lane mod 32" for e lane
    using thread_positions_set [of 32 lane elems] by simp
  show ?thesis
  proof (intro equalityI subsetI)
    fix w
    assume "w \<in> set (concat (map (store_kv_stores loc n elems stride src 128) threads))"
    then obtain b t where bt: "w \<in> set (store_kv_stores loc n elems stride src 128 (b, t))" by auto
    define tok where "tok = b * 4 + t div 32"
    have "\<exists>e. tok < n \<and> e < elems \<and> w = (nat (loc ! tok) * elems + e, src ! (tok * stride + e))"
      using bt unfolding tok_def by (auto simp: store_kv_stores_def Let_def tp split: if_splits)
    then show "w \<in> {(nat (loc ! t) * elems + e, src ! (t * stride + e)) |t e. t < n \<and> e < elems}" by blast
  next
    fix w
    assume "w \<in> {(nat (loc ! t) * elems + e, src ! (t * stride + e)) |t e. t < n \<and> e < elems}"
    then obtain t e where w: "w = (nat (loc ! t) * elems + e, src ! (t * stride + e))" "t < n" "e < elems" by auto
    let ?b = "t div 4" and ?t = "(t mod 4) * 32 + e mod 32"
    have "?t div 32 = t mod 4" "?t mod 32 = e mod 32" by simp_all
    moreover have "?b * 4 + t mod 4 = t" by simp
    ultimately have "w \<in> set (store_kv_stores loc n elems stride src 128 (?b, ?t))"
      using w by (simp add: store_kv_stores_def Let_def tp)
    moreover have "(?b, ?t) \<in> set threads"
    proof -
      have "t mod 4 < 4" "e mod 32 < 32" by simp_all
      then have "?t < 128" by linarith
      moreover have "?b < (n + 3) div 4" using w(2) by linarith
      ultimately show ?thesis using mem by blast
    qed
    ultimately show "w \<in> set (concat (map (store_kv_stores loc n elems stride src 128) threads))" by auto
  qed
qed

definition slot_row :: "nat \<Rightarrow> 'a list \<Rightarrow> int \<Rightarrow> 'a list" where
  "slot_row elems cache s = tslice (nat s * elems) (nat s * elems + elems) cache"

lemma place_inj:
  assumes "e < elems" "e' < elems" "a * elems + e = b * elems + (e' :: nat)"
  shows "a = b \<and> e = e'"
proof -
  have "(a * elems + e) div elems = a" "(b * elems + e') div elems = b" using assms(1,2) by simp_all
  then show ?thesis using assms(3) by auto
qed

lemma store_kernel_rows:
  assumes threads: "set threads = set (launch_threads ((length loc + 3) div 4) 128)"
    and slots: "length cache = slots * elems" "\<forall>s\<in>set loc. 0 \<le> s \<and> s < int slots"
  shows "t < length loc \<Longrightarrow> count_list loc (loc ! t) = 1 \<Longrightarrow>
      slot_row elems (store_kv_cache_kernel loc (length loc) elems stride src 128 threads cache) (loc ! t) =
        map (\<lambda>e. src ! (t * stride + e)) [0..<elems]"
    "0 \<le> s \<Longrightarrow> s < int slots \<Longrightarrow> s \<notin> set loc \<Longrightarrow>
      slot_row elems (store_kv_cache_kernel loc (length loc) elems stride src 128 threads cache) s = slot_row elems cache s"
    "length (store_kv_cache_kernel loc (length loc) elems stride src 128 threads cache) = length cache"
proof -
  let ?W = "concat (map (store_kv_stores loc (length loc) elems stride src 128) threads)"
  let ?c = "store_kv_cache_kernel loc (length loc) elems stride src 128 threads cache"
  have c: "?c = put ?W cache" by (simp add: store_kv_cache_kernel_def)
  have W: "set ?W = {(nat (loc ! t) * elems + e, src ! (t * stride + e)) |t e. t < length loc \<and> e < elems}"
    by (rule store_kv_stores_all [OF threads])
  show len: "length ?c = length cache" by (simp add: c)
  have room: "nat s * elems + e < length cache" if "0 \<le> s" "s < int slots" "e < elems" for s e
  proof -
    have "(nat s + 1) * elems \<le> slots * elems" using that(1,2) by (intro mult_right_mono) auto
    then show ?thesis using that(3) slots(1) by simp
  qed
  have sl: "length (slot_row elems xs s) = elems" if "length xs = length cache" "0 \<le> s" "s < int slots" for xs :: "'a list" and s
  proof (cases elems)
    case (Suc k)
    then have "nat s * elems + k < length cache" using room [OF that(2,3), of k] by simp
    then show ?thesis using that Suc by (simp add: slot_row_def)
  qed (simp add: slot_row_def)
  have nth: "slot_row elems xs s ! e = xs ! (nat s * elems + e)" if "length xs = length cache" "0 \<le> s" "s < int slots" "e < elems" for xs :: "'a list" and s e
    using sl [OF that(1-3)] that(4) by (simp add: slot_row_def nth_tslice)
  show "slot_row elems ?c (loc ! t) = map (\<lambda>e. src ! (t * stride + e)) [0..<elems]"
    if t: "t < length loc" "count_list loc (loc ! t) = 1"
  proof (rule nth_equalityI)
    have s: "0 \<le> loc ! t" "loc ! t < int slots" using slots(2) t(1) by simp_all
    show "length (slot_row elems ?c (loc ! t)) = length (map (\<lambda>e. src ! (t * stride + e)) [0..<elems])" using sl [OF len s] by simp
    fix e
    assume "e < length (slot_row elems ?c (loc ! t))"
    then have e: "e < elems" using sl [OF len s] by simp
    have uniq: "u = t" if u: "u < length loc" "loc ! u = loc ! t" for u
    proof (rule ccontr)
      assume "u \<noteq> t"
      have "length (filter ((=) (loc ! t)) loc) = 1" using t(2) by (simp add: count_list_eq_length_filter)
      then have "card {i. i < length loc \<and> loc ! t = loc ! i} = 1" by (simp add: length_filter_conv_card)
      then obtain i where "{i. i < length loc \<and> loc ! t = loc ! i} = {i}" using card_1_singletonE by blast
      moreover have "t \<in> {i. i < length loc \<and> loc ! t = loc ! i}" using t(1) by simp
      moreover have "u \<in> {i. i < length loc \<and> loc ! t = loc ! i}" using u by simp
      ultimately have "t \<in> {i}" "u \<in> {i}" by (simp_all only:)
      then have "t = i" "u = i" by simp_all
      then show False using \<open>u \<noteq> t\<close> by simp
    qed
    have "put ?W cache ! (nat (loc ! t) * elems + e) = src ! (t * stride + e)"
    proof (rule nth_put_agree)
      show "(nat (loc ! t) * elems + e, src ! (t * stride + e)) \<in> set ?W" unfolding W using t(1) e by blast
      show "nat (loc ! t) * elems + e < length cache" by (rule room [OF s e])
      fix v
      assume "(nat (loc ! t) * elems + e, v) \<in> set ?W"
      then obtain u e' where u: "u < length loc" "e' < elems" "nat (loc ! t) * elems + e = nat (loc ! u) * elems + e'"
        "v = src ! (u * stride + e')" unfolding W by blast
      have "nat (loc ! t) = nat (loc ! u) \<and> e = e'" by (rule place_inj [OF e u(2,3)])
      moreover have "0 \<le> loc ! u" using slots(2) u(1) by simp
      ultimately have "loc ! u = loc ! t" "e' = e" using s(1) by (simp_all add: eq_nat_nat_iff)
      then show "v = src ! (t * stride + e)" using uniq [OF u(1)] u(4) by simp
    qed
    then show "slot_row elems ?c (loc ! t) ! e = map (\<lambda>e. src ! (t * stride + e)) [0..<elems] ! e"
      using nth [OF len s e] e c by simp
  qed
  show "slot_row elems ?c s = slot_row elems cache s" if s: "0 \<le> s" "s < int slots" "s \<notin> set loc"
  proof (rule nth_equalityI)
    show "length (slot_row elems ?c s) = length (slot_row elems cache s)" using sl [OF len s(1,2)] sl [OF refl s(1,2)] by simp
    fix e
    assume "e < length (slot_row elems ?c s)"
    then have e: "e < elems" using sl [OF len s(1,2)] by simp
    have "nat s * elems + e \<notin> fst ` set ?W"
    proof
      assume "nat s * elems + e \<in> fst ` set ?W"
      then obtain u e' where u: "u < length loc" "e' < elems" "nat s * elems + e = nat (loc ! u) * elems + e'" unfolding W by auto
      then have "nat s = nat (loc ! u)" using place_inj [OF e u(2,3)] by blast
      moreover have "0 \<le> loc ! u" using slots(2) u(1) by simp
      ultimately have "s = loc ! u" using s(1) by (simp add: eq_nat_nat_iff)
      then show False using s(3) u(1) by simp
    qed
    then show "slot_row elems ?c s ! e = slot_row elems cache s ! e"
      using nth [OF len s(1,2) e] nth [OF refl s(1,2) e] by (simp add: c nth_put_other)
  qed
qed

text \<open>The shape of a cache of \<open>slots\<close> places a layer.\<close>

definition kv_shape :: "nat \<Rightarrow> 'a mha_kvcache \<Rightarrow> bool" where
  "kv_shape slots kv \<longleftrightarrow> length (v_buffer kv) = length (k_buffer kv) \<and>
     (\<forall>l<length (k_buffer kv). length (k_buffer kv ! l) = slots * (kv_heads kv * kv_head_dim kv) \<and>
        length (v_buffer kv ! l) = slots * (kv_heads kv * kv_head_dim kv))"

lemma kv_init_shape: "kv_shape (pages * ps) (mha_kvcache_init h layers d pages ps junk)"
  by (simp add: kv_shape_def mha_kvcache_init_def Let_def)

text \<open>
  Storing the keys and values of a batch puts the row of each token, whatever the strides of the
  tensors, into its place in the cache, for every order of the threads; a place that several tokens
  name, as the padding does, holds one of theirs; all other places and layers keep their contents.
\<close>

theorem store_kv_exact:
  assumes k: "view_heads (kv_heads kv) (kv_head_dim kv) key = Inr k" "t_sizes k = [length loc, kv_heads kv, kv_head_dim kv]"
    and v: "view_heads (kv_heads kv) (kv_head_dim kv) val = Inr v" "t_sizes v = [length loc, kv_heads kv, kv_head_dim kv]"
    and kv: "kv_shape slots kv" "layer < length (k_buffer kv)" "elems = kv_heads kv * kv_head_dim kv"
    and loc: "\<forall>s\<in>set loc. 0 \<le> s \<and> s < int slots"
    and threads: "\<forall>n m. set (threads n m) = set (launch_threads n m)"
  shows "\<exists>kv'. store_kv threads key val loc layer kv = Inr kv' \<and>
    (\<forall>t<length loc. count_list loc (loc ! t) = 1 \<longrightarrow>
       slot_row elems (k_buffer kv' ! layer) (loc ! t) = map (\<lambda>e. t_data k ! (t * t_stride k + e)) [0..<elems] \<and>
       slot_row elems (v_buffer kv' ! layer) (loc ! t) = map (\<lambda>e. t_data v ! (t * t_stride v + e)) [0..<elems]) \<and>
    (\<forall>s. 0 \<le> s \<and> s < int slots \<and> s \<notin> set loc \<longrightarrow>
       slot_row elems (k_buffer kv' ! layer) s = slot_row elems (k_buffer kv ! layer) s \<and>
       slot_row elems (v_buffer kv' ! layer) s = slot_row elems (v_buffer kv ! layer) s) \<and>
    (\<forall>l. l \<noteq> layer \<longrightarrow> k_buffer kv' ! l = k_buffer kv ! l \<and> v_buffer kv' ! l = v_buffer kv ! l) \<and>
    kv_shape slots kv' \<and> kv_heads kv' = kv_heads kv \<and> kv_head_dim kv' = kv_head_dim kv \<and>
    length (k_buffer kv') = length (k_buffer kv)"
proof (cases "loc = []")
  case True
  then have "store_kv threads key val loc layer kv = Inr kv" using k v kv(2) by (simp add: store_kv_def Let_def)
  then show ?thesis using True kv(1) by simp
next
  case False
  let ?n = "length loc" let ?o = "threads ((?n + 3) div 4) 128"
  let ?K = "store_kv_cache_kernel loc ?n elems (t_stride k) (t_data k) 128 ?o (k_buffer kv ! layer)"
  let ?V = "store_kv_cache_kernel loc ?n elems (t_stride v) (t_data v) 128 ?o (v_buffer kv ! layer)"
  let ?kv = "kv\<lparr>k_buffer := (k_buffer kv)[layer := ?K], v_buffer := (v_buffer kv)[layer := ?V]\<rparr>"
  have len: "length (k_buffer kv ! layer) = slots * elems" "length (v_buffer kv ! layer) = slots * elems"
    "layer < length (v_buffer kv)" using kv by (simp_all add: kv_shape_def)
  have "store_kv threads key val loc layer kv = Inr ?kv" using k v kv(2,3) False by (simp add: store_kv_def Let_def)
  moreover have o: "set ?o = set (launch_threads ((?n + 3) div 4) 128)" using threads by blast
  moreover note store_kernel_rows [OF o len(1) loc] store_kernel_rows [OF o len(2) loc]
  moreover from this have "kv_shape slots ?kv" using kv len by (simp add: kv_shape_def nth_list_update)
  ultimately show ?thesis using kv(2) len(3) by (intro exI [of _ ?kv]) simp
qed

section \<open>The rotary embedding\<close>


section \<open>Normalization\<close>

lemma thread_positions_scale:
  assumes "0 < k"
  shows "thread_positions (pos * k) (len * k) (step * k) = map (\<lambda>i. i * k) (thread_positions pos len step)"
proof (induction pos len step rule: thread_positions.induct)
  case (1 pos len step)
  show ?case
  proof (cases "0 < step \<and> pos < len")
    case True
    have "pos * k + step * k = (pos + step) * k" by (simp add: add_mult_distrib)
    then show ?thesis
      using 1 True assms thread_positions.simps [of "pos * k" "len * k" "step * k"] thread_positions.simps [of pos len step]
      by simp
  next
    case False
    then show ?thesis
      using assms thread_positions.simps [of "pos * k" "len * k" "step * k"] thread_positions.simps [of pos len step]
      by auto
  qed
qed

lemma blocks_upt: "concat (map (\<lambda>b. map (\<lambda>i. b * k + i) [0..<k]) [0..<n]) = [0..<n * k]"
proof (induction n)
  case (Suc n)
  have "map (\<lambda>i. n * k + i) [0..<k] = [n * k..<n * k + k]" using map_add_upt [of "n * k" k] by (simp add: add.commute)
  then show ?case using Suc upt_add_eq_append [of 0 "n * k" k] by (simp add: add.commute)
qed simp

lemma lane_elements_partition:
  assumes "vec \<Longrightarrow> d mod 8 = 0"
  shows "mset (concat (map (lane_elements vec d) [0..<32])) = mset [0..<d]"
proof (cases vec)
  case True
  obtain n where n: "d = n * 8" using assms True by (metis mod_0_imp_dvd dvdE mult.commute)
  have "map (lane_elements vec d) [0..<32] =
      map (\<lambda>l. concat (map (\<lambda>b. map (\<lambda>i. b * 8 + i) [0..<8]) (thread_positions l n 32))) [0..<32]"
    using thread_positions_scale [of 8 _ n 32] by (simp add: lane_elements_def True n o_def)
  then have "concat (map (lane_elements vec d) [0..<32]) =
      concat (map (\<lambda>b. map (\<lambda>i. b * 8 + i) [0..<8]) (concat (map (\<lambda>l. thread_positions l n 32) [0..<32])))"
    unfolding concat_map_concat map_map o_def by (simp only:)
  then have "mset (concat (map (lane_elements vec d) [0..<32])) = mset (concat (map (\<lambda>b. map (\<lambda>i. b * 8 + i) [0..<8]) [0..<n]))"
    using thread_positions_partition [of 32 n] by (simp only: mset_concat_map zero_less_numeral)
  then show ?thesis by (simp only: blocks_upt n)
next
  case False
  then have "lane_elements vec d = (\<lambda>t. thread_positions t d 32)" by (simp add: lane_elements_def fun_eq_iff)
  then show ?thesis using thread_positions_partition [of 32 d] by (simp only: zero_less_numeral)
qed

lemma sum_list_map_concat: "(\<Sum>x\<leftarrow>concat xss. f x) = (\<Sum>xs\<leftarrow>xss. \<Sum>x\<leftarrow>xs. f x)"
  by (induction xss) simp_all

text \<open>What the normalization of one row is meant to be.\<close>

definition rms_norm :: "('a \<Rightarrow> 'a) \<Rightarrow> 'a \<Rightarrow> 'a list \<Rightarrow> 'a list \<Rightarrow> 'a::field list" where
  "rms_norm rsqrt eps weight row =
     map2 (\<lambda>x w. x * rsqrt ((\<Sum>x\<leftarrow>row. x * x) / of_nat (length row) + eps) * w) row weight"

lemma warp_norm_row:
  assumes "vec \<Longrightarrow> d mod 8 = 0" "base + d \<le> length mem" "length weight = d"
  shows "warp_norm rsqrt eps vec d weight base [0..<32] mem =
    take base mem @ rms_norm rsqrt eps weight (tslice base (base + d) mem) @ drop (base + d) mem"
proof -
  let ?x = "\<lambda>i. mem ! (base + i)" and ?row = "tslice base (base + d) mem"
  let ?sq = "\<lambda>lane. \<Sum>i\<leftarrow>lane_elements vec d lane. ?x i * ?x i"
  let ?s = "rsqrt ((\<Sum>x\<leftarrow>?row. x * x) / of_nat d + eps)"
  have part: "mset (concat (map (lane_elements vec d) [0..<32])) = mset [0..<d]"
    by (rule lane_elements_partition) (rule assms(1))
  have len: "length ?row = d" using assms(2) by simp
  have row: "?row = map ?x [0..<d]" using assms(2) by (intro nth_equalityI) (simp_all add: nth_tslice)
  have "(\<Sum>l<32. ?sq l) = (\<Sum>l\<leftarrow>[0..<32]. ?sq l)"
    by (simp add: interv_sum_list_conv_sum_set_nat atLeast0LessThan)
  also have "\<dots> = (\<Sum>i\<leftarrow>concat (map (lane_elements vec d) [0..<32]). ?x i * ?x i)"
    by (simp only: sum_list_map_concat map_map o_def)
  also have "\<dots> = (\<Sum>i\<leftarrow>[0..<d]. ?x i * ?x i)"
    by (metis (no_types, lifting) part mset_map sum_mset_sum_list)
  also have "\<dots> = (\<Sum>x\<leftarrow>?row. x * x)" unfolding row by (simp add: o_def)
  finally have sum: "warp_sum ?sq lane = (\<Sum>x\<leftarrow>?row. x * x)" if "lane < 32" for lane
    using warp_sum_all [OF that, of ?sq] by simp
  let ?f = "\<lambda>i. (base + i, ?x i * ?s * weight ! i)"
  have "concat (map (\<lambda>lane. map (\<lambda>i. (base + i, ?x i * rsqrt (warp_sum ?sq lane / of_nat d + eps) * weight ! i))
      (lane_elements vec d lane)) [0..<32]) = map ?f (concat (map (lane_elements vec d) [0..<32]))"
    unfolding map_concat map_map by (intro arg_cong [where f = concat] map_cong) (simp_all add: sum)
  moreover have "put (map ?f (concat (map (lane_elements vec d) [0..<32]))) mem = put (map ?f [0..<d]) mem"
  proof (rule put_order)
    show "distinct (map fst (map ?f [0..<d]))" by (simp add: o_def distinct_map inj_on_def)
    show "mset (map ?f (concat (map (lane_elements vec d) [0..<32]))) = mset (map ?f [0..<d])"
      unfolding mset_map part ..
  qed
  moreover have "map (\<lambda>i. ?x i * ?s * weight ! i) [0..<d] = rms_norm rsqrt eps weight ?row"
    unfolding rms_norm_def using assms(3) len row by (intro nth_equalityI) simp_all
  ultimately show ?thesis
    using put_block [OF assms(2), of "\<lambda>i. ?x i * ?s * weight ! i"] by (simp add: warp_norm_def Let_def)
qed

text \<open>Rows that do not overlap are normalized one after the other.\<close>

definition apart :: "nat \<Rightarrow> nat list \<Rightarrow> bool" where
  "apart d bases \<longleftrightarrow> sorted_wrt (\<lambda>a b. a + d \<le> b \<or> b + d \<le> a) bases"

lemma norm_rows:
  assumes "apart d (map fst jobs)" "\<forall>(b, w)\<in>set jobs. b + d \<le> length mem \<and> length w = d" "vec \<Longrightarrow> d mod 8 = 0"
    and mem': "mem' = fold (\<lambda>(b, w). warp_norm rsqrt eps vec d w b [0..<32]) jobs mem"
  shows "length mem' = length mem \<and>
    (\<forall>(b, w)\<in>set jobs. tslice b (b + d) mem' = rms_norm rsqrt eps w (tslice b (b + d) mem)) \<and>
    (\<forall>a<length mem. (\<forall>(b, w)\<in>set jobs. a < b \<or> b + d \<le> a) \<longrightarrow> mem' ! a = mem ! a)"
  using assms
proof (induction jobs arbitrary: mem)
  case (Cons job jobs)
  obtain b w where j: "job = (b, w)" by (cases job)
  have bd: "b + d \<le> length mem" "length w = d" using Cons.prems(2) j by auto
  let ?r = "rms_norm rsqrt eps w (tslice b (b + d) mem)"
  define m1 where "m1 = warp_norm rsqrt eps vec d w b [0..<32] mem"
  have m1: "m1 = take b mem @ ?r @ drop (b + d) mem"
    unfolding m1_def by (rule warp_norm_row [OF Cons.prems(3) bd])
  have lr: "length ?r = d" using bd by (simp add: rms_norm_def)
  have l1: "length m1 = length mem" using bd lr by (simp add: m1)
  have same: "m1 ! a = mem ! a" if "a < length mem" "a < b \<or> b + d \<le> a" for a
    using that bd lr by (auto simp: m1 nth_append)
  have own: "tslice b (b + d) m1 = ?r" using bd lr by (simp add: m1 tslice_def)
  have ap: "apart d (map fst jobs)" "\<And>b' w'. (b', w') \<in> set jobs \<Longrightarrow> b + d \<le> b' \<or> b' + d \<le> b"
    using Cons.prems(1) j by (auto simp: apart_def)
  have other: "tslice b' (b' + d) m1 = tslice b' (b' + d) mem" if "(b', w') \<in> set jobs" for b' w'
  proof (rule nth_equalityI)
    show "length (tslice b' (b' + d) m1) = length (tslice b' (b' + d) mem)" using l1 by simp
    fix i
    assume "i < length (tslice b' (b' + d) m1)"
    then have i: "i < d" "b' + i < length mem" using l1 by auto
    then show "tslice b' (b' + d) m1 ! i = tslice b' (b' + d) mem ! i"
      using ap(2) [OF that] same [of "b' + i"] l1 by (auto simp: nth_tslice)
  qed
  have "length mem' = length m1 \<and>
    (\<forall>(b, w)\<in>set jobs. tslice b (b + d) mem' = rms_norm rsqrt eps w (tslice b (b + d) m1)) \<and>
    (\<forall>a<length m1. (\<forall>(b, w)\<in>set jobs. a < b \<or> b + d \<le> a) \<longrightarrow> mem' ! a = m1 ! a)"
    by (rule Cons.IH [OF ap(1)]) (use Cons.prems(2-4) l1 in \<open>auto simp: j m1_def\<close>)
  then have IH: "length mem' = length m1"
    "\<forall>(b, w)\<in>set jobs. tslice b (b + d) mem' = rms_norm rsqrt eps w (tslice b (b + d) m1)"
    "\<forall>a<length m1. (\<forall>(b, w)\<in>set jobs. a < b \<or> b + d \<le> a) \<longrightarrow> mem' ! a = m1 ! a" by blast+
  have keep: "tslice b (b + d) mem' = tslice b (b + d) m1"
  proof (rule nth_equalityI)
    show "length (tslice b (b + d) mem') = length (tslice b (b + d) m1)" using IH by simp
    fix i
    assume "i < length (tslice b (b + d) mem')"
    then have i: "i < d" "b + i < length m1" using IH by auto
    have "\<forall>(b', w')\<in>set jobs. b + i < b' \<or> b' + d \<le> b + i" using ap(2) i(1) by fastforce
    from IH(3) [THEN spec, THEN mp, OF i(2), THEN mp, OF this] have "mem' ! (b + i) = m1 ! (b + i)" .
    then show "tslice b (b + d) mem' ! i = tslice b (b + d) m1 ! i" using i IH by (simp add: nth_tslice)
  qed
  show ?case
  proof (intro conjI ballI allI impI)
    show "length mem' = length mem" using IH l1 by simp
    show "case x of (b, w) \<Rightarrow> tslice b (b + d) mem' = rms_norm rsqrt eps w (tslice b (b + d) mem)"
      if x: "x \<in> set (job # jobs)" for x
    proof (cases "x = job")
      case True
      then show ?thesis using keep own by (simp add: j)
    next
      case False
      obtain b' w' where x': "x = (b', w')" by (cases x)
      then have m: "(b', w') \<in> set jobs" using x False by simp
      have "tslice b' (b' + d) mem' = rms_norm rsqrt eps w' (tslice b' (b' + d) m1)"
        using bspec [OF IH(2) m] by (simp only: prod.case)
      then show ?thesis by (simp only: x' prod.case other [OF m])
    qed
    show "mem' ! a = mem ! a" if "a < length mem" "\<forall>(b, w)\<in>set (job # jobs). a < b \<or> b + d \<le> a" for a
    proof -
      have h: "\<forall>(b, w)\<in>set jobs. a < b \<or> b + d \<le> a" "a < b \<or> b + d \<le> a" using that(2) j by simp_all
      have "a < length m1" using that(1) l1 by simp
      from IH(3) [THEN spec, THEN mp, OF this, THEN mp, OF h(1)] have "mem' ! a = m1 ! a" .
      moreover have "m1 ! a = mem ! a" by (rule same [OF that(1) h(2)])
      ultimately show ?thesis by (simp only:)
    qed
  qed
qed simp

lemma norm_jobs_split: "norm_jobs n = [0..<n] @ [n..<(n + 3) div 4 * 4]"
proof -
  have "n \<le> (n + 3) div 4 * 4" by linarith
  then show ?thesis unfolding norm_jobs_def by (metis le0 le_add_diff_inverse upt_add_eq_append)
qed

lemma fold_id: "(\<And>x. x \<in> set xs \<Longrightarrow> f x = id) \<Longrightarrow> fold f xs = id"
  by (induction xs) simp_all

lemma fold_eq: "(\<And>x. x \<in> set xs \<Longrightarrow> f x = g x) \<Longrightarrow> fold f xs = fold g xs"
  by (induction xs) simp_all

definition norm_places :: "norm_dims \<Rightarrow> nat list" where
  "norm_places nd = map (norm_row nd) [0..<nd_tokens nd * nd_heads nd]"

lemma qk_fold:
  "fold (qk_rmsnorm_job rsqrt eps vec d nd w) (norm_jobs (nd_tokens nd * nd_heads nd)) mem =
     fold (\<lambda>(b, w). warp_norm rsqrt eps vec d w b [0..<32]) (map (\<lambda>b. (b, w)) (norm_places nd)) mem"
proof -
  let ?n = "nd_tokens nd * nd_heads nd"
  have "fold (qk_rmsnorm_job rsqrt eps vec d nd w) [?n..<(?n + 3) div 4 * 4] = id"
    by (rule fold_id) (auto simp: qk_rmsnorm_job_def fun_eq_iff)
  moreover have "fold (qk_rmsnorm_job rsqrt eps vec d nd w) [0..<?n] =
      fold (\<lambda>j. warp_norm rsqrt eps vec d w (norm_row nd j) [0..<32]) [0..<?n]"
    by (rule fold_eq) (auto simp: qk_rmsnorm_job_def fun_eq_iff)
  ultimately show ?thesis by (simp add: norm_jobs_split norm_places_def fold_map o_def)
qed

lemma fused_fold:
  assumes "nd_tokens q = nd_tokens k"
  shows "fold (fused_rmsnorm_job rsqrt eps vec d q k qw kw) (norm_jobs (nd_tokens q * (nd_heads q + nd_heads k))) mem =
     fold (\<lambda>(b, w). warp_norm rsqrt eps vec d w b [0..<32])
       (map (\<lambda>b. (b, qw)) (norm_places q) @ map (\<lambda>b. (b, kw)) (norm_places k)) mem"
proof -
  let ?a = "nd_tokens q * nd_heads q" and ?b = "nd_tokens k * nd_heads k" and ?f = "fused_rmsnorm_job rsqrt eps vec d q k qw kw"
  let ?n = "nd_tokens q * (nd_heads q + nd_heads k)"
  have n: "?n = ?a + ?b" using assms by (simp add: algebra_simps)
  have "fold ?f [?n..<(?n + 3) div 4 * 4] = id"
    by (rule fold_id) (use assms n in \<open>auto simp: fused_rmsnorm_job_def fun_eq_iff Let_def\<close>)
  moreover have "fold ?f [0..<?a] = fold (\<lambda>j. warp_norm rsqrt eps vec d qw (norm_row q j) [0..<32]) [0..<?a]"
    by (rule fold_eq) (auto simp: fused_rmsnorm_job_def fun_eq_iff Let_def)
  moreover have "fold ?f (map (\<lambda>j. j + ?a) [0..<?b]) = fold (\<lambda>j. warp_norm rsqrt eps vec d kw (norm_row k j) [0..<32]) [0..<?b]"
    unfolding fold_map o_def
    by (rule fold_eq) (use assms in \<open>auto simp: fused_rmsnorm_job_def fun_eq_iff Let_def\<close>)
  moreover have "[0..<?n] = [0..<?a] @ map (\<lambda>j. j + ?a) [0..<?b]"
    using upt_add_eq_append [of 0 ?a ?b] map_add_upt [of ?a ?b] n by (simp add: add.commute)
  ultimately show ?thesis by (simp add: norm_jobs_split norm_places_def fold_map o_def)
qed

lemma norm_place:
  assumes "t < nd_tokens nd" "h < nd_heads nd"
  shows "nd_base nd + t * stride_token nd + h * stride_head nd \<in> set (norm_places nd)"
proof -
  have "(t * nd_heads nd + h) div nd_heads nd = t" using assms by simp
  then have "norm_row nd (t * nd_heads nd + h) = nd_base nd + t * stride_token nd + h * stride_head nd"
    by (simp add: norm_row_def Let_def)
  moreover have "t * nd_heads nd + h < nd_tokens nd * nd_heads nd"
  proof -
    have "(t + 1) * nd_heads nd \<le> nd_tokens nd * nd_heads nd" using assms(1) by (intro mult_right_mono) auto
    then show ?thesis using assms(2) by simp
  qed
  ultimately show ?thesis unfolding norm_places_def by (metis atLeastLessThan_iff image_eqI le0 set_map set_upt)
qed

text \<open>
  C19: Normalizing queries and keys in one launch is the same as one launch for each, and gives every
  head of every token its root mean square normalization, with the vectorised kernel as with the
  plain one, with the sums of squares built by the butterfly of a warp; nothing else of the memory
  changes. The rows only have to lie apart, as the slices of one projection do.
\<close>

theorem fused_norm_exact:
  fixes mem :: "'a::field list"
  assumes dims: "nd_tokens q = nd_tokens k" "length qw = d" "length kw = d"
    and places: "apart d (norm_places q @ norm_places k)" "\<forall>b\<in>set (norm_places q @ norm_places k). b + d \<le> length mem"
  shows "fused_qk_rmsnorm rsqrt eps eps d q k qw kw mem =
      res_bind (forward_inplace_3d_strided rsqrt eps d q qw mem) (forward_inplace_3d_strided rsqrt eps d k kw) \<and>
    (\<exists>mem'. fused_qk_rmsnorm rsqrt eps eps d q k qw kw mem = Inr mem' \<and> length mem' = length mem \<and>
      (\<forall>t<nd_tokens q. \<forall>h<nd_heads q. let b = nd_base q + t * stride_token q + h * stride_head q in
         tslice b (b + d) mem' = rms_norm rsqrt eps qw (tslice b (b + d) mem)) \<and>
      (\<forall>t<nd_tokens k. \<forall>h<nd_heads k. let b = nd_base k + t * stride_token k + h * stride_head k in
         tslice b (b + d) mem' = rms_norm rsqrt eps kw (tslice b (b + d) mem)) \<and>
      (\<forall>a<length mem. (\<forall>b\<in>set (norm_places q @ norm_places k). a < b \<or> b + d \<le> a) \<longrightarrow> mem' ! a = mem ! a))"
proof -
  let ?jobs = "map (\<lambda>b. (b, qw)) (norm_places q) @ map (\<lambda>b. (b, kw)) (norm_places k)"
  let ?run = "fold (\<lambda>(b, w). warp_norm rsqrt eps (d mod 8 = 0) d w b [0..<32])"
  have empty: "norm_places nd = []" if "nd_tokens nd * nd_heads nd = 0" for nd using that by (simp add: norm_places_def)
  have one: "forward_inplace_3d_strided rsqrt eps d nd w m = Inr (?run (map (\<lambda>b. (b, w)) (norm_places nd)) m)"
    if "length w = d" for nd w and m :: "'a list"
    using that qk_fold [of rsqrt eps "d mod 8 = 0" d nd w m] empty [of nd]
    by (cases "nd_tokens nd * nd_heads nd = 0") (simp_all add: forward_inplace_3d_strided_def Let_def)
  have fused: "fused_qk_rmsnorm rsqrt eps eps d q k qw kw mem = Inr (?run ?jobs mem)"
  proof (cases "nd_tokens q * (nd_heads q + nd_heads k) = 0")
    case True
    then have "nd_tokens q * nd_heads q = 0" "nd_tokens k * nd_heads k = 0" using dims(1) by (simp_all add: algebra_simps)
    then have "?jobs = []" using empty by simp
    then show ?thesis using True dims by (simp add: fused_qk_rmsnorm_def Let_def)
  next
    case False
    then show ?thesis using dims fused_fold [OF dims(1), of rsqrt eps "d mod 8 = 0" d qw kw mem] by (simp only: fused_qk_rmsnorm_def Let_def if_False check_True res_bind_Inr simp_thms)
  qed
  have "map fst ?jobs = norm_places q @ norm_places k" by (simp add: o_def)
  then have ap: "apart d (map fst ?jobs)" using places(1) by (simp only:)
  have rg: "\<forall>(b, w)\<in>set ?jobs. b + d \<le> length mem \<and> length w = d" using places(2) dims by auto
  have r: "length (?run ?jobs mem) = length mem"
    "\<forall>(b, w)\<in>set ?jobs. tslice b (b + d) (?run ?jobs mem) = rms_norm rsqrt eps w (tslice b (b + d) mem)"
    "\<forall>a<length mem. (\<forall>(b, w)\<in>set ?jobs. a < b \<or> b + d \<le> a) \<longrightarrow> ?run ?jobs mem ! a = mem ! a"
    using norm_rows [OF ap rg _ refl, of "d mod 8 = 0" rsqrt eps] by blast+
  have rows: "tslice b (b + d) (?run ?jobs mem) = rms_norm rsqrt eps w (tslice b (b + d) mem)"
    if "(b, w) \<in> set ?jobs" for b w using bspec [OF r(2) that] by (simp only: prod.case)
  have "?run ?jobs mem ! a = mem ! a"
    if "a < length mem" "\<forall>b\<in>set (norm_places q @ norm_places k). a < b \<or> b + d \<le> a" for a
  proof -
    have "\<forall>(b, w)\<in>set ?jobs. a < b \<or> b + d \<le> a" using that(2) by auto
    from r(3) [THEN spec, THEN mp, OF that(1), THEN mp, OF this] show ?thesis .
  qed
  moreover have "fused_qk_rmsnorm rsqrt eps eps d q k qw kw mem =
      res_bind (forward_inplace_3d_strided rsqrt eps d q qw mem) (forward_inplace_3d_strided rsqrt eps d k kw)"
    unfolding fused one [OF dims(2)] res_bind_Inr one [OF dims(3)] fold_append comp_apply ..
  moreover have "\<forall>t<nd_tokens q. \<forall>h<nd_heads q. let b = nd_base q + t * stride_token q + h * stride_head q in
         tslice b (b + d) (?run ?jobs mem) = rms_norm rsqrt eps qw (tslice b (b + d) mem)"
    unfolding Let_def using rows norm_place by (auto simp del: fold_append)
  moreover have "\<forall>t<nd_tokens k. \<forall>h<nd_heads k. let b = nd_base k + t * stride_token k + h * stride_head k in
         tslice b (b + d) (?run ?jobs mem) = rms_norm rsqrt eps kw (tslice b (b + d) mem)"
    unfolding Let_def using rows norm_place by (auto simp del: fold_append)
  ultimately show ?thesis using fused r(1) by blast
qed

section \<open>Examples\<close>

definition demo_kv :: "int mha_kvcache" where
  "demo_kv = \<lparr>kv_heads = 1, kv_head_dim = 2, k_buffer = [[0, 0, 0, 0, 0, 0]], v_buffer = [[9, 9, 9, 9, 9, 9]]\<rparr>"

theorem store_kv_exact_witness:
  "\<exists>kv'. store_kv launch_threads \<lparr>t_sizes = [2, 2], t_stride = 2, t_data = [1, 2, 3, 4]\<rparr>
       \<lparr>t_sizes = [2, 1, 2], t_stride = 3, t_data = [5, 6, 0, 7, 8, 0]\<rparr> [2, 0] 0 demo_kv = Inr kv' \<and>
     slot_row 2 (k_buffer kv' ! 0) 2 = [1, 2] \<and> slot_row 2 (v_buffer kv' ! 0) 0 = [7, 8] \<and>
     slot_row 2 (v_buffer kv' ! 0) 1 = [9, 9]"
proof -
  let ?k = "\<lparr>t_sizes = [2, 2], t_stride = 2, t_data = [1, 2, 3, 4 :: int]\<rparr>"
  let ?v = "\<lparr>t_sizes = [2, 1, 2], t_stride = 3, t_data = [5, 6, 0, 7, 8, 0 :: int]\<rparr>"
  have k: "view_heads (kv_heads demo_kv) (kv_head_dim demo_kv) ?k = Inr (?k\<lparr>t_sizes := [2, 1, 2]\<rparr>)"
    and v: "view_heads (kv_heads demo_kv) (kv_head_dim demo_kv) ?v = Inr ?v"
    by (simp_all add: view_heads_def demo_kv_def)
  let ?k3 = "?k\<lparr>t_sizes := [2, 1, 2]\<rparr>"
  have "\<exists>kv'. store_kv launch_threads ?k ?v [2, 0] 0 demo_kv = Inr kv' \<and>
    (\<forall>t<length [2, 0 :: int]. count_list [2, 0 :: int] ([2, 0] ! t) = 1 \<longrightarrow>
       slot_row 2 (k_buffer kv' ! 0) ([2, 0] ! t) = map (\<lambda>e. t_data ?k3 ! (t * t_stride ?k3 + e)) [0..<2] \<and>
       slot_row 2 (v_buffer kv' ! 0) ([2, 0] ! t) = map (\<lambda>e. t_data ?v ! (t * t_stride ?v + e)) [0..<2]) \<and>
    (\<forall>s. 0 \<le> s \<and> s < int 3 \<and> s \<notin> set [2, 0] \<longrightarrow>
       slot_row 2 (k_buffer kv' ! 0) s = slot_row 2 (k_buffer demo_kv ! 0) s \<and>
       slot_row 2 (v_buffer kv' ! 0) s = slot_row 2 (v_buffer demo_kv ! 0) s) \<and>
    (\<forall>l. l \<noteq> 0 \<longrightarrow> k_buffer kv' ! l = k_buffer demo_kv ! l \<and> v_buffer kv' ! l = v_buffer demo_kv ! l) \<and>
    kv_shape 3 kv' \<and> kv_heads kv' = kv_heads demo_kv \<and> kv_head_dim kv' = kv_head_dim demo_kv \<and>
    length (k_buffer kv') = length (k_buffer demo_kv)"
    by (rule store_kv_exact [OF k _ v]) (simp_all add: demo_kv_def kv_shape_def)
  then obtain kv' where r: "store_kv launch_threads ?k ?v [2, 0] 0 demo_kv = Inr kv'"
    and a: "\<forall>t<length [2, 0 :: int]. count_list [2, 0 :: int] ([2, 0] ! t) = 1 \<longrightarrow>
       slot_row 2 (k_buffer kv' ! 0) ([2, 0] ! t) = map (\<lambda>e. t_data ?k3 ! (t * t_stride ?k3 + e)) [0..<2] \<and>
       slot_row 2 (v_buffer kv' ! 0) ([2, 0] ! t) = map (\<lambda>e. t_data ?v ! (t * t_stride ?v + e)) [0..<2]"
    and b: "\<forall>s. 0 \<le> s \<and> s < int 3 \<and> s \<notin> set [2, 0] \<longrightarrow>
       slot_row 2 (k_buffer kv' ! 0) s = slot_row 2 (k_buffer demo_kv ! 0) s \<and>
       slot_row 2 (v_buffer kv' ! 0) s = slot_row 2 (v_buffer demo_kv ! 0) s" by blast
  have "slot_row 2 (v_buffer demo_kv ! 0) 1 = [9, 9]" by (simp add: slot_row_def demo_kv_def tslice_def)
  then have "slot_row 2 (v_buffer kv' ! 0) 1 = [9, 9]" using b [THEN spec [of _ 1]] by simp
  moreover have "slot_row 2 (k_buffer kv' ! 0) 2 = [1, 2]" using a [THEN spec [of _ 0]] by (simp add: upt_rec)
  moreover have "slot_row 2 (v_buffer kv' ! 0) 0 = [7, 8]" using a [THEN spec [of _ 1]] by (simp add: upt_rec)
  ultimately show ?thesis using r by blast
qed


theorem fused_norm_exact_witness:
  "\<exists>mem'. fused_qk_rmsnorm (\<lambda>x. 1 / x) 0 0 2 \<lparr>nd_tokens = 1, nd_heads = 1, nd_base = 0, stride_token = 4, stride_head = 2\<rparr>
     \<lparr>nd_tokens = 1, nd_heads = 1, nd_base = 2, stride_token = 4, stride_head = 2\<rparr> [1, 1] [1, 2] [3, 4, 1, 2 :: rat] = Inr mem' \<and>
     tslice 0 2 mem' = [6 / 25, 8 / 25] \<and> tslice 2 4 mem' = [2 / 5, 8 / 5]"
proof -
  let ?q = "\<lparr>nd_tokens = 1, nd_heads = 1, nd_base = 0, stride_token = 4, stride_head = 2\<rparr>"
  let ?k = "\<lparr>nd_tokens = 1, nd_heads = 1, nd_base = 2, stride_token = 4, stride_head = 2\<rparr>"
  have p: "norm_places ?q = [0]" "norm_places ?k = [2]" by (simp_all add: norm_places_def norm_row_def)
  have "apart 2 (norm_places ?q @ norm_places ?k)"
    "\<forall>b\<in>set (norm_places ?q @ norm_places ?k). b + 2 \<le> length [3, 4, 1, 2 :: rat]"
    unfolding p by (simp_all add: apart_def)
  moreover have "nd_tokens ?q = nd_tokens ?k" "length [1, 1 :: rat] = 2" "length [1, 2 :: rat] = 2" by simp_all
  ultimately have "fused_qk_rmsnorm (\<lambda>x. 1 / x) 0 0 2 ?q ?k [1, 1] [1, 2] [3, 4, 1, 2 :: rat] =
      res_bind (forward_inplace_3d_strided (\<lambda>x. 1 / x) 0 2 ?q [1, 1] [3, 4, 1, 2]) (forward_inplace_3d_strided (\<lambda>x. 1 / x) 0 2 ?k [1, 2]) \<and>
    (\<exists>mem'. fused_qk_rmsnorm (\<lambda>x. 1 / x) 0 0 2 ?q ?k [1, 1] [1, 2] [3, 4, 1, 2 :: rat] = Inr mem' \<and> length mem' = length [3, 4, 1, 2 :: rat] \<and>
      (\<forall>t<nd_tokens ?q. \<forall>h<nd_heads ?q. let b = nd_base ?q + t * stride_token ?q + h * stride_head ?q in
         tslice b (b + 2) mem' = rms_norm (\<lambda>x. 1 / x) 0 [1, 1] (tslice b (b + 2) [3, 4, 1, 2])) \<and>
      (\<forall>t<nd_tokens ?k. \<forall>h<nd_heads ?k. let b = nd_base ?k + t * stride_token ?k + h * stride_head ?k in
         tslice b (b + 2) mem' = rms_norm (\<lambda>x. 1 / x) 0 [1, 2] (tslice b (b + 2) [3, 4, 1, 2])) \<and>
      (\<forall>a<length [3, 4, 1, 2 :: rat]. (\<forall>b\<in>set (norm_places ?q @ norm_places ?k). a < b \<or> b + 2 \<le> a) \<longrightarrow> mem' ! a = [3, 4, 1, 2] ! a))"
    by (intro fused_norm_exact)
  then
  obtain mem' where r: "fused_qk_rmsnorm (\<lambda>x. 1 / x) 0 0 2 ?q ?k [1, 1] [1, 2] [3, 4, 1, 2 :: rat] = Inr mem'"
    and q: "\<forall>t<nd_tokens ?q. \<forall>h<nd_heads ?q. let b = nd_base ?q + t * stride_token ?q + h * stride_head ?q in
         tslice b (b + 2) mem' = rms_norm (\<lambda>x. 1 / x) 0 [1, 1] (tslice b (b + 2) [3, 4, 1, 2])"
    and k: "\<forall>t<nd_tokens ?k. \<forall>h<nd_heads ?k. let b = nd_base ?k + t * stride_token ?k + h * stride_head ?k in
         tslice b (b + 2) mem' = rms_norm (\<lambda>x. 1 / x) 0 [1, 2] (tslice b (b + 2) [3, 4, 1, 2])"
    by blast
  from q [THEN spec [of _ 0]] have "tslice 0 2 mem' = [6 / 25, 8 / 25]" by (simp add: rms_norm_def tslice_def numeral_2_eq_2)
  moreover from k [THEN spec [of _ 0]] have "tslice 2 4 mem' = [2 / 5, 8 / 5]" by (simp add: rms_norm_def tslice_def)
  ultimately show ?thesis using r by blast
qed

section \<open>The caches of the rotary embedding\<close>

lemma nth_grid: "t < n \<Longrightarrow> j < length xs \<Longrightarrow> concat (map (\<lambda>t. map (f t) xs) [0..<n]) ! (t * length xs + j) = f t (xs ! j)"
proof (induction n)
  case (Suc n)
  have len: "length (concat (map (\<lambda>t. map (f t) xs) [0..<n])) = n * length xs" for n by (induction n) simp_all
  show ?case
  proof (cases "t < n")
    case True
    then have "Suc t * length xs \<le> n * length xs" by (intro mult_le_mono1) simp
    then have "t * length xs + j < n * length xs" using Suc.prems by simp
    then show ?thesis using Suc.IH True Suc.prems len [of n] by (simp add: nth_append)
  next
    case False
    then have "t = n" using Suc.prems by simp
    then show ?thesis using Suc.prems len [of n] by (simp add: nth_append)
  qed
qed simp

text \<open>For an even rotary size, both elements of a pair find the cosine and the sine of the same angle.\<close>

lemma rotary_caches:
  fixes pow :: "'a \<Rightarrow> 'a \<Rightarrow> 'a::field" and cosf sinf base
  assumes "rdim = 2 * half" "pos < max_pos" "i < rdim"
  defines "re \<equiv> rotary_embedding_init pow cosf sinf rdim max_pos base"
    and "angle \<equiv> of_nat pos * (1 / pow base (of_nat (2 * (if i < half then i else i - half)) / of_nat rdim))"
  shows "cache_at (re_cos_cache re) (re_width re) rdim pos i = cosf angle"
    "cache_at (re_sin_cache re) (re_width re) rdim pos i = sinf angle"
proof -
  let ?j = "if i < half then i else i - half"
  let ?fs = "map (\<lambda>j. 1 / pow base (of_nat (2 * j) / of_nat rdim)) [0..<half]"
  have j: "?j < length ?fs" and h: "0 < half" using assms by auto
  have a: "rotary_angles pow rdim max_pos base ! (pos * half + ?j) = angle"
    using nth_grid [OF assms(2) j, of "\<lambda>t f. of_nat t * f"] j assms(1) by (simp add: rotary_angles_def angle_def)
  have "length (rotary_angles pow rdim max_pos base) = max_pos * half"
    using assms(1) by (simp add: rotary_angles_def length_concat o_def sum_list_triv)
  moreover have "pos * half + ?j < max_pos * half"
    using mult_le_mono1 [of "Suc pos" max_pos half] assms(2) j by simp
  ultimately show "cache_at (re_cos_cache re) (re_width re) rdim pos i = cosf angle"
    "cache_at (re_sin_cache re) (re_width re) rdim pos i = sinf angle"
    using a h assms(1) by (simp_all add: cache_at_def re_def rotary_embedding_init_def Let_def)
qed

lemma rotary_forward_ok:
  assumes "rdim mod 2 = 0"
  shows "\<exists>mem'. rotary_forward_inplace fi (rotary_embedding_init pow cosf sinf rdim max_pos base) ps d threads mem = Inr mem'"
  using assms by (auto simp: rotary_forward_inplace_def rotary_embedding_init_def Let_def check_def elim!: evenE)

end
