(* ===== verification/ForwardProps.thy ===== *)
theory ForwardProps
  imports Forward GraphProps DeviceProps
begin

text \<open>
  What a layer of attention computes, from the first layer of a batch to the last: each token
  attends to the keys and values of its own request, in order, up to itself, those of the batch
  included.
\<close>

section \<open>The kernels\<close>

text \<open>
  What FlashInfer documents of its kernels for pages of one token, with causal masks: row \<open>j\<close> of a
  request with \<open>m\<close> rows and \<open>n\<close> pages attends to the first \<open>n - m + j + 1\<close> of them. \<open>attend\<close> is the
  attention of one row.
\<close>

definition paged_attention ::
  "('a list \<Rightarrow> ('a list \<times> 'a list) list \<Rightarrow> 'a list) \<Rightarrow> nat \<Rightarrow> 'a list \<Rightarrow> 'a list \<Rightarrow> int list \<Rightarrow> int list \<Rightarrow> int list \<Rightarrow>
   'a list list \<Rightarrow> 'a list list" where
  "paged_attention attend elems kb vb q_ptr kv_ptr idx q =
     concat (map (\<lambda>(qs, ps). map (\<lambda>j. attend (qs ! j)
          (map (\<lambda>p. (slot_row elems kb p, slot_row elems vb p)) (take (length ps - length qs + j + 1) ps))) [0..<length qs])
       (zip (kv_view q_ptr q) (kv_view kv_ptr idx)))"

definition attn_kernels ::
  "plan_fns \<Rightarrow> 'a attn_ops \<Rightarrow> ('a list \<Rightarrow> ('a list \<times> 'a list) list \<Rightarrow> 'a list) \<Rightarrow> nat \<Rightarrow> bool" where
  "attn_kernels fns ops attend elems \<longleftrightarrow>
     (\<forall>kvs n. length kvs = n + 1 \<longrightarrow> (\<exists>info ws. decode_plan fns kvs n = Some (info, ws) \<and>
        (\<forall>kb vb idx q. length q = n \<longrightarrow> paged_decode ops kb vb kvs idx (replicate n 1) q info ws =
           Some (paged_attention attend elems kb vb (indptr_from 0 (replicate n 1)) kvs idx q)))) \<and>
     (\<forall>qos kvs n. length qos = n + 1 \<and> length kvs = n + 1 \<longrightarrow>
        (\<exists>tile ws. prefill_plan ops qos kvs (nat (qos ! n)) = Some (tile, ws) \<and> (tile = 128 \<or> tile = 64 \<or> tile = 16) \<and>
          (\<forall>kb vb idx q. int (length q) = qos ! n \<longrightarrow> paged_prefill ops tile kb vb qos kvs idx (replicate n 1) q ws =
             Some (paged_attention attend elems kb vb qos kvs idx q))))"

lemma length_kv_view [simp]: "length (kv_view ptr idx) = length ptr - 1"
  by (simp add: kv_view_def)

lemma nth_concat_sum:
  "i < length xss \<Longrightarrow> j < length (xss ! i) \<Longrightarrow> concat xss ! (sum_list (map length (take i xss)) + j) = xss ! i ! j"
proof (induction xss arbitrary: i)
  case (Cons xs xss)
  then show ?case by (cases i) (simp_all add: nth_append add.assoc)
qed simp

lemma sum_take_le: "sum_list (take i (lens :: nat list)) \<le> sum_list lens"
  by (metis append_take_drop_id le_add1 sum_list_append)

lemma sum_int: "sum_list (map int lens) = int (sum_list lens)"
  by (induction lens) simp_all

lemma kv_view_rows:
  assumes "length q = sum_list lens" "i < length lens"
  shows "length (kv_view (indptr_from 0 (map int lens)) q ! i) = lens ! i"
    "j < lens ! i \<Longrightarrow> kv_view (indptr_from 0 (map int lens)) q ! i ! j = q ! (sum_list (take i lens) + j)"
proof -
  have s: "sum_list (take (Suc i) lens) = sum_list (take i lens) + lens ! i" using assms(2) by (simp add: take_Suc_conv_app_nth)
  have v: "kv_view (indptr_from 0 (map int lens)) q ! i = tslice (sum_list (take i lens)) (sum_list (take i lens) + lens ! i) q"
    using assms(2) s by (simp add: kv_view_def nth_indptr_from take_map sum_int islice_nonneg nat_add_distrib)
  moreover have "sum_list (take i lens) + lens ! i \<le> length q" using sum_take_le [of "Suc i" lens] assms(1) s by simp
  ultimately show "length (kv_view (indptr_from 0 (map int lens)) q ! i) = lens ! i"
    "j < lens ! i \<Longrightarrow> kv_view (indptr_from 0 (map int lens)) q ! i ! j = q ! (sum_list (take i lens) + j)"
    by (simp_all add: nth_tslice)
qed

lemma paged_attention_rows:
  assumes "length q = sum_list lens" "kv_view kv_ptr idx = pages" "length pages = length lens"
  shows "length (paged_attention attend elems kb vb (indptr_from 0 (map int lens)) kv_ptr idx q) = length q"
    "i < length lens \<Longrightarrow> j < lens ! i \<Longrightarrow>
      paged_attention attend elems kb vb (indptr_from 0 (map int lens)) kv_ptr idx q ! (sum_list (take i lens) + j) =
      attend (q ! (sum_list (take i lens) + j))
        (map (\<lambda>p. (slot_row elems kb p, slot_row elems vb p)) (take (length (pages ! i) - lens ! i + j + 1) (pages ! i)))"
proof -
  let ?V = "kv_view (indptr_from 0 (map int lens)) q"
  let ?out = "\<lambda>(qs, ps). map (\<lambda>j. attend (qs ! j)
    (map (\<lambda>p. (slot_row elems kb p, slot_row elems vb p)) (take (length ps - length qs + j + 1) ps))) [0..<length qs]"
  let ?B = "map ?out (zip ?V pages)"
  have len: "length ?B = length lens" using assms(3) by simp
  have nth: "?B ! k = ?out (?V ! k, pages ! k)" if "k < length lens" for k using that assms(3) by simp
  have ls: "map length ?B = lens"
  proof (rule nth_equalityI)
    fix k
    assume "k < length (map length ?B)"
    then have k: "k < length lens" using len by simp
    have "map length ?B ! k = length (?B ! k)" using k len by (intro nth_map) simp
    then show "map length ?B ! k = lens ! k" unfolding nth [OF k] using kv_view_rows(1) [OF assms(1) k] by simp
  qed (use len in simp)
  have p: "paged_attention attend elems kb vb (indptr_from 0 (map int lens)) kv_ptr idx q = concat ?B"
    by (simp only: paged_attention_def assms(2))
  show "length (paged_attention attend elems kb vb (indptr_from 0 (map int lens)) kv_ptr idx q) = length q"
    unfolding p length_concat ls assms(1) ..
  assume i: "i < length lens" "j < lens ! i"
  have "concat ?B ! (sum_list (map length (take i ?B)) + j) = ?B ! i ! j"
    by (rule nth_concat_sum) (use len i nth [OF i(1)] kv_view_rows(1) [OF assms(1) i(1)] in simp_all)
  moreover have "map length (take i ?B) = take i lens" using ls by (metis take_map)
  ultimately show "paged_attention attend elems kb vb (indptr_from 0 (map int lens)) kv_ptr idx q ! (sum_list (take i lens) + j) =
      attend (q ! (sum_list (take i lens) + j))
        (map (\<lambda>p. (slot_row elems kb p, slot_row elems vb p)) (take (length (pages ! i) - lens ! i + j + 1) (pages ! i)))"
    unfolding p using nth [OF i(1)] kv_view_rows [OF assms(1) i(1)] i(2) by simp
qed

section \<open>The metadata of a batch, from layer to layer\<close>

definition new_rows :: "batch \<Rightarrow> req \<Rightarrow> nat" where
  "new_rows b r = (if is_prefill b then nat (extend_len r) else 1)"

text \<open>What the metadata says is the same for all layers; the plan of a decode batch is made once.\<close>

definition md_ok :: "plan_fns \<Rightarrow> table \<Rightarrow> (nat \<Rightarrow> req) \<Rightarrow> batch \<Rightarrow> attn_metadata \<Rightarrow> flashinfer \<Rightarrow> bool" where
  "md_ok fns pt q b md s \<longleftrightarrow> fi_ok s \<and> md_is_prefill md = is_prefill b \<and>
     md_indices md = concat (map (\<lambda>r. row_pages pt (q r)) (padded_reqs b)) \<and>
     paged_kv_last_page_len md = replicate (length (padded_reqs b)) 1 \<and>
     (if is_prefill b
      then qo_indptr_host md = indptr md \<and> kv_indptr_host md = paged_kv_indptr md \<and>
        indptr md = indptr_from 0 (map (\<lambda>r. extend_len (q r)) (padded_reqs b)) \<and>
        paged_kv_indptr md = indptr_from 0 (map (\<lambda>r. device_len (q r)) (padded_reqs b))
      else kv_indptr_host_tensor md = Some (indptr md) \<and>
        indptr md = indptr_from 0 (map (\<lambda>r. device_len (q r)) (padded_reqs b)) \<and>
        (md_initialized md \<longrightarrow> (\<exists>ps. decode_plan_state md = Some ps \<and>
           decode_plan fns (indptr md) (length (padded_reqs b)) = Some (plan ps, int_workspace s))))"

lemma prepared_md_ok:
  assumes prep: "prepare_metadata pt q b s0 = Inr (md, s1)" and s0: "fi_ok s0"
    and rows: "\<forall>r\<in>set (padded_reqs b). reads_ok pt (q r) \<and> 0 < extend_len (q r)"
  shows "md_ok fns pt q b md s1"
proof (cases "is_prefill b")
  case True
  then have "\<not> is_decode b" by (simp add: is_prefill_def is_decode_def)
  then have p: "prepare_prefill pt q b = Inr md" "s1 = s0" using prep by (auto simp: prepare_metadata_def res_simps)
  then have "md_is_prefill md = is_prefill b" "qo_indptr_host md = indptr md" "kv_indptr_host md = paged_kv_indptr md"
    using True by (auto simp: prepare_prefill_def Let_def res_simps)
  moreover have "\<forall>r\<in>set (padded_reqs b). reads_ok pt (q r)" using rows by blast
  note prepare_prefill_ok [OF this True]
  ultimately show ?thesis using True s0 p rows by (simp add: md_ok_def padded_size_def)
next
  case False
  then have d: "is_decode b" by (cases "phase b") (simp_all add: is_prefill_def is_decode_def)
  then have p: "prepare_decode pt q b s0 = (md, s1)" using prep by (simp add: prepare_metadata_def)
  then have "md_is_prefill md = is_prefill b" "\<not> md_initialized md"
    by (auto simp: prepare_decode_def Let_def split: prod.splits)
  moreover have "\<forall>r\<in>set (padded_reqs b). reads_ok pt (q r)" using rows by blast
  note prepare_decode_ok [OF this s0 p]
  ultimately show ?thesis using False by (simp add: md_ok_def)
qed

lemma record_int_workspace:
  assumes "fi_ok s" "slot < length (pinned_int_workspaces s)"
  shows "\<exists>s1. record_workspace_copy_done slot (write_workspace slot ws s) = Inr s1 \<and> fi_ok s1 \<and> int_workspace s1 = ws"
  using assms by (simp add: record_workspace_copy_done_def write_workspace_def fi_ok_def)

lemma decode_initialized_ok:
  assumes ok: "md_ok fns pt q b md s" and d: "\<not> is_prefill b" and n: "n = length (padded_reqs b)"
    and plans: "\<And>kvs. length kvs = n + 1 \<Longrightarrow> \<exists>info ws. decode_plan fns kvs n = Some (info, ws)"
  shows "\<exists>md1 s1 ps. decode_initialized fns n md s = Inr (md1, s1) \<and> md_ok fns pt q b md1 s1 \<and>
     decode_plan_state md1 = Some ps \<and> decode_plan fns (indptr md1) n = Some (plan ps, int_workspace s1)"
proof (cases "md_initialized md")
  case True
  then show ?thesis using ok d n by (auto simp: decode_initialized_def md_ok_def)
next
  case False
  have "length (indptr md) = n + 1" using ok d n by (simp add: md_ok_def)
  then obtain info ws where p: "decode_plan fns (indptr md) n = Some (info, ws)" using plans by blast
  have fi: "fi_ok s" using ok by (simp add: md_ok_def)
  obtain s1 where s1: "acquire_pinned_int_workspace s = Inr (next_pinned_slot s, s1)" "fi_ok s1"
    "next_pinned_slot s < length (pinned_int_workspaces s1)"
    using acquire_ok [OF fi] by blast
  obtain s2 where s2: "record_workspace_copy_done (next_pinned_slot s) (write_workspace (next_pinned_slot s) ws s1) = Inr s2"
    "fi_ok s2" "int_workspace s2 = ws"
    using record_int_workspace [OF s1(2,3)] by blast
  have "kv_indptr_host_tensor md = Some (indptr md)" using ok d by (simp add: md_ok_def)
  then have "decode_initialized fns n md s =
      Inr (md\<lparr>decode_plan_state := Some \<lparr>plan = info, kv_chunk_size = ws_kv_chunk_size ws\<rparr>, md_initialized := True\<rparr>, s2)"
    using False p s1(1) s2(1) by (simp add: decode_initialized_def initialize_decode_metadata_once_def)
  then show ?thesis using ok d n p s2(2,3) by (auto simp: md_ok_def)
qed

lemma forward_decode_ok:
  assumes ok: "md_ok fns pt q b md s" and d: "\<not> is_prefill b" and n: "n = length (padded_reqs b)"
    and kernels: "attn_kernels fns ops attend elems" and qs: "length qs = n"
  shows "\<exists>md1 s1. md_ok fns pt q b md1 s1 \<and> forward_decode fns ops qs kb vb n md s =
     Inr (paged_attention attend elems kb vb (indptr_from 0 (replicate n 1))
        (indptr_from 0 (map (\<lambda>r. device_len (q r)) (padded_reqs b))) (concat (map (\<lambda>r. row_pages pt (q r)) (padded_reqs b))) qs, md1, s1)"
proof -
  have plans: "\<exists>info ws. decode_plan fns kvs n = Some (info, ws)" if "length kvs = n + 1" for kvs
    using kernels that unfolding attn_kernels_def by blast
  obtain md1 s1 ps where i: "decode_initialized fns n md s = Inr (md1, s1)" "md_ok fns pt q b md1 s1"
    "decode_plan_state md1 = Some ps" "decode_plan fns (indptr md1) n = Some (plan ps, int_workspace s1)"
    using decode_initialized_ok [OF ok d n plans] by blast
  have md1: "indptr md1 = indptr_from 0 (map (\<lambda>r. device_len (q r)) (padded_reqs b))"
    "md_indices md1 = concat (map (\<lambda>r. row_pages pt (q r)) (padded_reqs b))" "paged_kv_last_page_len md1 = replicate n 1"
    using i(2) d n by (simp_all add: md_ok_def)
  have len: "length (indptr md1) = n + 1" using md1(1) n by simp
  obtain info ws where p: "decode_plan fns (indptr md1) n = Some (info, ws)"
    "\<forall>kb vb idx q. length q = n \<longrightarrow> paged_decode ops kb vb (indptr md1) idx (replicate n 1) q info ws =
       Some (paged_attention attend elems kb vb (indptr_from 0 (replicate n 1)) (indptr md1) idx q)"
    using kernels len unfolding attn_kernels_def by blast
  have "info = plan ps" "ws = int_workspace s1" using p(1) i(4) by simp_all
  then have "forward_decode fns ops qs kb vb n md s =
      Inr (paged_attention attend elems kb vb (indptr_from 0 (replicate n 1)) (indptr md1) (md_indices md1) qs, md1, s1)"
    using p(2) i(1,3) md1(3) qs by (simp add: forward_decode_def)
  then show ?thesis using i(2) md1 by auto
qed

lemma forward_prefill_ok:
  assumes ok: "md_ok fns pt q b md s" and d: "is_prefill b" and n: "n = length (padded_reqs b)"
    and kernels: "attn_kernels fns ops attend elems" and rows: "\<forall>r\<in>set (padded_reqs b). 0 < extend_len (q r)"
    and qs: "length qs = (\<Sum>r\<leftarrow>padded_reqs b. nat (extend_len (q r)))"
  shows "\<exists>md1 s1. md_ok fns pt q b md1 s1 \<and> forward_prefill ops qs kb vb n md s =
     Inr (paged_attention attend elems kb vb (indptr_from 0 (map (\<lambda>r. extend_len (q r)) (padded_reqs b)))
        (indptr_from 0 (map (\<lambda>r. device_len (q r)) (padded_reqs b))) (concat (map (\<lambda>r. row_pages pt (q r)) (padded_reqs b))) qs, md1, s1)"
proof -
  let ?qo = "indptr_from 0 (map (\<lambda>r. extend_len (q r)) (padded_reqs b))"
  let ?kv = "indptr_from 0 (map (\<lambda>r. device_len (q r)) (padded_reqs b))"
  have md: "qo_indptr_host md = ?qo" "kv_indptr_host md = ?kv" "indptr md = ?qo" "paged_kv_indptr md = ?kv"
    "md_indices md = concat (map (\<lambda>r. row_pages pt (q r)) (padded_reqs b))" "paged_kv_last_page_len md = replicate n 1" "fi_ok s"
    using ok d n by (simp_all add: md_ok_def)
  have "map (\<lambda>r. extend_len (q r)) (padded_reqs b) = map int (map (\<lambda>r. nat (extend_len (q r))) (padded_reqs b))"
    using rows by (auto simp: less_imp_le)
  then have "sum_list (map (\<lambda>r. extend_len (q r)) (padded_reqs b)) = int (length qs)"
    unfolding qs by (simp only: sum_int)
  then have tot: "?qo ! n = int (length qs)"
    using n nth_indptr_from [of n "map (\<lambda>r. extend_len (q r)) (padded_reqs b)" 0] by simp
  have len: "length ?qo = n + 1" "length ?kv = n + 1" using n by simp_all
  obtain tile ws where p: "prefill_plan ops ?qo ?kv (nat (?qo ! n)) = Some (tile, ws)" "tile = 128 \<or> tile = 64 \<or> tile = 16"
    "\<forall>kb vb idx q. int (length q) = ?qo ! n \<longrightarrow> paged_prefill ops tile kb vb ?qo ?kv idx (replicate n 1) q ws =
       Some (paged_attention attend elems kb vb ?qo ?kv idx q)"
    using kernels len unfolding attn_kernels_def by meson
  obtain s1 where s1: "acquire_pinned_int_workspace s = Inr (next_pinned_slot s, s1)" "fi_ok s1"
    "next_pinned_slot s < length (pinned_int_workspaces s1)"
    using acquire_ok [OF md(7)] by blast
  obtain s2 where s2: "record_workspace_copy_done (next_pinned_slot s) (write_workspace (next_pinned_slot s) ws s1) = Inr s2"
    "fi_ok s2" "int_workspace s2 = ws"
    using record_int_workspace [OF s1(2,3)] by blast
  have c: "check (tile = 128 \<or> tile = 64 \<or> tile = 16) e = Inr ()" for e using p(2) by (simp add: check_def)
  have "forward_prefill ops qs kb vb n md s = Inr (paged_attention attend elems kb vb ?qo ?kv (md_indices md) qs, md, s2)"
    unfolding forward_prefill_def Let_def md(1-4,6) s1(1) res_bind_Inr prod.case p(1) option.case s2(1) c s2(3)
    using p(3) tot by simp
  moreover have "md_ok fns pt q b md s2" using ok d s2(2) by (simp add: md_ok_def)
  ultimately show ?thesis using md(5) by auto
qed

section \<open>A layer after the others\<close>

text \<open>The states that the layers of a batch reach, whatever their queries, keys and values.\<close>

inductive layers_run ::
  "plan_fns \<Rightarrow> 'a attn_ops \<Rightarrow> (nat \<Rightarrow> nat \<Rightarrow> (nat \<times> nat) list) \<Rightarrow> batch \<Rightarrow> attn_metadata \<times> flashinfer \<times> 'a mha_kvcache \<Rightarrow>
   attn_metadata \<times> flashinfer \<times> 'a mha_kvcache \<Rightarrow> bool"
  for fns ops threads b st0 where
  layers_start: "layers_run fns ops threads b st0 st0"
| layers_next: "layers_run fns ops threads b st0 st \<Longrightarrow>
    attn_forward fns ops threads qs key val layer b st = Inr (out, st') \<Longrightarrow> layers_run fns ops threads b st0 st'"

lemma store_kv_shape:
  assumes "store_kv threads key val loc layer kv = Inr kv'" "kv_shape slots kv"
  shows "kv_shape slots kv' \<and> kv_heads kv' = kv_heads kv \<and> kv_head_dim kv' = kv_head_dim kv \<and>
    length (k_buffer kv') = length (k_buffer kv)"
  using assms
  by (auto simp: store_kv_def res_simps Let_def kv_shape_def store_kv_cache_kernel_def nth_list_update split: if_splits)

lemma forward_prefill_keeps:
  assumes "forward_prefill ops qs kb vb n md s = Inr (out, md', s')" "fi_ok s"
  shows "md' = md \<and> fi_ok s'"
proof -
  obtain s1 where s1: "acquire_pinned_int_workspace s = Inr (next_pinned_slot s, s1)" "fi_ok s1"
    "next_pinned_slot s < length (pinned_int_workspaces s1)"
    using acquire_ok [OF assms(2)] by blast
  have "fi_ok s2" if "record_workspace_copy_done (next_pinned_slot s) (write_workspace (next_pinned_slot s) ws s1) = Inr s2" for ws s2
    using record_int_workspace [OF s1(2,3), of ws] that by auto
  then show ?thesis
    using assms(1) s1(1) by (auto simp: forward_prefill_def Let_def res_simps split: option.splits)
qed

lemma attn_forward_keeps:
  assumes fwd: "attn_forward fns ops threads qs key val layer b (md, s, kv) = Inr (out, md', s', kv')"
    and ok: "md_ok fns pt q b md s" "kv_shape slots kv" and kernels: "attn_kernels fns ops attend elems"
  shows "md_ok fns pt q b md' s' \<and> kv_shape slots kv' \<and> kv_heads kv' = kv_heads kv \<and>
    kv_head_dim kv' = kv_head_dim kv \<and> length (k_buffer kv') = length (k_buffer kv)"
proof -
  let ?n = "length (padded_reqs b)"
  have p: "md_is_prefill md = is_prefill b" "fi_ok s" using ok(1) by (simp_all add: md_ok_def)
  obtain k v where st: "store_kv threads k v (out_loc b) layer kv = Inr kv'"
    and run: "(if \<not> is_prefill b then forward_decode fns ops qs (k_buffer kv' ! layer) (v_buffer kv' ! layer) ?n md s
       else forward_prefill ops qs (k_buffer kv' ! layer) (v_buffer kv' ! layer) ?n md s) = Inr (out, md', s')"
    using fwd p(1) by (auto simp: attn_forward_def Let_def res_simps)
  have "md_ok fns pt q b md' s'"
  proof (cases "is_prefill b")
    case True
    then have "md' = md" "fi_ok s'" using run forward_prefill_keeps [OF _ p(2)] by (simp_all, blast+)
    then show ?thesis using ok(1) True by (simp add: md_ok_def)
  next
    case False
    have plans: "\<exists>info ws. decode_plan fns kvs ?n = Some (info, ws)" if "length kvs = ?n + 1" for kvs
      using kernels that unfolding attn_kernels_def by blast
    obtain md1 s1 where "decode_initialized fns ?n md s = Inr (md1, s1)" "md_ok fns pt q b md1 s1"
      using decode_initialized_ok [OF ok(1) False refl plans] by blast
    then show ?thesis using run False by (auto simp: forward_decode_def res_simps split: option.splits)
  qed
  then show ?thesis using store_kv_shape [OF st ok(2)] by simp
qed

lemma layers_run_ok:
  assumes "layers_run fns ops threads b (md0, s0, kv0) st" and ok: "md_ok fns pt q b md0 s0" "kv_shape slots kv0"
    and kernels: "attn_kernels fns ops attend elems"
  shows "case st of (md, s, kv) \<Rightarrow> md_ok fns pt q b md s \<and> kv_shape slots kv \<and> kv_heads kv = kv_heads kv0 \<and>
    kv_head_dim kv = kv_head_dim kv0 \<and> length (k_buffer kv) = length (k_buffer kv0)"
  using assms(1)
proof (induction rule: layers_run.induct)
  case layers_start
  then show ?case using ok by simp
next
  case (layers_next st qs key val layer out st')
  obtain md s kv md' s' kv' where st: "st = (md, s, kv)" "st' = (md', s', kv')" by (cases st, cases st') auto
  show ?case
    using attn_forward_keeps [OF layers_next.hyps(2) [unfolded st], of pt q slots] layers_next.IH kernels by (auto simp: st)
qed

text \<open>
  The keys (or values) of a page after the layer has stored those of the batch: the row of the token
  that goes there, or what was there before.
\<close>

definition stored_row :: "nat \<Rightarrow> int list \<Rightarrow> 'a kv_tensor \<Rightarrow> 'a list \<Rightarrow> int \<Rightarrow> 'a list" where
  "stored_row elems loc t buf p =
     (if p \<in> set loc
      then let i = length (takeWhile (\<lambda>x. x \<noteq> p) loc) in map (\<lambda>e. t_data t ! (i * t_stride t + e)) [0..<elems]
      else slot_row elems buf p)"

lemma stored_row_eq:
  assumes "\<forall>t<length loc. count_list loc (loc ! t) = 1 \<longrightarrow>
      slot_row elems buf' (loc ! t) = map (\<lambda>e. t_data k ! (t * t_stride k + e)) [0..<elems]"
    and "\<forall>s. 0 \<le> s \<and> s < int slots \<and> s \<notin> set loc \<longrightarrow> slot_row elems buf' s = slot_row elems buf s"
    and "count_list loc p \<le> 1" "0 \<le> p" "p < int slots"
  shows "slot_row elems buf' p = stored_row elems loc k buf p"
proof (cases "p \<in> set loc")
  case True
  let ?i = "length (takeWhile (\<lambda>x. x \<noteq> p) loc)"
  obtain ys zs where loc: "loc = ys @ p # zs" "p \<notin> set ys" using True by (meson split_list_first)
  moreover from loc(2) have "\<forall>x\<in>set ys. x \<noteq> p" by auto
  ultimately have "takeWhile (\<lambda>x. x \<noteq> p) loc = ys" by (simp add: takeWhile_append2)
  then have i: "?i < length loc" "loc ! ?i = p" using loc by simp_all
  have "count_list loc p = 1" using True assms(3) by (metis One_nat_def count_list_0_iff le_Suc_eq le_zero_eq)
  then show ?thesis using assms(1) i True by (auto simp: stored_row_def Let_def)
next
  case False
  then show ?thesis using assms(2,4,5) by (simp add: stored_row_def)
qed

lemma attn_forward_ok:
  assumes ok: "md_ok fns pt q b md s" and shape: "kv_shape slots kv" and kernels: "attn_kernels fns ops attend elems"
    and rows: "\<forall>r\<in>set (padded_reqs b). reads_ok pt (q r) \<and> 0 < extend_len (q r)"
    and tokens: "length (out_loc b) = (\<Sum>r\<leftarrow>padded_reqs b. new_rows b (q r))" "length qs = length (out_loc b)"
    and k: "view_heads (kv_heads kv) (kv_head_dim kv) key = Inr k" "t_sizes k = [length (out_loc b), kv_heads kv, kv_head_dim kv]"
    and v: "view_heads (kv_heads kv) (kv_head_dim kv) val = Inr v" "t_sizes v = [length (out_loc b), kv_heads kv, kv_head_dim kv]"
    and kv: "layer < length (k_buffer kv)" "elems = kv_heads kv * kv_head_dim kv"
    and slots: "\<forall>p\<in>set (out_loc b). 0 \<le> p \<and> p < int slots"
      "\<forall>r\<in>set (padded_reqs b). \<forall>p\<in>set (row_pages pt (q r)). 0 \<le> p \<and> p < int slots"
    and threads: "\<forall>n m. set (threads n m) = set (launch_threads n m)"
  shows "\<exists>out st'. attn_forward fns ops threads qs key val layer b (md, s, kv) = Inr (out, st') \<and>
    length out = length qs \<and>
    (\<forall>i<length (padded_reqs b). let r = q (padded_reqs b ! i); ps = row_pages pt r;
        off = sum_list (take i (map (\<lambda>r. new_rows b (q r)) (padded_reqs b))) in
      (\<forall>p\<in>set ps. count_list (out_loc b) p \<le> 1) \<longrightarrow>
      (\<forall>j<new_rows b r. out ! (off + j) = attend (qs ! (off + j))
         (map (\<lambda>p. (stored_row elems (out_loc b) k (k_buffer kv ! layer) p, stored_row elems (out_loc b) v (v_buffer kv ! layer) p))
           (take (length ps - new_rows b r + j + 1) ps))))"
proof -
  let ?n = "length (padded_reqs b)" and ?lens = "map (\<lambda>r. new_rows b (q r)) (padded_reqs b)"
  let ?kvp = "indptr_from 0 (map (\<lambda>r. device_len (q r)) (padded_reqs b))" and ?R = "map (\<lambda>r. row_pages pt (q r)) (padded_reqs b)"
  have id: "view_heads (kv_heads kv) (kv_head_dim kv) k = Inr k" "view_heads (kv_heads kv) (kv_head_dim kv) v = Inr v"
    using k(2) v(2) by (simp_all add: view_heads_def)
  obtain kv1 where st: "store_kv threads k v (out_loc b) layer kv = Inr kv1"
    and new: "\<forall>t<length (out_loc b). count_list (out_loc b) (out_loc b ! t) = 1 \<longrightarrow>
       slot_row elems (k_buffer kv1 ! layer) (out_loc b ! t) = map (\<lambda>e. t_data k ! (t * t_stride k + e)) [0..<elems] \<and>
       slot_row elems (v_buffer kv1 ! layer) (out_loc b ! t) = map (\<lambda>e. t_data v ! (t * t_stride v + e)) [0..<elems]"
    and old: "\<forall>s. 0 \<le> s \<and> s < int slots \<and> s \<notin> set (out_loc b) \<longrightarrow>
       slot_row elems (k_buffer kv1 ! layer) s = slot_row elems (k_buffer kv ! layer) s \<and>
       slot_row elems (v_buffer kv1 ! layer) s = slot_row elems (v_buffer kv ! layer) s"
    using store_kv_exact [OF id(1) k(2) id(2) v(2) shape kv slots(1) threads] by blast
  have seen: "slot_row elems (k_buffer kv1 ! layer) p = stored_row elems (out_loc b) k (k_buffer kv ! layer) p"
    "slot_row elems (v_buffer kv1 ! layer) p = stored_row elems (out_loc b) v (v_buffer kv ! layer) p"
    if "count_list (out_loc b) p \<le> 1" "0 \<le> p" "p < int slots" for p
    using new old that by (blast intro: stored_row_eq)+
  let ?out = "paged_attention attend elems (k_buffer kv1 ! layer) (v_buffer kv1 ! layer) (indptr_from 0 (map int ?lens)) ?kvp (concat ?R) qs"
  have reads: "\<forall>r\<in>set (map q (padded_reqs b)). reads_ok pt r" using rows by simp
  have view: "kv_view ?kvp (concat ?R) = ?R"
  proof -
    have "map (\<lambda>r. device_len (q r)) (padded_reqs b) = map (\<lambda>xs. int (length xs)) ?R"
      using device_lens [OF reads] by (simp only: map_map o_def)
    then show ?thesis using kv_view_concat [of ?R "[]"] by (simp only: append_Nil2)
  qed
  have lens: "length qs = sum_list ?lens" using tokens by simp
  have md: "md_is_prefill md = is_prefill b" using ok by (simp add: md_ok_def)
  have run: "\<exists>md1 s1. (if \<not> is_prefill b then forward_decode fns ops qs (k_buffer kv1 ! layer) (v_buffer kv1 ! layer) ?n md s
       else forward_prefill ops qs (k_buffer kv1 ! layer) (v_buffer kv1 ! layer) ?n md s) = Inr (?out, md1, s1)"
  proof (cases "is_prefill b")
    case True
    have l: "map int ?lens = map (\<lambda>r. extend_len (q r)) (padded_reqs b)" using True rows by (auto simp: new_rows_def less_imp_le)
    have "length qs = (\<Sum>r\<leftarrow>padded_reqs b. nat (extend_len (q r)))" using lens True by (simp add: new_rows_def)
    moreover have "\<forall>r\<in>set (padded_reqs b). 0 < extend_len (q r)" using rows by blast
    ultimately show ?thesis
      using forward_prefill_ok [OF ok True refl kernels, of qs "k_buffer kv1 ! layer" "v_buffer kv1 ! layer"] True
      unfolding l by auto
  next
    case False
    have l: "map int ?lens = replicate ?n 1" using False by (simp add: new_rows_def map_replicate_const)
    have "length qs = ?n" using lens False by (simp add: new_rows_def sum_list_triv)
    then show ?thesis
      using forward_decode_ok [OF ok False refl kernels, of qs "k_buffer kv1 ! layer" "v_buffer kv1 ! layer"] False
      unfolding l by auto
  qed
  then obtain md1 s1 where f: "attn_forward fns ops threads qs key val layer b (md, s, kv) = Inr (?out, md1, s1, kv1)"
    using k(1) v(1) st md by (auto simp: attn_forward_def Let_def)
  note pr = paged_attention_rows [OF lens view, where attend = attend and elems = elems and kb = "k_buffer kv1 ! layer"
      and vb = "v_buffer kv1 ! layer"]
  have each: "let r = q (padded_reqs b ! i); ps = row_pages pt r; off = sum_list (take i ?lens) in
      (\<forall>p\<in>set ps. count_list (out_loc b) p \<le> 1) \<longrightarrow>
      (\<forall>j<new_rows b r. ?out ! (off + j) = attend (qs ! (off + j))
         (map (\<lambda>p. (stored_row elems (out_loc b) k (k_buffer kv ! layer) p, stored_row elems (out_loc b) v (v_buffer kv ! layer) p))
           (take (length ps - new_rows b r + j + 1) ps)))" if i: "i < ?n" for i
    unfolding Let_def
  proof (intro allI impI)
    fix j
    let ?ps = "row_pages pt (q (padded_reqs b ! i))" and ?m = "new_rows b (q (padded_reqs b ! i))"
    assume once: "\<forall>p\<in>set ?ps. count_list (out_loc b) p \<le> 1" and j: "j < ?m"
    have "slot_row elems (k_buffer kv1 ! layer) p = stored_row elems (out_loc b) k (k_buffer kv ! layer) p \<and>
        slot_row elems (v_buffer kv1 ! layer) p = stored_row elems (out_loc b) v (v_buffer kv ! layer) p"
      if "p \<in> set (take (length ?ps - ?m + j + 1) ?ps)" for p
    proof -
      have p: "p \<in> set ?ps" "padded_reqs b ! i \<in> set (padded_reqs b)" using in_set_takeD [OF that] i by simp_all
      then have "0 \<le> p" "p < int slots" using slots(2) by blast+
      then show ?thesis using seen [OF once [rule_format, OF p(1)]] by simp
    qed
    then have "map (\<lambda>p. (slot_row elems (k_buffer kv1 ! layer) p, slot_row elems (v_buffer kv1 ! layer) p)) (take (length ?ps - ?m + j + 1) ?ps) =
        map (\<lambda>p. (stored_row elems (out_loc b) k (k_buffer kv ! layer) p, stored_row elems (out_loc b) v (v_buffer kv ! layer) p))
          (take (length ?ps - ?m + j + 1) ?ps)"
      by (intro map_cong refl) simp
    then show "?out ! (sum_list (take i ?lens) + j) = attend (qs ! (sum_list (take i ?lens) + j))
        (map (\<lambda>p. (stored_row elems (out_loc b) k (k_buffer kv ! layer) p, stored_row elems (out_loc b) v (v_buffer kv ! layer) p))
          (take (length ?ps - ?m + j + 1) ?ps))"
      using pr(2) [of i j] i j by (simp only: length_map nth_map)
  qed
  show ?thesis
  proof (intro exI conjI allI impI)
    show "attn_forward fns ops threads qs key val layer b (md, s, kv) = Inr (?out, md1, s1, kv1)" by (rule f)
    show "length ?out = length qs" by (rule pr(1)) simp
  qed (rule each)
qed

text \<open>
  C18: In every layer, after any layers of the same batch before it, the row of each token is the
  attention of its query to the keys and values of the pages of its own request, in order, up to
  the token itself, where the pages of the tokens of the batch already hold their new keys and
  values; for prefill and for decode batches, any strides and any order of the threads. Only a request
  that reads a page that several tokens write, as the padding does, is left out.
\<close>

theorem forward_attends:
  assumes kernels: "attn_kernels fns ops attend elems" and s0: "fi_ok s0" "kv_shape slots kv0"
    and prep: "prepare_metadata pt q b s0 = Inr (md0, s1)"
    and run: "layers_run fns ops threads b (md0, s1, kv0) (md, s, kv)"
    and rows: "\<forall>r\<in>set (padded_reqs b). reads_ok pt (q r) \<and> 0 < extend_len (q r)"
    and tokens: "length (out_loc b) = (\<Sum>r\<leftarrow>padded_reqs b. new_rows b (q r))" "length qs = length (out_loc b)"
    and k: "view_heads (kv_heads kv0) (kv_head_dim kv0) key = Inr k" "t_sizes k = [length (out_loc b), kv_heads kv0, kv_head_dim kv0]"
    and v: "view_heads (kv_heads kv0) (kv_head_dim kv0) val = Inr v" "t_sizes v = [length (out_loc b), kv_heads kv0, kv_head_dim kv0]"
    and kv: "layer < length (k_buffer kv0)" "elems = kv_heads kv0 * kv_head_dim kv0"
    and slots: "\<forall>p\<in>set (out_loc b). 0 \<le> p \<and> p < int slots"
      "\<forall>r\<in>set (padded_reqs b). \<forall>p\<in>set (row_pages pt (q r)). 0 \<le> p \<and> p < int slots"
    and threads: "\<forall>n m. set (threads n m) = set (launch_threads n m)"
  shows "\<exists>out st'. attn_forward fns ops threads qs key val layer b (md, s, kv) = Inr (out, st') \<and>
    length out = length qs \<and>
    (\<forall>i<length (padded_reqs b). let r = q (padded_reqs b ! i); ps = row_pages pt r;
        off = sum_list (take i (map (\<lambda>r. new_rows b (q r)) (padded_reqs b))) in
      (\<forall>p\<in>set ps. count_list (out_loc b) p \<le> 1) \<longrightarrow>
      (\<forall>j<new_rows b r. out ! (off + j) = attend (qs ! (off + j))
         (map (\<lambda>p. (stored_row elems (out_loc b) k (k_buffer kv ! layer) p, stored_row elems (out_loc b) v (v_buffer kv ! layer) p))
           (take (length ps - new_rows b r + j + 1) ps))))"
proof -
  have ok: "md_ok fns pt q b md s" "kv_shape slots kv" "kv_heads kv = kv_heads kv0" "kv_head_dim kv = kv_head_dim kv0"
    "length (k_buffer kv) = length (k_buffer kv0)"
    using layers_run_ok [OF run prepared_md_ok [OF prep s0(1) rows] s0(2) kernels] by simp_all
  show ?thesis
    by (rule attn_forward_ok [OF ok(1,2) kernels rows tokens _ _ _ _ _ _ slots threads]) (use k v kv ok(3-5) in simp_all)
qed

section \<open>Example\<close>

definition demo_attend :: "int list \<Rightarrow> (int list \<times> int list) list \<Rightarrow> int list" where
  "demo_attend q kvs = [\<Sum>(k, v)\<leftarrow>kvs. q ! 0 * k ! 0 * v ! 0]"

definition demo_attn_ops :: "int attn_ops" where
  "demo_attn_ops = \<lparr>prefill_plan = (\<lambda>qos kvs n. Some (64, demo_ws)),
     paged_decode = (\<lambda>kb vb kvs idx lpl q info ws.
       Some (paged_attention demo_attend 1 kb vb (indptr_from 0 (replicate (length q) 1)) kvs idx q)),
     paged_prefill = (\<lambda>tile kb vb qos kvs idx lpl q ws. Some (paged_attention demo_attend 1 kb vb qos kvs idx q))\<rparr>"

lemma demo_kernels: "attn_kernels demo_plan demo_attn_ops demo_attend 1"
  by (simp add: attn_kernels_def demo_plan_def demo_attn_ops_def)

definition demo_attn_cache :: "int mha_kvcache" where
  "demo_attn_cache = \<lparr>kv_heads = 1, kv_head_dim = 1, k_buffer = [map int [0..<11]], v_buffer = [replicate 11 1]\<rparr>"

theorem forward_attends_witness:
  "\<exists>md s out st'. prepare_metadata demo_table demo_attn (demo_attn_batch Decode) (flashinfer_init (\<lambda>_. 77) demo_ws) = Inr (md, s) \<and>
     attn_forward demo_plan demo_attn_ops launch_threads [[1], [2]] \<lparr>t_sizes = [2, 1], t_stride = 1, t_data = [100, 200]\<rparr>
       \<lparr>t_sizes = [2, 1], t_stride = 1, t_data = [1, 1]\<rparr> 0 (demo_attn_batch Decode) (md, s, demo_attn_cache) = Inr (out, st') \<and>
     out = [[1 * (5 + 100)], [2 * (8 + 9 + 200)]]"
proof -
  let ?b = "demo_attn_batch Decode" and ?s0 = "flashinfer_init (\<lambda>_. 77) demo_ws"
  let ?k = "\<lparr>t_sizes = [2, 1, 1], t_stride = 1, t_data = [100, 200 :: int]\<rparr>"
  let ?v = "\<lparr>t_sizes = [2, 1, 1], t_stride = 1, t_data = [1, 1 :: int]\<rparr>"
  have b: "padded_reqs ?b = [0, 1]" "out_loc ?b = [6, 10]" "\<not> is_prefill ?b" "is_decode ?b"
    by (simp_all add: demo_attn_batch_def is_prefill_def is_decode_def)
  obtain md s where p: "prepare_metadata demo_table demo_attn ?b ?s0 = Inr (md, s)"
    using b(4) by (simp add: prepare_metadata_def) (metis surj_pair)
  have rows: "\<forall>r\<in>set (padded_reqs ?b). reads_ok demo_table (demo_attn r) \<and> 0 < extend_len (demo_attn r)"
    using demo_attn_reads [of 0] demo_attn_reads [of 1]
    by (simp add: b) (simp add: demo_attn_def extend_len_def device_len_def default_req_def)
  have "\<exists>out st'. attn_forward demo_plan demo_attn_ops launch_threads [[1], [2]] \<lparr>t_sizes = [2, 1], t_stride = 1, t_data = [100, 200]\<rparr>
       \<lparr>t_sizes = [2, 1], t_stride = 1, t_data = [1, 1]\<rparr> 0 ?b (md, s, demo_attn_cache) = Inr (out, st') \<and>
    length out = length [[1 :: int], [2]] \<and>
    (\<forall>i<length (padded_reqs ?b). let r = demo_attn (padded_reqs ?b ! i); ps = row_pages demo_table r;
        off = sum_list (take i (map (\<lambda>r. new_rows ?b (demo_attn r)) (padded_reqs ?b))) in
      (\<forall>p\<in>set ps. count_list (out_loc ?b) p \<le> 1) \<longrightarrow>
      (\<forall>j<new_rows ?b r. out ! (off + j) = demo_attend ([[1], [2]] ! (off + j))
         (map (\<lambda>p. (stored_row 1 (out_loc ?b) ?k (k_buffer demo_attn_cache ! 0) p, stored_row 1 (out_loc ?b) ?v (v_buffer demo_attn_cache ! 0) p))
           (take (length ps - new_rows ?b r + j + 1) ps))))"
    by (rule forward_attends [OF demo_kernels fi_init_ok [of "\<lambda>_. 77" demo_ws] _ p layers_start rows, where slots = 11])
      (simp_all add: b new_rows_def view_heads_def demo_attn_cache_def kv_shape_def demo_attn_pages)
  then obtain out st' where f: "attn_forward demo_plan demo_attn_ops launch_threads [[1], [2]] \<lparr>t_sizes = [2, 1], t_stride = 1, t_data = [100, 200]\<rparr>
       \<lparr>t_sizes = [2, 1], t_stride = 1, t_data = [1, 1]\<rparr> 0 ?b (md, s, demo_attn_cache) = Inr (out, st')"
    and len: "length out = 2"
    and o: "\<forall>i<2. let r = demo_attn ([0, 1] ! i); ps = row_pages demo_table r;
        off = sum_list (take i (map (\<lambda>r. 1) [0, 1 :: nat])) in
      (\<forall>p\<in>set ps. count_list [6, 10] p \<le> 1) \<longrightarrow>
      (\<forall>j<1. out ! (off + j) = demo_attend ([[1], [2]] ! (off + j))
         (map (\<lambda>p. (stored_row 1 [6, 10] ?k (k_buffer demo_attn_cache ! 0) p, stored_row 1 [6, 10] ?v (v_buffer demo_attn_cache ! 0) p))
           (take (length ps - 1 + j + 1) ps)))"
    by (simp add: b new_rows_def numeral_2_eq_2) blast
  have "out ! 0 = [105]" using o [rule_format, of 0]
    by (simp add: demo_attn_pages stored_row_def slot_row_def demo_attn_cache_def tslice_def demo_attend_def)
  moreover have "out ! 1 = [434]" using o [rule_format, of 1]
    by (simp add: demo_attn_pages stored_row_def slot_row_def demo_attn_cache_def tslice_def demo_attend_def)
  ultimately have "out = [[1 * (5 + 100)], [2 * (8 + 9 + 200)]]" using len by (auto simp: length_Suc_conv numeral_2_eq_2)
  then show ?thesis using p f by blast
qed

end
