(* ===== verification/Layers.thy ===== *)
theory Layers
  imports WeightLoader
begin

text \<open>
  The layers of \<^verbatim>\<open>src/layers/linear.cc\<close>, \<^verbatim>\<open>embedding.cc\<close>, \<^verbatim>\<open>attention_layer.cc\<close>, \<^verbatim>\<open>src/moe/moe.cc\<close> and
  \<^verbatim>\<open>src/models/utils.cc\<close>, as the ranks of a group run them. An activation is a list of rows; on a group it is the
  list of what each rank holds. All ranks run the same code on their own parameters, so an
  operation without communication is a map over the ranks; \<open>reduce\<close> is the all-reduce of NCCL. Scalars are elements of a field:
  rounding is left out. The kernels of FlashInfer and PyTorch that work on one row or one head
  are the parameters \<open>layer_ops\<close>.
\<close>

type_synonym 'a rows = "'a list list"

record 'a layer_ops =
  row_norm :: "'a list \<Rightarrow> 'a list \<Rightarrow> 'a list"
  head_norm :: "'a list \<Rightarrow> 'a list \<Rightarrow> 'a list"
  fused_add_norm :: "'a list \<Rightarrow> 'a list \<times> 'a list \<Rightarrow> 'a list \<times> 'a list"
  rotate_head :: "int \<Rightarrow> 'a list \<Rightarrow> 'a list"
  silu :: "'a \<Rightarrow> 'a"
  gelu :: "'a \<Rightarrow> 'a"
  expf :: "'a \<Rightarrow> 'a"
  tanhf :: "'a \<Rightarrow> 'a"
  act_and_mul :: "('a \<Rightarrow> 'a) \<Rightarrow> 'a list \<Rightarrow> 'a list"
  softmax :: "'a list \<Rightarrow> 'a list"
  topk :: "nat \<Rightarrow> 'a list \<Rightarrow> ('a \<times> nat) list"

text \<open>\<open>on_ranks f ps xs\<close>: every rank applies its \<open>f p\<close> to its \<open>x\<close>.\<close>

definition on_ranks :: "('p \<Rightarrow> 'x \<Rightarrow> 'y result) \<Rightarrow> 'p list \<Rightarrow> 'x list \<Rightarrow> 'y list result" where
  "on_ranks f ps xs = res_map (\<lambda>(p, x). f p x) (zip ps xs)"

definition group_all_reduce :: "('a rows list \<Rightarrow> 'a rows list) \<Rightarrow> 'a rows list \<Rightarrow> 'a rows list" where
  "group_all_reduce reduce ys = (if length ys > 1 then reduce ys else ys)"

section \<open>Linear layers\<close>

record 'a linear_layer =
  full_input_size :: int
  full_output_size :: int
  local_input_size :: int
  local_output_size :: int
  weight :: "'a tensor"
  bias :: "'a tensor option"

text \<open>The parameters are created with arbitrary contents, \<open>junk\<close>.\<close>

definition linear_base :: "(nat list \<Rightarrow> 'a) \<Rightarrow> int \<Rightarrow> int \<Rightarrow> int \<Rightarrow> int \<Rightarrow> bool \<Rightarrow> 'a linear_layer" where
  "linear_base junk full_isize full_osize local_isize local_osize has_bias =
     \<lparr>full_input_size = full_isize, full_output_size = full_osize, local_input_size = local_isize,
      local_output_size = local_osize, weight = \<lparr>sizes = [nat local_osize, nat local_isize], elem = junk\<rparr>,
      bias = (if has_bias then Some \<lparr>sizes = [nat local_osize], elem = junk\<rparr> else None)\<rparr>"

definition linear_replicated :: "(nat list \<Rightarrow> 'a) \<Rightarrow> int \<Rightarrow> int \<Rightarrow> bool \<Rightarrow> 'a linear_layer" where
  "linear_replicated junk input_size output_size has_bias =
     linear_base junk input_size output_size input_size output_size has_bias"

definition linear_col_parallel_merged ::
  "(nat list \<Rightarrow> 'a) \<Rightarrow> int \<Rightarrow> int \<Rightarrow> int list \<Rightarrow> bool \<Rightarrow> 'a linear_layer result" where
  "linear_col_parallel_merged junk tp input_size output_sizes has_bias =
     (let total = sum_list output_sizes;
          l = linear_base junk input_size total input_size (total sdiv tp) has_bias in
      res_bind (res_map (\<lambda>sz. divide_even sz tp ''LinearColParallelMerged output size'') output_sizes) (\<lambda>locals.
      res_bind (check (sum_list locals = local_output_size l) (TorchCheck ''LinearColParallelMerged local output size mismatch''))
        (\<lambda>_. Inr l)))"

definition linear_row_parallel :: "(nat list \<Rightarrow> 'a) \<Rightarrow> int \<Rightarrow> int \<Rightarrow> int \<Rightarrow> bool \<Rightarrow> 'a linear_layer result" where
  "linear_row_parallel junk tp input_size output_size has_bias =
     res_bind (divide_even input_size tp ''LinearRowParallel input size'') (\<lambda>li.
     Inr (linear_base junk input_size output_size li output_size has_bias))"

definition linear_qkv_merged ::
  "(nat list \<Rightarrow> 'a) \<Rightarrow> int \<Rightarrow> int \<Rightarrow> int \<Rightarrow> int \<Rightarrow> int \<Rightarrow> bool \<Rightarrow> 'a linear_layer result" where
  "linear_qkv_merged junk tp hidden hdim qo_heads kv_heads has_bias =
     res_bind (divide_even qo_heads tp ''num_qo_heads'') (\<lambda>lq.
     res_bind (divide_even kv_heads tp ''num_kv_heads'') (\<lambda>lk.
     Inr (linear_base junk hidden ((qo_heads + 2 * kv_heads) * hdim) hidden ((lq + 2 * lk) * hdim) has_bias)))"

definition linear_o_proj :: "(nat list \<Rightarrow> 'a) \<Rightarrow> int \<Rightarrow> int \<Rightarrow> int \<Rightarrow> bool \<Rightarrow> 'a linear_layer result" where
  "linear_o_proj junk tp input_size output_size has_bias =
     res_bind (divide_even input_size tp ''LinearOProj input size'') (\<lambda>li.
     Inr (linear_base junk input_size output_size li output_size has_bias))"

text \<open>\<^verbatim>\<open>torch::nn::functional::linear\<close>: products with the rows of the weight, plus the bias.\<close>

definition linear_row :: "'a tensor \<Rightarrow> 'a tensor option \<Rightarrow> 'a list \<Rightarrow> 'a::field list" where
  "linear_row w b row =
     map (\<lambda>j. (\<Sum>k<(sizes w ! 1). row ! k * elem w [j, k]) + (case b of None \<Rightarrow> 0 | Some t \<Rightarrow> elem t [j])) [0..<sizes w ! 0]"

definition linear :: "'a tensor \<Rightarrow> 'a tensor option \<Rightarrow> 'a rows \<Rightarrow> 'a::field rows result" where
  "linear w b x =
     (if dims w = 2 \<and> list_all (\<lambda>row. length row = sizes w ! 1) x then Inr (map (linear_row w b) x)
      else Inl (RuntimeError ''mat1 and mat2 shapes cannot be multiplied''))"

definition linear_forward :: "'a linear_layer \<Rightarrow> 'a rows \<Rightarrow> 'a::field rows result" where
  "linear_forward l x = linear (weight l) (bias l) x"

text \<open>\<^verbatim>\<open>LinearRowParallel::forward\<close> and \<^verbatim>\<open>LinearOProj::forward\<close> on the group.\<close>

definition row_parallel_forward ::
  "('a rows list \<Rightarrow> 'a rows list) \<Rightarrow> 'a linear_layer list \<Rightarrow> 'a rows list \<Rightarrow> 'a::field rows list result" where
  "row_parallel_forward reduce ls xs = res_bind (on_ranks linear_forward ls xs) (\<lambda>ys. Inr (group_all_reduce reduce ys))"

section \<open>Embedding\<close>

definition embedding :: "'a tensor \<Rightarrow> int list \<Rightarrow> 'a rows result" where
  "embedding w ids =
     res_map (\<lambda>i. if 0 \<le> i \<and> i < int (sizes w ! 0) then Inr (map (\<lambda>k. elem w [nat i, k]) [0..<sizes w ! 1])
                  else Inl (IndexError ''index out of range in self'')) ids"

record 'a vocab_embedding =
  num_embeddings :: int
  num_embeddings_tp :: int
  ve_tp_size :: int
  vocab_start_idx :: int
  vocab_end_idx :: int
  ve_weight :: "'a tensor"

definition vocab_embedding_init :: "(nat list \<Rightarrow> 'a) \<Rightarrow> tp_info \<Rightarrow> int \<Rightarrow> int \<Rightarrow> 'a vocab_embedding" where
  "vocab_embedding_init junk tp n embedding_dim =
     (let ntp = (n + tp_size tp - 1) sdiv tp_size tp; first = ntp * tp_rank tp in
      \<lparr>num_embeddings = n, num_embeddings_tp = ntp, ve_tp_size = tp_size tp, vocab_start_idx = first,
       vocab_end_idx = min (first + ntp) n, ve_weight = \<lparr>sizes = [nat ntp, nat embedding_dim], elem = junk\<rparr>\<rparr>)"

definition vocab_local :: "'a vocab_embedding \<Rightarrow> int list \<Rightarrow> 'a::field rows result" where
  "vocab_local e ids =
     (let mask = map (\<lambda>i. i < vocab_start_idx e \<or> i \<ge> vocab_end_idx e) ids;
          local_ids = map2 (\<lambda>m i. if m then 0 else i - vocab_start_idx e) mask ids in
      res_bind (embedding (ve_weight e) local_ids) (\<lambda>out.
      Inr (map2 (\<lambda>m row. if m then map (\<lambda>_. 0) row else row) mask out)))"

definition vocab_embedding_forward ::
  "('a rows list \<Rightarrow> 'a rows list) \<Rightarrow> 'a vocab_embedding list \<Rightarrow> int list \<Rightarrow> 'a::field rows list result" where
  "vocab_embedding_forward reduce es ids =
     (if length es = 1 then res_map (\<lambda>e. embedding (ve_weight e) ids) es
      else res_bind (res_map (\<lambda>e. vocab_local e ids) es) (\<lambda>outs. Inr (group_all_reduce reduce outs)))"

text \<open>\<^verbatim>\<open>ParallelLMHead\<close>: the logits of the rank's part of the vocabulary, with the weight of the embedding when it is tied.\<close>

record 'a parallel_lm_head =
  lmh_own :: "'a vocab_embedding"
  lmh_bias :: "'a tensor option"
  tied_embedding :: "'a vocab_embedding option"

definition parallel_lm_head_init ::
  "(nat list \<Rightarrow> 'a) \<Rightarrow> tp_info \<Rightarrow> int \<Rightarrow> int \<Rightarrow> bool \<Rightarrow> 'a vocab_embedding option \<Rightarrow> 'a parallel_lm_head" where
  "parallel_lm_head_init junk tp n embedding_dim has_bias tied =
     (let e = vocab_embedding_init junk tp n embedding_dim in
      \<lparr>lmh_own = e, lmh_bias = (if has_bias then Some \<lparr>sizes = [nat (num_embeddings_tp e)], elem = junk\<rparr> else None),
       tied_embedding = tied\<rparr>)"

definition parallel_lm_head_forward :: "'a parallel_lm_head \<Rightarrow> 'a rows \<Rightarrow> 'a::field rows result" where
  "parallel_lm_head_forward p x =
     linear (ve_weight (case tied_embedding p of Some e \<Rightarrow> e | None \<Rightarrow> lmh_own p)) (lmh_bias p) x"

section \<open>Gated feed-forward network\<close>

record 'a gated_mlp =
  mlp_act :: string
  gate_up_proj :: "'a linear_layer"
  down_proj :: "'a linear_layer"

definition gated_mlp_init :: "(nat list \<Rightarrow> 'a) \<Rightarrow> int \<Rightarrow> model_config \<Rightarrow> 'a gated_mlp result" where
  "gated_mlp_init junk tp c =
     res_bind (linear_col_parallel_merged junk tp (hidden_size c) [intermediate_size c, intermediate_size c] False) (\<lambda>gu.
     res_bind (linear_row_parallel junk tp (intermediate_size c) (hidden_size c) False) (\<lambda>dn.
     Inr \<lparr>mlp_act = hidden_act c, gate_up_proj = gu, down_proj = dn\<rparr>))"

text \<open>
  The activations of \<^verbatim>\<open>src/layers/activation.cu\<close>. A block has a thread for every 8 elements, at most 1024: the launch
  fails without rows, and when the half has fewer than 8 columns. The failure is not checked there; the next check of a launch
  reports it.
\<close>

definition d_silu :: "('a \<Rightarrow> 'a) \<Rightarrow> 'a \<Rightarrow> 'a::field" where
  "d_silu e x = x / (1 + e (- x))"

definition d_gelu :: "('a \<Rightarrow> 'a) \<Rightarrow> 'a \<Rightarrow> 'a::field" where
  "d_gelu th x = 1 / 2 * x * (1 + th (7978845608 / 10 ^ 10 * (x + 44715 / 10 ^ 6 * x * x * x)))"

definition act_num_threads :: "nat \<Rightarrow> nat" where
  "act_num_threads d = min 1024 (d div 8)"

definition act_launch :: "'a layer_ops \<Rightarrow> ('a \<Rightarrow> 'a) \<Rightarrow> 'a rows \<Rightarrow> 'a rows result" where
  "act_launch ops f input =
     (if input \<noteq> [] \<and> 0 < act_num_threads (length (hd input) div 2) then Inr (map (act_and_mul ops f) input)
      else Inl (RuntimeError ''CUDA error: invalid configuration argument''))"

definition silu_and_mul :: "'a layer_ops \<Rightarrow> 'a rows \<Rightarrow> 'a::field rows result" where
  "silu_and_mul ops input = act_launch ops (d_silu (expf ops)) input"

definition gelu_and_mul :: "'a layer_ops \<Rightarrow> 'a rows \<Rightarrow> 'a::field rows result" where
  "gelu_and_mul ops input = act_launch ops (d_gelu (tanhf ops)) input"

definition gated_act :: "'a layer_ops \<Rightarrow> string \<Rightarrow> 'a rows \<Rightarrow> 'a::field rows result" where
  "gated_act ops act gate_up =
     (if act = ''silu'' then silu_and_mul ops gate_up
      else if act = ''gelu'' then gelu_and_mul ops gate_up
      else Inl (TorchCheck ''Unsupported activation function''))"

definition gated_mlp_forward ::
  "('a rows list \<Rightarrow> 'a rows list) \<Rightarrow> 'a layer_ops \<Rightarrow> 'a gated_mlp list \<Rightarrow> 'a rows list \<Rightarrow> 'a::field rows list result" where
  "gated_mlp_forward reduce ops ms xs =
     res_bind (on_ranks (\<lambda>m x. res_bind (linear_forward (gate_up_proj m) x) (gated_act ops (mlp_act m))) ms xs) (\<lambda>ys.
     row_parallel_forward reduce (map down_proj ms) ys)"

end
