(* ===== verification/Models.thy ===== *)
theory Models
  imports Layers Engine
begin

text \<open>
  The attention layer (\<^verbatim>\<open>src/layers/attention_layer.cc\<close>, \<^verbatim>\<open>RopeAttn\<close> of \<^verbatim>\<open>src/models/utils.cc\<close>), the
  mixture of experts (\<^verbatim>\<open>src/moe/moe.cc\<close>) and the models of \<^verbatim>\<open>src/models\<close> as a group of ranks runs them.
  The attention backend of a rank is a function of the layer and of queries, keys and values.
\<close>

section \<open>Mixture of experts\<close>

record 'a moe_layer =
  moe_experts :: nat
  moe_top_k :: nat
  moe_hidden :: nat
  moe_inter :: nat
  renormalize :: bool
  moe_act :: string
  moe_gate_up :: "'a tensor"
  moe_down :: "'a tensor"

definition moe_layer_init ::
  "(nat list \<Rightarrow> 'a) \<Rightarrow> int \<Rightarrow> int \<Rightarrow> int \<Rightarrow> int \<Rightarrow> int \<Rightarrow> bool \<Rightarrow> string \<Rightarrow> 'a moe_layer result" where
  "moe_layer_init junk tp experts chosen hidden isize renorm act =
     res_bind (check (experts > 0) (TorchCheck ''MoELayer requires num_experts > 0'')) (\<lambda>_.
     res_bind (check (chosen > 0) (TorchCheck ''MoELayer requires top_k > 0'')) (\<lambda>_.
     res_bind (check (chosen \<le> experts) (TorchCheck ''MoELayer top_k must be <= num_experts'')) (\<lambda>_.
     res_bind (check (hidden > 0) (TorchCheck ''MoELayer requires hidden_size > 0'')) (\<lambda>_.
     res_bind (check (isize > 0) (TorchCheck ''MoELayer requires intermediate_size > 0'')) (\<lambda>_.
     res_bind (divide_even isize tp ''MoELayer intermediate size'') (\<lambda>local_inter.
     Inr \<lparr>moe_experts = nat experts, moe_top_k = nat chosen, moe_hidden = nat hidden, moe_inter = nat isize,
          renormalize = renorm, moe_act = act,
          moe_gate_up = \<lparr>sizes = [nat experts, nat (local_inter * 2), nat hidden], elem = junk\<rparr>,
          moe_down = \<lparr>sizes = [nat experts, nat hidden, nat local_inter], elem = junk\<rparr>\<rparr>))))))"

text \<open>\<open>select(0, e)\<close>, and the two halves of a row.\<close>

definition select0 :: "'a tensor \<Rightarrow> nat \<Rightarrow> 'a tensor" where
  "select0 t e = \<lparr>sizes = tl (sizes t), elem = (\<lambda>ix. elem t (e # ix))\<rparr>"

definition moe_activate :: "'a layer_ops \<Rightarrow> string \<Rightarrow> 'a list \<Rightarrow> 'a::field list result" where
  "moe_activate ops act row =
     (let n = length row div 2; gate = take n row; up = take n (drop n row) in
      if act = ''silu'' then Inr (map2 (*) (map (silu ops) gate) up)
      else if act = ''gelu'' then Inr (map2 (*) (map (gelu ops) gate) up)
      else Inl (TorchCheck ''Unsupported MoE activation function''))"

text \<open>The experts of a token with their weights, best first.\<close>

definition route_tokens :: "'a layer_ops \<Rightarrow> 'a moe_layer \<Rightarrow> 'a list \<Rightarrow> ('a::field \<times> nat) list" where
  "route_tokens ops m logits =
     (let tk = topk ops (moe_top_k m) (softmax ops logits) in
      if renormalize m then map (\<lambda>(w, e). (w / (sum_list (map fst tk) + 1 / 10 ^ 8), e)) tk else tk)"

definition index_add :: "nat list \<Rightarrow> 'a rows \<Rightarrow> 'a rows \<Rightarrow> 'a::field rows" where
  "index_add idx src out = fold (\<lambda>(t, row) o'. o'[t := map2 (+) (o' ! t) row]) (zip idx src) out"

text \<open>One expert for one rank of the routing: the rows of the tokens that chose it, all at once.\<close>

definition expert_step ::
  "'a layer_ops \<Rightarrow> 'a moe_layer \<Rightarrow> 'a rows \<Rightarrow> ('a \<times> nat) list list \<Rightarrow> nat \<times> nat \<Rightarrow> 'a rows \<Rightarrow> 'a::field rows result" where
  "expert_step ops m x routes = (\<lambda>(k, expert_id) output.
     let idx = filter (\<lambda>t. snd (routes ! t ! k) = expert_id) [0..<length x] in
     if idx = [] then Inr output
     else
       res_bind (linear (select0 (moe_gate_up m) expert_id) None (map (\<lambda>t. x ! t) idx)) (\<lambda>gate_up.
       res_bind (res_map (moe_activate ops (moe_act m)) gate_up) (\<lambda>activated.
       res_bind (linear (select0 (moe_down m) expert_id) None activated) (\<lambda>out.
       Inr (index_add idx (map2 (\<lambda>t row. map (\<lambda>y. y * fst (routes ! t ! k)) row) idx out) output)))))"

definition moe_local :: "'a layer_ops \<Rightarrow> 'a moe_layer \<Rightarrow> 'a rows \<Rightarrow> 'a rows \<Rightarrow> 'a::field rows result" where
  "moe_local ops m x router_logits =
     res_bind (check (length x = length router_logits) (TorchCheck ''MoELayer token count mismatch'')) (\<lambda>_.
     res_bind (check (list_all (\<lambda>row. length row = moe_hidden m) x) (TorchCheck ''MoELayer hidden size mismatch'')) (\<lambda>_.
     res_bind (check (list_all (\<lambda>row. length row = moe_experts m) router_logits) (TorchCheck ''MoELayer expert count mismatch'')) (\<lambda>_.
     res_fold (expert_step ops m x (map (route_tokens ops m) router_logits))
       (List.product [0..<moe_top_k m] [0..<moe_experts m]) (map (map (\<lambda>_. 0)) x))))"

record 'a moe_mlp =
  router :: "'a linear_layer"
  experts :: "'a moe_layer"

definition moe_mlp_init :: "(nat list \<Rightarrow> 'a) \<Rightarrow> int \<Rightarrow> model_config \<Rightarrow> 'a moe_mlp result" where
  "moe_mlp_init junk tp c =
     res_bind (moe_layer_init junk tp (num_experts c) (num_experts_per_tok c) (hidden_size c) (moe_intermediate_size c)
         (norm_topk_prob c) (hidden_act c)) (\<lambda>e.
     Inr \<lparr>router = linear_replicated junk (hidden_size c) (num_experts c) False, experts = e\<rparr>)"

definition moe_mlp_forward ::
  "('a rows list \<Rightarrow> 'a rows list) \<Rightarrow> 'a layer_ops \<Rightarrow> 'a moe_mlp list \<Rightarrow> 'a rows list \<Rightarrow> 'a::field rows list result" where
  "moe_mlp_forward reduce ops ms xs =
     res_bind (on_ranks (\<lambda>m x. res_bind (linear_forward (router m) x) (moe_local ops (experts m) x)) ms xs) (\<lambda>ys.
     Inr (group_all_reduce reduce ys))"

section \<open>Attention\<close>

record 'a rope_attn =
  qkv_proj :: "'a linear_layer"
  o_proj :: "'a linear_layer"
  at_qo_heads :: nat
  at_kv_heads :: nat
  at_head_dim :: nat
  q_norm :: "'a list option"
  k_norm :: "'a list option"

text \<open>The weight of a new \<^verbatim>\<open>RMSNorm\<close>.\<close>

definition rms_norm_init :: "int \<Rightarrow> 'a::one list" where
  "rms_norm_init n = replicate (nat n) 1"

definition rope_attn_init :: "(nat list \<Rightarrow> 'a) \<Rightarrow> int \<Rightarrow> model_config \<Rightarrow> bool \<Rightarrow> bool \<Rightarrow> 'a::one rope_attn result" where
  "rope_attn_init junk tp c has_attn_bias has_qk_norm =
     res_bind (linear_qkv_merged junk tp (hidden_size c) (head_dim c) (num_qo_heads c) (num_kv_heads c) has_attn_bias) (\<lambda>qkv.
     res_bind (divide_even (num_qo_heads c) tp ''num_qo_heads'') (\<lambda>lq.
     res_bind (divide_even (num_kv_heads c) tp ''num_kv_heads'') (\<lambda>lk.
     res_bind (linear_o_proj junk tp (head_dim c * num_qo_heads c) (hidden_size c) False) (\<lambda>op.
     let ones = (if has_qk_norm then Some (rms_norm_init (head_dim c)) else None) in
     Inr \<lparr>qkv_proj = qkv, o_proj = op, at_qo_heads = nat lq, at_kv_heads = nat lk, at_head_dim = nat (head_dim c),
          q_norm = ones, k_norm = ones\<rparr>))))"

text \<open>\<open>view({-1, n, d})\<close> of a row as \<open>n\<close> heads, and an operation on each of them.\<close>

definition heads_of :: "nat \<Rightarrow> nat \<Rightarrow> 'a list \<Rightarrow> 'a list list" where
  "heads_of n d row = map (\<lambda>h. tslice (h * d) (h * d + d) row) [0..<n]"

definition on_heads :: "nat \<Rightarrow> nat \<Rightarrow> ('a list \<Rightarrow> 'a list) \<Rightarrow> 'a list \<Rightarrow> 'a list" where
  "on_heads n d f row = concat (map f (heads_of n d row))"

text \<open>
  Queries and keys are views of the rows of \<open>qkv\<close>: they are normalized and rotated in place, head by
  head; the fused kernel does the same for both (\<open>fused_norm_exact\<close> of \<open>DeviceProps\<close>).
\<close>

definition attention_layer_forward ::
  "'a layer_ops \<Rightarrow> ('a rows \<Rightarrow> 'a rows \<Rightarrow> 'a rows \<Rightarrow> 'a rows result) \<Rightarrow> 'a rope_attn \<Rightarrow> int list \<Rightarrow> 'a rows \<Rightarrow> 'a rows result" where
  "attention_layer_forward ops backend a poss qkv =
     (let d = at_head_dim a; qd = at_qo_heads a * d; kd = at_kv_heads a * d;
          q = map (take qd) qkv; k = map (\<lambda>row. take kd (drop qd row)) qkv;
          v = map (\<lambda>row. take kd (drop (qd + kd) row)) qkv;
          q1 = (case q_norm a of Some w \<Rightarrow> map (on_heads (at_qo_heads a) d (head_norm ops w)) q | None \<Rightarrow> q);
          k1 = (case k_norm a of Some w \<Rightarrow> map (on_heads (at_kv_heads a) d (head_norm ops w)) k | None \<Rightarrow> k);
          q2 = map2 (\<lambda>pos. on_heads (at_qo_heads a) d (rotate_head ops pos)) poss q1;
          k2 = map2 (\<lambda>pos. on_heads (at_kv_heads a) d (rotate_head ops pos)) poss k1 in
      if list_all (\<lambda>row. qd + kd + kd \<le> length row) qkv then backend q2 k2 v
      else Inl (IndexError ''narrow''))"

definition rope_attn_forward ::
  "('a rows list \<Rightarrow> 'a rows list) \<Rightarrow> 'a layer_ops \<Rightarrow> ('a rows \<Rightarrow> 'a rows \<Rightarrow> 'a rows \<Rightarrow> 'a rows result) list \<Rightarrow>
   'a rope_attn list \<Rightarrow> int list \<Rightarrow> 'a rows list \<Rightarrow> 'a::field rows list result" where
  "rope_attn_forward reduce ops bks as poss xs =
     res_bind (on_ranks (\<lambda>(bk, a) x. res_bind (linear_forward (qkv_proj a) x) (attention_layer_forward ops bk a poss))
         (zip bks as) xs) (\<lambda>os.
     row_parallel_forward reduce (map o_proj as) os)"

section \<open>Decoder layers\<close>

datatype 'a mlp = Gated "'a gated_mlp" | Moe "'a moe_mlp"

fun gateds :: "'a mlp list \<Rightarrow> 'a gated_mlp list" where
  "gateds [] = []"
| "gateds (Gated m # ms) = m # gateds ms"
| "gateds (Moe m # ms) = gateds ms"

fun moes :: "'a mlp list \<Rightarrow> 'a moe_mlp list" where
  "moes [] = []"
| "moes (Moe m # ms) = m # moes ms"
| "moes (Gated m # ms) = moes ms"

text \<open>All ranks have the same kind.\<close>

definition mlp_forward ::
  "('a rows list \<Rightarrow> 'a rows list) \<Rightarrow> 'a layer_ops \<Rightarrow> 'a mlp list \<Rightarrow> 'a rows list \<Rightarrow> 'a::field rows list result" where
  "mlp_forward reduce ops ms xs =
     (if moes ms = [] then gated_mlp_forward reduce ops (gateds ms) xs else moe_mlp_forward reduce ops (moes ms) xs)"

record 'a decoder =
  self_attn :: "'a rope_attn"
  mlp_of :: "'a mlp"
  input_layernorm :: "'a list"
  post_attention_layernorm :: "'a list"

definition rms_norm_rows :: "'a layer_ops \<Rightarrow> 'a list \<Rightarrow> 'a rows \<Rightarrow> 'a rows" where
  "rms_norm_rows ops w x = map (row_norm ops w) x"

definition add_rows :: "'a rows \<Rightarrow> 'a rows \<Rightarrow> 'a::field rows" where
  "add_rows x y = map2 (map2 (+)) x y"

text \<open>\<open>fused_add_forward_inplace\<close> on every row of \<open>x\<close> and of the residual.\<close>

definition fused_add_rows :: "'a layer_ops \<Rightarrow> 'a list \<Rightarrow> 'a rows \<times> 'a rows \<Rightarrow> 'a rows \<times> 'a rows" where
  "fused_add_rows ops w = (\<lambda>(x, residual).
     let ps = map2 (\<lambda>a b. fused_add_norm ops w (a, b)) x residual in (map fst ps, map snd ps))"

text \<open>
  The class \<^verbatim>\<open>RMSNorm\<close> itself, with its checks and the kernel of FlashInfer as \<open>row_norm\<close> and \<open>fused_add_norm\<close>;
  \<open>launched\<close> is the status of the kernel. On rows as wide as the weight, which is how the models call it, the checks pass and the class
  is \<open>rms_norm_rows\<close> and \<open>fused_add_rows\<close>.
\<close>

definition rms_norm_forward_inplace :: "'a layer_ops \<Rightarrow> 'a list \<Rightarrow> 'a rows \<Rightarrow> 'a rows result" where
  "rms_norm_forward_inplace ops w x =
     res_bind (check (list_all (\<lambda>row. length row > 0) x) (TorchCheck ''RMSNorm last dimension must be positive'')) (\<lambda>_.
     res_bind (check (list_all (\<lambda>row. length w = length row) x) (TorchCheck ''RMSNorm weight size must match last dimension'')) (\<lambda>_.
     Inr (map (row_norm ops w) x)))"

definition rms_norm_forward :: "'a layer_ops \<Rightarrow> 'a list \<Rightarrow> 'a rows \<Rightarrow> 'a rows result" where
  "rms_norm_forward ops w x = (let out = x in rms_norm_forward_inplace ops w out)"

definition fused_add_forward_inplace ::
  "'a layer_ops \<Rightarrow> bool \<Rightarrow> 'a list \<Rightarrow> 'a rows \<times> 'a rows \<Rightarrow> ('a rows \<times> 'a rows) result" where
  "fused_add_forward_inplace ops launched w = (\<lambda>(x, residual).
     res_bind (check (map length x = map length residual) (TorchCheck ''x and residual shapes must match'')) (\<lambda>_.
     res_bind (check (list_all (\<lambda>row. length row > 0) x) (TorchCheck ''RMSNorm last dimension must be positive'')) (\<lambda>_.
     res_bind (check (list_all (\<lambda>row. length w = length row) x) (TorchCheck ''RMSNorm weight size must match last dimension'')) (\<lambda>_.
     res_bind (check launched (TorchCheck ''FlashInfer FusedAddRMSNorm failed'')) (\<lambda>_.
     Inr (fused_add_rows ops w (x, residual)))))))"

lemma rms_norm_checks:
  assumes "\<forall>row\<in>set x. length row = length w" "0 < length w"
  shows "rms_norm_forward ops w x = Inr (rms_norm_rows ops w x)"
    and "map length residual = map length x \<Longrightarrow> fused_add_forward_inplace ops True w (x, residual) = Inr (fused_add_rows ops w (x, residual))"
proof -
  have "list_all (\<lambda>row. length row > 0) x" "list_all (\<lambda>row. length w = length row) x"
    unfolding list_all_iff using assms by auto
  then show "rms_norm_forward ops w x = Inr (rms_norm_rows ops w x)"
    and "map length residual = map length x \<Longrightarrow> fused_add_forward_inplace ops True w (x, residual) = Inr (fused_add_rows ops w (x, residual))"
    by (simp_all only: rms_norm_forward_def rms_norm_forward_inplace_def fused_add_forward_inplace_def rms_norm_rows_def
        check_def Let_def prod.case if_True res_bind_Inr simp_thms)
qed

text \<open>\<^verbatim>\<open>LlamaDecoderLayer\<close>, \<^verbatim>\<open>MistralDecoderLayer\<close> and \<^verbatim>\<open>Qwen2DecoderLayer\<close>: the ranks side by side.\<close>

definition decoder_forward ::
  "('a rows list \<Rightarrow> 'a rows list) \<Rightarrow> 'a layer_ops \<Rightarrow> ('a rows \<Rightarrow> 'a rows \<Rightarrow> 'a rows \<Rightarrow> 'a rows result) list \<Rightarrow>
   'a decoder list \<Rightarrow> int list \<Rightarrow> 'a rows list \<Rightarrow> 'a::field rows list result" where
  "decoder_forward reduce ops bks ds poss xs =
     (let residual = xs; x_norm = map2 (rms_norm_rows ops) (map input_layernorm ds) xs in
      res_bind (rope_attn_forward reduce ops bks (map self_attn ds) poss x_norm) (\<lambda>attn_out.
      let x1 = map2 add_rows residual attn_out; residual1 = x1;
          x_norm1 = map2 (rms_norm_rows ops) (map post_attention_layernorm ds) x1 in
      res_bind (mlp_forward reduce ops (map mlp_of ds) x_norm1) (\<lambda>mlp_out.
      Inr (map2 add_rows residual1 mlp_out))))"

text \<open>\<^verbatim>\<open>Qwen3DecoderLayer\<close> and \<^verbatim>\<open>Qwen3MoEDecoderLayer\<close>: the additions are part of the normalizations.\<close>

definition fused_decoder_forward ::
  "('a rows list \<Rightarrow> 'a rows list) \<Rightarrow> 'a layer_ops \<Rightarrow> ('a rows \<Rightarrow> 'a rows \<Rightarrow> 'a rows \<Rightarrow> 'a rows result) list \<Rightarrow>
   'a decoder list \<Rightarrow> int list \<Rightarrow> 'a rows list \<times> 'a rows list option \<Rightarrow> ('a::field rows list \<times> 'a rows list option) result" where
  "fused_decoder_forward reduce ops bks ds poss = (\<lambda>(xs, residual).
     let (x1, residual1) = (case residual of
           Some rs \<Rightarrow>
             let ps = map2 (fused_add_rows ops) (map input_layernorm ds) (zip xs rs) in (map fst ps, map snd ps)
         | None \<Rightarrow> (map2 (rms_norm_rows ops) (map input_layernorm ds) xs, xs)) in
     res_bind (rope_attn_forward reduce ops bks (map self_attn ds) poss x1) (\<lambda>attn_out.
     let ps = map2 (fused_add_rows ops) (map post_attention_layernorm ds) (zip attn_out residual1) in
     res_bind (mlp_forward reduce ops (map mlp_of ds) (map fst ps)) (\<lambda>x2.
     Inr (x2, Some (map snd ps)))))"

section \<open>Models\<close>

record 'a causal_lm =
  embed_tokens :: "'a tensor"
  decoders :: "'a decoder list"
  final_norm :: "'a list"
  lm_head :: "'a linear_layer"

text \<open>
  \<open>bks\<close> gives the backend of each rank for each layer; \<open>sel\<close> are the indices of the metadata of a prefill
  batch, \<open>None\<close> for other batches.
\<close>

definition select_lm_head_input :: "nat list option \<Rightarrow> 'a rows \<Rightarrow> 'a rows result" where
  "select_lm_head_input sel x =
     (case sel of
        None \<Rightarrow> Inr x
      | Some idx \<Rightarrow> if list_all (\<lambda>i. i < length x) idx then Inr (map (\<lambda>i. x ! i) idx)
                    else Inl (IndexError ''index out of range in self''))"

definition lm_head_forward ::
  "'a causal_lm list \<Rightarrow> nat list option \<Rightarrow> 'a rows list \<Rightarrow> 'a::field rows list result" where
  "lm_head_forward ms sel hidden =
     on_ranks (\<lambda>m x. res_bind (select_lm_head_input sel x) (linear_forward (lm_head m))) ms hidden"

text \<open>\<^verbatim>\<open>LlamaModel::forward\<close>, the same in \<^verbatim>\<open>mistral.cc\<close> and \<^verbatim>\<open>qwen.cc\<close>.\<close>

definition plain_model_forward ::
  "('a rows list \<Rightarrow> 'a rows list) \<Rightarrow> 'a layer_ops \<Rightarrow> (nat \<Rightarrow> ('a rows \<Rightarrow> 'a rows \<Rightarrow> 'a rows \<Rightarrow> 'a rows result) list) \<Rightarrow>
   'a causal_lm list \<Rightarrow> nat \<Rightarrow> int list \<Rightarrow> int list \<Rightarrow> 'a::field rows list result" where
  "plain_model_forward reduce ops bks ms n ids poss =
     res_bind (res_map (\<lambda>m. embedding (embed_tokens m) ids) ms) (\<lambda>xs.
     res_bind (res_fold (\<lambda>l. decoder_forward reduce ops (bks l) (map (\<lambda>m. decoders m ! l) ms) poss) [0..<n] xs) (\<lambda>ys.
     Inr (map2 (rms_norm_rows ops) (map final_norm ms) ys)))"

text \<open>\<^verbatim>\<open>Qwen3Model::forward\<close> and \<^verbatim>\<open>Qwen3MoEModel::forward\<close>.\<close>

definition fused_model_forward ::
  "('a rows list \<Rightarrow> 'a rows list) \<Rightarrow> 'a layer_ops \<Rightarrow> (nat \<Rightarrow> ('a rows \<Rightarrow> 'a rows \<Rightarrow> 'a rows \<Rightarrow> 'a rows result) list) \<Rightarrow>
   'a causal_lm list \<Rightarrow> nat \<Rightarrow> int list \<Rightarrow> int list \<Rightarrow> 'a::field rows list result" where
  "fused_model_forward reduce ops bks ms n ids poss =
     res_bind (res_map (\<lambda>m. embedding (embed_tokens m) ids) ms) (\<lambda>xs.
     res_bind (res_fold (\<lambda>l. fused_decoder_forward reduce ops (bks l) (map (\<lambda>m. decoders m ! l) ms) poss) [0..<n] (xs, None))
       (\<lambda>(ys, residual). Inr (case residual of
           Some rs \<Rightarrow> map2 (\<lambda>m p. fst (fused_add_rows ops (final_norm m) p)) ms (zip ys rs)
         | None \<Rightarrow> map2 (rms_norm_rows ops) (map final_norm ms) ys)))"

text \<open>The constructors. A normalization starts with ones.\<close>

definition decoder_init :: "(nat list \<Rightarrow> 'a) \<Rightarrow> int \<Rightarrow> model_config \<Rightarrow> bool \<Rightarrow> bool \<Rightarrow> bool \<Rightarrow> 'a::one decoder result" where
  "decoder_init junk tp c has_attn_bias has_qk_norm has_experts =
     res_bind (rope_attn_init junk tp c has_attn_bias has_qk_norm) (\<lambda>a.
     res_bind (if has_experts then res_bind (moe_mlp_init junk tp c) (\<lambda>m. Inr (Moe m))
               else res_bind (gated_mlp_init junk tp c) (\<lambda>m. Inr (Gated m))) (\<lambda>m.
     let ones = rms_norm_init (hidden_size c) in
     Inr \<lparr>self_attn = a, mlp_of = m, input_layernorm = ones, post_attention_layernorm = ones\<rparr>))"

definition causal_lm_init :: "(nat list \<Rightarrow> 'a) \<Rightarrow> int \<Rightarrow> model_config \<Rightarrow> 'a::one decoder result \<Rightarrow> 'a causal_lm result" where
  "causal_lm_init junk tp c layer =
     res_bind (res_map (\<lambda>_. layer) [0..<nat (num_layers c)]) (\<lambda>ls.
     let embed = \<lparr>sizes = [nat (mc_vocab_size c), nat (hidden_size c)], elem = junk\<rparr>;
         head = linear_replicated junk (hidden_size c) (mc_vocab_size c) False in
     Inr \<lparr>embed_tokens = embed, decoders = ls, final_norm = rms_norm_init (hidden_size c),
          lm_head = (if tie_word_embeddings c then head\<lparr>weight := embed\<rparr> else head)\<rparr>)"

section \<open>The five models\<close>

text \<open>
  Which of them runs is \<open>create_model_runner\<close> (theory \<open>Engine\<close>). They differ in biases, in the normalization
  of heads, in experts and in the style of the additions. \<^verbatim>\<open>LlamaDecoderLayer\<close> and \<^verbatim>\<open>MistralDecoderLayer\<close> have none of them.
\<close>

definition mistral_layer_init :: "(nat list \<Rightarrow> 'a) \<Rightarrow> int \<Rightarrow> model_config \<Rightarrow> 'a::one decoder result" where
  "mistral_layer_init junk tp c = decoder_init junk tp c False False False"

definition qwen2_layer_init :: "(nat list \<Rightarrow> 'a) \<Rightarrow> int \<Rightarrow> model_config \<Rightarrow> 'a::one decoder result" where
  "qwen2_layer_init junk tp c = decoder_init junk tp c True False False"

definition qwen3_layer_init :: "(nat list \<Rightarrow> 'a) \<Rightarrow> int \<Rightarrow> model_config \<Rightarrow> 'a::one decoder result" where
  "qwen3_layer_init junk tp c = decoder_init junk tp c False True False"

definition qwen3_moe_layer_init :: "(nat list \<Rightarrow> 'a) \<Rightarrow> int \<Rightarrow> model_config \<Rightarrow> 'a::one decoder result" where
  "qwen3_moe_layer_init junk tp c = decoder_init junk tp c False True True"

lemmas layer_init_defs = mistral_layer_init_def qwen2_layer_init_def qwen3_layer_init_def qwen3_moe_layer_init_def

fun layer_init :: "model_kind \<Rightarrow> (nat list \<Rightarrow> 'a) \<Rightarrow> int \<Rightarrow> model_config \<Rightarrow> 'a::one decoder result" where
  "layer_init LlamaForCausalLM junk tp c = decoder_init junk tp c False False False"
| "layer_init MistralForCausalLM junk tp c = mistral_layer_init junk tp c"
| "layer_init Qwen2ForCausalLM junk tp c = qwen2_layer_init junk tp c"
| "layer_init Qwen3ForCausalLM junk tp c = qwen3_layer_init junk tp c"
| "layer_init Qwen3MoEForCausalLM junk tp c = qwen3_moe_layer_init junk tp c"

definition create_model :: "(nat list \<Rightarrow> 'a) \<Rightarrow> int \<Rightarrow> model_config \<Rightarrow> 'a::one causal_lm result" where
  "create_model junk tp c = causal_lm_init junk tp c (layer_init (create_model_runner (architectures c) (model_type c) (is_moe c)) junk tp c)"

text \<open>
  \<^verbatim>\<open>LlamaForCausalLM\<close>, \<^verbatim>\<open>MistralForCausalLM\<close> and \<^verbatim>\<open>Qwen2ForCausalLM\<close>, and then \<^verbatim>\<open>Qwen3ForCausalLM\<close> and \<^verbatim>\<open>Qwen3MoEForCausalLM\<close>:
  the files have the same text for each.
\<close>

definition plain_causal_forward ::
  "('a rows list \<Rightarrow> 'a rows list) \<Rightarrow> 'a layer_ops \<Rightarrow> (nat \<Rightarrow> ('a rows \<Rightarrow> 'a rows \<Rightarrow> 'a rows \<Rightarrow> 'a rows result) list) \<Rightarrow>
   'a causal_lm list \<Rightarrow> nat \<Rightarrow> int list \<Rightarrow> int list \<Rightarrow> nat list option \<Rightarrow> 'a::field rows list result" where
  "plain_causal_forward reduce ops bks ms n ids poss sel =
     res_bind (plain_model_forward reduce ops bks ms n ids poss) (lm_head_forward ms sel)"

definition fused_causal_forward ::
  "('a rows list \<Rightarrow> 'a rows list) \<Rightarrow> 'a layer_ops \<Rightarrow> (nat \<Rightarrow> ('a rows \<Rightarrow> 'a rows \<Rightarrow> 'a rows \<Rightarrow> 'a rows result) list) \<Rightarrow>
   'a causal_lm list \<Rightarrow> nat \<Rightarrow> int list \<Rightarrow> int list \<Rightarrow> nat list option \<Rightarrow> 'a::field rows list result" where
  "fused_causal_forward reduce ops bks ms n ids poss sel =
     res_bind (fused_model_forward reduce ops bks ms n ids poss) (lm_head_forward ms sel)"

definition model_forward ::
  "model_kind \<Rightarrow> ('a rows list \<Rightarrow> 'a rows list) \<Rightarrow> 'a layer_ops \<Rightarrow> (nat \<Rightarrow> ('a rows \<Rightarrow> 'a rows \<Rightarrow> 'a rows \<Rightarrow> 'a rows result) list) \<Rightarrow>
   'a causal_lm list \<Rightarrow> nat \<Rightarrow> int list \<Rightarrow> int list \<Rightarrow> nat list option \<Rightarrow> 'a::field rows list result" where
  "model_forward kind reduce ops bks ms n ids poss sel =
     (if kind \<in> {Qwen3ForCausalLM, Qwen3MoEForCausalLM} then fused_causal_forward reduce ops bks ms n ids poss sel
      else plain_causal_forward reduce ops bks ms n ids poss sel)"

end
