(* ===== verification/LayerProps.thy ===== *)
theory LayerProps
  imports Models WeightProps
begin

text \<open>
  The layers on a group of ranks compute what one process computes with the whole weights: the
  shards that the weight loader cuts are those that the layers need.
\<close>

section \<open>Groups\<close>

lemma res_map_ok: "(\<And>x. x \<in> set xs \<Longrightarrow> f x = Inr (g x)) \<Longrightarrow> res_map f xs = Inr (map g xs)"
  by (induction xs) simp_all

lemma on_ranks_ok:
  assumes "length ps = n" "length xs = n" "\<And>r. r < n \<Longrightarrow> f (ps ! r) (xs ! r) = Inr (G r)"
  shows "on_ranks f ps xs = Inr (map G [0..<n])"
proof -
  have "zip ps xs = map (\<lambda>r. (ps ! r, xs ! r)) [0..<n]" by (rule nth_equalityI) (use assms in simp_all)
  moreover have "res_map (\<lambda>(p, x). f p x) (map (\<lambda>r. (ps ! r, xs ! r)) ns) = Inr (map G ns)" if "set ns \<subseteq> {..<n}" for ns
    using that by (induction ns) (use assms(3) in simp_all)
  ultimately show ?thesis unfolding on_ranks_def by force
qed

text \<open>The documented result of an all-reduce with the sum: every rank gets the sum of the tensors.\<close>

definition sum_rows :: "'a::field rows list \<Rightarrow> 'a rows" where
  "sum_rows ys = map (\<lambda>t. map (\<lambda>j. \<Sum>y\<leftarrow>ys. y ! t ! j) [0..<length (hd ys ! t)]) [0..<length (hd ys)]"

definition adds_up :: "('a::field rows list \<Rightarrow> 'a rows list) \<Rightarrow> bool" where
  "adds_up reduce \<longleftrightarrow> (\<forall>ys. ys \<noteq> [] \<and> (\<forall>y\<in>set ys. map length y = map length (hd ys)) \<longrightarrow>
     reduce ys = replicate (length ys) (sum_rows ys))"

lemma sum_list_upt: "(\<Sum>r\<leftarrow>[0..<n]. f r) = (\<Sum>r<n. f r :: 'a::comm_monoid_add)"
  by (induction n) (simp_all add: add.commute)

lemma all_reduce_partials:
  assumes red: "adds_up reduce" and tp: "0 < tp"
    and len: "\<And>r row. r < tp \<Longrightarrow> row \<in> set X \<Longrightarrow> length (G r row) = n"
    and F: "\<And>row. row \<in> set X \<Longrightarrow> F row = map (\<lambda>j. \<Sum>r<tp. G r row ! j) [0..<n]"
  shows "group_all_reduce reduce (map (\<lambda>r. map (G r) X) [0..<tp]) = replicate tp (map F X)"
proof (cases "tp = 1")
  case True
  have "map (G 0) X = map F X"
  proof (rule map_cong [OF refl])
    fix row
    assume row: "row \<in> set X"
    then have "length (G 0 row) = n" using len [of 0] tp by simp
    then show "G 0 row = F row" unfolding F [OF row] True by (auto intro!: nth_equalityI)
  qed
  then show ?thesis using True by (simp add: group_all_reduce_def)
next
  case False
  let ?ys = "map (\<lambda>r. map (G r) X) [0..<tp]"
  have h: "hd ?ys = map (G 0) X" using tp by (simp add: upt_conv_Cons)
  have "map length (map (G r) X) = map (\<lambda>_. n) X" if "r < tp" for r using len [OF that] by simp
  then have "\<forall>y\<in>set ?ys. map length y = map length (hd ?ys)" unfolding h using tp by auto
  moreover have "?ys \<noteq> []" using tp by simp
  ultimately have "reduce ?ys = replicate (length ?ys) (sum_rows ?ys)" by (intro red [unfolded adds_up_def, rule_format] conjI)
  moreover have "sum_rows ?ys = map F X"
  proof (rule nth_equalityI)
    fix t
    assume "t < length (sum_rows ?ys)"
    then have t: "t < length X" by (simp add: sum_rows_def h)
    then show "sum_rows ?ys ! t = map F X ! t"
      using len [OF tp] F [of "X ! t"] by (simp add: sum_rows_def h o_def sum_list_upt del: upt_Suc)
  qed (simp add: sum_rows_def h)
  ultimately show ?thesis using False tp by (simp add: group_all_reduce_def)
qed

section \<open>Row-parallel layers\<close>

lemma sum_blocks:
  fixes g :: "nat \<Rightarrow> 'a::comm_monoid_add"
  shows "(\<Sum>r<tp. \<Sum>k<m. g (r * m + k)) = (\<Sum>k<tp * m. g k)"
proof -
  have "(\<Sum>k<m. g (r * m + k)) = sum g {r * m..<r * m + m}" for r
    using sum.shift_bounds_nat_ivl [of g 0 "r * m" m] by (simp add: add.commute lessThan_atLeast0)
  then show ?thesis using sum.nat_group [of g m tp] by simp
qed

definition row_shards :: "nat \<Rightarrow> nat \<Rightarrow> 'a tensor \<Rightarrow> (nat \<Rightarrow> 'a tensor) \<Rightarrow> bool" where
  "row_shards tp m W S \<longleftrightarrow> dims W = 2 \<and> sizes W ! 1 = tp * m \<and>
     (\<forall>r<tp. sizes (S r) = [sizes W ! 0, m] \<and> (\<forall>j<(sizes W ! 0). \<forall>k<m. elem (S r) [j, k] = elem W [j, r * m + k]))"

lemma linear_row_length [simp]: "length (linear_row w b row) = sizes w ! 0"
  by (simp add: linear_row_def)

lemma linear_ok: "dims w = 2 \<Longrightarrow> \<forall>row\<in>set x. length row = sizes w ! 1 \<Longrightarrow> linear w b x = Inr (map (linear_row w b) x)"
  by (simp add: linear_def list_all_iff)

lemma row_parallel_sum:
  assumes "row_shards tp m W S" "length row = tp * m"
  shows "linear_row W None row = map (\<lambda>j. \<Sum>r<tp. linear_row (S r) None (tslice (r * m) (r * m + m) row) ! j) [0..<sizes W ! 0]"
proof (rule nth_equalityI)
  fix j
  assume "j < length (linear_row W None row)"
  then have j: "j < sizes W ! 0" by simp
  have "linear_row (S r) None (tslice (r * m) (r * m + m) row) ! j = (\<Sum>k<m. row ! (r * m + k) * elem W [j, r * m + k])"
    if r: "r < tp" for r
  proof -
    have "r * m + m \<le> tp * m" using mult_le_mono1 [of "Suc r" tp m] r by simp
    then have "tslice (r * m) (r * m + m) row ! k = row ! (r * m + k)" if "k < m" for k
      using that assms(2) by (simp add: nth_tslice)
    then show ?thesis using assms(1) r j by (simp add: linear_row_def row_shards_def)
  qed
  then have "(\<Sum>r<tp. linear_row (S r) None (tslice (r * m) (r * m + m) row) ! j) = (\<Sum>r<tp. \<Sum>k<m. row ! (r * m + k) * elem W [j, r * m + k])"
    by simp
  also have "\<dots> = (\<Sum>k<tp * m. row ! k * elem W [j, k])" by (rule sum_blocks)
  finally show "linear_row W None row ! j =
      map (\<lambda>j. \<Sum>r<tp. linear_row (S r) None (tslice (r * m) (r * m + m) row) ! j) [0..<sizes W ! 0] ! j"
    using j assms(1) by (simp add: linear_row_def row_shards_def)
qed simp

lemma row_parallel_ok:
  assumes red: "adds_up reduce" and tp: "0 < tp" "length ls = tp"
    and sh: "row_shards tp m W (\<lambda>r. weight (ls ! r))" and b: "\<And>r. r < tp \<Longrightarrow> bias (ls ! r) = None"
    and f: "\<And>row. row \<in> set X \<Longrightarrow> length (f row) = tp * m"
    and g: "\<And>r row. r < tp \<Longrightarrow> row \<in> set X \<Longrightarrow> g r row = tslice (r * m) (r * m + m) (f row)"
  shows "row_parallel_forward reduce ls (map (\<lambda>r. map (g r) X) [0..<tp]) = Inr (replicate tp (map (\<lambda>row. linear_row W None (f row)) X))"
proof -
  have len: "length (g r row) = m" if "r < tp" "row \<in> set X" for r row
  proof -
    have "r * m + m \<le> tp * m" using mult_le_mono1 [of "Suc r" tp m] that(1) by simp
    then show ?thesis using g [OF that] f [OF that(2)] by simp
  qed
  have S: "sizes (weight (ls ! r)) = [sizes W ! 0, m]" if "r < tp" for r using sh that by (simp add: row_shards_def)
  have "on_ranks linear_forward ls (map (\<lambda>r. map (g r) X) [0..<tp]) =
      Inr (map (\<lambda>r. map (\<lambda>row. linear_row (weight (ls ! r)) None (g r row)) X) [0..<tp])"
  proof (rule on_ranks_ok [OF tp(2)])
    fix r
    assume r: "r < tp"
    show "linear_forward (ls ! r) (map (\<lambda>r. map (g r) X) [0..<tp] ! r) =
        Inr (map (\<lambda>row. linear_row (weight (ls ! r)) None (g r row)) X)"
      using S [OF r] b [OF r] len [OF r] r by (simp add: linear_forward_def linear_ok dims_def o_def)
  qed simp
  moreover have "group_all_reduce reduce (map (\<lambda>r. map (\<lambda>row. linear_row (weight (ls ! r)) None (g r row)) X) [0..<tp]) =
      replicate tp (map (\<lambda>row. linear_row W None (f row)) X)"
  proof (rule all_reduce_partials [OF red tp(1)])
    fix row
    assume row: "row \<in> set X"
    show "linear_row W None (f row) = map (\<lambda>j. \<Sum>r<tp. linear_row (weight (ls ! r)) None (g r row) ! j) [0..<sizes W ! 0]"
      using row_parallel_sum [OF sh f [OF row]] g [OF _ row] by simp
  qed (simp add: S)
  ultimately show ?thesis by (simp add: row_parallel_forward_def)
qed

section \<open>Loaded layers\<close>

text \<open>
  The layer that \<open>l0\<close> becomes when the loader copies the part of \<open>W\<close> for rank \<open>r\<close> of \<open>tp\<close> into its weight,
  for a parameter whose name is of a kind that the loader tells apart.
\<close>

definition linear_loaded ::
  "(string \<Rightarrow> bool) \<Rightarrow> model_config \<Rightarrow> nat \<Rightarrow> nat \<Rightarrow> 'a tensor \<Rightarrow> 'a linear_layer \<Rightarrow> 'a linear_layer \<Rightarrow> bool" where
  "linear_loaded kind c tp r W l0 l \<longleftrightarrow> (\<exists>name T. kind name \<and>
     shard_tensor_for_parameter name W (sizes (weight l0)) r tp (Some c) = Inr T \<and>
     sizes T = sizes (weight l0) \<and> l = l0\<lparr>weight := T\<rparr>)"

definition gate_up_kind :: "string \<Rightarrow> bool" where
  "gate_up_kind n \<longleftrightarrow> is_gate_up_or_col_weight n \<and> \<not> is_qkv_weight n"

definition row_kind :: "string \<Rightarrow> bool" where
  "row_kind n \<longleftrightarrow> is_row_parallel_weight n \<and> \<not> is_qkv_weight n \<and> \<not> is_gate_up_or_col_weight n \<and> \<not> is_vocab_parallel_weight n"

lemma div_less: "1 < tp \<Longrightarrow> 0 < n \<Longrightarrow> n div tp < (n :: nat)"
  by simp

lemma row_loaded:
  assumes ld: "linear_loaded row_kind c tp r W l0 l" and sz: "sizes W = [out, n]" "sizes (weight l0) = [out, n div tp]"
    and tp: "tp dvd n" "0 < n" "r < tp"
  shows "sizes (weight l) = [out, n div tp]" "bias l = bias l0" "elem (weight l) [j, k] = elem W [j, r * (n div tp) + k]"
proof -
  obtain name T where T: "row_kind name" "shard_tensor_for_parameter name W [out, n div tp] r tp (Some c) = Inr T"
    "sizes T = [out, n div tp]" "l = l0\<lparr>weight := T\<rparr>"
    using ld unfolding linear_loaded_def sz(2) by blast
  show "sizes (weight l) = [out, n div tp]" "bias l = bias l0" using T(3,4) by simp_all
  show "elem (weight l) [j, k] = elem W [j, r * (n div tp) + k]"
  proof (cases "tp = 1")
    case True
    then show ?thesis using T(2,4) tp(3) by (simp add: shard_tensor_for_parameter_def)
  next
    case False
    then have "1 < tp" using tp(3) by linarith
    then have "n div tp < n" using tp(2) by (rule div_less)
    then have "n div tp \<noteq> n" by simp
    moreover have "dims W = 2" by (simp add: dims_def sz)
    ultimately have "slice_dim W 1 r tp = Inr T"
      using T(1,2) False sz by (simp add: shard_tensor_for_parameter_def row_kind_def)
    moreover have "n mod tp = 0" using tp(1) by simp
    moreover have "narrow 1 (r * (n div tp)) (n div tp) W =
        Inr \<lparr>sizes = [out, n div tp], elem = (\<lambda>ix. elem W (ix[1 := ix ! 1 + r * (n div tp)]))\<rparr>"
      using narrow_ok [of 1 W "r * (n div tp)" "n div tp"] block_fits [OF tp(3), of n] sz by (simp add: dims_def)
    ultimately have "T = \<lparr>sizes = [out, n div tp], elem = (\<lambda>ix. elem W (ix[1 := ix ! 1 + r * (n div tp)]))\<rparr>"
      using sz by (simp add: slice_dim_def dims_def Let_def)
    then have "elem (weight l) [j, k] = elem W [j, k + r * (n div tp)]" using T(4) by simp
    then show ?thesis by (simp only: add.commute)
  qed
qed

definition gate_up_row :: "nat \<Rightarrow> nat \<Rightarrow> nat \<Rightarrow> nat \<Rightarrow> nat" where
  "gate_up_row n tp r i = (if i < n div tp then r * (n div tp) + i else n + r * (n div tp) + (i - n div tp))"

lemma gate_up_loaded:
  assumes ld: "linear_loaded gate_up_kind c tp r W l0 l"
    and sz: "sizes W = [2 * n, h]" "sizes (weight l0) = [2 * (n div tp), h]"
    and tp: "tp dvd n" "0 < n" "r < tp"
  shows "sizes (weight l) = [2 * (n div tp), h]" "bias l = bias l0"
    "i < 2 * (n div tp) \<Longrightarrow> elem (weight l) [i, k] = elem W [gate_up_row n tp r i, k]"
proof -
  obtain name T where T: "gate_up_kind name" "shard_tensor_for_parameter name W [2 * (n div tp), h] r tp (Some c) = Inr T"
    "sizes T = [2 * (n div tp), h]" "l = l0\<lparr>weight := T\<rparr>"
    using ld unfolding linear_loaded_def sz(2) by blast
  show "sizes (weight l) = [2 * (n div tp), h]" "bias l = bias l0" using T(3,4) by simp_all
  assume i: "i < 2 * (n div tp)"
  show "elem (weight l) [i, k] = elem W [gate_up_row n tp r i, k]"
  proof (cases "tp = 1")
    case True
    then have "W = T" using T(2) by (simp add: shard_tensor_for_parameter_def)
    then show ?thesis using T(4) tp(3) True by (simp add: gate_up_row_def)
  next
    case False
    then have "1 < tp" using tp(3) by linarith
    then have "n div tp < n" using tp(2) by (rule div_less)
    then have "n div tp \<noteq> n" by simp
    moreover have "dims W = 2" by (simp add: dims_def sz)
    ultimately have "shard_gate_up_2d W [2 * (n div tp), h] r tp = Inr T"
      using T(1,2) False sz by (simp add: shard_tensor_for_parameter_def gate_up_kind_def)
    moreover have "n mod tp = 0" using tp(1) by simp
    moreover have "r * (n div tp) + n div tp \<le> n" by (rule block_fits [OF tp(3)])
    ultimately show ?thesis
      using T(4) sz i \<open>n div tp \<noteq> n\<close>
      by (auto simp: shard_gate_up_2d_def dims_def narrow_def cat2_def res_simps Let_def gate_up_row_def add_ac)
  qed
qed

section \<open>The gated network\<close>

definition mlp_params ::
  "model_config \<Rightarrow> 'a tensor \<Rightarrow> 'a tensor \<Rightarrow> nat \<Rightarrow> nat \<Rightarrow> 'a gated_mlp \<Rightarrow> 'a gated_mlp \<Rightarrow> bool" where
  "mlp_params c Wg Wd tp r m0 m \<longleftrightarrow> (\<exists>gu dn.
     linear_loaded gate_up_kind c tp r Wg (gate_up_proj m0) gu \<and> linear_loaded row_kind c tp r Wd (down_proj m0) dn \<and>
     m = m0\<lparr>gate_up_proj := gu, down_proj := dn\<rparr>)"

definition mlp_loaded :: "model_config \<Rightarrow> 'a tensor \<Rightarrow> 'a tensor \<Rightarrow> nat \<Rightarrow> nat \<Rightarrow> 'a gated_mlp \<Rightarrow> bool" where
  "mlp_loaded c Wg Wd tp r m \<longleftrightarrow> (\<exists>junk m0. gated_mlp_init junk (int tp) c = Inr m0 \<and> mlp_params c Wg Wd tp r m0 m)"

text \<open>What FlashInfer documents of \<open>act_and_mul\<close>.\<close>

definition act_halves :: "'a::field layer_ops \<Rightarrow> bool" where
  "act_halves ops \<longleftrightarrow> (\<forall>f g u. length g = length u \<longrightarrow> act_and_mul ops f (g @ u) = map2 (\<lambda>a b. f a * b) g u)"

lemma mlp_loaded_facts:
  assumes ld: "mlp_loaded c Wg Wd tp r m" and r: "r < tp"
    and n: "n = nat (intermediate_size c)" "0 < n" and h: "h = nat (hidden_size c)"
    and W: "sizes Wg = [2 * n, h]" "sizes Wd = [h, n]"
  shows "tp dvd n" "mlp_act m = hidden_act c"
    "sizes (weight (gate_up_proj m)) = [2 * (n div tp), h]" "bias (gate_up_proj m) = None"
    "\<And>i k. i < 2 * (n div tp) \<Longrightarrow> elem (weight (gate_up_proj m)) [i, k] = elem Wg [gate_up_row n tp r i, k]"
    "sizes (weight (down_proj m)) = [h, n div tp]" "bias (down_proj m) = None"
    "\<And>j k. elem (weight (down_proj m)) [j, k] = elem Wd [j, r * (n div tp) + k]"
proof -
  obtain junk m0 gu dn where i: "gated_mlp_init junk (int tp) c = Inr m0"
    and gu: "linear_loaded gate_up_kind c tp r Wg (gate_up_proj m0) gu" and dn: "linear_loaded row_kind c tp r Wd (down_proj m0) dn"
    and m: "m = m0\<lparr>gate_up_proj := gu, down_proj := dn\<rparr>"
    using ld unfolding mlp_loaded_def mlp_params_def by blast
  have pos: "intermediate_size c = int n" using n by simp
  obtain li where "divide_even (intermediate_size c) (int tp) ''LinearRowParallel input size'' = Inr li"
    using i by (auto simp: gated_mlp_init_def linear_row_parallel_def res_simps)
  then have "int n = li * int tp" using pos by (simp add: divide_even_Inr)
  then show d: "tp dvd n" by (metis dvd_triv_right int_dvd_int_iff)
  obtain q where q: "n = tp * q" using d by (elim dvdE)
  have tp: "0 < tp" using r by simp
  have e: "(int n + int n) sdiv int tp = 2 * int q" using tp by (simp add: q sdiv_nonneg)
  have m0: "sizes (weight (gate_up_proj m0)) = [2 * (n div tp), h]" "bias (gate_up_proj m0) = None"
    "sizes (weight (down_proj m0)) = [h, n div tp]" "bias (down_proj m0) = None" "mlp_act m0 = hidden_act c"
    using i pos h tp e
    by (auto simp: gated_mlp_init_def linear_row_parallel_def linear_col_parallel_merged_def linear_base_def Let_def
        res_simps divide_even_Inr q nat_mult_distrib)
  note g = gate_up_loaded [OF gu W(1) m0(1) d n(2) r] and w = row_loaded [OF dn W(2) m0(3) d n(2) r]
  show "mlp_act m = hidden_act c" "sizes (weight (gate_up_proj m)) = [2 * (n div tp), h]" "bias (gate_up_proj m) = None"
    "\<And>i k. i < 2 * (n div tp) \<Longrightarrow> elem (weight (gate_up_proj m)) [i, k] = elem Wg [gate_up_row n tp r i, k]"
    "sizes (weight (down_proj m)) = [h, n div tp]" "bias (down_proj m) = None"
    "\<And>j k. elem (weight (down_proj m)) [j, k] = elem Wd [j, r * (n div tp) + k]"
    using g w m m0 by simp_all
qed

definition gate_fun :: "'a layer_ops \<Rightarrow> string \<Rightarrow> 'a \<Rightarrow> 'a::field" where
  "gate_fun ops act = (if act = ''silu'' then d_silu (expf ops) else d_gelu (tanhf ops))"

definition known_act :: "string \<Rightarrow> bool" where
  "known_act act \<longleftrightarrow> act = ''silu'' \<or> act = ''gelu''"

text \<open>One row of the network with the whole weights.\<close>

definition gated_row :: "'a::field layer_ops \<Rightarrow> string \<Rightarrow> 'a tensor \<Rightarrow> 'a tensor \<Rightarrow> 'a list \<Rightarrow> 'a list" where
  "gated_row ops act Wg Wd row = linear_row Wd None (act_and_mul ops (gate_fun ops act) (linear_row Wg None row))"

lemma gate_up_slices:
  fixes n tp :: nat
  assumes "tp dvd n" "r < tp" "i < n div tp"
  shows "gate_up_row n tp r i = r * (n div tp) + i" "gate_up_row n tp r (n div tp + i) = n + (r * (n div tp) + i)"
  using assms by (simp_all add: gate_up_row_def)

text \<open>The activation of a row \<open>gate | up\<close>; a rank's part of it comes from the rank's rows of the projection.\<close>

definition halves :: "('a \<Rightarrow> 'a) \<Rightarrow> 'a list \<Rightarrow> 'a::field list" where
  "halves f row = map (\<lambda>i. f (row ! i) * row ! (length row div 2 + i)) [0..<length row div 2]"

lemma length_halves [simp]: "length (halves f row) = length row div 2"
  by (simp add: halves_def)

lemma act_row:
  assumes "act_halves ops" "length row = 2 * n"
  shows "act_and_mul ops f row = halves f row"
proof -
  have "act_and_mul ops f (take n row @ drop n row) = map2 (\<lambda>a b. f a * b) (take n row) (drop n row)"
    using assms by (intro assms(1) [unfolded act_halves_def, rule_format]) simp
  also have "\<dots> = halves f row" by (rule nth_equalityI) (use assms(2) in \<open>simp_all add: halves_def\<close>)
  finally show ?thesis by simp
qed

lemma halves_slice:
  fixes F :: "'a::field tensor" and n tp :: nat
  assumes sz: "sizes W = [2 * (n div tp), h]" "sizes F = [2 * n, h]"
    and e: "\<And>i k. i < 2 * (n div tp) \<Longrightarrow> elem W [i, k] = elem F [gate_up_row n tp r i, k]" and tp: "tp dvd n" "r < tp"
  defines "m \<equiv> n div tp"
  shows "halves f (linear_row W None row) = tslice (r * m) (r * m + m) (halves f (linear_row F None row))"
proof -
  let ?g = "linear_row W None row" and ?G = "linear_row F None row"
  have fit: "r * m + m \<le> n" using block_fits [OF tp(2)] by (simp add: m_def)
  have "?g ! i = ?G ! (r * m + i)" "?g ! (m + i) = ?G ! (n + (r * m + i))" if i: "i < m" for i
    using sz e gate_up_slices [OF tp i [unfolded m_def]] i fit by (simp_all add: linear_row_def m_def)
  then show ?thesis
    by (intro nth_equalityI) (use fit sz in \<open>simp_all add: halves_def nth_tslice m_def\<close>)
qed

lemma gated_mlp_group:
  fixes ops :: "'a::field layer_ops"
  assumes red: "adds_up reduce" and ops: "act_halves ops" and act: "known_act (hidden_act c)"
    and tp: "0 < tp" "length ms = tp" and ld: "\<And>r. r < tp \<Longrightarrow> mlp_loaded c Wg Wd tp r (ms ! r)"
    and n: "n = nat (intermediate_size c)" "0 < n" and h: "h = nat (hidden_size c)"
    and W: "sizes Wg = [2 * n, h]" "sizes Wd = [h, n]" and X: "\<forall>row\<in>set X. length row = h" "X \<noteq> []" and wide: "8 * tp \<le> n"
  shows "gated_mlp_forward reduce ops ms (replicate tp X) = Inr (replicate tp (map (gated_row ops (hidden_act c) Wg Wd) X))"
proof -
  let ?m = "n div tp" and ?f = "gate_fun ops (hidden_act c)"
  note facts = mlp_loaded_facts [OF ld _ n h W]
  have d: "tp dvd n" using facts(1) [OF tp(1) tp(1)] .
  then have nm: "tp * ?m = n" by simp
  have "tp * 8 \<le> tp * ?m" using wide nm by simp
  then have m8: "8 \<le> ?m" using tp(1) by simp
  have act: "gated_act ops (mlp_act (ms ! r)) gu = Inr (map (act_and_mul ops ?f) gu)"
    if "r < tp" "gu \<noteq> []" "length (hd gu) = 2 * ?m" for r gu
    using facts(2) [OF that(1) that(1)] act that(2,3) m8
    by (auto simp: gated_act_def gate_fun_def known_act_def silu_and_mul_def gelu_and_mul_def act_launch_def act_num_threads_def)
  have "on_ranks (\<lambda>m x. res_bind (linear_forward (gate_up_proj m) x) (gated_act ops (mlp_act m))) ms (replicate tp X) =
      Inr (map (\<lambda>r. map (\<lambda>row. act_and_mul ops ?f (linear_row (weight (gate_up_proj (ms ! r))) None row)) X) [0..<tp])"
  proof (rule on_ranks_ok [OF tp(2)])
    fix r
    assume r: "r < tp"
    have "linear_forward (gate_up_proj (ms ! r)) X = Inr (map (linear_row (weight (gate_up_proj (ms ! r))) None) X)"
      using facts(3,4) [OF r r] X by (simp add: linear_forward_def linear_ok dims_def)
    then show "res_bind (linear_forward (gate_up_proj (ms ! r)) (replicate tp X ! r)) (gated_act ops (mlp_act (ms ! r))) =
        Inr (map (\<lambda>row. act_and_mul ops ?f (linear_row (weight (gate_up_proj (ms ! r))) None row)) X)"
      using r act [OF r, of "map (linear_row (weight (gate_up_proj (ms ! r))) None) X"] X(2) facts(3) [OF r r] by (simp add: o_def hd_map)
  qed simp
  moreover have "row_parallel_forward reduce (map down_proj ms)
      (map (\<lambda>r. map (\<lambda>row. act_and_mul ops ?f (linear_row (weight (gate_up_proj (ms ! r))) None row)) X) [0..<tp]) =
      Inr (replicate tp (map (\<lambda>row. linear_row Wd None (act_and_mul ops ?f (linear_row Wg None row))) X))"
  proof (rule row_parallel_ok [OF red tp(1), where m = ?m])
    show "length (map down_proj ms) = tp" using tp(2) by simp
    show "row_shards tp ?m Wd (\<lambda>r. weight (map down_proj ms ! r))"
      using facts(6,8) tp(2) W(2) nm by (simp add: row_shards_def dims_def)
    show "bias (map down_proj ms ! r) = None" if "r < tp" for r using facts(7) [OF that that] tp(2) that by simp
    have full: "act_and_mul ops ?f (linear_row Wg None row) = halves ?f (linear_row Wg None row)" for row
      by (rule act_row [OF ops]) (simp add: W(1))
    show "length (act_and_mul ops ?f (linear_row Wg None row)) = tp * ?m" for row
      unfolding full using W(1) nm by simp
    fix r row
    assume r: "r < tp"
    have "act_and_mul ops ?f (linear_row (weight (gate_up_proj (ms ! r))) None row) = halves ?f (linear_row (weight (gate_up_proj (ms ! r))) None row)"
      by (rule act_row [OF ops]) (simp add: facts(3) [OF r r])
    then show "act_and_mul ops ?f (linear_row (weight (gate_up_proj (ms ! r))) None row) =
        tslice (r * ?m) (r * ?m + ?m) (act_and_mul ops ?f (linear_row Wg None row))"
      unfolding full using halves_slice [OF facts(3) [OF r r] W(1) facts(5) [OF r r] d r] by simp
  qed
  ultimately show ?thesis by (simp add: gated_mlp_forward_def gated_row_def)
qed

end
