(* ===== verification/HeadProps.thy ===== *)
theory HeadProps
  imports LayerProps
begin

text \<open>
  Attention on a group of ranks: each rank has the heads that its rows of the merged projection hold,
  and the output projection adds up what they contribute.
\<close>

section \<open>Heads of slices\<close>

lemma concat_slice:
  assumes "\<And>h. h < N \<Longrightarrow> length (B h) = d" "a + n \<le> N"
  shows "tslice (a * d) (a * d + n * d) (concat (map B [0..<N])) = concat (map (\<lambda>h. B (a + h)) [0..<n])"
proof -
  have len: "length (concat (map B [x..<y])) = (y - x) * d" if "y \<le> N" for x y
  proof -
    have "map length (map B [x..<y]) = map (\<lambda>_. d) [x..<y]" using that assms(1) by simp
    then show ?thesis unfolding length_concat by (simp only: sum_list_triv length_upt of_nat_id)
  qed
  have "[0..<N] = [0..<a] @ [a..<a + n] @ [a + n..<N]"
    using upt_add_eq_append [of 0 a "N - a"] upt_add_eq_append [of a "a + n" "N - (a + n)"] assms(2) by simp
  then have "concat (map B [0..<N]) = concat (map B [0..<a]) @ concat (map B [a..<a + n]) @ concat (map B [a + n..<N])"
    by simp
  moreover have "map B [a..<a + n] = map (\<lambda>h. B (a + h)) [0..<n]"
    by (rule nth_equalityI) simp_all
  moreover have "length (concat (map B [0..<a])) = a * d" "length (concat (map B [a..<a + n])) = n * d"
    using len [of a 0] len [of "a + n" a] assms(2) by simp_all
  ultimately show ?thesis by (simp add: tslice_def)
qed

lemma block_le: "h < N \<Longrightarrow> h * d + d \<le> N * (d :: nat)"
  using mult_le_mono1 [of "Suc h" N d] by simp

lemma heads_slice:
  assumes "length z = N * d" "a + n \<le> N" "h < n"
  shows "heads_of n d (tslice (a * d) (a * d + n * d) z) ! h = heads_of N d z ! (a + h)"
proof -
  have 1: "h * d + d \<le> n * d" "(a + h) * d + d \<le> N * d" using assms(2,3) by (auto intro!: block_le)
  have 2: "a * d + n * d \<le> N * d" using mult_le_mono1 [OF assms(2), of d] by (simp add: add_mult_distrib)
  show ?thesis
  proof (rule nth_equalityI)
    show "length (heads_of n d (tslice (a * d) (a * d + n * d) z) ! h) = length (heads_of N d z ! (a + h))"
      using assms 1 2 by (simp add: heads_of_def)
    fix i
    assume "i < length (heads_of n d (tslice (a * d) (a * d + n * d) z) ! h)"
    then have i: "i < d" using assms 1 2 by (simp add: heads_of_def)
    then show "heads_of n d (tslice (a * d) (a * d + n * d) z) ! h ! i = heads_of N d z ! (a + h) ! i"
      using assms 1 2 by (simp add: heads_of_def nth_tslice add_mult_distrib add_ac)
  qed
qed

lemma length_heads [simp]: "length (heads_of n d row) = n"
  by (simp add: heads_of_def)

lemma length_head: "length z = N * d \<Longrightarrow> h < N \<Longrightarrow> length (heads_of N d z ! h) = d"
  using block_le [of h N d] by (simp add: heads_of_def)

lemma on_heads_map: "on_heads n d f row = concat (map (\<lambda>h. f (heads_of n d row ! h)) [0..<n])"
  unfolding on_heads_def by (rule arg_cong [of _ _ concat], rule nth_equalityI) (simp_all add: heads_of_def)

lemma length_on_heads:
  assumes "length z = N * d" "\<And>x. length x = d \<Longrightarrow> length (f x) = d"
  shows "length (on_heads N d f z) = N * d"
proof -
  have "map length (map (\<lambda>h. f (heads_of N d z ! h)) [0..<N]) = map (\<lambda>_. d) [0..<N]"
    using assms(2) length_head [OF assms(1)] by simp
  then show ?thesis unfolding on_heads_map length_concat by (simp only: sum_list_triv length_upt of_nat_id minus_nat.diff_0)
qed

lemma on_heads_slice:
  assumes "length z = N * d" "a + n \<le> N" "\<And>x. length x = d \<Longrightarrow> length (f x) = d"
  shows "on_heads n d f (tslice (a * d) (a * d + n * d) z) = tslice (a * d) (a * d + n * d) (on_heads N d f z)"
proof -
  have "on_heads n d f (tslice (a * d) (a * d + n * d) z) = concat (map (\<lambda>h. f (heads_of N d z ! (a + h))) [0..<n])"
    unfolding on_heads_map using heads_slice [OF assms(1,2)] by (intro arg_cong [of _ _ concat] map_cong) simp_all
  also have "\<dots> = tslice (a * d) (a * d + n * d) (on_heads N d f z)"
    unfolding on_heads_map by (rule concat_slice [symmetric]) (use assms(2,3) length_head [OF assms(1)] in simp_all)
  finally show ?thesis .
qed

section \<open>The parts of the merged projection\<close>

lemma slice_eqI:
  assumes "length xs = n" "a + n \<le> length ys" "\<And>i. i < n \<Longrightarrow> xs ! i = ys ! (a + i)"
  shows "xs = tslice a (a + n) ys"
  by (rule nth_equalityI) (use assms in \<open>simp_all add: nth_tslice\<close>)

lemma qkv_parts:
  fixes Q K tp :: nat
  assumes d: "tp dvd Q" "tp dvd K" "r < tp" and len: "length L = Q div tp + 2 * (K div tp)" "length F = Q + 2 * K"
    and L: "\<And>i. i < Q div tp + 2 * (K div tp) \<Longrightarrow> L ! i = F ! qkv_row Q K tp r i"
  defines "q \<equiv> Q div tp" and "k \<equiv> K div tp"
  shows "take q L = tslice (r * q) (r * q + q) (take Q F)"
    "take k (drop q L) = tslice (r * k) (r * k + k) (take K (drop Q F))"
    "take k (drop (q + k) L) = tslice (r * k) (r * k + k) (take K (drop (Q + K) F))"
proof -
  have fit: "r * q + q \<le> Q" "r * k + k \<le> K" using block_fits [OF d(3)] by (simp_all add: q_def k_def)
  show "take q L = tslice (r * q) (r * q + q) (take Q F)"
    by (rule slice_eqI) (use fit len L in \<open>simp_all add: q_def k_def qkv_row_def add.assoc\<close>)
  show "take k (drop q L) = tslice (r * k) (r * k + k) (take K (drop Q F))"
    by (rule slice_eqI) (use fit len L in \<open>simp_all add: q_def k_def qkv_row_def add.assoc\<close>)
  show "take k (drop (q + k) L) = tslice (r * k) (r * k + k) (take K (drop (Q + K) F))"
    by (rule slice_eqI) (use fit len L in \<open>simp_all add: q_def k_def qkv_row_def add.assoc\<close>)
qed

section \<open>Heads of the attention\<close>

text \<open>
  \<open>head_ops\<close>: normalization and rotation keep the length of a head. \<open>head_wise\<close> is what grouped-query attention
  computes, on the KV heads from \<open>kv0\<close> on: a head of the output depends on its query head and on the keys and values (those
  of the batch, and those that the layer has stored, inside \<open>ha\<close>) of its KV head.
\<close>

definition head_ops :: "nat \<Rightarrow> 'a layer_ops \<Rightarrow> bool" where
  "head_ops d ops \<longleftrightarrow> (\<forall>x. length x = d \<longrightarrow>
     (\<forall>p. length (rotate_head ops p x) = d) \<and> (\<forall>w. length (head_norm ops w x) = d))"

type_synonym 'a head_attn = "nat \<Rightarrow> 'a rows \<Rightarrow> 'a rows \<Rightarrow> nat \<Rightarrow> 'a list \<Rightarrow> 'a list"

definition attn_heads :: "'a head_attn \<Rightarrow> nat \<Rightarrow> nat \<Rightarrow> nat \<Rightarrow> nat \<Rightarrow> nat \<Rightarrow> 'a rows \<Rightarrow> 'a rows \<Rightarrow> 'a rows \<Rightarrow> nat \<Rightarrow> 'a list" where
  "attn_heads ha g kv0 nq nkv d Q K V t = concat (map (\<lambda>h.
     ha (kv0 + h div g) (map (\<lambda>row. heads_of nkv d row ! (h div g)) K) (map (\<lambda>row. heads_of nkv d row ! (h div g)) V) t
       (heads_of nq d (Q ! t) ! h)) [0..<nq])"

definition rows_of :: "nat \<Rightarrow> nat \<Rightarrow> 'a rows \<Rightarrow> bool" where
  "rows_of T n x \<longleftrightarrow> length x = T \<and> (\<forall>row\<in>set x. length row = n)"

definition head_wise :: "'a head_attn \<Rightarrow> nat \<Rightarrow> nat \<Rightarrow> nat \<Rightarrow> nat \<Rightarrow> ('a rows \<Rightarrow> 'a rows \<Rightarrow> 'a rows \<Rightarrow> 'a rows result) \<Rightarrow> bool" where
  "head_wise ha kv0 nq nkv d bk \<longleftrightarrow> (\<forall>T Q K V. rows_of T (nq * d) Q \<and> rows_of T (nkv * d) K \<and> rows_of T (nkv * d) V \<longrightarrow>
     bk Q K V = Inr (map (attn_heads ha (nq div nkv) kv0 nq nkv d Q K V) [0..<T]))"

definition keeps_heads :: "nat \<Rightarrow> 'a head_attn \<Rightarrow> bool" where
  "keeps_heads d ha \<longleftrightarrow> (\<forall>j K V t x. length x = d \<longrightarrow> length (ha j K V t x) = d)"

definition head_block :: "nat \<Rightarrow> nat \<Rightarrow> nat \<Rightarrow> 'a list \<Rightarrow> 'a list" where
  "head_block n d r row = tslice (r * n * d) (r * n * d + n * d) row"

lemma attn_heads_slice:
  assumes ha: "keeps_heads d ha" and n: "r < tp" "nq = nkv * g" "0 < g"
    and Q: "rows_of T (tp * nq * d) Q" "t < T" and KV: "rows_of T (tp * nkv * d) K" "rows_of T (tp * nkv * d) V"
  shows "attn_heads ha g (r * nkv) nq nkv d (map (head_block nq d r) Q) (map (head_block nkv d r) K) (map (head_block nkv d r) V) t =
    head_block nq d r (attn_heads ha g 0 (tp * nq) (tp * nkv) d Q K V t)"
proof -
  have fit: "r * m + m \<le> tp * m" for m using mult_le_mono1 [of "Suc r" tp m] n(1) by simp
  have q: "Q ! t \<in> set Q" "length (Q ! t) = tp * nq * d" "length Q = T" using Q by (simp_all add: rows_of_def)
  let ?B = "\<lambda>h. ha (h div g) (map (\<lambda>row. heads_of (tp * nkv) d row ! (h div g)) K) (map (\<lambda>row. heads_of (tp * nkv) d row ! (h div g)) V) t
     (heads_of (tp * nq) d (Q ! t) ! h)"
  have "head_block nq d r (attn_heads ha g 0 (tp * nq) (tp * nkv) d Q K V t) = concat (map (\<lambda>h. ?B (r * nq + h)) [0..<nq])"
    unfolding head_block_def attn_heads_def add_0
  proof (rule concat_slice [OF _ fit])
    show "length (?B h) = d" if "h < tp * nq" for h
      using ha [unfolded keeps_heads_def] length_head [OF q(2) that] by blast
  qed
  also have "\<dots> = attn_heads ha g (r * nkv) nq nkv d (map (head_block nq d r) Q) (map (head_block nkv d r) K) (map (head_block nkv d r) V) t"
    unfolding attn_heads_def
  proof (rule arg_cong [of _ _ concat], rule map_cong [OF refl])
    fix h
    assume "h \<in> set [0..<nq]"
    then have h: "h < nq" by simp
    have j: "h div g < nkv" using h n(2) by (simp add: less_mult_imp_div_less)
    have e: "(r * nq + h) div g = r * nkv + h div g" using n(2,3) by (simp add: mult.assoc [symmetric])
    have kv: "map (\<lambda>row. heads_of (tp * nkv) d row ! (r * nkv + h div g)) Z =
        map (\<lambda>row. heads_of nkv d row ! (h div g)) (map (head_block nkv d r) Z)" if "rows_of T (tp * nkv * d) Z" for Z :: "'a rows"
      using that by (simp add: rows_of_def head_block_def heads_slice [OF _ fit j])
    have "heads_of (tp * nq) d (Q ! t) ! (r * nq + h) = heads_of nq d (map (head_block nq d r) Q ! t) ! h"
      using heads_slice [OF q(2) fit h] q(3) Q(2) by (simp add: head_block_def)
    then show "?B (r * nq + h) = ha (r * nkv + h div g) (map (\<lambda>row. heads_of nkv d row ! (h div g)) (map (head_block nkv d r) K))
        (map (\<lambda>row. heads_of nkv d row ! (h div g)) (map (head_block nkv d r) V)) t (heads_of nq d (map (head_block nq d r) Q ! t) ! h)"
      unfolding e kv [OF KV(1)] kv [OF KV(2)] by simp
  qed
  finally show ?thesis by simp
qed

section \<open>Normalization and rotation\<close>

definition norm_heads :: "'a layer_ops \<Rightarrow> nat \<Rightarrow> nat \<Rightarrow> 'a list option \<Rightarrow> 'a list \<Rightarrow> 'a list" where
  "norm_heads ops n d w = (case w of Some w \<Rightarrow> on_heads n d (head_norm ops w) | None \<Rightarrow> id)"

definition prepare_rows :: "'a layer_ops \<Rightarrow> nat \<Rightarrow> nat \<Rightarrow> 'a list option \<Rightarrow> int list \<Rightarrow> 'a rows \<Rightarrow> 'a rows" where
  "prepare_rows ops n d w poss rows = map2 (\<lambda>pos row. on_heads n d (rotate_head ops pos) (norm_heads ops n d w row)) poss rows"

lemma norm_heads_slice:
  assumes "head_ops d ops" "length z = N * d" "a + n \<le> N"
  shows "norm_heads ops n d w (tslice (a * d) (a * d + n * d) z) = tslice (a * d) (a * d + n * d) (norm_heads ops N d w z)"
    "length (norm_heads ops N d w z) = N * d"
proof -
  note hn = assms(1) [unfolded head_ops_def, rule_format]
  show "norm_heads ops n d w (tslice (a * d) (a * d + n * d) z) = tslice (a * d) (a * d + n * d) (norm_heads ops N d w z)"
  proof (cases w)
    case (Some w')
    show ?thesis using on_heads_slice [OF assms(2,3), of "head_norm ops w'"] hn Some by (simp add: norm_heads_def)
  qed (simp add: norm_heads_def)
  show "length (norm_heads ops N d w z) = N * d"
  proof (cases w)
    case (Some w')
    show ?thesis using length_on_heads [OF assms(2), of "head_norm ops w'"] hn Some by (simp add: norm_heads_def)
  qed (simp add: norm_heads_def assms(2))
qed

lemma prepare_slice:
  assumes ops: "head_ops d ops" and Z: "rows_of T (tp * n * d) Z" and T: "length poss = T" and r: "r < tp"
  shows "prepare_rows ops n d w poss (map (head_block n d r) Z) = map (head_block n d r) (prepare_rows ops (tp * n) d w poss Z)"
    "rows_of T (tp * n * d) (prepare_rows ops (tp * n) d w poss Z)"
proof -
  note rot = ops [unfolded head_ops_def, rule_format]
  have fit: "r * n + n \<le> tp * n" using mult_le_mono1 [of "Suc r" tp n] r by simp
  have z: "length (Z ! t) = tp * n * d" if "t < T" for t using that Z by (simp add: rows_of_def)
  note nh = norm_heads_slice [OF ops z fit]
  show "rows_of T (tp * n * d) (prepare_rows ops (tp * n) d w poss Z)"
    using length_on_heads [OF nh(2)] rot T Z by (auto simp: prepare_rows_def rows_of_def in_set_conv_nth)
  show "prepare_rows ops n d w poss (map (head_block n d r) Z) = map (head_block n d r) (prepare_rows ops (tp * n) d w poss Z)"
  proof (rule nth_equalityI)
    fix t
    assume "t < length (prepare_rows ops n d w poss (map (head_block n d r) Z))"
    then have t: "t < T" using T Z by (simp add: prepare_rows_def rows_of_def)
    show "prepare_rows ops n d w poss (map (head_block n d r) Z) ! t = map (head_block n d r) (prepare_rows ops (tp * n) d w poss Z) ! t"
      using nh(1) [OF t, of w] on_heads_slice [OF nh(2) [OF t, of w] fit, of "rotate_head ops (poss ! t)"] rot t T Z
      by (simp add: prepare_rows_def rows_of_def head_block_def)
  qed (simp add: prepare_rows_def)
qed

lemma attention_layer_rows:
  assumes "head_wise ha kv0 nq nkv d bk" "head_ops d ops" "rows_of T ((nq + 2 * nkv) * d) qkv" "length poss = T"
    and a: "at_qo_heads a = nq" "at_kv_heads a = nkv" "at_head_dim a = d"
  shows "attention_layer_forward ops bk a poss qkv =
    Inr (map (attn_heads ha (nq div nkv) kv0 nq nkv d
      (prepare_rows ops nq d (q_norm a) poss (map (take (nq * d)) qkv))
      (prepare_rows ops nkv d (k_norm a) poss (map (\<lambda>row. take (nkv * d) (drop (nq * d) row)) qkv))
      (map (\<lambda>row. take (nkv * d) (drop (nq * d + nkv * d) row)) qkv)) [0..<T])"
proof -
  have len: "length row = nq * d + nkv * d + nkv * d" if "row \<in> set qkv" for row
    using assms(3) that by (simp add: rows_of_def add_mult_distrib)
  have q: "rows_of T (1 * nq * d) (map (take (nq * d)) qkv)" "rows_of T (1 * nkv * d) (map (\<lambda>row. take (nkv * d) (drop (nq * d) row)) qkv)"
    "rows_of T (nkv * d) (map (\<lambda>row. take (nkv * d) (drop (nq * d + nkv * d) row)) qkv)"
    using assms(3) len by (auto simp: rows_of_def)
  note p = prepare_slice(2) [OF assms(2) q(1) assms(4), of 0, simplified] prepare_slice(2) [OF assms(2) q(2) assms(4), of 0, simplified]
  have prep: "map2 (\<lambda>pos. on_heads n d (rotate_head ops pos)) poss (case w of Some w \<Rightarrow> map (on_heads n d (head_norm ops w)) z | None \<Rightarrow> z) =
      prepare_rows ops n d w poss z" for n w z
    by (cases w) (simp_all add: prepare_rows_def norm_heads_def zip_map2 case_prod_beta o_def)
  show ?thesis
    using assms(1) [unfolded head_wise_def, rule_format, OF conjI [OF p(1) conjI [OF p(2) q(3)]]] len
    unfolding attention_layer_forward_def Let_def a prep by (simp add: list_all_iff)
qed

end
