(* ===== verification/GroupProps.thy ===== *)
theory GroupProps
  imports HeadProps
begin

text \<open>
  The attention of a group of ranks, and then whole layers and models: what every rank ends up
  with is what one process computes.
\<close>

section \<open>Attention\<close>

lemma qkv_loaded:
  assumes ld: "linear_loaded is_qkv_weight c tp r W l0 l" and q: "qkv_shape c q kv" "tp dvd q" "tp dvd kv" "0 < q" "r < tp"
    and sz: "sizes W = [q + 2 * kv, h]" "sizes (weight l0) = [q div tp + 2 * (kv div tp), h]"
  shows "sizes (weight l) = [q div tp + 2 * (kv div tp), h]" "bias l = bias l0"
    "i < q div tp + 2 * (kv div tp) \<Longrightarrow> elem (weight l) [i, j] = elem W [qkv_row q kv tp r i, j]"
proof -
  obtain name T where T: "is_qkv_weight name"
    "shard_tensor_for_parameter name W [q div tp + 2 * (kv div tp), h] r tp (Some c) = Inr T"
    "sizes T = [q div tp + 2 * (kv div tp), h]" "l = l0\<lparr>weight := T\<rparr>"
    using ld unfolding linear_loaded_def sz(2) by blast
  show "sizes (weight l) = [q div tp + 2 * (kv div tp), h]" "bias l = bias l0" using T(3,4) by simp_all
  assume i: "i < q div tp + 2 * (kv div tp)"
  show "elem (weight l) [i, j] = elem W [qkv_row q kv tp r i, j]"
  proof (cases "tp = 1")
    case True
    then have "W = T" using T(2) by (simp add: shard_tensor_for_parameter_def)
    then show ?thesis using T(4) q(5) True by (simp add: qkv_row_def)
  next
    case False
    then have "1 < tp" using q(5) by linarith
    from qkv_shard_elem [OF q(1) this q(2-4) sz(1) T(1) q(5)] show ?thesis using T(2,4) i by auto
  qed
qed

definition attn_params ::
  "model_config \<Rightarrow> 'a tensor \<Rightarrow> 'a tensor \<Rightarrow> 'a list option \<Rightarrow> 'a list option \<Rightarrow> nat \<Rightarrow> nat \<Rightarrow> 'a rope_attn \<Rightarrow> 'a rope_attn \<Rightarrow> bool" where
  "attn_params c Wqkv Wo qn kn tp r a0 a \<longleftrightarrow> (\<exists>qkv op.
     linear_loaded is_qkv_weight c tp r Wqkv (qkv_proj a0) qkv \<and> linear_loaded row_kind c tp r Wo (o_proj a0) op \<and>
     (qn = None \<longleftrightarrow> q_norm a0 = None) \<and> (kn = None \<longleftrightarrow> k_norm a0 = None) \<and>
     a = a0\<lparr>qkv_proj := qkv, o_proj := op, q_norm := qn, k_norm := kn\<rparr>)"

definition attn_loaded ::
  "model_config \<Rightarrow> 'a::one tensor \<Rightarrow> 'a tensor \<Rightarrow> 'a list option \<Rightarrow> 'a list option \<Rightarrow> nat \<Rightarrow> nat \<Rightarrow> 'a rope_attn \<Rightarrow> bool" where
  "attn_loaded c Wqkv Wo qn kn tp r a \<longleftrightarrow>
     (\<exists>junk a0 qk. rope_attn_init junk (int tp) c False qk = Inr a0 \<and> attn_params c Wqkv Wo qn kn tp r a0 a)"

text \<open>The sizes that a checkpoint for \<open>c\<close> has; query heads come in whole groups.\<close>

definition attn_shape :: "model_config \<Rightarrow> nat \<Rightarrow> nat \<Rightarrow> nat \<Rightarrow> nat \<Rightarrow> bool" where
  "attn_shape c nq nk d h \<longleftrightarrow> num_qo_heads c = int nq \<and> num_kv_heads c = int nk \<and> head_dim c = int d \<and>
     hidden_size c = int h \<and> 0 < nq \<and> 0 < nk \<and> 0 < d \<and> nk dvd nq"

lemma attn_loaded_facts:
  assumes ld: "attn_loaded c Wqkv Wo qn kn tp r a" and r: "r < tp" and c: "attn_shape c nq nk d h"
    and W: "sizes Wqkv = [(nq + 2 * nk) * d, h]" "sizes Wo = [h, nq * d]"
  shows "tp dvd nq" "tp dvd nk" "at_qo_heads a = nq div tp" "at_kv_heads a = nk div tp" "at_head_dim a = d"
    "q_norm a = qn" "k_norm a = kn"
    "sizes (weight (qkv_proj a)) = [(nq div tp + 2 * (nk div tp)) * d, h]" "bias (qkv_proj a) = None"
    "\<And>i j. i < (nq div tp + 2 * (nk div tp)) * d \<Longrightarrow> elem (weight (qkv_proj a)) [i, j] = elem Wqkv [qkv_row (nq * d) (nk * d) tp r i, j]"
    "sizes (weight (o_proj a)) = [h, nq div tp * d]" "bias (o_proj a) = None"
    "\<And>j k. elem (weight (o_proj a)) [j, k] = elem Wo [j, r * (nq div tp * d) + k]"
proof -
  obtain junk a0 qk qkv op where i: "rope_attn_init junk (int tp) c False qk = Inr a0"
    and l: "linear_loaded is_qkv_weight c tp r Wqkv (qkv_proj a0) qkv" "linear_loaded row_kind c tp r Wo (o_proj a0) op"
    and a: "a = a0\<lparr>qkv_proj := qkv, o_proj := op, q_norm := qn, k_norm := kn\<rparr>"
    using ld unfolding attn_loaded_def attn_params_def by blast
  have cs: "num_qo_heads c = int nq" "num_kv_heads c = int nk" "head_dim c = int d" "hidden_size c = int h" "0 < nq" "0 < d"
    using c by (simp_all add: attn_shape_def)
  obtain lq lk where "divide_even (int nq) (int tp) ''num_qo_heads'' = Inr lq" "divide_even (int nk) (int tp) ''num_kv_heads'' = Inr lk"
    using i cs by (auto simp: rope_attn_init_def res_simps)
  then have "int nq = lq * int tp" "int nk = lk * int tp" by (simp_all add: divide_even_Inr)
  then show d: "tp dvd nq" "tp dvd nk" by (metis dvd_triv_right int_dvd_int_iff)+
  obtain x y where xy: "nq = tp * x" "nk = tp * y" using d by (elim dvdE)
  have tp: "0 < tp" using r by simp
  have e: "nq * d div tp = x * d" "nk * d div tp = y * d" "nq div tp = x" "nk div tp = y" using tp xy by simp_all
  have a0: "sizes (weight (qkv_proj a0)) = [nq * d div tp + 2 * (nk * d div tp), h]" "bias (qkv_proj a0) = None"
    "sizes (weight (o_proj a0)) = [h, nq * d div tp]" "bias (o_proj a0) = None"
    "at_qo_heads a0 = x" "at_kv_heads a0 = y" "at_head_dim a0 = d"
    using i tp cs unfolding e
    by (auto simp: rope_attn_init_def linear_qkv_merged_def linear_o_proj_def linear_base_def Let_def res_simps divide_even_Inr xy
        nat_mult_distrib nat_add_distrib add_mult_distrib)
  have q: "qkv_shape c (nq * d) (nk * d)" using cs by (simp add: qkv_shape_def)
  have dd: "tp dvd nq * d" "tp dvd nk * d" "0 < nq * d" using d cs by simp_all
  have W': "sizes Wqkv = [nq * d + 2 * (nk * d), h]" using W(1) by (simp add: add_mult_distrib)
  note qf = qkv_loaded [OF l(1) q dd r W' a0(1)] and w = row_loaded [OF l(2) W(2) a0(3) dd(1,3) r]
  show "at_qo_heads a = nq div tp" "at_kv_heads a = nk div tp" "at_head_dim a = d" "q_norm a = qn" "k_norm a = kn"
    using a a0 e by simp_all
  show "sizes (weight (qkv_proj a)) = [(nq div tp + 2 * (nk div tp)) * d, h]" "bias (qkv_proj a) = None"
    "sizes (weight (o_proj a)) = [h, nq div tp * d]" "bias (o_proj a) = None"
    using a a0 e qf(1,2) w(1,2) by (simp_all add: add_mult_distrib)
  show "elem (weight (qkv_proj a)) [i, j] = elem Wqkv [qkv_row (nq * d) (nk * d) tp r i, j]"
    if "i < (nq div tp + 2 * (nk div tp)) * d" for i j
    using qf(3) [of i j] that a e by (simp add: add_mult_distrib)
  show "elem (weight (o_proj a)) [j, k] = elem Wo [j, r * (nq div tp * d) + k]" for j k
    using w(3) [of j k] a e by simp
qed

text \<open>Attention with the whole weights.\<close>

definition attn_rows ::
  "'a::field layer_ops \<Rightarrow> 'a head_attn \<Rightarrow> nat \<Rightarrow> nat \<Rightarrow> nat \<Rightarrow> 'a tensor \<Rightarrow> 'a tensor \<Rightarrow> 'a list option \<Rightarrow> 'a list option \<Rightarrow>
   int list \<Rightarrow> 'a rows \<Rightarrow> 'a rows" where
  "attn_rows ops ha nq nk d Wqkv Wo qn kn poss X =
     (let F = map (linear_row Wqkv None) X;
          Q = prepare_rows ops nq d qn poss (map (take (nq * d)) F);
          K = prepare_rows ops nk d kn poss (map (\<lambda>row. take (nk * d) (drop (nq * d) row)) F);
          V = map (\<lambda>row. take (nk * d) (drop (nq * d + nk * d) row)) F in
      map (\<lambda>t. linear_row Wo None (attn_heads ha (nq div nk) 0 nq nk d Q K V t)) [0..<length X])"

lemma local_qkv:
  fixes Wqkv :: "'a::field tensor" and row
  assumes l: "sizes W = [(nq div tp + 2 * (nk div tp)) * d, h]" "sizes Wqkv = [(nq + 2 * nk) * d, h]"
    and e: "\<And>i j. i < (nq div tp + 2 * (nk div tp)) * d \<Longrightarrow> elem W [i, j] = elem Wqkv [qkv_row (nq * d) (nk * d) tp r i, j]"
    and tp: "tp dvd nq" "tp dvd nk" "r < tp"
  defines "L \<equiv> linear_row W None row" and "F \<equiv> linear_row Wqkv None row" and "lq \<equiv> nq div tp" and "lk \<equiv> nk div tp"
  shows "take (lq * d) L = head_block lq d r (take (nq * d) F)"
    "take (lk * d) (drop (lq * d) L) = head_block lk d r (take (nk * d) (drop (nq * d) F))"
    "take (lk * d) (drop (lq * d + lk * d) L) = head_block lk d r (take (nk * d) (drop (nq * d + nk * d) F))"
proof -
  have q: "nq * d div tp = lq * d" "nk * d div tp = lk * d" unfolding lq_def lk_def using tp by (auto elim!: dvdE)
  have dd: "tp dvd nq * d" "tp dvd nk * d" using tp by simp_all
  have len: "length L = nq * d div tp + 2 * (nk * d div tp)" "length F = nq * d + 2 * (nk * d)"
    unfolding q L_def F_def using l by (simp_all add: add_mult_distrib lq_def lk_def)
  have L: "L ! i = F ! qkv_row (nq * d) (nk * d) tp r i" if "i < nq * d div tp + 2 * (nk * d div tp)" for i
  proof -
    have "qkv_row (nq * d) (nk * d) tp r i < nq * d + 2 * (nk * d)"
      using qkv_row_bij [OF _ dd] tp(3) that by (auto simp: bij_betw_def)
    moreover have "i < (lq + 2 * lk) * d" using that q by (simp add: add_mult_distrib)
    ultimately show ?thesis using e [of i] l by (simp add: L_def F_def linear_row_def add_mult_distrib lq_def lk_def)
  qed
  note p = qkv_parts [OF dd tp(3) len L, unfolded q]
  show "take (lq * d) L = head_block lq d r (take (nq * d) F)"
    "take (lk * d) (drop (lq * d) L) = head_block lk d r (take (nk * d) (drop (nq * d) F))"
    "take (lk * d) (drop (lq * d + lk * d) L) = head_block lk d r (take (nk * d) (drop (nq * d + nk * d) F))"
    using p by (simp_all add: head_block_def mult.assoc)
qed

lemma length_attn_heads:
  assumes ha: "keeps_heads d ha" and Q: "rows_of T (nq * d) Q" "t < T"
  shows "length (attn_heads ha g kv0 nq nkv d Q K V t) = nq * d"
proof -
  let ?B = "\<lambda>h. ha (kv0 + h div g) (map (\<lambda>row. heads_of nkv d row ! (h div g)) K) (map (\<lambda>row. heads_of nkv d row ! (h div g)) V) t
    (heads_of nq d (Q ! t) ! h)"
  have "length (Q ! t) = nq * d" using Q by (simp add: rows_of_def)
  then have "map length (map ?B [0..<nq]) = map (\<lambda>_. d) [0..<nq]"
    using length_head [of "Q ! t" nq d] ha by (simp add: keeps_heads_def)
  then show ?thesis unfolding attn_heads_def length_concat by (simp only: sum_list_triv length_upt of_nat_id minus_nat.diff_0)
qed

lemma attn_group:
  fixes ops :: "'a::field layer_ops"
  assumes red: "adds_up reduce" and ops: "head_ops d ops" and ha: "keeps_heads d ha" and c: "attn_shape c nq nk d h"
    and W: "sizes Wqkv = [(nq + 2 * nk) * d, h]" "sizes Wo = [h, nq * d]"
    and tp: "0 < tp" "length as = tp" "length bks = tp"
    and ld: "\<And>r. r < tp \<Longrightarrow> attn_loaded c Wqkv Wo qn kn tp r (as ! r)"
    and bk: "\<And>r. r < tp \<Longrightarrow> head_wise ha (r * (nk div tp)) (nq div tp) (nk div tp) d (bks ! r)"
    and X: "rows_of T h X" "length poss = T"
  shows "rope_attn_forward reduce ops bks as poss (replicate tp X) =
    Inr (replicate tp (attn_rows ops ha nq nk d Wqkv Wo qn kn poss X))"
proof -
  define lq where "lq = nq div tp"
  define lk where "lk = nk div tp"
  note facts = attn_loaded_facts [OF ld _ c W, folded lq_def lk_def]
  have dv: "tp dvd nq" "tp dvd nk" using facts(1,2) [OF tp(1) tp(1)] .
  have full: "tp * lq = nq" "tp * lk = nk" using dv by (simp_all add: lq_def lk_def)
  have c': "nk dvd nq" "0 < nq" "0 < nk" using c by (simp_all add: attn_shape_def)
  obtain g where g0: "nq = nk * g" using c'(1) by (elim dvdE)
  have "tp * lq = tp * (lk * g)" using g0 full by simp
  then have g: "lq = lk * g" using tp(1) by simp
  have "0 < g" "0 < lk" using g0 full c' by (auto intro: Nat.gr0I)
  then have gg: "0 < g" "lq div lk = g" "nq div nk = g" using g g0 c' by simp_all
  define F where "F = map (linear_row Wqkv None) X"
  define Q where "Q = prepare_rows ops nq d qn poss (map (take (nq * d)) F)"
  define K where "K = prepare_rows ops nk d kn poss (map (\<lambda>row. take (nk * d) (drop (nq * d) row)) F)"
  define V where "V = map (\<lambda>row. take (nk * d) (drop (nq * d + nk * d) row)) F"
  have Fr: "rows_of T (nq * d) (map (take (nq * d)) F)" "rows_of T (nk * d) (map (\<lambda>row. take (nk * d) (drop (nq * d) row)) F)"
    "rows_of T (nk * d) V"
    using X W(1) by (simp_all add: rows_of_def F_def V_def add_mult_distrib)
  note prep = prepare_slice [OF ops _ X(2), where tp = tp, unfolded full]
  have QK: "rows_of T (tp * lq * d) Q" "rows_of T (tp * lk * d) K" "rows_of T (tp * lk * d) V"
    using prepare_slice(2) [OF ops _ X(2) tp(1), of lq, unfolded full, OF Fr(1)] prepare_slice(2) [OF ops _ X(2) tp(1), of lk, unfolded full, OF Fr(2)] Fr(3)
    unfolding full Q_def K_def by simp_all
  let ?f = "attn_heads ha g 0 nq nk d Q K V"
  have "on_ranks (\<lambda>(bk, a) x. res_bind (linear_forward (qkv_proj a) x) (attention_layer_forward ops bk a poss)) (zip bks as) (replicate tp X) =
      Inr (map (\<lambda>r. map (\<lambda>t. head_block lq d r (?f t)) [0..<T]) [0..<tp])"
  proof (rule on_ranks_ok)
    fix r
    assume r: "r < tp"
    let ?a = "as ! r" and ?L = "map (linear_row (weight (qkv_proj (as ! r))) None) X"
    have lin: "linear_forward (qkv_proj ?a) X = Inr ?L"
      using facts(8,9) [OF r r] X by (simp add: linear_forward_def linear_ok dims_def rows_of_def)
    have L: "rows_of T ((lq + 2 * lk) * d) ?L" using X facts(8) [OF r r] by (simp add: rows_of_def)
    note part = local_qkv [OF facts(8) [OF r r, unfolded lq_def lk_def] W(1) facts(10) [OF r r, unfolded lq_def lk_def] dv r, folded lq_def lk_def]
    have parts: "map (take (lq * d)) ?L = map (head_block lq d r) (map (take (nq * d)) F)"
      "map (\<lambda>row. take (lk * d) (drop (lq * d) row)) ?L = map (head_block lk d r) (map (\<lambda>row. take (nk * d) (drop (nq * d) row)) F)"
      "map (\<lambda>row. take (lk * d) (drop (lq * d + lk * d) row)) ?L = map (head_block lk d r) V"
      unfolding F_def V_def using part by (simp_all add: o_def)
    have "attention_layer_forward ops (bks ! r) ?a poss ?L = Inr (map (\<lambda>t. head_block lq d r (?f t)) [0..<T])"
      unfolding attention_layer_rows [OF bk [OF r, folded lq_def lk_def] ops L X(2) facts(3-5) [OF r r]] facts(6,7) [OF r r] parts gg(2)
        prepare_slice(1) [OF ops _ X(2) r, of lq, unfolded full, OF Fr(1)]
        prepare_slice(1) [OF ops _ X(2) r, of lk, unfolded full, OF Fr(2)]
      using attn_heads_slice [OF ha r g gg(1) QK(1) _ QK(2,3), unfolded full] by (simp add: Q_def K_def)
    then show "(\<lambda>(bk, a) x. res_bind (linear_forward (qkv_proj a) x) (attention_layer_forward ops bk a poss)) (zip bks as ! r) (replicate tp X ! r) =
        Inr (map (\<lambda>t. head_block lq d r (?f t)) [0..<T])"
      using r tp lin by simp
  qed (use tp in simp_all)
  moreover have "row_parallel_forward reduce (map o_proj as) (map (\<lambda>r. map (\<lambda>t. head_block lq d r (?f t)) [0..<T]) [0..<tp]) =
      Inr (replicate tp (map (\<lambda>t. linear_row Wo None (?f t)) [0..<T]))"
  proof (rule row_parallel_ok [OF red tp(1), where m = "lq * d"])
    show "length (map o_proj as) = tp" using tp(2) by simp
    show "row_shards tp (lq * d) Wo (\<lambda>r. weight (map o_proj as ! r))"
      using facts(11,13) tp(2) W(2) full(1) by (simp add: row_shards_def dims_def mult.assoc [symmetric])
    show "bias (map o_proj as ! r) = None" if "r < tp" for r using facts(12) [OF that that] tp(2) that by simp
    show "length (?f t) = tp * (lq * d)" if "t \<in> set [0..<T]" for t
      using length_attn_heads [OF ha, of T nq Q t] QK(1) that unfolding full mult.assoc [symmetric] by simp
    show "head_block lq d r (?f t) = tslice (r * (lq * d)) (r * (lq * d) + lq * d) (?f t)" for r t
      by (simp add: head_block_def mult.assoc)
  qed
  ultimately show ?thesis
    using X by (simp add: rope_attn_forward_def attn_rows_def Let_def gg(3) Q_def K_def V_def F_def rows_of_def)
qed

end
