(* ===== verification/MoeProps.thy ===== *)
theory MoeProps
  imports LayerProps
begin

text \<open>
  The mixture of experts: running every expert on the rows of the tokens that chose it gives each
  token the weighted sum of the outputs of its own experts, on one process and on a group.
\<close>

section \<open>Adding rows by index\<close>

lemma length_index_add [simp]: "length (index_add idx src out) = length out"
proof -
  have "length (fold (\<lambda>(t, row) out. out[t := map2 (+) (out ! t) row]) ps out) = length out" for ps
    by (induction ps arbitrary: out) auto
  then show ?thesis by (simp add: index_add_def)
qed

lemma nth_index_add:
  assumes "distinct idx" "t < length out"
  shows "index_add idx (map S idx) out ! t = (if t \<in> set idx then map2 (+) (out ! t) (S t) else out ! t)"
  using assms
proof (induction idx arbitrary: out)
  case (Cons i idx)
  have "index_add (i # idx) (map S (i # idx)) out = index_add idx (map S idx) (out[i := map2 (+) (out ! i) (S i)])"
    by (simp add: index_add_def)
  then show ?case using Cons by (cases "t = i") auto
qed (simp add: index_add_def)

section \<open>Experts\<close>

definition act_fun :: "'a layer_ops \<Rightarrow> string \<Rightarrow> 'a \<Rightarrow> 'a" where
  "act_fun ops act = (if act = ''silu'' then silu ops else gelu ops)"

definition expert_row :: "('a \<Rightarrow> 'a) \<Rightarrow> 'a tensor \<Rightarrow> 'a tensor \<Rightarrow> nat \<Rightarrow> 'a list \<Rightarrow> 'a::field list" where
  "expert_row f G D e row = linear_row (select0 D e) None (halves f (linear_row (select0 G e) None row))"

definition weighted_row :: "('a \<Rightarrow> 'a) \<Rightarrow> 'a tensor \<Rightarrow> 'a tensor \<Rightarrow> nat \<Rightarrow> ('a \<times> nat) list \<Rightarrow> 'a list \<Rightarrow> 'a::field list" where
  "weighted_row f G D h chosen row = map (\<lambda>j. \<Sum>(w, e)\<leftarrow>chosen. expert_row f G D e row ! j * w) [0..<h]"

definition expert_shape :: "'a moe_layer \<Rightarrow> nat \<Rightarrow> bool" where
  "expert_shape m n \<longleftrightarrow> sizes (moe_gate_up m) = [moe_experts m, 2 * n, moe_hidden m] \<and>
     sizes (moe_down m) = [moe_experts m, moe_hidden m, n] \<and> known_act (moe_act m)"

lemma moe_activate_ok: "known_act act \<Longrightarrow> moe_activate ops act row = Inr (halves (act_fun ops act) row)"
proof -
  have "map2 (*) (map f (take (length row div 2) row)) (take (length row div 2) (drop (length row div 2) row)) = halves f row" for f
    by (rule nth_equalityI) (simp_all add: halves_def)
  then show "known_act act \<Longrightarrow> moe_activate ops act row = Inr (halves (act_fun ops act) row)"
    by (auto simp: moe_activate_def known_act_def act_fun_def Let_def)
qed

lemma length_expert_row: "expert_shape m n \<Longrightarrow> length (expert_row f (moe_gate_up m) (moe_down m) e row) = moe_hidden m"
  by (simp add: expert_row_def select0_def expert_shape_def)

text \<open>One step: the tokens that chose the expert get its output, times their weight.\<close>

lemma expert_step_ok:
  fixes ops :: "'a::field layer_ops" and k e :: nat
  assumes m: "expert_shape m n" and x: "\<forall>row\<in>set x. length row = moe_hidden m" and out: "length out = length x"
  shows "\<exists>out'. expert_step ops m x routes (k, e) out = Inr out' \<and> length out' = length x \<and>
    (\<forall>t<length x. out' ! t = (if snd (routes ! t ! k) = e
       then map2 (+) (out ! t) (map (\<lambda>y. y * fst (routes ! t ! k)) (expert_row (act_fun ops (moe_act m)) (moe_gate_up m) (moe_down m) e (x ! t)))
       else out ! t))"
proof -
  define idx where "idx = filter (\<lambda>t. snd (routes ! t ! k) = e) [0..<length x]"
  have idx: "distinct idx" "t \<in> set idx \<longleftrightarrow> t < length x \<and> snd (routes ! t ! k) = e" for t by (auto simp: idx_def)
  show ?thesis
  proof (cases "idx = []")
    case True
    then have "snd (routes ! t ! k) \<noteq> e" if "t < length x" for t using that idx(2) [of t] by simp
    then show ?thesis using True out by (auto simp: expert_step_def Let_def idx_def)
  next
    case False
    let ?f = "act_fun ops (moe_act m)"
    let ?S = "\<lambda>t. map (\<lambda>y. y * fst (routes ! t ! k)) (expert_row ?f (moe_gate_up m) (moe_down m) e (x ! t))"
    have lin1: "linear (select0 (moe_gate_up m) e) None (map (\<lambda>t. x ! t) idx) = Inr (map (\<lambda>t. linear_row (select0 (moe_gate_up m) e) None (x ! t)) idx)"
      using m x idx(2) by (subst linear_ok) (auto simp: select0_def dims_def expert_shape_def o_def)
    have act: "res_map (moe_activate ops (moe_act m)) (map (\<lambda>t. linear_row (select0 (moe_gate_up m) e) None (x ! t)) idx) =
        Inr (map (\<lambda>t. halves ?f (linear_row (select0 (moe_gate_up m) e) None (x ! t))) idx)"
      using m by (subst res_map_ok [OF moe_activate_ok]) (simp_all add: expert_shape_def o_def)
    have lin2: "linear (select0 (moe_down m) e) None (map (\<lambda>t. halves ?f (linear_row (select0 (moe_gate_up m) e) None (x ! t))) idx) =
        Inr (map (\<lambda>t. expert_row ?f (moe_gate_up m) (moe_down m) e (x ! t)) idx)"
      using m by (subst linear_ok) (auto simp: select0_def dims_def expert_shape_def expert_row_def o_def)
    have src: "map2 (\<lambda>t row. map (\<lambda>y. y * fst (routes ! t ! k)) row) idx (map (\<lambda>t. expert_row ?f (moe_gate_up m) (moe_down m) e (x ! t)) idx) = map ?S idx"
      by (rule nth_equalityI) simp_all
    have "expert_step ops m x routes (k, e) out = Inr (index_add idx (map ?S idx) out)"
      using False unfolding expert_step_def prod.case Let_def idx_def [symmetric] lin1 res_bind_Inr act lin2 src by simp
    then show ?thesis using nth_index_add [OF idx(1), of _ out ?S] out idx(2) by auto
  qed
qed

section \<open>All steps\<close>

definition step_part :: "('a \<Rightarrow> 'a) \<Rightarrow> 'a moe_layer \<Rightarrow> ('a \<times> nat) list \<Rightarrow> 'a list \<Rightarrow> nat \<Rightarrow> nat \<times> nat \<Rightarrow> 'a::field" where
  "step_part f m chosen row j = (\<lambda>(k, e). if snd (chosen ! k) = e
     then expert_row f (moe_gate_up m) (moe_down m) e row ! j * fst (chosen ! k) else 0)"

lemma expert_steps_ok:
  fixes ops :: "'a::field layer_ops"
  assumes m: "expert_shape m n" and x: "\<forall>row\<in>set x. length row = moe_hidden m"
    and out: "length out = length x" "\<forall>t<length x. length (out ! t) = moe_hidden m"
  shows "\<exists>out'. res_fold (expert_step ops m x routes) ps out = Inr out' \<and> length out' = length x \<and>
    (\<forall>t<length x. out' ! t = map (\<lambda>j. out ! t ! j + (\<Sum>p\<leftarrow>ps. step_part (act_fun ops (moe_act m)) m (routes ! t) (x ! t) j p)) [0..<moe_hidden m])"
  using out
proof (induction ps arbitrary: out)
  case Nil
  have "out ! t = map ((!) (out ! t)) [0..<moe_hidden m]" if "t < length x" for t
    by (rule nth_equalityI) (use Nil that in simp_all)
  then show ?case using Nil by auto
next
  case (Cons p ps)
  let ?f = "act_fun ops (moe_act m)"
  obtain k e where p: "p = (k, e)" by (cases p)
  from expert_step_ok [OF m x Cons.prems(1), of ops routes k e] obtain out1 where
    1: "expert_step ops m x routes p out = Inr out1" "length out1 = length x" and
    n1: "\<And>t. t < length x \<Longrightarrow> out1 ! t = (if snd (routes ! t ! k) = e
       then map2 (+) (out ! t) (map (\<lambda>y. y * fst (routes ! t ! k)) (expert_row ?f (moe_gate_up m) (moe_down m) e (x ! t))) else out ! t)"
    unfolding p by blast
  note len = length_expert_row [OF m]
  have l1: "length (out1 ! t) = moe_hidden m" if "t < length x" for t
    using n1 [OF that] Cons.prems(2) that len by simp
  have j1: "out1 ! t ! j = out ! t ! j + step_part ?f m (routes ! t) (x ! t) j p" if "t < length x" "j < moe_hidden m" for t j
    using n1 [OF that(1)] Cons.prems(2) that len by (simp add: step_part_def p)
  from Cons.IH [OF 1(2)] l1 obtain out' where
    "res_fold (expert_step ops m x routes) ps out1 = Inr out'" "length out' = length x"
    "\<And>t. t < length x \<Longrightarrow> out' ! t = map (\<lambda>j. out1 ! t ! j + (\<Sum>p\<leftarrow>ps. step_part ?f m (routes ! t) (x ! t) j p)) [0..<moe_hidden m]"
    by blast
  then show ?case using 1(1) j1 by (auto simp: add.assoc)
qed

lemma sum_list_product:
  "(\<Sum>p\<leftarrow>List.product xs ys. f p) = (\<Sum>x\<leftarrow>xs. \<Sum>y\<leftarrow>ys. f (x, y) :: 'a::comm_monoid_add)"
  by (induction xs) (simp_all add: o_def)

lemma sum_select: "e < n \<Longrightarrow> (\<Sum>i\<leftarrow>[0..<n]. if e = i then g i else 0) = (g e :: 'a::comm_monoid_add)"
  unfolding sum_list_upt by (simp add: sum.delta)

lemma step_parts_sum:
  assumes "length chosen = K" "\<forall>(w, e)\<in>set chosen. e < E"
  shows "(\<Sum>p\<leftarrow>List.product [0..<K] [0..<E]. step_part f m chosen row j p) =
    (\<Sum>(w, e)\<leftarrow>chosen. expert_row f (moe_gate_up m) (moe_down m) e row ! j * w)"
proof -
  let ?g = "\<lambda>(w, e). expert_row f (moe_gate_up m) (moe_down m) e row ! j * w"
  have "(\<Sum>e\<leftarrow>[0..<E]. step_part f m chosen row j (k, e)) = ?g (chosen ! k)" if "k < K" for k
  proof -
    have "snd (chosen ! k) < E" using assms that nth_mem [of k chosen] by (auto simp: case_prod_beta)
    then show ?thesis by (simp add: step_part_def sum_select case_prod_beta)
  qed
  then have "(\<Sum>p\<leftarrow>List.product [0..<K] [0..<E]. step_part f m chosen row j p) = sum_list (map (\<lambda>k. ?g (chosen ! k)) [0..<K])"
    unfolding sum_list_product by (intro arg_cong [of _ _ sum_list] map_cong) simp_all
  also have "map (\<lambda>k. ?g (chosen ! k)) [0..<K] = map ?g chosen" by (rule nth_equalityI) (use assms(1) in simp_all)
  finally show ?thesis .
qed

text \<open>What \<open>torch.topk\<close> promises of the indices, and \<open>softmax\<close> of the length.\<close>

definition topk_ok :: "'a layer_ops \<Rightarrow> bool" where
  "topk_ok ops \<longleftrightarrow> (\<forall>l. length (softmax ops l) = length l) \<and>
     (\<forall>k p. k \<le> length p \<longrightarrow> length (topk ops k p) = k \<and> (\<forall>(w, e)\<in>set (topk ops k p). e < length p))"

definition choices :: "'a layer_ops \<Rightarrow> nat \<Rightarrow> bool \<Rightarrow> 'a list \<Rightarrow> ('a::field \<times> nat) list" where
  "choices ops k renorm logits =
     (let tk = topk ops k (softmax ops logits) in
      if renorm then map (\<lambda>(w, e). (w / (sum_list (map fst tk) + 1 / 10 ^ 8), e)) tk else tk)"

lemma route_choices: "route_tokens ops m = choices ops (moe_top_k m) (renormalize m)"
  by (rule ext) (simp add: route_tokens_def choices_def)

lemma choices_ok:
  assumes "topk_ok ops" "k \<le> length logits"
  shows "length (choices ops k renorm logits) = k" "\<forall>(w, e)\<in>set (choices ops k renorm logits). e < length logits"
proof -
  have "length (topk ops k (softmax ops logits)) = k" "\<forall>(w, e)\<in>set (topk ops k (softmax ops logits)). e < length logits"
    using assms unfolding topk_ok_def by metis+
  then show "length (choices ops k renorm logits) = k" "\<forall>(w, e)\<in>set (choices ops k renorm logits). e < length logits"
    by (auto simp: choices_def Let_def case_prod_beta)
qed

lemma moe_local_rows:
  fixes ops :: "'a::field layer_ops"
  assumes m: "expert_shape m n" "moe_top_k m \<le> moe_experts m" and ops: "topk_ok ops"
    and x: "\<forall>row\<in>set x. length row = moe_hidden m" and l: "length logits = length x" "\<forall>row\<in>set logits. length row = moe_experts m"
  shows "moe_local ops m x logits =
    Inr (map2 (\<lambda>row lg. weighted_row (act_fun ops (moe_act m)) (moe_gate_up m) (moe_down m) (moe_hidden m) (route_tokens ops m lg) row) x logits)"
proof -
  let ?f = "act_fun ops (moe_act m)" and ?P = "List.product [0..<moe_top_k m] [0..<moe_experts m]"
  have z: "length (map (map (\<lambda>_. 0)) x) = length x" "\<forall>t<length x. length (map (map (\<lambda>_. 0 :: 'a)) x ! t) = moe_hidden m"
    using x by simp_all
  from expert_steps_ok [OF m(1) x z, of ops "map (route_tokens ops m) logits" ?P] obtain out where
    out: "res_fold (expert_step ops m x (map (route_tokens ops m) logits)) ?P (map (map (\<lambda>_. 0)) x) = Inr out" "length out = length x" and
    nth: "\<And>t. t < length x \<Longrightarrow> out ! t = map (\<lambda>j. map (map (\<lambda>_. 0)) x ! t ! j +
        (\<Sum>p\<leftarrow>?P. step_part ?f m (map (route_tokens ops m) logits ! t) (x ! t) j p)) [0..<moe_hidden m]"
    by blast
  have "out ! t = weighted_row ?f (moe_gate_up m) (moe_down m) (moe_hidden m) (route_tokens ops m (logits ! t)) (x ! t)" if t: "t < length x" for t
  proof -
    have "length (logits ! t) = moe_experts m" using t l by simp
    then have "length (route_tokens ops m (logits ! t)) = moe_top_k m" "\<forall>(w, e)\<in>set (route_tokens ops m (logits ! t)). e < moe_experts m"
      using choices_ok [OF ops, of "moe_top_k m" "logits ! t" "renormalize m"] m(2) by (simp_all add: route_choices)
    from step_parts_sum [OF this] show ?thesis using nth [OF t] t l x by (simp add: weighted_row_def)
  qed
  then have "out = map2 (\<lambda>row lg. weighted_row ?f (moe_gate_up m) (moe_down m) (moe_hidden m) (route_tokens ops m lg) row) x logits"
    by (intro nth_equalityI) (use out(2) l in simp_all)
  then show ?thesis using out(1) x l by (simp add: moe_local_def list_all_iff check_def)
qed

section \<open>On a group\<close>

definition moe_params ::
  "model_config \<Rightarrow> 'a tensor \<Rightarrow> 'a tensor \<Rightarrow> 'a tensor \<Rightarrow> nat \<Rightarrow> nat \<Rightarrow> 'a moe_mlp \<Rightarrow> 'a moe_mlp \<Rightarrow> bool" where
  "moe_params c Wr Wg Wd tp r m0 m \<longleftrightarrow> (\<exists>rt ng G nd D.
     linear_loaded (\<lambda>_. True) c tp r Wr (router m0) rt \<and>
     contains_sub ''gate_up_proj'' ng \<and> \<not> contains_sub ''gate_up_proj'' nd \<and>
     shard_tensor_for_parameter ng Wg (sizes (moe_gate_up (experts m0))) r tp (Some c) = Inr G \<and>
     sizes G = sizes (moe_gate_up (experts m0)) \<and>
     shard_tensor_for_parameter nd Wd (sizes (moe_down (experts m0))) r tp (Some c) = Inr D \<and>
     sizes D = sizes (moe_down (experts m0)) \<and>
     m = m0\<lparr>router := rt, experts := (experts m0)\<lparr>moe_gate_up := G, moe_down := D\<rparr>\<rparr>)"

definition moe_loaded ::
  "model_config \<Rightarrow> 'a tensor \<Rightarrow> 'a tensor \<Rightarrow> 'a tensor \<Rightarrow> nat \<Rightarrow> nat \<Rightarrow> 'a moe_mlp \<Rightarrow> bool" where
  "moe_loaded c Wr Wg Wd tp r m \<longleftrightarrow> (\<exists>junk m0. moe_mlp_init junk (int tp) c = Inr m0 \<and> moe_params c Wr Wg Wd tp r m0 m)"

lemma expert_gate_up_shard:
  assumes sh: "shard_tensor_for_parameter name W [E, 2 * (n div tp), h] r tp cfg = Inr T" "contains_sub ''gate_up_proj'' name"
    and sz: "sizes W = [E, 2 * n, h]" and tp: "tp dvd n" "0 < n" "r < tp" and i: "i < 2 * (n div tp)"
  shows "elem T [e, i, k] = elem W [e, gate_up_row n tp r i, k]"
proof (cases "tp = 1")
  case True
  then show ?thesis using sh tp(3) by (simp add: shard_tensor_for_parameter_def gate_up_row_def)
next
  case False
  then have "1 < tp" using tp(3) by linarith
  then have "n div tp < n" using tp(2) by (rule div_less)
  then have ne: "n div tp \<noteq> n" by simp
  have "n mod tp = 0" using tp(1) by simp
  moreover have "shard_expert_tensor name W [E, 2 * (n div tp), h] r tp = Inr T"
    using sh(1) False sz ne by (simp add: shard_tensor_for_parameter_def dims_def)
  ultimately show ?thesis
    using block_fits [OF tp(3), of n] sz sh(2) i ne
    by (auto simp: shard_expert_tensor_def dims_def narrow_def cat2_def res_simps Let_def gate_up_row_def add_ac)
qed

lemma expert_down_shard:
  assumes sh: "shard_tensor_for_parameter name W [E, h, n div tp] r tp cfg = Inr T" "\<not> contains_sub ''gate_up_proj'' name"
    and sz: "sizes W = [E, h, n]" and tp: "tp dvd n" "0 < n" "r < tp"
  shows "elem T [e, j, k] = elem W [e, j, r * (n div tp) + k]"
proof (cases "tp = 1")
  case True
  then show ?thesis using sh tp(3) by (simp add: shard_tensor_for_parameter_def)
next
  case False
  then have "1 < tp" using tp(3) by linarith
  then have "n div tp < n" using tp(2) by (rule div_less)
  then have ne: "n div tp \<noteq> n" by simp
  have md: "n mod tp = 0" using tp(1) by simp
  have nw: "narrow 2 (r * (n div tp)) (n div tp) W =
      Inr \<lparr>sizes = [E, h, n div tp], elem = (\<lambda>ix. elem W (ix[2 := ix ! 2 + r * (n div tp)]))\<rparr>"
    using narrow_ok [of 2 W "r * (n div tp)" "n div tp"] block_fits [OF tp(3), of n] sz by (simp add: dims_def eval_nat_numeral)
  have "slice_dim W 2 r tp = Inr T"
    using sh False sz ne by (simp add: shard_tensor_for_parameter_def shard_expert_tensor_def dims_def eval_nat_numeral res_simps)
  then have "T = \<lparr>sizes = [E, h, n div tp], elem = (\<lambda>ix. elem W (ix[2 := ix ! 2 + r * (n div tp)]))\<rparr>"
    using sz md nw by (simp add: slice_dim_def dims_def Let_def eval_nat_numeral)
  then have "elem T [e, j, k] = elem W [e, j, k + r * (n div tp)]" by (simp add: eval_nat_numeral)
  then show ?thesis by (simp only: add.commute)
qed

definition moe_shape :: "model_config \<Rightarrow> nat \<Rightarrow> nat \<Rightarrow> nat \<Rightarrow> bool" where
  "moe_shape c E n h \<longleftrightarrow> num_experts c = int E \<and> moe_intermediate_size c = int n \<and> hidden_size c = int h"

lemma moe_loaded_facts:
  assumes ld: "moe_loaded c Wr Wg Wd tp r m" and r: "r < tp" and c: "moe_shape c E n h"
    and W: "sizes Wr = [E, h]" "sizes Wg = [E, 2 * n, h]" "sizes Wd = [E, h, n]"
  shows "tp dvd n" "0 < n" "weight (router m) = Wr" "bias (router m) = None"
    "moe_experts (experts m) = E" "moe_hidden (experts m) = h" "moe_top_k (experts m) = nat (num_experts_per_tok c)"
    "nat (num_experts_per_tok c) \<le> E" "renormalize (experts m) = norm_topk_prob c" "moe_act (experts m) = hidden_act c"
    "sizes (moe_gate_up (experts m)) = [E, 2 * (n div tp), h]" "sizes (moe_down (experts m)) = [E, h, n div tp]"
    "\<And>e i k. i < 2 * (n div tp) \<Longrightarrow> elem (moe_gate_up (experts m)) [e, i, k] = elem Wg [e, gate_up_row n tp r i, k]"
    "\<And>e j k. elem (moe_down (experts m)) [e, j, k] = elem Wd [e, j, r * (n div tp) + k]"
proof -
  obtain junk m0 rt ng G nd D where i: "moe_mlp_init junk (int tp) c = Inr m0"
    and rt: "linear_loaded (\<lambda>_. True) c tp r Wr (router m0) rt"
    and nm: "contains_sub ''gate_up_proj'' ng" "\<not> contains_sub ''gate_up_proj'' nd"
    and G: "shard_tensor_for_parameter ng Wg (sizes (moe_gate_up (experts m0))) r tp (Some c) = Inr G" "sizes G = sizes (moe_gate_up (experts m0))"
    and D: "shard_tensor_for_parameter nd Wd (sizes (moe_down (experts m0))) r tp (Some c) = Inr D" "sizes D = sizes (moe_down (experts m0))"
    and m: "m = m0\<lparr>router := rt, experts := (experts m0)\<lparr>moe_gate_up := G, moe_down := D\<rparr>\<rparr>"
    using ld unfolding moe_loaded_def moe_params_def by blast
  obtain li where li: "int n = li * int tp" "0 < n" and e0: "nat (num_experts_per_tok c) \<le> E"
    using i c by (auto simp: moe_mlp_init_def moe_layer_init_def res_simps divide_even_Inr moe_shape_def)
  show d: "tp dvd n" using li(1) by (metis dvd_triv_right int_dvd_int_iff)
  show "0 < n" "nat (num_experts_per_tok c) \<le> E" by (rule li(2), rule e0)
  obtain q where q: "n = tp * q" using d by (elim dvdE)
  have tp: "0 < tp" using r by simp
  have m0: "sizes (moe_gate_up (experts m0)) = [E, 2 * (n div tp), h]" "sizes (moe_down (experts m0)) = [E, h, n div tp]"
    "moe_experts (experts m0) = E" "moe_hidden (experts m0) = h" "moe_top_k (experts m0) = nat (num_experts_per_tok c)"
    "renormalize (experts m0) = norm_topk_prob c" "moe_act (experts m0) = hidden_act c"
    "sizes (weight (router m0)) = [E, h]" "bias (router m0) = None"
    using i c tp by (auto simp: moe_mlp_init_def moe_layer_init_def res_simps divide_even_Inr moe_shape_def q nat_mult_distrib
        linear_replicated_def linear_base_def)
  show "weight (router m) = Wr" "bias (router m) = None"
    using rt m m0 W(1) by (auto simp: linear_loaded_def shard_tensor_for_parameter_def)
  show "moe_experts (experts m) = E" "moe_hidden (experts m) = h" "moe_top_k (experts m) = nat (num_experts_per_tok c)"
    "renormalize (experts m) = norm_topk_prob c" "moe_act (experts m) = hidden_act c"
    "sizes (moe_gate_up (experts m)) = [E, 2 * (n div tp), h]" "sizes (moe_down (experts m)) = [E, h, n div tp]"
    using m m0 G(2) D(2) by simp_all
  show "elem (moe_gate_up (experts m)) [e, i, k] = elem Wg [e, gate_up_row n tp r i, k]" if "i < 2 * (n div tp)" for e i k
    using expert_gate_up_shard [OF G(1) [unfolded m0] nm(1) W(2) d li(2) r that] m by simp
  show "elem (moe_down (experts m)) [e, j, k] = elem Wd [e, j, r * (n div tp) + k]" for e j k
    using expert_down_shard [OF D(1) [unfolded m0] nm(2) W(3) d li(2) r] m by simp
qed

text \<open>One row through router and experts with the whole weights.\<close>

definition moe_row ::
  "'a::field layer_ops \<Rightarrow> model_config \<Rightarrow> 'a tensor \<Rightarrow> 'a tensor \<Rightarrow> 'a tensor \<Rightarrow> 'a list \<Rightarrow> 'a list" where
  "moe_row ops c Wr Wg Wd row = weighted_row (act_fun ops (hidden_act c)) Wg Wd (nat (hidden_size c))
     (choices ops (nat (num_experts_per_tok c)) (norm_topk_prob c) (linear_row Wr None row)) row"

lemma expert_row_sum:
  fixes Wg :: "'a::field tensor"
  assumes W: "sizes Wg = [E, 2 * n, h]" "sizes Wd = [E, h, n]" and n: "tp dvd n"
    and G: "\<And>r. r < tp \<Longrightarrow> sizes (G r) = [E, 2 * (n div tp), h]" "\<And>r. r < tp \<Longrightarrow> sizes (D r) = [E, h, n div tp]"
    and g: "\<And>r e i k. r < tp \<Longrightarrow> i < 2 * (n div tp) \<Longrightarrow> elem (G r) [e, i, k] = elem Wg [e, gate_up_row n tp r i, k]"
    and d: "\<And>r e j k. r < tp \<Longrightarrow> elem (D r) [e, j, k] = elem Wd [e, j, r * (n div tp) + k]"
    and j: "j < h"
  shows "expert_row f Wg Wd e row ! j = (\<Sum>r<tp. expert_row f (G r) (D r) e row ! j)"
proof -
  let ?m = "n div tp"
  let ?z = "halves f (linear_row (select0 Wg e) None row)"
  have nm: "tp * ?m = n" using n by simp
  have sh: "row_shards tp ?m (select0 Wd e) (\<lambda>r. select0 (D r) e)"
    using W(2) G(2) d nm by (simp add: row_shards_def select0_def dims_def)
  have z: "length ?z = tp * ?m" using W(1) nm by (simp add: select0_def)
  have "halves f (linear_row (select0 (G r) e) None row) = tslice (r * ?m) (r * ?m + ?m) ?z" if r: "r < tp" for r
    by (rule halves_slice [OF _ _ _ n r]) (use G(1) [OF r] W(1) g [OF r] in \<open>simp_all add: select0_def\<close>)
  then have "(\<Sum>r<tp. expert_row f (G r) (D r) e row ! j) = (\<Sum>r<tp. linear_row (select0 (D r) e) None (tslice (r * ?m) (r * ?m + ?m) ?z) ! j)"
    by (simp add: expert_row_def)
  then show ?thesis using row_parallel_sum [OF sh z] j W(2) by (simp add: expert_row_def select0_def)
qed

lemma sum_sum_list: "(\<Sum>r<tp. \<Sum>x\<leftarrow>xs. f r x) = (\<Sum>x\<leftarrow>xs. \<Sum>r<tp. f r x :: 'a::comm_monoid_add)"
  by (induction xs) (simp_all add: sum.distrib)

lemma moe_group:
  fixes ops :: "'a::field layer_ops"
  assumes red: "adds_up reduce" and ops: "topk_ok ops" and act: "known_act (hidden_act c)"
    and tp: "0 < tp" "length ms = tp" and ld: "\<And>r. r < tp \<Longrightarrow> moe_loaded c Wr Wg Wd tp r (ms ! r)" and c: "moe_shape c E n h"
    and W: "sizes Wr = [E, h]" "sizes Wg = [E, 2 * n, h]" "sizes Wd = [E, h, n]" and X: "\<forall>row\<in>set X. length row = h"
  shows "moe_mlp_forward reduce ops ms (replicate tp X) = Inr (replicate tp (map (moe_row ops c Wr Wg Wd) X))"
proof -
  note facts = moe_loaded_facts [OF ld _ c W]
  let ?f = "act_fun ops (hidden_act c)"
  let ?ch = "\<lambda>row. choices ops (nat (num_experts_per_tok c)) (norm_topk_prob c) (linear_row Wr None row)"
  let ?G = "\<lambda>r row. weighted_row ?f (moe_gate_up (experts (ms ! r))) (moe_down (experts (ms ! r))) h (?ch row) row"
  have h: "nat (hidden_size c) = h" using c by (simp add: moe_shape_def)
  have "on_ranks (\<lambda>m x. res_bind (linear_forward (router m) x) (moe_local ops (experts m) x)) ms (replicate tp X) =
      Inr (map (\<lambda>r. map (?G r) X) [0..<tp])"
  proof (rule on_ranks_ok [OF tp(2)])
    fix r
    assume r: "r < tp"
    note F = facts [OF r r]
    have "expert_shape (experts (ms ! r)) (n div tp)" using F act by (simp add: expert_shape_def)
    then have "moe_local ops (experts (ms ! r)) X (map (linear_row Wr None) X) =
        Inr (map2 (\<lambda>row lg. weighted_row ?f (moe_gate_up (experts (ms ! r))) (moe_down (experts (ms ! r))) h (route_tokens ops (experts (ms ! r)) lg) row)
          X (map (linear_row Wr None) X))"
      using F W(1) X by (subst moe_local_rows [OF _ _ ops]) auto
    also have "map2 (\<lambda>row lg. weighted_row ?f (moe_gate_up (experts (ms ! r))) (moe_down (experts (ms ! r))) h (route_tokens ops (experts (ms ! r)) lg) row)
        X (map (linear_row Wr None) X) = map (?G r) X"
      by (rule nth_equalityI) (use F in \<open>simp_all add: route_choices\<close>)
    finally have "moe_local ops (experts (ms ! r)) X (map (linear_row Wr None) X) = Inr (map (?G r) X)" .
    moreover have "linear_forward (router (ms ! r)) X = Inr (map (linear_row Wr None) X)"
      using F W(1) X by (simp add: linear_forward_def linear_ok dims_def)
    ultimately show "res_bind (linear_forward (router (ms ! r)) (replicate tp X ! r)) (moe_local ops (experts (ms ! r)) (replicate tp X ! r)) =
        Inr (map (?G r) X)"
      using r by simp
  qed simp
  moreover have "group_all_reduce reduce (map (\<lambda>r. map (?G r) X) [0..<tp]) = replicate tp (map (moe_row ops c Wr Wg Wd) X)"
  proof (rule all_reduce_partials [OF red tp(1)])
    fix row
    assume "row \<in> set X"
    have e: "expert_row ?f Wg Wd e row ! j = (\<Sum>r<tp. expert_row ?f (moe_gate_up (experts (ms ! r))) (moe_down (experts (ms ! r))) e row ! j)"
      if "j < h" for e j
      by (rule expert_row_sum [OF W(2,3) facts(1) [OF tp(1) tp(1)]]) (use facts(11-14) that in simp_all)
    have "weighted_row ?f Wg Wd h (?ch row) row ! j = (\<Sum>r<tp. ?G r row ! j)" if j: "j < h" for j
      using j e [OF j] by (simp add: weighted_row_def sum_sum_list case_prod_beta' sum_distrib_right)
    then show "moe_row ops c Wr Wg Wd row = map (\<lambda>j. \<Sum>r<tp. ?G r row ! j) [0..<h]"
      unfolding moe_row_def h by (intro nth_equalityI) (simp_all add: weighted_row_def)
  qed (simp add: weighted_row_def)
  ultimately show ?thesis by (simp add: moe_mlp_forward_def)
qed

end
