(* ===== verification/ModelProps.thy ===== *)
theory ModelProps
  imports GroupProps MoeProps
begin

text \<open>
  A model on a group of ranks. \<open>model_weights\<close> are the whole weights of a checkpoint; \<open>model_loaded\<close> says that a
  rank's model is what the constructors and the loader make of them.
\<close>

section \<open>Weights\<close>

datatype 'a mlp_weights =
  GatedW (gate_up_w: "'a tensor") (down_w: "'a tensor")
| MoeW (router_w: "'a tensor") (gate_up_w: "'a tensor") (down_w: "'a tensor")

record 'a layer_weights =
  qkv_w :: "'a tensor"
  o_w :: "'a tensor"
  q_norm_w :: "'a list option"
  k_norm_w :: "'a list option"
  mlp_w :: "'a mlp_weights"
  in_norm_w :: "'a list"
  post_norm_w :: "'a list"

record 'a model_weights =
  embed_w :: "'a tensor"
  layers_w :: "'a layer_weights list"
  norm_w :: "'a list"
  head_w :: "'a tensor"

definition mlp_kind_loaded :: "model_config \<Rightarrow> 'a mlp_weights \<Rightarrow> nat \<Rightarrow> nat \<Rightarrow> 'a mlp \<Rightarrow> bool" where
  "mlp_kind_loaded c w tp r m = (case w of
     GatedW Wg Wd \<Rightarrow> (\<exists>g. m = Gated g \<and> mlp_loaded c Wg Wd tp r g)
   | MoeW Wr Wg Wd \<Rightarrow> (\<exists>e. m = Moe e \<and> moe_loaded c Wr Wg Wd tp r e))"

definition layer_loaded :: "model_config \<Rightarrow> 'a::one layer_weights \<Rightarrow> nat \<Rightarrow> nat \<Rightarrow> 'a decoder \<Rightarrow> bool" where
  "layer_loaded c w tp r ly \<longleftrightarrow> attn_loaded c (qkv_w w) (o_w w) (q_norm_w w) (k_norm_w w) tp r (self_attn ly) \<and>
     mlp_kind_loaded c (mlp_w w) tp r (mlp_of ly) \<and> input_layernorm ly = in_norm_w w \<and> post_attention_layernorm ly = post_norm_w w"

definition model_holds :: "model_config \<Rightarrow> 'a::one model_weights \<Rightarrow> nat \<Rightarrow> nat \<Rightarrow> 'a causal_lm \<Rightarrow> bool" where
  "model_holds c w tp r m \<longleftrightarrow> embed_tokens m = embed_w w \<and> final_norm m = norm_w w \<and>
     weight (lm_head m) = head_w w \<and> bias (lm_head m) = None \<and> length (decoders m) = length (layers_w w) \<and>
     (\<forall>l<length (layers_w w). layer_loaded c (layers_w w ! l) tp r (decoders m ! l))"

text \<open>The sizes of the weights.\<close>

definition mlp_sizes :: "model_config \<Rightarrow> nat \<Rightarrow> 'a mlp_weights \<Rightarrow> bool" where
  "mlp_sizes c h w = (case w of
     GatedW Wg Wd \<Rightarrow> (\<exists>n. intermediate_size c = int n \<and> 0 < n \<and> sizes Wg = [2 * n, h] \<and> sizes Wd = [h, n])
   | MoeW Wr Wg Wd \<Rightarrow> (\<exists>E n. moe_shape c E n h \<and> sizes Wr = [E, h] \<and> sizes Wg = [E, 2 * n, h] \<and> sizes Wd = [E, h, n]))"

definition layer_sizes :: "model_config \<Rightarrow> nat \<Rightarrow> nat \<Rightarrow> nat \<Rightarrow> nat \<Rightarrow> 'a layer_weights \<Rightarrow> bool" where
  "layer_sizes c nq nk d h w \<longleftrightarrow> sizes (qkv_w w) = [(nq + 2 * nk) * d, h] \<and> sizes (o_w w) = [h, nq * d] \<and> mlp_sizes c h (mlp_w w)"

definition model_sizes :: "model_config \<Rightarrow> nat \<Rightarrow> nat \<Rightarrow> nat \<Rightarrow> nat \<Rightarrow> 'a model_weights \<Rightarrow> bool" where
  "model_sizes c nq nk d h w \<longleftrightarrow> attn_shape c nq nk d h \<and> sizes (embed_w w) = [nat (mc_vocab_size c), h] \<and>
     sizes (head_w w) = [nat (mc_vocab_size c), h] \<and> (tie_word_embeddings c \<longrightarrow> head_w w = embed_w w) \<and>
     length (layers_w w) = nat (num_layers c) \<and> (\<forall>lw\<in>set (layers_w w). layer_sizes c nq nk d h lw)"

text \<open>A rank's model after the loader has copied its part of every weight into the parameters of \<open>m0\<close>.\<close>

definition mlp_kind_params :: "model_config \<Rightarrow> 'a mlp_weights \<Rightarrow> nat \<Rightarrow> nat \<Rightarrow> 'a mlp \<Rightarrow> 'a mlp \<Rightarrow> bool" where
  "mlp_kind_params c w tp r m0 m = (case (w, m0) of
     (GatedW Wg Wd, Gated g0) \<Rightarrow> (\<exists>g. m = Gated g \<and> mlp_params c Wg Wd tp r g0 g)
   | (MoeW Wr Wg Wd, Moe e0) \<Rightarrow> (\<exists>e. m = Moe e \<and> moe_params c Wr Wg Wd tp r e0 e)
   | _ \<Rightarrow> False)"

definition layer_params :: "model_config \<Rightarrow> 'a layer_weights \<Rightarrow> nat \<Rightarrow> nat \<Rightarrow> 'a decoder \<Rightarrow> 'a decoder \<Rightarrow> bool" where
  "layer_params c w tp r ly0 ly \<longleftrightarrow>
     attn_params c (qkv_w w) (o_w w) (q_norm_w w) (k_norm_w w) tp r (self_attn ly0) (self_attn ly) \<and>
     mlp_kind_params c (mlp_w w) tp r (mlp_of ly0) (mlp_of ly) \<and>
     input_layernorm ly = in_norm_w w \<and> post_attention_layernorm ly = post_norm_w w"

definition model_params :: "model_config \<Rightarrow> 'a model_weights \<Rightarrow> nat \<Rightarrow> nat \<Rightarrow> 'a causal_lm \<Rightarrow> 'a causal_lm \<Rightarrow> bool" where
  "model_params c w tp r m0 m \<longleftrightarrow>
     (\<exists>name. shard_tensor_for_parameter name (embed_w w) (sizes (embed_tokens m0)) r tp (Some c) = Inr (embed_tokens m)) \<and>
     final_norm m = norm_w w \<and>
     (if tie_word_embeddings c then lm_head m = (lm_head m0)\<lparr>weight := embed_tokens m\<rparr>
      else linear_loaded (\<lambda>_. True) c tp r (head_w w) (lm_head m0) (lm_head m)) \<and>
     list_all2 (\<lambda>lw (ly0, ly). layer_params c lw tp r ly0 ly) (layers_w w) (zip (decoders m0) (decoders m)) \<and>
     length (decoders m) = length (decoders m0)"

definition model_loaded :: "model_config \<Rightarrow> 'a::one model_weights \<Rightarrow> nat \<Rightarrow> nat \<Rightarrow> 'a causal_lm \<Rightarrow> bool" where
  "model_loaded c w tp r m \<longleftrightarrow> (\<exists>junk m0. create_model junk (int tp) c = Inr m0 \<and> model_params c w tp r m0 m)"

definition kind_of :: "model_config \<Rightarrow> model_kind" where
  "kind_of c = create_model_runner (architectures c) (model_type c) (is_moe c)"

lemma layer_init_unbiased: "k \<noteq> Qwen2ForCausalLM \<Longrightarrow> \<exists>qk ex. \<forall>junk tp c. layer_init k junk tp c = decoder_init junk tp c False qk ex"
  by (cases k) (auto simp: layer_init_defs)

lemma layer_params_loaded:
  assumes "decoder_init junk (int tp) c False qk ex = Inr ly0" "layer_params c w tp r ly0 ly"
  shows "layer_loaded c w tp r ly"
proof -
  obtain a m where i: "rope_attn_init junk (int tp) c False qk = Inr a" "self_attn ly0 = a" "mlp_of ly0 = m"
    "(if ex then res_bind (moe_mlp_init junk (int tp) c) (\<lambda>m. Inr (Moe m)) else res_bind (gated_mlp_init junk (int tp) c) (\<lambda>m. Inr (Gated m))) = Inr m"
    using assms(1) by (auto simp: decoder_init_def res_simps Let_def split: if_splits)
  have "attn_loaded c (qkv_w w) (o_w w) (q_norm_w w) (k_norm_w w) tp r (self_attn ly)"
    using i(1,2) assms(2) unfolding attn_loaded_def layer_params_def by blast
  moreover have "mlp_kind_loaded c (mlp_w w) tp r (mlp_of ly)"
    using i(3,4) assms(2)
    by (cases "mlp_w w"; cases m)
      (auto simp: layer_params_def mlp_kind_params_def mlp_kind_loaded_def mlp_loaded_def moe_loaded_def res_simps split: if_splits)
  ultimately show ?thesis using assms(2) by (simp add: layer_loaded_def layer_params_def)
qed

lemma res_map_length: "res_map f xs = Inr ys \<Longrightarrow> length ys = length xs"
  by (induction xs arbitrary: ys) (auto simp: res_simps)

lemma res_map_nth: "res_map f xs = Inr ys \<Longrightarrow> i < length xs \<Longrightarrow> f (xs ! i) = Inr (ys ! i)"
proof (induction xs arbitrary: ys i)
  case (Cons x xs)
  then show ?case by (cases i) (auto simp: res_simps)
qed simp

lemma model_loaded_holds:
  assumes ld: "model_loaded c w tp r m" and w: "model_sizes c nq nk d h w" and k: "kind_of c \<noteq> Qwen2ForCausalLM"
  shows "model_holds c w tp r m"
proof -
  obtain junk m0 where i: "create_model junk (int tp) c = Inr m0" and p: "model_params c w tp r m0 m"
    using ld unfolding model_loaded_def by blast
  obtain qk ex where e: "layer_init (kind_of c) junk (int tp) c = decoder_init junk (int tp) c False qk ex"
    using layer_init_unbiased [OF k] by blast
  have h: "hidden_size c = int h" using w by (simp add: model_sizes_def attn_shape_def)
  have m0: "res_map (\<lambda>_. decoder_init junk (int tp) c False qk ex) [0..<nat (num_layers c)] = Inr (decoders m0)"
    "sizes (embed_tokens m0) = [nat (mc_vocab_size c), h]"
    "sizes (weight (lm_head m0)) = [nat (mc_vocab_size c), h]" "bias (lm_head m0) = None"
    using i e h unfolding create_model_def kind_of_def [symmetric]
    by (auto simp: causal_lm_init_def res_simps Let_def linear_replicated_def linear_base_def)
  have em: "embed_tokens m = embed_w w"
    using p w m0(2) by (auto simp: model_params_def model_sizes_def shard_tensor_for_parameter_def)
  have hd: "weight (lm_head m) = head_w w" "bias (lm_head m) = None"
    using p w m0(3,4) em
    by (auto simp: model_params_def model_sizes_def linear_loaded_def shard_tensor_for_parameter_def split: if_splits)
  have len: "length (decoders m0) = length (layers_w w)" using res_map_length [OF m0(1)] w by (simp add: model_sizes_def)
  have "layer_loaded c (layers_w w ! l) tp r (decoders m ! l)" if l: "l < length (layers_w w)" for l
  proof (rule layer_params_loaded)
    show "decoder_init junk (int tp) c False qk ex = Inr (decoders m0 ! l)"
      using res_map_nth [OF m0(1), of l] res_map_length [OF m0(1)] l len by simp
    show "layer_params c (layers_w w ! l) tp r (decoders m0 ! l) (decoders m ! l)"
      using p l len by (auto simp: model_params_def list_all2_conv_all_nth)
  qed
  then show ?thesis using em hd p len by (simp add: model_holds_def model_params_def)
qed

section \<open>What one process computes\<close>

definition mlp_rows :: "'a::field layer_ops \<Rightarrow> model_config \<Rightarrow> 'a mlp_weights \<Rightarrow> 'a rows \<Rightarrow> 'a rows" where
  "mlp_rows ops c w X = (case w of
     GatedW Wg Wd \<Rightarrow> map (gated_row ops (hidden_act c) Wg Wd) X
   | MoeW Wr Wg Wd \<Rightarrow> map (moe_row ops c Wr Wg Wd) X)"

definition attn_sum :: "'a::field layer_ops \<Rightarrow> 'a head_attn \<Rightarrow> nat \<Rightarrow> nat \<Rightarrow> nat \<Rightarrow> 'a layer_weights \<Rightarrow> int list \<Rightarrow> 'a rows \<Rightarrow> 'a rows" where
  "attn_sum ops ha nq nk d w poss X =
     add_rows X (attn_rows ops ha nq nk d (qkv_w w) (o_w w) (q_norm_w w) (k_norm_w w) poss (rms_norm_rows ops (in_norm_w w) X))"

definition mlp_part :: "'a::field layer_ops \<Rightarrow> model_config \<Rightarrow> 'a layer_weights \<Rightarrow> 'a rows \<Rightarrow> 'a rows" where
  "mlp_part ops c w X1 = mlp_rows ops c (mlp_w w) (rms_norm_rows ops (post_norm_w w) X1)"

definition layer_rows ::
  "'a::field layer_ops \<Rightarrow> model_config \<Rightarrow> 'a head_attn \<Rightarrow> nat \<Rightarrow> nat \<Rightarrow> nat \<Rightarrow> 'a layer_weights \<Rightarrow> int list \<Rightarrow> 'a rows \<Rightarrow> 'a rows" where
  "layer_rows ops c ha nq nk d w poss X =
     (let X1 = attn_sum ops ha nq nk d w poss X in add_rows X1 (mlp_part ops c w X1))"

text \<open>The documented behaviour of the kernels and of the library that the layers use.\<close>

definition kernel_laws :: "'a::field layer_ops \<Rightarrow> nat \<Rightarrow> bool" where
  "kernel_laws ops d \<longleftrightarrow> act_halves ops \<and> topk_ok ops \<and> head_ops d ops \<and> (\<forall>w x. length (row_norm ops w x) = length x) \<and>
     (\<forall>w x r. length x = length r \<longrightarrow> fused_add_norm ops w (x, r) = (row_norm ops w (map2 (+) x r), map2 (+) x r))"

section \<open>One layer\<close>

lemma rms_norm_rows_of: "kernel_laws ops d \<Longrightarrow> rows_of T h X \<Longrightarrow> rows_of T h (rms_norm_rows ops w X)"
  by (auto simp: kernel_laws_def rms_norm_rows_def rows_of_def)

lemma add_rows_of: "rows_of T h X \<Longrightarrow> rows_of T h Y \<Longrightarrow> rows_of T h (add_rows X Y)"
  by (auto simp: add_rows_def rows_of_def set_zip)

lemma add_rows_commute: "add_rows X Y = add_rows Y X"
proof -
  have "map2 (+) a b = map2 (+) b (a :: 'a list)" for a b by (rule nth_equalityI) (simp_all add: add.commute)
  then show ?thesis unfolding add_rows_def by (intro nth_equalityI) simp_all
qed

lemma attn_rows_of: "rows_of T n X \<Longrightarrow> sizes Wo = [h, m] \<Longrightarrow> rows_of T h (attn_rows ops ha nq nk d Wqkv Wo qn kn poss X)"
  by (auto simp: attn_rows_def Let_def rows_of_def)

lemma mlp_rows_of: "mlp_sizes c h w \<Longrightarrow> rows_of T n X \<Longrightarrow> rows_of T h (mlp_rows ops c w X)"
  by (cases w) (auto simp: mlp_rows_def rows_of_def gated_row_def moe_row_def weighted_row_def mlp_sizes_def moe_shape_def)

lemma fused_rows:
  assumes "kernel_laws ops d" "rows_of T h X" "rows_of T h R"
  shows "fused_add_rows ops w (X, R) = (rms_norm_rows ops w (add_rows R X), add_rows R X)"
proof -
  have len: "length (X ! t) = h" "length (R ! t) = h" if "t < T" for t using assms that by (simp_all add: rows_of_def)
  have TT: "length X = T" "length R = T" using assms by (simp_all add: rows_of_def)
  have e: "map2 (\<lambda>a b. fused_add_norm ops w (a, b)) X R = map2 (\<lambda>a b. (row_norm ops w (map2 (+) a b), map2 (+) a b)) X R"
    by (rule nth_equalityI) (use assms(1) len TT in \<open>simp_all add: kernel_laws_def\<close>)
  have "fused_add_rows ops w (X, R) = (rms_norm_rows ops w (add_rows X R), add_rows X R)"
    unfolding fused_add_rows_def prod.case Let_def e by (simp add: rms_norm_rows_def add_rows_def o_def case_prod_beta')
  then show ?thesis by (simp only: add_rows_commute [of R X])
qed

definition wide_enough :: "nat \<Rightarrow> 'a mlp_weights \<Rightarrow> bool" where
  "wide_enough tp w = (case w of GatedW Wg Wd \<Rightarrow> 8 * tp \<le> sizes Wd ! 1 | MoeW Wr Wg Wd \<Rightarrow> True)"

lemma mlp_group:
  fixes ops :: "'a::field layer_ops"
  assumes red: "adds_up reduce" and ops: "kernel_laws ops d" and act: "known_act (hidden_act c)"
    and tp: "0 < tp" "length ms = tp" and ld: "\<And>r. r < tp \<Longrightarrow> mlp_kind_loaded c w tp r (ms ! r)"
    and h: "hidden_size c = int h" "mlp_sizes c h w" and X: "rows_of T h X" "0 < T" and wide: "wide_enough tp w"
  shows "mlp_forward reduce ops ms (replicate tp X) = Inr (replicate tp (mlp_rows ops c w X))"
proof (cases w)
  case (GatedW Wg Wd)
  obtain G where G: "\<And>r. r < tp \<Longrightarrow> ms ! r = Gated (G r) \<and> mlp_loaded c Wg Wd tp r (G r)"
    using ld GatedW unfolding mlp_kind_loaded_def by (simp, metis)
  have ms: "ms = map Gated (map G [0..<tp])" by (rule nth_equalityI) (use G tp(2) in simp_all)
  have s: "moes (map Gated gs) = []" "gateds (map Gated gs) = gs" for gs :: "'a gated_mlp list" by (induction gs) simp_all
  obtain n where n: "n = nat (intermediate_size c)" "0 < n" "sizes Wg = [2 * n, h]" "sizes Wd = [h, n]"
    using h(2) GatedW by (auto simp: mlp_sizes_def)
  have "h = nat (hidden_size c)" "act_halves ops" "\<forall>row\<in>set X. length row = h" "X \<noteq> []" "8 * tp \<le> n"
    using h(1) ops X wide n by (auto simp: kernel_laws_def rows_of_def wide_enough_def GatedW)
  from gated_mlp_group [OF red this(2) act tp(1) _ _ n(1,2) this(1) n(3,4) this(3-5), of "map G [0..<tp]"] G
  show ?thesis unfolding mlp_forward_def ms s by (simp add: mlp_rows_def GatedW)
next
  case (MoeW Wr Wg Wd)
  obtain G where G: "\<And>r. r < tp \<Longrightarrow> ms ! r = Moe (G r) \<and> moe_loaded c Wr Wg Wd tp r (G r)"
    using ld MoeW unfolding mlp_kind_loaded_def by (simp, metis)
  have ms: "ms = map Moe (map G [0..<tp])" by (rule nth_equalityI) (use G tp(2) in simp_all)
  have s: "moes (map Moe gs) = gs" for gs :: "'a moe_mlp list" by (induction gs) simp_all
  obtain E n where n: "moe_shape c E n h" "sizes Wr = [E, h]" "sizes Wg = [E, 2 * n, h]" "sizes Wd = [E, h, n]"
    using h(2) MoeW by (auto simp: mlp_sizes_def)
  have "topk_ok ops" "\<forall>row\<in>set X. length row = h" using ops X by (simp_all add: kernel_laws_def rows_of_def)
  from moe_group [OF red this(1) act tp(1) _ _ n this(2), of "map G [0..<tp]"] G tp(1)
  show ?thesis unfolding mlp_forward_def ms s by (simp add: mlp_rows_def MoeW)
qed

text \<open>The backends of the ranks of a group of \<open>tp\<close>: each stores and attends to its own KV heads.\<close>

definition group_backends ::
  "'a head_attn \<Rightarrow> nat \<Rightarrow> nat \<Rightarrow> nat \<Rightarrow> nat \<Rightarrow> ('a rows \<Rightarrow> 'a rows \<Rightarrow> 'a rows \<Rightarrow> 'a rows result) list \<Rightarrow> bool" where
  "group_backends ha nq nk d tp bks \<longleftrightarrow> keeps_heads d ha \<and> length bks = tp \<and>
     (\<forall>r<tp. head_wise ha (r * (nk div tp)) (nq div tp) (nk div tp) d (bks ! r))"

definition group_runs ::
  "('a::field rows list \<Rightarrow> 'a rows list) \<Rightarrow> 'a layer_ops \<Rightarrow> model_config \<Rightarrow> nat \<Rightarrow> nat \<Rightarrow> nat \<Rightarrow> nat \<Rightarrow> bool" where
  "group_runs reduce ops c nq nk d h \<longleftrightarrow>
     adds_up reduce \<and> kernel_laws ops d \<and> known_act (hidden_act c) \<and> attn_shape c nq nk d h"

lemma map2_norm_rows:
  "length ws = n \<Longrightarrow> \<forall>r<n. ws ! r = w \<Longrightarrow> map2 (rms_norm_rows ops) ws (replicate n X) = replicate n (rms_norm_rows ops w X)"
  by (rule nth_equalityI) simp_all

lemma map2_replicate [simp]: "map2 f (replicate n x) (replicate n y) = replicate n (f x y)"
  by (induction n) simp_all

lemma layer_attention:
  assumes g: "group_runs reduce ops c nq nk d h" and bk: "group_backends ha nq nk d tp bks" and w: "layer_sizes c nq nk d h w"
    and tp: "0 < tp" "length ds = tp" and ld: "\<forall>r<tp. layer_loaded c w tp r (ds ! r)" and X: "rows_of T h X" "length poss = T"
  shows "rope_attn_forward reduce ops bks (map self_attn ds) poss (replicate tp X) =
      Inr (replicate tp (attn_rows ops ha nq nk d (qkv_w w) (o_w w) (q_norm_w w) (k_norm_w w) poss X))"
  by (rule attn_group [where c = c and h = h and T = T])
    (use assms in \<open>simp_all add: group_runs_def group_backends_def layer_sizes_def layer_loaded_def kernel_laws_def\<close>)

lemma layer_mlp:
  assumes g: "group_runs reduce ops c nq nk d h" and w: "layer_sizes c nq nk d h w"
    and tp: "0 < tp" "length ds = tp" and ld: "\<forall>r<tp. layer_loaded c w tp r (ds ! r)" and X: "rows_of T h X" "0 < T" and wide: "wide_enough tp (mlp_w w)"
  shows "mlp_forward reduce ops (map mlp_of ds) (replicate tp X) = Inr (replicate tp (mlp_rows ops c (mlp_w w) X))"
  by (rule mlp_group [where h = h and d = d and T = T])
    (use assms in \<open>simp_all add: group_runs_def layer_sizes_def layer_loaded_def attn_shape_def\<close>)

lemma attn_sum_of:
  assumes "group_runs reduce ops c nq nk d h" "layer_sizes c nq nk d h w" "rows_of T h X"
  shows "rows_of T h (attn_sum ops ha nq nk d w poss X)" "rows_of T h (mlp_part ops c w X)"
proof -
  have k: "kernel_laws ops d" "sizes (o_w w) = [h, nq * d]" "mlp_sizes c h (mlp_w w)"
    using assms(1,2) by (simp_all add: group_runs_def layer_sizes_def)
  show "rows_of T h (attn_sum ops ha nq nk d w poss X)"
    unfolding attn_sum_def by (intro add_rows_of assms(3) attn_rows_of [OF rms_norm_rows_of [OF k(1) assms(3)] k(2)])
  show "rows_of T h (mlp_part ops c w X)"
    unfolding mlp_part_def by (intro mlp_rows_of [OF k(3) rms_norm_rows_of [OF k(1) assms(3)]])
qed

lemma layer_rows_of:
  assumes "group_runs reduce ops c nq nk d h" "layer_sizes c nq nk d h w" "rows_of T h X"
  shows "rows_of T h (layer_rows ops c ha nq nk d w poss X)"
  using assms by (simp add: layer_rows_def Let_def add_rows_of attn_sum_of)

lemma decoder_group:
  assumes g: "group_runs reduce ops c nq nk d h" and bk: "group_backends ha nq nk d tp bks" and w: "layer_sizes c nq nk d h w"
    and tp: "0 < tp" "length ds = tp" and ld: "\<forall>r<tp. layer_loaded c w tp r (ds ! r)" and X: "rows_of T h X" "length poss = T" "0 < T" and wide: "wide_enough tp (mlp_w w)"
  shows "decoder_forward reduce ops bks ds poss (replicate tp X) = Inr (replicate tp (layer_rows ops c ha nq nk d w poss X))"
proof -
  have k: "kernel_laws ops d" using g by (simp add: group_runs_def)
  have n1: "map2 (rms_norm_rows ops) (map input_layernorm ds) (replicate tp X) = replicate tp (rms_norm_rows ops (in_norm_w w) X)" for X
    by (rule map2_norm_rows) (use tp ld in \<open>simp_all add: layer_loaded_def\<close>)
  have n2: "map2 (rms_norm_rows ops) (map post_attention_layernorm ds) (replicate tp X) = replicate tp (rms_norm_rows ops (post_norm_w w) X)" for X
    by (rule map2_norm_rows) (use tp ld in \<open>simp_all add: layer_loaded_def\<close>)
  have a: "rows_of T h (attn_sum ops ha nq nk d w poss X)" by (rule attn_sum_of(1) [OF g w X(1)])
  show ?thesis
    using layer_attention [OF g bk w tp ld rms_norm_rows_of [OF k X(1), of "in_norm_w w"] X(2)]
      layer_mlp [OF g w tp ld rms_norm_rows_of [OF k a, of "post_norm_w w"] X(3) wide]
    by (simp add: decoder_forward_def n1 n2 layer_rows_def Let_def attn_sum_def mlp_part_def)
qed

text \<open>
  The fused layer leaves the sum undone: what it carries as \<open>x\<close> and residual adds up to what the plain layer
  returns.
\<close>

lemma map2_fused:
  assumes "kernel_laws ops d" "length ws = n" "\<forall>r<n. ws ! r = w" "rows_of T h X" "rows_of T h R"
  shows "map2 (fused_add_rows ops) ws (replicate n (X, R)) = replicate n (rms_norm_rows ops w (add_rows R X), add_rows R X)"
  by (rule nth_equalityI) (use assms(2,3) fused_rows [OF assms(1,4,5)] in simp_all)

lemma fused_decoder_group:
  assumes g: "group_runs reduce ops c nq nk d h" and bk: "group_backends ha nq nk d tp bks" and w: "layer_sizes c nq nk d h w"
    and tp: "0 < tp" "length ds = tp" and ld: "\<forall>r<tp. layer_loaded c w tp r (ds ! r)" and X: "rows_of T h X" "length poss = T" "0 < T" and wide: "wide_enough tp (mlp_w w)"
    and s: "s = (replicate tp X, None) \<or> (\<exists>Y R. s = (replicate tp Y, Some (replicate tp R)) \<and> rows_of T h Y \<and> rows_of T h R \<and> add_rows R Y = X)"
  shows "\<exists>Y R. fused_decoder_forward reduce ops bks ds poss s = Inr (replicate tp Y, Some (replicate tp R)) \<and>
    rows_of T h Y \<and> rows_of T h R \<and> add_rows R Y = layer_rows ops c ha nq nk d w poss X"
proof -
  have k: "kernel_laws ops d" using g by (simp add: group_runs_def)
  let ?A = "attn_rows ops ha nq nk d (qkv_w w) (o_w w) (q_norm_w w) (k_norm_w w) poss (rms_norm_rows ops (in_norm_w w) X)"
  have n1: "length (map input_layernorm ds) = tp" "\<forall>r<tp. map input_layernorm ds ! r = in_norm_w w"
    and n2: "length (map post_attention_layernorm ds) = tp" "\<forall>r<tp. map post_attention_layernorm ds ! r = post_norm_w w"
    using tp ld by (simp_all add: layer_loaded_def)
  have o: "sizes (o_w w) = [h, nq * d]" using w by (simp add: layer_sizes_def)
  have A: "rows_of T h ?A" by (rule attn_rows_of [OF rms_norm_rows_of [OF k X(1)] o])
  have a: "rows_of T h (attn_sum ops ha nq nk d w poss X)" by (rule attn_sum_of(1) [OF g w X(1)])
  have rest: "res_bind (rope_attn_forward reduce ops bks (map self_attn ds) poss (replicate tp (rms_norm_rows ops (in_norm_w w) X))) (\<lambda>attn_out.
      let ps = map2 (fused_add_rows ops) (map post_attention_layernorm ds) (zip attn_out (replicate tp X)) in
      res_bind (mlp_forward reduce ops (map mlp_of ds) (map fst ps)) (\<lambda>x2. Inr (x2, Some (map snd ps)))) =
    Inr (replicate tp (mlp_part ops c w (attn_sum ops ha nq nk d w poss X)), Some (replicate tp (attn_sum ops ha nq nk d w poss X)))"
    using layer_mlp [OF g w tp ld rms_norm_rows_of [OF k a, of "post_norm_w w"] X(3) wide]
    unfolding layer_attention [OF g bk w tp ld rms_norm_rows_of [OF k X(1), of "in_norm_w w"] X(2)] res_bind_Inr Let_def
      zip_replicate min.idem map2_fused [OF k n2 A X(1)]
    by (simp add: attn_sum_def mlp_part_def)
  have first: "fused_decoder_forward reduce ops bks ds poss s =
      res_bind (rope_attn_forward reduce ops bks (map self_attn ds) poss (replicate tp (rms_norm_rows ops (in_norm_w w) X))) (\<lambda>attn_out.
      let ps = map2 (fused_add_rows ops) (map post_attention_layernorm ds) (zip attn_out (replicate tp X)) in
      res_bind (mlp_forward reduce ops (map mlp_of ds) (map fst ps)) (\<lambda>x2. Inr (x2, Some (map snd ps))))"
    using s
  proof
    assume "s = (replicate tp X, None)"
    then show ?thesis by (simp add: fused_decoder_forward_def map2_norm_rows [OF n1])
  next
    assume "\<exists>Y R. s = (replicate tp Y, Some (replicate tp R)) \<and> rows_of T h Y \<and> rows_of T h R \<and> add_rows R Y = X"
    then obtain Y R where s: "s = (replicate tp Y, Some (replicate tp R))" "rows_of T h Y" "rows_of T h R" "add_rows R Y = X"
      by blast
    show ?thesis by (simp add: Let_def fused_decoder_forward_def s(1) map2_fused [OF k n1 s(2,3)] s(4))
  qed
  show ?thesis
    by (intro exI conjI, rule trans [OF first rest])
      (simp_all add: attn_sum_of(2) [OF g w a] a layer_rows_def Let_def)
qed

section \<open>All layers\<close>

definition model_rows ::
  "'a::field layer_ops \<Rightarrow> model_config \<Rightarrow> (nat \<Rightarrow> 'a head_attn) \<Rightarrow> nat \<Rightarrow> nat \<Rightarrow> nat \<Rightarrow> 'a model_weights \<Rightarrow> int list \<Rightarrow> nat \<Rightarrow> 'a rows \<Rightarrow> 'a rows" where
  "model_rows ops c ha nq nk d w poss n X = fold (\<lambda>l. layer_rows ops c (ha l) nq nk d (layers_w w ! l) poss) [0..<n] X"

definition group_holds ::
  "model_config \<Rightarrow> (nat \<Rightarrow> 'a head_attn) \<Rightarrow> nat \<Rightarrow> nat \<Rightarrow> nat \<Rightarrow> nat \<Rightarrow> 'a::one model_weights \<Rightarrow>
   (nat \<Rightarrow> ('a rows \<Rightarrow> 'a rows \<Rightarrow> 'a rows \<Rightarrow> 'a rows result) list) \<Rightarrow> 'a causal_lm list \<Rightarrow> bool" where
  "group_holds c ha nq nk d tp w bks ms \<longleftrightarrow> 0 < tp \<and> length ms = tp \<and>
     (\<forall>r<tp. model_holds c w tp r (ms ! r)) \<and> (\<forall>l<length (layers_w w). group_backends (ha l) nq nk d tp (bks l) \<and> wide_enough tp (mlp_w (layers_w w ! l)))"

lemma model_layer:
  assumes "model_sizes c nq nk d h w" "group_holds c ha nq nk d tp w bks ms" "l < length (layers_w w)"
  shows "layer_sizes c nq nk d h (layers_w w ! l)" "0 < tp" "length (map (\<lambda>m. decoders m ! l) ms) = tp"
    "\<forall>r<tp. layer_loaded c (layers_w w ! l) tp r (map (\<lambda>m. decoders m ! l) ms ! r)" "group_backends (ha l) nq nk d tp (bks l)" "wide_enough tp (mlp_w (layers_w w ! l))"
  using assms by (simp_all add: model_sizes_def group_holds_def model_holds_def)

lemma model_rows_of:
  assumes "group_runs reduce ops c nq nk d h" "model_sizes c nq nk d h w" "n \<le> length (layers_w w)" "rows_of T h X"
  shows "rows_of T h (model_rows ops c ha nq nk d w poss n X)"
  using assms(3)
proof (induction n)
  case (Suc n)
  then have "layer_sizes c nq nk d h (layers_w w ! n)" using assms(2) by (simp add: model_sizes_def)
  then show ?case using Suc layer_rows_of [OF assms(1)] by (simp add: model_rows_def)
qed (simp add: model_rows_def assms(4))

lemma layers_group:
  assumes g: "group_runs reduce ops c nq nk d h" and w: "model_sizes c nq nk d h w" and m: "group_holds c ha nq nk d tp w bks ms"
    and X: "rows_of T h X" "length poss = T" "0 < T" and n: "n \<le> length (layers_w w)"
  shows "res_fold (\<lambda>l. decoder_forward reduce ops (bks l) (map (\<lambda>m. decoders m ! l) ms) poss) [0..<n] (replicate tp X) =
    Inr (replicate tp (model_rows ops c ha nq nk d w poss n X))"
  using n
proof (induction n)
  case (Suc n)
  then have "n < length (layers_w w)" "n \<le> length (layers_w w)" by simp_all
  note l = model_layer [OF w m this(1)] and r = model_rows_of [OF g w this(2) X(1), of ha poss]
  show ?case
    using Suc decoder_group [OF g l(5) l(1) l(2) l(3) l(4) r X(2,3) l(6)] by (simp add: res_fold_append model_rows_def)
qed (simp add: model_rows_def)

lemma fused_layers_group:
  assumes g: "group_runs reduce ops c nq nk d h" and w: "model_sizes c nq nk d h w" and m: "group_holds c ha nq nk d tp w bks ms"
    and X: "rows_of T h X" "length poss = T" "0 < T" and n: "n \<le> length (layers_w w)"
  shows "\<exists>s. res_fold (\<lambda>l. fused_decoder_forward reduce ops (bks l) (map (\<lambda>m. decoders m ! l) ms) poss) [0..<n] (replicate tp X, None) = Inr s \<and>
    (s = (replicate tp (model_rows ops c ha nq nk d w poss n X), None) \<or>
     (\<exists>Y R. s = (replicate tp Y, Some (replicate tp R)) \<and> rows_of T h Y \<and> rows_of T h R \<and> add_rows R Y = model_rows ops c ha nq nk d w poss n X))"
  using n
proof (induction n)
  case (Suc n)
  then have "n < length (layers_w w)" "n \<le> length (layers_w w)" by simp_all
  note l = model_layer [OF w m this(1)] and r = model_rows_of [OF g w this(2) X(1), of ha poss]
  obtain s where s: "res_fold (\<lambda>l. fused_decoder_forward reduce ops (bks l) (map (\<lambda>m. decoders m ! l) ms) poss) [0..<n] (replicate tp X, None) = Inr s"
    "s = (replicate tp (model_rows ops c ha nq nk d w poss n X), None) \<or>
     (\<exists>Y R. s = (replicate tp Y, Some (replicate tp R)) \<and> rows_of T h Y \<and> rows_of T h R \<and> add_rows R Y = model_rows ops c ha nq nk d w poss n X)"
    using Suc by auto
  from fused_decoder_group [OF g l(5) l(1) l(2) l(3) l(4) r X(2,3) l(6) s(2)] obtain Y R where
    "fused_decoder_forward reduce ops (bks n) (map (\<lambda>m. decoders m ! n) ms) poss s = Inr (replicate tp Y, Some (replicate tp R))"
    "rows_of T h Y" "rows_of T h R" "add_rows R Y = layer_rows ops c (ha n) nq nk d (layers_w w ! n) poss (model_rows ops c ha nq nk d w poss n X)"
    by blast
  then show ?case using s(1) by (simp add: res_fold_append model_rows_def) blast
qed (simp add: model_rows_def)

text \<open>From token ids to logits.\<close>

definition model_logits ::
  "'a::field layer_ops \<Rightarrow> model_config \<Rightarrow> (nat \<Rightarrow> 'a head_attn) \<Rightarrow> nat \<Rightarrow> nat \<Rightarrow> nat \<Rightarrow> 'a model_weights \<Rightarrow> int list \<Rightarrow> int list \<Rightarrow>
   nat list option \<Rightarrow> 'a rows result" where
  "model_logits ops c ha nq nk d w ids poss sel =
     res_bind (embedding (embed_w w) ids) (\<lambda>X.
     res_bind (select_lm_head_input sel (rms_norm_rows ops (norm_w w) (model_rows ops c ha nq nk d w poss (length (layers_w w)) X))) (\<lambda>Z.
     Inr (map (linear_row (head_w w) None) Z)))"

lemma res_map_same: "xs \<noteq> [] \<Longrightarrow> \<forall>x\<in>set xs. f x = v \<Longrightarrow> res_map f xs = res_bind v (\<lambda>y. Inr (replicate (length xs) y))"
proof (induction xs)
  case (Cons x xs)
  then show ?case by (cases "xs = []"; cases v) auto
qed simp

lemma embedding_rows:
  assumes "embedding W ids = Inr X"
  shows "rows_of (length ids) (sizes W ! 1) X"
proof -
  have 1: "length Y = length ids" if "res_map f ids = Inr Y" for f and Y :: "'a rows"
    using that by (induction ids arbitrary: Y) (auto simp: res_simps)
  have 2: "\<forall>row\<in>set Y. length row = k" if "res_map (\<lambda>i. if P i then Inr (map (g i) [0..<k]) else Inl e) ids = Inr Y"
    for P g k e and Y :: "'a rows"
    using that by (induction ids arbitrary: Y) (auto simp: res_simps split: if_splits)
  show ?thesis unfolding rows_of_def using 1 [OF assms [unfolded embedding_def]] 2 [OF assms [unfolded embedding_def]] by blast
qed

lemma select_rows: "select_lm_head_input sel X = Inr Z \<Longrightarrow> rows_of T h X \<Longrightarrow> \<forall>row\<in>set Z. length row = h"
  by (auto simp: select_lm_head_input_def rows_of_def list_all_iff split: option.splits if_splits)

lemma head_group:
  assumes w: "model_sizes c nq nk d h w" and m: "group_holds c ha nq nk d tp w bks ms" and X: "rows_of T h X"
  shows "lm_head_forward ms sel (replicate tp X) =
    res_bind (select_lm_head_input sel X) (\<lambda>Z. Inr (replicate tp (map (linear_row (head_w w) None) Z)))"
proof -
  let ?f = "\<lambda>(m, x). res_bind (select_lm_head_input sel x) (linear_forward (lm_head m))"
  let ?v = "res_bind (select_lm_head_input sel X) (\<lambda>Z. Inr (map (linear_row (head_w w) None) Z))"
  have tp: "0 < tp" "length ms = tp" using m by (simp_all add: group_holds_def)
  have "?f p = ?v" if "p \<in> set (zip ms (replicate tp X))" for p
  proof -
    obtain r where p: "p = (ms ! r, X)" "r < tp" using \<open>p \<in> set (zip ms (replicate tp X))\<close> tp(2) by (auto simp: set_zip)
    then have "weight (lm_head (ms ! r)) = head_w w" "bias (lm_head (ms ! r)) = None"
      using m by (simp_all add: group_holds_def model_holds_def)
    moreover have "dims (head_w w) = 2" "sizes (head_w w) ! 1 = h" using w by (simp_all add: model_sizes_def dims_def)
    ultimately show ?thesis
      using select_rows [OF _ X, of sel] p(1) by (cases "select_lm_head_input sel X") (simp_all add: linear_forward_def linear_ok)
  qed
  then have "res_map ?f (zip ms (replicate tp X)) = res_bind ?v (\<lambda>y. Inr (replicate (length (zip ms (replicate tp X))) y))"
    using tp by (intro res_map_same) (auto simp: zip_eq_Nil_iff)
  then show ?thesis using tp by (simp add: lm_head_forward_def on_ranks_def res_bind_assoc)
qed

lemma embed_group:
  assumes m: "group_holds c ha nq nk d tp w bks ms"
  shows "res_map (\<lambda>m. embedding (embed_tokens m) ids) ms = res_bind (embedding (embed_w w) ids) (\<lambda>X. Inr (replicate tp X))"
proof -
  have tp: "0 < tp" "length ms = tp" using m by (simp_all add: group_holds_def)
  have "\<forall>x\<in>set ms. embedding (embed_tokens x) ids = embedding (embed_w w) ids"
    using m by (auto simp: group_holds_def model_holds_def in_set_conv_nth)
  from res_map_same [OF _ this] tp show ?thesis by auto
qed

lemma plain_group:
  assumes g: "group_runs reduce ops c nq nk d h" and w: "model_sizes c nq nk d h w" and m: "group_holds c ha nq nk d tp w bks ms"
    and p: "length poss = length ids" "0 < length ids"
  shows "plain_model_forward reduce ops bks ms (length (layers_w w)) ids poss =
    res_bind (embedding (embed_w w) ids) (\<lambda>X.
      Inr (replicate tp (rms_norm_rows ops (norm_w w) (model_rows ops c ha nq nk d w poss (length (layers_w w)) X))))"
proof (cases "embedding (embed_w w) ids")
  case (Inr X)
  have X: "rows_of (length ids) h X" using embedding_rows [OF Inr] w by (simp add: model_sizes_def)
  let ?Y = "model_rows ops c ha nq nk d w poss (length (layers_w w)) X"
  have n: "map2 (rms_norm_rows ops) (map final_norm ms) (replicate tp ?Y) = replicate tp (rms_norm_rows ops (norm_w w) ?Y)"
    by (rule map2_norm_rows) (use m in \<open>simp_all add: group_holds_def model_holds_def\<close>)
  show ?thesis
    unfolding plain_model_forward_def embed_group [OF m] Inr res_bind_Inr layers_group [OF g w m X p le_refl] n ..
qed (simp add: plain_model_forward_def embed_group [OF m])

lemma fused_group:
  assumes g: "group_runs reduce ops c nq nk d h" and w: "model_sizes c nq nk d h w" and m: "group_holds c ha nq nk d tp w bks ms"
    and p: "length poss = length ids" "0 < length ids"
  shows "fused_model_forward reduce ops bks ms (length (layers_w w)) ids poss = plain_model_forward reduce ops bks ms (length (layers_w w)) ids poss"
proof (cases "embedding (embed_w w) ids")
  case (Inr X)
  have X: "rows_of (length ids) h X" using embedding_rows [OF Inr] w by (simp add: model_sizes_def)
  let ?Y = "model_rows ops c ha nq nk d w poss (length (layers_w w)) X"
  have k: "kernel_laws ops d" using g by (simp add: group_runs_def)
  have fn: "length (map final_norm ms) = tp" "\<forall>r<tp. map final_norm ms ! r = norm_w w" and lm: "length ms = tp"
    using m by (simp_all add: group_holds_def model_holds_def)
  obtain s where s: "res_fold (\<lambda>l. fused_decoder_forward reduce ops (bks l) (map (\<lambda>m. decoders m ! l) ms) poss) [0..<length (layers_w w)] (replicate tp X, None) = Inr s"
    "s = (replicate tp ?Y, None) \<or> (\<exists>Z R. s = (replicate tp Z, Some (replicate tp R)) \<and> rows_of (length ids) h Z \<and> rows_of (length ids) h R \<and> add_rows R Z = ?Y)"
    using fused_layers_group [OF g w m X p le_refl] by blast
  have "(case s of (ys, residual) \<Rightarrow> Inr (case residual of
           Some rs \<Rightarrow> map2 (\<lambda>m p. fst (fused_add_rows ops (final_norm m) p)) ms (zip ys rs)
         | None \<Rightarrow> map2 (rms_norm_rows ops) (map final_norm ms) ys)) = Inr (replicate tp (rms_norm_rows ops (norm_w w) ?Y))"
    using s(2)
  proof
    assume "s = (replicate tp ?Y, None)"
    then show ?thesis by (simp add: map2_norm_rows [OF fn])
  next
    assume "\<exists>Z R. s = (replicate tp Z, Some (replicate tp R)) \<and> rows_of (length ids) h Z \<and> rows_of (length ids) h R \<and> add_rows R Z = ?Y"
    then obtain Z R where Z: "s = (replicate tp Z, Some (replicate tp R))" "rows_of (length ids) h Z" "rows_of (length ids) h R" "add_rows R Z = ?Y"
      by blast
    have "map2 (\<lambda>m p. fst (fused_add_rows ops (final_norm m) p)) ms (zip (replicate tp Z) (replicate tp R)) = replicate tp (rms_norm_rows ops (norm_w w) ?Y)"
      by (rule nth_equalityI) (use lm fn fused_rows [OF k Z(2,3)] Z(4) in simp_all)
    then show ?thesis by (simp add: Z(1))
  qed
  then show ?thesis
    unfolding fused_model_forward_def plain_group [OF assms] embed_group [OF m] Inr res_bind_Inr s(1) .
qed (simp add: fused_model_forward_def plain_group [OF assms] embed_group [OF m])

lemma model_group:
  assumes g: "group_runs reduce ops c nq nk d h" and w: "model_sizes c nq nk d h w" and m: "group_holds c ha nq nk d tp w bks ms"
    and p: "length poss = length ids" "0 < length ids"
  shows "model_forward k reduce ops bks ms (length (layers_w w)) ids poss sel =
    res_bind (model_logits ops c ha nq nk d w ids poss sel) (\<lambda>y. Inr (replicate tp y))"
proof (cases "embedding (embed_w w) ids")
  case (Inr X)
  have X: "rows_of (length ids) h X" using embedding_rows [OF Inr] w by (simp add: model_sizes_def)
  have k: "kernel_laws ops d" using g by (simp add: group_runs_def)
  have Y: "rows_of (length ids) h (rms_norm_rows ops (norm_w w) (model_rows ops c ha nq nk d w poss (length (layers_w w)) X))"
    by (rule rms_norm_rows_of [OF k model_rows_of [OF g w le_refl X]])
  show ?thesis
    by (simp add: model_forward_def fused_causal_forward_def plain_causal_forward_def fused_group [OF assms] plain_group [OF assms] Inr head_group [OF w m Y] model_logits_def res_bind_assoc)
qed (simp add: model_forward_def fused_causal_forward_def plain_causal_forward_def fused_group [OF assms] plain_group [OF assms] model_logits_def)

definition group_models ::
  "model_config \<Rightarrow> (nat \<Rightarrow> 'a head_attn) \<Rightarrow> nat \<Rightarrow> nat \<Rightarrow> nat \<Rightarrow> nat \<Rightarrow> 'a::one model_weights \<Rightarrow>
   (nat \<Rightarrow> ('a rows \<Rightarrow> 'a rows \<Rightarrow> 'a rows \<Rightarrow> 'a rows result) list) \<Rightarrow> 'a causal_lm list \<Rightarrow> bool" where
  "group_models c ha nq nk d tp w bks ms \<longleftrightarrow> 0 < tp \<and> length ms = tp \<and> kind_of c \<noteq> Qwen2ForCausalLM \<and>
     (\<forall>r<tp. model_loaded c w tp r (ms ! r)) \<and> (\<forall>l<length (layers_w w). group_backends (ha l) nq nk d tp (bks l) \<and> wide_enough tp (mlp_w (layers_w w ! l)))"

lemma group_models_hold: "model_sizes c nq nk d h w \<Longrightarrow> group_models c ha nq nk d tp w bks ms \<Longrightarrow> group_holds c ha nq nk d tp w bks ms"
  by (simp add: group_models_def group_holds_def model_loaded_holds)

end
