(* ===== verification/TensorParallel.thy ===== *)
theory TensorParallel
  imports ModelProps
begin

text \<open>
  Tensor parallelism and fused residuals, as properties of the models, and a small mixture-of-experts model on two ranks
  to which they apply.
\<close>

text \<open>
  C4: A group of ranks computes what one process computes: when every rank has built the model of the configuration and the loader
  has copied its part of the same weights, each rank ends up with exactly the logits of a single process with all of them,
  and out-of-range tokens fail in the same way. Rounding apart, for every model but Qwen2, whose biases the loader misplaces.
\<close>
theorem tensor_parallel_model:
  fixes ops :: "'a::field layer_ops"
  assumes "group_runs reduce ops c nq nk d h" and "model_sizes c nq nk d h w"
    and "group_models c ha nq nk d tp w bks ms" and "group_models c ha nq nk d 1 w bks1 [m]"
    and "length poss = length ids" and "ids \<noteq> []"
  shows "model_forward (kind_of c) reduce ops bks ms (nat (num_layers c)) ids poss sel =
    res_bind (model_forward (kind_of c) reduce ops bks1 [m] (nat (num_layers c)) ids poss sel) (\<lambda>ys. Inr (replicate tp (hd ys)))"
proof -
  have n: "nat (num_layers c) = length (layers_w w)" using assms(2) by (simp add: model_sizes_def)
  have i: "0 < length ids" using assms(6) by simp
  note holds = group_models_hold [OF assms(2)]
  show ?thesis
    unfolding n model_group [OF assms(1,2) holds [OF assms(3)] assms(5) i] model_group [OF assms(1,2) holds [OF assms(4)] assms(5) i]
    by (simp add: res_bind_assoc)
qed

text \<open>
  C20: The Qwen3 models leave every residual addition to the next normalization; on the same layers they compute exactly
  what the plain style of the Llama models computes.
\<close>
theorem fused_residual_model:
  fixes ops :: "'a::field layer_ops"
  assumes "group_runs reduce ops c nq nk d h" and "model_sizes c nq nk d h w"
    and "group_models c ha nq nk d tp w bks ms" and "length poss = length ids" and "ids \<noteq> []"
  shows "fused_model_forward reduce ops bks ms (nat (num_layers c)) ids poss =
    plain_model_forward reduce ops bks ms (nat (num_layers c)) ids poss"
proof -
  have n: "nat (num_layers c) = length (layers_w w)" using assms(2) by (simp add: model_sizes_def)
  have i: "0 < length ids" using assms(5) by simp
  show ?thesis unfolding n by (rule fused_group [OF assms(1,2) group_models_hold [OF assms(2,3)] assms(4) i])
qed

text \<open>
  C21: Running every expert once for all the tokens that chose it, for one rank of the routing after the other, gives each token
  the sum of the outputs of its own experts, each times its routing weight (divided by their sum when the model renormalizes).
\<close>
theorem experts_weighted_sum:
  fixes ops :: "'a::field layer_ops"
  assumes "expert_shape m n" "moe_top_k m \<le> moe_experts m" and "topk_ok ops"
    and "\<forall>row\<in>set x. length row = moe_hidden m" and "length logits = length x" "\<forall>row\<in>set logits. length row = moe_experts m"
  shows "moe_local ops m x logits = Inr (map2 (\<lambda>row lg. map (\<lambda>j.
      \<Sum>(w, e)\<leftarrow>route_tokens ops m lg. expert_row (act_fun ops (moe_act m)) (moe_gate_up m) (moe_down m) e row ! j * w) [0..<moe_hidden m]) x logits)"
  using moe_local_rows [OF assms] by (simp add: weighted_row_def)

section \<open>A small model\<close>

definition ramp :: "nat list \<Rightarrow> rat tensor" where
  "ramp sz = \<lparr>sizes = sz, elem = (\<lambda>ix. of_nat (foldl (\<lambda>a i. 2 * a + i) 1 ix))\<rparr>"

definition demo_lm_config :: model_config where
  "demo_lm_config = demo_model_config\<lparr>num_layers := 2, num_qo_heads := 4, num_kv_heads := 2, head_dim := 1, hidden_size := 2,
     mc_vocab_size := 3, hidden_act := ''silu'', tie_word_embeddings := True, num_experts := 2, num_experts_per_tok := 1,
     moe_intermediate_size := 2, norm_topk_prob := False, architectures := [''Qwen3MoeForCausalLM'']\<rparr>"

definition demo_layer_w :: "rat layer_weights" where
  "demo_layer_w = \<lparr>qkv_w = ramp [8, 2], o_w = ramp [2, 4], q_norm_w = Some [2], k_norm_w = Some [3],
     mlp_w = MoeW (ramp [2, 2]) (ramp [2, 4, 2]) (ramp [2, 2, 2]), in_norm_w = [1, 2], post_norm_w = [2, 1]\<rparr>"

definition demo_lm_w :: "rat model_weights" where
  "demo_lm_w = \<lparr>embed_w = ramp [3, 2], layers_w = [demo_layer_w, demo_layer_w], norm_w = [1, 1], head_w = ramp [3, 2]\<rparr>"

definition demo_lm_ops :: "rat layer_ops" where
  "demo_lm_ops = \<lparr>row_norm = (\<lambda>_ x. x), head_norm = (\<lambda>w x. map (\<lambda>y. hd w * y) x),
     fused_add_norm = (\<lambda>_ (x, r). (map2 (+) x r, map2 (+) x r)), rotate_head = (\<lambda>p x. map (\<lambda>y. y + of_int p) x),
     silu = (\<lambda>y. y), gelu = (\<lambda>y. y), expf = (\<lambda>y. y), tanhf = (\<lambda>y. y), act_and_mul = (\<lambda>f row. map (\<lambda>i. f (row ! i) * row ! (length row div 2 + i)) [0..<length row div 2]),
     softmax = (\<lambda>l. l), topk = (\<lambda>k l. map (\<lambda>i. (l ! i, i)) [0..<k])\<rparr>"

definition demo_head_attn :: "rat head_attn" where
  "demo_head_attn j K V t x = map (\<lambda>y. y * sum_list (map sum_list K) + sum_list (V ! t)) x"

definition demo_backend :: "nat \<Rightarrow> nat \<Rightarrow> rat rows \<Rightarrow> rat rows \<Rightarrow> rat rows \<Rightarrow> rat rows result" where
  "demo_backend tp r Q K V = Inr (map (attn_heads demo_head_attn 2 (r * (2 div tp)) (4 div tp) (2 div tp) 1 Q K V) [0..<length Q])"

definition demo_part :: "string \<Rightarrow> rat tensor \<Rightarrow> nat \<Rightarrow> nat \<Rightarrow> rat tensor \<Rightarrow> rat tensor" where
  "demo_part name W tp r p = (case shard_tensor_for_parameter name W (sizes p) r tp (Some demo_lm_config) of Inr T \<Rightarrow> T | Inl _ \<Rightarrow> p)"

definition demo_load_layer :: "nat \<Rightarrow> nat \<Rightarrow> rat decoder \<Rightarrow> rat decoder" where
  "demo_load_layer tp r ly0 =
     (let a0 = self_attn ly0;
          a = a0\<lparr>qkv_proj := (qkv_proj a0)\<lparr>weight := demo_part ''l.qkv_proj.weight'' (ramp [8, 2]) tp r (weight (qkv_proj a0))\<rparr>,
                o_proj := (o_proj a0)\<lparr>weight := demo_part ''l.o_proj.weight'' (ramp [2, 4]) tp r (weight (o_proj a0))\<rparr>,
                q_norm := Some [2], k_norm := Some [3]\<rparr>;
          e0 = (case mlp_of ly0 of Moe e \<Rightarrow> e);
          e = e0\<lparr>router := (router e0)\<lparr>weight := ramp [2, 2]\<rparr>,
                experts := (experts e0)\<lparr>moe_gate_up := demo_part ''l.experts.gate_up_proj'' (ramp [2, 4, 2]) tp r (moe_gate_up (experts e0)),
                                        moe_down := demo_part ''l.experts.down_proj'' (ramp [2, 2, 2]) tp r (moe_down (experts e0))\<rparr>\<rparr> in
      \<lparr>self_attn = a, mlp_of = Moe e, input_layernorm = [1, 2], post_attention_layernorm = [2, 1]\<rparr>)"

definition demo_lm :: "nat \<Rightarrow> nat \<Rightarrow> rat causal_lm" where
  "demo_lm tp r = (case create_model (\<lambda>_. 0) (int tp) demo_lm_config of Inr m0 \<Rightarrow>
     m0\<lparr>embed_tokens := ramp [3, 2], decoders := map (demo_load_layer tp r) (decoders m0), final_norm := [1, 1],
        lm_head := (lm_head m0)\<lparr>weight := ramp [3, 2]\<rparr>\<rparr>)"

lemma demo_kind: "kind_of demo_lm_config = Qwen3MoEForCausalLM"
  by code_simp

lemma demo_sizes: "model_sizes demo_lm_config 4 2 1 2 demo_lm_w"
  by (simp add: model_sizes_def attn_shape_def layer_sizes_def mlp_sizes_def moe_shape_def demo_lm_config_def demo_lm_w_def demo_layer_w_def ramp_def)

lemma demo_runs: "group_runs (\<lambda>ys. replicate (length ys) (sum_rows ys)) demo_lm_ops demo_lm_config 4 2 1 2"
proof -
  have "adds_up (\<lambda>ys. replicate (length ys) (sum_rows ys :: rat rows))" by (simp add: adds_up_def)
  moreover have "act_halves demo_lm_ops"
    by (auto simp: act_halves_def demo_lm_ops_def nth_append intro!: nth_equalityI)
  moreover have "topk_ok demo_lm_ops" by (auto simp: topk_ok_def demo_lm_ops_def)
  ultimately show ?thesis
    by (simp add: group_runs_def kernel_laws_def head_ops_def known_act_def attn_shape_def demo_lm_ops_def demo_lm_config_def)
qed

lemma demo_backends:
  assumes "tp \<in> {1, 2}"
  shows "group_backends demo_head_attn 4 2 1 tp (map (demo_backend tp) [0..<tp])"
  using assms by (auto simp: group_backends_def keeps_heads_def demo_head_attn_def head_wise_def demo_backend_def rows_of_def less_2_cases_iff)

lemmas demo_shard = shard_tensor_for_parameter_def shard_qkv_weight_def shard_expert_tensor_def slice_dim_def narrow_def cat2_def dims_def
  is_qkv_weight_def is_row_parallel_weight_def is_vocab_parallel_weight_def is_gate_up_or_col_weight_def contains_sub_def
  demo_part_def ramp_def demo_lm_config_def Let_def

lemma update_numeral [simp]: "(x # xs)[numeral n := y] = x # xs[pred_numeral n := y]"
  by (simp add: numeral_eq_Suc)

lemma demo_shards:
  assumes "tp \<in> {1, 2}" "r < tp"
  shows "\<exists>T. shard_tensor_for_parameter ''l.qkv_proj.weight'' (ramp [8, 2]) [8 div tp, 2] r tp (Some demo_lm_config) = Inr T \<and> sizes T = [8 div tp, 2]"
    "\<exists>T. shard_tensor_for_parameter ''l.o_proj.weight'' (ramp [2, 4]) [2, 4 div tp] r tp (Some demo_lm_config) = Inr T \<and> sizes T = [2, 4 div tp]"
    "\<exists>T. shard_tensor_for_parameter ''l.experts.gate_up_proj'' (ramp [2, 4, 2]) [2, 4 div tp, 2] r tp (Some demo_lm_config) = Inr T \<and> sizes T = [2, 4 div tp, 2]"
    "\<exists>T. shard_tensor_for_parameter ''l.experts.down_proj'' (ramp [2, 2, 2]) [2, 2, 2 div tp] r tp (Some demo_lm_config) = Inr T \<and> sizes T = [2, 2, 2 div tp]"
proof -
  have "(tp, r) \<in> {(1, 0), (2, 0), (2, 1)}" using assms by auto
  then show "\<exists>T. shard_tensor_for_parameter ''l.qkv_proj.weight'' (ramp [8, 2]) [8 div tp, 2] r tp (Some demo_lm_config) = Inr T \<and> sizes T = [8 div tp, 2]"
    "\<exists>T. shard_tensor_for_parameter ''l.o_proj.weight'' (ramp [2, 4]) [2, 4 div tp] r tp (Some demo_lm_config) = Inr T \<and> sizes T = [2, 4 div tp]"
    "\<exists>T. shard_tensor_for_parameter ''l.experts.gate_up_proj'' (ramp [2, 4, 2]) [2, 4 div tp, 2] r tp (Some demo_lm_config) = Inr T \<and> sizes T = [2, 4 div tp, 2]"
    "\<exists>T. shard_tensor_for_parameter ''l.experts.down_proj'' (ramp [2, 2, 2]) [2, 2, 2 div tp] r tp (Some demo_lm_config) = Inr T \<and> sizes T = [2, 2, 2 div tp]"
    by (auto simp: demo_shard)
qed

lemma demo_part_loaded:
  assumes "shard_tensor_for_parameter name W (sizes (weight l0)) r tp (Some demo_lm_config) = Inr T" "sizes T = sizes (weight l0)" "kind name"
  shows "linear_loaded kind demo_lm_config tp r W l0 (l0\<lparr>weight := demo_part name W tp r (weight l0)\<rparr>)"
  using assms unfolding linear_loaded_def demo_part_def by (auto intro!: exI [of _ name])

lemma demo_decoder:
  assumes tp: "tp \<in> {1, 2}" "r < tp" and i: "decoder_init (\<lambda>_. 0) (int tp) demo_lm_config False True True = Inr ly0"
  shows "layer_params demo_lm_config demo_layer_w tp r ly0 (demo_load_layer tp r ly0)"
proof -
  obtain e0 where m: "mlp_of ly0 = Moe e0" and sz: "sizes (weight (qkv_proj (self_attn ly0))) = [8 div tp, 2]"
    "sizes (weight (o_proj (self_attn ly0))) = [2, 4 div tp]" "q_norm (self_attn ly0) \<noteq> None" "k_norm (self_attn ly0) \<noteq> None"
    "sizes (weight (router e0)) = [2, 2]" "sizes (moe_gate_up (experts e0)) = [2, 4 div tp, 2]" "sizes (moe_down (experts e0)) = [2, 2, 2 div tp]"
    using i tp(1)
    by (auto simp: decoder_init_def rope_attn_init_def linear_qkv_merged_def linear_o_proj_def linear_base_def divide_even_def
        moe_mlp_init_def moe_layer_init_def linear_replicated_def demo_lm_config_def demo_model_config_def check_def Let_def)
  note sh = demo_shards [OF tp]
  have names: "is_qkv_weight ''l.qkv_proj.weight''" "row_kind ''l.o_proj.weight''"
    "contains_sub ''gate_up_proj'' ''l.experts.gate_up_proj''" "\<not> contains_sub ''gate_up_proj'' ''l.experts.down_proj''"
    by (simp_all add: is_qkv_weight_def row_kind_def is_row_parallel_weight_def is_gate_up_or_col_weight_def is_vocab_parallel_weight_def contains_sub_def)
  have "attn_params demo_lm_config (ramp [8, 2]) (ramp [2, 4]) (Some [2]) (Some [3]) tp r (self_attn ly0) (self_attn (demo_load_layer tp r ly0))"
  proof -
    have "linear_loaded is_qkv_weight demo_lm_config tp r (ramp [8, 2]) (qkv_proj (self_attn ly0))
        ((qkv_proj (self_attn ly0))\<lparr>weight := demo_part ''l.qkv_proj.weight'' (ramp [8, 2]) tp r (weight (qkv_proj (self_attn ly0)))\<rparr>)"
      using sh(1) demo_part_loaded [where kind = is_qkv_weight, OF _ _ names(1)] sz(1) by metis
    moreover have "linear_loaded row_kind demo_lm_config tp r (ramp [2, 4]) (o_proj (self_attn ly0))
        ((o_proj (self_attn ly0))\<lparr>weight := demo_part ''l.o_proj.weight'' (ramp [2, 4]) tp r (weight (o_proj (self_attn ly0)))\<rparr>)"
      using sh(2) demo_part_loaded [where kind = row_kind, OF _ _ names(2)] sz(2) by metis
    ultimately show ?thesis
      unfolding attn_params_def demo_load_layer_def Let_def by (intro exI conjI) (use sz in auto)
  qed
  moreover have "mlp_kind_params demo_lm_config (MoeW (ramp [2, 2]) (ramp [2, 4, 2]) (ramp [2, 2, 2])) tp r (mlp_of ly0) (mlp_of (demo_load_layer tp r ly0))"
  proof -
    obtain T1 T2 where T: "shard_tensor_for_parameter ''l.experts.gate_up_proj'' (ramp [2, 4, 2]) [2, 4 div tp, 2] r tp (Some demo_lm_config) = Inr T1" "sizes T1 = [2, 4 div tp, 2]"
      "shard_tensor_for_parameter ''l.experts.down_proj'' (ramp [2, 2, 2]) [2, 2, 2 div tp] r tp (Some demo_lm_config) = Inr T2" "sizes T2 = [2, 2, 2 div tp]"
      using sh(3,4) by blast
    have "linear_loaded (\<lambda>_. True) demo_lm_config tp r (ramp [2, 2]) (router e0) ((router e0)\<lparr>weight := ramp [2, 2]\<rparr>)"
      using sz by (auto simp: linear_loaded_def shard_tensor_for_parameter_def ramp_def)
    then have "moe_params demo_lm_config (ramp [2, 2]) (ramp [2, 4, 2]) (ramp [2, 2, 2]) tp r e0
      (e0\<lparr>router := (router e0)\<lparr>weight := ramp [2, 2]\<rparr>, experts := (experts e0)\<lparr>moe_gate_up := T1, moe_down := T2\<rparr>\<rparr>)"
      unfolding moe_params_def using T sz names by (intro exI conjI) auto
    then show ?thesis using T sz by (simp add: mlp_kind_params_def m demo_load_layer_def Let_def demo_part_def)
  qed
  ultimately show ?thesis by (simp add: layer_params_def demo_layer_w_def) (simp add: demo_load_layer_def Let_def)
qed

lemma demo_create:
  assumes tp: "tp \<in> {1, 2}"
  shows "\<exists>ly0 m0. decoder_init (\<lambda>_. 0 :: rat) (int tp) demo_lm_config False True True = Inr ly0 \<and>
    create_model (\<lambda>_. 0) (int tp) demo_lm_config = Inr m0 \<and> decoders m0 = [ly0, ly0] \<and> sizes (embed_tokens m0) = [3, 2]"
proof -
  have "\<exists>ly0. decoder_init (\<lambda>_. 0 :: rat) (int tp) demo_lm_config False True True = Inr ly0"
    using tp by (auto simp: decoder_init_def rope_attn_init_def linear_qkv_merged_def linear_o_proj_def linear_base_def divide_even_def
        moe_mlp_init_def moe_layer_init_def linear_replicated_def demo_lm_config_def demo_model_config_def check_def Let_def)
  moreover have "nat (num_layers demo_lm_config) = 2" "nat (mc_vocab_size demo_lm_config) = 3" "nat (hidden_size demo_lm_config) = 2"
    by (simp_all add: demo_lm_config_def)
  ultimately show ?thesis
    using demo_kind by (auto simp: create_model_def kind_of_def causal_lm_init_def layer_init_defs upt_rec Let_def)
qed

lemma demo_loaded:
  assumes tp: "tp \<in> {1, 2}" "r < tp"
  shows "model_loaded demo_lm_config demo_lm_w tp r (demo_lm tp r)"
proof -
  obtain ly0 m0 where i: "decoder_init (\<lambda>_. 0) (int tp) demo_lm_config False True True = Inr ly0"
    "create_model (\<lambda>_. 0 :: rat) (int tp) demo_lm_config = Inr m0" "decoders m0 = [ly0, ly0]" "sizes (embed_tokens m0) = [3, 2]"
    using demo_create [OF tp(1)] by blast
  have "tie_word_embeddings demo_lm_config" by (simp add: demo_lm_config_def)
  then have "model_params demo_lm_config demo_lm_w tp r m0 (demo_lm tp r)"
    using demo_decoder [OF tp i(1)] i(2-4)
    by (simp add: model_params_def demo_lm_def demo_lm_w_def shard_tensor_for_parameter_def ramp_def)
  then show ?thesis using i(2) unfolding model_loaded_def by blast
qed

lemma demo_group:
  assumes "tp \<in> {1, 2}"
  shows "group_models demo_lm_config (\<lambda>_. demo_head_attn) 4 2 1 tp demo_lm_w (\<lambda>_. map (demo_backend tp) [0..<tp]) (map (demo_lm tp) [0..<tp])"
proof -
  have "wide_enough tp (mlp_w (layers_w demo_lm_w ! l))" if "l < length (layers_w demo_lm_w)" for l
  proof -
    have "layers_w demo_lm_w ! l = demo_layer_w" using nth_mem [OF that] by (simp add: demo_lm_w_def)
    then show ?thesis by (simp add: demo_layer_w_def wide_enough_def)
  qed
  then show ?thesis using assms demo_loaded [OF assms] demo_backends [OF assms] demo_kind by (auto simp: group_models_def)
qed

theorem tensor_parallel_model_witness:
  "group_models demo_lm_config (\<lambda>_. demo_head_attn) 4 2 1 2 demo_lm_w (\<lambda>_. [demo_backend 2 0, demo_backend 2 1]) [demo_lm 2 0, demo_lm 2 1] \<and>
   model_forward Qwen3MoEForCausalLM (\<lambda>ys. replicate (length ys) (sum_rows ys)) demo_lm_ops (\<lambda>_. [demo_backend 2 0, demo_backend 2 1])
     [demo_lm 2 0, demo_lm 2 1] 2 [0, 2] [0, 1] (Some [1]) =
   res_bind (model_forward Qwen3MoEForCausalLM (\<lambda>ys. replicate (length ys) (sum_rows ys)) demo_lm_ops (\<lambda>_. [demo_backend 1 0])
     [demo_lm 1 0] 2 [0, 2] [0, 1] (Some [1])) (\<lambda>ys. Inr (replicate 2 (hd ys)))"
proof -
  have g: "group_models demo_lm_config (\<lambda>_. demo_head_attn) 4 2 1 2 demo_lm_w (\<lambda>_. [demo_backend 2 0, demo_backend 2 1]) [demo_lm 2 0, demo_lm 2 1]"
    "group_models demo_lm_config (\<lambda>_. demo_head_attn) 4 2 1 1 demo_lm_w (\<lambda>_. [demo_backend 1 0]) [demo_lm 1 0]"
    using demo_group [of 2] demo_group [of 1] by (simp_all add: upt_rec)
  have n: "nat (num_layers demo_lm_config) = 2" by (simp add: demo_lm_config_def)
  show ?thesis
    using tensor_parallel_model [OF demo_runs demo_sizes g, of "[0, 1]" "[0, 2]" "Some [1]"] g(1) by (simp only: demo_kind n) simp
qed

theorem fused_residual_model_witness:
  "fused_model_forward (\<lambda>ys. replicate (length ys) (sum_rows ys)) demo_lm_ops (\<lambda>_. [demo_backend 2 0, demo_backend 2 1])
     [demo_lm 2 0, demo_lm 2 1] 2 [1, 0] [3, 4] =
   plain_model_forward (\<lambda>ys. replicate (length ys) (sum_rows ys)) demo_lm_ops (\<lambda>_. [demo_backend 2 0, demo_backend 2 1])
     [demo_lm 2 0, demo_lm 2 1] 2 [1, 0] [3, 4]"
proof -
  have g: "group_models demo_lm_config (\<lambda>_. demo_head_attn) 4 2 1 2 demo_lm_w (\<lambda>_. [demo_backend 2 0, demo_backend 2 1]) [demo_lm 2 0, demo_lm 2 1]"
    using demo_group [of 2] by (simp add: upt_rec)
  have n: "nat (num_layers demo_lm_config) = 2" by (simp add: demo_lm_config_def)
  show ?thesis using fused_residual_model [OF demo_runs demo_sizes g, of "[3, 4]" "[1, 0]"] by (simp only: n) simp
qed

definition demo_experts :: "rat moe_layer" where
  "demo_experts = \<lparr>moe_experts = 2, moe_top_k = 2, moe_hidden = 1, moe_inter = 1, renormalize = False, moe_act = ''silu'',
     moe_gate_up = ramp [2, 2, 1], moe_down = ramp [2, 1, 1]\<rparr>"

lemma demo_topk: "topk_ok demo_lm_ops"
  by (auto simp: topk_ok_def demo_lm_ops_def)

theorem experts_weighted_sum_witness:
  "moe_local demo_lm_ops demo_experts [[1], [2]] [[1, 3], [2, 0]] = Inr [[6688], [5120]]"
proof -
  have "moe_local demo_lm_ops demo_experts [[1], [2]] [[1, 3], [2, 0]] = Inr (map2 (\<lambda>row lg. map (\<lambda>j.
      \<Sum>(w, e)\<leftarrow>route_tokens demo_lm_ops demo_experts lg. expert_row (act_fun demo_lm_ops (moe_act demo_experts)) (moe_gate_up demo_experts)
        (moe_down demo_experts) e row ! j * w) [0..<moe_hidden demo_experts]) [[1], [2]] [[1, 3], [2, 0]])"
    by (rule experts_weighted_sum [where n = 1, OF _ _ demo_topk]) (simp_all add: demo_experts_def expert_shape_def known_act_def ramp_def)
  then show ?thesis
    by (simp add: route_tokens_def demo_lm_ops_def demo_experts_def expert_row_def halves_def linear_row_def select0_def ramp_def act_fun_def upt_rec)
qed

end
