(* ===== verification/Sampling.thy ===== *)
theory Sampling
  imports Engine Json "HOL-Library.Option_ord"
begin

text \<open>
  Sampling (\<^verbatim>\<open>Sampler::sample\<close> and its fallback in \<^verbatim>\<open>src/engine/engine.cc\<close>, the wrappers of
  \<^verbatim>\<open>src/engine/sampling.cu\<close>). A row of logits is a list; minus infinity is \<open>None\<close>, which is below every \<open>Some\<close>.
  The exponential function, \<open>topk\<close>, \<open>sort\<close>, \<open>multinomial\<close>, \<open>argmax\<close>, \<open>rand\<close> and the kernels of FlashInfer are parameters;
  \<open>'r\<close> is the state of the random numbers.
\<close>

section \<open>The fallback\<close>

record ('a, 'r) sample_ops =
  expo :: "'a \<Rightarrow> 'a"
  topk_idx :: "nat \<Rightarrow> 'a list \<Rightarrow> nat list"
  sort_idx :: "'a option list \<Rightarrow> nat list"
  multinomial :: "'r \<Rightarrow> nat \<Rightarrow> 'a list \<Rightarrow> nat"
  argmax :: "'a list \<Rightarrow> nat"
  rand :: "'r \<Rightarrow> nat \<Rightarrow> 'a list"

definition masked_exp :: "('a \<Rightarrow> 'a) \<Rightarrow> 'a option \<Rightarrow> 'a::field" where
  "masked_exp e x = (case x of None \<Rightarrow> 0 | Some v \<Rightarrow> e v)"

definition softmax_row :: "('a \<Rightarrow> 'a) \<Rightarrow> 'a option list \<Rightarrow> 'a::field list" where
  "softmax_row e xs = map (\<lambda>x. masked_exp e x / sum_list (map (masked_exp e) xs)) xs"

definition cumsum :: "'a::monoid_add list \<Rightarrow> 'a list" where
  "cumsum ps = map (\<lambda>i. sum_list (take (Suc i) ps)) [0..<length ps]"

definition index_put :: "nat list \<Rightarrow> 'b list \<Rightarrow> 'b list \<Rightarrow> 'b list" where
  "index_put idx vals out = fold (\<lambda>(i, v) out. out[i := v]) (zip idx vals) out"

definition top_k_filter :: "('a, 'r) sample_ops \<Rightarrow> int \<Rightarrow> 'a list \<Rightarrow> 'a option list" where
  "top_k_filter ops k logits =
     (if k > 0 \<and> k < int (length logits)
      then let idx = topk_idx ops (nat k) logits in
           index_put idx (map (\<lambda>i. Some (logits ! i)) idx) (map (\<lambda>_. None) logits)
      else map Some logits)"

definition top_p_filter :: "('a, 'r) sample_ops \<Rightarrow> 'a \<Rightarrow> 'a option list \<Rightarrow> 'a::linordered_field option list" where
  "top_p_filter ops p logits =
     (if p < 1
      then let order = sort_idx ops logits; sorted_logits = map (\<lambda>i. logits ! i) order;
               cumulative = cumsum (softmax_row (expo ops) sorted_logits);
               cutoff = (map (\<lambda>c. c > p) cumulative)[0 := False];
               sorted_logits = map2 (\<lambda>cut x. if cut then None else x) cutoff sorted_logits in
           if cutoff = [] then logits else index_put order sorted_logits (map (\<lambda>_. None) logits)
      else logits)"

text \<open>\<open>rnd\<close> and \<open>i\<close> stand for the state of the generator when row \<open>i\<close> is drawn.\<close>

definition sample_row ::
  "('a::linordered_field, 'r) sample_ops \<Rightarrow> 'r \<Rightarrow> nat \<Rightarrow> 'a list \<Rightarrow> 'a \<Rightarrow> int \<Rightarrow> 'a \<Rightarrow> nat" where
  "sample_row ops rnd i logits temp k p =
     (let scaled = map (\<lambda>x. x / max temp (of_rat kEpsilon)) logits;
          kept = top_p_filter ops p (top_k_filter ops k scaled) in
      multinomial ops rnd i (softmax_row (expo ops) kept))"

definition item :: "'b list \<Rightarrow> nat \<Rightarrow> 'b result" where
  "item xs i = (if i < length xs then Inr (xs ! i) else Inl (IndexError ''index out of range''))"

definition sample_torch_fallback ::
  "('a::linordered_field, 'r) sample_ops \<Rightarrow> 'r \<Rightarrow> int \<Rightarrow> 'a list list \<Rightarrow> rat list \<Rightarrow> int list option \<Rightarrow> rat list option \<Rightarrow> int list result" where
  "sample_torch_fallback ops rnd vocab_size logits temps ks ps =
     res_map (\<lambda>i.
       res_bind (item temps i) (\<lambda>t.
       res_bind (case ks of Some l \<Rightarrow> item l i | None \<Rightarrow> Inr vocab_size) (\<lambda>k.
       res_bind (case ps of Some l \<Rightarrow> item l i | None \<Rightarrow> Inr 1) (\<lambda>q.
       Inr (int (sample_row ops rnd i (logits ! i) (of_rat t) k (of_rat q)))))))
       [0..<length logits]"

section \<open>The wrappers\<close>

datatype scalar_dtype = Float32 | Int32 | Float16

text \<open>A tensor as the checks see it: the values row by row.\<close>

record 'v dev_tensor =
  on_cuda :: bool
  contiguous :: bool
  scalar_type :: scalar_dtype
  shape :: "nat list"
  vals :: "'v list"

definition check_probs :: "'a dev_tensor \<Rightarrow> unit result" where
  "check_probs t =
     res_bind (check (on_cuda t) (TorchCheck ''FlashInfer sampling requires CUDA probs'')) (\<lambda>_.
     res_bind (check (contiguous t) (TorchCheck ''FlashInfer sampling requires contiguous probs'')) (\<lambda>_.
     res_bind (check (scalar_type t = Float32) (TorchCheck ''FlashInfer sampling currently expects float32 probs'')) (\<lambda>_.
     check (length (shape t) = 2) (TorchCheck ''probs must have shape [batch, vocab]''))))"

definition check_uniform :: "'a dev_tensor \<Rightarrow> 'a dev_tensor \<Rightarrow> nat \<Rightarrow> unit result" where
  "check_uniform p u expected_dims =
     res_bind (check (on_cuda u) (TorchCheck ''FlashInfer sampling requires CUDA uniform_samples'')) (\<lambda>_.
     res_bind (check (contiguous u) (TorchCheck ''FlashInfer sampling requires contiguous uniform_samples'')) (\<lambda>_.
     res_bind (check (scalar_type u = Float32) (TorchCheck ''FlashInfer sampling currently expects float32 uniform_samples'')) (\<lambda>_.
     res_bind (check (length (shape u) = expected_dims) (TorchCheck ''uniform_samples has unexpected dimensions'')) (\<lambda>_.
     if expected_dims = 1 then check (shape u ! 0 = shape p ! 0) (TorchCheck ''uniform_samples must have shape [batch]'')
     else check (shape u ! 1 = shape p ! 0) (TorchCheck ''uniform_samples must have shape [max_rounds, batch]'')))))"

definition check_filter :: "'a dev_tensor \<Rightarrow> 'v dev_tensor option \<Rightarrow> scalar_dtype \<Rightarrow> string \<Rightarrow> unit result" where
  "check_filter p t ty msg =
     check (case t of None \<Rightarrow> True
            | Some t \<Rightarrow> on_cuda t \<and> contiguous t \<and> scalar_type t = ty \<and> length (vals t) = shape p ! 0) (TorchCheck msg)"

text \<open>
  The kernels: \<open>None\<close> is a failing status, otherwise the samples and whether each was found. Top-k values reach one kernel as
  floating point numbers and the other as integers.
\<close>

record 'a sampling_kernels =
  SamplingFromProb :: "'a dev_tensor \<Rightarrow> 'a dev_tensor \<Rightarrow> int list option"
  TopKSamplingFromProb :: "'a dev_tensor \<Rightarrow> 'a dev_tensor \<Rightarrow> 'a dev_tensor option \<Rightarrow> int \<Rightarrow> (int list \<times> bool list) option"
  TopPSamplingFromProb :: "'a dev_tensor \<Rightarrow> 'a dev_tensor \<Rightarrow> 'a dev_tensor option \<Rightarrow> 'a \<Rightarrow> (int list \<times> bool list) option"
  TopKTopPSamplingFromProb ::
    "'a dev_tensor \<Rightarrow> 'a dev_tensor \<Rightarrow> int dev_tensor option \<Rightarrow> 'a \<Rightarrow> 'a dev_tensor option \<Rightarrow> 'a \<Rightarrow> (int list \<times> bool list) option"

definition check_kernel :: "'b option \<Rightarrow> string \<Rightarrow> 'b result" where
  "check_kernel s name = (case s of None \<Rightarrow> Inl (TorchCheck (name @ '' failed with error'')) | Some x \<Rightarrow> Inr x)"

definition flashinfer_sample_from_probs :: "'a sampling_kernels \<Rightarrow> 'a dev_tensor \<Rightarrow> 'a dev_tensor \<Rightarrow> int list result" where
  "flashinfer_sample_from_probs kn p u =
     res_bind (check_probs p) (\<lambda>_.
     res_bind (check_uniform p u 1) (\<lambda>_.
     check_kernel (SamplingFromProb kn p u) ''FlashInfer SamplingFromProb''))"

definition flashinfer_top_k_sample_from_probs ::
  "'a sampling_kernels \<Rightarrow> 'a dev_tensor \<Rightarrow> 'a dev_tensor \<Rightarrow> 'a dev_tensor option \<Rightarrow> int \<Rightarrow> (int list \<times> bool list) result" where
  "flashinfer_top_k_sample_from_probs kn p u k k_value =
     res_bind (check_probs p) (\<lambda>_.
     res_bind (check_uniform p u 2) (\<lambda>_.
     res_bind (check_filter p k Float32 ''top_k must be a contiguous CUDA float32 tensor with shape [batch]'') (\<lambda>_.
     check_kernel (TopKSamplingFromProb kn p u k k_value) ''FlashInfer TopKSamplingFromProb'')))"

definition flashinfer_top_p_sample_from_probs ::
  "'a sampling_kernels \<Rightarrow> 'a dev_tensor \<Rightarrow> 'a dev_tensor \<Rightarrow> 'a dev_tensor option \<Rightarrow> 'a \<Rightarrow> (int list \<times> bool list) result" where
  "flashinfer_top_p_sample_from_probs kn p u q q_value =
     res_bind (check_probs p) (\<lambda>_.
     res_bind (check_uniform p u 2) (\<lambda>_.
     res_bind (check_filter p q Float32 ''top_p must be a contiguous CUDA float32 tensor with shape [batch]'') (\<lambda>_.
     check_kernel (TopPSamplingFromProb kn p u q q_value) ''FlashInfer TopPSamplingFromProb'')))"

definition flashinfer_top_k_top_p_sample_from_probs ::
  "'a sampling_kernels \<Rightarrow> 'a dev_tensor \<Rightarrow> 'a dev_tensor \<Rightarrow> int dev_tensor option \<Rightarrow> 'a \<Rightarrow> 'a dev_tensor option \<Rightarrow> 'a \<Rightarrow>
   (int list \<times> bool list) result" where
  "flashinfer_top_k_top_p_sample_from_probs kn p u k k_value q q_value =
     res_bind (check_probs p) (\<lambda>_.
     res_bind (check_uniform p u 2) (\<lambda>_.
     res_bind (check_filter p k Int32 ''top_k must be a contiguous CUDA int32 tensor with shape [batch]'') (\<lambda>_.
     res_bind (check_filter p q Float32 ''top_p must be a contiguous CUDA float32 tensor with shape [batch]'') (\<lambda>_.
     check_kernel (TopKTopPSamplingFromProb kn p u k k_value q q_value) ''FlashInfer TopKTopPSamplingFromProb''))))"

section \<open>The sampler\<close>

definition kMaxSamplingRounds :: nat where
  "kMaxSamplingRounds = 32"

definition gpu_tensor :: "scalar_dtype \<Rightarrow> nat list \<Rightarrow> 'v list \<Rightarrow> 'v dev_tensor" where
  "gpu_tensor ty sh xs = \<lparr>on_cuda = True, contiguous = True, scalar_type = ty, shape = sh, vals = xs\<rparr>"

text \<open>\<open>view({batch_size, 1})\<close> of the temperatures needs one for each row. A row's width is that of the first.\<close>

definition sampler_sample ::
  "('a::linordered_field, 'r) sample_ops \<Rightarrow> 'a sampling_kernels \<Rightarrow> bool \<Rightarrow> int \<Rightarrow> 'r \<Rightarrow> 'a list list \<Rightarrow> sampling_args \<Rightarrow> int list result" where
  "sampler_sample ops kn is_cuda vocab_size rnd logits args =
     (case temperatures args of
        None \<Rightarrow> Inr (map (\<lambda>row. int (argmax ops row)) logits)
      | Some temps \<Rightarrow>
          let fallback = sample_torch_fallback ops rnd vocab_size logits temps (arg_top_k args) (arg_top_p args);
              b = length logits in
          if \<not> is_cuda then fallback
          else
            res_bind (check (length temps = b) (RuntimeError ''shape is invalid for input of size'')) (\<lambda>_.
            let probs = map2 (\<lambda>row t. softmax_row (expo ops) (map (\<lambda>x. Some (x / of_rat t)) row)) logits temps;
                p = gpu_tensor Float32 [b, (case logits of [] \<Rightarrow> 0 | row # _ \<Rightarrow> length row)] (concat probs);
                u = gpu_tensor Float32 [kMaxSamplingRounds, b] (rand ops rnd (kMaxSamplingRounds * b));
                finish = (\<lambda>r. res_bind r (\<lambda>(samples, success). if list_all id success then Inr samples else fallback)) in
            case (arg_top_k args, arg_top_p args) of
              (None, None) \<Rightarrow> flashinfer_sample_from_probs kn p (gpu_tensor Float32 [b] (rand ops rnd b))
            | (Some k, None) \<Rightarrow>
                finish (flashinfer_top_k_sample_from_probs kn p u (Some (gpu_tensor Float32 [length k] (map of_int k))) 0)
            | (None, Some q) \<Rightarrow>
                finish (flashinfer_top_p_sample_from_probs kn p u (Some (gpu_tensor Float32 [length q] (map of_rat q))) 0)
            | (Some k, Some q) \<Rightarrow>
                finish (flashinfer_top_k_top_p_sample_from_probs kn p u (Some (gpu_tensor Int32 [length k] k)) 0
                  (Some (gpu_tensor Float32 [length q] (map of_rat q))) 0)))"

end
