(* ===== verification/SamplingProps.thy ===== *)
theory SamplingProps
  imports Sampling
begin

text \<open>
  Which tokens the fallback of the sampler can draw, and that the sampler never fails a check of
  the wrappers around the kernels.
\<close>

section \<open>Putting values back\<close>

lemma length_index_put [simp]: "length (index_put idx vs out) = length out"
proof -
  have "length (fold (\<lambda>(i, v) out. out[i := v]) ps out) = length out" for ps
    by (induction ps arbitrary: out) auto
  then show ?thesis by (simp add: index_put_def)
qed

lemma index_put_other: "i \<notin> set idx \<Longrightarrow> index_put idx vs out ! i = out ! i"
proof (induction idx arbitrary: vs out)
  case (Cons j idx)
  show ?case
  proof (cases vs)
    case (Cons v vs')
    then have "index_put (j # idx) vs out = index_put idx vs' (out[j := v])" by (simp add: index_put_def)
    then show ?thesis using Cons.IH [of vs' "out[j := v]"] Cons.prems by simp
  qed (simp add: index_put_def)
qed (simp add: index_put_def)

lemma index_put_at:
  "distinct idx \<Longrightarrow> length vs = length idx \<Longrightarrow> a < length idx \<Longrightarrow> idx ! a < length out \<Longrightarrow> index_put idx vs out ! (idx ! a) = vs ! a"
proof (induction idx arbitrary: vs out a)
  case (Cons j idx)
  obtain v vs' where vs: "vs = v # vs'" using Cons.prems(2) by (cases vs) auto
  have e: "index_put (j # idx) vs out = index_put idx vs' (out[j := v])" by (simp add: index_put_def vs)
  have "index_put idx vs' (out[j := v]) ! ((j # idx) ! a) = vs ! a"
  proof (cases a)
    case 0
    then show ?thesis using Cons.prems index_put_other [of j idx vs' "out[j := v]"] by (simp add: vs)
  next
    case (Suc b)
    then show ?thesis using Cons.IH [of vs' b "out[j := v]"] Cons.prems by (simp add: vs)
  qed
  then show ?case by (simp only: e)
qed simp

section \<open>Laws of the library\<close>

definition sample_laws :: "('a::linordered_field, 'r) sample_ops \<Rightarrow> bool" where
  "sample_laws ops \<longleftrightarrow> (\<forall>x. 0 < expo ops x) \<and>
     (\<forall>k l. k \<le> length l \<longrightarrow> distinct (topk_idx ops k l) \<and> length (topk_idx ops k l) = k \<and> set (topk_idx ops k l) \<subseteq> {..<length l} \<and>
        (\<forall>i\<in>set (topk_idx ops k l). \<forall>j<length l. j \<notin> set (topk_idx ops k l) \<longrightarrow> l ! j \<le> l ! i)) \<and>
     (\<forall>l. distinct (sort_idx ops l) \<and> set (sort_idx ops l) = {..<length l} \<and> sorted_wrt (\<ge>) (map (\<lambda>i. l ! i) (sort_idx ops l))) \<and>
     (\<forall>r i ps. (\<forall>p\<in>set ps. 0 \<le> p) \<and> 0 < sum_list ps \<longrightarrow> multinomial ops r i ps < length ps \<and> 0 < ps ! multinomial ops r i ps)"

lemma softmax_nonneg: "\<forall>x. 0 < e x \<Longrightarrow> p \<in> set (softmax_row e l) \<Longrightarrow> 0 \<le> (p :: 'a::linordered_field)"
  by (auto simp: softmax_row_def masked_exp_def less_imp_le intro!: divide_nonneg_nonneg sum_list_nonneg split: option.splits)

lemma softmax_total:
  fixes l :: "'a::linordered_field option list"
  assumes "\<forall>x. 0 < e x" "Some v \<in> set l"
  shows "0 < sum_list (map (masked_exp e) l)"
proof -
  have "masked_exp e (Some v) \<le> sum_list (map (masked_exp e) l)"
    by (rule member_le_sum_list) (use assms in \<open>auto simp: masked_exp_def less_imp_le split: option.splits\<close>)
  moreover have "0 < masked_exp e (Some v)" using assms(1) by (simp add: masked_exp_def)
  ultimately show ?thesis by (rule order.strict_trans2 [rotated])
qed

lemma sum_list_divide: "sum_list (map (\<lambda>x. f x / c) xs) = sum_list (map f xs) / (c :: 'a::field)"
  by (induction xs) (simp_all add: add_divide_distrib)

lemma softmax_sum:
  fixes l :: "'a::linordered_field option list"
  assumes "\<forall>x. 0 < e x" "Some v \<in> set l"
  shows "sum_list (softmax_row e l) = 1"
  using softmax_total [OF assms] by (simp add: softmax_row_def sum_list_divide)

lemma softmax_positive:
  fixes l :: "'a::linordered_field option list"
  assumes "t < length l" "0 < softmax_row e l ! t"
  shows "l ! t \<noteq> None"
  using assms by (cases "l ! t") (simp_all add: softmax_row_def masked_exp_def)

lemma drawn:
  fixes l :: "'a::linordered_field option list"
  assumes "sample_laws ops" "Some v \<in> set l"
  shows "multinomial ops r i (softmax_row (expo ops) l) < length l" "l ! multinomial ops r i (softmax_row (expo ops) l) \<noteq> None"
proof -
  have e: "\<forall>x. 0 < expo ops x" using assms(1) by (simp add: sample_laws_def)
  have d: "multinomial ops r i (softmax_row (expo ops) l) < length (softmax_row (expo ops) l) \<and>
      0 < softmax_row (expo ops) l ! multinomial ops r i (softmax_row (expo ops) l)"
    using assms(1) softmax_nonneg [OF e] softmax_sum [OF e assms(2)] unfolding sample_laws_def by (metis zero_less_one)
  then show "multinomial ops r i (softmax_row (expo ops) l) < length l" by (simp add: softmax_row_def)
  then show "l ! multinomial ops r i (softmax_row (expo ops) l) \<noteq> None" using d softmax_positive by blast
qed

section \<open>Top-k\<close>

lemma top_k_none:
  assumes "i < length l" "\<not> (k > 0 \<and> k < int (length l))"
  shows "top_k_filter ops k l ! i = Some (l ! i)"
  unfolding top_k_filter_def if_not_P [OF assms(2)] using assms(1) by simp

lemma topk_law:
  assumes "sample_laws ops" "k > 0" "k < int (length l)"
  shows "distinct (topk_idx ops (nat k) l)" "length (topk_idx ops (nat k) l) = nat k" "set (topk_idx ops (nat k) l) \<subseteq> {..<length l}"
    "i \<in> set (topk_idx ops (nat k) l) \<Longrightarrow> j < length l \<Longrightarrow> j \<notin> set (topk_idx ops (nat k) l) \<Longrightarrow> l ! j \<le> l ! i"
proof -
  have "nat k \<le> length l" using assms(3) by linarith
  with assms(1) show "distinct (topk_idx ops (nat k) l)" "length (topk_idx ops (nat k) l) = nat k" "set (topk_idx ops (nat k) l) \<subseteq> {..<length l}"
    "i \<in> set (topk_idx ops (nat k) l) \<Longrightarrow> j < length l \<Longrightarrow> j \<notin> set (topk_idx ops (nat k) l) \<Longrightarrow> l ! j \<le> l ! i"
    unfolding sample_laws_def by blast+
qed

lemma top_k_values:
  assumes "sample_laws ops" "i < length l"
  shows "top_k_filter ops k l ! i \<in> {None, Some (l ! i)}"
    "k > 0 \<Longrightarrow> k < int (length l) \<Longrightarrow> top_k_filter ops k l ! i \<noteq> None \<longleftrightarrow> i \<in> set (topk_idx ops (nat k) l)"
proof -
  have main: "k > 0 \<and> k < int (length l) \<Longrightarrow> top_k_filter ops k l ! i = (if i \<in> set (topk_idx ops (nat k) l) then Some (l ! i) else None)"
  proof -
    assume k: "k > 0 \<and> k < int (length l)"
    let ?idx = "topk_idx ops (nat k) l"
    have idx: "distinct ?idx" using topk_law(1) [OF assms(1)] k by simp
    show ?thesis
    proof (cases "i \<in> set ?idx")
      case True
      then obtain a where "a < length ?idx" "?idx ! a = i" by (auto simp: in_set_conv_nth)
      then show ?thesis
        using k True index_put_at [OF idx(1), of "map (\<lambda>i. Some (l ! i)) ?idx" a "map (\<lambda>_. None) l"] assms(2)
        by (simp add: top_k_filter_def Let_def)
    next
      case False
      then show ?thesis using k assms(2) by (simp add: top_k_filter_def Let_def index_put_other)
    qed
  qed
  show "top_k_filter ops k l ! i \<in> {None, Some (l ! i)}"
    using main top_k_none [OF assms(2)] by (cases "k > 0 \<and> k < int (length l)") auto
  show "k > 0 \<Longrightarrow> k < int (length l) \<Longrightarrow> top_k_filter ops k l ! i \<noteq> None \<longleftrightarrow> i \<in> set (topk_idx ops (nat k) l)"
    using main by simp
qed

lemma length_top_k [simp]: "length (top_k_filter ops k l) = length l"
  by (simp add: top_k_filter_def Let_def)

lemma top_k_rank:
  assumes ops: "sample_laws ops" and k: "k > 0" "k < int (length l)" and t: "t < length l" "top_k_filter ops k l ! t \<noteq> None"
  shows "int (card {i. i < length l \<and> l ! i > l ! t}) < k"
proof -
  let ?S = "set (topk_idx ops (nat k) l)"
  note S = topk_law [OF ops k]
  have tS: "t \<in> ?S" using top_k_values(2) [OF ops t(1) k] t(2) by simp
  have "{i. i < length l \<and> l ! i > l ! t} \<subseteq> ?S - {t}" using S(4) [OF tS] by force
  then have "card {i. i < length l \<and> l ! i > l ! t} \<le> card (?S - {t})" by (intro card_mono) auto
  also have "card (?S - {t}) = nat k - 1" using tS S(1,2) by (simp add: distinct_card)
  finally show ?thesis using k(1) by linarith
qed

lemma top_k_some:
  assumes "sample_laws ops" "l \<noteq> []"
  shows "\<exists>v. Some v \<in> set (top_k_filter ops k l)"
proof (cases "k > 0 \<and> k < int (length l)")
  case True
  then have "length (topk_idx ops (nat k) l) = nat k" "set (topk_idx ops (nat k) l) \<subseteq> {..<length l}"
    using topk_law [OF assms(1)] by simp_all
  then obtain i where i: "i \<in> set (topk_idx ops (nat k) l)" "i < length l"
    using True by (metis length_greater_0_conv lessThan_iff list.set_sel(1) subsetD zero_less_nat_eq)
  then have "top_k_filter ops k l ! i = Some (l ! i)" using top_k_values [OF assms(1) i(2), of k] True by auto
  then show ?thesis using i(2) by (metis length_top_k nth_mem)
next
  case False
  then have "top_k_filter ops k l ! 0 = Some (l ! 0)" using assms(2) by (intro top_k_none) auto
  then show ?thesis using assms(2) by (metis length_greater_0_conv length_top_k nth_mem)
qed

section \<open>Top-p\<close>

lemma sort_law:
  assumes "sample_laws ops"
  shows "distinct (sort_idx ops l)" "set (sort_idx ops l) = {..<length l}" "length (sort_idx ops l) = length l"
    "a < b \<Longrightarrow> b < length l \<Longrightarrow> l ! (sort_idx ops l ! b) \<le> l ! (sort_idx ops l ! a)"
proof -
  show d: "distinct (sort_idx ops l)" and s: "set (sort_idx ops l) = {..<length l}" using assms by (simp_all add: sample_laws_def)
  show len: "length (sort_idx ops l) = length l" using distinct_card [OF d] s by simp
  have "sorted_wrt (\<ge>) (map (\<lambda>i. l ! i) (sort_idx ops l))" using assms by (simp add: sample_laws_def)
  then show "a < b \<Longrightarrow> b < length l \<Longrightarrow> l ! (sort_idx ops l ! b) \<le> l ! (sort_idx ops l ! a)"
    using len by (auto simp: sorted_wrt_iff_nth_less)
qed

lemma softmax_permuted:
  assumes "distinct idx" "set idx = {..<length l}"
  shows "softmax_row e (map (\<lambda>i. l ! i) idx) = map (\<lambda>i. softmax_row e l ! i) idx"
proof -
  have "mset idx = mset [0..<length l]" using set_eq_iff_mset_eq_distinct [OF assms(1), of "[0..<length l]"] assms(2) by (simp add: atLeast0LessThan)
  then have "mset (map (\<lambda>i. masked_exp e (l ! i)) idx) = mset (map (\<lambda>i. masked_exp e (l ! i)) [0..<length l])"
    by (simp only: mset_map)
  from arg_cong [OF this, of sum_mset]
  have "sum_list (map (\<lambda>i. masked_exp e (l ! i)) idx) = sum_list (map (\<lambda>i. masked_exp e (l ! i)) [0..<length l])"
    unfolding sum_mset_sum_list .
  also have "map (\<lambda>i. masked_exp e (l ! i)) [0..<length l] = map (masked_exp e) l" by (rule nth_equalityI) simp_all
  finally have S: "sum_list (map (\<lambda>i. masked_exp e (l ! i)) idx) = sum_list (map (masked_exp e) l)" .
  show ?thesis
  proof (rule nth_equalityI)
    fix a
    assume "a < length (softmax_row e (map (\<lambda>i. l ! i) idx))"
    then have a: "a < length idx" by (simp add: softmax_row_def)
    then have "idx ! a < length l" using assms(2) nth_mem [OF a] by simp
    then show "softmax_row e (map (\<lambda>i. l ! i) idx) ! a = map (\<lambda>i. softmax_row e l ! i) idx ! a"
      using a by (simp add: softmax_row_def o_def S)
  qed (simp add: softmax_row_def)
qed

lemma top_p_at:
  assumes ops: "sample_laws ops" and p: "p < 1" and a: "a < length l"
  shows "top_p_filter ops p l ! (sort_idx ops l ! a) =
    (if a \<noteq> 0 \<and> (\<Sum>b\<le>a. softmax_row (expo ops) l ! (sort_idx ops l ! b)) > p then None else l ! (sort_idx ops l ! a))"
proof -
  let ?o = "sort_idx ops l"
  note s = sort_law [OF ops, where l = l]
  have sm: "softmax_row (expo ops) (map (\<lambda>i. l ! i) ?o) = map (\<lambda>i. softmax_row (expo ops) l ! i) ?o"
    by (rule softmax_permuted [OF s(1,2)])
  define C where "C = (map (\<lambda>c. c > p) (cumsum (map (\<lambda>i. softmax_row (expo ops) l ! i) ?o)))[0 := False]"
  have C: "length C = length l" by (simp add: C_def cumsum_def s(3))
  have cum: "cumsum (map (\<lambda>i. softmax_row (expo ops) l ! i) ?o) ! a = (\<Sum>b\<le>a. softmax_row (expo ops) l ! (?o ! b))"
    using a s(3) by (simp add: cumsum_def sum_list_sum_nth atLeast0LessThan lessThan_Suc_atMost)
  have Ca: "C ! a \<longleftrightarrow> a \<noteq> 0 \<and> (\<Sum>b\<le>a. softmax_row (expo ops) l ! (?o ! b)) > p"
    using a s(3) cum by (cases "a = 0") (simp_all add: C_def cumsum_def)
  have oa: "?o ! a < length l" using nth_mem [of a ?o] a s(2,3) by simp
  have "cumsum (map (\<lambda>i. softmax_row (expo ops) l ! i) ?o) \<noteq> []" using a s(3) by (auto simp: cumsum_def)
  then have "top_p_filter ops p l = index_put ?o (map2 (\<lambda>cut x. if cut then None else x) C (map (\<lambda>i. l ! i) ?o)) (map (\<lambda>_. None) l)"
    using p by (simp add: top_p_filter_def Let_def sm C_def [symmetric])
  then show ?thesis
    using index_put_at [OF s(1), of "map2 (\<lambda>cut x. if cut then None else x) C (map (\<lambda>i. l ! i) ?o)" a "map (\<lambda>_. None) l"] C s(3) a oa Ca
    by simp
qed

lemma length_top_p [simp]: "length (top_p_filter ops p l) = length l"
  by (simp add: top_p_filter_def Let_def)

lemma position: "sample_laws ops \<Longrightarrow> t < length l \<Longrightarrow> \<exists>a<length l. sort_idx ops l ! a = t"
  using sort_law(2,3) [where ops = ops and l = l] by (metis in_set_conv_nth lessThan_iff)

lemma top_p_kept:
  fixes ops :: "('a::linordered_field, 'r) sample_ops"
  assumes ops: "sample_laws ops" and t: "t < length l" "top_p_filter ops p l ! t \<noteq> None"
  shows "top_p_filter ops p l ! t = l ! t"
    "p < 1 \<Longrightarrow> (\<forall>i<length l. l ! i \<le> l ! t) \<or>
      (\<Sum>i | i < length l \<and> (l ! i > l ! t \<or> i = t). softmax_row (expo ops) l ! i) \<le> p"
proof -
  note s = sort_law [OF ops, where l = l]
  obtain a where a: "a < length l" "sort_idx ops l ! a = t" using position [OF ops t(1)] by blast
  show "top_p_filter ops p l ! t = l ! t"
  proof (cases "p < 1")
    case True
    then show ?thesis using top_p_at [OF ops True a(1)] t(2) a(2) by (auto split: if_splits)
  qed (simp add: top_p_filter_def)
  assume p: "p < 1"
  let ?P = "\<lambda>i. softmax_row (expo ops) l ! i"
  have e: "\<forall>x. 0 < expo ops x" using ops by (simp add: sample_laws_def)
  have pos: "0 \<le> ?P i" if "i < length l" for i using softmax_nonneg [OF e nth_mem, of i l] that by (simp add: softmax_row_def)
  consider "a = 0" | "a \<noteq> 0" "(\<Sum>b\<le>a. ?P (sort_idx ops l ! b)) \<le> p"
    using top_p_at [OF ops p a(1)] t(2) a(2) by (auto split: if_splits simp: not_less)
  then show "(\<forall>i<length l. l ! i \<le> l ! t) \<or> (\<Sum>i | i < length l \<and> (l ! i > l ! t \<or> i = t). ?P i) \<le> p"
  proof cases
    case 1
    have "l ! i \<le> l ! t" if i: "i < length l" for i
    proof -
      obtain b where "b < length l" "sort_idx ops l ! b = i" using position [OF ops i] by blast
      then show ?thesis using s(4) [of 0 b] a(2) 1 by (cases "b = 0") auto
    qed
    then show ?thesis by blast
  next
    case 2
    have sub: "{i. i < length l \<and> (l ! i > l ! t \<or> i = t)} \<subseteq> (\<lambda>b. sort_idx ops l ! b) ` {..a}"
    proof
      fix i
      assume i: "i \<in> {i. i < length l \<and> (l ! i > l ! t \<or> i = t)}"
      then obtain b where b: "b < length l" "sort_idx ops l ! b = i" using position [OF ops] by blast
      have "b \<le> a"
      proof (rule ccontr)
        assume "\<not> b \<le> a"
        then have "l ! i \<le> l ! t" "i \<noteq> t" using s(4) [of a b] b a nth_eq_iff_index_eq [OF s(1), of a b] s(3) by auto
        then show False using i by auto
      qed
      then show "i \<in> (\<lambda>b. sort_idx ops l ! b) ` {..a}" using b(2) by blast
    qed
    have inj: "inj_on (\<lambda>b. sort_idx ops l ! b) {..a}" using s(1,3) a(1) by (auto simp: inj_on_def nth_eq_iff_index_eq)
    have "(\<Sum>i | i < length l \<and> (l ! i > l ! t \<or> i = t). ?P i) \<le> (\<Sum>i\<in>(\<lambda>b. sort_idx ops l ! b) ` {..a}. ?P i)"
    proof (rule sum_mono2 [OF _ sub])
      fix i
      assume "i \<in> (\<lambda>b. sort_idx ops l ! b) ` {..a} - {i. i < length l \<and> (l ! i > l ! t \<or> i = t)}"
      then obtain b where "b \<le> a" "i = sort_idx ops l ! b" by auto
      moreover then have "b < length (sort_idx ops l)" using a(1) s(3) by simp
      ultimately show "0 \<le> ?P i" using pos nth_mem s(2) by blast
    qed simp
    also have "\<dots> = (\<Sum>b\<le>a. ?P (sort_idx ops l ! b))" using sum.reindex [OF inj] by simp
    finally show ?thesis using 2(2) by simp
  qed
qed

lemma top_p_some:
  fixes ops :: "('a::linordered_field, 'r) sample_ops"
  assumes ops: "sample_laws ops" and v: "Some v \<in> set l"
  shows "\<exists>w. Some w \<in> set (top_p_filter ops p l)"
proof (cases "p < 1")
  case True
  have n: "0 < length l" using v by (cases l) auto
  note s = sort_law [OF ops, where l = l]
  let ?t = "sort_idx ops l ! 0"
  have t: "?t < length l" using s(2,3) n nth_mem by force
  obtain i where i: "i < length l" "l ! i = Some v" using v by (auto simp: in_set_conv_nth)
  obtain b where b: "b < length l" "sort_idx ops l ! b = i" using position [OF ops i(1)] by blast
  have "l ! i \<le> l ! ?t" using s(4) [of 0 b] b by (cases "b = 0") auto
  then obtain w where "l ! ?t = Some w" using i(2) by (cases "l ! ?t") auto
  then have "top_p_filter ops p l ! ?t = Some w" using top_p_at [OF ops True n] by simp
  then show ?thesis using t by (metis length_top_p nth_mem)
qed (use v in \<open>auto simp: top_p_filter_def\<close>)

section \<open>The fallback and the sampler\<close>

text \<open>
  C22: The fallback draws a token of the vocabulary that fewer than \<open>k\<close> others beat, and with a top-p below 1 only the best of
  those or a token that, together with every better one, has at most the mass \<open>p\<close>: the token that crosses \<open>p\<close>, which nucleus
  sampling keeps, is never drawn.
\<close>
theorem sample_row_within:
  fixes ops :: "('a::linordered_field, 'r) sample_ops"
  assumes "sample_laws ops" "logits \<noteq> []" and "scaled = map (\<lambda>x. x / max temp (of_rat kEpsilon)) logits"
    and "f = top_k_filter ops k scaled" and "t = sample_row ops rnd i logits temp k p"
  shows "t < length logits \<and>
    (0 < k \<and> k < int (length logits) \<longrightarrow> int (card {j. j < length logits \<and> scaled ! j > scaled ! t}) < k) \<and>
    (p < 1 \<longrightarrow> (\<forall>j<length logits. f ! j \<le> f ! t) \<or>
       (\<Sum>j | j < length logits \<and> (f ! j > f ! t \<or> j = t). softmax_row (expo ops) f ! j) \<le> p)"
proof -
  have len: "length scaled = length logits" by (simp add: assms(3))
  then have "scaled \<noteq> []" using assms(2) by auto
  then obtain v where "Some v \<in> set f" using top_k_some [OF assms(1)] unfolding assms(4) by blast
  then obtain w where w: "Some w \<in> set (top_p_filter ops p f)" using top_p_some [OF assms(1)] by blast
  have t: "t = multinomial ops rnd i (softmax_row (expo ops) (top_p_filter ops p f))"
    by (simp add: assms(3-5) sample_row_def Let_def)
  have lt: "t < length f" "top_p_filter ops p f ! t \<noteq> None" using drawn [OF assms(1) w, of rnd i] unfolding t by simp_all
  have some: "f ! t \<noteq> None" using top_p_kept(1) [OF assms(1) lt] lt(2) by simp
  show ?thesis
    using lt(1) top_k_rank [OF assms(1) _ _ _ some [unfolded assms(4)]] top_p_kept(2) [OF assms(1) lt] len by (simp add: assms(4))
qed

definition demo_sample_ops :: "(rat, unit) sample_ops" where
  "demo_sample_ops = \<lparr>expo = (\<lambda>x. if x < 0 then 1 / (1 - x) else 1 + x),
     topk_idx = (\<lambda>k l. take k (rev (sort_key (\<lambda>i. l ! i) [0..<length l]))),
     sort_idx = (\<lambda>l. rev (sort_key (\<lambda>i. l ! i) [0..<length l])),
     multinomial = (\<lambda>_ _ ps. hd (filter (\<lambda>i. 0 < ps ! i) [0..<length ps])),
     argmax = (\<lambda>l. hd (rev (sort_key (\<lambda>i. l ! i) [0..<length l]))), rand = (\<lambda>_ n. replicate n 0)\<rparr>"

lemma descending: "sorted_wrt (\<ge>) (map f (rev (sort_key f xs)))"
  by (simp add: rev_map [symmetric] sorted_wrt_rev del: sorted_sort_key) (metis sorted_sort_key)

lemma demo_sample_laws: "sample_laws demo_sample_ops"
proof -
  have top: "l ! j \<le> l ! i" if "i \<in> set (take k (rev (sort_key (\<lambda>i. l ! i) [0..<length l])))" "j < length l"
    "j \<notin> set (take k (rev (sort_key (\<lambda>i. l ! i) [0..<length l])))" for k i j and l :: "rat list"
  proof -
    let ?s = "rev (sort_key (\<lambda>i. l ! i) [0..<length l])"
    have "sorted_wrt (\<ge>) (map (\<lambda>i. l ! i) (take k ?s @ drop k ?s))" using descending [of "\<lambda>i. l ! i"] by simp
    moreover have "j \<in> set (take k ?s @ drop k ?s)" using that(2) by (simp add: set_sort)
    then have "j \<in> set (drop k ?s)" using that(3) by (metis Un_iff set_append)
    ultimately show ?thesis using that(1) by (auto simp only: map_append sorted_wrt_append set_map)
  qed
  have draw: "hd (filter (\<lambda>i. 0 < ps ! i) [0..<length ps]) < length ps \<and> 0 < ps ! hd (filter (\<lambda>i. 0 < ps ! i) [0..<length ps])"
    if "\<forall>p\<in>set ps. 0 \<le> p" "0 < sum_list ps" for ps :: "rat list"
  proof -
    have "filter (\<lambda>i. 0 < ps ! i) [0..<length ps] \<noteq> []"
    proof
      assume "filter (\<lambda>i. 0 < ps ! i) [0..<length ps] = []"
      then have "\<forall>p\<in>set ps. p \<le> 0" by (auto simp: filter_empty_conv in_set_conv_nth not_less)
      then have "sum_list ps \<le> 0" using sum_list_nonpos [of ps] by blast
      then show False using that(2) by simp
    qed
    from hd_in_set [OF this] show ?thesis by simp
  qed
  show ?thesis
    unfolding sample_laws_def
    using top draw descending by (auto simp: demo_sample_ops_def set_sort dest: in_set_takeD)
qed

theorem sample_row_within_witness:
  "sample_row demo_sample_ops () 0 [1, 0, 2] 1 0 (7 / 10) = 2"
proof -
  let ?t = "sample_row demo_sample_ops () 0 [1, 0, 2] 1 0 (7 / 10)"
  have s: "[1, 0, 2] = map (\<lambda>x. x / max 1 (of_rat kEpsilon)) [1, 0, 2 :: rat]" by (simp add: kEpsilon_def of_rat_eq_id)
  have f: "map Some [1, 0, 2 :: rat] = top_k_filter demo_sample_ops 0 [1, 0, 2]" by (simp add: top_k_filter_def)
  let ?f = "map Some [1, 0, 2 :: rat]"
  have sm: "softmax_row (expo demo_sample_ops) ?f = [1 / 3, 1 / 6, 1 / 2]"
    by (simp add: softmax_row_def masked_exp_def demo_sample_ops_def)
  have n: "length [1, 0, 2 :: rat] = 3" "[1, 0, 2 :: rat] \<noteq> []" and lt: "7 / 10 < (1 :: rat)" by simp_all
  note W = sample_row_within [OF demo_sample_laws n(2) s f refl, of "()" 0 "7 / 10", unfolded n(1)]
  have w: "?t < 3" "(\<forall>j<3. ?f ! j \<le> ?f ! ?t) \<or> (\<Sum>j | j < 3 \<and> (?f ! j > ?f ! ?t \<or> j = ?t). softmax_row (expo demo_sample_ops) ?f ! j) \<le> 7 / 10"
    using conjunct1 [OF W] mp [OF conjunct2 [OF conjunct2 [OF W]] lt] by blast+
  have three: "j < 3 \<longleftrightarrow> j = 0 \<or> j = 1 \<or> j = (2 :: nat)" for j by auto
  have v: "?f ! 0 = Some 1" "?f ! 1 = Some 0" "?f ! 2 = Some 2" by simp_all
  have S0: "{j. j < 3 \<and> (?f ! j > ?f ! 0 \<or> j = 0)} = {0, 2}" and S1: "{j. j < 3 \<and> (?f ! j > ?f ! 1 \<or> j = 1)} = {0, 1, 2}"
    using v by (auto simp only: three less_option_Some order.irrefl)
  have big: "\<not> (\<forall>j<3. ?f ! j \<le> ?f ! 0)" "\<not> (\<forall>j<3. ?f ! j \<le> ?f ! 1)" using v by (auto simp: three simp del: list.map)
  have "?t \<noteq> 0"
  proof
    assume t: "?t = 0"
    show False using w(2) big(1) unfolding t S0 sm by simp
  qed
  moreover have "?t \<noteq> 1"
  proof
    assume t: "?t = 1"
    show False using w(2) big(2) unfolding t S1 sm by simp
  qed
  ultimately show ?thesis using w(1) by linarith
qed

section \<open>The checks\<close>

definition kernels_run :: "'a sampling_kernels \<Rightarrow> bool" where
  "kernels_run kn \<longleftrightarrow> (\<forall>p u. SamplingFromProb kn p u \<noteq> None) \<and> (\<forall>p u k v. TopKSamplingFromProb kn p u k v \<noteq> None) \<and>
     (\<forall>p u q v. TopPSamplingFromProb kn p u q v \<noteq> None) \<and> (\<forall>p u k v q w. TopKTopPSamplingFromProb kn p u k v q w \<noteq> None)"

lemma fallback_ok:
  assumes "length temps = length logits" "\<And>l. ks = Some l \<Longrightarrow> length l = length logits" "\<And>l. ps = Some l \<Longrightarrow> length l = length logits"
  shows "\<exists>toks. sample_torch_fallback ops rnd vocab logits temps ks ps = Inr toks \<and> length toks = length logits"
proof -
  let ?f = "\<lambda>i. res_bind (item temps i) (\<lambda>t. res_bind (case ks of Some l \<Rightarrow> item l i | None \<Rightarrow> Inr vocab) (\<lambda>k.
      res_bind (case ps of Some l \<Rightarrow> item l i | None \<Rightarrow> Inr 1) (\<lambda>q. Inr (int (sample_row ops rnd i (logits ! i) (of_rat t) k (of_rat q))))))"
  have ok: "\<exists>y. ?f i = Inr y" if "i < length logits" for i
    using assms that by (cases ks; cases ps) (simp_all add: item_def)
  have "\<exists>ys. res_map ?f xs = Inr ys \<and> length ys = length xs" if "\<And>i. i \<in> set xs \<Longrightarrow> \<exists>y. ?f i = Inr y" for xs
    using that
  proof (induction xs)
    case (Cons x xs)
    then have "\<exists>y. ?f x = Inr y" "\<exists>ys. res_map ?f xs = Inr ys \<and> length ys = length xs" by simp_all
    then show ?case by (elim exE conjE) (simp only: res_map.simps res_bind_Inr, simp)
  qed simp
  from this [of "[0..<length logits]"] ok show ?thesis unfolding sample_torch_fallback_def by simp
qed

lemma prepared_lengths:
  fixes st vocab b
  defines "a \<equiv> prepare_sampling_args st vocab b"
  shows "temperatures a = Some l \<Longrightarrow> length l = length (reqs b)" "arg_top_k a = Some ks \<Longrightarrow> length ks = length (reqs b)"
    "arg_top_p a = Some ps \<Longrightarrow> length ps = length (reqs b)"
  unfolding a_def prepare_sampling_args_def Let_def by (auto split: if_splits)

theorem sampler_passes_checks:
  assumes "kernels_run kn" and "length logits = length (reqs b)"
  shows "\<exists>toks. sampler_sample ops kn cuda vocab rnd logits (prepare_sampling_args st vocab b) = Inr toks"
proof -
  define a where "a = prepare_sampling_args st vocab b"
  note len = prepared_lengths [of st vocab b, folded a_def]
  show ?thesis
  proof (cases "temperatures a")
    case (Some temps)
    have lt: "length temps = length logits" using len(1) [OF Some] assms(2) by simp
    obtain toks where fb: "sample_torch_fallback ops rnd vocab logits temps (arg_top_k a) (arg_top_p a) = Inr toks"
      using fallback_ok [OF lt, of "arg_top_k a" "arg_top_p a" ops rnd vocab] len(2,3) assms(2) by auto
    show ?thesis
    proof (cases cuda)
      case True
      show ?thesis
        using len(2,3) assms lt fb Some True
        by (cases "arg_top_k a"; cases "arg_top_p a")
          (auto simp: sampler_sample_def a_def [symmetric] Let_def gpu_tensor_def check_filter_def kernels_run_def check_kernel_def
            flashinfer_sample_from_probs_def flashinfer_top_k_sample_from_probs_def flashinfer_top_p_sample_from_probs_def
            flashinfer_top_k_top_p_sample_from_probs_def check_probs_def check_uniform_def check_def split: option.splits if_splits)
    qed (simp add: sampler_sample_def a_def [symmetric] Some fb)
  qed (simp add: sampler_sample_def a_def [symmetric])
qed

end
