(* ===== verification/Offline.thy ===== *)
theory Offline
  imports Http FrontendProps
begin

text \<open>
  The offline interface (\<^verbatim>\<open>src/llm/llm.cc\<close>): it submits a list of prompts through the front end and then waits for
  their results one after the other, while the threads of the tokenizer and of the scheduler go on; \<open>others\<close> is a step of theirs.
\<close>

record llm =
  llm_frontend :: frontend
  llm_alive :: bool
  llm_shut :: bool

definition llm_init :: "int \<Rightarrow> scheduler \<Rightarrow> llm" where
  "llm_init threads s =
     (let fs = frontend_init threads s in
      \<lparr>llm_frontend = fs\<lparr>runner := runner_start (runner fs)\<rparr>, llm_alive = True, llm_shut = False\<rparr>)"

text \<open>The scheduler thread stops first, then the tokenizer threads; then the parts are gone.\<close>

definition llm_shutdown :: "llm \<Rightarrow> llm" where
  "llm_shutdown l =
     (if llm_shut l then l
      else let fs = llm_frontend l in
        \<lparr>llm_frontend = fs\<lparr>runner := runner_joined (runner_request_stop (runner fs)), pool := pool_shutdown (pool fs)\<rparr>,
         llm_alive = False, llm_shut = True\<rparr>)"

text \<open>The loop over the prompts, for one way \<open>sub\<close> of submitting: texts or token ids.\<close>

inductive llm_submits ::
  "(frontend \<Rightarrow> frontend \<Rightarrow> bool) \<Rightarrow> ('p \<Rightarrow> sampling_params \<Rightarrow> frontend \<Rightarrow> nat \<times> frontend) \<Rightarrow>
   ('p \<times> sampling_params) list \<Rightarrow> frontend \<Rightarrow> nat list \<Rightarrow> frontend \<Rightarrow> bool"
  for others sub where
  submits_nil: "llm_submits others sub [] fs [] fs"
| submits_cons: "others\<^sup>*\<^sup>* fs fs1 \<Longrightarrow> sub p sp fs1 = (uid, fs2) \<Longrightarrow> llm_submits others sub ps fs2 uids fs3 \<Longrightarrow>
    llm_submits others sub ((p, sp) # ps) fs (uid # uids) fs3"

inductive llm_waits :: "(frontend \<Rightarrow> frontend \<Rightarrow> bool) \<Rightarrow> nat list \<Rightarrow> frontend \<Rightarrow> text_result list \<Rightarrow> frontend \<Rightarrow> bool"
  for others where
  waits_nil: "llm_waits others [] fs [] fs"
| waits_cons: "others\<^sup>*\<^sup>* (snd (get_or_create_context uid fs)) fs1 \<Longrightarrow> wait_result_now uid fs1 = Some (r, fs2) \<Longrightarrow>
    llm_waits others uids fs2 rs fs3 \<Longrightarrow> llm_waits others (uid # uids) fs (r # rs) fs3"

text \<open>\<open>generate\<close> on lists, and on one prompt.\<close>

inductive llm_generate ::
  "(frontend \<Rightarrow> frontend \<Rightarrow> bool) \<Rightarrow> ('p \<Rightarrow> sampling_params \<Rightarrow> frontend \<Rightarrow> nat \<times> frontend) \<Rightarrow>
   'p list \<Rightarrow> sampling_params list \<Rightarrow> frontend \<Rightarrow> text_result list result \<Rightarrow> frontend \<Rightarrow> bool"
  for others sub where
  refused: "length ps \<noteq> length sps \<Longrightarrow>
    llm_generate others sub ps sps fs (Inl (InvalidArgument ''prompts and sampling_params must have the same size'')) fs"
| generated: "length ps = length sps \<Longrightarrow> llm_submits others sub (zip ps sps) fs uids fs1 \<Longrightarrow> llm_waits others uids fs1 rs fs2 \<Longrightarrow>
    llm_generate others sub ps sps fs (Inr rs) fs2"

inductive llm_generate_one ::
  "(frontend \<Rightarrow> frontend \<Rightarrow> bool) \<Rightarrow> ('p \<Rightarrow> sampling_params \<Rightarrow> frontend \<Rightarrow> nat \<times> frontend) \<Rightarrow>
   'p \<Rightarrow> sampling_params \<Rightarrow> frontend \<Rightarrow> text_result \<Rightarrow> frontend \<Rightarrow> bool"
  for others sub where
  one: "sub p sp fs = (uid, fs1) \<Longrightarrow> llm_waits others [uid] fs1 [r] fs2 \<Longrightarrow> llm_generate_one others sub p sp fs r fs2"

inductive_cases llm_generateE: "llm_generate others sub ps sps fs (Inr rs) fs'"

lemma waits_in_order: "llm_waits others uids fs rs fs' \<Longrightarrow> map tr_uid rs = uids \<and> list_all tr_finished rs"
  by (induction rule: llm_waits.induct)
    (auto simp: wait_result_now_def wait_result_resume_def make_text_result_def split: prod.splits if_splits)

lemma submits_length: "llm_submits others sub ps fs uids fs' \<Longrightarrow> length uids = length ps"
  by (induction rule: llm_submits.induct) simp_all

text \<open>One finished result for each prompt, in the order of the prompts.\<close>

theorem generate_one_result_each:
  assumes "llm_generate others sub ps sps fs (Inr rs) fs'"
  shows "length rs = length ps \<and> list_all tr_finished rs"
proof -
  obtain uids fs1 where "length ps = length sps" "llm_submits others sub (zip ps sps) fs uids fs1" "llm_waits others uids fs1 rs fs'"
    using assms by (rule llm_generateE)
  then have "length uids = length ps" "map tr_uid rs = uids \<and> list_all tr_finished rs"
    using submits_length [of others sub "zip ps sps"] waits_in_order by fastforce+
  then show ?thesis by auto
qed

end
