(* ===== verification/EngineInit.thy ===== *)
theory EngineInit
  imports Graphs Device Models Scheduler HttpProps
begin

text \<open>
  The construction of the engine (\<^verbatim>\<open>Engine::Engine\<close> in \<^verbatim>\<open>src/engine/engine.cc\<close>): from the configurations to the
  page table, the storage, the backend, the dummy request and the captured graphs. The weights that the loader (or the generator
  of random numbers) puts into the model are the parameter \<open>fill\<close>.
\<close>

record 'a engine =
  eng_config :: model_config
  eng_model :: "'a causal_lm"
  eng_num_pages :: int
  eng_max_seq_len :: int
  eng_page_table :: table
  eng_kv_cache :: "'a mha_kvcache"
  eng_qo_heads :: int
  eng_kv_heads :: int
  eng_backend :: flashinfer
  eng_dummy :: req
  eng_graphs :: graph_runner
  eng_graph_map :: graph_map

definition page_table_init :: "int \<Rightarrow> int \<Rightarrow> int \<Rightarrow> int \<Rightarrow> table" where
  "page_table_init max_running max_seq pages ps =
     (let w = nat (align_ceil max_seq 32) in
      (replicate (nat (max_running + 1)) (replicate w 0))[nat max_running := replicate w (pages * ps)])"

definition dummy_req_init :: "int \<Rightarrow> req result" where
  "dummy_req_init max_running =
     initialize_runtime_state (default_req\<lparr>req_id := 2 ^ 64 - 1, input_ids := [0], table_idx := max_running,
       cached_len := 0, output_len := 1, sampling_params := default_sampling_params\<rparr>)"

definition engine_init ::
  "'j json_ops \<Rightarrow> (string \<Rightarrow> 'j result) \<Rightarrow> model_config option \<Rightarrow> environment \<Rightarrow> bool \<Rightarrow> device \<Rightarrow>
   (nat list \<Rightarrow> 'a) \<Rightarrow> (nat \<Rightarrow> 'a) \<Rightarrow> (nat \<Rightarrow> int) \<Rightarrow> plan_arrays \<Rightarrow> plan_fns \<Rightarrow> ('a causal_lm \<Rightarrow> 'a causal_lm result) \<Rightarrow>
   int \<Rightarrow> int option \<Rightarrow> nat \<Rightarrow> 'x engine_config_scheme \<Rightarrow> 'a::one engine result" where
  "engine_init ops load config_override env cuda configured_device junk kv_junk pad_junk ws fns fill tp free_memory dummy_ref ec =
     res_bind (load_model_config ops load config_override ec) (\<lambda>c.
     res_bind (resolve_engine_device env configured_device) (\<lambda>d.
     res_bind (check cuda (TorchCheck ''CUDA is required for Engine'')) (\<lambda>_.
     res_bind (check (d \<noteq> OtherDevice) (TorchCheck ''Engine only supports CUDA devices'')) (\<lambda>_.
     res_bind (check (ec_page_size ec = 1) (TorchCheck ''Current Engine implementation requires page_size == 1'')) (\<lambda>_.
     res_bind (create_model junk tp c) (\<lambda>m0.
     res_bind (check (ec_use_dummy_weight ec \<or> ec_model_path ec \<noteq> []) (TorchCheck ''model_path is required when use_dummy_weight=false'')) (\<lambda>_.
     res_bind (fill m0) (\<lambda>m.
     res_bind (determine_num_pages tp free_memory c ec) (\<lambda>pages.
     res_bind (ec_max_seq_len ops load config_override ec) (\<lambda>configured.
     let max_seq = engine_max_seq_len configured pages ec;
         pt = page_table_init (ec_max_running_req ec) max_seq pages (ec_page_size ec) in
     res_bind (divide_even (num_kv_heads c) tp ''num_kv_heads'') (\<lambda>lk.
     res_bind (divide_even (num_qo_heads c) tp ''num_qo_heads'') (\<lambda>lq.
     let kv = mha_kvcache_init (nat lk) (nat (num_layers c)) (nat (head_dim c)) (nat (pages + 1)) (nat (ec_page_size ec)) kv_junk in
     res_bind (dummy_req_init (ec_max_running_req ec)) (\<lambda>dummy.
     let graph_max_bs = (case ec_cuda_graph_max_batch_size ec of Some n \<Rightarrow> n | None \<Rightarrow> ec_max_running_req ec);
         width = int (length (pt ! nat (ec_max_running_req ec)));
         g = graph_runner_init (ec_enable_cuda_graph ec) (ec_cuda_graph_batch_sizes ec) graph_max_bs width
               (ec_cuda_graph_capture_max_seq_len ec) dummy_ref in
     res_bind (capture_graphs fns pt (\<lambda>_. dummy) g (flashinfer_init pad_junk ws)) (\<lambda>(gm, backend).
     Inr \<lparr>eng_config = c, eng_model = m, eng_num_pages = pages, eng_max_seq_len = max_seq, eng_page_table = pt, eng_kv_cache = kv,
          eng_qo_heads = lq, eng_kv_heads = lk, eng_backend = backend, eng_dummy = dummy, eng_graphs = g, eng_graph_map = gm\<rparr>))))))))))))))"

text \<open>The scheduler starts from the page table and the dummy request that the engine has built.\<close>

lemma page_table_of_scheduler:
  "0 \<le> max_running \<Longrightarrow> page_table_init max_running max_seq pages 1 = engine_page_table max_running max_seq pages"
  by (simp add: page_table_init_def engine_page_table_def Let_def nat_add_distrib replicate_append_same [symmetric]
      list_update_append del: replicate_append_same)

lemma dummy_req_of_scheduler: "dummy_req_init max_running = Inr (engine_dummy_req max_running)"
  by (simp add: dummy_req_init_def engine_dummy_req_def initialize_runtime_state_def validate_runtime_state_def default_req_def
      check_def Let_def)

text \<open>What a constructor that returns has built.\<close>

lemma engine_parts:
  assumes "engine_init ops load over env cuda d junk kv_junk pad_junk ws fns fill tp free_memory dummy_ref ec = Inr e"
  shows "\<exists>configured dummy lk. ec_page_size ec = 1 \<and> dummy_req_init (ec_max_running_req ec) = Inr dummy \<and>
    divide_even (num_kv_heads (eng_config e)) tp ''num_kv_heads'' = Inr lk \<and> eng_dummy e = dummy \<and>
    ec_max_seq_len ops load over ec = Inr configured \<and>
    eng_max_seq_len e = engine_max_seq_len configured (eng_num_pages e) ec \<and>
    eng_page_table e = page_table_init (ec_max_running_req ec) (eng_max_seq_len e) (eng_num_pages e) 1 \<and>
    eng_kv_cache e = mha_kvcache_init (nat lk) (nat (num_layers (eng_config e))) (nat (head_dim (eng_config e)))
      (nat (eng_num_pages e + 1)) 1 kv_junk \<and>
    eng_graphs e = graph_runner_init (ec_enable_cuda_graph ec) (ec_cuda_graph_batch_sizes ec)
      (case ec_cuda_graph_max_batch_size ec of Some n \<Rightarrow> n | None \<Rightarrow> ec_max_running_req ec)
      (int (length (eng_page_table e ! nat (ec_max_running_req ec)))) (ec_cuda_graph_capture_max_seq_len ec) dummy_ref \<and>
    capture_graphs fns (eng_page_table e) (\<lambda>_. eng_dummy e) (eng_graphs e) (flashinfer_init pad_junk ws) =
      Inr (eng_graph_map e, eng_backend e)"
proof -
  obtain c m pages configured lk lq dummy gm backend where ps: "ec_page_size ec = 1"
    and q: "ec_max_seq_len ops load over ec = Inr configured" "divide_even (num_kv_heads c) tp ''num_kv_heads'' = Inr lk"
      "dummy_req_init (ec_max_running_req ec) = Inr dummy"
    and cap: "capture_graphs fns (page_table_init (ec_max_running_req ec) (engine_max_seq_len configured pages ec) pages 1) (\<lambda>_. dummy)
      (graph_runner_init (ec_enable_cuda_graph ec) (ec_cuda_graph_batch_sizes ec)
        (case ec_cuda_graph_max_batch_size ec of Some n \<Rightarrow> n | None \<Rightarrow> ec_max_running_req ec)
        (int (length (page_table_init (ec_max_running_req ec) (engine_max_seq_len configured pages ec) pages 1 ! nat (ec_max_running_req ec))))
        (ec_cuda_graph_capture_max_seq_len ec) dummy_ref) (flashinfer_init pad_junk ws) = Inr (gm, backend)"
    and e: "e = \<lparr>eng_config = c, eng_model = m, eng_num_pages = pages, eng_max_seq_len = engine_max_seq_len configured pages ec,
      eng_page_table = page_table_init (ec_max_running_req ec) (engine_max_seq_len configured pages ec) pages 1,
      eng_kv_cache = mha_kvcache_init (nat lk) (nat (num_layers c)) (nat (head_dim c)) (nat (pages + 1)) 1 kv_junk,
      eng_qo_heads = lq, eng_kv_heads = lk, eng_backend = backend, eng_dummy = dummy,
      eng_graphs = graph_runner_init (ec_enable_cuda_graph ec) (ec_cuda_graph_batch_sizes ec)
        (case ec_cuda_graph_max_batch_size ec of Some n \<Rightarrow> n | None \<Rightarrow> ec_max_running_req ec)
        (int (length (page_table_init (ec_max_running_req ec) (engine_max_seq_len configured pages ec) pages 1 ! nat (ec_max_running_req ec))))
        (ec_cuda_graph_capture_max_seq_len ec) dummy_ref, eng_graph_map = gm\<rparr>"
    using assms by (auto simp: engine_init_def Let_def res_simps split: prod.splits)
  show ?thesis using ps q cap by (simp add: e)
qed

section \<open>The dummy page\<close>


definition demo_engine_config :: scheduler_config where
  "demo_engine_config = default_scheduler_config\<lparr>ec_use_dummy_weight := True, ec_enable_cuda_graph := False,
     ec_num_pages_override := Some 4, ec_max_running_req := 2\<rparr>"

definition demo_engine :: "rat engine result" where
  "demo_engine = engine_init demo_ops (\<lambda>_. Inl (RuntimeError [])) (Some (demo_model_config\<lparr>num_layers := 2\<rparr>)) (\<lambda>_. None) True (Cuda 0)
     (\<lambda>_. 0) (\<lambda>_. 0) (\<lambda>_. 0)
     \<lparr>request_indices = [], kv_tile_indices = [], o_indptr = [], ws_kv_chunk_size = 0, block_valid_mask = []\<rparr> \<lparr>decode_plan = (\<lambda>_ _. None), split_kv_indptr = (\<lambda>_ _ _. ([], [], []))\<rparr>
     Inr 1 None 0 demo_engine_config"

lemma demo_model_created: "\<exists>m. create_model (\<lambda>_. 0 :: rat) 1 (demo_model_config\<lparr>num_layers := 2\<rparr>) = Inr m"
proof -
  have k: "create_model_runner [] ''qwen2'' False = Qwen2ForCausalLM" by code_simp
  have "\<exists>ly. decoder_init (\<lambda>_. 0 :: rat) 1 (demo_model_config\<lparr>num_layers := 2\<rparr>) True False False = Inr ly"
    by (auto simp: decoder_init_def rope_attn_init_def linear_qkv_merged_def linear_o_proj_def linear_base_def divide_even_def
        gated_mlp_init_def linear_col_parallel_merged_def linear_row_parallel_def demo_model_config_def check_def Let_def)
  then show ?thesis
    using k by (auto simp: create_model_def causal_lm_init_def layer_init_defs is_moe_def demo_model_config_def contains_sub_def upt_rec Let_def)
qed

lemma demo_engine_ok: "\<exists>e. demo_engine = Inr e \<and> eng_num_pages e = 4 \<and> eng_config e = demo_model_config\<lparr>num_layers := 2\<rparr>"
  using demo_model_created
    by (auto simp: demo_engine_def engine_init_def demo_engine_config_def default_scheduler_config_def check_def determine_num_pages_def
        load_model_config_def ec_max_seq_len_def resolve_engine_device_def read_optional_env_int_def divide_even_def demo_model_config_def dummy_req_init_def initialize_runtime_state_def
        validate_runtime_state_def default_req_def graph_runner_init_def determine_batch_sizes_def capture_graphs_def Let_def)


end
