(* ===== verification/Startup.thy ===== *)
theory Startup
  imports EngineInit GraphProps SchedProps
begin

text \<open>
  The start of the program: the environment variables of \<^verbatim>\<open>src/scheduler/scheduler.cc\<close> and the construction of the
  scheduler on top of the engine (\<^verbatim>\<open>Scheduler::Scheduler\<close>), and that both are then in the states from which
  the theories of the scheduler and of the graphs start.
\<close>

section \<open>Environment\<close>

text \<open>A variable that is not a number has its default; a negative one counts as zero.\<close>

definition env_int :: "environment \<Rightarrow> string \<Rightarrow> int \<Rightarrow> int" where
  "env_int env name default_value =
     (case env name of
        None \<Rightarrow> default_value
      | Some value \<Rightarrow> (case stoi value of Inr n \<Rightarrow> max 0 n | Inl _ \<Rightarrow> default_value))"

definition decode_burst_pending_limit_env :: "environment \<Rightarrow> int" where
  "decode_burst_pending_limit_env env = env_int env ''SGLANG_CPP_DECODE_BURST_PENDING_LIMIT'' (2 ^ 31 - 1)"

definition decode_burst_limit_env :: "environment \<Rightarrow> int" where
  "decode_burst_limit_env env = env_int env ''SGLANG_CPP_DECODE_BURST'' 0"

section \<open>The scheduler on its engine\<close>

text \<open>
  The scheduler shares the page table, the dummy request and the graphs with the engine; \<open>scheduler_init\<close> makes equal ones from
  the same numbers.
\<close>

definition scheduler_create :: "environment \<Rightarrow> (nat \<Rightarrow> int) \<Rightarrow> scheduler_config \<Rightarrow> 'a engine \<Rightarrow> scheduler result" where
  "scheduler_create env clk sc e =
     res_bind (check (sc_cache_type sc = ''radix'') (TorchCheck ''Only radix cache_type is supported'')) (\<lambda>_.
     scheduler_init (ec_max_running_req sc) (eng_num_pages e) (eng_max_seq_len e) (mc_eos_token_id (eng_config e))
       (mc_vocab_size (eng_config e)) (sc_max_extend_tokens sc) (sc_enable_overlap_scheduling sc) (ec_enable_cuda_graph sc)
       (ec_cuda_graph_batch_sizes sc)
       (case ec_cuda_graph_max_batch_size sc of Some n \<Rightarrow> n | None \<Rightarrow> ec_max_running_req sc)
       (ec_cuda_graph_capture_max_seq_len sc) (decode_burst_limit_env env) (nat (decode_burst_pending_limit_env env)) clk)"

lemma capture_width: "table_cols (page_table_init mr n pages 1) = nat (align_ceil n 32)" if "0 < mr"
  using that by (cases "nat mr") (simp_all add: page_table_of_scheduler engine_page_table_def table_cols_def)

lemma capture_limit:
  "0 \<le> width \<Longrightarrow> 0 \<le> capture_max_seq_len (graph_runner_init en ns mx width cap d) \<and>
     capture_max_seq_len (graph_runner_init en ns mx width cap d) \<le> width"
  by (auto simp: graph_runner_init_def Let_def)

lemma sorted_le_last: "sorted_wrt (<) xs \<Longrightarrow> x \<in> set xs \<Longrightarrow> x \<le> (last xs :: int)"
  by (induction xs) (auto simp: less_imp_le)


section \<open>Example\<close>

lemma engine_init_returns:
  assumes "load_model_config ops load over ec = Inr c" "resolve_engine_device env d = Inr (Cuda i)" "ec_page_size ec = 1"
    and "create_model junk tp c = Inr m0" "ec_use_dummy_weight ec" "fill m0 = Inr m" "determine_num_pages tp free_memory c ec = Inr pages"
    and "ec_max_seq_len ops load over ec = Inr configured" "divide_even (num_kv_heads c) tp ''num_kv_heads'' = Inr lk"
    and "divide_even (num_qo_heads c) tp ''num_qo_heads'' = Inr lq"
    and "pt = page_table_init (ec_max_running_req ec) (engine_max_seq_len configured pages ec) pages 1"
    and "g = graph_runner_init (ec_enable_cuda_graph ec) (ec_cuda_graph_batch_sizes ec)
      (case ec_cuda_graph_max_batch_size ec of Some n \<Rightarrow> n | None \<Rightarrow> ec_max_running_req ec)
      (int (length (pt ! nat (ec_max_running_req ec)))) (ec_cuda_graph_capture_max_seq_len ec) dummy_ref"
    and "capture_graphs fns pt (\<lambda>_. engine_dummy_req (ec_max_running_req ec)) g (flashinfer_init pad_junk ws) = Inr (gm, backend)"
  shows "\<exists>e. engine_init ops load over env True d junk kv_junk pad_junk ws fns fill tp free_memory dummy_ref ec = Inr e \<and>
    eng_config e = c \<and> eng_num_pages e = pages \<and> eng_max_seq_len e = engine_max_seq_len configured pages ec"
  using assms(13) unfolding assms(11,12)
  by (simp add: engine_init_def assms(1-10) check_def dummy_req_of_scheduler Let_def)

definition demo_start_config :: scheduler_config where
  "demo_start_config = demo_engine_config\<lparr>ec_enable_cuda_graph := True, ec_cuda_graph_batch_sizes := [1, 2],
     sc_enable_overlap_scheduling := False\<rparr>"

definition demo_start :: "rat engine result" where
  "demo_start = engine_init demo_ops (\<lambda>_. Inl (RuntimeError [])) (Some (demo_model_config\<lparr>num_layers := 2\<rparr>)) (\<lambda>_. None) True (Cuda 0)
     (\<lambda>_. 0) (\<lambda>_. 0) (\<lambda>_. 0) demo_ws demo_plan Inr 1 None 0 demo_start_config"

lemma demo_start_ok: "\<exists>e. demo_start = Inr e \<and> eng_config e = demo_model_config\<lparr>num_layers := 2\<rparr> \<and> eng_num_pages e = 4 \<and> eng_max_seq_len e = 4"
proof -
  let ?pt = "page_table_init 2 4 4 1" let ?g = "graph_runner_init True [1, 2] 2 32 4096 0"
  have pt: "?pt = engine_page_table 2 4 4" by (simp add: page_table_of_scheduler)
  have w: "length (?pt ! 2) = 32" "table_cols ?pt = 32" "length ?pt = 3"
    by (simp_all add: pt engine_page_table_def align_ceil_def div_ceil_def table_cols_def nth_append numeral_2_eq_2)
  have g: "graph_batch_sizes ?g = [1, 2]" "capture_max_seq_len ?g = 32"
    by (simp_all add: graph_runner_init_def determine_batch_sizes_def Let_def)
  have "\<exists>gm s. capture_graphs demo_plan ?pt (\<lambda>_. engine_dummy_req 2) ?g (flashinfer_init (\<lambda>_. 0) demo_ws) = Inr (gm, s)"
    using capture_graphs_ok [where q = "\<lambda>_. engine_dummy_req 2" and g = ?g and pt = ?pt, OF demo_plan_ok fi_init_ok]
    by (simp add: g w reads_ok_def engine_dummy_req_def device_len_def default_req_def) blast
  then obtain gm s where cap: "capture_graphs demo_plan ?pt (\<lambda>_. engine_dummy_req 2) ?g (flashinfer_init (\<lambda>_. 0) demo_ws) = Inr (gm, s)"
    by blast
  obtain m where m: "create_model (\<lambda>_. 0 :: rat) 1 (demo_model_config\<lparr>num_layers := 2\<rparr>) = Inr m" using demo_model_created by blast
  note cfg = demo_start_config_def demo_engine_config_def default_scheduler_config_def demo_model_config_def
  have "\<exists>e. demo_start = Inr e \<and> eng_config e = demo_model_config\<lparr>num_layers := 2\<rparr> \<and> eng_num_pages e = 4 \<and>
      eng_max_seq_len e = engine_max_seq_len 32768 4 demo_start_config"
    unfolding demo_start_def
    by (rule engine_init_returns [where configured = 32768 and i = 0 and pt = ?pt and g = ?g and lk = 8 and lq = 16 and gm = gm and backend = s, OF _ _ _ m])
      (use cap w in \<open>simp_all add: load_model_config_def resolve_engine_device_def read_optional_env_int_def determine_num_pages_def
        ec_max_seq_len_def divide_even_def engine_max_seq_len_def cfg check_def\<close>)
  then show ?thesis by (simp add: engine_max_seq_len_def cfg)
qed


end
