(* ===== verification/Spec2Isabelle.thy ===== *)
theory Spec2Isabelle
  imports PrefillBatch CacheProps PoolProps EngineProps ArgsProps HttpProps WeightProps SchedProps ForwardProps
    TensorParallel SamplingProps Offline Startup
begin

text \<open>
  A verification development for sglang.cpp, a C++ server for large language models: a port of the
  serving loop of SGLang with a radix tree as prefix cache, continuous batching, chunked prefill and
  CUDA graphs. Everything below is a model of the code under \<^verbatim>\<open>src/\<close>, one group of definitions per
  component, in the order in which the code calls them, and theorems about those definitions.

  \<^bold>\<open>The program.\<close> \<^verbatim>\<open>src/main.cpp\<close> parses the command line and starts the HTTP server. A handler of
  the server hands a request to the front end, which tokenizes it on a worker thread and submits it to the
  thread of the scheduler. The scheduler admits requests as far as the rows of the page table and
  the pages allow, reuses the longest cached prefix, prepares a batch and calls the engine; the engine pads the batch to a
  captured graph, prepares the metadata of the attention backend, runs the model and samples. The
  tokens go back through the detokenizer to the promises on which the handlers wait. With
  tensor parallelism every rank runs the same program on its shards of the weights.

  \<^bold>\<open>Conventions\<close> (\<open>Prelude\<close>). A throw or a failed \<^verbatim>\<open>TORCH_CHECK\<close> is the left of \<open>error + 'a\<close>, composed
  with \<open>res_bind\<close>; \<open>check\<close> is a test that may fail. State is passed and returned. A one-dimensional tensor is
  a list, with \<open>islice\<close> for \<^verbatim>\<open>slice\<close>; requests and nodes of the tree that the code shares by
  pointer are numbers into a map. Integers of the code are \<open>int\<close>, with the wrap-around written
  out where it matters (\<open>as_size_t\<close>, the hashes of \<open>RadixNode\<close>). Libraries (PyTorch, FlashInfer, NCCL, the tokenizer, JSON and HTTP
  libraries) are parameters: records of functions, whose documented behaviour is a named hypothesis
  of the theorems that need it (\<open>attn_kernels\<close>, \<open>plan_ok\<close>, \<open>fns_ok\<close> and the like), with a
  witness that shows a concrete instance.

  \<^bold>\<open>Prefix cache.\<close> \<open>RadixNode\<close>, \<open>PrefixCache\<close>, \<open>RadixTree\<close>: \<^verbatim>\<open>src/kvcache/radix_tree.cc\<close>,
  \<^verbatim>\<open>cache_manager.cc\<close>, \<^verbatim>\<open>src/kernels/radix.cc\<close>. The invariant \<open>radix_ok\<close> (\<open>RadixTree\<close>) and that walking,
  splitting, inserting, locking and evicting keep it (\<open>RadixSplit\<close>, \<open>RadixWalk\<close>, \<open>RadixInsert\<close>,
  \<open>RadixLock\<close>, \<open>RadixCut\<close>, \<open>RadixEvict\<close>); what the tree stores, as a function of prefixes (\<open>RadixSlots\<close>, \<open>RadixCount\<close>);
  eviction as the least-recently-used specification \<open>lru_evict\<close> (\<open>RadixLru\<close>). \<open>CacheInterface\<close> states the abstract
  class \<^verbatim>\<open>BasePrefixCache\<close> as a locale and interprets it on the radix cache; the priority
  queue of eviction is the locale of \<open>RadixCut\<close>. \<open>CacheProps\<close> holds the properties.

  \<^bold>\<open>Pages.\<close> \<open>TokenPool\<close> (\<^verbatim>\<open>src/kernels/token_pool.cu\<close>), \<open>CacheManager\<close> (\<^verbatim>\<open>TableManager\<close> and
  \<^verbatim>\<open>CacheManager\<close>); \<open>PagePool\<close>, \<open>PageTable\<close> and \<open>CacheReq\<close> show that every page is in exactly one place,
  free, cached or private to a request, and that allocation and release move pages and lose
  none. \<open>PoolProps\<close> holds the properties.

  \<^bold>\<open>Scheduling.\<close> \<open>Core\<close> (\<^verbatim>\<open>src/core\<close>), \<open>Prefill\<close> (\<^verbatim>\<open>prefill.cc\<close>, \<^verbatim>\<open>decode.cc\<close>), \<open>Scheduler\<close>
  (\<^verbatim>\<open>scheduler.cc\<close>): admission, chunks, the step without and with overlap, abortion. \<open>Ownership\<close>,
  \<open>Admission\<close> and \<open>PrefillBatch\<close> say who owns which row and page and what an admitted batch looks like; \<open>SchedInv\<close>
  is the invariant of the scheduler without overlap, and \<open>SchedPrefill\<close>, \<open>SchedForward\<close>, \<open>SchedProcess\<close>, \<open>SchedBatch\<close>, \<open>SchedStep\<close>,
  \<open>SchedIdle\<close>, \<open>SchedOps\<close> show that each part of a step and each operation keeps it. \<open>SchedProps\<close>
  concludes: no reachable step throws, and \<^verbatim>\<open>run_until_idle\<close>, whose loop has the fuel \<open>nat (work_of s)\<close>, the
  tokens still to be computed, reaches the idle state within it.

  \<^bold>\<open>Engine.\<close> \<open>Engine\<close> (\<^verbatim>\<open>src/engine/engine.cc\<close>: graph sizes, padding, sampling parameters, rows to sample), \<open>ModelConfig\<close>
  (\<^verbatim>\<open>src/models/config.cc\<close>, the number of pages), \<open>Kernel\<close> (threads, their stores, the sum of a
  warp), \<open>Device\<close> (\<^verbatim>\<open>mha_kvcache.cu\<close>, \<^verbatim>\<open>normalization.cu\<close>, \<^verbatim>\<open>rotary_embedding.cu\<close>), \<open>Attention\<close> and
  \<open>Forward\<close> (\<^verbatim>\<open>flashinfer_backend.cu\<close>), \<open>Graphs\<close> (capture and replay). A launch is the list of its threads in some
  order; \<open>DeviceProps\<close>, \<open>AttentionProps\<close>, \<open>GraphProps\<close> and \<open>ForwardProps\<close> show that the order does not matter, or
  where it does, and that each token attends to the pages of its own request. Memory that is not initialised has arbitrary
  contents, which are a parameter.

  \<^bold>\<open>Weights and ranks.\<close> \<open>WeightNames\<close>, \<open>WeightLoader\<close> (\<^verbatim>\<open>weight_loader.cc\<close>), \<open>Distributed\<close> (\<^verbatim>\<open>distributed.cc\<close>); \<open>WeightProps\<close>
  shows which rows a shard holds, that the number of files read at a time does not matter, and
  what a damaged header can do.

  \<^bold>\<open>Models.\<close> \<open>Layers\<close> (\<^verbatim>\<open>src/layers/linear.cc\<close>, \<^verbatim>\<open>embedding.cc\<close>, \<^verbatim>\<open>activation.cu\<close> and the gated network of \<^verbatim>\<open>src/models/utils.cc\<close>)
  and \<open>Models\<close> (\<^verbatim>\<open>attention_layer.cc\<close>, \<^verbatim>\<open>src/moe/moe.cc\<close>, the class \<^verbatim>\<open>RMSNorm\<close>, the five models of \<^verbatim>\<open>src/models\<close>) are written for a group of ranks:
  an activation is the list of what each rank holds, and an operation without communication a map over the ranks.
  \<open>LayerProps\<close>, \<open>HeadProps\<close>, \<open>GroupProps\<close> and \<open>MoeProps\<close> show what linear layers, attention heads, the gated network and the experts
  of a group compute when each rank holds the shard that \<open>shard_tensor_for_parameter\<close> gives it; \<open>ModelProps\<close>
  composes them by induction over the layers, and \<open>TensorParallel\<close> concludes that a group computes what one process computes. Qwen2 is
  excluded there: the loader misplaces its biases (\<open>qkv_bias_misplaced\<close>).

  \<^bold>\<open>Sampling and start.\<close> \<open>Sampling\<close> (\<^verbatim>\<open>Sampler::sample\<close> and its fallback in \<^verbatim>\<open>engine.cc\<close>, \<^verbatim>\<open>sampling.cu\<close>); minus infinity is \<open>None\<close>.
  \<open>SamplingProps\<close> shows what the fallback can draw, and that the sampler passes every check of the kernels.
  \<open>EngineInit\<close> is the constructor of the engine and \<open>Startup\<close> that of the scheduler on top of it: a constructor that returns leaves
  both in the states from which \<open>SchedProps\<close> and \<open>GraphProps\<close> start. \<open>Offline\<close> (\<^verbatim>\<open>src/llm/llm.cc\<close>) is the interface without a
  server, as steps of the front end between those of the other threads.

  \<^bold>\<open>Front.\<close> \<open>Strings\<close>, \<open>Json\<close>, \<open>Args\<close> (\<^verbatim>\<open>args.cc\<close>), \<open>Tokenizer\<close> (\<^verbatim>\<open>hf_tokenizer.cc\<close>), \<open>Frontend\<close>
  (\<^verbatim>\<open>frontend.cc\<close>), \<open>Http\<close> (\<^verbatim>\<open>http_server.cc\<close>). The threads of the front end are steps of the
  relation \<open>fe_step\<close> in any order, with the invariant \<open>fe_inv\<close> proved by rule induction; \<open>ArgsProps\<close>,
  \<open>TokenizerProps\<close>, \<open>FrontendProps\<close>, \<open>HttpProps\<close> hold the properties.

  \<^bold>\<open>Fuel.\<close> The loops of the code are structural recursion, functions with a measure, or, for the walk over a tree
  given by pointers and for the loop of the scheduler, fuel: the number of nodes bounds every walk along parents
  or children of a tree that satisfies \<open>radix_ok\<close> (\<open>CacheProps.reachable_total\<close> shows that no operation runs out), and
  \<open>work_of\<close> bounds the steps of the scheduler.

  \<^bold>\<open>Not modelled.\<close> The kernels of FlashInfer, cuBLAS and PyTorch and the arithmetic of floating point: scalars are elements of a
  ring or field, so rounding is left out, and with it every difference that the order of a sum makes. Types and devices
  of tensors appear only where a check of the code depends on them and may fail. Streams, events
  and the capture of CUDA graphs are seen through what is read and written, in the order of the
  program. NCCL is its all-reduce and the exchange of its identifier, the HTTP library its callbacks. The random initial weights are a
  parameter; profiling, logging and \<^verbatim>\<open>src/main.cpp\<close> only print or start the process. The invariant of the scheduler is proved
  for the loop without overlap; the loop with overlap is modelled, and the findings of the manifest list what goes wrong there.
\<close>

end
